(* ===== verification/Prelude.thy ===== *)
theory Prelude
  imports Main "HOL-Library.Word" "HOL-Library.List_Lexorder"
begin

text \<open>
  Shared vocabulary of the development: the machine types of the Rust sources, results
  (\<open>Result<T, E>\<close> as a sum), big-endian byte strings (\<open>to_be_bytes\<close> and
  \<open>from_be_bytes\<close>), the UTF-8 validity test of the standard library, and
  \<open>BTreeMap\<close> as a strictly sorted association list.

  Conventions.  \<open>u8\<close> and \<open>u64\<close> are unsigned words, an \<open>i64\<close> is the
  64-bit word of its two's complement representation, compared with the signed orders
  \<open><s\<close> and \<open>\<le>s\<close>; \<open>+\<close> on words wraps, as it does in a release build.
  \<open>usize\<close> is a natural number (a length of a value in memory).  A fixed-size array
  \<open>[u8; n]\<close> is a word of \<open>8 * n\<close> bits read big-endian, so that the word order is
  the lexicographic order of the array.
\<close>

unbundle bit_operations_syntax

subsection \<open>Machine types\<close>

type_synonym u8 = "8 word"
type_synonym u16 = "16 word"
type_synonym u32 = "32 word"
type_synonym u64 = "64 word"
type_synonym i64 = "64 word"
type_synonym bytes = "8 word list"
type_synonym b16 = "128 word"
type_synonym b32 = "256 word"
type_synonym b64 = "512 word"

named_theorems res_simps \<open>case distinctions on results\<close>
named_theorems codec_simps \<open>encode and decode round trips\<close>
named_theorems map_simps \<open>lookups in ordered maps\<close>

subsection \<open>Results\<close>

text \<open>\<open>Result<T, E>\<close>: \<open>Ok\<close> and \<open>Err\<close> are the two injections of the sum,
  \<open>rbind\<close> is the \<open>?\<close> operator, \<open>ensure\<close> an early return.\<close>

abbreviation Ok :: "'a \<Rightarrow> 'e + 'a" where
  "Ok \<equiv> Inr"

abbreviation Err :: "'e \<Rightarrow> 'e + 'a" where
  "Err \<equiv> Inl"

fun rbind :: "'e + 'a \<Rightarrow> ('a \<Rightarrow> 'e + 'b) \<Rightarrow> 'e + 'b" where
  "rbind (Inl e) f = Inl e"
| "rbind (Inr x) f = f x"

fun map_err :: "('e \<Rightarrow> 'f) \<Rightarrow> 'e + 'a \<Rightarrow> 'f + 'a" where
  "map_err f (Inl e) = Inl (f e)"
| "map_err f (Inr x) = Inr x"

definition ensure :: "bool \<Rightarrow> 'e \<Rightarrow> 'e + unit" where
  "ensure b e = (if b then Ok () else Err e)"

fun ok_or :: "'a option \<Rightarrow> 'e \<Rightarrow> 'e + 'a" where
  "ok_or None e = Err e"
| "ok_or (Some x) e = Ok x"

fun rmapM :: "('a \<Rightarrow> 'e + 'b) \<Rightarrow> 'a list \<Rightarrow> 'e + 'b list" where
  "rmapM f [] = Ok []"
| "rmapM f (x # xs) = rbind (f x) (\<lambda>y. rbind (rmapM f xs) (\<lambda>ys. Ok (y # ys)))"

lemma rbind_cong [fundef_cong]:
  "m = n \<Longrightarrow> (\<And>x. n = Inr x \<Longrightarrow> f x = g x) \<Longrightarrow> rbind m f = rbind n g"
  by (cases n) auto

lemma rbind_Ok_iff [res_simps]: "rbind m f = Inr y \<longleftrightarrow> (\<exists>x. m = Inr x \<and> f x = Inr y)"
  by (cases m) auto

lemma rbind_Err_iff [res_simps]:
  "rbind m f = Inl e \<longleftrightarrow> m = Inl e \<or> (\<exists>x. m = Inr x \<and> f x = Inl e)"
  by (cases m) auto

lemma rbind_assoc: "rbind (rbind m f) g = rbind m (\<lambda>x. rbind (f x) g)"
  by (cases m) auto

lemma rbind_Ok_right [simp]: "rbind m Inr = m"
  by (cases m) auto

lemma map_err_Ok_iff [res_simps]: "map_err f m = Inr y \<longleftrightarrow> m = Inr y"
  by (cases m) auto

lemma map_err_Err_iff [res_simps]: "map_err f m = Inl e \<longleftrightarrow> (\<exists>d. m = Inl d \<and> e = f d)"
  by (cases m) auto

lemma ensure_Ok_iff [res_simps]: "ensure b e = Inr u \<longleftrightarrow> b"
  by (simp add: ensure_def)

lemma ensure_Err_iff [res_simps]: "ensure b e = Inl d \<longleftrightarrow> \<not> b \<and> d = e"
  by (auto simp: ensure_def)

lemma ensure_True [simp]: "ensure True e = Inr ()" and ensure_False [simp]: "ensure False e = Inl e"
  by (simp_all add: ensure_def)

lemma ok_or_Ok_iff [res_simps]: "ok_or m e = Inr x \<longleftrightarrow> m = Some x"
  by (cases m) auto

lemma ok_or_Err_iff [res_simps]: "ok_or m e = Inl d \<longleftrightarrow> m = None \<and> d = e"
  by (cases m) auto

lemma rmapM_cong [fundef_cong]:
  "xs = ys \<Longrightarrow> (\<And>x. x \<in> set ys \<Longrightarrow> f x = g x) \<Longrightarrow> rmapM f xs = rmapM g ys"
  by (induction ys arbitrary: xs) auto

lemma rmapM_Ok_iff: "rmapM f xs = Inr ys \<longleftrightarrow> list_all2 (\<lambda>x y. f x = Inr y) xs ys"
  by (induction xs arbitrary: ys) (auto simp: res_simps list_all2_Cons1)

lemma rmapM_map: "rmapM f (map g xs) = rmapM (\<lambda>x. f (g x)) xs"
  by (induction xs) auto

lemma rmapM_all_Ok: "(\<And>x. x \<in> set xs \<Longrightarrow> f x = Inr (g x)) \<Longrightarrow> rmapM f xs = Inr (map g xs)"
  by (induction xs) auto

lemma rmapM_length: "rmapM f xs = Inr ys \<Longrightarrow> length ys = length xs"
  by (auto simp: rmapM_Ok_iff dest: list_all2_lengthD)

subsection \<open>Codecs\<close>

text \<open>The contract of an encoder and its decoder: the decoder accepts exactly the encodings of
  well-formed values.\<close>

locale codec =
  fixes enc :: "'a \<Rightarrow> 'e + 'b"
    and dec :: "'b \<Rightarrow> 'f + 'a"
    and wf :: "'a \<Rightarrow> bool"
  assumes dec_exact: "dec b = Inr v \<longleftrightarrow> enc v = Inr b \<and> wf v"
begin

lemma round_trip: "enc v = Inr b \<Longrightarrow> wf v \<Longrightarrow> dec b = Inr v"
  by (simp add: dec_exact)

lemma canonical: "dec b = Inr v \<Longrightarrow> enc v = Inr b"
  by (simp add: dec_exact)

lemma dec_wf: "dec b = Inr v \<Longrightarrow> wf v"
  by (simp add: dec_exact)

lemma enc_inj: "enc v = Inr b \<Longrightarrow> enc w = Inr b \<Longrightarrow> wf v \<Longrightarrow> wf w \<Longrightarrow> v = w"
  using round_trip [of v b] round_trip [of w b] by simp

lemma dec_inj: "dec b = Inr v \<Longrightarrow> dec c = Inr v \<Longrightarrow> b = c"
  by (simp add: dec_exact)

end

subsection \<open>Big-endian bytes\<close>

fun be_bytes :: "nat \<Rightarrow> 'a::len word \<Rightarrow> bytes" where
  "be_bytes 0 w = []"
| "be_bytes (Suc n) w = ucast (drop_bit (8 * n) w) # be_bytes n w"

fun of_be_acc :: "'a::len word \<Rightarrow> bytes \<Rightarrow> 'a word" where
  "of_be_acc a [] = a"
| "of_be_acc a (b # bs) = of_be_acc (push_bit 8 a OR ucast b) bs"

definition of_be :: "bytes \<Rightarrow> 'a::len word" where
  "of_be bs = of_be_acc 0 bs"

lemma length_be_bytes [simp]: "length (be_bytes n w) = n"
  by (induction n) auto

lemma of_be_acc_be_bytes:
  "of_be_acc a (be_bytes n w) = push_bit (8 * n) a OR take_bit (8 * n) (w :: 'a::len word)"
proof (induction n arbitrary: a)
  case (Suc n)
  show ?case
    by (simp add: Suc) (rule bit_word_eqI, auto simp: bit_simps algebra_simps)
qed simp

lemma of_be_be_bytes [codec_simps]:
  "of_be (be_bytes n w) = take_bit (8 * n) (w :: 'a::len word)"
  by (simp add: of_be_def of_be_acc_be_bytes)

lemma be_bytes_of_be_acc:
  assumes "8 * length bs \<le> LENGTH('a)"
  shows "be_bytes (length bs) (of_be_acc a bs :: 'a::len word) = bs
    \<and> (\<exists>w. of_be_acc a bs = push_bit (8 * length bs) a OR w \<and> take_bit (8 * length bs) w = w)"
  using assms
proof (induction bs arbitrary: a)
  case Nil
  have "a = push_bit 0 a OR 0" by simp
  then show ?case by (auto intro!: exI [of _ 0])
next
  case (Cons b bs)
  let ?n = "length bs" and ?a = "push_bit 8 a OR ucast b :: 'a word"
  from Cons.IH [of ?a] Cons.prems obtain w where
    bs: "be_bytes ?n (of_be_acc ?a bs) = bs" and
    w: "of_be_acc ?a bs = push_bit (8 * ?n) ?a OR w" "take_bit (8 * ?n) w = w"
    by auto
  have bit_w: "bit w i \<longleftrightarrow> i < 8 * ?n \<and> bit w i" for i
    by (subst w(2) [symmetric], subst (2) w(2) [symmetric]) (simp add: bit_simps)
  have hd: "ucast (drop_bit (8 * ?n) (of_be_acc ?a bs)) = b"
    unfolding w(1)
    by (rule bit_word_eqI)
      (use Cons.prems bit_w in \<open>auto simp: bit_simps dest: bit_imp_le_length\<close>)
  let ?w = "push_bit (8 * ?n) (ucast b) OR w :: 'a word"
  have "of_be_acc ?a bs = push_bit (8 * Suc ?n) a OR ?w"
    unfolding w(1) by (rule bit_word_eqI) (auto simp: bit_simps algebra_simps)
  moreover have "take_bit (8 * Suc ?n) ?w = ?w"
  proof (rule bit_word_eqI)
    fix i assume "i < LENGTH('a)"
    show "bit (take_bit (8 * Suc ?n) ?w) i = bit ?w i"
      using bit_w [of i] by (auto simp: bit_simps dest: bit_imp_le_length)
  qed
  ultimately show ?case using bs hd by auto
qed

lemma be_bytes_of_be [codec_simps]:
  "8 * length bs \<le> LENGTH('a) \<Longrightarrow> n = length bs \<Longrightarrow> be_bytes n (of_be bs :: 'a::len word) = bs"
  using be_bytes_of_be_acc [of bs "0 :: 'a word"] by (simp add: of_be_def)

lemma take_bit_of_be:
  "8 * length bs \<le> LENGTH('a) \<Longrightarrow> take_bit (8 * length bs) (of_be bs) = (of_be bs :: 'a::len word)"
  using be_bytes_of_be_acc [of bs "0 :: 'a word"] by (auto simp: of_be_def)

lemma of_be_bound:
  assumes "8 * length bs \<le> LENGTH('a)"
  shows "unat (of_be bs :: 'a::len word) < 2 ^ (8 * length bs)"
  by (subst take_bit_of_be [OF assms, symmetric]) (simp add: unsigned_take_bit_eq)

lemma be_bytes_take_bit: "8 * n \<le> m \<Longrightarrow> be_bytes n (take_bit m w) = be_bytes n w"
proof (induction n)
  case (Suc n)
  then show ?case
    by (auto simp: bit_simps intro!: bit_word_eqI)
qed simp

lemma be_bytes_eq_iff [simp]:
  "8 * n = LENGTH('a) \<Longrightarrow> be_bytes n v = be_bytes n w \<longleftrightarrow> v = (w :: 'a::len word)"
  by (metis of_be_be_bytes take_bit_word_eq_self order_refl)

subsection \<open>Signed reading\<close>

lemma sint64: "sint (w :: 64 word) = (if unat w < 2 ^ 63 then int (unat w) else int (unat w) - 2 ^ 64)"
proof -
  define k where "k = int (unat w)"
  have k: "0 \<le> k" "k < 2 ^ 64"
    using unsigned_less [of w, where 'a = nat]
    unfolding k_def by (simp_all del: of_nat_unat)
  have "sint w = (k + 2 ^ 63) mod 2 ^ 64 - 2 ^ 63"
    by (simp add: k_def sint_uint signed_take_bit_eq_take_bit_shift take_bit_eq_mod)
  moreover have "(k + 2 ^ 63) mod 2 ^ 64 = (if k < 2 ^ 63 then k + 2 ^ 63 else k - 2 ^ 63)"
  proof (cases "k < 2 ^ 63")
    case False
    have "(k + 2 ^ 63) mod 2 ^ 64 = (k - 2 ^ 63 + 2 ^ 64) mod 2 ^ 64" by (simp add: add.commute)
    also have "\<dots> = (k - 2 ^ 63) mod 2 ^ 64" by (rule mod_add_self2)
    finally show ?thesis using False k by simp
  qed (use k in simp)
  ultimately show ?thesis unfolding k_def by (auto simp del: of_nat_unat)
qed

lemma sle_0: "0 \<le>s (w :: 64 word) \<longleftrightarrow> unat w < 2 ^ 63"
  unfolding word_sle_eq sint64
  using unsigned_less [of w, where 'a = nat] by (auto simp del: of_nat_unat)

lemma unat_not: "unat (- 1 - w :: 64 word) = 2 ^ 64 - 1 - unat w"
proof -
  have "unat (- 1 :: 64 word) = 2 ^ 64 - 1" by (simp add: unsigned_minus_1_eq_mask mask_eq_exp_minus_1)
  moreover have "w \<le> - 1" by simp
  ultimately show ?thesis by (metis unat_sub)
qed

subsection \<open>UTF-8\<close>

text \<open>The test of \<open>std::str::from_utf8\<close>: well-formed byte sequences of the Unicode
  standard (no overlong forms, no surrogates, nothing above U+10FFFF).\<close>

definition utf8_cont :: "u8 \<Rightarrow> bool" where
  "utf8_cont b \<longleftrightarrow> 0x80 \<le> b \<and> b \<le> 0xBF"

fun utf8_valid :: "bytes \<Rightarrow> bool" where
  "utf8_valid [] \<longleftrightarrow> True"
| "utf8_valid (a # xs) \<longleftrightarrow>
    (if a < 0x80 then utf8_valid xs
     else if 0xC2 \<le> a \<and> a \<le> 0xDF then
       (case xs of b # ys \<Rightarrow> utf8_cont b \<and> utf8_valid ys | _ \<Rightarrow> False)
     else if 0xE0 \<le> a \<and> a \<le> 0xEF then
       (case xs of b # c # ys \<Rightarrow> utf8_cont b \<and> utf8_cont c
            \<and> (a = 0xE0 \<longrightarrow> 0xA0 \<le> b) \<and> (a = 0xED \<longrightarrow> b \<le> 0x9F) \<and> utf8_valid ys
        | _ \<Rightarrow> False)
     else if 0xF0 \<le> a \<and> a \<le> 0xF4 then
       (case xs of b # c # d # ys \<Rightarrow> utf8_cont b \<and> utf8_cont c \<and> utf8_cont d
            \<and> (a = 0xF0 \<longrightarrow> 0x90 \<le> b) \<and> (a = 0xF4 \<longrightarrow> b \<le> 0x8F) \<and> utf8_valid ys
        | _ \<Rightarrow> False)
     else False)"

text \<open>The bytes of an ASCII string literal of the source.\<close>

definition ascii :: "string \<Rightarrow> bytes" where
  "ascii s = map of_char s"

definition ascii_only :: "bytes \<Rightarrow> bool" where
  "ascii_only bs \<longleftrightarrow> list_all (\<lambda>b. b < 0x80) bs"

lemma ascii_utf8: "ascii_only bs \<Longrightarrow> utf8_valid bs"
  by (induction bs) (auto simp: ascii_only_def)

lemma ascii_append [simp]: "ascii (s @ t) = ascii s @ ascii t"
  by (simp add: ascii_def)

lemma unat_of_char: "unat (of_char c :: u8) = of_char c"
proof -
  have "unat (of_nat (of_char c) :: u8) = of_char c"
    by (simp add: unat_of_nat take_bit_nat_eq_self del: of_nat_of_char)
  then show ?thesis by (simp add: of_nat_of_char)
qed

lemma ascii_inj [simp]: "ascii s = ascii t \<longleftrightarrow> s = t"
proof
  have "inj (of_char :: char \<Rightarrow> u8)"
    by (rule injI) (metis unat_of_char of_char_eq_iff)
  then show "s = t" if "ascii s = ascii t" using that by (simp add: ascii_def)
qed simp

lemma length_ascii [simp]: "length (ascii s) = length s"
  by (simp add: ascii_def)

lemma utf8_valid_append_ascii: "ascii_only bs \<Longrightarrow> utf8_valid (bs @ cs) = utf8_valid cs"
  by (induction bs) (auto simp: ascii_only_def)

text \<open>Decimal notation of a number, as \<open>format!\<close> prints it.\<close>

fun show_nat :: "nat \<Rightarrow> string" where
  "show_nat n =
    (if n < 10 then [char_of (48 + n)] else show_nat (n div 10) @ [char_of (48 + n mod 10)])"

declare show_nat.simps [simp del]

subsection \<open>Saturating arithmetic\<close>

definition sat_add :: "u64 \<Rightarrow> u64 \<Rightarrow> u64" where
  "sat_add a b = (if unat a + unat b < 2 ^ 64 then a + b else - 1)"

definition sat_sub :: "u64 \<Rightarrow> u64 \<Rightarrow> u64" where
  "sat_sub a b = (if b \<le> a then a - b else 0)"

definition sat_mul :: "u64 \<Rightarrow> u64 \<Rightarrow> u64" where
  "sat_mul a b = (if unat a * unat b < 2 ^ 64 then a * b else - 1)"

lemma unat_max_word: "unat (- 1 :: u64) = 2 ^ 64 - 1"
  by (simp add: unsigned_minus_1_eq_mask mask_eq_exp_minus_1)

lemma unat_sat_add: "unat (sat_add a b) = min (unat a + unat b) (2 ^ 64 - 1)"
  by (auto simp: sat_add_def unat_max_word unat_word_ariths)

lemma unat_sat_sub: "unat (sat_sub a b) = unat a - unat b"
  by (auto simp: sat_sub_def unat_sub word_le_nat_alt)

lemma unat_sat_mul: "unat (sat_mul a b) = min (unat a * unat b) (2 ^ 64 - 1)"
  by (auto simp: sat_mul_def unat_max_word unat_word_ariths)

subsection \<open>Ordered maps\<close>

text \<open>\<open>BTreeMap<K, V>\<close> (and \<open>BTreeSet\<close>, with unit values): the entries in ascending
  key order.  The representation is canonical, so equality of lists is equality of maps and
  \<open>map\<close>, \<open>filter\<close> and \<open>fold\<close> iterate in the order \<open>iter()\<close> has.\<close>

type_synonym ('k, 'v) bmap = "('k \<times> 'v) list"

fun bm_insert :: "'k::linorder \<Rightarrow> 'v \<Rightarrow> ('k, 'v) bmap \<Rightarrow> ('k, 'v) bmap" where
  "bm_insert k v [] = [(k, v)]"
| "bm_insert k v ((k', v') # m) =
    (if k < k' then (k, v) # (k', v') # m
     else if k = k' then (k, v) # m
     else (k', v') # bm_insert k v m)"

definition bm_remove :: "'k \<Rightarrow> ('k, 'v) bmap \<Rightarrow> ('k, 'v) bmap" where
  "bm_remove k m = filter (\<lambda>p. fst p \<noteq> k) m"

definition bm_ok :: "('k::linorder, 'v) bmap \<Rightarrow> bool" where
  "bm_ok m \<longleftrightarrow> sorted_wrt (<) (map fst m)"

abbreviation bm_keys :: "('k, 'v) bmap \<Rightarrow> 'k list" where
  "bm_keys m \<equiv> map fst m"

abbreviation bm_mem :: "'k \<Rightarrow> ('k, 'v) bmap \<Rightarrow> bool" where
  "bm_mem k m \<equiv> map_of m k \<noteq> None"

lemma bm_ok_Nil [simp]: "bm_ok []"
  by (simp add: bm_ok_def)

lemma bm_ok_Cons: "bm_ok ((k, v) # m) \<longleftrightarrow> (\<forall>x\<in>fst ` set m. k < x) \<and> bm_ok m"
  by (auto simp: bm_ok_def)

lemma bm_ok_distinct: "bm_ok m \<Longrightarrow> distinct (map fst m)"
  by (simp add: bm_ok_def strict_sorted_iff)

lemma set_bm_insert_keys: "fst ` set (bm_insert k v m) = insert k (fst ` set m)"
  by (induction k v m rule: bm_insert.induct) (auto simp: insert_commute)

lemma bm_insert_ok [simp, intro]: "bm_ok m \<Longrightarrow> bm_ok (bm_insert k v m)"
proof (induction m)
  case (Cons p m)
  then show ?case
    by (cases p) (force simp: bm_ok_Cons set_bm_insert_keys)
qed (simp add: bm_ok_Cons)

lemma bm_insert_lookup [simp, map_simps]: "bm_ok m \<Longrightarrow> map_of (bm_insert k v m) = (map_of m)(k \<mapsto> v)"
  by (induction m) (auto simp: bm_ok_Cons fun_upd_twist)

lemma bm_remove_ok [simp, intro]: "bm_ok m \<Longrightarrow> bm_ok (bm_remove k m)"
  by (induction m) (auto simp: bm_ok_Cons bm_remove_def)

lemma bm_filter_ok [simp, intro]: "bm_ok m \<Longrightarrow> bm_ok (filter P m)"
  by (induction m) (auto simp: bm_ok_Cons)

lemma bm_remove_lookup [simp, map_simps]: "map_of (bm_remove k m) = (map_of m)(k := None)"
  by (induction m) (auto simp: bm_remove_def fun_eq_iff)

lemma bm_map_ok [simp]: "bm_ok (map (\<lambda>(k, v). (k, f k v)) m) = bm_ok m"
  by (simp add: bm_ok_def comp_def split_def)

lemma bm_lookup_mem: "bm_ok m \<Longrightarrow> map_of m k = Some v \<longleftrightarrow> (k, v) \<in> set m"
  by (simp add: bm_ok_distinct)

lemma bm_filter_lookup_Some:
  "bm_ok m \<Longrightarrow> map_of (filter P m) k = Some v \<longleftrightarrow> map_of m k = Some v \<and> P (k, v)"
  by (simp add: bm_lookup_mem)

lemma bm_filter_lookup:
  "bm_ok m \<Longrightarrow> map_of (filter P m) k = (case map_of m k of
     None \<Rightarrow> None | Some v \<Rightarrow> if P (k, v) then Some v else None)"
  by (auto simp: bm_filter_lookup_Some split: option.split)
    (metis bm_filter_lookup_Some not_None_eq option.distinct(1) option.inject)+

lemma bm_ext: "bm_ok m \<Longrightarrow> bm_ok n \<Longrightarrow> map_of m = map_of n \<Longrightarrow> m = n"
proof -
  assume ok: "bm_ok m" "bm_ok n" and eq: "map_of m = map_of n"
  then have "set m = set n"
    using map_of_inject_set [of m n] bm_ok_distinct by blast
  moreover have "map fst m = map fst n"
    using ok \<open>set m = set n\<close>
    by (intro strict_sorted_equal) (auto simp: bm_ok_def)
  moreover have "map (\<lambda>k. (k, the (map_of p k))) (map fst p) = p" if "bm_ok p" for p :: "('a, 'b) bmap"
    unfolding map_map by (rule map_idI) (use bm_ok_distinct [OF that] in auto)
  ultimately show ?thesis using ok eq by metis
qed

text \<open>The contract of an ordered map, and what its clients use of it.\<close>

locale ordered_map =
  fixes empty :: "'m"
    and lookup :: "'m \<Rightarrow> 'k \<Rightarrow> 'v option"
    and upd :: "'k \<Rightarrow> 'v \<Rightarrow> 'm \<Rightarrow> 'm"
    and del :: "'k \<Rightarrow> 'm \<Rightarrow> 'm"
    and invar :: "'m \<Rightarrow> bool"
  assumes lookup_empty: "lookup empty = (\<lambda>_. None)"
    and lookup_upd: "invar m \<Longrightarrow> lookup (upd k v m) = (lookup m)(k \<mapsto> v)"
    and lookup_del: "invar m \<Longrightarrow> lookup (del k m) = (lookup m)(k := None)"
    and invar_empty: "invar empty"
    and invar_upd: "invar m \<Longrightarrow> invar (upd k v m)"
    and invar_del: "invar m \<Longrightarrow> invar (del k m)"
    and extensional: "invar m \<Longrightarrow> invar n \<Longrightarrow> lookup m = lookup n \<Longrightarrow> m = n"
begin

lemma upd_upd: "invar m \<Longrightarrow> upd k v (upd k w m) = upd k v m"
  by (rule extensional) (simp_all add: lookup_upd invar_upd)

lemma upd_commute: "invar m \<Longrightarrow> k \<noteq> j \<Longrightarrow> upd k v (upd j w m) = upd j w (upd k v m)"
  by (rule extensional) (auto simp: lookup_upd invar_upd)

lemma upd_same: "invar m \<Longrightarrow> lookup m k = Some v \<Longrightarrow> upd k v m = m"
  by (rule extensional) (auto simp: lookup_upd invar_upd)

lemma del_upd: "invar m \<Longrightarrow> del k (upd k v m) = del k m"
  by (rule extensional) (auto simp: lookup_upd lookup_del invar_upd invar_del)

lemma del_absent: "invar m \<Longrightarrow> lookup m k = None \<Longrightarrow> del k m = m"
  by (rule extensional) (auto simp: lookup_del invar_del)

lemma fold_upd_invar: "invar m \<Longrightarrow> invar (fold (\<lambda>(k, v). upd k v) ps m)"
  by (induction ps arbitrary: m) (auto intro: invar_upd)

lemma fold_upd_lookup: "invar m \<Longrightarrow>
    lookup (fold (\<lambda>(k, v). upd k v) ps m) = lookup m ++ map_of (rev ps)"
  by (induction ps arbitrary: m)
    (auto simp: lookup_upd invar_upd map_add_def fun_eq_iff split: option.splits)

lemma fold_del_invar: "invar m \<Longrightarrow> invar (fold del ks m)"
  by (induction ks arbitrary: m) (auto intro: invar_del)

lemma fold_del_lookup: "invar m \<Longrightarrow> lookup (fold del ks m) k = (if k \<in> set ks then None else lookup m k)"
  by (induction ks arbitrary: m) (auto simp: lookup_del invar_del)

end

interpretation bm: ordered_map "[]" map_of bm_insert bm_remove bm_ok
  by unfold_locales (auto intro: bm_ext)

end
