(* ===== verification/Cbor.thy ===== *)
theory Cbor
  imports Prelude
begin

text \<open>
  The \<open>mdb-cbor/1\<close> profile, \<open>runtime/crates/wire/src/cbor.rs\<close>: the data item, the
  canonical encoder, the strict decoder and the erasure of rejected trees.

  The encoder returns the bytes it appends to its output buffer.  The decoder state, a buffer
  and a position, is the remaining input \<open>buf[pos..]\<close>; a successful step returns the value
  and the rest.  Memory allocation is taken to succeed and a \<open>usize\<close> to hold every
  \<open>u64\<close> (a 64-bit target), so the \<open>TooLong\<close> branches of \<open>take\<close>, \<open>len\<close> and
  \<open>container\<close> do not occur.  A float is its bit pattern, a text its UTF-8 bytes.

  The central fact is that \<open>decode\<close> is exactly the inverse of \<open>encode\<close>: every value of
  the profile has one encoding, and nothing else decodes.
\<close>

subsection \<open>Data items\<close>

definition MAX_DEPTH :: nat where
  "MAX_DEPTH = 128"

datatype Cbor =
    Uint u64
  | Nint u64
  | CBytes bytes
  | CText bytes
  | CArray "Cbor list"
  | CMap "(Cbor \<times> Cbor) list"
  | CBool bool
  | CNull
  | CFloat u64

datatype CborError =
    UnexpectedEnd
  | TrailingBytes
  | Indefinite
  | NonCanonicalHead
  | Tag
  | FloatError
  | Simple
  | Utf8
  | MixedMapKeys
  | UnsortedKeys
  | DuplicateKey
  | TooDeep
  | TooLong

definition cbor_int :: "i64 \<Rightarrow> Cbor" where
  "cbor_int v = (if 0 \<le>s v then Uint v else Nint (- 1 - v))"

definition i64_try_from :: "u64 \<Rightarrow> i64 option" where
  "i64_try_from n = (if unat n < 2 ^ 63 then Some n else None)"

fun as_i64 :: "Cbor \<Rightarrow> i64 option" where
  "as_i64 (Uint n) = i64_try_from n"
| "as_i64 (Nint n) = map_option (\<lambda>n. - 1 - n) (i64_try_from n)"
| "as_i64 _ = None"

fun kind :: "Cbor \<Rightarrow> string" where
  "kind (Uint _) = ''uint''"
| "kind (Nint _) = ''nint''"
| "kind (CBytes _) = ''bytes''"
| "kind (CText _) = ''text''"
| "kind (CArray _) = ''array''"
| "kind (CMap _) = ''map''"
| "kind (CBool _) = ''bool''"
| "kind CNull = ''null''"
| "kind (CFloat _) = ''float''"

fun cbor_error_display :: "CborError \<Rightarrow> string" where
  "cbor_error_display UnexpectedEnd = ''unexpected end of input''"
| "cbor_error_display TrailingBytes = ''trailing bytes after the top-level item''"
| "cbor_error_display Indefinite = ''indefinite-length item''"
| "cbor_error_display NonCanonicalHead = ''integer or length not in shortest form''"
| "cbor_error_display Tag = ''tags are not allowed''"
| "cbor_error_display FloatError = ''float must be a finite binary64''"
| "cbor_error_display Simple = ''simple value other than false, true or null''"
| "cbor_error_display Utf8 = ''invalid UTF-8 in text string''"
| "cbor_error_display MixedMapKeys = ''map keys must be all unsigned integers or all text''"
| "cbor_error_display UnsortedKeys = ''struct map keys must be strictly ascending''"
| "cbor_error_display DuplicateKey = ''duplicate data map key''"
| "cbor_error_display TooDeep = ''nesting too deep''"
| "cbor_error_display TooLong = ''length too large''"

definition is_finite :: "u64 \<Rightarrow> bool" where
  "is_finite f \<longleftrightarrow> drop_bit 52 f AND 0x7FF \<noteq> 0x7FF"

subsection \<open>The map rule\<close>

fun check_struct_keys :: "u64 option \<Rightarrow> (Cbor \<times> Cbor) list \<Rightarrow> CborError + unit" where
  "check_struct_keys prev [] = Ok ()"
| "check_struct_keys prev ((k, v) # es) =
    (case k of
       Uint k \<Rightarrow>
         if (case prev of None \<Rightarrow> False | Some p \<Rightarrow> k \<le> p) then Err UnsortedKeys
         else check_struct_keys (Some k) es
     | _ \<Rightarrow> Err MixedMapKeys)"

fun check_data_keys :: "bytes set \<Rightarrow> (Cbor \<times> Cbor) list \<Rightarrow> CborError + unit" where
  "check_data_keys seen [] = Ok ()"
| "check_data_keys seen ((k, v) # es) =
    (case k of
       CText k \<Rightarrow>
         if k \<in> seen then Err DuplicateKey else check_data_keys (insert k seen) es
     | _ \<Rightarrow> Err MixedMapKeys)"

definition check_map :: "(Cbor \<times> Cbor) list \<Rightarrow> CborError + unit" where
  "check_map entries =
    (case entries of
       [] \<Rightarrow> Ok ()
     | (first, _) # _ \<Rightarrow>
         (case first of
            Uint _ \<Rightarrow> check_struct_keys None entries
          | CText _ \<Rightarrow> check_data_keys {} entries
          | _ \<Rightarrow> Err MixedMapKeys))"

subsection \<open>Encoding\<close>

definition head :: "u8 \<Rightarrow> u64 \<Rightarrow> bytes" where
  "head major arg =
    (let m = push_bit 5 major in
     if arg < 24 then [m OR ucast arg]
     else if arg \<le> 0xFF then [m OR 24, ucast arg]
     else if arg \<le> 0xFFFF then (m OR 25) # be_bytes 2 (ucast arg :: u16)
     else if arg \<le> 0xFFFFFFFF then (m OR 26) # be_bytes 4 (ucast arg :: u32)
     else (m OR 27) # be_bytes 8 arg)"

function encode_into :: "Cbor \<Rightarrow> nat \<Rightarrow> CborError + bytes"
  and encode_items :: "Cbor list \<Rightarrow> nat \<Rightarrow> CborError + bytes"
  and encode_entries :: "(Cbor \<times> Cbor) list \<Rightarrow> nat \<Rightarrow> CborError + bytes" where
  "encode_into v depth =
    (if depth > MAX_DEPTH then Err TooDeep
     else case v of
       Uint n \<Rightarrow> Ok (head 0 n)
     | Nint n \<Rightarrow> Ok (head 1 n)
     | CBytes b \<Rightarrow> Ok (head 2 (of_nat (length b)) @ b)
     | CText s \<Rightarrow> Ok (head 3 (of_nat (length s)) @ s)
     | CArray items \<Rightarrow>
         rbind (encode_items items (depth + 1)) (\<lambda>out.
         Ok (head 4 (of_nat (length items)) @ out))
     | CMap entries \<Rightarrow>
         rbind (check_map entries) (\<lambda>_.
         rbind (encode_entries entries (depth + 1)) (\<lambda>out.
         Ok (head 5 (of_nat (length entries)) @ out)))
     | CBool b \<Rightarrow> Ok [if b then 0xf5 else 0xf4]
     | CNull \<Rightarrow> Ok [0xf6]
     | CFloat f \<Rightarrow> if \<not> is_finite f then Err FloatError else Ok (0xfb # be_bytes 8 f))"
| "encode_items [] depth = Ok []"
| "encode_items (i # is) depth =
    rbind (encode_into i depth) (\<lambda>a. rbind (encode_items is depth) (\<lambda>b. Ok (a @ b)))"
| "encode_entries [] depth = Ok []"
| "encode_entries ((k, v) # es) depth =
    rbind (encode_into k depth) (\<lambda>a.
    rbind (encode_into v depth) (\<lambda>b.
    rbind (encode_entries es depth) (\<lambda>c. Ok (a @ b @ c))))"
  by pat_completeness auto
termination
  by (relation "measure (\<lambda>x. case x of Inl (v, _) \<Rightarrow> size v
      | Inr (Inl (vs, _)) \<Rightarrow> size_list size vs
      | Inr (Inr (es, _)) \<Rightarrow> size_list (size_prod size size) es)")
    auto

definition encode :: "Cbor \<Rightarrow> CborError + bytes" where
  "encode v = encode_into v 0"

subsection \<open>Erasure of rejected trees\<close>

fun wipe :: "Cbor \<Rightarrow> Cbor" where
  "wipe (CBytes b) = CBytes (replicate (length b) 0)"
| "wipe (CArray items) = CArray (map wipe items)"
| "wipe (CMap entries) = CMap (map (\<lambda>(k, v). (wipe k, wipe v)) entries)"
| "wipe v = v"

text \<open>The value is overwritten and dropped; the first component is its content at that moment.\<close>

definition cleanup_decode_error :: "Cbor \<Rightarrow> CborError \<Rightarrow> Cbor \<times> CborError" where
  "cleanup_decode_error value error = (wipe value, error)"

definition cleanup_error :: "Cbor \<Rightarrow> CborError \<Rightarrow> CborError" where
  "cleanup_error value error = snd (cleanup_decode_error value error)"

subsection \<open>Decoding\<close>

definition take_n :: "nat \<Rightarrow> bytes \<Rightarrow> CborError + bytes \<times> bytes" where
  "take_n n buf = (if n > length buf then Err UnexpectedEnd else Ok (take n buf, drop n buf))"

definition byte :: "bytes \<Rightarrow> CborError + u8 \<times> bytes" where
  "byte buf = rbind (take_n 1 buf) (\<lambda>(s, buf). Ok (s ! 0, buf))"

definition arg :: "u8 \<Rightarrow> bytes \<Rightarrow> CborError + u64 \<times> bytes" where
  "arg ai buf =
    (if ai \<le> 23 then Ok (ucast ai, buf)
     else if ai = 24 then
       rbind (byte buf) (\<lambda>(b, buf). let v = ucast b in
         if v < 24 then Err NonCanonicalHead else Ok (v, buf))
     else if ai = 25 then
       rbind (take_n 2 buf) (\<lambda>(b, buf). let v = ucast (of_be b :: u16) in
         if v \<le> 0xFF then Err NonCanonicalHead else Ok (v, buf))
     else if ai = 26 then
       rbind (take_n 4 buf) (\<lambda>(b, buf). let v = ucast (of_be b :: u32) in
         if v \<le> 0xFFFF then Err NonCanonicalHead else Ok (v, buf))
     else if ai = 27 then
       rbind (take_n 8 buf) (\<lambda>(b, buf). let v = of_be b in
         if v \<le> 0xFFFFFFFF then Err NonCanonicalHead else Ok (v, buf))
     else if ai = 31 then Err Indefinite
     else Err NonCanonicalHead)"

definition len :: "u8 \<Rightarrow> bytes \<Rightarrow> CborError + nat \<times> bytes" where
  "len ai buf =
    rbind (arg ai buf) (\<lambda>(n, buf). let n = unat n in
      if n > length buf then Err UnexpectedEnd else Ok (n, buf))"

function item :: "nat \<Rightarrow> bytes \<Rightarrow> CborError + Cbor \<times> bytes"
  and array_items :: "nat \<Rightarrow> nat \<Rightarrow> Cbor list \<Rightarrow> bytes \<Rightarrow> CborError + Cbor \<times> bytes"
  and map_entries :: "nat \<Rightarrow> nat \<Rightarrow> (Cbor \<times> Cbor) list \<Rightarrow> bytes \<Rightarrow> CborError + Cbor \<times> bytes" where
  "item depth buf =
    (if depth > MAX_DEPTH then Err TooDeep
     else rbind (byte buf) (\<lambda>(ib, buf).
      let major = drop_bit 5 ib; ai = ib AND 0x1f in
      if major = 0 then rbind (arg ai buf) (\<lambda>(n, buf). Ok (Uint n, buf))
      else if major = 1 then rbind (arg ai buf) (\<lambda>(n, buf). Ok (Nint n, buf))
      else if major = 2 then
        rbind (len ai buf) (\<lambda>(n, buf).
        rbind (take_n n buf) (\<lambda>(source, buf). Ok (CBytes source, buf)))
      else if major = 3 then
        rbind (len ai buf) (\<lambda>(n, buf).
        rbind (take_n n buf) (\<lambda>(b, buf).
        if \<not> utf8_valid b then Err Utf8 else Ok (CText b, buf)))
      else if major = 4 then
        rbind (len ai buf) (\<lambda>(n, buf). array_items (depth + 1) n [] buf)
      else if major = 5 then
        rbind (len ai buf) (\<lambda>(n, buf). map_entries (depth + 1) n [] buf)
      else if major = 6 then Err Tag
      else if ai = 20 then Ok (CBool False, buf)
      else if ai = 21 then Ok (CBool True, buf)
      else if ai = 22 then Ok (CNull, buf)
      else if ai = 27 then
        rbind (take_n 8 buf) (\<lambda>(b, buf). let f = of_be b in
          if \<not> is_finite f then Err FloatError else Ok (CFloat f, buf))
      else if ai = 25 \<or> ai = 26 then Err FloatError
      else if ai = 31 then Err Indefinite
      else Err Simple))"
| "array_items depth 0 items buf = Ok (CArray items, buf)"
| "array_items depth (Suc n) items buf =
    (case item depth buf of
       Inr (value, buf) \<Rightarrow> array_items depth n (items @ [value]) buf
     | Inl error \<Rightarrow> Err (cleanup_error (CArray items) error))"
| "map_entries depth 0 entries buf =
    (case check_map entries of
       Inl error \<Rightarrow> Err (cleanup_error (CMap entries) error)
     | Inr _ \<Rightarrow> Ok (CMap entries, buf))"
| "map_entries depth (Suc n) entries buf =
    (case item depth buf of
       Inl error \<Rightarrow> Err (cleanup_error (CMap entries) error)
     | Inr (k, buf) \<Rightarrow>
         (case item depth buf of
            Inl error \<Rightarrow> Err (cleanup_error (CMap (entries @ [(k, CNull)])) error)
          | Inr (v, buf) \<Rightarrow> map_entries depth n (entries @ [(k, v)]) buf))"
  by pat_completeness auto
termination
  by (relation "measures
      [\<lambda>x. case x of Inl (d, _) \<Rightarrow> 2 * (129 - d)
         | Inr (Inl (d, _)) \<Rightarrow> 2 * (129 - d) + 1
         | Inr (Inr (d, _)) \<Rightarrow> 2 * (129 - d) + 1,
       \<lambda>x. case x of Inl _ \<Rightarrow> 0 | Inr (Inl (_, n, _)) \<Rightarrow> n | Inr (Inr (_, n, _)) \<Rightarrow> n]")
    (auto simp: MAX_DEPTH_def)

definition complete :: "bytes \<Rightarrow> CborError + Cbor" where
  "complete buf =
    rbind (item 0 buf) (\<lambda>(value, rest).
      if rest \<noteq> [] then Err (cleanup_error value TrailingBytes) else Ok value)"

definition decode :: "bytes \<Rightarrow> CborError + Cbor" where
  "decode buf = complete buf"

definition validate :: "bytes \<Rightarrow> CborError + unit" where
  "validate buf = rbind (decode buf) (\<lambda>_. Ok ())"

declare encode_into.simps [simp del] item.simps [simp del]

subsection \<open>Heads\<close>

text \<open>The additional information and the argument bytes of the shortest head.\<close>

definition head_ai :: "u64 \<Rightarrow> u8" where
  "head_ai n = (if n < 24 then ucast n else if n \<le> 0xFF then 24 else if n \<le> 0xFFFF then 25
     else if n \<le> 0xFFFFFFFF then 26 else 27)"

definition head_ext :: "u64 \<Rightarrow> bytes" where
  "head_ext n = (if n < 24 then [] else if n \<le> 0xFF then [ucast n]
     else if n \<le> 0xFFFF then be_bytes 2 (ucast n :: u16)
     else if n \<le> 0xFFFFFFFF then be_bytes 4 (ucast n :: u32) else be_bytes 8 n)"

lemma head_split: "head m n = (push_bit 5 m OR head_ai n) # head_ext n"
  by (simp add: head_def head_ai_def head_ext_def Let_def)

lemma head_ai_less: "head_ai n < 32"
  by (auto simp: head_ai_def word_less_nat_alt unsigned_ucast_eq unsigned_take_bit_eq
      take_bit_eq_mod)

lemma head_byte_split:
  assumes "m < 8" "a < 32"
  shows "drop_bit 5 (push_bit 5 m OR a) = (m :: u8)" and "(push_bit 5 m OR a) AND 0x1f = (a :: u8)"
proof -
  have m: "take_bit 3 m = m" and a: "take_bit 5 a = a"
    using assms by (auto simp: word_unat_eq_iff unsigned_take_bit_eq take_bit_nat_eq_self word_less_nat_alt)
  have bm: "i < 3" if "bit m i" for i
    using that by (subst (asm) m [symmetric]) (simp add: bit_simps)
  have ba: "i < 5" if "bit a i" for i
    using that by (subst (asm) a [symmetric]) (simp add: bit_simps)
  show "drop_bit 5 (push_bit 5 m OR a) = m"
    by (rule bit_word_eqI) (auto simp: bit_simps dest: bm ba)
  have "(push_bit 5 m OR a) AND mask 5 = a"
    by (rule bit_word_eqI) (auto simp: bit_simps dest: bm ba)
  then show "(push_bit 5 m OR a) AND 0x1f = a"
    by (simp add: mask_eq_exp_minus_1)
qed

lemma head_byte_join: "push_bit 5 (drop_bit 5 ib) OR (ib AND 0x1f) = (ib :: u8)"
proof -
  have "push_bit 5 (drop_bit 5 ib) OR (ib AND mask 5) = ib"
    by (rule bit_word_eqI) (auto simp: bit_simps)
  then show ?thesis by (simp add: mask_eq_exp_minus_1)
qed

lemma ai_less: "(ib :: u8) AND 0x1f < 32"
proof -
  have "ib AND mask 5 < 2 ^ 5" by (rule and_mask_less') simp
  then show ?thesis by (simp add: mask_eq_exp_minus_1)
qed

lemma take_n_append: "n = length xs \<Longrightarrow> take_n n (xs @ ys) = Inr (xs, ys)"
  by (simp add: take_n_def)

lemma take_n_Ok: "take_n n buf = Inr (s, r) \<Longrightarrow> buf = s @ r \<and> length s = n"
  by (auto simp: take_n_def split: if_splits)

lemma byte_Cons [simp]: "byte (b # bs) = Inr (b, bs)"
  by (simp add: byte_def take_n_def)

lemma byte_Ok_iff [res_simps]: "byte buf = Inr (b, r) \<longleftrightarrow> buf = b # r"
  by (cases buf) (auto simp: byte_def take_n_def)

lemma ucast_roundtrip:
  "unat (w :: u64) < 2 ^ 8 \<Longrightarrow> ucast (ucast w :: u8) = w"
  "unat (w :: u64) < 2 ^ 16 \<Longrightarrow> ucast (ucast w :: u16) = w"
  "unat (w :: u64) < 2 ^ 32 \<Longrightarrow> ucast (ucast w :: u32) = w"
  by (auto simp: word_unat_eq_iff unsigned_ucast_eq unsigned_take_bit_eq take_bit_nat_eq_self)

lemma of_be_full: "8 * n = LENGTH('a) \<Longrightarrow> of_be (be_bytes n (w :: 'a::len word)) = w"
  by (simp add: of_be_be_bytes take_bit_word_eq_self)

lemma arg_head: "arg (head_ai n) (head_ext n @ rest) = Inr (n, rest)"
proof -
  consider "n < 24" | "24 \<le> n" "n \<le> 0xFF" | "0xFF < n" "n \<le> 0xFFFF" | "0xFFFF < n" "n \<le> 0xFFFFFFFF"
    | "0xFFFFFFFF < n"
    by force
  then show ?thesis
  proof cases
    case 1
    then have "ucast (ucast n :: u8) = n"
      by (intro ucast_roundtrip) (simp add: word_less_nat_alt)
    moreover have "(ucast n :: u8) \<le> 23"
      using 1 by (auto simp: word_le_nat_alt word_less_nat_alt unsigned_ucast_eq
          unsigned_take_bit_eq take_bit_nat_eq_self)
    ultimately show ?thesis using 1 by (simp add: arg_def head_ai_def head_ext_def)
  next
    case 2
    then have "ucast (ucast n :: u8) = n" "\<not> n < 24"
      by (auto intro: ucast_roundtrip simp: word_le_nat_alt word_less_nat_alt)
    with 2 show ?thesis by (simp add: arg_def head_ai_def head_ext_def)
  next
    case 3
    then have "ucast (ucast n :: u16) = n" "\<not> n < 24" "\<not> n \<le> 0xFF"
      by (auto intro: ucast_roundtrip simp: word_le_nat_alt word_less_nat_alt)
    with 3 show ?thesis
      by (simp add: arg_def head_ai_def head_ext_def take_n_append of_be_full)
  next
    case 4
    then have "ucast (ucast n :: u32) = n" "\<not> n < 24" "\<not> n \<le> 0xFF" "\<not> n \<le> 0xFFFF"
      by (auto intro: ucast_roundtrip simp: word_le_nat_alt word_less_nat_alt)
    with 4 show ?thesis
      by (simp add: arg_def head_ai_def head_ext_def take_n_append of_be_full)
  next
    case 5
    then have "\<not> n < 24" "\<not> n \<le> 0xFF" "\<not> n \<le> 0xFFFF" "\<not> n \<le> 0xFFFFFFFF"
      by (auto simp: word_le_nat_alt word_less_nat_alt)
    with 5 show ?thesis
      by (simp add: arg_def head_ai_def head_ext_def take_n_append of_be_full)
  qed
qed

lemma ucast_down_up:
  "ucast (ucast (a :: u8) :: u64) = a" "ucast (ucast (b :: u16) :: u64) = b"
  "ucast (ucast (c :: u32) :: u64) = c"
  by (auto simp: bit_simps intro!: bit_word_eqI)

lemma ucast_up_le:
  "(ucast (a :: u8) :: u64) \<le> 0xFF" "(ucast (b :: u16) :: u64) \<le> 0xFFFF"
  "(ucast (c :: u32) :: u64) \<le> 0xFFFFFFFF"
  using unsigned_less [of a, where 'a = nat] unsigned_less [of b, where 'a = nat]
    unsigned_less [of c, where 'a = nat]
  by (auto simp: word_le_nat_alt unsigned_ucast_eq unsigned_take_bit_eq take_bit_nat_eq_self)

lemma arg_Ok:
  assumes "arg ai buf = Inr (n, rest)"
  shows "head_ai n = ai \<and> buf = head_ext n @ rest"
proof -
  have mono: "\<not> x < 24" if "\<not> x \<le> 0xFF" for x :: u64
    using that by (auto simp: word_le_nat_alt word_less_nat_alt)
  have mono2: "\<not> x \<le> 0xFF" if "\<not> x \<le> 0xFFFF" for x :: u64
    using that by (auto simp: word_le_nat_alt word_less_nat_alt)
  have mono3: "\<not> x \<le> 0xFFFF" if "\<not> x \<le> 0xFFFFFFFF" for x :: u64
    using that by (auto simp: word_le_nat_alt word_less_nat_alt)
  consider "ai \<le> 23" | "ai = 24" | "ai = 25" | "ai = 26" | "ai = 27"
    using assms by (auto simp: arg_def split: if_splits)
  then show ?thesis
  proof cases
    case 1
    then have "(ucast ai :: u64) < 24"
      by (simp add: word_le_nat_alt word_less_nat_alt unsigned_ucast_eq unsigned_take_bit_eq
          take_bit_nat_eq_self)
    with 1 assms show ?thesis
      by (auto simp: arg_def head_ai_def head_ext_def ucast_down_up)
  next
    case 2
    with assms show ?thesis
      by (auto simp: arg_def res_simps head_ai_def head_ext_def ucast_down_up ucast_up_le Let_def
          split: if_splits)
  next
    case 3
    with assms obtain b where b: "take_n 2 buf = Inr (b, rest)" "n = ucast (of_be b :: u16)" "\<not> n \<le> 0xFF"
      by (auto simp: arg_def res_simps Let_def split: if_splits)
    then show ?thesis
      using 3 take_n_Ok [OF b(1)] mono
      by (auto simp: head_ai_def head_ext_def ucast_down_up ucast_up_le be_bytes_of_be)
  next
    case 4
    with assms obtain b where b: "take_n 4 buf = Inr (b, rest)" "n = ucast (of_be b :: u32)" "\<not> n \<le> 0xFFFF"
      by (auto simp: arg_def res_simps Let_def split: if_splits)
    then show ?thesis
      using 4 take_n_Ok [OF b(1)] mono mono2
      by (auto simp: head_ai_def head_ext_def ucast_down_up ucast_up_le be_bytes_of_be)
  next
    case 5
    with assms obtain b where b: "take_n 8 buf = Inr (b, rest)" "n = of_be b" "\<not> n \<le> 0xFFFFFFFF"
      by (auto simp: arg_def res_simps Let_def split: if_splits)
    then show ?thesis
      using 5 take_n_Ok [OF b(1)] mono mono2 mono3
      by (auto simp: head_ai_def head_ext_def be_bytes_of_be)
  qed
qed

subsection \<open>The decoder inverts the encoder\<close>

text \<open>What the Rust types guarantee of a value: \<open>String\<close> holds UTF-8 and a length fits a
  machine word.\<close>

fun cbor_rep :: "Cbor \<Rightarrow> bool" where
  "cbor_rep (CBytes b) \<longleftrightarrow> length b < 2 ^ 64"
| "cbor_rep (CText s) \<longleftrightarrow> length s < 2 ^ 64 \<and> utf8_valid s"
| "cbor_rep (CArray vs) \<longleftrightarrow> length vs < 2 ^ 64 \<and> (\<forall>v\<in>set vs. cbor_rep v)"
| "cbor_rep (CMap es) \<longleftrightarrow> length es < 2 ^ 64 \<and> (\<forall>(k, v)\<in>set es. cbor_rep k \<and> cbor_rep v)"
| "cbor_rep _ \<longleftrightarrow> True"

lemma len_head:
  "n < 2 ^ 64 \<Longrightarrow> n \<le> length rest \<Longrightarrow> len (head_ai (of_nat n)) (head_ext (of_nat n) @ rest) = Inr (n, rest)"
  by (simp add: len_def arg_head Let_def unat_of_nat take_bit_nat_eq_self)

lemma len_Ok:
  "len ai buf = Inr (n, rest) \<Longrightarrow>
    head_ai (of_nat n) = ai \<and> buf = head_ext (of_nat n) @ rest \<and> n < 2 ^ 64 \<and> n \<le> length rest"
  using unsigned_less [where 'a = nat and 'b = 64]
  by (auto simp: len_def res_simps Let_def dest!: arg_Ok split: if_splits)

lemma encode_not_empty: "encode_into v d = Inr out \<Longrightarrow> out \<noteq> []"
  by (subst (asm) encode_into.simps) (auto simp: res_simps head_split split: if_splits Cbor.splits)

lemma encode_items_length: "encode_items vs d = Inr out \<Longrightarrow> length vs \<le> length out"
proof (induction vs arbitrary: out)
  case (Cons v vs)
  then obtain a b where ab: "encode_into v d = Inr a" "encode_items vs d = Inr b" "out = a @ b"
    by (auto simp: res_simps)
  with Cons.IH encode_not_empty [OF ab(1)] show ?case
    by (cases a) force+
qed simp

lemma encode_entries_length: "encode_entries es d = Inr out \<Longrightarrow> length es \<le> length out"
proof (induction es arbitrary: out)
  case (Cons e es)
  obtain k v where e: "e = (k, v)" by fastforce
  with Cons.prems obtain a b c where abc: "encode_into k d = Inr a" "encode_entries es d = Inr c"
      "out = a @ b @ c"
    by (auto simp: res_simps)
  with Cons.IH encode_not_empty [OF abc(1)] show ?case
    by (cases a) force+
qed simp

lemmas head_bytes =
  head_byte_split [of 0 "head_ai n" for n, simplified, OF head_ai_less]
  head_byte_split [of 1 "head_ai n" for n, simplified, OF head_ai_less]
  head_byte_split [of 2 "head_ai n" for n, simplified, OF head_ai_less]
  head_byte_split [of 3 "head_ai n" for n, simplified, OF head_ai_less]
  head_byte_split [of 4 "head_ai n" for n, simplified, OF head_ai_less]
  head_byte_split [of 5 "head_ai n" for n, simplified, OF head_ai_less]

lemma item_head:
  assumes "d \<le> MAX_DEPTH"
  shows "item d (head 0 n @ buf) = Inr (Uint n, buf)"
    and "item d (head 1 n @ buf) = Inr (Nint n, buf)"
    and "item d (head 2 n @ buf) = rbind (len (head_ai n) (head_ext n @ buf)) (\<lambda>(n, buf).
           rbind (take_n n buf) (\<lambda>(source, buf). Ok (CBytes source, buf)))"
    and "item d (head 3 n @ buf) = rbind (len (head_ai n) (head_ext n @ buf)) (\<lambda>(n, buf).
           rbind (take_n n buf) (\<lambda>(b, buf). if \<not> utf8_valid b then Err Utf8 else Ok (CText b, buf)))"
    and "item d (head 4 n @ buf) = rbind (len (head_ai n) (head_ext n @ buf)) (\<lambda>(n, buf).
           array_items (d + 1) n [] buf)"
    and "item d (head 5 n @ buf) = rbind (len (head_ai n) (head_ext n @ buf)) (\<lambda>(n, buf).
           map_entries (d + 1) n [] buf)"
  using assms
  by (subst item.simps, simp add: head_split head_bytes arg_head)+

lemma item_simple:
  "d \<le> MAX_DEPTH \<Longrightarrow> item d (0xf4 # r) = Inr (CBool False, r)"
  "d \<le> MAX_DEPTH \<Longrightarrow> item d (0xf5 # r) = Inr (CBool True, r)"
  "d \<le> MAX_DEPTH \<Longrightarrow> item d (0xf6 # r) = Inr (CNull, r)"
  "d \<le> MAX_DEPTH \<Longrightarrow> is_finite f \<Longrightarrow> item d (0xfb # be_bytes 8 f @ r) = Inr (CFloat f, r)"
  by (subst item.simps, simp add: take_n_append of_be_full Let_def)+

lemma encode_item:
  "encode_into v d = Inr out \<Longrightarrow> cbor_rep v \<Longrightarrow> item d (out @ rest) = Inr (v, rest)"
  "encode_items vs d = Inr out \<Longrightarrow> \<forall>v\<in>set vs. cbor_rep v \<Longrightarrow>
     array_items d (length vs) acc (out @ rest) = Inr (CArray (acc @ vs), rest)"
  "encode_entries es d = Inr out \<Longrightarrow> \<forall>(k, v)\<in>set es. cbor_rep k \<and> cbor_rep v \<Longrightarrow>
     check_map (eacc @ es) = Inr () \<Longrightarrow>
     map_entries d (length es) eacc (out @ rest) = Inr (CMap (eacc @ es), rest)"
proof (induction v d and vs d and es d arbitrary: out rest and out acc rest and out eacc rest
    rule: encode_into_encode_items_encode_entries.induct)
  case (1 v depth)
  then have d: "depth \<le> MAX_DEPTH"
    by (auto simp: encode_into.simps split: if_splits)
  show ?case
  proof (cases v)
    case (Uint n)
    with 1(3) d show ?thesis
      by (auto simp: encode_into.simps item_head arg_head)
  next
    case (Nint n)
    with 1(3) d show ?thesis
      by (auto simp: encode_into.simps item_head arg_head)
  next
    case (CBytes b)
    with 1(3,4) d show ?thesis
      by (auto simp: encode_into.simps item_head len_head take_n_append)
  next
    case (CText s)
    with 1(3,4) d show ?thesis
      by (auto simp: encode_into.simps item_head len_head take_n_append)
  next
    case (CArray vs)
    with 1(3) d obtain o' where o': "encode_items vs (depth + 1) = Inr o'"
        "out = head 4 (of_nat (length vs)) @ o'"
      by (auto simp: encode_into.simps res_simps)
    then show ?thesis
      using CArray 1(1) [OF _ CArray o'(1)] 1(4) d encode_items_length [OF o'(1)]
      by (auto simp: item_head len_head)
  next
    case (CMap es)
    with 1(3) d obtain o' where o': "check_map es = Inr ()" "encode_entries es (depth + 1) = Inr o'"
        "out = head 5 (of_nat (length es)) @ o'"
      by (auto simp: encode_into.simps res_simps)
    then show ?thesis
      using CMap 1(2) [OF _ CMap o'(1) o'(2)] 1(4) d encode_entries_length [OF o'(2)]
      by (auto simp: item_head len_head)
  next
    case (CBool b)
    with 1(3) d show ?thesis
      by (cases b) (auto simp: encode_into.simps item_simple)
  next
    case CNull
    with 1(3) d show ?thesis
      by (auto simp: encode_into.simps item_simple)
  next
    case (CFloat f)
    with 1(3) d show ?thesis
      by (auto simp: encode_into.simps item_simple split: if_splits)
  qed
qed (fastforce simp: res_simps)+

lemma head_join:
  "drop_bit 5 ib = m \<Longrightarrow> head_ai n = ib AND 0x1f \<Longrightarrow> ib # head_ext n @ r = head m n @ r"
  by (metis append_Cons head_byte_join head_split)

lemma major_cases:
  obtains "drop_bit 5 (ib :: u8) = 0" | "drop_bit 5 ib = 1" | "drop_bit 5 ib = 2" | "drop_bit 5 ib = 3"
    | "drop_bit 5 ib = 4" | "drop_bit 5 ib = 5" | "drop_bit 5 ib = 6" | "drop_bit 5 ib = 7"
proof -
  define k where "k = unat (drop_bit 5 ib)"
  have "unat ib < 256" using unsigned_less [of ib, where 'a = nat] by simp
  then have "k < 8" unfolding k_def by (simp add: drop_bit_eq_div [symmetric] unsigned_drop_bit_eq) (simp add: drop_bit_eq_div take_bit_nat_eq_self)
  then have "k = 0 \<or> k = 1 \<or> k = 2 \<or> k = 3 \<or> k = 4 \<or> k = 5 \<or> k = 6 \<or> k = 7" by linarith
  then show thesis using that unfolding k_def by (auto simp: word_unat_eq_iff)
qed

lemma simple_join: "drop_bit 5 ib = (7 :: u8) \<Longrightarrow> ib AND 0x1f = a \<Longrightarrow> ib = 0xE0 OR a"
  using head_byte_join [of ib] by auto

lemma item_Ok:
  "item d buf = Inr (v, rest) \<Longrightarrow>
     \<exists>out. encode_into v d = Inr out \<and> buf = out @ rest \<and> cbor_rep v"
  "array_items d n acc buf = Inr (v, rest) \<Longrightarrow>
     \<exists>vs out. v = CArray (acc @ vs) \<and> length vs = n \<and> encode_items vs d = Inr out \<and>
       buf = out @ rest \<and> (\<forall>v\<in>set vs. cbor_rep v)"
  "map_entries d n eacc buf = Inr (v, rest) \<Longrightarrow>
     \<exists>es out. v = CMap (eacc @ es) \<and> length es = n \<and> encode_entries es d = Inr out \<and>
       buf = out @ rest \<and> check_map (eacc @ es) = Inr () \<and> (\<forall>(k, v)\<in>set es. cbor_rep k \<and> cbor_rep v)"
proof (induction d buf and d n acc buf and d n eacc buf arbitrary: v rest and v rest and v rest
    rule: item_array_items_map_entries.induct)
  case (1 depth buf)
  then have d: "depth \<le> MAX_DEPTH"
    by (subst (asm) item.simps) (simp split: if_splits)
  with 1(3) obtain ib b where buf: "buf = ib # b"
    by (subst (asm) item.simps) (auto simp: res_simps)
  let ?ai = "ib AND 0x1f"
  note i = 1(3) [unfolded buf] item.simps [of depth "ib # b"]
  show ?case
  proof (cases ib rule: major_cases)
    case 1
    with i d buf show ?thesis
      by (auto simp: res_simps encode_into.simps head_join dest!: arg_Ok)
  next
    case 2
    with i d buf show ?thesis
      by (auto simp: res_simps encode_into.simps head_join dest!: arg_Ok)
  next
    case 3
    with i d buf show ?thesis
      by (auto simp: res_simps encode_into.simps head_join dest!: len_Ok take_n_Ok)
  next
    case 4
    with i d buf show ?thesis
      by (auto simp: res_simps encode_into.simps head_join dest!: len_Ok take_n_Ok split: if_splits)
  next
    case 5
    with i d obtain n b' where n: "len ?ai b = Inr (n, b')" "array_items (depth + 1) n [] b' = Inr (v, rest)"
      by (auto simp: res_simps)
    have "\<exists>vs out. v = CArray ([] @ vs) \<and> length vs = n \<and> encode_items vs (depth + 1) = Inr out \<and>
       b' = out @ rest \<and> (\<forall>v\<in>set vs. cbor_rep v)"
      by (rule "1.IH"(1)) (use 5 d n buf in \<open>auto\<close>)
    with 5 d buf len_Ok [OF n(1)] show ?thesis
      by (auto simp: encode_into.simps head_join)
  next
    case 6
    with i d obtain n b' where n: "len ?ai b = Inr (n, b')" "map_entries (depth + 1) n [] b' = Inr (v, rest)"
      by (auto simp: res_simps)
    have "\<exists>es out. v = CMap ([] @ es) \<and> length es = n \<and> encode_entries es (depth + 1) = Inr out \<and>
       b' = out @ rest \<and> check_map ([] @ es) = Inr () \<and> (\<forall>(k, v)\<in>set es. cbor_rep k \<and> cbor_rep v)"
      by (rule "1.IH"(2)) (use 6 d n buf in \<open>auto\<close>)
    with 6 d buf len_Ok [OF n(1)] show ?thesis
      by (auto simp: encode_into.simps head_join)
  next
    case 7
    with i d buf show ?thesis by auto
  next
    case 8
    with i d buf show ?thesis
      by (auto simp: res_simps encode_into.simps Let_def be_bytes_of_be dest!: simple_join take_n_Ok
          split: if_splits)
  qed
next
  case (3 depth n items buf)
  then show ?case
    by (fastforce simp: res_simps split: sum.splits)
next
  case (5 depth n entries buf)
  then obtain k b1 w b2 where kv: "item depth buf = Inr (k, b1)" "item depth b1 = Inr (w, b2)"
      "map_entries depth n (entries @ [(k, w)]) b2 = Inr (v, rest)"
    by (auto split: sum.splits)
  from "5.IH"(1) [OF kv(1)] "5.IH"(2) [OF kv(1) refl kv(2)]
    "5.IH"(3) [OF kv(1) refl kv(2) refl kv(3)]
  obtain a b c es where "encode_into k depth = Inr a" "buf = a @ b1" "cbor_rep k"
      "encode_into w depth = Inr b" "b1 = b @ b2" "cbor_rep w"
      "v = CMap ((entries @ [(k, w)]) @ es)" "length es = n" "encode_entries es depth = Inr c"
      "b2 = c @ rest" "check_map ((entries @ [(k, w)]) @ es) = Inr ()"
      "\<forall>(k, v)\<in>set es. cbor_rep k \<and> cbor_rep v"
    by blast
  then show ?case by (intro exI [of _ "(k, w) # es"]) auto
qed (auto split: sum.splits)

lemma decode_iff: "decode bs = Inr v \<longleftrightarrow> encode v = Inr bs \<and> cbor_rep v"
proof
  assume "decode bs = Inr v"
  then show "encode v = Inr bs \<and> cbor_rep v"
    using item_Ok(1) by (fastforce simp: decode_def complete_def encode_def res_simps split: if_splits)
next
  assume "encode v = Inr bs \<and> cbor_rep v"
  then show "decode bs = Inr v"
    using encode_item(1) [of v 0 bs "[]"] by (simp add: decode_def complete_def encode_def)
qed

lemma encode_prefix_free_aux:
  assumes "encode v = Inr xs" "encode w = Inr (xs @ ys)" "cbor_rep v" "cbor_rep w"
  shows "v = w \<and> ys = []"
  using encode_item(1) [of v 0 xs ys] encode_item(1) [of w 0 "xs @ ys" "[]"] assms
  by (simp add: encode_def)

subsection \<open>The profile\<close>

text \<open>Rules 4 and 6 and the depth bound, as a predicate on values.\<close>

definition map_rule :: "Cbor list \<Rightarrow> bool" where
  "map_rule ks \<longleftrightarrow>
    (\<exists>ns. ks = map Uint ns \<and> sorted_wrt (<) ns) \<or> (\<exists>ts. ks = map CText ts \<and> distinct ts)"

fun in_profile :: "nat \<Rightarrow> Cbor \<Rightarrow> bool" where
  "in_profile d (CArray vs) \<longleftrightarrow> d \<le> MAX_DEPTH \<and> (\<forall>v\<in>set vs. in_profile (d + 1) v)"
| "in_profile d (CMap es) \<longleftrightarrow> d \<le> MAX_DEPTH \<and> map_rule (map fst es)
     \<and> (\<forall>(k, v)\<in>set es. in_profile (d + 1) k \<and> in_profile (d + 1) v)"
| "in_profile d (CFloat f) \<longleftrightarrow> d \<le> MAX_DEPTH \<and> is_finite f"
| "in_profile d _ \<longleftrightarrow> d \<le> MAX_DEPTH"

lemma check_struct_keys_iff:
  "check_struct_keys prev es = Inr () \<longleftrightarrow>
    (\<exists>ns. map fst es = map Uint ns \<and> sorted_wrt (<) ns \<and> (\<forall>p. prev = Some p \<longrightarrow> (\<forall>n\<in>set ns. p < n)))"
proof (induction prev es rule: check_struct_keys.induct)
  case (2 prev k v es)
  show ?case
  proof (cases k)
    case (Uint n)
    have "(\<exists>ns. map fst ((k, v) # es) = map Uint ns \<and> P ns) \<longleftrightarrow> (\<exists>ms. map fst es = map Uint ms \<and> P (n # ms))"
      for P using Uint by (force simp: Cons_eq_map_conv)
    moreover have "(\<forall>p. prev = Some p \<longrightarrow> (\<forall>m\<in>set (n # ms). p < m)) \<longleftrightarrow>
        (case prev of None \<Rightarrow> True | Some p \<Rightarrow> p < n)" if "\<forall>m\<in>set ms. n < m" for ms
      using that by (cases prev) (auto intro: less_trans)
    ultimately show ?thesis
      using Uint 2 by (simp split: option.splits cong: conj_cong) (auto simp: not_le)
  qed (auto simp: Cons_eq_map_conv)
qed simp

lemma check_data_keys_iff:
  "check_data_keys seen es = Inr () \<longleftrightarrow>
    (\<exists>ts. map fst es = map CText ts \<and> distinct ts \<and> set ts \<inter> seen = {})"
proof (induction seen es rule: check_data_keys.induct)
  case (2 seen k v es)
  show ?case
  proof (cases k)
    case (CText t)
    have "(\<exists>ts. map fst ((k, v) # es) = map CText ts \<and> P ts) \<longleftrightarrow> (\<exists>us. map fst es = map CText us \<and> P (t # us))"
      for P using CText by (force simp: Cons_eq_map_conv)
    then show ?thesis using CText 2 by simp blast
  qed (auto simp: Cons_eq_map_conv)
qed simp

lemma check_map_iff: "check_map es = Inr () \<longleftrightarrow> map_rule (map fst es)"
proof (cases es)
  case (Cons e es')
  obtain k v where e: "e = (k, v)" by fastforce
  show ?thesis
  proof (cases k)
    case (Uint n)
    then show ?thesis
      unfolding Cons e
      by (simp add: check_map_def map_rule_def check_struct_keys_iff [of _ "(_, _) # _"] Cons_eq_map_conv
          del: check_struct_keys.simps)
  next
    case (CText n)
    then show ?thesis
      unfolding Cons e
      by (simp add: check_map_def map_rule_def check_data_keys_iff [of _ "(_, _) # _"] Cons_eq_map_conv
          del: check_data_keys.simps)
  qed (auto simp: Cons e check_map_def map_rule_def Cons_eq_map_conv)
qed (simp add: check_map_def map_rule_def)

lemma encode_Ok_iff:
  "(\<exists>out. encode_into v d = Inr out) \<longleftrightarrow> in_profile d v"
  "(\<exists>out. encode_items vs d = Inr out) \<longleftrightarrow> (\<forall>v\<in>set vs. in_profile d v)"
  "(\<exists>out. encode_entries es d = Inr out) \<longleftrightarrow> (\<forall>(k, v)\<in>set es. in_profile d k \<and> in_profile d v)"
proof (induction v d and vs d and es d rule: encode_into_encode_items_encode_entries.induct)
  case (1 v depth)
  then show ?case
    by (cases v) (auto simp: encode_into.simps res_simps check_map_iff)
next
  case (5 k v es depth)
  then show ?case by (auto simp: res_simps) fastforce+
qed (auto simp: res_simps)

subsection \<open>Size, erasure, integers\<close>

fun cbor_nodes :: "Cbor \<Rightarrow> nat" where
  "cbor_nodes (CArray vs) = 1 + sum_list (map cbor_nodes vs)"
| "cbor_nodes (CMap es) = 1 + sum_list (map (\<lambda>(k, v). cbor_nodes k + cbor_nodes v) es)"
| "cbor_nodes _ = 1"

lemma encode_nodes:
  "encode_into v d = Inr out \<Longrightarrow> cbor_nodes v \<le> length out"
  "encode_items vs d = Inr out \<Longrightarrow> sum_list (map cbor_nodes vs) \<le> length out"
  "encode_entries es d = Inr out \<Longrightarrow>
     sum_list (map (\<lambda>(k, v). cbor_nodes k + cbor_nodes v) es) \<le> length out"
proof (induction v d and vs d and es d arbitrary: out and out and out
    rule: encode_into_encode_items_encode_entries.induct)
  case (1 v depth)
  show ?case
    using 1 by (cases v) (fastforce simp: encode_into.simps res_simps head_split split: if_splits)+
qed (fastforce simp: res_simps)+

text \<open>Every byte string of a value, in order.\<close>

fun byte_strings :: "Cbor \<Rightarrow> bytes list" where
  "byte_strings (CBytes b) = [b]"
| "byte_strings (CArray vs) = concat (map byte_strings vs)"
| "byte_strings (CMap es) = concat (map (\<lambda>(k, v). byte_strings k @ byte_strings v) es)"
| "byte_strings _ = []"

lemma byte_strings_wipe: "byte_strings (wipe v) = map (\<lambda>b. replicate (length b) 0) (byte_strings v)"
proof (induction v)
  case (CArray vs)
  then show ?case by (induction vs) auto
next
  case (CMap es)
  let ?z = "map (\<lambda>b. replicate (length b) 0)"
  have "\<forall>(k, v)\<in>set es. byte_strings (wipe k) = ?z (byte_strings k) \<and> byte_strings (wipe v) = ?z (byte_strings v)"
    using CMap by force
  then show ?case by (induction es) auto
qed auto

lemma as_i64_int: "as_i64 (cbor_int v) = Some v"
  using unsigned_less [of v, where 'a = nat]
  by (auto simp: cbor_int_def i64_try_from_def sle_0 unat_not)

lemma as_i64_iff: "as_i64 c = Some v \<longleftrightarrow> c = cbor_int v"
proof
  assume "as_i64 c = Some v"
  then show "c = cbor_int v"
    by (cases c) (auto simp: cbor_int_def i64_try_from_def sle_0 unat_not split: if_splits)
qed (simp add: as_i64_int)

subsection \<open>Properties\<close>

interpretation cbor: codec encode decode cbor_rep
  by unfold_locales (rule decode_iff)

text \<open>C36. The decoder is exactly the inverse of the encoder: \<open>decode\<close> returns a value for some
  bytes if and only if these bytes are the (unique) canonical encoding of that value.  Every
  deviation from the profile (a longer head, an unsorted map, a trailing byte, \<dots>) is
  refused, and everything the encoder emits is accepted.\<close>

theorem decode_exact: "decode bs = Inr v \<longleftrightarrow> encode v = Inr bs \<and> cbor_rep v"
  by (rule cbor.dec_exact)

text \<open>The encoder succeeds on exactly the values of the profile: nesting at most
  \<open>MAX_DEPTH\<close>, finite floats, and maps whose keys are strictly ascending unsigned integers
  or distinct texts.\<close>

theorem encode_succeeds_iff: "(\<exists>bs. encode v = Inr bs) \<longleftrightarrow> in_profile 0 v"
  unfolding encode_def by (rule encode_Ok_iff(1))

text \<open>Encodings are prefix-free: no encoding of a value is a proper prefix of the encoding
  of another, so concatenated items parse in one way only.\<close>

theorem encode_prefix_free:
  assumes "encode v = Inr xs" "encode w = Inr (xs @ ys)" "cbor_rep v" "cbor_rep w"
  shows "v = w \<and> ys = []"
  using assms by (rule encode_prefix_free_aux)

theorem encode_prefix_free_witness:
  "CArray [Uint 1, CNull] = CArray [Uint 1, CNull] \<and> ([] :: bytes) = []"
  by (rule encode_prefix_free [of _ "[0x82, 0x01, 0xf6]"])
    (simp_all add: encode_def encode_into.simps head_def MAX_DEPTH_def)

text \<open>The tree a decoder error drops is overwritten first: after \<open>cleanup_decode_error\<close>
  every byte string in it has its old length and only zero bytes, and the error that is
  reported is the original one.\<close>

theorem cleanup_erases:
  "byte_strings (fst (cleanup_decode_error v e)) = map (\<lambda>b. replicate (length b) 0) (byte_strings v)
    \<and> snd (cleanup_decode_error v e) = e"
  by (simp add: cleanup_decode_error_def byte_strings_wipe)

text \<open>A decoded tree has at most as many nodes as the input has bytes, so a decoder run
  never builds more than its input pays for.\<close>

theorem decode_nodes_bound:
  assumes "decode bs = Inr v"
  shows "cbor_nodes v \<le> length bs"
  using assms encode_nodes(1) [of v 0 bs] by (simp add: decode_iff encode_def)

theorem decode_nodes_bound_witness:
  "cbor_nodes (CMap [(Uint 1, CText [0x61])]) \<le> length [0xa1, 0x01, 0x61, 0x61 :: u8]"
  by (rule decode_nodes_bound)
    (simp add: decode_iff encode_def encode_into.simps head_def MAX_DEPTH_def check_map_def ascii_utf8 ascii_only_def)

text \<open>\<open>Cbor::int\<close> and \<open>Cbor::as_i64\<close> are inverse to each other.\<close>

theorem as_i64_exact: "as_i64 c = Some v \<longleftrightarrow> c = cbor_int v"
  by (rule as_i64_iff)

text \<open>The header of the module limits integers to \<open>-2^63 \<dots> 2^64 - 1\<close> on encode and
  decode.  The lower limit is not enforced: every \<open>Nint\<close> argument, also one that stands for
  a number below \<open>-2^63\<close>, is encoded and decoded.\<close>

theorem nint_below_i64_accepted:
  assumes "2 ^ 63 \<le> unat n"
  shows "encode (Nint n) = Inr (head 1 n) \<and> decode (head 1 n) = Inr (Nint n) \<and> as_i64 (Nint n) = None"
  using assms by (simp add: decode_iff encode_def encode_into.simps i64_try_from_def MAX_DEPTH_def)

theorem nint_below_i64_accepted_witness:
  "encode (Nint 0xFFFFFFFFFFFFFFFF) = Inr (head 1 0xFFFFFFFFFFFFFFFF)
    \<and> decode (head 1 0xFFFFFFFFFFFFFFFF) = Inr (Nint 0xFFFFFFFFFFFFFFFF)
    \<and> as_i64 (Nint 0xFFFFFFFFFFFFFFFF) = None"
  by (rule nint_below_i64_accepted) simp

end
