(* ===== verification/Wire.thy ===== *)
theory Wire
  imports Cbor
begin

text \<open>
  Typed mapping between values and \<open>mdb-cbor/1\<close> items: \<open>wire/src/schema.rs\<close> (the helpers of
  the schema macros and the primitive types) and \<open>wire/src/common.rs\<close> (fixed byte strings,
  versions, data maps, frontmatter values, texts).

  A \<open>wire_struct!\<close> type is a record whose codec is a list of field encoders
  (\<open>req_enc\<close>, \<open>opt_enc\<close>) and a chain of field decoders (\<open>req_dec\<close>, \<open>opt_dec\<close>,
  \<open>non_empty\<close>), one for each field mode of the macro.  The trait \<open>Wire\<close> is the locale
  \<open>wire_type\<close>; every wire type of the development interprets it.
\<close>

subsection \<open>Schema errors\<close>

datatype SchemaError =
    CborErr CborError
  | TypeErr string string string
  | Missing string u64
  | UnknownVariant string u64
  | UnknownFormat string u64
  | Invalid string string

fun schema_error_display :: "SchemaError \<Rightarrow> string" where
  "schema_error_display (CborErr e) = ''invalid mdb-cbor/1: '' @ cbor_error_display e"
| "schema_error_display (TypeErr ty expected found) = ty @ '': expected '' @ expected @ '', found '' @ found"
| "schema_error_display (Missing ty key) = ty @ '': missing required key '' @ show_nat (unat key)"
| "schema_error_display (UnknownVariant ty v) = ty @ '': unknown variant '' @ show_nat (unat v)"
| "schema_error_display (UnknownFormat ty f) = ty @ '': unknown fmt '' @ show_nat (unat f)"
| "schema_error_display (Invalid ty reason) = ty @ '': '' @ reason"

fun is_unknown :: "SchemaError \<Rightarrow> bool" where
  "is_unknown (UnknownVariant _ _) = True"
| "is_unknown (UnknownFormat _ _) = True"
| "is_unknown _ = False"

subsection \<open>Helpers of the macros\<close>

definition type_err :: "string \<Rightarrow> string \<Rightarrow> Cbor \<Rightarrow> SchemaError" where
  "type_err ty expected c = TypeErr ty expected (kind c)"

fun is_uint :: "Cbor \<Rightarrow> bool" where
  "is_uint (Uint _) = True"
| "is_uint _ = False"

definition struct_map :: "Cbor \<Rightarrow> string \<Rightarrow> SchemaError + (Cbor \<times> Cbor) list" where
  "struct_map c ty =
    (case c of
       CMap m \<Rightarrow> if list_all (\<lambda>(k, _). is_uint k) m then Ok m else Err (type_err ty ''struct map'' c)
     | _ \<Rightarrow> Err (type_err ty ''struct map'' c))"

definition lookup :: "(Cbor \<times> Cbor) list \<Rightarrow> u64 \<Rightarrow> Cbor option" where
  "lookup m key = map_option snd (find (\<lambda>(k, _). k = Uint key) m)"

definition require :: "(Cbor \<times> Cbor) list \<Rightarrow> u64 \<Rightarrow> string \<Rightarrow> SchemaError + Cbor" where
  "require m key ty = ok_or (lookup m key) (Missing ty key)"

definition check_fmt :: "(Cbor \<times> Cbor) list \<Rightarrow> string \<Rightarrow> u64 \<Rightarrow> SchemaError + unit" where
  "check_fmt m ty want =
    rbind (require m 0 ty) (\<lambda>c.
    case c of
      Uint f \<Rightarrow> if f = want then Ok () else Err (UnknownFormat ty f)
    | other \<Rightarrow> Err (type_err ty ''uint fmt'' other))"

definition discriminator :: "(Cbor \<times> Cbor) list \<Rightarrow> string \<Rightarrow> SchemaError + u64" where
  "discriminator m ty =
    rbind (require m 0 ty) (\<lambda>c.
    case c of
      Uint t \<Rightarrow> Ok t
    | other \<Rightarrow> Err (type_err ty ''uint discriminator'' other))"

fun with_tag :: "u64 \<Rightarrow> Cbor \<Rightarrow> Cbor" where
  "with_tag tag (CMap m) = CMap ((Uint 0, Uint tag) # m)"
| "with_tag tag other = other"

definition non_empty :: "'a list \<Rightarrow> string \<Rightarrow> SchemaError + 'a list" where
  "non_empty v ty = (if v = [] then Err (Invalid ty ''list must not be empty'') else Ok v)"

definition array :: "Cbor \<Rightarrow> string \<Rightarrow> SchemaError + Cbor list" where
  "array c ty = (case c of CArray a \<Rightarrow> Ok a | _ \<Rightarrow> Err (type_err ty ''array'' c))"

text \<open>The field modes of \<open>wire_struct!\<close>.\<close>

definition req_enc :: "u64 \<Rightarrow> Cbor \<Rightarrow> (Cbor \<times> Cbor) list" where
  "req_enc key c = [(Uint key, c)]"

definition opt_enc :: "u64 \<Rightarrow> Cbor option \<Rightarrow> (Cbor \<times> Cbor) list" where
  "opt_enc key v = (case v of Some c \<Rightarrow> [(Uint key, c)] | None \<Rightarrow> [])"

definition req_dec ::
  "(Cbor \<times> Cbor) list \<Rightarrow> u64 \<Rightarrow> string \<Rightarrow> (Cbor \<Rightarrow> SchemaError + 'a) \<Rightarrow> SchemaError + 'a" where
  "req_dec m key ty from_cbor = rbind (require m key ty) from_cbor"

definition opt_dec ::
  "(Cbor \<times> Cbor) list \<Rightarrow> u64 \<Rightarrow> (Cbor \<Rightarrow> SchemaError + 'a) \<Rightarrow> SchemaError + 'a option" where
  "opt_dec m key from_cbor =
    (case lookup m key of
       Some v \<Rightarrow> rbind (from_cbor v) (\<lambda>x. Ok (Some x))
     | None \<Rightarrow> Ok None)"

definition req1_dec ::
  "(Cbor \<times> Cbor) list \<Rightarrow> u64 \<Rightarrow> string \<Rightarrow> (Cbor \<Rightarrow> SchemaError + 'a list) \<Rightarrow> SchemaError + 'a list" where
  "req1_dec m key ty from_cbor = rbind (req_dec m key ty from_cbor) (\<lambda>v. non_empty v ty)"

definition opt1_dec ::
  "(Cbor \<times> Cbor) list \<Rightarrow> u64 \<Rightarrow> string \<Rightarrow> (Cbor \<Rightarrow> SchemaError + 'a list) \<Rightarrow> SchemaError + 'a list option" where
  "opt1_dec m key ty from_cbor =
    rbind (opt_dec m key from_cbor) (\<lambda>v.
    case v of
      Some v \<Rightarrow> rbind (non_empty v ty) (\<lambda>v. Ok (Some v))
    | None \<Rightarrow> Ok None)"

text \<open>The provided methods of the trait \<open>Wire\<close>.\<close>

definition to_bytes :: "('a \<Rightarrow> Cbor) \<Rightarrow> 'a \<Rightarrow> CborError + bytes" where
  "to_bytes to_cbor v = encode (to_cbor v)"

definition from_bytes :: "(Cbor \<Rightarrow> SchemaError + 'a) \<Rightarrow> bytes \<Rightarrow> SchemaError + 'a" where
  "from_bytes from_cbor bs = rbind (map_err CborErr (decode bs)) from_cbor"

subsection \<open>Primitive types\<close>

fun u64_from_cbor :: "Cbor \<Rightarrow> SchemaError + u64" where
  "u64_from_cbor (Uint n) = Ok n"
| "u64_from_cbor c = Err (type_err ''uint'' ''uint'' c)"

definition i64_from_cbor :: "Cbor \<Rightarrow> SchemaError + i64" where
  "i64_from_cbor c =
    (case c of
       Uint _ \<Rightarrow> ok_or (as_i64 c) (Invalid ''int'' ''integer outside int64'')
     | Nint _ \<Rightarrow> ok_or (as_i64 c) (Invalid ''int'' ''integer outside int64'')
     | _ \<Rightarrow> Err (type_err ''int'' ''int'' c))"

fun bool_from_cbor :: "Cbor \<Rightarrow> SchemaError + bool" where
  "bool_from_cbor (CBool b) = Ok b"
| "bool_from_cbor c = Err (type_err ''bool'' ''bool'' c)"

fun string_from_cbor :: "Cbor \<Rightarrow> SchemaError + bytes" where
  "string_from_cbor (CText s) = Ok s"
| "string_from_cbor c = Err (type_err ''tstr'' ''text'' c)"

definition vec_to_cbor :: "('a \<Rightarrow> Cbor) \<Rightarrow> 'a list \<Rightarrow> Cbor" where
  "vec_to_cbor to_cbor vs = CArray (map to_cbor vs)"

definition vec_from_cbor :: "(Cbor \<Rightarrow> SchemaError + 'a) \<Rightarrow> Cbor \<Rightarrow> SchemaError + 'a list" where
  "vec_from_cbor from_cbor c = rbind (array c ''array'') (rmapM from_cbor)"

subsection \<open>Common types\<close>

text \<open>\<open>fixed_bytes!\<close>: an array of \<open>n\<close> bytes is a word of \<open>8 * n\<close> bits.\<close>

definition fixed_to_cbor :: "nat \<Rightarrow> 'a::len word \<Rightarrow> Cbor" where
  "fixed_to_cbor n w = CBytes (be_bytes n w)"

definition fixed_from_cbor :: "nat \<Rightarrow> string \<Rightarrow> string \<Rightarrow> Cbor \<Rightarrow> SchemaError + 'a::len word" where
  "fixed_from_cbor n name what c =
    (case c of
       CBytes b \<Rightarrow> if length b = n then Ok (of_be b) else Err (Invalid name what)
     | _ \<Rightarrow> Err (type_err name ''bytes'' c))"

abbreviation b16_to_cbor :: "b16 \<Rightarrow> Cbor" where
  "b16_to_cbor \<equiv> fixed_to_cbor 16"

abbreviation b16_from_cbor :: "Cbor \<Rightarrow> SchemaError + b16" where
  "b16_from_cbor \<equiv> fixed_from_cbor 16 ''B16'' ''must be 16 bytes''"

abbreviation b32_to_cbor :: "b32 \<Rightarrow> Cbor" where
  "b32_to_cbor \<equiv> fixed_to_cbor 32"

abbreviation b32_from_cbor :: "Cbor \<Rightarrow> SchemaError + b32" where
  "b32_from_cbor \<equiv> fixed_from_cbor 32 ''B32'' ''must be 32 bytes''"

abbreviation b64_to_cbor :: "b64 \<Rightarrow> Cbor" where
  "b64_to_cbor \<equiv> fixed_to_cbor 64"

abbreviation b64_from_cbor :: "Cbor \<Rightarrow> SchemaError + b64" where
  "b64_from_cbor \<equiv> fixed_from_cbor 64 ''B64'' ''must be 64 bytes''"

fun bytes_from_cbor :: "Cbor \<Rightarrow> SchemaError + bytes" where
  "bytes_from_cbor (CBytes b) = Ok b"
| "bytes_from_cbor c = Err (type_err ''bstr'' ''bytes'' c)"

record Version =
  major :: u64
  minor :: u64

definition version_to_cbor :: "Version \<Rightarrow> Cbor" where
  "version_to_cbor v = CArray [Uint (major v), Uint (minor v)]"

definition version_from_cbor :: "Cbor \<Rightarrow> SchemaError + Version" where
  "version_from_cbor c =
    rbind (array c ''version'') (\<lambda>xs.
    case xs of
      [a, b] \<Rightarrow> rbind (u64_from_cbor a) (\<lambda>a. rbind (u64_from_cbor b) (\<lambda>b.
                Ok \<lparr>major = a, minor = b\<rparr>))
    | _ \<Rightarrow> Err (Invalid ''version'' ''must be [major, minor]''))"

text \<open>\<open>DataMap<T>\<close>: text keys, order significant.\<close>

definition data_map_get :: "bytes \<Rightarrow> (bytes \<times> 'a) list \<Rightarrow> 'a option" where
  "data_map_get key m = map_option snd (find (\<lambda>(k, _). k = key) m)"

definition data_map_to_cbor :: "('a \<Rightarrow> Cbor) \<Rightarrow> (bytes \<times> 'a) list \<Rightarrow> Cbor" where
  "data_map_to_cbor to_cbor m = CMap (map (\<lambda>(k, v). (CText k, to_cbor v)) m)"

definition data_map_from_cbor :: "(Cbor \<Rightarrow> SchemaError + 'a) \<Rightarrow> Cbor \<Rightarrow> SchemaError + (bytes \<times> 'a) list" where
  "data_map_from_cbor from_cbor c =
    (case c of
       CMap m \<Rightarrow>
         rmapM (\<lambda>(k, v).
           case k of
             CText k \<Rightarrow> rbind (from_cbor v) (\<lambda>v. Ok (k, v))
           | _ \<Rightarrow> Err (type_err ''data map'' ''text key'' k)) m
     | _ \<Rightarrow> Err (type_err ''data map'' ''map'' c))"

datatype Value =
    VNull
  | VBool bool
  | VInt i64
  | VFloat u64
  | VText bytes
  | VList "Value list"
  | VMap "(bytes \<times> Value) list"

fun value_to_cbor :: "Value \<Rightarrow> Cbor" where
  "value_to_cbor VNull = CNull"
| "value_to_cbor (VBool b) = CBool b"
| "value_to_cbor (VInt i) = cbor_int i"
| "value_to_cbor (VFloat f) = CFloat f"
| "value_to_cbor (VText s) = CText s"
| "value_to_cbor (VList l) = CArray (map value_to_cbor l)"
| "value_to_cbor (VMap m) = CMap (map (\<lambda>(k, v). (CText k, value_to_cbor v)) m)"

fun value_from_cbor :: "Cbor \<Rightarrow> SchemaError + Value" where
  "value_from_cbor CNull = Ok VNull"
| "value_from_cbor (CBool b) = Ok (VBool b)"
| "value_from_cbor (Uint n) = rbind (i64_from_cbor (Uint n)) (\<lambda>i. Ok (VInt i))"
| "value_from_cbor (Nint n) = rbind (i64_from_cbor (Nint n)) (\<lambda>i. Ok (VInt i))"
| "value_from_cbor (CFloat f) = Ok (VFloat f)"
| "value_from_cbor (CText s) = Ok (VText s)"
| "value_from_cbor (CArray a) = rbind (rmapM value_from_cbor a) (\<lambda>l. Ok (VList l))"
| "value_from_cbor (CMap m) =
    rbind (rmapM (\<lambda>(k, v).
      case k of
        CText k \<Rightarrow> rbind (value_from_cbor v) (\<lambda>v. Ok (k, v))
      | _ \<Rightarrow> Err (Invalid ''value'' ''map keys must be text'')) m) (\<lambda>m. Ok (VMap m))"
| "value_from_cbor (CBytes _) = Err (Invalid ''value'' ''byte strings are not values'')"

datatype Text = Inline bytes | Index u64

fun text_to_cbor :: "Text \<Rightarrow> Cbor" where
  "text_to_cbor (Inline s) = CText s"
| "text_to_cbor (Index i) = Uint i"

fun text_from_cbor :: "Cbor \<Rightarrow> SchemaError + Text" where
  "text_from_cbor (CText s) = Ok (Inline s)"
| "text_from_cbor (Uint i) = Ok (Index i)"
| "text_from_cbor c = Err (type_err ''text'' ''text or uint'' c)"

subsection \<open>The trait \<open>Wire\<close>\<close>

locale wire_type =
  fixes to_cbor :: "'a \<Rightarrow> Cbor"
    and from_cbor :: "Cbor \<Rightarrow> SchemaError + 'a"
    and rep :: "'a \<Rightarrow> bool"
  assumes from_to: "rep v \<Longrightarrow> from_cbor (to_cbor v) = Inr v"
    and to_rep: "rep v \<Longrightarrow> cbor_rep (to_cbor v)"
begin

lemma to_cbor_inj: "to_cbor v = to_cbor w \<Longrightarrow> rep v \<Longrightarrow> rep w \<Longrightarrow> v = w"
  using from_to by (metis sum.inject(2))

lemma bytes_round_trip: "to_bytes to_cbor v = Inr bs \<Longrightarrow> rep v \<Longrightarrow> from_bytes from_cbor bs = Inr v"
  using cbor.round_trip [OF _ to_rep] by (simp add: to_bytes_def from_bytes_def from_to)

lemma to_bytes_inj:
  "to_bytes to_cbor v = Inr bs \<Longrightarrow> to_bytes to_cbor w = Inr bs \<Longrightarrow> rep v \<Longrightarrow> rep w \<Longrightarrow> v = w"
  using bytes_round_trip [of v bs] bytes_round_trip [of w bs] by simp

lemma vec_from_to: "list_all rep vs \<Longrightarrow> vec_from_cbor from_cbor (vec_to_cbor to_cbor vs) = Inr vs"
  using rmapM_all_Ok [of vs "\<lambda>v. from_cbor (to_cbor v)" "\<lambda>v. v"]
  by (simp add: vec_from_cbor_def vec_to_cbor_def array_def rmapM_map from_to list_all_iff)

lemma vec_rep: "length vs < 2 ^ 64 \<Longrightarrow> list_all rep vs \<Longrightarrow> cbor_rep (vec_to_cbor to_cbor vs)"
  by (auto simp: vec_to_cbor_def list_all_iff to_rep)

end

text \<open>Types whose encoding always succeeds: nesting at most \<open>height\<close>, and nothing that breaks
  the profile.\<close>

locale wire_total = wire_type +
  fixes height :: nat
  assumes to_profile: "rep v \<Longrightarrow> d + height \<le> MAX_DEPTH \<Longrightarrow> in_profile d (to_cbor v)"
begin

lemma to_bytes_total: "rep v \<Longrightarrow> height \<le> MAX_DEPTH \<Longrightarrow> \<exists>bs. to_bytes to_cbor v = Inr bs"
  using to_profile [of v 0] encode_Ok_iff(1) [of "to_cbor v" 0] by (simp add: to_bytes_def encode_def)

lemma bytes_total_round_trip:
  "height \<le> MAX_DEPTH \<Longrightarrow> rep v \<Longrightarrow>
    \<exists>bs. to_bytes to_cbor v = Inr bs \<and> from_bytes from_cbor bs = Inr v"
  using to_bytes_total [of v] bytes_round_trip [of v] by auto

lemma vec_profile:
  "list_all rep vs \<Longrightarrow> d + Suc height \<le> MAX_DEPTH \<Longrightarrow> in_profile d (vec_to_cbor to_cbor vs)"
  by (auto simp: vec_to_cbor_def list_all_iff intro!: to_profile)

end

subsection \<open>Struct maps\<close>

lemma lookup_enc [simp]:
  "lookup [] k = None"
  "lookup (req_enc j c) k = (if j = k then Some c else None)"
  "lookup (req_enc j c @ m) k = (if j = k then Some c else lookup m k)"
  "lookup (opt_enc j v) k = (if j = k then v else None)"
  "j \<noteq> k \<Longrightarrow> lookup (opt_enc j v @ m) k = lookup m k"
  "lookup m j = None \<Longrightarrow> lookup (opt_enc j v @ m) j = v"
  "lookup ((Uint j, c) # m) k = (if j = k then Some c else lookup m k)"
  by (auto simp: lookup_def req_enc_def opt_enc_def split: option.splits)

lemma uint_keys_enc [simp]:
  "list_all (\<lambda>(k, _). is_uint k) (req_enc j c)"
  "list_all (\<lambda>(k, _). is_uint k) (opt_enc j v)"
  by (auto simp: req_enc_def opt_enc_def split: option.splits)

lemma struct_map_CMap [simp]: "list_all (\<lambda>(k, _). is_uint k) m \<Longrightarrow> struct_map (CMap m) ty = Inr m"
  by (simp add: struct_map_def)

lemma req_dec_hit [simp]: "lookup m k = Some c \<Longrightarrow> req_dec m k ty f = f c"
  by (simp add: req_dec_def require_def)

lemma check_fmt_hit [simp]: "lookup m 0 = Some (Uint f) \<Longrightarrow> check_fmt m ty f = Inr ()"
  by (simp add: check_fmt_def require_def)

lemma discriminator_hit [simp]: "lookup m 0 = Some (Uint f) \<Longrightarrow> discriminator m ty = Inr f"
  by (simp add: discriminator_def require_def)

lemma opt_case_Ok [codec_simps]:
  "pred_option (\<lambda>x. g x = Inr (Some x)) v \<Longrightarrow> (case v of None \<Rightarrow> Ok None | Some x \<Rightarrow> g x) = Inr v"
  by (cases v) auto

lemma non_empty_hit [simp]: "v \<noteq> [] \<Longrightarrow> non_empty v ty = Inr v"
  by (simp add: non_empty_def)

lemma req1_dec_hit:
  "lookup m k = Some c \<Longrightarrow> f c = Inr v \<Longrightarrow> v \<noteq> [] \<Longrightarrow> req1_dec m k ty f = Inr v"
  by (simp add: req1_dec_def)

lemmas struct_dec_simps [codec_simps] = opt_dec_def opt1_dec_def req1_dec_def option.pred_True

lemma cbor_rep_struct:
  "cbor_rep (CMap m) \<longleftrightarrow> length m < 2 ^ 64 \<and> list_all (\<lambda>(k, v). cbor_rep k \<and> cbor_rep v) m"
  by (auto simp: list_all_iff)

lemma rep_enc [simp]:
  "list_all (\<lambda>(k, v). cbor_rep k \<and> cbor_rep v) (req_enc j c) \<longleftrightarrow> cbor_rep c"
  "list_all (\<lambda>(k, v). cbor_rep k \<and> cbor_rep v) (opt_enc j o') \<longleftrightarrow> pred_option cbor_rep o'"
  by (auto simp: req_enc_def opt_enc_def split: option.splits)

lemma length_enc: "length (req_enc j c) = 1" "length (opt_enc j v) \<le> 1"
  by (auto simp: req_enc_def opt_enc_def split: option.splits)

text \<open>Ascending keys of a field list, at least \<open>p\<close>.\<close>

definition ascending :: "nat \<Rightarrow> (Cbor \<times> Cbor) list \<Rightarrow> bool" where
  "ascending p m \<longleftrightarrow>
    (\<exists>ns. map fst m = map Uint ns \<and> sorted_wrt (<) ns \<and> (\<forall>n\<in>set ns. p \<le> unat n))"

lemma ascending_Nil: "ascending p []"
  by (simp add: ascending_def)

lemma ascending_mono: "ascending q m \<Longrightarrow> p \<le> q \<Longrightarrow> ascending p m"
  by (force simp: ascending_def)

lemma ascending_Cons: "p \<le> unat k \<Longrightarrow> ascending (Suc (unat k)) m \<Longrightarrow> ascending p ((Uint k, c) # m)"
proof -
  assume p: "p \<le> unat k" and "ascending (Suc (unat k)) m"
  then obtain ns where ns: "map fst m = map Uint ns" "sorted_wrt (<) ns" "\<forall>n\<in>set ns. Suc (unat k) \<le> unat n"
    by (auto simp: ascending_def)
  then show ?thesis unfolding ascending_def
    by (intro exI [of _ "k # ns"]) (use p in \<open>force simp: word_less_nat_alt\<close>)
qed

lemma ascending_req:
  "p \<le> unat k \<Longrightarrow> ascending (Suc (unat k)) m \<Longrightarrow> ascending p (req_enc k c @ m)"
  "p \<le> unat k \<Longrightarrow> ascending p (req_enc k c)"
  by (auto simp: req_enc_def intro: ascending_Cons ascending_Nil)

lemma ascending_opt:
  "p \<le> unat k \<Longrightarrow> ascending (Suc (unat k)) m \<Longrightarrow> ascending p (opt_enc k v @ m)"
  "p \<le> unat k \<Longrightarrow> ascending p (opt_enc k v)"
  by (auto simp: opt_enc_def intro: ascending_Cons ascending_Nil ascending_mono split: option.splits)

lemmas ascending_intros = ascending_req ascending_opt ascending_Cons ascending_Nil

lemma in_profile_struct:
  "d + 1 \<le> MAX_DEPTH \<Longrightarrow> ascending 0 m \<Longrightarrow> list_all (in_profile (d + 1)) (map snd m) \<Longrightarrow>
    in_profile d (CMap m)"
proof -
  assume d: "d + 1 \<le> MAX_DEPTH" and a: "ascending 0 m" and v: "list_all (in_profile (d + 1)) (map snd m)"
  have "in_profile (d + 1) k" if "(k, x) \<in> set m" for k x
  proof -
    from a obtain ns where "map fst m = map Uint ns" by (auto simp: ascending_def)
    then have "fst ` set m = Uint ` set ns" by (metis list.set_map)
    with that have "k \<in> Uint ` set ns" by (metis fst_conv image_eqI)
    then show ?thesis using d by auto
  qed
  with d a v show ?thesis by (auto simp: ascending_def map_rule_def list_all_iff)
qed

lemma profile_enc [simp]:
  "list_all P (map snd (req_enc k c)) \<longleftrightarrow> P c"
  "list_all P (map snd (opt_enc k v)) \<longleftrightarrow> pred_option P v"
  by (auto simp: req_enc_def opt_enc_def split: option.splits)

subsection \<open>Codecs of the common types\<close>

lemma fixed_from_to [simp]:
  "8 * n = LENGTH('a) \<Longrightarrow> fixed_from_cbor n name what (fixed_to_cbor n (w :: 'a::len word)) = Inr w"
  by (simp add: fixed_from_cbor_def fixed_to_cbor_def of_be_full)

lemma fixed_rep [simp]: "n < 2 ^ 64 \<Longrightarrow> cbor_rep (fixed_to_cbor n w)"
  by (simp add: fixed_to_cbor_def)

lemma fixed_profile [simp]: "in_profile d (fixed_to_cbor n w) \<longleftrightarrow> d \<le> MAX_DEPTH"
  by (simp add: fixed_to_cbor_def)

lemma cbor_int_rep [simp]: "cbor_rep (cbor_int v)" "in_profile d (cbor_int v) \<longleftrightarrow> d \<le> MAX_DEPTH"
  by (simp_all add: cbor_int_def)

lemma i64_from_to [simp]: "i64_from_cbor (cbor_int v) = Inr v"
  using as_i64_int [of v] by (auto simp: i64_from_cbor_def cbor_int_def)

lemma i64_from_Ok_iff: "i64_from_cbor c = Inr v \<longleftrightarrow> c = cbor_int v"
proof -
  have "i64_from_cbor c = Inr v \<longleftrightarrow> as_i64 c = Some v"
    by (cases c) (simp_all add: i64_from_cbor_def ok_or_Ok_iff)
  then show ?thesis by (simp add: as_i64_iff)
qed

interpretation u64: wire_total Uint u64_from_cbor "\<lambda>_. True" 0
  by unfold_locales auto

interpretation i64: wire_total cbor_int i64_from_cbor "\<lambda>_. True" 0
  by unfold_locales auto

interpretation bool: wire_total CBool bool_from_cbor "\<lambda>_. True" 0
  by unfold_locales auto

interpretation string: wire_total CText string_from_cbor "\<lambda>s. length s < 2 ^ 64 \<and> utf8_valid s" 0
  by unfold_locales auto

interpretation bstr: wire_total CBytes bytes_from_cbor "\<lambda>b. length b < 2 ^ 64" 0
  by unfold_locales auto

interpretation b16: wire_total b16_to_cbor b16_from_cbor "\<lambda>_. True" 0
  by unfold_locales auto

interpretation b32: wire_total b32_to_cbor b32_from_cbor "\<lambda>_. True" 0
  by unfold_locales auto

interpretation b64: wire_total b64_to_cbor b64_from_cbor "\<lambda>_. True" 0
  by unfold_locales auto

interpretation version: wire_total version_to_cbor version_from_cbor "\<lambda>_. True" 1
  by unfold_locales (auto simp: version_to_cbor_def version_from_cbor_def array_def)

definition text_rep :: "Text \<Rightarrow> bool" where
  "text_rep t \<longleftrightarrow> (case t of Inline s \<Rightarrow> length s < 2 ^ 64 \<and> utf8_valid s | Index _ \<Rightarrow> True)"

interpretation inline_text: wire_total text_to_cbor text_from_cbor text_rep 0
proof
  fix v d
  show "text_from_cbor (text_to_cbor v) = Inr v" by (cases v) auto
  show "text_rep v \<Longrightarrow> cbor_rep (text_to_cbor v)" by (cases v) (auto simp: text_rep_def)
  show "d + 0 \<le> MAX_DEPTH \<Longrightarrow> in_profile d (text_to_cbor v)" by (cases v) auto
qed

subsection \<open>Frontmatter values\<close>

lemma value_from_to: "value_from_cbor (value_to_cbor v) = Inr v"
proof (induction v)
  case (VInt i)
  have "value_from_cbor (cbor_int i) = rbind (i64_from_cbor (cbor_int i)) (\<lambda>i. Ok (VInt i))"
    by (simp add: cbor_int_def)
  then show ?case by simp
next
  case (VList l)
  then have "rmapM (\<lambda>v. value_from_cbor (value_to_cbor v)) l = Inr (map (\<lambda>v. v) l)"
    by (intro rmapM_all_Ok) simp
  then show ?case by (simp add: rmapM_map)
next
  case (VMap m)
  have "value_from_cbor (value_to_cbor v) = Inr v" if "(k, v) \<in> set m" for k v
    using VMap that by auto
  then have "rmapM (\<lambda>(k, v). rbind (value_from_cbor (value_to_cbor v)) (\<lambda>v. Ok (k, v))) m
      = Inr (map (\<lambda>e. e) m)"
    by (intro rmapM_all_Ok) auto
  then show ?case by (simp add: rmapM_map split_def)
qed auto

lemma value_to_from: "value_from_cbor c = Inr v \<Longrightarrow> value_to_cbor v = c"
proof (induction c arbitrary: v rule: value_from_cbor.induct)
  case (7 a)
  then obtain l where l: "list_all2 (\<lambda>x y. value_from_cbor x = Inr y) a l" "v = VList l"
    by (auto simp: res_simps rmapM_Ok_iff)
  then have "map value_to_cbor l = a"
    using 7(1) by (intro nth_equalityI) (auto simp: list_all2_conv_all_nth)
  then show ?case by (simp add: l(2))
next
  case (8 m)
  let ?R = "\<lambda>x y. (case x of (k, v) \<Rightarrow> case k of CText k \<Rightarrow> rbind (value_from_cbor v) (\<lambda>v. Ok (k, v))
      | _ \<Rightarrow> Err (Invalid ''value'' ''map keys must be text'')) = Inr y"
  from 8(2) obtain l where l: "list_all2 ?R m l" "v = VMap l"
    by (auto simp: res_simps rmapM_Ok_iff)
  have step: "(CText (fst y), value_to_cbor (snd y)) = x" if "x \<in> set m" "?R x y" for x y
  proof -
    obtain k w where x: "x = (k, w)" by fastforce
    with that(2) obtain s where "k = CText s" by (auto split: Cbor.splits)
    then show ?thesis using that x 8(1) by (auto simp: res_simps)
  qed
  have "map (\<lambda>(k, v). (CText k, value_to_cbor v)) l = m"
    using l(1) step by (intro nth_equalityI) (auto simp: list_all2_conv_all_nth split_def)
  then show ?case by (simp add: l(2))
qed (auto simp: res_simps i64_from_Ok_iff)

definition value_to_bytes :: "Value \<Rightarrow> CborError + bytes" where
  "value_to_bytes = to_bytes value_to_cbor"

definition value_from_bytes :: "bytes \<Rightarrow> SchemaError + Value" where
  "value_from_bytes = from_bytes value_from_cbor"

interpretation fm_value: codec value_to_bytes value_from_bytes "\<lambda>v. cbor_rep (value_to_cbor v)"
proof
  show "value_from_bytes bs = Inr v \<longleftrightarrow> value_to_bytes v = Inr bs \<and> cbor_rep (value_to_cbor v)" for bs v
    by (auto simp: value_from_bytes_def value_to_bytes_def from_bytes_def to_bytes_def res_simps
        decode_iff value_from_to dest: value_to_from)
qed

text \<open>Frontmatter values have exactly one wire form: bytes decode to a value if and only if
  they are the encoding of that value, whatever the nesting.\<close>

theorem value_bytes_exact:
  "value_from_bytes bs = Inr v \<longleftrightarrow> value_to_bytes v = Inr bs \<and> cbor_rep (value_to_cbor v)"
  by (rule fm_value.dec_exact)

text \<open>Compatibility of struct maps: an entry under a key the schema does not read changes no
  field, whether the field is required or optional.\<close>

theorem unknown_key_ignored:
  assumes "j \<noteq> k"
  shows "req_dec (m1 @ (Uint j, c) # m2) k ty f = req_dec (m1 @ m2) k ty f
    \<and> opt_dec (m1 @ (Uint j, c) # m2) k f = opt_dec (m1 @ m2) k f"
proof -
  have "lookup (m1 @ (Uint j, c) # m2) k = lookup (m1 @ m2) k"
    using assms by (induction m1) (auto simp: lookup_def)
  then show ?thesis by (simp add: req_dec_def opt_dec_def require_def)
qed

theorem unknown_key_ignored_witness:
  "req_dec ([(Uint 1, Uint 7)] @ (Uint 99, CNull) # []) 1 ''T'' u64_from_cbor
      = req_dec ([(Uint 1, Uint 7)] @ []) 1 ''T'' u64_from_cbor
    \<and> opt_dec ([(Uint 1, Uint 7)] @ (Uint 99, CNull) # []) 1 u64_from_cbor
      = opt_dec ([(Uint 1, Uint 7)] @ []) 1 u64_from_cbor"
  by (rule unknown_key_ignored) simp

end
