(* ===== verification/DecodeBudget.thy ===== *)
theory DecodeBudget
  imports Wire
begin

text \<open>
  Errors of the log service (\<open>log-service/src/error.rs\<close>) and the whole-request decode budget
  (\<open>log-service/src/decode.rs\<close>): an allocation-free scan that counts the values, the depth and
  the bytes of every decode of a request before the ordinary decoder runs.

  A budget is its \<open>Usage\<close>, threaded explicitly through the operations that share it; the
  optional offline ledger is not modelled (the service is run without it).  A scan is its
  remaining input and its statistics; it returns the statistics on failure too, because failed
  scans are charged.
\<close>

subsection \<open>Service errors\<close>

datatype Code =
    CodeUnauthenticated | CodeForbidden | CodeNotFound | CodeGone | CodeInvalid | CodeTooLarge
  | CodeRefsMissing | CodeFrozen | CodeRateLimited | CodeQuotaExceeded | CodeUnavailable
  | CodeUpgradeRequired

fun code_as_str :: "Code \<Rightarrow> string" where
  "code_as_str CodeUnauthenticated = ''unauthenticated''"
| "code_as_str CodeForbidden = ''forbidden''"
| "code_as_str CodeNotFound = ''not_found''"
| "code_as_str CodeGone = ''gone''"
| "code_as_str CodeInvalid = ''invalid''"
| "code_as_str CodeTooLarge = ''too_large''"
| "code_as_str CodeRefsMissing = ''refs_missing''"
| "code_as_str CodeFrozen = ''frozen''"
| "code_as_str CodeRateLimited = ''rate_limited''"
| "code_as_str CodeQuotaExceeded = ''quota_exceeded''"
| "code_as_str CodeUnavailable = ''unavailable''"
| "code_as_str CodeUpgradeRequired = ''upgrade_required''"

definition code_parse :: "string \<Rightarrow> Code option" where
  "code_parse s = map_of (map (\<lambda>c. (code_as_str c, c))
    [CodeUnauthenticated, CodeForbidden, CodeNotFound, CodeGone, CodeInvalid, CodeTooLarge,
     CodeRefsMissing, CodeFrozen, CodeRateLimited, CodeQuotaExceeded, CodeUnavailable,
     CodeUpgradeRequired]) s"

record ServiceError =
  se_code :: Code
  se_reason :: "string option"
  se_message :: "string option"
  se_retry_after_ms :: "u64 option"
  se_details :: "Cbor option"

definition err_new :: "Code \<Rightarrow> ServiceError" where
  "err_new code = \<lparr>se_code = code, se_reason = None, se_message = None, se_retry_after_ms = None,
     se_details = None\<rparr>"

definition err_reason :: "Code \<Rightarrow> string \<Rightarrow> ServiceError" where
  "err_reason code reason = (err_new code)\<lparr>se_reason := Some reason\<rparr>"

definition err_msg :: "ServiceError \<Rightarrow> string \<Rightarrow> ServiceError" where
  "err_msg e m = e\<lparr>se_message := Some m\<rparr>"

definition err_retry :: "ServiceError \<Rightarrow> u64 \<Rightarrow> ServiceError" where
  "err_retry e ms = e\<lparr>se_retry_after_ms := Some ms\<rparr>"

definition err_invalid :: "string \<Rightarrow> ServiceError" where
  "err_invalid reason = err_reason CodeInvalid reason"

definition err_backend :: "string \<Rightarrow> ServiceError" where
  "err_backend m = err_retry (err_msg (err_new CodeUnavailable) m) 250"

subsection \<open>The scan\<close>

definition MAX_BYTES :: nat where
  "MAX_BYTES = 16 * 1024 * 1024"

definition MAX_NODES :: nat where
  "MAX_NODES = 4096"

definition MAX_WORK_BYTES :: nat where
  "MAX_WORK_BYTES = 64 * 1024 * 1024"

record Usage =
  us_nodes :: nat
  us_work_bytes :: nat
  us_depth :: nat

record Stats =
  st_nodes :: nat
  st_depth :: nat

record Scan =
  sc_rest :: bytes
  sc_nodes :: nat
  sc_depth :: nat

definition scan_take :: "nat \<Rightarrow> Scan \<Rightarrow> Scan \<times> (string + bytes)" where
  "scan_take n s =
    (if n \<le> length (sc_rest s) then (s\<lparr>sc_rest := drop n (sc_rest s)\<rparr>, Ok (take n (sc_rest s)))
     else (s, Err ''cbor_shape''))"

definition scan_argument :: "u8 \<Rightarrow> Scan \<Rightarrow> Scan \<times> (string + u64)" where
  "scan_argument ai s =
    (if ai \<le> 23 then (s, Ok (ucast ai))
     else if ai = 24 then apsnd (\<lambda>r. rbind r (\<lambda>b. Ok (of_be b))) (scan_take 1 s)
     else if ai = 25 then apsnd (\<lambda>r. rbind r (\<lambda>b. Ok (of_be b))) (scan_take 2 s)
     else if ai = 26 then apsnd (\<lambda>r. rbind r (\<lambda>b. Ok (of_be b))) (scan_take 4 s)
     else if ai = 27 then apsnd (\<lambda>r. rbind r (\<lambda>b. Ok (of_be b))) (scan_take 8 s)
     else (s, Err ''cbor_shape''))"

function scan_value :: "nat \<Rightarrow> nat \<Rightarrow> Scan \<Rightarrow> Scan \<times> (string + unit)"
  and scan_values :: "nat \<Rightarrow> nat \<Rightarrow> nat \<Rightarrow> Scan \<Rightarrow> Scan \<times> (string + unit)" where
  "scan_value node_limit depth s =
    (if depth > MAX_DEPTH then (s, Err ''cbor_depth'')
     else let s = s\<lparr>sc_depth := max (sc_depth s) depth\<rparr> in
     if sc_nodes s = node_limit then (s, Err ''cbor_nodes'')
     else let s = s\<lparr>sc_nodes := sc_nodes s + 1\<rparr> in
     case scan_take 1 s of
       (s, Inl e) \<Rightarrow> (s, Err e)
     | (s, Inr b) \<Rightarrow>
       let byte = hd b; major = drop_bit 5 byte; ai = byte AND 31 in
       if major = 0 \<or> major = 1 then apsnd (\<lambda>r. rbind r (\<lambda>_. Ok ())) (scan_argument ai s)
       else if major = 2 \<or> major = 3 then
         (case scan_argument ai s of
            (s, Inl e) \<Rightarrow> (s, Err e)
          | (s, Inr n) \<Rightarrow> apsnd (\<lambda>r. rbind r (\<lambda>_. Ok ())) (scan_take (unat n) s))
       else if major = 4 \<or> major = 5 then
         (case scan_argument ai s of
            (s, Inl e) \<Rightarrow> (s, Err e)
          | (s, Inr n) \<Rightarrow>
              let count = unat n * (if major = 5 then 2 else 1) in
              if count \<ge> 2 ^ 64 then (s, Err ''cbor_nodes'')
              else if count > node_limit - sc_nodes s then (s, Err ''cbor_nodes'')
              else if count > length (sc_rest s) then (s, Err ''cbor_shape'')
              else scan_values node_limit (depth + 1) count s)
       else if major = 7 then
         (if 20 \<le> ai \<and> ai \<le> 22 then (s, Ok ())
          else if ai = 27 then apsnd (\<lambda>r. rbind r (\<lambda>_. Ok ())) (scan_take 8 s)
          else (s, Err ''cbor_shape''))
       else (s, Err ''cbor_shape''))"
| "scan_values node_limit depth 0 s = (s, Ok ())"
| "scan_values node_limit depth (Suc n) s =
    (case scan_value node_limit depth s of
       (s, Inl e) \<Rightarrow> (s, Err e)
     | (s, Inr _) \<Rightarrow> scan_values node_limit depth n s)"
  by pat_completeness auto
termination
  by (relation "measures
      [\<lambda>x. case x of Inl (_, d, _) \<Rightarrow> 2 * (129 - d) | Inr (_, d, _) \<Rightarrow> 2 * (129 - d) + 1,
       \<lambda>x. case x of Inl _ \<Rightarrow> 0 | Inr (_, _, n, _) \<Rightarrow> n]")
    (auto simp: MAX_DEPTH_def)

subsection \<open>Budgets\<close>

definition from_usage :: "Usage \<Rightarrow> ServiceError + Usage" where
  "from_usage u =
    (if us_nodes u > MAX_NODES \<or> us_work_bytes u > MAX_WORK_BYTES \<or> us_depth u > MAX_DEPTH then
       Err (err_invalid ''cbor_budget'')
     else Ok u)"

definition budget_default :: Usage where
  "budget_default = \<lparr>us_nodes = 0, us_work_bytes = 0, us_depth = 0\<rparr>"

definition preflight :: "bytes \<Rightarrow> Usage \<Rightarrow> Usage \<times> (string + Stats)" where
  "preflight bs u =
    (if length bs > MAX_BYTES then (u, Err ''cbor_bytes'')
     else let work = us_work_bytes u + length bs in
     if work \<ge> 2 ^ 64 \<or> work > MAX_WORK_BYTES then (u, Err ''cbor_work'')
     else
       let u = u\<lparr>us_work_bytes := work\<rparr>;
           (scan, r) = scan_value (MAX_NODES - us_nodes u) 0 \<lparr>sc_rest = bs, sc_nodes = 0, sc_depth = 0\<rparr>;
           result = rbind r (\<lambda>_.
             if sc_rest scan = [] then Ok \<lparr>st_nodes = sc_nodes scan, st_depth = sc_depth scan\<rparr>
             else Err ''cbor_shape'') in
       (u\<lparr>us_nodes := us_nodes u + sc_nodes scan, us_depth := max (us_depth u) (sc_depth scan)\<rparr>, result))"

fun materialization_error :: "CborError \<Rightarrow> ServiceError" where
  "materialization_error TooLong = err_invalid ''cbor_alloc''"
| "materialization_error _ = err_invalid ''shape''"

fun schema_materialization_error :: "SchemaError \<Rightarrow> ServiceError" where
  "schema_materialization_error (CborErr e) = materialization_error e"
| "schema_materialization_error _ = err_invalid ''shape''"

definition budget_raw :: "bytes \<Rightarrow> Usage \<Rightarrow> Usage \<times> (ServiceError + Cbor)" where
  "budget_raw bs u =
    (case preflight bs u of
       (u, Inl reason) \<Rightarrow> (u, Err (err_invalid reason))
     | (u, Inr _) \<Rightarrow> (u, map_err materialization_error (decode bs)))"

definition budget_wire ::
  "(Cbor \<Rightarrow> SchemaError + 'a) \<Rightarrow> bytes \<Rightarrow> Usage \<Rightarrow> Usage \<times> (ServiceError + 'a)" where
  "budget_wire from_cbor bs u =
    (case preflight bs u of
       (u, Inl reason) \<Rightarrow> (u, Err (err_invalid reason))
     | (u, Inr _) \<Rightarrow> (u, map_err schema_materialization_error (from_bytes from_cbor bs)))"

definition is_resource_refusal :: "ServiceError \<Rightarrow> bool" where
  "is_resource_refusal e \<longleftrightarrow> se_code e = CodeInvalid \<and>
    (case se_reason e of
       None \<Rightarrow> False
     | Some r \<Rightarrow> r \<in> {''cbor_nodes'', ''cbor_work'', ''cbor_bytes'', ''cbor_depth'', ''cbor_budget'',
         ''cbor_alloc'', ''cbor_offline_work'', ''cbor_offline_budget'', ''cbor_offline_memory''})"

subsection \<open>Bounds of a scan\<close>

declare scan_value.simps [simp del]

lemma scan_take_stats [simp]:
  "sc_nodes (fst (scan_take n s)) = sc_nodes s" "sc_depth (fst (scan_take n s)) = sc_depth s"
  by (simp_all add: scan_take_def)

lemma scan_argument_stats [simp]:
  "sc_nodes (fst (scan_argument ai s)) = sc_nodes s" "sc_depth (fst (scan_argument ai s)) = sc_depth s"
  by (simp_all add: scan_argument_def)

lemma scan_take_stats':
  "scan_take n s = (s', r) \<Longrightarrow> sc_nodes s' = sc_nodes s \<and> sc_depth s' = sc_depth s"
  using scan_take_stats [of n s] by simp

lemma scan_argument_stats':
  "scan_argument ai s = (s', r) \<Longrightarrow> sc_nodes s' = sc_nodes s \<and> sc_depth s' = sc_depth s"
  using scan_argument_stats [of ai s] by simp

text \<open>A scan changes the statistics at the head of a value only; the rest is the scan of the
  children.\<close>

lemma scan_value_stats:
  assumes "scan_value limit d s = (s', r)"
  shows "s' = s \<or> d \<le> MAX_DEPTH \<and> (s' = s\<lparr>sc_depth := max (sc_depth s) d\<rparr> \<or>
    sc_nodes s \<noteq> limit \<and> (\<exists>s1. sc_nodes s1 = sc_nodes s + 1 \<and> sc_depth s1 = max (sc_depth s) d \<and>
      (s' = s1 \<or> (\<exists>n. scan_values limit (d + 1) n s1 = (s', r)))))"
proof (cases "d \<le> MAX_DEPTH \<and> sc_nodes s \<noteq> limit")
  case True
  define s0 where "s0 = s\<lparr>sc_depth := max (sc_depth s) d, sc_nodes := sc_nodes s + 1\<rparr>"
  obtain s1 b where s1: "scan_take 1 s0 = (s1, b)" by fastforce
  have st1: "sc_nodes s1 = sc_nodes s + 1" "sc_depth s1 = max (sc_depth s) d"
    using scan_take_stats' [OF s1] by (simp_all add: s0_def)
  have eq: "scan_value limit d s = (case (s1, b) of (s, Inl e) \<Rightarrow> (s, Err e) | (s, Inr b) \<Rightarrow>
       let byte = hd b; major = drop_bit 5 byte; ai = byte AND 31 in
       if major = 0 \<or> major = 1 then apsnd (\<lambda>r. rbind r (\<lambda>_. Ok ())) (scan_argument ai s)
       else if major = 2 \<or> major = 3 then
         (case scan_argument ai s of
            (s, Inl e) \<Rightarrow> (s, Err e)
          | (s, Inr n) \<Rightarrow> apsnd (\<lambda>r. rbind r (\<lambda>_. Ok ())) (scan_take (unat n) s))
       else if major = 4 \<or> major = 5 then
         (case scan_argument ai s of
            (s, Inl e) \<Rightarrow> (s, Err e)
          | (s, Inr n) \<Rightarrow>
              let count = unat n * (if major = 5 then 2 else 1) in
              if count \<ge> 2 ^ 64 then (s, Err ''cbor_nodes'')
              else if count > limit - sc_nodes s then (s, Err ''cbor_nodes'')
              else if count > length (sc_rest s) then (s, Err ''cbor_shape'')
              else scan_values limit (d + 1) count s)
       else if major = 7 then
         (if 20 \<le> ai \<and> ai \<le> 22 then (s, Ok ())
          else if ai = 27 then apsnd (\<lambda>r. rbind r (\<lambda>_. Ok ())) (scan_take 8 s)
          else (s, Err ''cbor_shape''))
       else (s, Err ''cbor_shape''))"
    using True s1 by (subst scan_value.simps) (simp add: s0_def Let_def)
  have "\<exists>s2. sc_nodes s2 = sc_nodes s1 \<and> sc_depth s2 = sc_depth s1 \<and>
      (s' = s2 \<or> (\<exists>n. scan_values limit (d + 1) n s2 = (s', r)))"
    using assms unfolding eq Let_def
    by (auto simp: apsnd_def map_prod_def split: sum.splits if_splits prod.splits dest!: scan_take_stats' scan_argument_stats')
  with True st1 show ?thesis by auto
next
  case False
  with assms show ?thesis by (subst (asm) scan_value.simps) (auto simp: Let_def split: if_splits)
qed

lemma scan_values_bounds:
  assumes "\<And>s. sc_nodes s \<le> limit \<Longrightarrow> sc_depth s \<le> MAX_DEPTH \<Longrightarrow>
      sc_nodes (fst (scan_value limit d s)) \<le> limit \<and> sc_depth (fst (scan_value limit d s)) \<le> MAX_DEPTH"
    and "sc_nodes s \<le> limit" "sc_depth s \<le> MAX_DEPTH"
  shows "sc_nodes (fst (scan_values limit d n s)) \<le> limit \<and> sc_depth (fst (scan_values limit d n s)) \<le> MAX_DEPTH"
  using assms(2,3)
proof (induction n arbitrary: s)
  case (Suc n)
  obtain s1 r where s1: "scan_value limit d s = (s1, r)" by fastforce
  with assms(1) [OF Suc.prems] have "sc_nodes s1 \<le> limit" "sc_depth s1 \<le> MAX_DEPTH" by simp_all
  then show ?case using Suc.IH [of s1] s1 by (cases r) simp_all
qed simp

lemma scan_bounds:
  "sc_nodes s \<le> limit \<Longrightarrow> sc_depth s \<le> MAX_DEPTH \<Longrightarrow>
    sc_nodes (fst (scan_value limit d s)) \<le> limit \<and> sc_depth (fst (scan_value limit d s)) \<le> MAX_DEPTH"
proof (induction "MAX_DEPTH - d" arbitrary: d s rule: less_induct)
  case less
  obtain s' r where s': "scan_value limit d s = (s', r)" by fastforce
  have "d \<le> MAX_DEPTH \<Longrightarrow> sc_nodes s1 \<le> limit \<Longrightarrow> sc_depth s1 \<le> MAX_DEPTH \<Longrightarrow>
      sc_nodes (fst (scan_values limit (d + 1) n s1)) \<le> limit
      \<and> sc_depth (fst (scan_values limit (d + 1) n s1)) \<le> MAX_DEPTH" for s1 n
  proof (rule scan_values_bounds)
    fix s2 :: Scan assume "d \<le> MAX_DEPTH" "sc_nodes s2 \<le> limit" "sc_depth s2 \<le> MAX_DEPTH"
    then show "sc_nodes (fst (scan_value limit (d + 1) s2)) \<le> limit
        \<and> sc_depth (fst (scan_value limit (d + 1) s2)) \<le> MAX_DEPTH"
      using less.hyps [of "d + 1" s2]
      by (cases "d = MAX_DEPTH") (auto simp: scan_value.simps [of _ "Suc MAX_DEPTH"])
  qed
  then show ?case
    using scan_value_stats [OF s'] less.prems s'
    by (auto simp: Suc_le_eq order_le_neq_trans) (metis Suc_leI fst_conv max_def order_le_neq_trans)+
qed

subsection \<open>The scan accepts what the decoder accepts\<close>

lemma be_bytes_ucast:
  "8 * n \<le> LENGTH('a) \<Longrightarrow> LENGTH('a) \<le> LENGTH('b) \<Longrightarrow>
    be_bytes n (ucast (w :: 'a::len word) :: 'b::len word) = be_bytes n w"
proof (induction n)
  case (Suc n)
  then show ?case by (auto simp: bit_simps intro!: bit_word_eqI)
qed simp

lemma of_be_ucast:
  assumes "8 * length bs \<le> LENGTH('a)" "LENGTH('a) \<le> LENGTH('b)"
  shows "(of_be bs :: 'b::len word) = ucast (of_be bs :: 'a::len word)"
proof -
  let ?w = "of_be bs :: 'a word" and ?n = "length bs"
  have "(of_be bs :: 'b word) = of_be (be_bytes ?n (ucast ?w :: 'b word))"
    using assms be_bytes_ucast [of ?n, where 'a = 'a and 'b = 'b] by (simp add: be_bytes_of_be)
  also have "\<dots> = ucast (take_bit (8 * ?n) ?w)"
    unfolding of_be_be_bytes by (rule bit_word_eqI) (use assms in \<open>auto simp: bit_simps\<close>)
  also have "\<dots> = ucast ?w"
    using take_bit_of_be [OF assms(1)] by simp
  finally show ?thesis .
qed

lemma of_be_single: "of_be [b] = ucast b"
  by (simp add: of_be_def)

lemma scan_take_append: "sc_rest s = b @ r \<Longrightarrow> n = length b \<Longrightarrow> scan_take n s = (s\<lparr>sc_rest := r\<rparr>, Inr b)"
  by (simp add: scan_take_def)

lemma scan_argument_arg:
  assumes "arg ai (sc_rest s) = Inr (n, r)"
  shows "scan_argument ai s = (s\<lparr>sc_rest := r\<rparr>, Inr n)"
proof -
  consider "ai \<le> 23" | "ai = 24" | "ai = 25" | "ai = 26" | "ai = 27"
    using assms by (auto simp: arg_def split: if_splits)
  then show ?thesis
  proof cases
    case 1
    with assms show ?thesis by (auto simp: arg_def scan_argument_def)
  next
    case 2
    with assms obtain b where "sc_rest s = [b] @ r" "n = ucast b"
      by (auto simp: arg_def res_simps Let_def split: if_splits)
    then show ?thesis using 2 scan_take_append [of s "[b]"]
      by (simp add: scan_argument_def of_be_single)
  next
    case 3
    with assms obtain b where b: "take_n 2 (sc_rest s) = Inr (b, r)" "n = ucast (of_be b :: u16)"
      by (auto simp: arg_def res_simps Let_def split: if_splits)
    then show ?thesis using 3 take_n_Ok [OF b(1)] scan_take_append [of s b r 2]
      by (simp add: scan_argument_def of_be_ucast [where 'a = 16 and 'b = 64])
  next
    case 4
    with assms obtain b where b: "take_n 4 (sc_rest s) = Inr (b, r)" "n = ucast (of_be b :: u32)"
      by (auto simp: arg_def res_simps Let_def split: if_splits)
    then show ?thesis using 4 take_n_Ok [OF b(1)] scan_take_append [of s b r 4]
      by (simp add: scan_argument_def of_be_ucast [where 'a = 32 and 'b = 64])
  next
    case 5
    with assms obtain b where b: "take_n 8 (sc_rest s) = Inr (b, r)" "n = of_be b"
      by (auto simp: arg_def res_simps Let_def split: if_splits)
    then show ?thesis using 5 take_n_Ok [OF b(1)] scan_take_append [of s b r 8]
      by (simp add: scan_argument_def)
  qed
qed

abbreviation entry_nodes :: "(Cbor \<times> Cbor) list \<Rightarrow> nat" where
  "entry_nodes es \<equiv> sum_list (map (\<lambda>(k, v). cbor_nodes k + cbor_nodes v) es)"

lemma cbor_nodes_pos: "0 < cbor_nodes v"
  by (cases v) auto

lemma nodes_ge_length: "length vs \<le> sum_list (map cbor_nodes vs)"
proof (induction vs)
  case (Cons v vs) then show ?case using cbor_nodes_pos [of v] by simp
qed simp

lemma entry_nodes_ge: "2 * length es \<le> entry_nodes es"
proof (induction es)
  case (Cons e es) then show ?case
    using cbor_nodes_pos [of "fst e"] cbor_nodes_pos [of "snd e"] by (auto simp: split_def)
qed simp

definition scanned :: "nat \<Rightarrow> bytes \<Rightarrow> Scan \<Rightarrow> Scan" where
  "scanned d rest s = s\<lparr>sc_depth := max (sc_depth s) d, sc_nodes := sc_nodes s + 1, sc_rest := rest\<rparr>"

lemma scan_argument_head: "sc_rest s = head_ext n @ rest \<Longrightarrow> scan_argument (head_ai n) s = (s\<lparr>sc_rest := rest\<rparr>, Inr n)"
  by (rule scan_argument_arg) (simp add: arg_head)

lemma scan_head:
  assumes "d \<le> MAX_DEPTH" "sc_nodes s \<noteq> limit"
  shows "sc_rest s = head 0 n @ rest \<Longrightarrow> scan_value limit d s = (scanned d rest s, Inr ())"
    and "sc_rest s = head 1 n @ rest \<Longrightarrow> scan_value limit d s = (scanned d rest s, Inr ())"
    and "sc_rest s = head 2 n @ b @ rest \<Longrightarrow> unat n = length b \<Longrightarrow> scan_value limit d s = (scanned d rest s, Inr ())"
    and "sc_rest s = head 3 n @ b @ rest \<Longrightarrow> unat n = length b \<Longrightarrow> scan_value limit d s = (scanned d rest s, Inr ())"
    and "sc_rest s = head 4 n @ rest \<Longrightarrow> unat n \<le> limit - (sc_nodes s + 1) \<Longrightarrow> unat n \<le> length rest \<Longrightarrow>
      scan_value limit d s = scan_values limit (d + 1) (unat n) (scanned d rest s)"
    and "sc_rest s = head 5 n @ rest \<Longrightarrow> 2 * unat n < 2 ^ 64 \<Longrightarrow> 2 * unat n \<le> limit - (sc_nodes s + 1) \<Longrightarrow>
      2 * unat n \<le> length rest \<Longrightarrow>
      scan_value limit d s = scan_values limit (d + 1) (2 * unat n) (scanned d rest s)"
  using assms unsigned_less [of n, where 'a = nat]
  by (subst scan_value.simps, simp add: Let_def scan_take_def head_split head_bytes scan_argument_head scanned_def mult.commute)+

lemma scan_simple:
  assumes "d \<le> MAX_DEPTH" "sc_nodes s \<noteq> limit" "sc_rest s = b # r @ rest"
    "b \<in> {0xf4, 0xf5, 0xf6} \<and> r = [] \<or> b = 0xfb \<and> length r = 8"
  shows "scan_value limit d s = (scanned d rest s, Inr ())"
  using assms by (subst scan_value.simps) (auto simp: Let_def scan_take_def scanned_def)

lemma scan_depth_id: "\<exists>dep. s = s\<lparr>sc_depth := dep\<rparr>" for s :: Scan
  by (rule exI [of _ "sc_depth s"]) simp

lemma scan_agrees:
  "encode_into v d = Inr out \<Longrightarrow> cbor_rep v \<Longrightarrow> sc_rest s = out @ rest \<Longrightarrow> sc_nodes s + cbor_nodes v \<le> limit \<Longrightarrow> limit < 2 ^ 64 \<Longrightarrow>
     \<exists>dep. scan_value limit d s = (s\<lparr>sc_rest := rest, sc_nodes := sc_nodes s + cbor_nodes v, sc_depth := dep\<rparr>, Inr ())"
  "encode_items vs d = Inr out \<Longrightarrow> \<forall>v\<in>set vs. cbor_rep v \<Longrightarrow> sc_rest s = out @ rest \<Longrightarrow>
     sc_nodes s + sum_list (map cbor_nodes vs) \<le> limit \<Longrightarrow> limit < 2 ^ 64 \<Longrightarrow>
     \<exists>dep. scan_values limit d (length vs) s
       = (s\<lparr>sc_rest := rest, sc_nodes := sc_nodes s + sum_list (map cbor_nodes vs), sc_depth := dep\<rparr>, Inr ())"
  "encode_entries es d = Inr out \<Longrightarrow> \<forall>(k, v)\<in>set es. cbor_rep k \<and> cbor_rep v \<Longrightarrow> sc_rest s = out @ rest \<Longrightarrow>
     sc_nodes s + entry_nodes es \<le> limit \<Longrightarrow> limit < 2 ^ 64 \<Longrightarrow>
     \<exists>dep. scan_values limit d (2 * length es) s
       = (s\<lparr>sc_rest := rest, sc_nodes := sc_nodes s + entry_nodes es, sc_depth := dep\<rparr>, Inr ())"
proof (induction v d and vs d and es d arbitrary: out rest s and out rest s and out rest s
    rule: encode_into_encode_items_encode_entries.induct)
  case (1 v depth)
  then have d: "depth \<le> MAX_DEPTH"
    by (auto simp: encode_into.simps split: if_splits)
  have lim: "sc_nodes s \<noteq> limit"
    using "1.prems"(4) cbor_nodes_pos [of v] by simp
  have leaf: ?case if "scan_value limit depth s = (scanned depth rest s, Inr ())" "cbor_nodes v = 1"
    using that by (intro exI [of _ "max (sc_depth s) depth"]) (simp add: scanned_def)
  show ?case
  proof (cases v)
    case (CArray vs)
    with "1.prems"(1) d obtain o' where o': "encode_items vs (depth + 1) = Inr o'"
        "out = head 4 (of_nat (length vs)) @ o'"
      by (auto simp: encode_into.simps res_simps)
    have n: "unat (of_nat (length vs) :: u64) = length vs"
      using "1.prems"(2) CArray by (simp add: unat_of_nat take_bit_nat_eq_self)
    have "scan_value limit depth s = scan_values limit (depth + 1) (length vs) (scanned depth (o' @ rest) s)"
      using scan_head(5) [OF d lim, of "of_nat (length vs)" "o' @ rest"] "1.prems" o' CArray n
        nodes_ge_length [of vs] encode_items_length [OF o'(1)] by simp
    then show ?thesis
      using "1.IH"(1) [OF _ CArray o'(1), of "scanned depth (o' @ rest) s" rest] d "1.prems" CArray
      by (auto simp: scanned_def)
  next
    case (CMap es)
    with "1.prems"(1) d obtain o' where o': "check_map es = Inr ()" "encode_entries es (depth + 1) = Inr o'"
        "out = head 5 (of_nat (length es)) @ o'"
      by (auto simp: encode_into.simps res_simps)
    have n: "unat (of_nat (length es) :: u64) = length es"
      using "1.prems"(2) CMap by (simp add: unat_of_nat take_bit_nat_eq_self)
    have "scan_value limit depth s = scan_values limit (depth + 1) (2 * length es) (scanned depth (o' @ rest) s)"
      using scan_head(6) [OF d lim, of "of_nat (length es)" "o' @ rest"] "1.prems" o' CMap n
        entry_nodes_ge [of es] encode_nodes(3) [OF o'(2)] by simp
    then show ?thesis
      using "1.IH"(2) [OF _ CMap o'(1,2), of "scanned depth (o' @ rest) s" rest] d "1.prems" CMap
      by (auto simp: scanned_def)
  next
    case (CBytes b)
    with "1.prems" d show ?thesis
      by (intro leaf scan_head(3) [OF d lim]) (auto simp: encode_into.simps unat_of_nat take_bit_nat_eq_self)
  next
    case (CText b)
    with "1.prems" d show ?thesis
      by (intro leaf scan_head(4) [OF d lim]) (auto simp: encode_into.simps unat_of_nat take_bit_nat_eq_self)
  next
    case (Uint n)
    with "1.prems" d show ?thesis
      by (intro leaf scan_head(1) [OF d lim]) (auto simp: encode_into.simps)
  next
    case (Nint n)
    with "1.prems" d show ?thesis
      by (intro leaf scan_head(2) [OF d lim]) (auto simp: encode_into.simps)
  next
    case (CBool b)
    have "(if b then 0xf5 else 0xf4) \<in> {0xf4, 0xf5, 0xf6 :: u8}" by simp
    with "1.prems" d CBool show ?thesis
      by (intro leaf scan_simple [OF d lim, where b = "if b then 0xf5 else 0xf4" and r = "[]"])
        (simp_all add: encode_into.simps)
  next
    case CNull
    with "1.prems" d show ?thesis
      by (intro leaf scan_simple [OF d lim, where r = "[]"]) (auto simp: encode_into.simps)
  next
    case (CFloat f)
    with "1.prems" d show ?thesis
      by (intro leaf scan_simple [OF d lim, where b = "0xfb" and r = "be_bytes 8 f"])
        (auto simp: encode_into.simps split: if_splits)
  qed
next
  case (3 i "is" depth)
  then obtain a b where ab: "encode_into i depth = Inr a" "encode_items is depth = Inr b" "out = a @ b"
    by (auto simp: res_simps)
  obtain dep where s1: "scan_value limit depth s
      = (s\<lparr>sc_rest := b @ rest, sc_nodes := sc_nodes s + cbor_nodes i, sc_depth := dep\<rparr>, Inr ())" (is "_ = (?s, _)")
    using "3.IH"(1) [of a s "b @ rest"] ab "3.prems" by auto
  show ?case
    using "3.IH"(2) [OF ab(1,2), of ?s rest] "3.prems" s1 by (auto simp: add.assoc)
next
  case (5 k v es depth)
  then obtain a b c where abc: "encode_into k depth = Inr a" "encode_into v depth = Inr b"
      "encode_entries es depth = Inr c" "out = a @ b @ c"
    by (auto simp: res_simps)
  obtain dep where s1: "scan_value limit depth s
      = (s\<lparr>sc_rest := b @ c @ rest, sc_nodes := sc_nodes s + cbor_nodes k, sc_depth := dep\<rparr>, Inr ())" (is "_ = (?s, _)")
    using "5.IH"(1) [of a s "b @ c @ rest"] abc "5.prems" by auto
  obtain dep' where s2: "scan_value limit depth ?s
      = (?s\<lparr>sc_rest := c @ rest, sc_nodes := sc_nodes ?s + cbor_nodes v, sc_depth := dep'\<rparr>, Inr ())" (is "_ = (?s', _)")
    using "5.IH"(2) [OF abc(1), of b ?s "c @ rest"] abc "5.prems" by auto
  show ?case
    using "5.IH"(3) [OF abc(1-3), of ?s' rest] "5.prems" s1 s2 by (auto simp: add.assoc)
qed (auto simp: scan_depth_id)

subsection \<open>Properties\<close>

definition usage_ok :: "Usage \<Rightarrow> bool" where
  "usage_ok u \<longleftrightarrow> us_nodes u \<le> MAX_NODES \<and> us_work_bytes u \<le> MAX_WORK_BYTES \<and> us_depth u \<le> MAX_DEPTH"

lemma preflight_usage: "usage_ok u \<Longrightarrow> usage_ok (fst (preflight bs u))"
proof -
  assume u: "usage_ok u"
  let ?s = "\<lparr>sc_rest = bs, sc_nodes = 0, sc_depth = 0\<rparr>"
  have "sc_nodes (fst (scan_value (MAX_NODES - us_nodes u) 0 ?s)) \<le> MAX_NODES - us_nodes u
      \<and> sc_depth (fst (scan_value (MAX_NODES - us_nodes u) 0 ?s)) \<le> MAX_DEPTH"
    by (rule scan_bounds) simp_all
  with u show ?thesis
    by (auto simp: preflight_def usage_ok_def Let_def split: prod.splits)
qed

lemma preflight_rejects: "preflight bs u = (u', Inl r) \<Longrightarrow> budget_raw bs u = (u', Inl (err_invalid r))"
  by (simp add: budget_raw_def)

lemma budget_usage:
  "fst (budget_raw bs u) = fst (preflight bs u)" "fst (budget_wire fc bs u) = fst (preflight bs u)"
  by (simp_all add: budget_raw_def budget_wire_def split: prod.splits sum.splits)

lemma scan_values_grow:
  assumes "\<And>s. sc_nodes s \<le> sc_nodes (fst (scan_value limit d s)) \<and> sc_depth s \<le> sc_depth (fst (scan_value limit d s))"
  shows "sc_nodes s \<le> sc_nodes (fst (scan_values limit d n s)) \<and> sc_depth s \<le> sc_depth (fst (scan_values limit d n s))"
proof (induction n arbitrary: s)
  case (Suc n)
  obtain s1 r where s1: "scan_value limit d s = (s1, r)" by fastforce
  then have "sc_nodes s \<le> sc_nodes s1" "sc_depth s \<le> sc_depth s1" using assms [of s] by simp_all
  then show ?case using Suc.IH [of s1] s1 by (cases r) (auto intro: order_trans)
qed simp

lemma scan_grows:
  "sc_nodes s \<le> sc_nodes (fst (scan_value limit d s)) \<and> sc_depth s \<le> sc_depth (fst (scan_value limit d s))"
proof (induction "Suc MAX_DEPTH - d" arbitrary: d s rule: less_induct)
  case less
  obtain s' r where s': "scan_value limit d s = (s', r)" by fastforce
  have "sc_nodes s1 \<le> sc_nodes (fst (scan_values limit (d + 1) n s1)) \<and> sc_depth s1 \<le> sc_depth (fst (scan_values limit (d + 1) n s1))"
    if "d \<le> MAX_DEPTH" for s1 n
    by (rule scan_values_grow) (rule less, use that in simp)
  note children = this
  show ?case using scan_value_stats [OF s']
  proof (elim disjE exE conjE)
    fix s1 n
    assume "d \<le> MAX_DEPTH" "sc_nodes s1 = sc_nodes s + 1" "sc_depth s1 = max (sc_depth s) d" "scan_values limit (d + 1) n s1 = (s', r)"
    then show ?thesis using children [of s1 n] s' by simp
  qed (simp_all add: s')
qed

text \<open>The head of the value is charged, whatever follows it.\<close>

lemma scan_charges:
  assumes "0 < limit"
  shows "0 < sc_nodes (fst (scan_value limit 0 \<lparr>sc_rest = bs, sc_nodes = 0, sc_depth = 0\<rparr>))"
proof -
  let ?s0 = "\<lparr>sc_rest = bs, sc_nodes = 0, sc_depth = 0\<rparr>"
  have grow: "0 < sc_nodes (fst (scan_values limit d n s))" if "sc_nodes s = 1" for d n s
  proof -
    have "sc_nodes s \<le> sc_nodes (fst (scan_values limit d n s))" using scan_values_grow scan_grows by blast
    then show ?thesis using that by simp
  qed
  show ?thesis
  proof (cases bs)
    case Nil
    then show ?thesis using assms by (simp add: scan_value.simps scan_take_def)
  next
    case (Cons b rest)
    have "scan_take 1 (?s0\<lparr>sc_nodes := 1\<rparr>) = (\<lparr>sc_rest = rest, sc_nodes = 1, sc_depth = 0\<rparr>, Inr [b])" by (simp add: Cons scan_take_def)
    then show ?thesis using assms
      by (subst scan_value.simps) (auto simp: Let_def split_beta grow split: sum.split)
  qed
qed

text \<open>C39. Whatever is decoded, typed or raw, successfully or not, a request's budget stays within
  the limits for nodes, bytes and depth.  An input that is refused for its size is not charged; every
  other input is charged all its bytes and every value that its scan reached, at least one, and keeps
  that charge when the scan fails or the decoder refuses it; with no nodes left it is refused.\<close>

theorem budget_within_limits:
  assumes "usage_ok u"
  shows "let u' = fst (budget_wire fc bs u);
      reached = sc_nodes (fst (scan_value (MAX_NODES - us_nodes u) 0 \<lparr>sc_rest = bs, sc_nodes = 0, sc_depth = 0\<rparr>)) in
    usage_ok u' \<and> fst (budget_raw bs u) = u'
    \<and> (if MAX_BYTES < length bs \<or> MAX_WORK_BYTES < us_work_bytes u + length bs
       then u' = u \<and> isl (snd (budget_wire fc bs u)) \<and> isl (snd (budget_raw bs u))
       else us_work_bytes u' = us_work_bytes u + length bs \<and> us_nodes u' = us_nodes u + reached \<and> us_depth u \<le> us_depth u'
         \<and> (if us_nodes u < MAX_NODES then 0 < reached else isl (snd (budget_wire fc bs u)) \<and> isl (snd (budget_raw bs u))))"
proof -
  let ?s = "scan_value (MAX_NODES - us_nodes u) 0 \<lparr>sc_rest = bs, sc_nodes = 0, sc_depth = 0\<rparr>"
  have full: "scan_value 0 0 s = (s, Inl ''cbor_nodes'')" if "sc_nodes s = 0" "sc_depth s = 0" for s :: Scan
    using that by (simp add: scan_value.simps)
  have "usage_ok (fst (budget_wire fc bs u))" using assms(1) preflight_usage by (simp add: budget_usage)
  moreover have "0 < sc_nodes (fst ?s)" if "us_nodes u < MAX_NODES" using that by (intro scan_charges) simp
  moreover have "isl (snd (budget_wire fc bs u)) \<and> isl (snd (budget_raw bs u))" if "isl (snd (preflight bs u))"
    using that by (auto simp: budget_wire_def budget_raw_def split: prod.split sum.split)
  moreover have "fst (preflight bs u) = (if MAX_BYTES < length bs \<or> MAX_WORK_BYTES < us_work_bytes u + length bs then u
      else u\<lparr>us_work_bytes := us_work_bytes u + length bs, us_nodes := us_nodes u + sc_nodes (fst ?s),
        us_depth := max (us_depth u) (sc_depth (fst ?s))\<rparr>)"
    "isl (snd (preflight bs u)) \<longleftrightarrow> MAX_BYTES < length bs \<or> MAX_WORK_BYTES < us_work_bytes u + length bs \<or> isl (snd ?s) \<or> sc_rest (fst ?s) \<noteq> []"
    by (cases "snd ?s"; auto simp: preflight_def Let_def MAX_WORK_BYTES_def split_beta; fail)+
  moreover have "isl (snd ?s)" if "\<not> us_nodes u < MAX_NODES" using that full by simp
  ultimately show ?thesis by (simp add: budget_usage Let_def)
qed

text \<open>An array whose value is malformed: two values and two bytes are charged.\<close>

theorem budget_within_limits_witness:
  "isl (snd (budget_wire u64_from_cbor [0x81, 0x1c] budget_default))
    \<and> us_nodes (fst (budget_wire u64_from_cbor [0x81, 0x1c] budget_default)) = 2
    \<and> us_work_bytes (fst (budget_wire u64_from_cbor [0x81, 0x1c] budget_default)) = 2
    \<and> usage_ok (fst (budget_raw [0x81, 0x1c] budget_default))"
proof -
  have "scan_value 4096 0 \<lparr>sc_rest = [0x81, 0x1c], sc_nodes = 0, sc_depth = 0\<rparr>
      = (\<lparr>sc_rest = [], sc_nodes = 2, sc_depth = 1\<rparr>, Inl ''cbor_shape'')"
    by (simp add: scan_value.simps scan_take_def scan_argument_def MAX_DEPTH_def)
  then have "isl (snd (budget_wire u64_from_cbor [0x81, 0x1c] budget_default))"
    "sc_nodes (fst (scan_value (MAX_NODES - us_nodes budget_default) 0 \<lparr>sc_rest = [0x81, 0x1c], sc_nodes = 0, sc_depth = 0\<rparr>)) = 2"
    by (simp_all add: budget_default_def MAX_NODES_def budget_wire_def preflight_def MAX_BYTES_def MAX_WORK_BYTES_def)
  moreover have "usage_ok budget_default" by (simp add: usage_ok_def budget_default_def)
  ultimately show ?thesis using budget_within_limits [of budget_default u64_from_cbor "[0x81, 0x1c]"]
    by (simp add: Let_def budget_default_def MAX_BYTES_def MAX_WORK_BYTES_def)
qed

lemma budget_raw_complete:
  assumes "decode bs = Inr v"
    and "length bs \<le> MAX_BYTES" "us_work_bytes u + length bs \<le> MAX_WORK_BYTES"
    and "us_nodes u + cbor_nodes v \<le> MAX_NODES"
  shows "snd (budget_raw bs u) = Inr v
    \<and> us_nodes (fst (budget_raw bs u)) = us_nodes u + cbor_nodes v
    \<and> us_work_bytes (fst (budget_raw bs u)) = us_work_bytes u + length bs"
proof -
  let ?s = "\<lparr>sc_rest = bs, sc_nodes = 0, sc_depth = 0\<rparr>" and ?l = "MAX_NODES - us_nodes u"
  from assms(1) have "encode_into v 0 = Inr bs" "cbor_rep v" by (auto simp: decode_iff encode_def)
  moreover have "cbor_nodes v \<le> ?l" "?l < 2 ^ 64"
    using assms(4) by (simp_all add: MAX_NODES_def)
  ultimately obtain dep where "scan_value ?l 0 ?s
      = (?s\<lparr>sc_rest := [], sc_nodes := sc_nodes ?s + cbor_nodes v, sc_depth := dep\<rparr>, Inr ())"
    using scan_agrees(1) [of v 0 bs ?s "[]" ?l] by auto
  then show ?thesis
    using assms by (simp add: budget_raw_def preflight_def Let_def MAX_WORK_BYTES_def)
qed

lemma budget_wire_complete:
  assumes "decode bs = Inr v" "fc v = Inr x"
    and "length bs \<le> MAX_BYTES" "us_work_bytes u + length bs \<le> MAX_WORK_BYTES"
    and "us_nodes u + cbor_nodes v \<le> MAX_NODES"
  shows "\<exists>u'. budget_wire fc bs u = (u', Inr x)"
proof -
  obtain u' where "budget_raw bs u = (u', Inr v)"
    using budget_raw_complete [OF assms(1,3-5)] by (metis prod.collapse)
  then show ?thesis
    using assms(1,2) by (auto simp: budget_raw_def budget_wire_def from_bytes_def split: prod.splits sum.splits)
qed

text \<open>C40. The preflight is not a second validator: within the limits it admits every value the
  decoder accepts, charging exactly its number of nodes and bytes, so that decoding under a
  budget then gives the value.\<close>

theorem preflight_complete:
  assumes "decode bs = Inr v"
    and "length bs \<le> MAX_BYTES" "us_work_bytes u + length bs \<le> MAX_WORK_BYTES"
    and "us_nodes u + cbor_nodes v \<le> MAX_NODES"
  shows "snd (budget_raw bs u) = Inr v
    \<and> us_nodes (fst (budget_raw bs u)) = us_nodes u + cbor_nodes v
    \<and> us_work_bytes (fst (budget_raw bs u)) = us_work_bytes u + length bs"
  using assms by (rule budget_raw_complete)

theorem preflight_complete_witness:
  "snd (budget_raw [0x82, 0x01, 0xf6] budget_default) = Inr (CArray [Uint 1, CNull])
    \<and> us_nodes (fst (budget_raw [0x82, 0x01, 0xf6] budget_default))
      = us_nodes budget_default + cbor_nodes (CArray [Uint 1, CNull])
    \<and> us_work_bytes (fst (budget_raw [0x82, 0x01, 0xf6] budget_default))
      = us_work_bytes budget_default + length [0x82, 0x01, 0xf6 :: u8]"
  by (rule preflight_complete)
    (simp_all add: decode_iff encode_def encode_into.simps head_def MAX_DEPTH_def MAX_BYTES_def
      MAX_WORK_BYTES_def MAX_NODES_def budget_default_def)

end
