(* ===== verification/Envelope.thy ===== *)
theory Envelope
  imports Wire
begin

text \<open>
  Hashing and domain separation (\<open>wire/src/hash.rs\<close>) and the item envelope with the key items
  (\<open>wire/src/envelope.rs\<close>).  SHA-256 is third-party code: a parameter
  \<open>sha256 :: bytes \<Rightarrow> b32\<close> of the definitions that hash.
\<close>

subsection \<open>Domain-separated hashing\<close>

text \<open>The bytes fed to the digest by \<open>h(tag, m)\<close>: one length byte, the tag, the message.
  Tags are short constants, so the conversion of the length never panics.\<close>

definition h_input :: "string \<Rightarrow> bytes \<Rightarrow> bytes" where
  "h_input tag m = of_nat (length tag) # ascii tag @ m"

definition h :: "(bytes \<Rightarrow> b32) \<Rightarrow> string \<Rightarrow> bytes \<Rightarrow> b32" where
  "h sha256 tag m = sha256 (h_input tag m)"

definition chain_hash :: "(bytes \<Rightarrow> b32) \<Rightarrow> bytes \<Rightarrow> b32" where
  "chain_hash sha256 item_bytes = h sha256 ''mdbase/v1/chain'' item_bytes"

definition CHAIN_ZERO :: b32 where
  "CHAIN_ZERO = 0"

subsection \<open>Item kinds\<close>

datatype ItemKind =
    Entry | Policy | Rekey | KeyGrant | Base | GrantApproval
  | Manifest | Chunk | BlobPart | RefIndex | Ephemeral

fun item_kind_value :: "ItemKind \<Rightarrow> u64" where
  "item_kind_value Entry = 1"
| "item_kind_value Policy = 2"
| "item_kind_value Rekey = 3"
| "item_kind_value KeyGrant = 4"
| "item_kind_value Base = 5"
| "item_kind_value GrantApproval = 6"
| "item_kind_value Manifest = 16"
| "item_kind_value Chunk = 17"
| "item_kind_value BlobPart = 18"
| "item_kind_value RefIndex = 19"
| "item_kind_value Ephemeral = 32"

text \<open>\<open>from_cbor\<close> of a \<open>wire_enum!\<close> with the given variants and values.\<close>

definition enum_from_cbor :: "string \<Rightarrow> (u64 \<times> 'a) list \<Rightarrow> Cbor \<Rightarrow> SchemaError + 'a" where
  "enum_from_cbor ty variants c =
    (case c of
       Uint n \<Rightarrow> ok_or (map_of variants n) (UnknownVariant ty n)
     | _ \<Rightarrow> Err (type_err ty ''uint enum'' c))"

definition item_kind_to_cbor :: "ItemKind \<Rightarrow> Cbor" where
  "item_kind_to_cbor k = Uint (item_kind_value k)"

definition item_kind_from_cbor :: "Cbor \<Rightarrow> SchemaError + ItemKind" where
  "item_kind_from_cbor = enum_from_cbor ''ItemKind'' (map (\<lambda>k. (item_kind_value k, k))
    [Entry, Policy, Rekey, KeyGrant, Base, GrantApproval, Manifest, Chunk, BlobPart, RefIndex,
     Ephemeral])"

definition is_log_item :: "ItemKind \<Rightarrow> bool" where
  "is_log_item k \<longleftrightarrow> k \<in> {Entry, Policy, Rekey, KeyGrant, Base, GrantApproval}"

definition is_control :: "ItemKind \<Rightarrow> bool" where
  "is_control k \<longleftrightarrow> k \<in> {Policy, Rekey, KeyGrant, Base, GrantApproval}"

definition is_sealed :: "ItemKind \<Rightarrow> bool" where
  "is_sealed k \<longleftrightarrow> k \<in> {Entry, Base, GrantApproval, Manifest, Chunk, BlobPart, Ephemeral}"

subsection \<open>The envelope\<close>

record Item =
  it_kind :: ItemKind
  it_collection :: b16
  it_seq :: "u64 option"
  it_prev :: "b32 option"
  it_epoch :: "u64 option"
  it_signer :: "b16 option"
  it_salt :: "b16 option"
  it_idem :: "b16 option"
  it_refs :: "b32 list option"
  it_stream :: "b16 option"
  it_body :: bytes
  it_sig :: "b64 option"

definition item_fields :: "Item \<Rightarrow> (Cbor \<times> Cbor) list" where
  "item_fields i =
      req_enc 0 (Uint 1)
    @ req_enc 1 (item_kind_to_cbor (it_kind i))
    @ req_enc 2 (b16_to_cbor (it_collection i))
    @ opt_enc 3 (map_option Uint (it_seq i))
    @ opt_enc 4 (map_option b32_to_cbor (it_prev i))
    @ opt_enc 5 (map_option Uint (it_epoch i))
    @ opt_enc 6 (map_option b16_to_cbor (it_signer i))
    @ opt_enc 7 (map_option b16_to_cbor (it_salt i))
    @ opt_enc 8 (map_option b16_to_cbor (it_idem i))
    @ opt_enc 9 (map_option (vec_to_cbor b32_to_cbor) (it_refs i))
    @ opt_enc 10 (map_option b16_to_cbor (it_stream i))
    @ req_enc 11 (CBytes (it_body i))
    @ opt_enc 12 (map_option b64_to_cbor (it_sig i))"

definition item_to_cbor :: "Item \<Rightarrow> Cbor" where
  "item_to_cbor i = CMap (item_fields i)"

definition item_from_cbor :: "Cbor \<Rightarrow> SchemaError + Item" where
  "item_from_cbor c =
    (let ty = ''Item'' in
     rbind (struct_map c ty) (\<lambda>m.
     rbind (check_fmt m ty 1) (\<lambda>_.
     rbind (req_dec m 1 ty item_kind_from_cbor) (\<lambda>kind.
     rbind (req_dec m 2 ty b16_from_cbor) (\<lambda>collection.
     rbind (opt_dec m 3 u64_from_cbor) (\<lambda>seq.
     rbind (opt_dec m 4 b32_from_cbor) (\<lambda>prev.
     rbind (opt_dec m 5 u64_from_cbor) (\<lambda>epoch.
     rbind (opt_dec m 6 b16_from_cbor) (\<lambda>signer.
     rbind (opt_dec m 7 b16_from_cbor) (\<lambda>salt.
     rbind (opt_dec m 8 b16_from_cbor) (\<lambda>idem.
     rbind (opt1_dec m 9 ty (vec_from_cbor b32_from_cbor)) (\<lambda>refs.
     rbind (opt_dec m 10 b16_from_cbor) (\<lambda>stream.
     rbind (req_dec m 11 ty bytes_from_cbor) (\<lambda>body.
     rbind (opt_dec m 12 b64_from_cbor) (\<lambda>sig.
     Ok \<lparr>it_kind = kind, it_collection = collection, it_seq = seq, it_prev = prev,
         it_epoch = epoch, it_signer = signer, it_salt = salt, it_idem = idem, it_refs = refs,
         it_stream = stream, it_body = body, it_sig = sig\<rparr>)))))))))))))))"

definition item_to_bytes :: "Item \<Rightarrow> CborError + bytes" where
  "item_to_bytes = to_bytes item_to_cbor"

definition item_from_bytes :: "bytes \<Rightarrow> SchemaError + Item" where
  "item_from_bytes = from_bytes item_from_cbor"

datatype Rule = Required | Optional | Absent

fun shape_rules :: "ItemKind \<Rightarrow> Rule list" where
  "shape_rules Entry = [Required, Required, Required, Required, Optional, Absent, Required]"
| "shape_rules Policy = [Required, Absent, Required, Absent, Absent, Absent, Required]"
| "shape_rules Rekey = [Required, Absent, Required, Absent, Absent, Absent, Required]"
| "shape_rules KeyGrant = [Required, Absent, Required, Absent, Absent, Absent, Required]"
| "shape_rules Base = [Required, Required, Required, Absent, Required, Absent, Required]"
| "shape_rules GrantApproval = [Required, Required, Required, Absent, Absent, Absent, Required]"
| "shape_rules Manifest = [Absent, Required, Required, Absent, Required, Absent, Required]"
| "shape_rules Chunk = [Absent, Required, Absent, Absent, Absent, Absent, Absent]"
| "shape_rules BlobPart = [Absent, Required, Absent, Absent, Absent, Absent, Absent]"
| "shape_rules RefIndex = [Absent, Absent, Absent, Absent, Absent, Absent, Absent]"
| "shape_rules Ephemeral = [Absent, Required, Required, Absent, Absent, Required, Absent]"

fun rule_ok :: "Rule \<Rightarrow> bool \<times> bool \<Rightarrow> bool" where
  "rule_ok Required (a, b) \<longleftrightarrow> a \<and> b"
| "rule_ok Absent (a, b) \<longleftrightarrow> \<not> a \<and> \<not> b"
| "rule_ok Optional (a, b) \<longleftrightarrow> a = b"

abbreviation is_some :: "'a option \<Rightarrow> bool" where
  "is_some x \<equiv> x \<noteq> None"

definition check_shape :: "Item \<Rightarrow> SchemaError + unit" where
  "check_shape i =
    (let ty = ''Item'';
         rules = shape_rules (it_kind i);
         present =
           [(is_some (it_seq i), is_some (it_prev i)),
            (is_some (it_epoch i), is_some (it_salt i)),
            (is_some (it_signer i), is_some (it_signer i)),
            (is_some (it_idem i), is_some (it_idem i)),
            (is_some (it_refs i), is_some (it_refs i)),
            (is_some (it_stream i), is_some (it_stream i)),
            (is_some (it_sig i), is_some (it_sig i))] in
     if \<not> list_all (\<lambda>(rule, p). rule_ok rule p) (zip rules present) then
       Err (Invalid ty ''header fields do not match the item kind'')
     else if it_refs i = Some [] then
       Err (Invalid ty ''refs must be non-empty when present'')
     else Ok ())"

definition without :: "Item \<Rightarrow> bool \<Rightarrow> Item" where
  "without i body =
    (let i = i\<lparr>it_sig := None\<rparr> in if body then i\<lparr>it_body := []\<rparr> else i)"

definition aad :: "Item \<Rightarrow> CborError + bytes" where
  "aad i =
    (case item_to_cbor (without i True) of
       CMap m \<Rightarrow> encode (CMap (filter (\<lambda>(k, _). k \<noteq> Uint 11) m))
     | c \<Rightarrow> encode c)"

definition item_signed_digest :: "(bytes \<Rightarrow> b32) \<Rightarrow> Item \<Rightarrow> CborError + b32" where
  "item_signed_digest sha256 i =
    rbind (item_to_bytes (without i False)) (\<lambda>bs. Ok (h sha256 ''mdbase/v1/item-sig'' bs))"

definition item_chain_hash :: "(bytes \<Rightarrow> b32) \<Rightarrow> bytes \<Rightarrow> b32" where
  "item_chain_hash sha256 item_bytes = chain_hash sha256 item_bytes"

definition object_address :: "(bytes \<Rightarrow> b32) \<Rightarrow> bytes \<Rightarrow> b32" where
  "object_address sha256 object_bytes = sha256 object_bytes"

subsection \<open>Key items\<close>

record KeyWrap =
  kw_device :: b16
  kw_enc :: b32
  kw_ct :: bytes

definition key_wrap_to_cbor :: "KeyWrap \<Rightarrow> Cbor" where
  "key_wrap_to_cbor w = CMap (req_enc 0 (b16_to_cbor (kw_device w))
     @ req_enc 1 (b32_to_cbor (kw_enc w)) @ req_enc 2 (CBytes (kw_ct w)))"

definition key_wrap_from_cbor :: "Cbor \<Rightarrow> SchemaError + KeyWrap" where
  "key_wrap_from_cbor c =
    (let ty = ''KeyWrap'' in
     rbind (struct_map c ty) (\<lambda>m.
     rbind (req_dec m 0 ty b16_from_cbor) (\<lambda>device.
     rbind (req_dec m 1 ty b32_from_cbor) (\<lambda>enc.
     rbind (req_dec m 2 ty bytes_from_cbor) (\<lambda>ct.
     Ok \<lparr>kw_device = device, kw_enc = enc, kw_ct = ct\<rparr>)))))"

record SealedBox =
  sb_salt :: b16
  sb_ct :: bytes

definition sealed_box_to_cbor :: "SealedBox \<Rightarrow> Cbor" where
  "sealed_box_to_cbor b = CMap (req_enc 0 (b16_to_cbor (sb_salt b)) @ req_enc 1 (CBytes (sb_ct b)))"

definition sealed_box_from_cbor :: "Cbor \<Rightarrow> SchemaError + SealedBox" where
  "sealed_box_from_cbor c =
    (let ty = ''SealedBox'' in
     rbind (struct_map c ty) (\<lambda>m.
     rbind (req_dec m 0 ty b16_from_cbor) (\<lambda>salt.
     rbind (req_dec m 1 ty bytes_from_cbor) (\<lambda>ct.
     Ok \<lparr>sb_salt = salt, sb_ct = ct\<rparr>))))"

datatype RekeyReason = Initial | DeviceRevoked | MemberRemoved | CloudCopyOff | Scheduled | Recovery

fun rekey_reason_value :: "RekeyReason \<Rightarrow> u64" where
  "rekey_reason_value Initial = 0"
| "rekey_reason_value DeviceRevoked = 1"
| "rekey_reason_value MemberRemoved = 2"
| "rekey_reason_value CloudCopyOff = 3"
| "rekey_reason_value Scheduled = 4"
| "rekey_reason_value Recovery = 5"

definition rekey_reason_from_cbor :: "Cbor \<Rightarrow> SchemaError + RekeyReason" where
  "rekey_reason_from_cbor = enum_from_cbor ''RekeyReason'' (map (\<lambda>r. (rekey_reason_value r, r))
    [Initial, DeviceRevoked, MemberRemoved, CloudCopyOff, Scheduled, Recovery])"

record RekeyPayload =
  rk_epoch :: u64
  rk_from :: u64
  rk_commit :: b32
  rk_wraps :: "KeyWrap list"
  rk_history :: SealedBox
  rk_reason :: RekeyReason

definition rekey_payload_to_cbor :: "RekeyPayload \<Rightarrow> Cbor" where
  "rekey_payload_to_cbor p = CMap (
      req_enc 0 (Uint 1)
    @ req_enc 1 (Uint (rk_epoch p))
    @ req_enc 2 (Uint (rk_from p))
    @ req_enc 3 (b32_to_cbor (rk_commit p))
    @ req_enc 4 (vec_to_cbor key_wrap_to_cbor (rk_wraps p))
    @ req_enc 5 (sealed_box_to_cbor (rk_history p))
    @ req_enc 6 (Uint (rekey_reason_value (rk_reason p))))"

definition rekey_payload_from_cbor :: "Cbor \<Rightarrow> SchemaError + RekeyPayload" where
  "rekey_payload_from_cbor c =
    (let ty = ''RekeyPayload'' in
     rbind (struct_map c ty) (\<lambda>m.
     rbind (check_fmt m ty 1) (\<lambda>_.
     rbind (req_dec m 1 ty u64_from_cbor) (\<lambda>epoch.
     rbind (req_dec m 2 ty u64_from_cbor) (\<lambda>from.
     rbind (req_dec m 3 ty b32_from_cbor) (\<lambda>commit.
     rbind (req1_dec m 4 ty (vec_from_cbor key_wrap_from_cbor)) (\<lambda>wraps.
     rbind (req_dec m 5 ty sealed_box_from_cbor) (\<lambda>history.
     rbind (req_dec m 6 ty rekey_reason_from_cbor) (\<lambda>reason.
     Ok \<lparr>rk_epoch = epoch, rk_from = from, rk_commit = commit, rk_wraps = wraps,
         rk_history = history, rk_reason = reason\<rparr>)))))))))"

record KeyGrantPayload =
  kg_recipient :: b16
  kg_epoch :: u64
  kg_wrap :: KeyWrap

definition key_grant_payload_to_cbor :: "KeyGrantPayload \<Rightarrow> Cbor" where
  "key_grant_payload_to_cbor p = CMap (
      req_enc 0 (Uint 1)
    @ req_enc 1 (b16_to_cbor (kg_recipient p))
    @ req_enc 2 (Uint (kg_epoch p))
    @ req_enc 3 (key_wrap_to_cbor (kg_wrap p)))"

definition key_grant_payload_from_cbor :: "Cbor \<Rightarrow> SchemaError + KeyGrantPayload" where
  "key_grant_payload_from_cbor c =
    (let ty = ''KeyGrantPayload'' in
     rbind (struct_map c ty) (\<lambda>m.
     rbind (check_fmt m ty 1) (\<lambda>_.
     rbind (req_dec m 1 ty b16_from_cbor) (\<lambda>recipient.
     rbind (req_dec m 2 ty u64_from_cbor) (\<lambda>epoch.
     rbind (req_dec m 3 ty key_wrap_from_cbor) (\<lambda>wrap.
     Ok \<lparr>kg_recipient = recipient, kg_epoch = epoch, kg_wrap = wrap\<rparr>))))))"

subsection \<open>Codecs\<close>

lemma struct_rep:
  "length m \<le> 64 \<Longrightarrow> list_all (\<lambda>(k, v). cbor_rep k \<and> cbor_rep v) m \<Longrightarrow> cbor_rep (CMap m)"
  by (simp add: cbor_rep_struct del: cbor_rep.simps)

lemma item_kind_from_to [simp]: "item_kind_from_cbor (item_kind_to_cbor k) = Inr k"
  by (cases k) (simp_all add: item_kind_from_cbor_def item_kind_to_cbor_def enum_from_cbor_def)

lemma rekey_reason_from_to [simp]: "rekey_reason_from_cbor (Uint (rekey_reason_value r)) = Inr r"
  by (cases r) (simp_all add: rekey_reason_from_cbor_def enum_from_cbor_def)

interpretation item_kind: wire_total item_kind_to_cbor item_kind_from_cbor "\<lambda>_. True" 0
  by unfold_locales (simp, simp_all add: item_kind_to_cbor_def)

interpretation rekey_reason: wire_total "\<lambda>r. Uint (rekey_reason_value r)" rekey_reason_from_cbor "\<lambda>_. True" 0
  by unfold_locales auto

text \<open>What encoding and decoding do to a value of the profile.\<close>

lemma encodes: "in_profile 0 c \<Longrightarrow> cbor_rep c \<Longrightarrow> \<exists>bs. encode c = Inr bs \<and> decode bs = Inr c"
  using encode_Ok_iff(1) [of c 0] cbor.round_trip by (auto simp: encode_def)

lemma from_bytes_decoded: "decode bs = Inr c \<Longrightarrow> from_bytes from_cbor bs = from_cbor c"
  by (simp add: from_bytes_def)

definition item_rep :: "Item \<Rightarrow> bool" where
  "item_rep i \<longleftrightarrow> length (it_body i) < 2 ^ 64 \<and>
     pred_option (\<lambda>r. r \<noteq> [] \<and> length r < 2 ^ 64) (it_refs i)"

lemma b32_list_from_to [simp]:
  "vec_from_cbor b32_from_cbor (vec_to_cbor b32_to_cbor r) = Inr r"
  by (rule b32.vec_from_to) (simp add: list_all_iff)

lemma item_fields_uint: "list_all (\<lambda>(k, _). is_uint k) (item_fields i)"
  by (simp add: item_fields_def)

lemma item_from_to: "item_rep i \<Longrightarrow> item_from_cbor (item_to_cbor i) = Inr i"
  unfolding item_from_cbor_def item_to_cbor_def Let_def struct_map_CMap [OF item_fields_uint]
  by (cases "it_refs i") (simp_all add: item_fields_def item_rep_def codec_simps)

lemma item_fields_ascending: "ascending 0 (item_fields i)"
  unfolding item_fields_def by (intro ascending_intros) simp_all

lemma item_length: "length (item_fields i) \<le> 64"
  by (simp add: item_fields_def req_enc_def opt_enc_def split: option.split)

lemma item_profile: "d + 2 \<le> MAX_DEPTH \<Longrightarrow> in_profile d (item_to_cbor i)"
  unfolding item_to_cbor_def
  by (rule in_profile_struct [OF _ item_fields_ascending], simp, cases "it_refs i")
    (simp_all add: item_fields_def item_kind_to_cbor_def option.pred_map comp_def option.pred_True vec_to_cbor_def)

interpretation wire_item: wire_total item_to_cbor item_from_cbor item_rep 2
proof
  show "cbor_rep (item_to_cbor i)" if "item_rep i" for i
    unfolding item_to_cbor_def
    by (rule struct_rep [OF item_length], cases "it_refs i")
      (use that in \<open>simp_all add: item_fields_def item_rep_def item_kind_to_cbor_def option.pred_map
        comp_def option.pred_True vec_to_cbor_def\<close>)
qed (simp_all add: item_from_to item_profile)

definition key_wrap_rep :: "KeyWrap \<Rightarrow> bool" where
  "key_wrap_rep w \<longleftrightarrow> length (kw_ct w) < 2 ^ 64"

definition rekey_payload_rep :: "RekeyPayload \<Rightarrow> bool" where
  "rekey_payload_rep p \<longleftrightarrow> length (sb_ct (rk_history p)) < 2 ^ 64 \<and> rk_wraps p \<noteq> []
     \<and> length (rk_wraps p) < 2 ^ 64 \<and> list_all key_wrap_rep (rk_wraps p)"

interpretation wire_key_wrap: wire_total key_wrap_to_cbor key_wrap_from_cbor key_wrap_rep 1
proof
  show "key_wrap_from_cbor (key_wrap_to_cbor w) = Inr w" for w
    by (simp add: key_wrap_from_cbor_def key_wrap_to_cbor_def)
  show "cbor_rep (key_wrap_to_cbor w)" if "key_wrap_rep w" for w
    using that by (simp add: key_wrap_to_cbor_def key_wrap_rep_def cbor_rep_struct length_enc
        del: cbor_rep.simps) simp
  show "in_profile d (key_wrap_to_cbor w)" if "d + 1 \<le> MAX_DEPTH" for d w
    unfolding key_wrap_to_cbor_def
    by (rule in_profile_struct, use that in simp, intro ascending_intros) (use that in simp_all)
qed

interpretation wire_sealed_box: wire_total sealed_box_to_cbor sealed_box_from_cbor
    "\<lambda>b. length (sb_ct b) < 2 ^ 64" 1
proof
  show "sealed_box_from_cbor (sealed_box_to_cbor b) = Inr b" for b
    by (simp add: sealed_box_from_cbor_def sealed_box_to_cbor_def)
  show "cbor_rep (sealed_box_to_cbor b)" if "length (sb_ct b) < 2 ^ 64" for b
    using that by (simp add: sealed_box_to_cbor_def cbor_rep_struct length_enc
        del: cbor_rep.simps) simp
  show "in_profile d (sealed_box_to_cbor b)" if "d + 1 \<le> MAX_DEPTH" for d b
    unfolding sealed_box_to_cbor_def
    by (rule in_profile_struct, use that in simp, intro ascending_intros) (use that in simp_all)
qed

interpretation wire_rekey: wire_total rekey_payload_to_cbor rekey_payload_from_cbor rekey_payload_rep 3
proof
  show "rekey_payload_from_cbor (rekey_payload_to_cbor p) = Inr p" if "rekey_payload_rep p" for p
    using that
    by (simp add: rekey_payload_from_cbor_def rekey_payload_to_cbor_def rekey_payload_rep_def codec_simps
        wire_key_wrap.vec_from_to wire_sealed_box.from_to)
  show "cbor_rep (rekey_payload_to_cbor p)" if "rekey_payload_rep p" for p
    using that unfolding rekey_payload_to_cbor_def
    by (intro struct_rep) (simp_all add: rekey_payload_rep_def wire_key_wrap.vec_rep
        wire_sealed_box.to_rep length_enc)
  show "in_profile d (rekey_payload_to_cbor p)" if "rekey_payload_rep p" "d + 3 \<le> MAX_DEPTH" for d p
    unfolding rekey_payload_to_cbor_def
    by (rule in_profile_struct, use that in simp, intro ascending_intros)
      (use that in \<open>simp_all add: rekey_payload_rep_def wire_key_wrap.vec_profile wire_sealed_box.to_profile\<close>)
qed

interpretation wire_key_grant: wire_total key_grant_payload_to_cbor key_grant_payload_from_cbor
    "\<lambda>p. key_wrap_rep (kg_wrap p)" 2
proof
  show "key_grant_payload_from_cbor (key_grant_payload_to_cbor p) = Inr p" if "key_wrap_rep (kg_wrap p)" for p
    using that
    by (simp add: key_grant_payload_from_cbor_def key_grant_payload_to_cbor_def wire_key_wrap.from_to)
  show "cbor_rep (key_grant_payload_to_cbor p)" if "key_wrap_rep (kg_wrap p)" for p
    using that unfolding key_grant_payload_to_cbor_def
    by (intro struct_rep) (simp_all add: wire_key_wrap.to_rep length_enc)
  show "in_profile d (key_grant_payload_to_cbor p)" if "key_wrap_rep (kg_wrap p)" "d + 2 \<le> MAX_DEPTH" for d p
    unfolding key_grant_payload_to_cbor_def
    by (rule in_profile_struct, use that in simp, intro ascending_intros)
      (use that in \<open>simp_all add: wire_key_wrap.to_profile\<close>)
qed

subsection \<open>Properties\<close>

text \<open>C37. Every item has canonical bytes (encoding never fails), and decoding them gives the item
  back, with one exception: a reference list that is present and empty is encoded, but the decoder
  refuses it.  The bounds are those of lists in memory.\<close>

theorem item_round_trip:
  assumes "length (it_body i) < 2 ^ 64" "pred_option (\<lambda>r. length r < 2 ^ 64) (it_refs i)"
  shows "\<exists>bs. item_to_bytes i = Inr bs
    \<and> item_from_bytes bs = (if it_refs i = Some [] then Inl (Invalid ''Item'' ''list must not be empty'') else Inr i)"
proof -
  have "in_profile 0 (item_to_cbor i)" by (rule item_profile) (simp add: MAX_DEPTH_def)
  moreover have "cbor_rep (item_to_cbor i)"
    unfolding item_to_cbor_def
    by (rule struct_rep [OF item_length], cases "it_refs i")
      (use assms in \<open>simp_all add: item_fields_def item_kind_to_cbor_def option.pred_map comp_def option.pred_True vec_to_cbor_def\<close>)
  ultimately obtain bs where bs: "encode (item_to_cbor i) = Inr bs" "decode bs = Inr (item_to_cbor i)" using encodes by blast
  have "item_from_cbor (item_to_cbor i) = (if it_refs i = Some [] then Inl (Invalid ''Item'' ''list must not be empty'') else Inr i)"
  proof (cases "it_refs i = Some []")
    case True
    then show ?thesis
      unfolding item_from_cbor_def item_to_cbor_def Let_def struct_map_CMap [OF item_fields_uint]
      by (simp add: item_fields_def codec_simps non_empty_def)
  next
    case False
    then have "item_rep i" using assms by (cases "it_refs i") (simp_all add: item_rep_def)
    then show ?thesis using False item_from_to by simp
  qed
  then show ?thesis using bs(1) from_bytes_decoded [OF bs(2), of item_from_cbor] by (simp add: item_to_bytes_def to_bytes_def item_from_bytes_def)
qed

definition sample_item :: Item where
  "sample_item = \<lparr>it_kind = Entry, it_collection = 1, it_seq = Some 1, it_prev = Some 0,
     it_epoch = Some 1, it_signer = Some 2, it_salt = Some 3, it_idem = Some 4, it_refs = Some [5],
     it_stream = None, it_body = [1, 2, 3], it_sig = Some 6\<rparr>"

theorem item_round_trip_witness:
  "\<exists>bs. item_to_bytes sample_item = Inr bs \<and> item_from_bytes bs = Inr sample_item"
  using item_round_trip [of sample_item] by (simp add: sample_item_def)

lemma filter_enc:
  "j \<noteq> k \<Longrightarrow> filter (\<lambda>(k', _). k' \<noteq> Uint k) (opt_enc j v) = opt_enc j v"
  "j \<noteq> k \<Longrightarrow> filter (\<lambda>(k', _). k' \<noteq> Uint k) (req_enc j c) = req_enc j c"
  "filter (\<lambda>(k', _). k' \<noteq> Uint k) (req_enc k c) = []"
  by (auto simp: opt_enc_def req_enc_def split: option.split)

lemma aad_fields:
  "item_fields (without i True)
    = filter (\<lambda>(k, _). k \<noteq> Uint 11) (item_fields (without i True)) @ req_enc 11 (CBytes [])"
  by (simp add: item_fields_def filter_enc without_def opt_enc_def [of 12])

lemma without_rep [simp]: "item_rep i \<Longrightarrow> item_rep (without i b)"
  by (auto simp: item_rep_def without_def Let_def)

lemma aad_rep:
  assumes "item_rep i"
  shows "cbor_rep (CMap (filter (\<lambda>(k, _). k \<noteq> Uint 11) (item_fields (without i True))))"
proof (rule struct_rep)
  show "length (filter (\<lambda>(k, _). k \<noteq> Uint 11) (item_fields (without i True))) \<le> 64"
    by (rule le_trans [OF length_filter_le item_length])
qed (use wire_item.to_rep [OF without_rep [OF assms, of True]] in \<open>auto simp: item_to_cbor_def list_all_iff\<close>)

text \<open>The associated data binds the whole header: two items with the same associated data
  differ at most in body and signature.\<close>

theorem aad_binds_header:
  assumes "aad i = Inr bs" "aad j = Inr bs" "item_rep i" "item_rep j"
  shows "i\<lparr>it_sig := None, it_body := []\<rparr> = j\<lparr>it_sig := None, it_body := []\<rparr>"
proof -
  have "CMap (filter (\<lambda>(k, _). k \<noteq> Uint 11) (item_fields (without i True)))
      = CMap (filter (\<lambda>(k, _). k \<noteq> Uint 11) (item_fields (without j True)))"
    using assms aad_rep by (intro cbor.enc_inj) (auto simp: aad_def item_to_cbor_def)
  then have "item_to_cbor (without i True) = item_to_cbor (without j True)"
    unfolding item_to_cbor_def by (metis Cbor.inject(6) aad_fields)
  then have "without i True = without j True"
    using assms by (intro wire_item.to_cbor_inj) simp_all
  then show ?thesis by (simp add: without_def)
qed

theorem aad_binds_header_witness:
  "sample_item\<lparr>it_sig := None, it_body := []\<rparr> = sample_item\<lparr>it_body := [9]\<rparr>\<lparr>it_sig := None, it_body := []\<rparr>"
proof -
  have rep: "item_rep sample_item" "item_rep (sample_item\<lparr>it_body := [9]\<rparr>)"
    by (simp_all add: item_rep_def sample_item_def)
  have "\<exists>bs. aad sample_item = Inr bs"
    using encode_Ok_iff(1) [of "CMap (filter (\<lambda>(k, _). k \<noteq> Uint 11) (item_fields (without sample_item True)))" 0]
    by (simp add: aad_def item_to_cbor_def encode_def item_fields_def sample_item_def without_def
        opt_enc_def req_enc_def MAX_DEPTH_def map_rule_def item_kind_to_cbor_def vec_to_cbor_def
        fixed_to_cbor_def Cons_eq_map_conv)
  then obtain bs where bs: "aad sample_item = Inr bs" by blast
  moreover have "aad (sample_item\<lparr>it_body := [9]\<rparr>) = aad sample_item"
    by (simp add: aad_def without_def)
  ultimately show ?thesis using rep by (intro aad_binds_header) simp_all
qed

text \<open>The signed digest binds everything but the signature: items whose signed bytes agree
  are equal up to the signature, so under a hash that separates the two inputs a signature can
  not be moved to another item.\<close>

theorem signed_digest_binds:
  assumes "item_signed_digest sha256 i = Inr d" "item_signed_digest sha256 j = Inr d"
    and "item_rep i" "item_rep j"
    and "inj_on sha256 {h_input ''mdbase/v1/item-sig'' bs | bs.
          item_to_bytes (without i False) = Inr bs \<or> item_to_bytes (without j False) = Inr bs}"
  shows "i\<lparr>it_sig := None\<rparr> = j\<lparr>it_sig := None\<rparr>"
proof -
  obtain a b where a: "item_to_bytes (without i False) = Inr a" "h sha256 ''mdbase/v1/item-sig'' a = d"
    and b: "item_to_bytes (without j False) = Inr b" "h sha256 ''mdbase/v1/item-sig'' b = d"
    using assms(1,2) by (auto simp: item_signed_digest_def res_simps)
  have "h_input ''mdbase/v1/item-sig'' a = h_input ''mdbase/v1/item-sig'' b"
    by (rule inj_onD [OF assms(5)]) (use a b in \<open>auto simp: h_def\<close>)
  then have "a = b" by (simp add: h_input_def)
  then have "without i False = without j False"
    using a b assms(3,4)
    by (intro wire_item.to_bytes_inj [of _ a]) (simp_all add: item_to_bytes_def)
  then show ?thesis by (simp add: without_def)
qed

theorem signed_digest_binds_witness:
  "sample_item\<lparr>it_sig := None\<rparr> = sample_item\<lparr>it_sig := Some 7\<rparr>\<lparr>it_sig := None\<rparr>"
proof -
  have rep: "item_rep sample_item" "item_rep (sample_item\<lparr>it_sig := Some 7\<rparr>)"
    by (simp_all add: item_rep_def sample_item_def)
  have same: "without (sample_item\<lparr>it_sig := Some 7\<rparr>) False = without sample_item False"
    by (simp add: without_def)
  obtain bs where bs: "item_to_bytes (without sample_item False) = Inr bs"
    using wire_item.to_bytes_total [of "without sample_item False"] rep
    by (auto simp: item_to_bytes_def MAX_DEPTH_def)
  then show ?thesis
    using rep same
    by (intro signed_digest_binds [of "\<lambda>_. 0" _ 0]) (auto simp: item_signed_digest_def h_def)
qed

text \<open>An item that passes the shape check has a position exactly when its kind is a log
  item, key material exactly when its kind is sealed, an idempotency token exactly for entries
  and a stream exactly for ephemeral messages; a reference list is never empty.\<close>

theorem check_shape_sound:
  assumes "check_shape i = Inr ()"
  shows "(it_seq i \<noteq> None \<longleftrightarrow> is_log_item (it_kind i)) \<and> (it_prev i \<noteq> None \<longleftrightarrow> is_log_item (it_kind i))
    \<and> (it_epoch i \<noteq> None \<longleftrightarrow> is_sealed (it_kind i)) \<and> (it_salt i \<noteq> None \<longleftrightarrow> is_sealed (it_kind i))
    \<and> (it_idem i \<noteq> None \<longleftrightarrow> it_kind i = Entry) \<and> (it_stream i \<noteq> None \<longleftrightarrow> it_kind i = Ephemeral)
    \<and> (it_refs i = None \<or> it_kind i \<in> {Entry, Base, Manifest}) \<and> it_refs i \<noteq> Some []"
  using assms
  by (cases "it_kind i")
    (simp_all add: check_shape_def is_log_item_def is_sealed_def Let_def split: if_splits)

theorem check_shape_sound_witness:
  "(it_seq sample_item \<noteq> None \<longleftrightarrow> is_log_item (it_kind sample_item))
    \<and> (it_prev sample_item \<noteq> None \<longleftrightarrow> is_log_item (it_kind sample_item))
    \<and> (it_epoch sample_item \<noteq> None \<longleftrightarrow> is_sealed (it_kind sample_item))
    \<and> (it_salt sample_item \<noteq> None \<longleftrightarrow> is_sealed (it_kind sample_item))
    \<and> (it_idem sample_item \<noteq> None \<longleftrightarrow> it_kind sample_item = Entry)
    \<and> (it_stream sample_item \<noteq> None \<longleftrightarrow> it_kind sample_item = Ephemeral)
    \<and> (it_refs sample_item = None \<or> it_kind sample_item \<in> {Entry, Base, Manifest})
    \<and> it_refs sample_item \<noteq> Some []"
  by (rule check_shape_sound) (simp add: check_shape_def sample_item_def)

text \<open>Domain separation: the inputs of the digest for two tags of at most 255 bytes agree
  only if tag and message agree, so no message under one tag can be read under another.\<close>

theorem h_input_separates:
  assumes "length s < 256" "length t < 256"
  shows "h_input s m = h_input t n \<longleftrightarrow> s = t \<and> m = n"
proof
  assume eq: "h_input s m = h_input t n"
  then have "unat (of_nat (length s) :: u8) = unat (of_nat (length t) :: u8)" by (simp add: h_input_def)
  then have "length s = length t"
    using assms by (simp add: unat_of_nat take_bit_nat_eq_self)
  with eq show "s = t \<and> m = n"
    by (simp add: h_input_def)
qed simp

theorem h_input_separates_witness:
  "h_input ''mdbase/v1/chain'' [1] = h_input ''mdbase/v1/cp-cert'' [1]
    \<longleftrightarrow> ''mdbase/v1/chain'' = ''mdbase/v1/cp-cert'' \<and> [1 :: u8] = [1]"
  by (rule h_input_separates) simp_all

end
