(* ===== verification/PolicyWire.thy ===== *)
theory PolicyWire
  imports Envelope
begin

text \<open>
  Control-plane policy items, \<open>wire/src/policy.rs\<close>: the enumerations, the thirteen policy
  operations as records with their struct-map codecs, the tagged union, the certificate of a
  policy key and the payloads of \<open>policy\<close> and \<open>grant_approval\<close> items.
\<close>

subsection \<open>Enumerations\<close>

datatype CState = E2e | CloudCopy

fun cstate_value :: "CState \<Rightarrow> u64" where
  "cstate_value E2e = 0"
| "cstate_value CloudCopy = 1"

definition cstate_to_cbor :: "CState \<Rightarrow> Cbor" where
  "cstate_to_cbor s = Uint (cstate_value s)"

definition cstate_from_cbor :: "Cbor \<Rightarrow> SchemaError + CState" where
  "cstate_from_cbor = enum_from_cbor ''CState'' (map (\<lambda>s. (cstate_value s, s)) [E2e, CloudCopy])"

datatype DeviceKind = Desktop | Mobile | AppRuntime | Cli | Hosted | Escrow | RecoveryDevice

fun device_kind_value :: "DeviceKind \<Rightarrow> u64" where
  "device_kind_value Desktop = 0"
| "device_kind_value Mobile = 1"
| "device_kind_value AppRuntime = 2"
| "device_kind_value Cli = 3"
| "device_kind_value Hosted = 4"
| "device_kind_value Escrow = 5"
| "device_kind_value RecoveryDevice = 6"

definition device_kind_to_cbor :: "DeviceKind \<Rightarrow> Cbor" where
  "device_kind_to_cbor k = Uint (device_kind_value k)"

definition device_kind_from_cbor :: "Cbor \<Rightarrow> SchemaError + DeviceKind" where
  "device_kind_from_cbor = enum_from_cbor ''DeviceKind'' (map (\<lambda>k. (device_kind_value k, k))
    [Desktop, Mobile, AppRuntime, Cli, Hosted, Escrow, RecoveryDevice])"

datatype Role = Viewer | Editor | Owner

fun role_value :: "Role \<Rightarrow> u64" where
  "role_value Viewer = 0"
| "role_value Editor = 1"
| "role_value Owner = 2"

definition role_to_cbor :: "Role \<Rightarrow> Cbor" where
  "role_to_cbor r = Uint (role_value r)"

definition role_from_cbor :: "Cbor \<Rightarrow> SchemaError + Role" where
  "role_from_cbor = enum_from_cbor ''Role'' (map (\<lambda>r. (role_value r, r)) [Viewer, Editor, Owner])"

subsection \<open>Operations\<close>

record Genesis =
  gn_owner :: b16
  gn_root :: b16
  gn_state :: CState

definition genesis_to_cbor :: "Genesis \<Rightarrow> Cbor" where
  "genesis_to_cbor v = CMap (
      req_enc 1 (b16_to_cbor (gn_owner v))
    @ req_enc 2 (b16_to_cbor (gn_root v))
    @ req_enc 3 (cstate_to_cbor (gn_state v)))"

definition genesis_from_cbor :: "Cbor \<Rightarrow> SchemaError + Genesis" where
  "genesis_from_cbor c =
    (let ty = ''Genesis'' in
     rbind (struct_map c ty) (\<lambda>m.
     rbind (req_dec m 1 ty b16_from_cbor) (\<lambda>owner.
     rbind (req_dec m 2 ty b16_from_cbor) (\<lambda>root.
     rbind (req_dec m 3 ty cstate_from_cbor) (\<lambda>state.
     Ok \<lparr>gn_owner = owner, gn_root = root, gn_state = state\<rparr>)))))"

record DeviceEnrol =
  de_device :: b16
  de_account :: b16
  de_kind :: DeviceKind
  de_sign_pk :: b32
  de_kem_pk :: b32
  de_noise_pk :: b32
  de_sas_commit :: "b32 option"
  de_local_root :: "b32 option"

definition device_enrol_to_cbor :: "DeviceEnrol \<Rightarrow> Cbor" where
  "device_enrol_to_cbor v = CMap (
      req_enc 1 (b16_to_cbor (de_device v))
    @ req_enc 2 (b16_to_cbor (de_account v))
    @ req_enc 3 (device_kind_to_cbor (de_kind v))
    @ req_enc 4 (b32_to_cbor (de_sign_pk v))
    @ req_enc 5 (b32_to_cbor (de_kem_pk v))
    @ req_enc 6 (b32_to_cbor (de_noise_pk v))
    @ opt_enc 7 (map_option b32_to_cbor (de_sas_commit v))
    @ opt_enc 8 (map_option b32_to_cbor (de_local_root v)))"

definition device_enrol_from_cbor :: "Cbor \<Rightarrow> SchemaError + DeviceEnrol" where
  "device_enrol_from_cbor c =
    (let ty = ''DeviceEnrol'' in
     rbind (struct_map c ty) (\<lambda>m.
     rbind (req_dec m 1 ty b16_from_cbor) (\<lambda>device.
     rbind (req_dec m 2 ty b16_from_cbor) (\<lambda>account.
     rbind (req_dec m 3 ty device_kind_from_cbor) (\<lambda>kind.
     rbind (req_dec m 4 ty b32_from_cbor) (\<lambda>sign_pk.
     rbind (req_dec m 5 ty b32_from_cbor) (\<lambda>kem_pk.
     rbind (req_dec m 6 ty b32_from_cbor) (\<lambda>noise_pk.
     rbind (opt_dec m 7 b32_from_cbor) (\<lambda>sas_commit.
     rbind (opt_dec m 8 b32_from_cbor) (\<lambda>local_root.
     Ok \<lparr>de_device = device, de_account = account, de_kind = kind, de_sign_pk = sign_pk,
         de_kem_pk = kem_pk, de_noise_pk = noise_pk, de_sas_commit = sas_commit,
         de_local_root = local_root\<rparr>))))))))))"

record DeviceRevoke =
  dr_device :: b16

definition device_revoke_to_cbor :: "DeviceRevoke \<Rightarrow> Cbor" where
  "device_revoke_to_cbor v = CMap (
      req_enc 1 (b16_to_cbor (dr_device v)))"

definition device_revoke_from_cbor :: "Cbor \<Rightarrow> SchemaError + DeviceRevoke" where
  "device_revoke_from_cbor c =
    (let ty = ''DeviceRevoke'' in
     rbind (struct_map c ty) (\<lambda>m.
     rbind (req_dec m 1 ty b16_from_cbor) (\<lambda>device.
     Ok \<lparr>dr_device = device\<rparr>)))"

record MemberSet =
  ms_account :: b16
  ms_role :: Role

definition member_set_to_cbor :: "MemberSet \<Rightarrow> Cbor" where
  "member_set_to_cbor v = CMap (
      req_enc 1 (b16_to_cbor (ms_account v))
    @ req_enc 2 (role_to_cbor (ms_role v)))"

definition member_set_from_cbor :: "Cbor \<Rightarrow> SchemaError + MemberSet" where
  "member_set_from_cbor c =
    (let ty = ''MemberSet'' in
     rbind (struct_map c ty) (\<lambda>m.
     rbind (req_dec m 1 ty b16_from_cbor) (\<lambda>account.
     rbind (req_dec m 2 ty role_from_cbor) (\<lambda>role.
     Ok \<lparr>ms_account = account, ms_role = role\<rparr>))))"

record MemberRemove =
  mr_account :: b16

definition member_remove_to_cbor :: "MemberRemove \<Rightarrow> Cbor" where
  "member_remove_to_cbor v = CMap (
      req_enc 1 (b16_to_cbor (mr_account v)))"

definition member_remove_from_cbor :: "Cbor \<Rightarrow> SchemaError + MemberRemove" where
  "member_remove_from_cbor c =
    (let ty = ''MemberRemove'' in
     rbind (struct_map c ty) (\<lambda>m.
     rbind (req_dec m 1 ty b16_from_cbor) (\<lambda>account.
     Ok \<lparr>mr_account = account\<rparr>)))"

record Grant =
  gr_grant :: b16
  gr_installation :: b16
  gr_app_id :: bytes
  gr_account :: b16
  gr_capabilities :: "bytes list"
  gr_client_pk :: b32
  gr_file_folders :: "(bytes list) option"
  gr_folder_scoped :: "bool option"

definition grant_to_cbor :: "Grant \<Rightarrow> Cbor" where
  "grant_to_cbor v = CMap (
      req_enc 1 (b16_to_cbor (gr_grant v))
    @ req_enc 2 (b16_to_cbor (gr_installation v))
    @ req_enc 3 (CText (gr_app_id v))
    @ req_enc 4 (b16_to_cbor (gr_account v))
    @ req_enc 5 (vec_to_cbor CText (gr_capabilities v))
    @ req_enc 6 (b32_to_cbor (gr_client_pk v))
    @ opt_enc 7 (map_option (vec_to_cbor CText) (gr_file_folders v))
    @ opt_enc 8 (map_option CBool (gr_folder_scoped v)))"

definition grant_from_cbor :: "Cbor \<Rightarrow> SchemaError + Grant" where
  "grant_from_cbor c =
    (let ty = ''Grant'' in
     rbind (struct_map c ty) (\<lambda>m.
     rbind (req_dec m 1 ty b16_from_cbor) (\<lambda>grant.
     rbind (req_dec m 2 ty b16_from_cbor) (\<lambda>installation.
     rbind (req_dec m 3 ty string_from_cbor) (\<lambda>app_id.
     rbind (req_dec m 4 ty b16_from_cbor) (\<lambda>account.
     rbind (req1_dec m 5 ty (vec_from_cbor string_from_cbor)) (\<lambda>capabilities.
     rbind (req_dec m 6 ty b32_from_cbor) (\<lambda>client_pk.
     rbind (opt1_dec m 7 ty (vec_from_cbor string_from_cbor)) (\<lambda>file_folders.
     rbind (opt_dec m 8 bool_from_cbor) (\<lambda>folder_scoped.
     Ok \<lparr>gr_grant = grant, gr_installation = installation, gr_app_id = app_id,
         gr_account = account, gr_capabilities = capabilities, gr_client_pk = client_pk,
         gr_file_folders = file_folders, gr_folder_scoped = folder_scoped\<rparr>))))))))))"

record GrantRevoke =
  gv_grant :: b16

definition grant_revoke_to_cbor :: "GrantRevoke \<Rightarrow> Cbor" where
  "grant_revoke_to_cbor v = CMap (
      req_enc 1 (b16_to_cbor (gv_grant v)))"

definition grant_revoke_from_cbor :: "Cbor \<Rightarrow> SchemaError + GrantRevoke" where
  "grant_revoke_from_cbor c =
    (let ty = ''GrantRevoke'' in
     rbind (struct_map c ty) (\<lambda>m.
     rbind (req_dec m 1 ty b16_from_cbor) (\<lambda>grant.
     Ok \<lparr>gv_grant = grant\<rparr>)))"

record CollectionState =
  cs_state :: CState
  cs_compress :: "bool option"
  cs_min_sem_major :: "u64 option"

definition collection_state_to_cbor :: "CollectionState \<Rightarrow> Cbor" where
  "collection_state_to_cbor v = CMap (
      req_enc 1 (cstate_to_cbor (cs_state v))
    @ opt_enc 2 (map_option CBool (cs_compress v))
    @ opt_enc 3 (map_option Uint (cs_min_sem_major v)))"

definition collection_state_from_cbor :: "Cbor \<Rightarrow> SchemaError + CollectionState" where
  "collection_state_from_cbor c =
    (let ty = ''CollectionState'' in
     rbind (struct_map c ty) (\<lambda>m.
     rbind (req_dec m 1 ty cstate_from_cbor) (\<lambda>state.
     rbind (opt_dec m 2 bool_from_cbor) (\<lambda>compress.
     rbind (opt_dec m 3 u64_from_cbor) (\<lambda>min_sem_major.
     Ok \<lparr>cs_state = state, cs_compress = compress,
         cs_min_sem_major = min_sem_major\<rparr>)))))"

record CpKeyRevoke =
  kr_key_id :: b16
  kr_revoked_from :: i64
  kr_root_sig :: b64

definition cp_key_revoke_to_cbor :: "CpKeyRevoke \<Rightarrow> Cbor" where
  "cp_key_revoke_to_cbor v = CMap (
      req_enc 1 (b16_to_cbor (kr_key_id v))
    @ req_enc 2 (cbor_int (kr_revoked_from v))
    @ req_enc 3 (b64_to_cbor (kr_root_sig v)))"

definition cp_key_revoke_from_cbor :: "Cbor \<Rightarrow> SchemaError + CpKeyRevoke" where
  "cp_key_revoke_from_cbor c =
    (let ty = ''CpKeyRevoke'' in
     rbind (struct_map c ty) (\<lambda>m.
     rbind (req_dec m 1 ty b16_from_cbor) (\<lambda>key_id.
     rbind (req_dec m 2 ty i64_from_cbor) (\<lambda>revoked_from.
     rbind (req_dec m 3 ty b64_from_cbor) (\<lambda>root_sig.
     Ok \<lparr>kr_key_id = key_id, kr_revoked_from = revoked_from,
         kr_root_sig = root_sig\<rparr>)))))"

record MigrationCutover =
  mc_legacy_collection :: b16
  mc_revoked :: "b16 list"
  mc_cutover_at :: i64

definition migration_cutover_to_cbor :: "MigrationCutover \<Rightarrow> Cbor" where
  "migration_cutover_to_cbor v = CMap (
      req_enc 1 (b16_to_cbor (mc_legacy_collection v))
    @ req_enc 2 (vec_to_cbor b16_to_cbor (mc_revoked v))
    @ req_enc 3 (cbor_int (mc_cutover_at v)))"

definition migration_cutover_from_cbor :: "Cbor \<Rightarrow> SchemaError + MigrationCutover" where
  "migration_cutover_from_cbor c =
    (let ty = ''MigrationCutover'' in
     rbind (struct_map c ty) (\<lambda>m.
     rbind (req_dec m 1 ty b16_from_cbor) (\<lambda>legacy_collection.
     rbind (req_dec m 2 ty (vec_from_cbor b16_from_cbor)) (\<lambda>revoked.
     rbind (req_dec m 3 ty i64_from_cbor) (\<lambda>cutover_at.
     Ok \<lparr>mc_legacy_collection = legacy_collection, mc_revoked = revoked,
         mc_cutover_at = cutover_at\<rparr>)))))"

record Freeze =
  fz_frozen :: bool
  fz_reason :: "bytes option"

definition freeze_to_cbor :: "Freeze \<Rightarrow> Cbor" where
  "freeze_to_cbor v = CMap (
      req_enc 1 (CBool (fz_frozen v))
    @ opt_enc 2 (map_option CText (fz_reason v)))"

definition freeze_from_cbor :: "Cbor \<Rightarrow> SchemaError + Freeze" where
  "freeze_from_cbor c =
    (let ty = ''Freeze'' in
     rbind (struct_map c ty) (\<lambda>m.
     rbind (req_dec m 1 ty bool_from_cbor) (\<lambda>frozen.
     rbind (opt_dec m 2 string_from_cbor) (\<lambda>reason.
     Ok \<lparr>fz_frozen = frozen, fz_reason = reason\<rparr>))))"

record RootHandover =
  rh_new_root :: b32
  rh_owner_device :: b16
  rh_move_id :: b16
  rh_consent :: b64

definition root_handover_to_cbor :: "RootHandover \<Rightarrow> Cbor" where
  "root_handover_to_cbor v = CMap (
      req_enc 1 (b32_to_cbor (rh_new_root v))
    @ req_enc 2 (b16_to_cbor (rh_owner_device v))
    @ req_enc 3 (b16_to_cbor (rh_move_id v))
    @ req_enc 4 (b64_to_cbor (rh_consent v)))"

definition root_handover_from_cbor :: "Cbor \<Rightarrow> SchemaError + RootHandover" where
  "root_handover_from_cbor c =
    (let ty = ''RootHandover'' in
     rbind (struct_map c ty) (\<lambda>m.
     rbind (req_dec m 1 ty b32_from_cbor) (\<lambda>new_root.
     rbind (req_dec m 2 ty b16_from_cbor) (\<lambda>owner_device.
     rbind (req_dec m 3 ty b16_from_cbor) (\<lambda>move_id.
     rbind (req_dec m 4 ty b64_from_cbor) (\<lambda>consent.
     Ok \<lparr>rh_new_root = new_root, rh_owner_device = owner_device, rh_move_id = move_id,
         rh_consent = consent\<rparr>))))))"

record ApprovalRequest =
  ar_device :: b16
  ar_sas_commit :: b32

definition approval_request_to_cbor :: "ApprovalRequest \<Rightarrow> Cbor" where
  "approval_request_to_cbor v = CMap (
      req_enc 1 (b16_to_cbor (ar_device v))
    @ req_enc 2 (b32_to_cbor (ar_sas_commit v)))"

definition approval_request_from_cbor :: "Cbor \<Rightarrow> SchemaError + ApprovalRequest" where
  "approval_request_from_cbor c =
    (let ty = ''ApprovalRequest'' in
     rbind (struct_map c ty) (\<lambda>m.
     rbind (req_dec m 1 ty b16_from_cbor) (\<lambda>device.
     rbind (req_dec m 2 ty b32_from_cbor) (\<lambda>sas_commit.
     Ok \<lparr>ar_device = device, ar_sas_commit = sas_commit\<rparr>))))"

text \<open>The tagged union of the operations: the discriminator is key 0.\<close>

datatype PolicyOp =
    OpGenesis Genesis
  | OpDeviceEnrol DeviceEnrol
  | OpDeviceRevoke DeviceRevoke
  | OpMemberSet MemberSet
  | OpMemberRemove MemberRemove
  | OpGrant Grant
  | OpGrantRevoke GrantRevoke
  | OpCollectionState CollectionState
  | OpCpKeyRevoke CpKeyRevoke
  | OpMigrationCutover MigrationCutover
  | OpFreeze Freeze
  | OpRootHandover RootHandover
  | OpApprovalRequest ApprovalRequest

fun policy_op_to_cbor :: "PolicyOp \<Rightarrow> Cbor" where
  "policy_op_to_cbor (OpGenesis v) = with_tag 1 (genesis_to_cbor v)"
| "policy_op_to_cbor (OpDeviceEnrol v) = with_tag 2 (device_enrol_to_cbor v)"
| "policy_op_to_cbor (OpDeviceRevoke v) = with_tag 3 (device_revoke_to_cbor v)"
| "policy_op_to_cbor (OpMemberSet v) = with_tag 4 (member_set_to_cbor v)"
| "policy_op_to_cbor (OpMemberRemove v) = with_tag 5 (member_remove_to_cbor v)"
| "policy_op_to_cbor (OpGrant v) = with_tag 6 (grant_to_cbor v)"
| "policy_op_to_cbor (OpGrantRevoke v) = with_tag 7 (grant_revoke_to_cbor v)"
| "policy_op_to_cbor (OpCollectionState v) = with_tag 8 (collection_state_to_cbor v)"
| "policy_op_to_cbor (OpCpKeyRevoke v) = with_tag 9 (cp_key_revoke_to_cbor v)"
| "policy_op_to_cbor (OpMigrationCutover v) = with_tag 10 (migration_cutover_to_cbor v)"
| "policy_op_to_cbor (OpFreeze v) = with_tag 11 (freeze_to_cbor v)"
| "policy_op_to_cbor (OpRootHandover v) = with_tag 12 (root_handover_to_cbor v)"
| "policy_op_to_cbor (OpApprovalRequest v) = with_tag 13 (approval_request_to_cbor v)"

definition policy_op_from_cbor :: "Cbor \<Rightarrow> SchemaError + PolicyOp" where
  "policy_op_from_cbor c =
    (let ty = ''PolicyOp'' in
     rbind (struct_map c ty) (\<lambda>m.
     rbind (discriminator m ty) (\<lambda>tag.
     if tag = 1 then rbind (genesis_from_cbor c) (\<lambda>v. Ok (OpGenesis v))
     else if tag = 2 then rbind (device_enrol_from_cbor c) (\<lambda>v. Ok (OpDeviceEnrol v))
     else if tag = 3 then rbind (device_revoke_from_cbor c) (\<lambda>v. Ok (OpDeviceRevoke v))
     else if tag = 4 then rbind (member_set_from_cbor c) (\<lambda>v. Ok (OpMemberSet v))
     else if tag = 5 then rbind (member_remove_from_cbor c) (\<lambda>v. Ok (OpMemberRemove v))
     else if tag = 6 then rbind (grant_from_cbor c) (\<lambda>v. Ok (OpGrant v))
     else if tag = 7 then rbind (grant_revoke_from_cbor c) (\<lambda>v. Ok (OpGrantRevoke v))
     else if tag = 8 then rbind (collection_state_from_cbor c) (\<lambda>v. Ok (OpCollectionState v))
     else if tag = 9 then rbind (cp_key_revoke_from_cbor c) (\<lambda>v. Ok (OpCpKeyRevoke v))
     else if tag = 10 then rbind (migration_cutover_from_cbor c) (\<lambda>v. Ok (OpMigrationCutover v))
     else if tag = 11 then rbind (freeze_from_cbor c) (\<lambda>v. Ok (OpFreeze v))
     else if tag = 12 then rbind (root_handover_from_cbor c) (\<lambda>v. Ok (OpRootHandover v))
     else if tag = 13 then rbind (approval_request_from_cbor c) (\<lambda>v. Ok (OpApprovalRequest v))
     else Err (UnknownVariant ty tag))))"

subsection \<open>Certificates and payloads\<close>

record CpCert =
  cc_policy_pk :: b32
  cc_not_before :: i64
  cc_not_after :: i64
  cc_root :: b16
  cc_sig :: b64

definition cp_cert_to_cbor :: "CpCert \<Rightarrow> Cbor" where
  "cp_cert_to_cbor v = CMap (
      req_enc 0 (b32_to_cbor (cc_policy_pk v))
    @ req_enc 1 (cbor_int (cc_not_before v))
    @ req_enc 2 (cbor_int (cc_not_after v))
    @ req_enc 3 (b16_to_cbor (cc_root v))
    @ req_enc 4 (b64_to_cbor (cc_sig v)))"

definition cp_cert_from_cbor :: "Cbor \<Rightarrow> SchemaError + CpCert" where
  "cp_cert_from_cbor c =
    (let ty = ''CpCert'' in
     rbind (struct_map c ty) (\<lambda>m.
     rbind (req_dec m 0 ty b32_from_cbor) (\<lambda>policy_pk.
     rbind (req_dec m 1 ty i64_from_cbor) (\<lambda>not_before.
     rbind (req_dec m 2 ty i64_from_cbor) (\<lambda>not_after.
     rbind (req_dec m 3 ty b16_from_cbor) (\<lambda>root.
     rbind (req_dec m 4 ty b64_from_cbor) (\<lambda>sig.
     Ok \<lparr>cc_policy_pk = policy_pk, cc_not_before = not_before, cc_not_after = not_after,
         cc_root = root, cc_sig = sig\<rparr>)))))))"

record PolicyPayload =
  pp_cert :: CpCert
  pp_issued_at :: i64
  pp_ops :: "PolicyOp list"

definition policy_payload_to_cbor :: "PolicyPayload \<Rightarrow> Cbor" where
  "policy_payload_to_cbor v = CMap (
      req_enc 0 (Uint 1)
    @ req_enc 1 (cp_cert_to_cbor (pp_cert v))
    @ req_enc 2 (cbor_int (pp_issued_at v))
    @ req_enc 3 (vec_to_cbor policy_op_to_cbor (pp_ops v)))"

definition policy_payload_from_cbor :: "Cbor \<Rightarrow> SchemaError + PolicyPayload" where
  "policy_payload_from_cbor c =
    (let ty = ''PolicyPayload'' in
     rbind (struct_map c ty) (\<lambda>m.
     rbind (check_fmt m ty 1) (\<lambda>_.
     rbind (req_dec m 1 ty cp_cert_from_cbor) (\<lambda>cert.
     rbind (req_dec m 2 ty i64_from_cbor) (\<lambda>issued_at.
     rbind (req1_dec m 3 ty (vec_from_cbor policy_op_from_cbor)) (\<lambda>ops.
     Ok \<lparr>pp_cert = cert, pp_issued_at = issued_at, pp_ops = ops\<rparr>))))))"

record GrantApprovalPayload =
  ga_grant :: b16
  ga_client_pk :: b32
  ga_capabilities :: "bytes list"
  ga_file_folders :: "(bytes list) option"

definition grant_approval_payload_to_cbor :: "GrantApprovalPayload \<Rightarrow> Cbor" where
  "grant_approval_payload_to_cbor v = CMap (
      req_enc 0 (Uint 1)
    @ req_enc 1 (b16_to_cbor (ga_grant v))
    @ req_enc 2 (b32_to_cbor (ga_client_pk v))
    @ req_enc 3 (vec_to_cbor CText (ga_capabilities v))
    @ opt_enc 4 (map_option (vec_to_cbor CText) (ga_file_folders v)))"

definition grant_approval_payload_from_cbor :: "Cbor \<Rightarrow> SchemaError + GrantApprovalPayload" where
  "grant_approval_payload_from_cbor c =
    (let ty = ''GrantApprovalPayload'' in
     rbind (struct_map c ty) (\<lambda>m.
     rbind (check_fmt m ty 1) (\<lambda>_.
     rbind (req_dec m 1 ty b16_from_cbor) (\<lambda>grant.
     rbind (req_dec m 2 ty b32_from_cbor) (\<lambda>client_pk.
     rbind (req1_dec m 3 ty (vec_from_cbor string_from_cbor)) (\<lambda>capabilities.
     rbind (opt1_dec m 4 ty (vec_from_cbor string_from_cbor)) (\<lambda>file_folders.
     Ok \<lparr>ga_grant = grant, ga_client_pk = client_pk, ga_capabilities = capabilities,
         ga_file_folders = file_folders\<rparr>)))))))"

subsection \<open>Signed digests\<close>

definition cp_key_revoke_signed_digest :: "(bytes \<Rightarrow> b32) \<Rightarrow> CpKeyRevoke \<Rightarrow> CborError + b32" where
  "cp_key_revoke_signed_digest sha256 v =
    rbind (encode (CArray [b16_to_cbor (kr_key_id v), cbor_int (kr_revoked_from v)])) (\<lambda>bs.
    Ok (h sha256 ''mdbase/v1/cp-key-revoke'' bs))"

definition consent_digest :: "(bytes \<Rightarrow> b32) \<Rightarrow> RootHandover \<Rightarrow> b16 \<Rightarrow> u64 \<Rightarrow> b32" where
  "consent_digest sha256 v collection seq =
    h sha256 ''mdbase/v1/root-handover''
      (be_bytes 16 collection @ be_bytes 8 seq @ be_bytes 32 (rh_new_root v) @ be_bytes 16 (rh_move_id v))"

definition cp_cert_signed_digest :: "(bytes \<Rightarrow> b32) \<Rightarrow> CpCert \<Rightarrow> CborError + b32" where
  "cp_cert_signed_digest sha256 v =
    rbind (case cp_cert_to_cbor v of
             CMap m \<Rightarrow> encode (CMap (filter (\<lambda>(k, _). k \<noteq> Uint 4) m))
           | c \<Rightarrow> encode c) (\<lambda>bs.
    Ok (h sha256 ''mdbase/v1/cp-cert'' bs))"

text \<open>The first 16 bytes of the digest of the policy key.\<close>

definition cp_cert_key_id :: "(bytes \<Rightarrow> b32) \<Rightarrow> CpCert \<Rightarrow> b16" where
  "cp_cert_key_id sha256 v = of_be (take 16 (be_bytes 32 (sha256 (be_bytes 32 (cc_policy_pk v)))))"

subsection \<open>Codecs\<close>

lemma enum_from_to [simp]:
  "cstate_from_cbor (cstate_to_cbor s) = Inr s"
  "device_kind_from_cbor (device_kind_to_cbor k) = Inr k"
  "role_from_cbor (role_to_cbor r) = Inr r"
  by (cases s; cases k; cases r; simp add: cstate_from_cbor_def cstate_to_cbor_def device_kind_from_cbor_def
      device_kind_to_cbor_def role_from_cbor_def role_to_cbor_def enum_from_cbor_def)+

lemma enum_rep [simp]:
  "cbor_rep (cstate_to_cbor s)" "cbor_rep (device_kind_to_cbor k)" "cbor_rep (role_to_cbor r)"
  "in_profile d (cstate_to_cbor s) \<longleftrightarrow> d \<le> MAX_DEPTH" "in_profile d (device_kind_to_cbor k) \<longleftrightarrow> d \<le> MAX_DEPTH"
  "in_profile d (role_to_cbor r) \<longleftrightarrow> d \<le> MAX_DEPTH"
  by (simp_all add: cstate_to_cbor_def device_kind_to_cbor_def role_to_cbor_def)

text \<open>What the Rust types guarantee of texts and lists.\<close>

definition text_ok :: "bytes \<Rightarrow> bool" where
  "text_ok s \<longleftrightarrow> length s < 2 ^ 64 \<and> utf8_valid s"

definition texts_ok :: "bytes list \<Rightarrow> bool" where
  "texts_ok ss \<longleftrightarrow> length ss < 2 ^ 64 \<and> list_all text_ok ss"

lemma texts_from_to [simp]: "vec_from_cbor string_from_cbor (vec_to_cbor CText ss) = Inr ss"
  using rmapM_all_Ok [of ss "\<lambda>v. string_from_cbor (CText v)" "\<lambda>v. v"]
  by (simp add: vec_from_cbor_def vec_to_cbor_def array_def rmapM_map)

lemma b16_list_from_to [simp]: "vec_from_cbor b16_from_cbor (vec_to_cbor b16_to_cbor r) = Inr r"
  by (rule b16.vec_from_to) (simp add: list_all_iff)

lemma texts_rep [simp]: "texts_ok ss \<Longrightarrow> cbor_rep (vec_to_cbor CText ss)"
  by (auto simp: texts_ok_def text_ok_def vec_to_cbor_def list_all_iff)

lemma vec_text_profile [simp]: "Suc d \<le> MAX_DEPTH \<Longrightarrow> in_profile d (vec_to_cbor CText ss)"
  by (auto simp: vec_to_cbor_def)

lemma vec_b16_profile [simp]: "Suc d \<le> MAX_DEPTH \<Longrightarrow> in_profile d (vec_to_cbor b16_to_cbor ss)"
  by (auto simp: vec_to_cbor_def)

lemma vec_b16_rep [simp]: "length ss < 2 ^ 64 \<Longrightarrow> cbor_rep (vec_to_cbor b16_to_cbor ss)"
  by (auto simp: vec_to_cbor_def)

fun policy_op_rep :: "PolicyOp \<Rightarrow> bool" where
  "policy_op_rep (OpGrant g) \<longleftrightarrow> text_ok (gr_app_id g) \<and> gr_capabilities g \<noteq> []
     \<and> texts_ok (gr_capabilities g) \<and> pred_option (\<lambda>f. f \<noteq> [] \<and> texts_ok f) (gr_file_folders g)"
| "policy_op_rep (OpMigrationCutover c) \<longleftrightarrow> length (mc_revoked c) < 2 ^ 64"
| "policy_op_rep (OpFreeze f) \<longleftrightarrow> pred_option text_ok (fz_reason f)"
| "policy_op_rep _ \<longleftrightarrow> True"

lemmas op_to_defs = genesis_to_cbor_def device_enrol_to_cbor_def device_revoke_to_cbor_def
  member_set_to_cbor_def member_remove_to_cbor_def grant_to_cbor_def grant_revoke_to_cbor_def
  collection_state_to_cbor_def cp_key_revoke_to_cbor_def migration_cutover_to_cbor_def
  freeze_to_cbor_def root_handover_to_cbor_def approval_request_to_cbor_def

lemmas op_from_defs = genesis_from_cbor_def device_enrol_from_cbor_def
  device_revoke_from_cbor_def member_set_from_cbor_def member_remove_from_cbor_def
  grant_from_cbor_def grant_revoke_from_cbor_def collection_state_from_cbor_def
  cp_key_revoke_from_cbor_def migration_cutover_from_cbor_def freeze_from_cbor_def
  root_handover_from_cbor_def approval_request_from_cbor_def

lemma policy_op_from_to: "policy_op_rep v \<Longrightarrow> policy_op_from_cbor (policy_op_to_cbor v) = Inr v"
proof (cases v)
  case (OpGrant g)
  assume "policy_op_rep v"
  then show ?thesis
    unfolding OpGrant
    by (cases "gr_file_folders g")
      (simp_all add: policy_op_from_cbor_def grant_to_cbor_def grant_from_cbor_def Let_def codec_simps)
qed (simp_all add: policy_op_from_cbor_def op_to_defs op_from_defs Let_def codec_simps)

text \<open>The part of it that holds of every value in memory, and the lists that must not be empty.\<close>

fun policy_op_typed :: "PolicyOp \<Rightarrow> bool" where
  "policy_op_typed (OpGrant g) \<longleftrightarrow> text_ok (gr_app_id g) \<and> texts_ok (gr_capabilities g) \<and> pred_option texts_ok (gr_file_folders g)"
| "policy_op_typed (OpMigrationCutover c) \<longleftrightarrow> length (mc_revoked c) < 2 ^ 64"
| "policy_op_typed (OpFreeze f) \<longleftrightarrow> pred_option text_ok (fz_reason f)"
| "policy_op_typed _ \<longleftrightarrow> True"

fun policy_op_filled :: "PolicyOp \<Rightarrow> bool" where
  "policy_op_filled (OpGrant g) \<longleftrightarrow> gr_capabilities g \<noteq> [] \<and> gr_file_folders g \<noteq> Some []"
| "policy_op_filled _ \<longleftrightarrow> True"

lemma policy_op_rep_iff: "policy_op_rep v \<longleftrightarrow> policy_op_typed v \<and> policy_op_filled v"
proof (cases v)
  case (OpGrant g)
  then show ?thesis by (cases "gr_file_folders g") auto
qed simp_all

lemma policy_op_unfilled: "\<not> policy_op_filled v \<Longrightarrow> \<exists>ty. policy_op_from_cbor (policy_op_to_cbor v) = Inl (Invalid ty ''list must not be empty'')"
proof (cases v)
  case (OpGrant g)
  assume "\<not> policy_op_filled v"
  then show ?thesis
    unfolding OpGrant
    by (cases "gr_capabilities g = []"; cases "gr_file_folders g")
      (simp_all add: policy_op_from_cbor_def grant_to_cbor_def grant_from_cbor_def Let_def codec_simps non_empty_def)
qed simp_all

lemma policy_op_to_rep: "policy_op_typed v \<Longrightarrow> cbor_rep (policy_op_to_cbor v)"
  by (cases v)
    (auto simp: op_to_defs cbor_rep_struct length_enc option.pred_map comp_def option.pred_True text_ok_def
      req_enc_def opt_enc_def split: option.splits)

lemma policy_op_ascending:
  "\<exists>m. policy_op_to_cbor v = CMap m \<and> ascending 0 m \<and> (\<forall>d. d + 2 \<le> MAX_DEPTH \<longrightarrow>
    list_all (in_profile (d + 1)) (map snd m))"
  by (cases v; simp add: op_to_defs; intro conjI ascending_intros;
      auto simp: option.set_map pred_option_def)

lemma policy_op_profile: "d + 2 \<le> MAX_DEPTH \<Longrightarrow> in_profile d (policy_op_to_cbor v)"
  using policy_op_ascending [of v] in_profile_struct [of d] by auto

interpretation wire_policy_op: wire_total policy_op_to_cbor policy_op_from_cbor policy_op_rep 2
  by unfold_locales (simp_all add: policy_op_profile policy_op_from_to policy_op_to_rep policy_op_rep_iff)

interpretation wire_cp_cert: wire_total cp_cert_to_cbor cp_cert_from_cbor "\<lambda>_. True" 1
proof
  show "cp_cert_from_cbor (cp_cert_to_cbor w) = Inr w" for w
    by (simp add: cp_cert_from_cbor_def cp_cert_to_cbor_def)
  show "cbor_rep (cp_cert_to_cbor w)" for w
    unfolding cp_cert_to_cbor_def by (rule struct_rep) (simp_all add: length_enc)
  show "in_profile d (cp_cert_to_cbor w)" if "d + 1 \<le> MAX_DEPTH" for d w
    unfolding cp_cert_to_cbor_def
    by (rule in_profile_struct, use that in simp, intro ascending_intros) (use that in simp_all)
qed

definition policy_payload_rep :: "PolicyPayload \<Rightarrow> bool" where
  "policy_payload_rep p \<longleftrightarrow> pp_ops p \<noteq> [] \<and> length (pp_ops p) < 2 ^ 64 \<and> list_all policy_op_rep (pp_ops p)"

definition policy_payload_typed :: "PolicyPayload \<Rightarrow> bool" where
  "policy_payload_typed p \<longleftrightarrow> length (pp_ops p) < 2 ^ 64 \<and> list_all policy_op_typed (pp_ops p)"

definition policy_payload_filled :: "PolicyPayload \<Rightarrow> bool" where
  "policy_payload_filled p \<longleftrightarrow> pp_ops p \<noteq> [] \<and> list_all policy_op_filled (pp_ops p)"

lemma policy_payload_rep_iff: "policy_payload_rep p \<longleftrightarrow> policy_payload_typed p \<and> policy_payload_filled p"
  by (auto simp: policy_payload_rep_def policy_payload_typed_def policy_payload_filled_def policy_op_rep_iff list_all_iff)

lemma policy_payload_to_rep:
  assumes "policy_payload_typed p"
  shows "cbor_rep (policy_payload_to_cbor p)"
proof -
  have "cbor_rep (vec_to_cbor policy_op_to_cbor (pp_ops p))"
    using assms policy_op_to_rep by (auto simp: policy_payload_typed_def vec_to_cbor_def list_all_iff)
  then show ?thesis unfolding policy_payload_to_cbor_def by (intro struct_rep) (simp_all add: wire_cp_cert.to_rep length_enc)
qed

lemma policy_payload_profile:
  assumes "d + 4 \<le> MAX_DEPTH"
  shows "in_profile d (policy_payload_to_cbor p)"
proof -
  have "in_profile (d + 1) (vec_to_cbor policy_op_to_cbor (pp_ops p))"
    using assms policy_op_profile by (auto simp: vec_to_cbor_def)
  then show ?thesis
    unfolding policy_payload_to_cbor_def
    by (intro in_profile_struct ascending_intros) (use assms in \<open>simp_all add: wire_cp_cert.to_profile\<close>)
qed

interpretation wire_policy: wire_total policy_payload_to_cbor policy_payload_from_cbor policy_payload_rep 4
proof
  show "policy_payload_from_cbor (policy_payload_to_cbor p) = Inr p" if "policy_payload_rep p" for p
    using that
    by (simp add: policy_payload_from_cbor_def policy_payload_to_cbor_def policy_payload_rep_def codec_simps
        wire_policy_op.vec_from_to wire_cp_cert.from_to)
qed (simp_all add: policy_payload_to_rep policy_payload_profile policy_payload_rep_iff)

lemma ops_unfilled:
  "list_all policy_op_typed vs \<Longrightarrow> \<not> list_all policy_op_filled vs \<Longrightarrow>
    \<exists>ty. rmapM policy_op_from_cbor (map policy_op_to_cbor vs) = Inl (Invalid ty ''list must not be empty'')"
proof (induction vs)
  case (Cons v vs)
  show ?case
  proof (cases "policy_op_filled v")
    case True
    then have "policy_op_from_cbor (policy_op_to_cbor v) = Inr v" using Cons.prems by (intro policy_op_from_to) (simp add: policy_op_rep_iff)
    then show ?thesis using Cons True by auto
  next
    case False
    then show ?thesis using policy_op_unfilled [OF False] by auto
  qed
qed simp

lemma payload_unfilled:
  assumes "policy_payload_typed p" "\<not> policy_payload_filled p"
  shows "\<exists>ty. policy_payload_from_cbor (policy_payload_to_cbor p) = Inl (Invalid ty ''list must not be empty'')"
proof (cases "pp_ops p = []")
  case True
  then show ?thesis
    by (simp add: policy_payload_from_cbor_def policy_payload_to_cbor_def codec_simps wire_cp_cert.from_to vec_from_cbor_def
        vec_to_cbor_def array_def non_empty_def)
next
  case False
  then obtain ty where "rmapM policy_op_from_cbor (map policy_op_to_cbor (pp_ops p)) = Inl (Invalid ty ''list must not be empty'')"
    using assms ops_unfilled by (auto simp: policy_payload_typed_def policy_payload_filled_def)
  then show ?thesis
    by (simp add: policy_payload_from_cbor_def policy_payload_to_cbor_def codec_simps wire_cp_cert.from_to vec_from_cbor_def
        vec_to_cbor_def array_def)
qed

definition policy_payload_to_bytes :: "PolicyPayload \<Rightarrow> CborError + bytes" where
  "policy_payload_to_bytes = to_bytes policy_payload_to_cbor"

definition policy_payload_from_bytes :: "bytes \<Rightarrow> SchemaError + PolicyPayload" where
  "policy_payload_from_bytes = from_bytes policy_payload_from_cbor"

text \<open>C38. Policy payloads, with any mix of the thirteen operations, are encoded, and decoding gives
  the payload back, exactly when it has an operation and no grant in it has an empty list of
  capabilities or folders; otherwise the decoder names an empty list.  The hypothesis is what the Rust
  types guarantee: lists in memory, and texts that are UTF-8.\<close>

theorem policy_payload_round_trip:
  assumes "policy_payload_typed p"
  shows "\<exists>bs. policy_payload_to_bytes p = Inr bs
    \<and> (if policy_payload_filled p then policy_payload_from_bytes bs = Inr p
       else \<exists>ty. policy_payload_from_bytes bs = Inl (Invalid ty ''list must not be empty''))"
proof -
  obtain bs where bs: "encode (policy_payload_to_cbor p) = Inr bs" "decode bs = Inr (policy_payload_to_cbor p)"
    using encodes policy_payload_profile [of 0 p] policy_payload_to_rep [OF assms] by (auto simp: MAX_DEPTH_def)
  have "if policy_payload_filled p then policy_payload_from_cbor (policy_payload_to_cbor p) = Inr p
      else \<exists>ty. policy_payload_from_cbor (policy_payload_to_cbor p) = Inl (Invalid ty ''list must not be empty'')"
    using assms payload_unfilled wire_policy.from_to by (simp add: policy_payload_rep_iff)
  then show ?thesis
    using bs(1) from_bytes_decoded [OF bs(2), of policy_payload_from_cbor]
    by (simp add: policy_payload_to_bytes_def to_bytes_def policy_payload_from_bytes_def)
qed

definition sample_cert :: CpCert where
  "sample_cert = \<lparr>cc_policy_pk = 1, cc_not_before = 0, cc_not_after = 100, cc_root = 2, cc_sig = 3\<rparr>"

definition sample_policy :: PolicyPayload where
  "sample_policy = \<lparr>pp_cert = sample_cert, pp_issued_at = 5,
     pp_ops = [OpMemberSet \<lparr>ms_account = 7, ms_role = Owner\<rparr>, OpDeviceRevoke \<lparr>dr_device = 9\<rparr>]\<rparr>"

theorem policy_payload_round_trip_witness:
  "\<exists>bs. policy_payload_to_bytes sample_policy = Inr bs \<and> policy_payload_from_bytes bs = Inr sample_policy"
  using policy_payload_round_trip [of sample_policy]
  by (simp add: policy_payload_typed_def policy_payload_filled_def sample_policy_def)

end
