(* ===== verification/LogModel.thy ===== *)
theory LogModel
  imports DecodeBudget PolicyWire
begin

text \<open>
  The log service's own state, \<open>log-service/src/model.rs\<close>, with the limits of
  \<open>limits.rs\<close>, the deletion record of \<open>deletion.rs\<close>, the restore plan of
  \<open>restore_plan.rs\<close> (the tuple and its codec), the region of \<open>placement.rs\<close> and the
  principals of \<open>auth.rs\<close>.

  The stored form of a collection row is decoded by code that indexes inner arrays without a
  length check; the panic that follows on a short array is the error \<open>MetaPanic\<close>.
\<close>

subsection \<open>Limits\<close>

definition MIB :: u64 where "MIB = 1024 * 1024"
definition MAX_BATCH_ITEMS :: nat where "MAX_BATCH_ITEMS = 64"
definition MAX_BATCH_BYTES :: u64 where "MAX_BATCH_BYTES = 4 * MIB"
definition MAX_ITEM_BYTES :: u64 where "MAX_ITEM_BYTES = MIB"
definition MAX_REFS_PER_ITEM :: nat where "MAX_REFS_PER_ITEM = 1024"
definition MAX_READ_ITEMS :: u64 where "MAX_READ_ITEMS = 1000"
definition MAX_READ_BYTES :: u64 where "MAX_READ_BYTES = 8 * MIB"
definition MAX_OBJECT_BYTES :: u64 where "MAX_OBJECT_BYTES = 9 * MIB"
definition MAX_INLINE_OBJECT_BYTES :: u64 where "MAX_INLINE_OBJECT_BYTES = MIB"
definition MAX_HAS_OBJECTS :: nat where "MAX_HAS_OBJECTS = 1024"
definition DIRECT_TTL_MS :: i64 where "DIRECT_TTL_MS = 15 * 60 * 1000"
definition OBJECT_GRACE_MS :: i64 where "OBJECT_GRACE_MS = 24 * 60 * 60 * 1000"
definition GC_BATCH_OBJECTS :: u64 where "GC_BATCH_OBJECTS = 1000"
definition TOKEN_RETENTION_MS :: i64 where "TOKEN_RETENTION_MS = 180 * 24 * 60 * 60 * 1000"
definition COMPACTION_GRACE_ENTRIES :: u64 where "COMPACTION_GRACE_ENTRIES = 10000"
definition COMPACTION_MIN_AGE_MS :: i64 where "COMPACTION_MIN_AGE_MS = 7 * 24 * 60 * 60 * 1000"
definition SELF_ENDORSE_AGE_MS :: i64 where "SELF_ENDORSE_AGE_MS = 30 * 24 * 60 * 60 * 1000"
definition RETAINED_SNAPSHOTS :: nat where "RETAINED_SNAPSHOTS = 2"
definition ARCHIVE_SEGMENT_BYTES :: u64 where "ARCHIVE_SEGMENT_BYTES = 8 * MIB"
definition DEFAULT_STORAGE_BYTES :: u64 where "DEFAULT_STORAGE_BYTES = 1024 * MIB"
definition DEFAULT_ITEMS_PER_S :: u64 where "DEFAULT_ITEMS_PER_S = 50"
definition DEFAULT_BYTES_PER_S :: u64 where "DEFAULT_BYTES_PER_S = 4 * MIB"
definition DEFAULT_BURST_ITEMS :: u64 where "DEFAULT_BURST_ITEMS = 500"

subsection \<open>Principals\<close>

datatype Principal =
    Device (pr_id: b16) (pr_sign_pk: b32) (pr_collection: "b16 option")
  | ControlPlane

text \<open>\<open>verify_sig\<close> is strict Ed25519 verification, and \<open>sha256\<close> SHA-256: the
  third-party code the service calls, as a parameter.\<close>

record crypto =
  cr_sha256 :: "bytes \<Rightarrow> b32"
  cr_verify :: "b32 \<Rightarrow> b32 \<Rightarrow> b64 \<Rightarrow> bool"

subsection \<open>Collections\<close>

datatype Status = Live | Gone | Importing

record Quotas =
  qu_storage_bytes :: u64
  qu_items_per_s :: u64
  qu_bytes_per_s :: u64
  qu_burst_items :: u64

definition quotas_default :: Quotas where
  "quotas_default = \<lparr>qu_storage_bytes = DEFAULT_STORAGE_BYTES, qu_items_per_s = DEFAULT_ITEMS_PER_S,
     qu_bytes_per_s = DEFAULT_BYTES_PER_S, qu_burst_items = DEFAULT_BURST_ITEMS\<rparr>"

datatype RetentionTier = Days30 | Days365

fun tier_as_str :: "RetentionTier \<Rightarrow> string" where
  "tier_as_str Days30 = ''30d''"
| "tier_as_str Days365 = ''365d''"

fun tier_days :: "RetentionTier \<Rightarrow> u64" where
  "tier_days Days30 = 30"
| "tier_days Days365 = 365"

definition tier_from_days :: "u64 \<Rightarrow> RetentionTier option" where
  "tier_from_days d = (if d = 30 then Some Days30 else if d = 365 then Some Days365 else None)"

datatype Region = Oc | Apac | Wnam | Enam | Weur

fun region_as_str :: "Region \<Rightarrow> string" where
  "region_as_str Oc = ''oc''"
| "region_as_str Apac = ''apac''"
| "region_as_str Wnam = ''wnam''"
| "region_as_str Enam = ''enam''"
| "region_as_str Weur = ''weur''"

definition region_parse :: "bytes \<Rightarrow> Region option" where
  "region_parse s = find (\<lambda>r. ascii (region_as_str r) = s) [Oc, Apac, Wnam, Enam, Weur]"

record DeletionRecord =
  dl_collection :: b16
  dl_deletion_id :: b16
  dl_lifecycle_epoch :: u64

definition deletion_unavailable :: ServiceError where
  "deletion_unavailable = err_reason CodeUnavailable ''collection_deletion_floor_unavailable''"

definition deletion_validate :: "DeletionRecord \<Rightarrow> ServiceError + DeletionRecord" where
  "deletion_validate r =
    (if dl_collection r = 0 \<or> dl_deletion_id r = 0 \<or> dl_lifecycle_epoch r = 0 then Err deletion_unavailable
     else Ok r)"

definition deletion_to_cbor :: "DeletionRecord \<Rightarrow> Cbor" where
  "deletion_to_cbor r = CArray [Uint 1, b16_to_cbor (dl_collection r), b16_to_cbor (dl_deletion_id r),
     Uint (dl_lifecycle_epoch r)]"

definition deletion_parse :: "Cbor \<Rightarrow> ServiceError + DeletionRecord" where
  "deletion_parse value =
    (case value of
       CArray [v0, v1, v2, v3] \<Rightarrow>
         if v0 \<noteq> Uint 1 then Err deletion_unavailable
         else (case v3 of
           Uint lifecycle_epoch \<Rightarrow>
             rbind (map_err (\<lambda>_. deletion_unavailable) (b16_from_cbor v1)) (\<lambda>collection.
             rbind (map_err (\<lambda>_. deletion_unavailable) (b16_from_cbor v2)) (\<lambda>deletion_id.
             deletion_validate \<lparr>dl_collection = collection, dl_deletion_id = deletion_id,
               dl_lifecycle_epoch = lifecycle_epoch\<rparr>))
         | _ \<Rightarrow> Err deletion_unavailable)
     | _ \<Rightarrow> Err deletion_unavailable)"

definition deletion_conflict :: "DeletionRecord \<Rightarrow> ServiceError" where
  "deletion_conflict r =
    (err_reason CodeForbidden ''collection_deletion_conflict'')\<lparr>se_details := Some (deletion_to_cbor r)\<rparr>"

record RestorePlan =
  rp_used_bytes :: u64
  rp_head :: u64
  rp_chain :: b32
  rp_retained_from :: u64
  rp_items :: b32
  rp_objects :: b32
  rp_snapshots :: b32
  rp_progress :: b32

definition restore_plan_to_cbor :: "RestorePlan \<Rightarrow> Cbor" where
  "restore_plan_to_cbor p = CArray [Uint 1, Uint (rp_used_bytes p), Uint (rp_head p), b32_to_cbor (rp_chain p),
     Uint (rp_retained_from p), b32_to_cbor (rp_items p), b32_to_cbor (rp_objects p), b32_to_cbor (rp_snapshots p)]"

definition restore_plan_parse :: "(bytes \<Rightarrow> b32) \<Rightarrow> Cbor \<Rightarrow> ServiceError + RestorePlan" where
  "restore_plan_parse sha256 value =
    (let bad = err_invalid ''restore_plan'' in
     case value of
       CArray [Uint one, Uint used_bytes, Uint pos, chain, Uint retained_from, items, objects, snapshots] \<Rightarrow>
         if one \<noteq> 1 \<or> pos = 0 \<or> retained_from = 0 \<or> pos = - 1 \<or> retained_from > pos + 1 then Err bad
         else
           rbind (map_err (\<lambda>_. bad) (b32_from_cbor chain)) (\<lambda>chain.
           rbind (map_err (\<lambda>_. bad) (b32_from_cbor items)) (\<lambda>items.
           rbind (map_err (\<lambda>_. bad) (b32_from_cbor objects)) (\<lambda>objects.
           rbind (map_err (\<lambda>_. bad) (b32_from_cbor snapshots)) (\<lambda>snapshots.
           Ok \<lparr>rp_used_bytes = used_bytes, rp_head = pos, rp_chain = chain, rp_retained_from = retained_from,
             rp_items = items, rp_objects = objects, rp_snapshots = snapshots,
             rp_progress = sha256 (ascii ''mdbase-next-backup/1/items'')\<rparr>))))
     | _ \<Rightarrow> Err bad)"

record CollectionMeta =
  cm_id :: b16
  cm_head :: u64
  cm_head_chain :: b32
  cm_epoch :: u64
  cm_rekey_required :: bool
  cm_frozen :: bool
  cm_root :: b16
  cm_owner :: b16
  cm_cstate :: u64
  cm_status :: Status
  cm_last_issued_at :: i64
  cm_revoked_cp_keys :: "(b16, i64) bmap"
  cm_members :: "(b16, u64) bmap"
  cm_cutover :: bool
  cm_retained_from :: u64
  cm_quotas :: Quotas
  cm_used_bytes :: u64
  cm_file_bytes :: "u64 option"
  cm_created_at :: i64
  cm_retention_tier :: RetentionTier
  cm_restore_plan :: "RestorePlan option"
  cm_deletion :: "DeletionRecord option"
  cm_region :: "Region option"

definition meta_new :: "b16 \<Rightarrow> i64 \<Rightarrow> CollectionMeta" where
  "meta_new c now = \<lparr>cm_id = c, cm_head = 0, cm_head_chain = CHAIN_ZERO, cm_epoch = 0,
     cm_rekey_required = False, cm_frozen = False, cm_root = 0, cm_owner = 0, cm_cstate = 0,
     cm_status = Live, cm_last_issued_at = 0x8000000000000000, cm_revoked_cp_keys = [], cm_members = [],
     cm_cutover = False, cm_retained_from = 1, cm_quotas = quotas_default, cm_used_bytes = 0,
     cm_file_bytes = Some 0, cm_created_at = now, cm_retention_tier = Days30, cm_restore_plan = None,
     cm_deletion = None, cm_region = None\<rparr>"

record AclEntry =
  ac_device :: b16
  ac_account :: b16
  ac_kind :: u64
  ac_sign_pk :: b32
  ac_active :: bool

definition HOSTED :: u64 where "HOSTED = 4"
definition ESCROW :: u64 where "ESCROW = 5"
definition RECOVERY :: u64 where "RECOVERY = 6"

record CollectionSt =
  st_meta :: CollectionMeta
  st_acl :: "(b16, AclEntry) bmap"

record StoredItem =
  si_seq :: u64
  si_kind :: u64
  si_bytes :: bytes
  si_appended_at :: i64
  si_token :: "b16 option"
  si_refs :: "b32 list"

record ObjectMeta =
  om_address :: b32
  om_kind :: u64
  om_size :: u64
  om_checksum :: b32
  om_committed :: bool
  om_created_at :: i64

record SnapshotRow =
  sr_seq :: u64
  sr_manifest :: b32
  sr_author :: b16
  sr_created_at :: i64
  sr_endorsed :: bool
  sr_refs :: "b32 list"

subsection \<open>The stored form of a collection row\<close>

fun status_value :: "Status \<Rightarrow> u64" where
  "status_value Live = 0"
| "status_value Gone = 1"
| "status_value Importing = 2"

definition meta_fields :: "CollectionMeta \<Rightarrow> (Cbor \<times> Cbor) list" where
  "meta_fields m =
      req_enc 0 (b16_to_cbor (cm_id m))
    @ req_enc 1 (Uint (cm_head m))
    @ req_enc 2 (b32_to_cbor (cm_head_chain m))
    @ req_enc 3 (Uint (cm_epoch m))
    @ req_enc 4 (CBool (cm_rekey_required m))
    @ req_enc 5 (CBool (cm_frozen m))
    @ req_enc 6 (b16_to_cbor (cm_root m))
    @ req_enc 7 (b16_to_cbor (cm_owner m))
    @ req_enc 8 (Uint (cm_cstate m))
    @ req_enc 9 (Uint (status_value (cm_status m)))
    @ req_enc 10 (cbor_int (cm_last_issued_at m))
    @ req_enc 11 (CArray (map (\<lambda>(k, t). CArray [b16_to_cbor k, cbor_int t]) (cm_revoked_cp_keys m)))
    @ req_enc 12 (CArray (map (\<lambda>(a, r). CArray [b16_to_cbor a, Uint r]) (cm_members m)))
    @ req_enc 13 (CBool (cm_cutover m))
    @ req_enc 14 (Uint (cm_retained_from m))
    @ req_enc 15 (CArray [Uint (qu_storage_bytes (cm_quotas m)), Uint (qu_items_per_s (cm_quotas m)),
        Uint (qu_bytes_per_s (cm_quotas m)), Uint (qu_burst_items (cm_quotas m))])
    @ req_enc 16 (Uint (cm_used_bytes m))
    @ req_enc 17 (cbor_int (cm_created_at m))
    @ req_enc 18 (Uint (tier_days (cm_retention_tier m)))
    @ opt_enc 19 (map_option restore_plan_to_cbor (cm_restore_plan m))
    @ opt_enc 20 (map_option (\<lambda>p. b32_to_cbor (rp_progress p)) (cm_restore_plan m))
    @ opt_enc 21 (map_option deletion_to_cbor (cm_deletion m))
    @ opt_enc 22 (map_option (\<lambda>r. CText (ascii (region_as_str r))) (cm_region m))
    @ opt_enc 23 (map_option Uint (cm_file_bytes m))"

text \<open>\<open>expect("meta encodes")\<close> panics on an error.\<close>

definition meta_encode :: "CollectionMeta \<Rightarrow> CborError + bytes" where
  "meta_encode m = encode (CMap (meta_fields m))"

datatype MetaError = MetaPanic | MetaErr ServiceError

definition bad_meta :: ServiceError where
  "bad_meta = err_backend ''corrupt collection meta''"

definition meta_b16 :: "Cbor \<Rightarrow> ServiceError + b16" where
  "meta_b16 c = (case c of CBytes x \<Rightarrow> if length x = 16 then Ok (of_be x) else Err bad_meta | _ \<Rightarrow> Err bad_meta)"

definition meta_b32 :: "Cbor \<Rightarrow> ServiceError + b32" where
  "meta_b32 c = (case c of CBytes x \<Rightarrow> if length x = 32 then Ok (of_be x) else Err bad_meta | _ \<Rightarrow> Err bad_meta)"

definition meta_get :: "(Cbor \<times> Cbor) list \<Rightarrow> u64 \<Rightarrow> ServiceError + Cbor" where
  "meta_get m k = ok_or (lookup m k) bad_meta"

definition meta_uint :: "(Cbor \<times> Cbor) list \<Rightarrow> u64 \<Rightarrow> ServiceError + u64" where
  "meta_uint m k = rbind (meta_get m k) (\<lambda>c. case c of Uint n \<Rightarrow> Ok n | _ \<Rightarrow> Err bad_meta)"

definition meta_int :: "(Cbor \<times> Cbor) list \<Rightarrow> u64 \<Rightarrow> ServiceError + i64" where
  "meta_int m k = rbind (meta_get m k) (\<lambda>c. ok_or (as_i64 c) bad_meta)"

definition meta_bool :: "(Cbor \<times> Cbor) list \<Rightarrow> u64 \<Rightarrow> ServiceError + bool" where
  "meta_bool m k = rbind (meta_get m k) (\<lambda>c. case c of CBool b \<Rightarrow> Ok b | _ \<Rightarrow> Err bad_meta)"

definition meta_arr :: "(Cbor \<times> Cbor) list \<Rightarrow> u64 \<Rightarrow> ServiceError + Cbor list" where
  "meta_arr m k = rbind (meta_get m k) (\<lambda>c. case c of CArray a \<Rightarrow> Ok a | _ \<Rightarrow> Err bad_meta)"

text \<open>\<open>p[i]\<close> panics out of bounds.\<close>

definition index_p :: "Cbor list \<Rightarrow> nat \<Rightarrow> MetaError + Cbor" where
  "index_p p i = (if i < length p then Ok (p ! i) else Err MetaPanic)"

fun meta_revoked :: "Cbor list \<Rightarrow> (b16, i64) bmap \<Rightarrow> MetaError + (b16, i64) bmap" where
  "meta_revoked [] acc = Ok acc"
| "meta_revoked (e # es) acc =
    (case e of
       CArray p \<Rightarrow>
         rbind (index_p p 0) (\<lambda>p0.
         rbind (map_err MetaErr (meta_b16 p0)) (\<lambda>k.
         rbind (index_p p 1) (\<lambda>p1.
         rbind (map_err MetaErr (ok_or (as_i64 p1) bad_meta)) (\<lambda>t.
         meta_revoked es (bm_insert k t acc)))))
     | _ \<Rightarrow> Err (MetaErr bad_meta))"

fun meta_members :: "Cbor list \<Rightarrow> (b16, u64) bmap \<Rightarrow> MetaError + (b16, u64) bmap" where
  "meta_members [] acc = Ok acc"
| "meta_members (e # es) acc =
    (case e of
       CArray p \<Rightarrow>
         rbind (index_p p 1) (\<lambda>p1.
         case p1 of
           Uint r \<Rightarrow>
             rbind (index_p p 0) (\<lambda>p0.
             rbind (map_err MetaErr (meta_b16 p0)) (\<lambda>a.
             meta_members es (bm_insert a r acc)))
         | _ \<Rightarrow> Err (MetaErr bad_meta))
     | _ \<Rightarrow> Err (MetaErr bad_meta))"

definition meta_quota :: "Cbor list \<Rightarrow> nat \<Rightarrow> ServiceError + u64" where
  "meta_quota q i = (if i < length q then (case q ! i of Uint n \<Rightarrow> Ok n | _ \<Rightarrow> Err bad_meta) else Err bad_meta)"

definition meta_plan :: "(bytes \<Rightarrow> b32) \<Rightarrow> (Cbor \<times> Cbor) list \<Rightarrow> ServiceError + RestorePlan option" where
  "meta_plan sha256 m =
    (case meta_get m 19 of
       Inr value \<Rightarrow>
         rbind (map_err (\<lambda>_. bad_meta) (restore_plan_parse sha256 value)) (\<lambda>plan.
         rbind (meta_get m 20) (\<lambda>c.
         rbind (meta_b32 c) (\<lambda>progress.
         Ok (Some (plan\<lparr>rp_progress := progress\<rparr>)))))
     | Inl _ \<Rightarrow> Ok None)"

definition meta_deletion :: "(Cbor \<times> Cbor) list \<Rightarrow> b16 \<Rightarrow> ServiceError + DeletionRecord option" where
  "meta_deletion m c =
    (case lookup m 21 of
       Some value \<Rightarrow>
         rbind (deletion_parse value) (\<lambda>r.
         if dl_collection r \<noteq> c then Err bad_meta
         else rbind (meta_uint m 9) (\<lambda>s. if s \<noteq> 1 then Err bad_meta else Ok (Some r)))
     | None \<Rightarrow> Ok None)"

definition meta_region :: "(Cbor \<times> Cbor) list \<Rightarrow> ServiceError + Region option" where
  "meta_region m =
    (case lookup m 22 of
       Some (CText t) \<Rightarrow> rbind (ok_or (region_parse t) bad_meta) (\<lambda>r. Ok (Some r))
     | Some _ \<Rightarrow> Err bad_meta
     | None \<Rightarrow> Ok None)"

definition meta_file_bytes :: "(Cbor \<times> Cbor) list \<Rightarrow> ServiceError + u64 option" where
  "meta_file_bytes m =
    (case meta_get m 23 of
       Inr (Uint n) \<Rightarrow> Ok (Some n)
     | Inr _ \<Rightarrow> Err bad_meta
     | Inl _ \<Rightarrow> Ok None)"

definition meta_tier :: "(Cbor \<times> Cbor) list \<Rightarrow> ServiceError + RetentionTier" where
  "meta_tier m =
    (case meta_get m 18 of
       Inr (Uint d) \<Rightarrow> ok_or (tier_from_days d) bad_meta
     | Inr _ \<Rightarrow> Err bad_meta
     | Inl _ \<Rightarrow> Ok Days30)"

definition meta_status :: "(Cbor \<times> Cbor) list \<Rightarrow> ServiceError + Status" where
  "meta_status m = rbind (meta_uint m 9) (\<lambda>s. Ok (if s = 1 then Gone else if s = 2 then Importing else Live))"

definition meta_from_map ::
  "(bytes \<Rightarrow> b32) \<Rightarrow> (Cbor \<times> Cbor) list \<Rightarrow> (b16, i64) bmap \<Rightarrow> (b16, u64) bmap \<Rightarrow> ServiceError + CollectionMeta" where
  "meta_from_map sha256 m revoked members =
    rbind (meta_arr m 15) (\<lambda>q.
    rbind (meta_plan sha256 m) (\<lambda>plan.
    rbind (rbind (meta_get m 0) meta_b16) (\<lambda>id.
    rbind (meta_deletion m id) (\<lambda>deletion.
    rbind (meta_region m) (\<lambda>region.
    rbind (meta_uint m 1) (\<lambda>hd.
    rbind (rbind (meta_get m 2) meta_b32) (\<lambda>chain.
    rbind (meta_uint m 3) (\<lambda>epoch.
    rbind (meta_bool m 4) (\<lambda>rekey_required.
    rbind (meta_bool m 5) (\<lambda>frozen.
    rbind (rbind (meta_get m 6) meta_b16) (\<lambda>root.
    rbind (rbind (meta_get m 7) meta_b16) (\<lambda>owner.
    rbind (meta_uint m 8) (\<lambda>cstate.
    rbind (meta_status m) (\<lambda>status.
    rbind (meta_int m 10) (\<lambda>last_issued_at.
    rbind (meta_bool m 13) (\<lambda>cutover.
    rbind (meta_uint m 14) (\<lambda>retained_from.
    rbind (meta_quota q 0) (\<lambda>q0.
    rbind (meta_quota q 1) (\<lambda>q1.
    rbind (meta_quota q 2) (\<lambda>q2.
    rbind (meta_quota q 3) (\<lambda>q3.
    rbind (meta_uint m 16) (\<lambda>used_bytes.
    rbind (meta_file_bytes m) (\<lambda>file_bytes.
    rbind (meta_int m 17) (\<lambda>created_at.
    rbind (meta_tier m) (\<lambda>tier.
    Ok \<lparr>cm_id = id, cm_head = hd, cm_head_chain = chain, cm_epoch = epoch, cm_rekey_required = rekey_required,
      cm_frozen = frozen, cm_root = root, cm_owner = owner, cm_cstate = cstate, cm_status = status,
      cm_last_issued_at = last_issued_at, cm_revoked_cp_keys = revoked, cm_members = members,
      cm_cutover = cutover, cm_retained_from = retained_from,
      cm_quotas = \<lparr>qu_storage_bytes = q0, qu_items_per_s = q1, qu_bytes_per_s = q2, qu_burst_items = q3\<rparr>,
      cm_used_bytes = used_bytes, cm_file_bytes = file_bytes, cm_created_at = created_at,
      cm_retention_tier = tier, cm_restore_plan = plan, cm_deletion = deletion, cm_region = region\<rparr>)))))))))))))))))))))))))"

definition meta_decode :: "(bytes \<Rightarrow> b32) \<Rightarrow> bytes \<Rightarrow> Usage \<Rightarrow> Usage \<times> (MetaError + CollectionMeta)" where
  "meta_decode sha256 bs u =
    (case budget_raw bs u of
       (u, Inl e) \<Rightarrow> (u, Err (MetaErr (if is_resource_refusal e then e else bad_meta)))
     | (u, Inr (CMap m)) \<Rightarrow>
         (u, rbind (map_err MetaErr (meta_arr m 11)) (\<lambda>es.
             rbind (meta_revoked es []) (\<lambda>revoked.
             rbind (map_err MetaErr (meta_arr m 12)) (\<lambda>ms.
             rbind (meta_members ms []) (\<lambda>members.
             map_err MetaErr (meta_from_map sha256 m revoked members))))))
     | (u, Inr _) \<Rightarrow> (u, Err (MetaErr bad_meta)))"

subsection \<open>Round trip of the stored row\<close>

definition plan_ok :: "RestorePlan \<Rightarrow> bool" where
  "plan_ok p \<longleftrightarrow> rp_head p \<noteq> 0 \<and> rp_retained_from p \<noteq> 0 \<and> rp_head p \<noteq> - 1 \<and> rp_retained_from p \<le> rp_head p + 1"

definition deletion_ok :: "DeletionRecord \<Rightarrow> bool" where
  "deletion_ok r \<longleftrightarrow> dl_collection r \<noteq> 0 \<and> dl_deletion_id r \<noteq> 0 \<and> dl_lifecycle_epoch r \<noteq> 0"

definition meta_ok :: "CollectionMeta \<Rightarrow> bool" where
  "meta_ok m \<longleftrightarrow> bm_ok (cm_revoked_cp_keys m) \<and> bm_ok (cm_members m)
     \<and> length (cm_revoked_cp_keys m) < 2 ^ 64 \<and> length (cm_members m) < 2 ^ 64
     \<and> pred_option plan_ok (cm_restore_plan m)
     \<and> pred_option (\<lambda>r. deletion_ok r \<and> dl_collection r = cm_id m \<and> cm_status m = Gone) (cm_deletion m)"

lemma fold_bm_insert_id: "bm_ok m \<Longrightarrow> fold (\<lambda>(k, v). bm_insert k v) m [] = m"
proof (rule bm_ext)
  assume ok: "bm_ok m"
  show "bm_ok (fold (\<lambda>(k, v). bm_insert k v) m [])"
    by (rule bm.fold_upd_invar) simp
  show "map_of (fold (\<lambda>(k, v). bm_insert k v) m []) = map_of m"
  proof -
    have "map_of (rev m) = map_of m"
      using ok bm_ok_distinct [of m] by (intro map_of_inject_set [THEN iffD2]) (auto simp: rev_map [symmetric])
    then show ?thesis using bm.fold_upd_lookup [of "[]" m] by simp
  qed
qed

lemma meta_b16_to [simp]: "meta_b16 (b16_to_cbor w) = Inr w"
  by (simp add: meta_b16_def fixed_to_cbor_def of_be_full)

lemma meta_b32_to [simp]: "meta_b32 (b32_to_cbor w) = Inr w"
  by (simp add: meta_b32_def fixed_to_cbor_def of_be_full)

lemma meta_revoked_to:
  "meta_revoked (map (\<lambda>(k, t). CArray [b16_to_cbor k, cbor_int t]) ks) acc
    = Inr (fold (\<lambda>(k, v). bm_insert k v) ks acc)"
  by (induction ks arbitrary: acc) (auto simp: index_p_def as_i64_int)

lemma meta_members_to:
  "meta_members (map (\<lambda>(a, r). CArray [b16_to_cbor a, Uint r]) ms) acc
    = Inr (fold (\<lambda>(k, v). bm_insert k v) ms acc)"
  by (induction ms arbitrary: acc) (auto simp: index_p_def)

lemma restore_plan_parse_to:
  "plan_ok p \<Longrightarrow> restore_plan_parse sha256 (restore_plan_to_cbor p)
    = Inr (p\<lparr>rp_progress := sha256 (ascii ''mdbase-next-backup/1/items'')\<rparr>)"
  by (auto simp: restore_plan_parse_def restore_plan_to_cbor_def plan_ok_def Let_def)

lemma deletion_parse_to: "deletion_ok r \<Longrightarrow> deletion_parse (deletion_to_cbor r) = Inr r"
  by (simp add: deletion_parse_def deletion_to_cbor_def deletion_ok_def deletion_validate_def)

lemma region_parse_to: "region_parse (ascii (region_as_str r)) = Some r"
  by (cases r) (simp_all add: region_parse_def)

lemma tier_from_days_to: "tier_from_days (tier_days t) = Some t"
  by (cases t) (simp_all add: tier_from_days_def)

lemma meta_fields_lookup:
  "lookup (meta_fields m) 0 = Some (b16_to_cbor (cm_id m))"
  "lookup (meta_fields m) 1 = Some (Uint (cm_head m))"
  "lookup (meta_fields m) 2 = Some (b32_to_cbor (cm_head_chain m))"
  "lookup (meta_fields m) 3 = Some (Uint (cm_epoch m))"
  "lookup (meta_fields m) 4 = Some (CBool (cm_rekey_required m))"
  "lookup (meta_fields m) 5 = Some (CBool (cm_frozen m))"
  "lookup (meta_fields m) 6 = Some (b16_to_cbor (cm_root m))"
  "lookup (meta_fields m) 7 = Some (b16_to_cbor (cm_owner m))"
  "lookup (meta_fields m) 8 = Some (Uint (cm_cstate m))"
  "lookup (meta_fields m) 9 = Some (Uint (status_value (cm_status m)))"
  "lookup (meta_fields m) 10 = Some (cbor_int (cm_last_issued_at m))"
  "lookup (meta_fields m) 11 = Some (CArray (map (\<lambda>(k, t). CArray [b16_to_cbor k, cbor_int t]) (cm_revoked_cp_keys m)))"
  "lookup (meta_fields m) 12 = Some (CArray (map (\<lambda>(a, r). CArray [b16_to_cbor a, Uint r]) (cm_members m)))"
  "lookup (meta_fields m) 13 = Some (CBool (cm_cutover m))"
  "lookup (meta_fields m) 14 = Some (Uint (cm_retained_from m))"
  "lookup (meta_fields m) 15 = Some (CArray [Uint (qu_storage_bytes (cm_quotas m)), Uint (qu_items_per_s (cm_quotas m)),
        Uint (qu_bytes_per_s (cm_quotas m)), Uint (qu_burst_items (cm_quotas m))])"
  "lookup (meta_fields m) 16 = Some (Uint (cm_used_bytes m))"
  "lookup (meta_fields m) 17 = Some (cbor_int (cm_created_at m))"
  "lookup (meta_fields m) 18 = Some (Uint (tier_days (cm_retention_tier m)))"
  "lookup (meta_fields m) 19 = map_option restore_plan_to_cbor (cm_restore_plan m)"
  "lookup (meta_fields m) 20 = map_option (\<lambda>p. b32_to_cbor (rp_progress p)) (cm_restore_plan m)"
  "lookup (meta_fields m) 21 = map_option deletion_to_cbor (cm_deletion m)"
  "lookup (meta_fields m) 22 = map_option (\<lambda>r. CText (ascii (region_as_str r))) (cm_region m)"
  "lookup (meta_fields m) 23 = map_option Uint (cm_file_bytes m)"
  by (simp_all add: meta_fields_def)

lemma meta_parts:
  assumes "meta_ok m"
  shows "meta_plan sha256 (meta_fields m) = Inr (cm_restore_plan m)"
    and "meta_deletion (meta_fields m) (cm_id m) = Inr (cm_deletion m)"
    and "meta_region (meta_fields m) = Inr (cm_region m)"
    and "meta_file_bytes (meta_fields m) = Inr (cm_file_bytes m)"
    and "meta_tier (meta_fields m) = Inr (cm_retention_tier m)"
    and "meta_status (meta_fields m) = Inr (cm_status m)"
proof -
  show "meta_plan sha256 (meta_fields m) = Inr (cm_restore_plan m)"
    using assms by (cases "cm_restore_plan m")
      (simp_all add: meta_plan_def meta_get_def meta_fields_lookup meta_ok_def restore_plan_parse_to)
  show "meta_deletion (meta_fields m) (cm_id m) = Inr (cm_deletion m)"
    using assms by (cases "cm_deletion m")
      (simp_all add: meta_deletion_def meta_get_def meta_uint_def meta_fields_lookup meta_ok_def deletion_parse_to)
  show "meta_region (meta_fields m) = Inr (cm_region m)"
    by (cases "cm_region m") (simp_all add: meta_region_def meta_fields_lookup region_parse_to)
  show "meta_file_bytes (meta_fields m) = Inr (cm_file_bytes m)"
    by (cases "cm_file_bytes m") (simp_all add: meta_file_bytes_def meta_get_def meta_fields_lookup)
  show "meta_tier (meta_fields m) = Inr (cm_retention_tier m)"
    by (simp add: meta_tier_def meta_get_def meta_fields_lookup tier_from_days_to)
  show "meta_status (meta_fields m) = Inr (cm_status m)"
    by (cases "cm_status m") (simp_all add: meta_status_def meta_uint_def meta_get_def meta_fields_lookup)
qed

lemma meta_from_map_to:
  "meta_ok m \<Longrightarrow> meta_from_map sha256 (meta_fields m) (cm_revoked_cp_keys m) (cm_members m) = Inr m"
  by (simp add: meta_from_map_def meta_arr_def meta_get_def meta_uint_def meta_int_def meta_bool_def
      meta_quota_def meta_fields_lookup meta_parts as_i64_int)

lemma meta_fields_rep: "meta_ok m \<Longrightarrow> cbor_rep (CMap (meta_fields m))"
proof (rule struct_rep)
  show "length (meta_fields m) \<le> 64"
    by (simp add: meta_fields_def req_enc_def opt_enc_def split: option.split)
  assume "meta_ok m"
  moreover have "length (ascii (region_as_str r)) < 2 ^ 64 \<and> utf8_valid (ascii (region_as_str r))" for r
    by (cases r) (auto simp: ascii_def ascii_only_def intro!: ascii_utf8)
  ultimately show "list_all (\<lambda>(k, v). cbor_rep k \<and> cbor_rep v) (meta_fields m)"
    by (auto simp: meta_fields_def meta_ok_def pred_option_def option.set_map restore_plan_to_cbor_def
        deletion_to_cbor_def)
qed

lemma meta_encodes: "\<exists>bs. meta_encode m = Inr bs"
proof -
  have "in_profile 0 (CMap (meta_fields m))"
  proof (rule in_profile_struct)
    show "ascending 0 (meta_fields m)"
      unfolding meta_fields_def by (intro ascending_intros) simp_all
    show "list_all (in_profile (0 + 1)) (map snd (meta_fields m))"
      by (auto simp: meta_fields_def MAX_DEPTH_def pred_option_def option.set_map restore_plan_to_cbor_def
          deletion_to_cbor_def)
  qed (simp add: MAX_DEPTH_def)
  then show ?thesis using encode_Ok_iff(1) [of "CMap (meta_fields m)" 0] by (simp add: meta_encode_def encode_def)
qed

text \<open>Within the decode budget, the stored bytes of a well-formed collection row decode to the
  same row.  (\<open>meta_encodes\<close>: the bytes always exist, so the \<open>expect\<close> of
  \<open>encode\<close> never panics.)\<close>

theorem meta_round_trip:
  assumes "meta_ok m" "meta_encode m = Inr bs"
    and "length bs \<le> MAX_BYTES" "us_work_bytes u + length bs \<le> MAX_WORK_BYTES"
    and "us_nodes u + cbor_nodes (CMap (meta_fields m)) \<le> MAX_NODES"
  shows "snd (meta_decode sha256 bs u) = Inr m"
proof -
  have "decode bs = Inr (CMap (meta_fields m))"
    using meta_fields_rep [OF assms(1)] assms(2) by (simp add: decode_iff meta_encode_def)
  from budget_raw_complete [OF this assms(3-5)]
  obtain u' where "budget_raw bs u = (u', Inr (CMap (meta_fields m)))"
    by (metis prod.collapse)
  with assms(1) show ?thesis
    by (simp add: meta_decode_def meta_arr_def meta_get_def meta_fields_lookup meta_revoked_to meta_members_to
        fold_bm_insert_id meta_ok_def meta_from_map_to [unfolded meta_ok_def])
qed

definition sample_meta :: CollectionMeta where
  "sample_meta = (meta_new 7 42)\<lparr>cm_members := [(1, 2)], cm_revoked_cp_keys := [(2, - 5)], cm_head := 9\<rparr>"

theorem meta_round_trip_witness:
  "snd (meta_decode (\<lambda>_. 0) (projr (meta_encode sample_meta)) budget_default) = Inr sample_meta"
proof (rule meta_round_trip)
  show "meta_encode sample_meta = Inr (projr (meta_encode sample_meta))"
    using meta_encodes [of sample_meta] by auto
  have [simp]: "\<not> (2 :: u64) \<le> 1" by (simp add: word_le_nat_alt)
  have len: "length (projr (meta_encode sample_meta)) \<le> 1000"
    by (simp add: meta_encode_def encode_def encode_into.simps meta_fields_def sample_meta_def meta_new_def
        req_enc_def opt_enc_def fixed_to_cbor_def cbor_int_def head_def check_map_def quotas_default_def
        DEFAULT_STORAGE_BYTES_def DEFAULT_ITEMS_PER_S_def DEFAULT_BYTES_PER_S_def DEFAULT_BURST_ITEMS_def
        MIB_def MAX_DEPTH_def)
  then show "length (projr (meta_encode sample_meta)) \<le> MAX_BYTES"
    "us_work_bytes budget_default + length (projr (meta_encode sample_meta)) \<le> MAX_WORK_BYTES"
    by (simp_all add: MAX_BYTES_def MAX_WORK_BYTES_def budget_default_def)
qed (simp_all add: meta_ok_def sample_meta_def meta_new_def bm_ok_Cons budget_default_def meta_fields_def
      req_enc_def opt_enc_def fixed_to_cbor_def cbor_int_def MAX_NODES_def)

text \<open>A stored row whose list of revoked keys has an empty inner array panics the decoder: the
  inner arrays are indexed without a length check, where every other malformed field gives the
  error "corrupt collection meta".\<close>

theorem meta_short_pair_panics:
  "meta_revoked (CArray [] # es) acc = Inl MetaPanic \<and> meta_members (CArray [c] # es') acc' = Inl MetaPanic"
  by (simp_all add: index_p_def)

end
