(* ===== verification/LogPolicy.thy ===== *)
theory LogPolicy
  imports LogModel
begin

text \<open>
  Policy items at the transport, \<open>log-service/src/policy.rs\<close>: the signature chain of a policy
  item, the validation and the transport effects of its operations, and the effect of a rekey
  item.  The state is the loaded collection (row and device list); an operation that fails
  returns the error only, because every caller works on a copy it then drops.
\<close>

subsection \<open>Signatures\<close>

definition key_id :: "crypto \<Rightarrow> b32 \<Rightarrow> b16" where
  "key_id cr pk = of_be (take 16 (be_bytes 32 (cr_sha256 cr (be_bytes 32 pk))))"

definition bad_sig :: "string \<Rightarrow> ServiceError" where
  "bad_sig m = err_msg (err_invalid ''signature'') m"

definition bad_policy :: "string \<Rightarrow> ServiceError" where
  "bad_policy m = err_msg (err_invalid ''policy'') m"

definition verify_policy_crypto ::
  "crypto \<Rightarrow> Item \<Rightarrow> PolicyPayload \<Rightarrow> b16 \<Rightarrow> b32 list \<Rightarrow> ServiceError + b32" where
  "verify_policy_crypto cr itm payload root roots =
    rbind (ok_or (find (\<lambda>pk. key_id cr pk = root) roots) (bad_sig ''root key not in the pinned set'')) (\<lambda>root_pk.
    let cert = pp_cert payload in
    rbind (ensure (cc_root cert = root) (bad_sig ''certificate root'')) (\<lambda>_.
    rbind (map_err (\<lambda>_. err_invalid ''shape'') (cp_cert_signed_digest (cr_sha256 cr) cert)) (\<lambda>cert_digest.
    rbind (ensure (cr_verify cr root_pk cert_digest (cc_sig cert)) (bad_sig ''certificate signature'')) (\<lambda>_.
    let kid = key_id cr (cc_policy_pk cert) in
    rbind (ensure (it_signer itm = Some kid) (bad_sig ''signer is not the certified policy key'')) (\<lambda>_.
    rbind (map_err (\<lambda>_. err_invalid ''shape'') (item_signed_digest (cr_sha256 cr) itm)) (\<lambda>digest.
    rbind (ok_or (it_sig itm) (bad_sig ''unsigned'')) (\<lambda>sig.
    rbind (ensure (cr_verify cr (cc_policy_pk cert) digest sig) (bad_sig ''item signature'')) (\<lambda>_.
    rbind (ensure (cc_not_before cert \<le>s pp_issued_at payload \<and> pp_issued_at payload \<le>s cc_not_after cert)
      (bad_sig ''issued outside the certificate window'')) (\<lambda>_.
    Ok root_pk)))))))))"

subsection \<open>Operations\<close>

definition is_only_owner :: "CollectionSt \<Rightarrow> b16 \<Rightarrow> bool" where
  "is_only_owner st account \<longleftrightarrow>
    map_of (cm_members (st_meta st)) account = Some 2 \<and>
    length (filter (\<lambda>(_, r). r = 2) (cm_members (st_meta st))) = 1"

text \<open>The state, the devices revoked so far and the deferred end-to-end check.\<close>

type_synonym policy_acc = "CollectionSt \<times> b16 list \<times> bool"

definition set_meta :: "(CollectionMeta \<Rightarrow> CollectionMeta) \<Rightarrow> CollectionSt \<Rightarrow> CollectionSt" where
  "set_meta f st = st\<lparr>st_meta := f (st_meta st)\<rparr>"

definition set_acl :: "((b16, AclEntry) bmap \<Rightarrow> (b16, AclEntry) bmap) \<Rightarrow> CollectionSt \<Rightarrow> CollectionSt" where
  "set_acl f st = st\<lparr>st_acl := f (st_acl st)\<rparr>"

definition op_genesis :: "u64 \<Rightarrow> nat \<Rightarrow> Genesis \<Rightarrow> policy_acc \<Rightarrow> ServiceError + policy_acc" where
  "op_genesis seq i g = (\<lambda>(st, revoked, check_e2e).
    if seq \<noteq> 1 \<or> i \<noteq> 0 then Err (bad_policy ''genesis only at position 1'')
    else Ok (set_meta (\<lambda>m. m\<lparr>cm_root := gn_root g, cm_owner := gn_owner g,
           cm_cstate := cstate_value (gn_state g), cm_members := bm_insert (gn_owner g) 2 (cm_members m)\<rparr>) st,
         revoked, check_e2e))"

definition op_device_enrol :: "DeviceEnrol \<Rightarrow> policy_acc \<Rightarrow> ServiceError + policy_acc" where
  "op_device_enrol d = (\<lambda>(st, revoked, check_e2e).
    if bm_mem (de_device d) (st_acl st) then Err (bad_policy ''device already enrolled'')
    else
      let k = device_kind_value (de_kind d);
          service = (k = HOSTED \<or> k = ESCROW);
          ok = (if de_account d = 0 then service
                else \<not> service \<and> bm_mem (de_account d) (cm_members (st_meta st))) in
      if \<not> ok then Err (bad_policy ''device account is not a member'')
      else Ok (set_acl (bm_insert (de_device d)
             \<lparr>ac_device = de_device d, ac_account = de_account d, ac_kind = k, ac_sign_pk = de_sign_pk d,
               ac_active = True\<rparr>) st, revoked, check_e2e))"

definition op_device_revoke :: "DeviceRevoke \<Rightarrow> policy_acc \<Rightarrow> ServiceError + policy_acc" where
  "op_device_revoke d = (\<lambda>(st, revoked, check_e2e).
    case map_of (st_acl st) (dr_device d) of
      Some e \<Rightarrow>
        if \<not> ac_active e then Err (bad_policy ''device not active'')
        else Ok (set_meta (\<lambda>m. m\<lparr>cm_rekey_required := True\<rparr>)
               (set_acl (bm_insert (dr_device d) (e\<lparr>ac_active := False\<rparr>)) st),
             revoked @ [dr_device d], check_e2e)
    | None \<Rightarrow> Err (bad_policy ''device not active''))"

definition op_member_set :: "MemberSet \<Rightarrow> policy_acc \<Rightarrow> ServiceError + policy_acc" where
  "op_member_set m = (\<lambda>(st, revoked, check_e2e).
    let role = role_value (ms_role m) in
    if role < 2 \<and> is_only_owner st (ms_account m) then Err (bad_policy ''cannot demote the only owner'')
    else Ok (set_meta (\<lambda>mt. mt\<lparr>cm_members := bm_insert (ms_account m) role (cm_members mt)\<rparr>) st, revoked, check_e2e))"

definition op_member_remove :: "MemberRemove \<Rightarrow> policy_acc \<Rightarrow> ServiceError + policy_acc" where
  "op_member_remove m = (\<lambda>(st, revoked, check_e2e).
    if \<not> bm_mem (mr_account m) (cm_members (st_meta st)) then Err (bad_policy ''not a member'')
    else if is_only_owner st (mr_account m) then Err (bad_policy ''cannot remove the only owner'')
    else
      let st = set_meta (\<lambda>mt. mt\<lparr>cm_members := bm_remove (mr_account m) (cm_members mt)\<rparr>) st;
          hit = (\<lambda>e. ac_account e = mr_account m \<and> ac_active e);
          gone = map ac_device (filter hit (map snd (st_acl st)));
          st = set_acl (map (\<lambda>(k, e). (k, if hit e then e\<lparr>ac_active := False\<rparr> else e))) st in
      Ok (set_meta (\<lambda>mt. mt\<lparr>cm_rekey_required := True\<rparr>) st, revoked @ gone, check_e2e))"

definition op_collection_state :: "CollectionState \<Rightarrow> policy_acc \<Rightarrow> ServiceError + policy_acc" where
  "op_collection_state c = (\<lambda>(st, revoked, check_e2e).
    let to = cstate_value (cs_state c) in
    if to = 1 \<and> \<not> list_ex (\<lambda>(_, e). ac_active e \<and> ac_kind e = ESCROW) (st_acl st) then
      Err (bad_policy ''cloud-copy needs an enrolled escrow'')
    else Ok (set_meta (\<lambda>m. m\<lparr>cm_cstate := to\<rparr>) st, revoked, if to = 1 then check_e2e else True))"

definition cp_key_revoke_digest_of :: "crypto \<Rightarrow> bytes \<Rightarrow> b32" where
  "cp_key_revoke_digest_of cr canonical = h (cr_sha256 cr) ''mdbase/v1/cp-key-revoke'' canonical"

definition op_cp_key_revoke :: "crypto \<Rightarrow> b32 \<Rightarrow> CpKeyRevoke \<Rightarrow> policy_acc \<Rightarrow> ServiceError + policy_acc" where
  "op_cp_key_revoke cr root_pk r = (\<lambda>(st, revoked, check_e2e).
    rbind (map_err (\<lambda>_. err_invalid ''shape'')
      (encode (CArray [CBytes (be_bytes 16 (kr_key_id r)), cbor_int (kr_revoked_from r)]))) (\<lambda>msg.
    if \<not> cr_verify cr root_pk (cp_key_revoke_digest_of cr msg) (kr_root_sig r) then
      Err (bad_sig ''cp-key-revoke root signature'')
    else Ok (set_meta (\<lambda>m. m\<lparr>cm_revoked_cp_keys := bm_insert (kr_key_id r) (kr_revoked_from r) (cm_revoked_cp_keys m)\<rparr>) st,
         revoked, check_e2e)))"

definition op_migration_cutover :: "policy_acc \<Rightarrow> ServiceError + policy_acc" where
  "op_migration_cutover = (\<lambda>(st, revoked, check_e2e).
    if cm_cutover (st_meta st) then Err (bad_policy ''migration-cutover at most once'')
    else Ok (set_meta (\<lambda>m. m\<lparr>cm_cutover := True\<rparr>) st, revoked, check_e2e))"

definition op_freeze :: "Freeze \<Rightarrow> policy_acc \<Rightarrow> ServiceError + policy_acc" where
  "op_freeze f = (\<lambda>(st, revoked, check_e2e).
    Ok (set_meta (\<lambda>m. m\<lparr>cm_frozen := fz_frozen f\<rparr>) st, revoked, check_e2e))"

definition op_root_handover ::
  "crypto \<Rightarrow> Item \<Rightarrow> u64 \<Rightarrow> b32 list \<Rightarrow> RootHandover \<Rightarrow> policy_acc \<Rightarrow> ServiceError + policy_acc" where
  "op_root_handover cr itm seq roots r = (\<lambda>(st, revoked, check_e2e).
    case map_of (st_acl st) (rh_owner_device r) of
      Some e \<Rightarrow>
        if \<not> (ac_active e \<and> map_of (cm_members (st_meta st)) (ac_account e) = Some 2) then
          Err (bad_policy ''root-handover: owner_device is not an active owner device'')
        else
          let d = consent_digest (cr_sha256 cr) r (it_collection itm) seq in
          if \<not> cr_verify cr (ac_sign_pk e) d (rh_consent r) then Err (bad_sig ''root-handover consent'')
          else if rh_new_root r \<notin> set roots then
            Err (bad_policy ''root-handover: target is not a pinned root'')
          else Ok (set_meta (\<lambda>m. m\<lparr>cm_root := key_id cr (rh_new_root r)\<rparr>) st, revoked, check_e2e)
    | None \<Rightarrow> Err (bad_policy ''root-handover: owner_device is not an active owner device''))"

definition apply_op ::
  "crypto \<Rightarrow> Item \<Rightarrow> u64 \<Rightarrow> b32 list \<Rightarrow> b32 \<Rightarrow> nat \<Rightarrow> PolicyOp \<Rightarrow> policy_acc \<Rightarrow> ServiceError + policy_acc" where
  "apply_op cr itm seq roots root_pk i op acc =
    (case op of
       OpGenesis g \<Rightarrow> op_genesis seq i g acc
     | OpDeviceEnrol d \<Rightarrow> op_device_enrol d acc
     | OpDeviceRevoke d \<Rightarrow> op_device_revoke d acc
     | OpMemberSet m \<Rightarrow> op_member_set m acc
     | OpMemberRemove m \<Rightarrow> op_member_remove m acc
     | OpGrant _ \<Rightarrow> Ok acc
     | OpGrantRevoke _ \<Rightarrow> Ok acc
     | OpApprovalRequest _ \<Rightarrow> Ok acc
     | OpCollectionState c \<Rightarrow> op_collection_state c acc
     | OpCpKeyRevoke r \<Rightarrow> op_cp_key_revoke cr root_pk r acc
     | OpMigrationCutover _ \<Rightarrow> op_migration_cutover acc
     | OpFreeze f \<Rightarrow> op_freeze f acc
     | OpRootHandover r \<Rightarrow> op_root_handover cr itm seq roots r acc)"

fun apply_ops ::
  "crypto \<Rightarrow> Item \<Rightarrow> u64 \<Rightarrow> b32 list \<Rightarrow> b32 \<Rightarrow> nat \<Rightarrow> PolicyOp list \<Rightarrow> policy_acc \<Rightarrow> ServiceError + policy_acc" where
  "apply_ops cr itm seq roots root_pk i [] acc = Ok acc"
| "apply_ops cr itm seq roots root_pk i (op # ops) acc =
    rbind (apply_op cr itm seq roots root_pk i op acc) (apply_ops cr itm seq roots root_pk (i + 1) ops)"

fun is_genesis :: "PolicyOp \<Rightarrow> bool" where
  "is_genesis (OpGenesis _) = True"
| "is_genesis _ = False"

definition governing_root :: "CollectionSt \<Rightarrow> u64 \<Rightarrow> PolicyPayload \<Rightarrow> ServiceError + b16" where
  "governing_root st seq payload =
    (if seq = 1 then
       (case pp_ops payload of
          OpGenesis g # _ \<Rightarrow> Ok (gn_root g)
        | _ \<Rightarrow> Err (bad_policy ''the item at position 1 must start with genesis''))
     else Ok (cm_root (st_meta st)))"

definition apply_policy_payload ::
  "crypto \<Rightarrow> CollectionSt \<Rightarrow> Item \<Rightarrow> u64 \<Rightarrow> b32 list \<Rightarrow> PolicyPayload \<Rightarrow> ServiceError + CollectionSt \<times> b16 list" where
  "apply_policy_payload cr st itm seq roots payload =
    rbind (governing_root st seq payload) (\<lambda>root.
    rbind (verify_policy_crypto cr itm payload root roots) (\<lambda>root_pk.
    let kid = key_id cr (cc_policy_pk (pp_cert payload)) in
    if pp_issued_at payload <s cm_last_issued_at (st_meta st) then Err (bad_sig ''issued_at is not monotonic'')
    else if (case map_of (cm_revoked_cp_keys (st_meta st)) kid of
               Some t \<Rightarrow> t \<le>s pp_issued_at payload | None \<Rightarrow> False) then Err (bad_sig ''policy key revoked'')
    else
      rbind (apply_ops cr itm seq roots root_pk 0 (pp_ops payload) (st, [], False)) (\<lambda>(st, revoked, check_e2e).
      if seq = 1 \<and> \<not> (pp_ops payload \<noteq> [] \<and> is_genesis (hd (pp_ops payload))) then
        Err (bad_policy ''position 1 must be genesis'')
      else if check_e2e \<and>
          list_ex (\<lambda>(_, e). ac_active e \<and> (ac_kind e = ESCROW \<or> ac_kind e = HOSTED)) (st_acl st) then
        Err (bad_policy ''e2e with active hosted or escrow devices'')
      else Ok (set_meta (\<lambda>m. m\<lparr>cm_last_issued_at := pp_issued_at payload\<rparr>) st, revoked))))"

definition apply_policy_with_budget ::
  "crypto \<Rightarrow> CollectionSt \<Rightarrow> Item \<Rightarrow> u64 \<Rightarrow> b32 list \<Rightarrow> Usage \<Rightarrow> Usage \<times> (ServiceError + CollectionSt \<times> b16 list)" where
  "apply_policy_with_budget cr st itm seq roots u =
    (case budget_wire policy_payload_from_cbor (it_body itm) u of
       (u, r) \<Rightarrow> (u, rbind r (apply_policy_payload cr st itm seq roots)))"

definition apply_rekey_payload :: "CollectionSt \<Rightarrow> RekeyPayload \<Rightarrow> ServiceError + CollectionSt" where
  "apply_rekey_payload st p =
    (if rk_from p \<noteq> cm_epoch (st_meta st) \<or> rk_epoch p \<noteq> rk_from p + 1 then
       Err (err_msg (err_invalid ''epoch'') ''rekey from/epoch'')
     else if \<not> list_all (\<lambda>w. case map_of (st_acl st) (kw_device w) of Some e \<Rightarrow> ac_active e | None \<Rightarrow> False) (rk_wraps p) then
       Err (err_msg (err_invalid ''policy'') ''rekey wraps a non-active device'')
     else Ok (set_meta (\<lambda>m. m\<lparr>cm_epoch := rk_epoch p, cm_rekey_required := False\<rparr>) st))"

definition apply_rekey_with_budget ::
  "CollectionSt \<Rightarrow> Item \<Rightarrow> Usage \<Rightarrow> Usage \<times> (ServiceError + CollectionSt)" where
  "apply_rekey_with_budget st itm u =
    (case budget_wire rekey_payload_from_cbor (it_body itm) u of
       (u, r) \<Rightarrow> (u, rbind r (apply_rekey_payload st)))"

subsection \<open>Relations every operation respects\<close>

lemmas op_defs = op_genesis_def op_device_enrol_def op_device_revoke_def op_member_set_def
  op_member_remove_def op_collection_state_def op_cp_key_revoke_def op_migration_cutover_def op_freeze_def
  op_root_handover_def

text \<open>A preorder on states that holds across every operation holds across a policy item.\<close>

locale policy_relation =
  fixes R :: "CollectionSt \<times> b16 list \<Rightarrow> CollectionSt \<times> b16 list \<Rightarrow> bool"
  assumes reflexive: "R a a"
    and transitive: "R a b \<Longrightarrow> R b c \<Longrightarrow> R a c"
    and step: "apply_op cr it seq roots root_pk i op (st, rv, e) = Inr (st', rv', e') \<Longrightarrow> R (st, rv) (st', rv')"
    and issue: "R (st, rv) (set_meta (\<lambda>m. m\<lparr>cm_last_issued_at := t\<rparr>) st, rv)"
begin

lemma apply_ops_R:
  "apply_ops cr it seq roots root_pk i ops (st, rv, e) = Inr (st', rv', e') \<Longrightarrow> R (st, rv) (st', rv')"
proof (induction ops arbitrary: i st rv e)
  case (Cons op ops)
  then obtain st1 rv1 e1 where 1: "apply_op cr it seq roots root_pk i op (st, rv, e) = Inr (st1, rv1, e1)"
    "apply_ops cr it seq roots root_pk (i + 1) ops (st1, rv1, e1) = Inr (st', rv', e')"
    by (auto simp: res_simps)
  then show ?case using transitive [OF step [OF 1(1)] Cons.IH [OF 1(2)]] by simp
qed (simp add: reflexive)

lemma apply_policy_R:
  "apply_policy_payload cr st it seq roots payload = Inr (st', rv) \<Longrightarrow> R (st, []) (st', rv)"
  by (auto simp: apply_policy_payload_def res_simps Let_def split: if_splits option.splits
      dest!: apply_ops_R intro: transitive [OF _ issue])

end

text \<open>Well-formed device lists: sorted, and keyed by the device.\<close>

definition acl_ok :: "(b16, AclEntry) bmap \<Rightarrow> bool" where
  "acl_ok acl \<longleftrightarrow> bm_ok acl \<and> (\<forall>d e. map_of acl d = Some e \<longrightarrow> ac_device e = d)"

definition state_ok :: "CollectionSt \<Rightarrow> bool" where
  "state_ok st \<longleftrightarrow> acl_ok (st_acl st) \<and> bm_ok (cm_members (st_meta st)) \<and> bm_ok (cm_revoked_cp_keys (st_meta st))"

lemma map_of_map_acl: "map_of (map (\<lambda>(k, e). (k, f e)) acl) d = map_option f (map_of acl d)"
  by (induction acl) auto

lemma acl_ok_upd: "acl_ok acl \<Longrightarrow> ac_device e = d \<Longrightarrow> acl_ok (bm_insert d e acl)"
  by (auto simp: acl_ok_def)

lemma acl_ok_map: "acl_ok acl \<Longrightarrow> (\<And>e. ac_device (f e) = ac_device e) \<Longrightarrow> acl_ok (map (\<lambda>(k, e). (k, f e)) acl)"
  by (auto simp: acl_ok_def map_of_map_acl)

text \<open>No policy touches the log position, the epoch, the quotas or the accounting.\<close>

definition frame_rel :: "CollectionSt \<times> b16 list \<Rightarrow> CollectionSt \<times> b16 list \<Rightarrow> bool" where
  "frame_rel a b \<longleftrightarrow> (let m = st_meta (fst a); n = st_meta (fst b) in
     cm_id n = cm_id m \<and> cm_head n = cm_head m \<and> cm_head_chain n = cm_head_chain m \<and> cm_epoch n = cm_epoch m
     \<and> cm_status n = cm_status m \<and> cm_retained_from n = cm_retained_from m \<and> cm_quotas n = cm_quotas m
     \<and> cm_used_bytes n = cm_used_bytes m \<and> cm_file_bytes n = cm_file_bytes m \<and> cm_created_at n = cm_created_at m
     \<and> cm_retention_tier n = cm_retention_tier m \<and> cm_restore_plan n = cm_restore_plan m
     \<and> cm_deletion n = cm_deletion m \<and> cm_region n = cm_region m \<and> (cm_cutover m \<longrightarrow> cm_cutover n))"

interpretation frame: policy_relation frame_rel
proof
  fix cr it seq roots root_pk i op st rv e st' rv' e'
  assume "apply_op cr it seq roots root_pk i op (st, rv, e) = Inr (st', rv', e')"
  then show "frame_rel (st, rv) (st', rv')"
    by (cases op) (auto simp: apply_op_def op_defs frame_rel_def set_meta_def set_acl_def Let_def res_simps
        split: if_splits option.splits)
qed (auto simp: frame_rel_def set_meta_def Let_def)

text \<open>Devices are never forgotten, re-keyed or reactivated.\<close>

definition acl_rel :: "CollectionSt \<times> b16 list \<Rightarrow> CollectionSt \<times> b16 list \<Rightarrow> bool" where
  "acl_rel a b \<longleftrightarrow> (state_ok (fst a) \<longrightarrow> state_ok (fst b) \<and>
     (\<forall>d e. map_of (st_acl (fst a)) d = Some e \<longrightarrow>
       (\<exists>e'. map_of (st_acl (fst b)) d = Some e' \<and> (e' = e \<or> e' = e\<lparr>ac_active := False\<rparr>))))"

lemma acl_rel_trans: "acl_rel a b \<Longrightarrow> acl_rel b c \<Longrightarrow> acl_rel a c"
  unfolding acl_rel_def by (fastforce)

interpretation acl: policy_relation acl_rel
proof
  fix cr it seq roots root_pk i op st rv e st' rv' e'
  assume "apply_op cr it seq roots root_pk i op (st, rv, e) = Inr (st', rv', e')"
  then show "acl_rel (st, rv) (st', rv')"
    by (cases op) (auto simp: apply_op_def op_defs acl_rel_def set_meta_def set_acl_def Let_def res_simps state_ok_def
        map_of_map_acl acl_ok_upd acl_ok_map acl_ok_def split: if_splits option.splits)
next
  fix a b c assume "acl_rel a b" "acl_rel b c"
  then show "acl_rel a c" by (rule acl_rel_trans)
qed (auto simp: acl_rel_def set_meta_def state_ok_def)

text \<open>Every revocation asks for a new key epoch, and the devices that are revoked are reported, each
  once, and no others.\<close>

definition revoked_in :: "CollectionSt \<Rightarrow> b16 \<Rightarrow> bool" where
  "revoked_in st d \<longleftrightarrow> (\<exists>e. map_of (st_acl st) d = Some e \<and> \<not> ac_active e)"

definition revoke_rel :: "CollectionSt \<times> b16 list \<Rightarrow> CollectionSt \<times> b16 list \<Rightarrow> bool" where
  "revoke_rel a b \<longleftrightarrow> (\<exists>ext. snd b = snd a @ ext
     \<and> (ext \<noteq> [] \<or> cm_rekey_required (st_meta (fst a)) \<longrightarrow> cm_rekey_required (st_meta (fst b)))
     \<and> (state_ok (fst a) \<longrightarrow> distinct ext \<and> (\<forall>d. d \<in> set ext \<longleftrightarrow> revoked_in (fst b) d \<and> \<not> revoked_in (fst a) d)))"

definition both_rel :: "CollectionSt \<times> b16 list \<Rightarrow> CollectionSt \<times> b16 list \<Rightarrow> bool" where
  "both_rel a b \<longleftrightarrow> acl_rel a b \<and> revoke_rel a b"

lemma revoked_stays: "acl_rel a b \<Longrightarrow> state_ok (fst a) \<Longrightarrow> revoked_in (fst a) d \<Longrightarrow> revoked_in (fst b) d"
  unfolding acl_rel_def revoked_in_def by fastforce

lemma both_rel_trans:
  assumes "both_rel a b" "both_rel b c"
  shows "both_rel a c"
proof -
  have r: "acl_rel a b" "acl_rel b c" using assms by (simp_all add: both_rel_def)
  obtain x where x: "snd b = snd a @ x"
      "x \<noteq> [] \<or> cm_rekey_required (st_meta (fst a)) \<longrightarrow> cm_rekey_required (st_meta (fst b))"
      "state_ok (fst a) \<longrightarrow> distinct x \<and> (\<forall>d. d \<in> set x \<longleftrightarrow> revoked_in (fst b) d \<and> \<not> revoked_in (fst a) d)"
    using assms(1) unfolding both_rel_def revoke_rel_def by blast
  obtain y where y: "snd c = snd b @ y"
      "y \<noteq> [] \<or> cm_rekey_required (st_meta (fst b)) \<longrightarrow> cm_rekey_required (st_meta (fst c))"
      "state_ok (fst b) \<longrightarrow> distinct y \<and> (\<forall>d. d \<in> set y \<longleftrightarrow> revoked_in (fst c) d \<and> \<not> revoked_in (fst b) d)"
    using assms(2) unfolding both_rel_def revoke_rel_def by blast
  have "distinct (x @ y) \<and> (\<forall>d. d \<in> set (x @ y) \<longleftrightarrow> revoked_in (fst c) d \<and> \<not> revoked_in (fst a) d)" if ok: "state_ok (fst a)"
  proof -
    have b: "state_ok (fst b)" using r(1) ok unfolding acl_rel_def by blast
    have s: "revoked_in (fst a) d \<Longrightarrow> revoked_in (fst b) d" "revoked_in (fst b) d \<Longrightarrow> revoked_in (fst c) d" for d
      using revoked_stays [OF r(1) ok] revoked_stays [OF r(2) b] by blast+
    show ?thesis using x(3) y(3) ok b s by auto
  qed
  then have "revoke_rel a c" unfolding revoke_rel_def using x(1,2) y(1,2) by (intro exI [of _ "x @ y"]) auto
  then show ?thesis using acl_rel_trans [OF r] by (simp add: both_rel_def)
qed

lemma acl_ok_device: "acl_ok acl \<Longrightarrow> (d, e) \<in> set acl \<Longrightarrow> map_of acl d = Some e \<and> ac_device e = d"
  by (auto simp: acl_ok_def bm_lookup_mem)

lemma member_remove_revoke:
  assumes "op_member_remove m (st, rv, e) = Inr (st', rv', e')"
  shows "revoke_rel (st, rv) (st', rv')"
proof -
  define hit where "hit = (\<lambda>e :: AclEntry. ac_account e = mr_account m \<and> ac_active e)"
  define f where "f = (\<lambda>e. if hit e then e\<lparr>ac_active := False\<rparr> else e)"
  define gone where "gone = map ac_device (filter hit (map snd (st_acl st)))"
  have st': "st_acl st' = map (\<lambda>(k, e). (k, f e)) (st_acl st)" "cm_rekey_required (st_meta st')" "rv' = rv @ gone"
    using assms by (auto simp: op_member_remove_def set_meta_def set_acl_def Let_def f_def hit_def gone_def split: if_splits)
  have "distinct gone \<and> (\<forall>d. d \<in> set gone \<longleftrightarrow> revoked_in st' d \<and> \<not> revoked_in st d)" if ok: "acl_ok (st_acl st)"
  proof -
    have keys: "map ac_device (map snd (st_acl st)) = map fst (st_acl st)"
      using acl_ok_device [OF ok] by (auto simp: list_eq_iff_nth_eq dest: nth_mem)
    have "distinct (map ac_device (map snd (st_acl st)))"
      unfolding keys using ok bm_ok_distinct [of "st_acl st"] by (simp add: acl_ok_def)
    then have "distinct gone" unfolding gone_def by (rule distinct_map_filter)
    moreover have "d \<in> set gone \<longleftrightarrow> (\<exists>e. map_of (st_acl st) d = Some e \<and> hit e)" for d
      using acl_ok_device [OF ok] by (force simp: gone_def dest: map_of_SomeD)
    moreover have "(\<exists>e. map_of (st_acl st) d = Some e \<and> hit e) \<longleftrightarrow> revoked_in st' d \<and> \<not> revoked_in st d" for d
      by (cases "map_of (st_acl st) d") (auto simp: revoked_in_def st'(1) map_of_map_acl f_def hit_def)
    ultimately show ?thesis by blast
  qed
  then show ?thesis unfolding revoke_rel_def state_ok_def using st' by auto
qed

lemma revoke_step:
  assumes "apply_op cr it seq roots root_pk i op (st, rv, e) = Inr (st', rv', e')"
  shows "revoke_rel (st, rv) (st', rv')"
proof (cases op)
  case (OpDeviceRevoke d)
  then show ?thesis
    using assms by (auto simp: apply_op_def op_device_revoke_def revoke_rel_def set_meta_def set_acl_def state_ok_def
        acl_ok_def revoked_in_def split: if_splits option.splits)
next
  case (OpMemberRemove m)
  then show ?thesis using assms member_remove_revoke by (simp add: apply_op_def)
next
  case (OpDeviceEnrol d)
  then show ?thesis
    using assms by (auto simp: apply_op_def op_device_enrol_def revoke_rel_def set_acl_def Let_def state_ok_def acl_ok_def
        revoked_in_def split: if_splits)
qed (use assms in \<open>auto simp: apply_op_def op_defs revoke_rel_def set_meta_def Let_def res_simps revoked_in_def
    split: if_splits option.splits\<close>)

interpretation revocation: policy_relation both_rel
proof
  fix a b c assume "both_rel a b" "both_rel b c"
  then show "both_rel a c" by (rule both_rel_trans)
next
  fix a show "both_rel a a" by (simp add: both_rel_def acl.reflexive) (auto simp: revoke_rel_def)
next
  fix st rv t show "both_rel (st, rv) (set_meta (\<lambda>m. m\<lparr>cm_last_issued_at := t\<rparr>) st, rv)"
    by (simp add: both_rel_def acl.issue) (auto simp: revoke_rel_def set_meta_def revoked_in_def)
qed (simp add: both_rel_def acl.step revoke_step)

text \<open>A collection never loses its last owner.\<close>

definition has_owner :: "CollectionSt \<Rightarrow> bool" where
  "has_owner st \<longleftrightarrow> (\<exists>a. map_of (cm_members (st_meta st)) a = Some 2)"

definition owner_rel :: "CollectionSt \<times> b16 list \<Rightarrow> CollectionSt \<times> b16 list \<Rightarrow> bool" where
  "owner_rel a b \<longleftrightarrow> (bm_ok (cm_members (st_meta (fst a))) \<longrightarrow> bm_ok (cm_members (st_meta (fst b)))
     \<and> (has_owner (fst a) \<longrightarrow> has_owner (fst b)))"

lemma other_owner:
  assumes "bm_ok (cm_members (st_meta st))" "has_owner st" "\<not> is_only_owner st a"
  obtains b where "b \<noteq> a" "map_of (cm_members (st_meta st)) b = Some 2"
proof -
  let ?m = "cm_members (st_meta st)" and ?f = "filter (\<lambda>(_, r). r = 2) (cm_members (st_meta st))"
  obtain c where c: "map_of ?m c = Some 2" using assms(2) by (auto simp: has_owner_def)
  show thesis
  proof (cases "c = a")
    case True
    then have "length ?f \<noteq> 1" using assms(3) c by (simp add: is_only_owner_def)
    moreover have "(c, 2) \<in> set ?f" using c by (auto dest: map_of_SomeD)
    ultimately have "length ?f \<ge> 2" by (cases ?f; cases "tl ?f") auto
    moreover have "distinct (map fst ?f)" using assms(1) bm_ok_distinct bm_filter_ok by blast
    ultimately obtain p q where "p \<in> set ?f" "q \<in> set ?f" "fst p \<noteq> fst q"
      by (cases ?f; cases "tl ?f") auto
    moreover from this have "(fst p, 2) \<in> set ?m" "(fst q, 2) \<in> set ?m" by auto
    ultimately show thesis
      using that [of "fst p"] that [of "fst q"] assms(1) by (cases "fst p = a") (simp_all add: bm_lookup_mem)
  next
    case False
    then show thesis using that c by blast
  qed
qed

lemma member_set_owner:
  assumes "op_member_set m (st, rv, e) = Inr (st', rv', e')"
  shows "owner_rel (st, rv) (st', rv')"
proof -
  let ?r = "role_value (ms_role m)"
  have st': "cm_members (st_meta st') = bm_insert (ms_account m) ?r (cm_members (st_meta st))"
    and g: "\<not> (?r < 2 \<and> is_only_owner st (ms_account m))"
    using assms by (auto simp: op_member_set_def set_meta_def Let_def split: if_splits)
  have "has_owner st'" if ok: "bm_ok (cm_members (st_meta st))" and o: "has_owner st"
  proof (cases "?r = 2")
    case True
    then show ?thesis using ok by (auto simp: has_owner_def st')
  next
    case False
    then have "?r < 2" by (cases "ms_role m") auto
    then obtain b where "b \<noteq> ms_account m" "map_of (cm_members (st_meta st)) b = Some 2"
      using other_owner [OF ok o] g by blast
    then show ?thesis using ok by (auto simp: has_owner_def st')
  qed
  then show ?thesis by (simp add: owner_rel_def st')
qed

lemma member_remove_owner:
  assumes "op_member_remove m (st, rv, e) = Inr (st', rv', e')"
  shows "owner_rel (st, rv) (st', rv')"
proof -
  have st': "cm_members (st_meta st') = bm_remove (mr_account m) (cm_members (st_meta st))"
    and g: "\<not> is_only_owner st (mr_account m)"
    using assms by (auto simp: op_member_remove_def set_meta_def set_acl_def Let_def split: if_splits)
  have "has_owner st'" if ok: "bm_ok (cm_members (st_meta st))" and o: "has_owner st"
  proof -
    obtain b where "b \<noteq> mr_account m" "map_of (cm_members (st_meta st)) b = Some 2"
      using other_owner [OF ok o g] by blast
    then show ?thesis by (auto simp: has_owner_def st')
  qed
  then show ?thesis by (simp add: owner_rel_def st')
qed

lemma owner_step:
  assumes "apply_op cr it seq roots root_pk i op (st, rv, e) = Inr (st', rv', e')"
  shows "owner_rel (st, rv) (st', rv')"
proof (cases op)
  case (OpMemberSet m)
  then show ?thesis using assms member_set_owner by (simp add: apply_op_def)
next
  case (OpMemberRemove m)
  then show ?thesis using assms member_remove_owner by (simp add: apply_op_def)
next
  case (OpGenesis g)
  then show ?thesis
    using assms by (auto simp: apply_op_def op_genesis_def owner_rel_def set_meta_def has_owner_def split: if_splits)
qed (use assms in \<open>auto simp: apply_op_def op_defs owner_rel_def set_meta_def set_acl_def has_owner_def
    Let_def res_simps split: if_splits option.splits\<close>)

interpretation owner: policy_relation owner_rel
proof
  fix a b c assume "owner_rel a b" "owner_rel b c"
  then show "owner_rel a c" by (simp add: owner_rel_def)
qed (simp_all add: owner_step, simp_all add: owner_rel_def set_meta_def has_owner_def)

subsection \<open>Digests always exist\<close>

lemma item_digest_total:
  assumes "item_rep it"
  shows "\<exists>bs. item_signed_digest sha256 it = Inr (h sha256 ''mdbase/v1/item-sig'' bs)"
proof -
  obtain bs where "item_to_bytes (without it False) = Inr bs"
    using wire_item.to_bytes_total [OF without_rep [OF assms]] by (auto simp: item_to_bytes_def MAX_DEPTH_def)
  then show ?thesis by (auto simp: item_signed_digest_def)
qed

lemma cert_digest_total: "\<exists>bs. cp_cert_signed_digest sha256 c = Inr (h sha256 ''mdbase/v1/cp-cert'' bs)"
proof -
  let ?m = "req_enc 0 (b32_to_cbor (cc_policy_pk c)) @ req_enc 1 (cbor_int (cc_not_before c))
    @ req_enc 2 (cbor_int (cc_not_after c)) @ req_enc 3 (b16_to_cbor (cc_root c))"
  have "in_profile 0 (CMap ?m)"
    by (rule in_profile_struct, simp add: MAX_DEPTH_def, intro ascending_intros) (simp_all add: MAX_DEPTH_def)
  then obtain bs where "encode (CMap ?m) = Inr bs"
    using encode_Ok_iff(1) [of "CMap ?m" 0] by (auto simp: encode_def)
  then show ?thesis by (auto simp: cp_cert_signed_digest_def cp_cert_to_cbor_def filter_enc)
qed

lemma apply_policy_payload_OkE:
  assumes "apply_policy_payload cr st it seq roots payload = Inr (st', rv)"
  obtains root root_pk st1 e where "governing_root st seq payload = Inr root"
    "verify_policy_crypto cr it payload root roots = Inr root_pk"
    "\<not> pp_issued_at payload <s cm_last_issued_at (st_meta st)"
    "\<And>t. map_of (cm_revoked_cp_keys (st_meta st)) (key_id cr (cc_policy_pk (pp_cert payload))) = Some t \<Longrightarrow>
      \<not> t \<le>s pp_issued_at payload"
    "apply_ops cr it seq roots root_pk 0 (pp_ops payload) (st, [], False) = Inr (st1, rv, e)"
    "st' = set_meta (\<lambda>m. m\<lparr>cm_last_issued_at := pp_issued_at payload\<rparr>) st1"
    "e \<Longrightarrow> \<not> list_ex (\<lambda>(_, e). ac_active e \<and> (ac_kind e = ESCROW \<or> ac_kind e = HOSTED)) (st_acl st1)"
proof -
  from assms obtain root root_pk where 1: "governing_root st seq payload = Inr root"
    "verify_policy_crypto cr it payload root roots = Inr root_pk"
    by (auto simp: apply_policy_payload_def res_simps)
  have g: "\<not> pp_issued_at payload <s cm_last_issued_at (st_meta st)"
    "\<not> (case map_of (cm_revoked_cp_keys (st_meta st)) (key_id cr (cc_policy_pk (pp_cert payload))) of
        Some t \<Rightarrow> t \<le>s pp_issued_at payload | None \<Rightarrow> False)"
    using assms by (auto simp: apply_policy_payload_def 1 Let_def split: if_splits)
  with assms obtain st1 rv1 e where run: "apply_ops cr it seq roots root_pk 0 (pp_ops payload) (st, [], False) = Inr (st1, rv1, e)"
    by (auto simp: apply_policy_payload_def 1 Let_def res_simps)
  show thesis
  proof (rule that [OF 1 g(1)])
    show "apply_ops cr it seq roots root_pk 0 (pp_ops payload) (st, [], False) = Inr (st1, rv, e)"
      "st' = set_meta (\<lambda>m. m\<lparr>cm_last_issued_at := pp_issued_at payload\<rparr>) st1"
      using assms g run by (simp_all add: apply_policy_payload_def 1 Let_def split: if_splits)
    show "\<not> list_ex (\<lambda>(_, e). ac_active e \<and> (ac_kind e = ESCROW \<or> ac_kind e = HOSTED)) (st_acl st1)" if e
      using assms g run that by (simp add: apply_policy_payload_def 1 Let_def split: if_splits)
  qed (use g(2) in simp)
qed

subsection \<open>Properties\<close>

lemma keeps_owner:
  assumes "apply_policy_payload cr st it seq roots payload = Inr (st', revoked)"
    and "state_ok st" "has_owner st \<or> seq = 1"
  shows "has_owner st'"
proof (cases "has_owner st")
  case True
  then show ?thesis
    using owner.apply_policy_R [OF assms(1)] assms(2) by (simp add: owner_rel_def state_ok_def)
next
  case False
  with assms(3) have "seq = 1" by simp
  obtain root root_pk st1 e1 where 1: "governing_root st seq payload = Inr root"
      "apply_ops cr it seq roots root_pk 0 (pp_ops payload) (st, [], False) = Inr (st1, revoked, e1)"
      "st' = set_meta (\<lambda>m. m\<lparr>cm_last_issued_at := pp_issued_at payload\<rparr>) st1"
    using assms(1) by (rule apply_policy_payload_OkE)
  moreover obtain g ops where "pp_ops payload = OpGenesis g # ops"
    using 1(1) \<open>seq = 1\<close> by (auto simp: governing_root_def split: list.splits PolicyOp.splits)
  ultimately have run: "apply_ops cr it seq roots root_pk 0 (OpGenesis g # ops) (st, [], False) = Inr (st1, revoked, e1)"
    by simp
  then obtain st0 where st0: "st0 = set_meta (\<lambda>m. m\<lparr>cm_root := gn_root g, cm_owner := gn_owner g,
         cm_cstate := cstate_value (gn_state g), cm_members := bm_insert (gn_owner g) 2 (cm_members m)\<rparr>) st"
      "apply_ops cr it seq roots root_pk 1 ops (st0, [], False) = Inr (st1, revoked, e1)"
    by (auto simp: apply_op_def op_genesis_def res_simps split: if_splits)
  have ok: "bm_ok (cm_members (st_meta st))" using assms(2) by (simp add: state_ok_def)
  then have "has_owner st0" "bm_ok (cm_members (st_meta st0))"
    by (auto simp: st0(1) has_owner_def set_meta_def)
  then have "has_owner st1" using owner.apply_ops_R [OF st0(2)] by (simp add: owner_rel_def)
  then show ?thesis by (simp add: 1(3) has_owner_def set_meta_def)
qed

text \<open>C20. A collection never loses its last owner: whatever operations a valid policy item
  carries, the state after it has an owner, if the state before had one or the item is the
  genesis item.\<close>

theorem policy_keeps_owner:
  assumes "apply_policy_payload cr st it seq roots payload = Inr (st', revoked)"
    and "state_ok st" "has_owner st \<or> seq = 1"
  shows "has_owner st'"
  by (rule keeps_owner [OF assms])

definition accept_all :: crypto where
  "accept_all = \<lparr>cr_sha256 = (\<lambda>_. 0), cr_verify = (\<lambda>_ _ _. True)\<rparr>"

definition sample_acl :: AclEntry where
  "sample_acl = \<lparr>ac_device = 9, ac_account = 7, ac_kind = 0, ac_sign_pk = 5, ac_active = True\<rparr>"

definition sample_state :: CollectionSt where
  "sample_state = \<lparr>st_meta = (meta_new 1 0)\<lparr>cm_members := [(7, 2)]\<rparr>, st_acl = [(9, sample_acl)]\<rparr>"

definition sample_policy_item :: Item where
  "sample_policy_item = \<lparr>it_kind = Policy, it_collection = 1, it_seq = Some 2, it_prev = Some 0,
     it_epoch = None, it_signer = Some 0, it_salt = None, it_idem = None, it_refs = None,
     it_stream = None, it_body = [], it_sig = Some 6\<rparr>"

definition sample_revocation :: PolicyPayload where
  "sample_revocation = \<lparr>pp_cert = sample_cert\<lparr>cc_root := 0\<rparr>, pp_issued_at = 5,
     pp_ops = [OpDeviceRevoke \<lparr>dr_device = 9\<rparr>]\<rparr>"

definition sample_state' :: CollectionSt where
  "sample_state' = \<lparr>st_meta = (meta_new 1 0)\<lparr>cm_members := [(7, 2)], cm_rekey_required := True, cm_last_issued_at := 5\<rparr>,
     st_acl = [(9, sample_acl\<lparr>ac_active := False\<rparr>)]\<rparr>"

lemma key_id_accept_all: "key_id accept_all pk = 0"
  by (simp add: key_id_def accept_all_def of_be_def) (simp add: numeral_eq_Suc)

lemma sample_revocation_applies:
  "apply_policy_payload accept_all sample_state sample_policy_item 2 [3] sample_revocation = Inr (sample_state', [9])"
proof -
  obtain bs where "item_signed_digest (cr_sha256 accept_all) sample_policy_item
      = Inr (h (cr_sha256 accept_all) ''mdbase/v1/item-sig'' bs)"
    using item_digest_total [of sample_policy_item] by (auto simp: item_rep_def sample_policy_item_def)
  moreover obtain cs where "cp_cert_signed_digest (cr_sha256 accept_all) (pp_cert sample_revocation)
      = Inr (h (cr_sha256 accept_all) ''mdbase/v1/cp-cert'' cs)"
    using cert_digest_total by blast
  moreover have "cr_verify accept_all k d s" for k d s by (simp add: accept_all_def)
  moreover have f: "it_signer sample_policy_item = Some 0" "it_sig sample_policy_item = Some 6"
      "cc_root (pp_cert sample_revocation) = 0" "cc_not_before (pp_cert sample_revocation) = 0"
      "cc_not_after (pp_cert sample_revocation) = 100" "pp_issued_at sample_revocation = 5"
    by (simp_all add: sample_policy_item_def sample_revocation_def sample_cert_def)
  ultimately have "verify_policy_crypto accept_all sample_policy_item sample_revocation 0 [3] = Inr 3"
    using f by (simp add: verify_policy_crypto_def key_id_accept_all Let_def sle_0)
  then show ?thesis
    by (simp add: apply_policy_payload_def governing_root_def Let_def)
      (simp add: sample_revocation_def sample_state_def sample_state'_def meta_new_def apply_op_def op_device_revoke_def
        set_meta_def set_acl_def sample_acl_def)
qed

lemma sample_state_ok: "state_ok sample_state" "has_owner sample_state"
  by (auto simp: state_ok_def acl_ok_def bm_ok_Cons sample_state_def meta_new_def sample_acl_def has_owner_def)

theorem policy_keeps_owner_witness: "has_owner sample_state'"
  using policy_keeps_owner [OF sample_revocation_applies] sample_state_ok by simp

text \<open>C21. Revocation is permanent and its report exact: across any valid policy item a known device
  keeps its account, kind and signing key and is never reactivated, and the item reports, each once,
  the devices that are revoked after it and were not before (known and active, or enrolled by the
  item itself), and no others.\<close>

theorem policy_revocation_permanent:
  assumes "apply_policy_payload cr st it seq roots payload = Inr (st', revoked)" "state_ok st"
  shows "state_ok st'
    \<and> (\<forall>d e. map_of (st_acl st) d = Some e \<longrightarrow> (\<exists>e'. map_of (st_acl st') d = Some e'
        \<and> ac_account e' = ac_account e \<and> ac_kind e' = ac_kind e \<and> ac_sign_pk e' = ac_sign_pk e \<and> (ac_active e' \<longrightarrow> ac_active e)))
    \<and> distinct revoked
    \<and> (\<forall>d. d \<in> set revoked \<longleftrightarrow> (\<exists>e'. map_of (st_acl st') d = Some e' \<and> \<not> ac_active e')
          \<and> \<not> (\<exists>e. map_of (st_acl st) d = Some e \<and> \<not> ac_active e))"
proof -
  have R: "acl_rel (st, []) (st', revoked)" "revoke_rel (st, []) (st', revoked)"
    using revocation.apply_policy_R [OF assms(1)] by (simp_all add: both_rel_def)
  have "distinct revoked \<and> (\<forall>d. d \<in> set revoked \<longleftrightarrow> revoked_in st' d \<and> \<not> revoked_in st d)"
    using R(2) assms(2) unfolding revoke_rel_def by auto
  moreover have "state_ok st'" "\<exists>e'. map_of (st_acl st') d = Some e' \<and> (e' = e \<or> e' = e\<lparr>ac_active := False\<rparr>)"
    if "map_of (st_acl st) d = Some e" for d e using R(1) assms(2) that unfolding acl_rel_def by auto
  moreover have "state_ok st'" using R(1) assms(2) unfolding acl_rel_def by auto
  ultimately show ?thesis unfolding revoked_in_def by fastforce
qed

theorem policy_revocation_permanent_witness:
  "state_ok sample_state' \<and> (\<exists>e'. map_of (st_acl sample_state') 9 = Some e' \<and> ac_sign_pk e' = ac_sign_pk sample_acl)
    \<and> (9 \<in> set [9 :: b16] \<longleftrightarrow> (\<exists>e'. map_of (st_acl sample_state') 9 = Some e' \<and> \<not> ac_active e'))"
proof -
  note P = policy_revocation_permanent [OF sample_revocation_applies sample_state_ok(1)]
  have "map_of (st_acl sample_state) 9 = Some sample_acl" by (simp add: sample_state_def)
  moreover have "ac_active sample_acl" by (simp add: sample_acl_def)
  ultimately show ?thesis using P by fastforce
qed

text \<open>Whenever a policy item revokes a device, the collection waits for a new key epoch
  afterwards; the item's own time becomes the collection's policy time, which never goes back;
  and no policy item touches the log position, the epoch, the quotas or the accounting.\<close>

theorem policy_frame:
  assumes "apply_policy_payload cr st it seq roots payload = Inr (st', revoked)"
  shows "(revoked = [] \<or> cm_rekey_required (st_meta st'))
    \<and> cm_last_issued_at (st_meta st) \<le>s cm_last_issued_at (st_meta st')
    \<and> cm_last_issued_at (st_meta st') = pp_issued_at payload \<and> frame_rel (st, []) (st', revoked)"
proof -
  have "revoke_rel (st, []) (st', revoked)"
    using revocation.apply_policy_R [OF assms] by (simp add: both_rel_def)
  then have "revoked = [] \<or> cm_rekey_required (st_meta st')" by (auto simp: revoke_rel_def)
  moreover have "cm_last_issued_at (st_meta st') = pp_issued_at payload"
      "cm_last_issued_at (st_meta st) \<le>s pp_issued_at payload"
    using assms by (auto elim!: apply_policy_payload_OkE simp: set_meta_def word_sless_alt word_sle_eq)
  ultimately show ?thesis using frame.apply_policy_R [OF assms] by simp
qed

theorem policy_frame_witness:
  "([9 :: b16] = [] \<or> cm_rekey_required (st_meta sample_state'))
    \<and> cm_last_issued_at (st_meta sample_state) \<le>s cm_last_issued_at (st_meta sample_state')
    \<and> cm_last_issued_at (st_meta sample_state') = pp_issued_at sample_revocation
    \<and> frame_rel (sample_state, []) (sample_state', [9])"
  by (rule policy_frame [OF sample_revocation_applies])

text \<open>C22. Only the control plane changes policy: an accepted item is signed by its certified
  policy key, the certificate is signed by a pinned root key that governs the collection, and the
  item was issued inside the certificate's window, before the key's revocation.\<close>

theorem policy_authentic:
  assumes "apply_policy_payload cr st it seq roots payload = Inr (st', revoked)"
  shows "\<exists>root_pk cert_digest digest sig. root_pk \<in> set roots \<and> cc_root (pp_cert payload) = key_id cr root_pk
    \<and> (seq = 1 \<or> cm_root (st_meta st) = key_id cr root_pk)
    \<and> cp_cert_signed_digest (cr_sha256 cr) (pp_cert payload) = Inr cert_digest
    \<and> cr_verify cr root_pk cert_digest (cc_sig (pp_cert payload))
    \<and> item_signed_digest (cr_sha256 cr) it = Inr digest \<and> it_sig it = Some sig
    \<and> cr_verify cr (cc_policy_pk (pp_cert payload)) digest sig
    \<and> it_signer it = Some (key_id cr (cc_policy_pk (pp_cert payload)))
    \<and> cc_not_before (pp_cert payload) \<le>s pp_issued_at payload
    \<and> pp_issued_at payload \<le>s cc_not_after (pp_cert payload)
    \<and> pred_option (\<lambda>t. \<not> t \<le>s pp_issued_at payload)
        (map_of (cm_revoked_cp_keys (st_meta st)) (key_id cr (cc_policy_pk (pp_cert payload))))"
proof -
  obtain root root_pk where 1: "governing_root st seq payload = Inr root"
      "verify_policy_crypto cr it payload root roots = Inr root_pk"
    and rv: "\<And>t. map_of (cm_revoked_cp_keys (st_meta st)) (key_id cr (cc_policy_pk (pp_cert payload))) = Some t \<Longrightarrow>
      \<not> t \<le>s pp_issued_at payload"
    using assms by (rule apply_policy_payload_OkE) blast
  from 1(2) have "root_pk \<in> set roots" "key_id cr root_pk = root"
    by (auto simp: verify_policy_crypto_def res_simps find_Some_iff Let_def)
  moreover from 1(1) have "seq = 1 \<or> cm_root (st_meta st) = root"
    by (auto simp: governing_root_def split: if_splits)
  ultimately show ?thesis
    using 1(2) rv by (auto simp: verify_policy_crypto_def res_simps Let_def pred_option_def)
qed

theorem policy_authentic_witness:
  "\<exists>root_pk cert_digest digest sig. root_pk \<in> set [3] \<and> cc_root (pp_cert sample_revocation) = key_id accept_all root_pk
    \<and> (2 = (1 :: u64) \<or> cm_root (st_meta sample_state) = key_id accept_all root_pk)
    \<and> cp_cert_signed_digest (cr_sha256 accept_all) (pp_cert sample_revocation) = Inr cert_digest
    \<and> cr_verify accept_all root_pk cert_digest (cc_sig (pp_cert sample_revocation))
    \<and> item_signed_digest (cr_sha256 accept_all) sample_policy_item = Inr digest \<and> it_sig sample_policy_item = Some sig
    \<and> cr_verify accept_all (cc_policy_pk (pp_cert sample_revocation)) digest sig
    \<and> it_signer sample_policy_item = Some (key_id accept_all (cc_policy_pk (pp_cert sample_revocation)))
    \<and> cc_not_before (pp_cert sample_revocation) \<le>s pp_issued_at sample_revocation
    \<and> pp_issued_at sample_revocation \<le>s cc_not_after (pp_cert sample_revocation)
    \<and> pred_option (\<lambda>t. \<not> t \<le>s pp_issued_at sample_revocation)
        (map_of (cm_revoked_cp_keys (st_meta sample_state)) (key_id accept_all (cc_policy_pk (pp_cert sample_revocation))))"
  by (rule policy_authentic [OF sample_revocation_applies])

text \<open>A rekey item advances the epoch by exactly one from the current epoch, wraps the new
  key for active devices only and clears the pending-rekey flag; nothing else changes.\<close>

theorem rekey_effect:
  "apply_rekey_payload st p = Inr st' \<longleftrightarrow>
    rk_from p = cm_epoch (st_meta st) \<and> rk_epoch p = cm_epoch (st_meta st) + 1
    \<and> list_all (\<lambda>w. pred_option ac_active (map_of (st_acl st) (kw_device w)) \<and> bm_mem (kw_device w) (st_acl st)) (rk_wraps p)
    \<and> st' = st\<lparr>st_meta := (st_meta st)\<lparr>cm_epoch := cm_epoch (st_meta st) + 1, cm_rekey_required := False\<rparr>\<rparr>"
proof -
  have "(case x of Some e \<Rightarrow> ac_active e | None \<Rightarrow> False) \<longleftrightarrow> pred_option ac_active x \<and> x \<noteq> None" for x :: "AclEntry option"
    by (cases x) auto
  then show ?thesis by (auto simp: apply_rekey_payload_def set_meta_def)
qed

end
