(* ===== verification/MemBackend.thy ===== *)
theory MemBackend
  imports LogPolicy
begin

text \<open>
  The storage seam of the log service (\<open>log-service/src/backend.rs\<close>) and its reference
  implementation in memory (\<open>log-service/src/mem.rs\<close>).

  A backend serialises the transactions of a collection: a write transaction excludes every
  other writer of the collection, its writes are buffered and \<open>commit\<close> applies them
  atomically.  A transaction is therefore a pure step on \<open>MemCollection\<close>: reads see the
  state at its begin, \<open>mem_commit\<close> applies the buffered writes in order.

  The locale \<open>log_store\<close> is the contract of a store, by what its observers see after each
  write; it is interpreted on the memory backend.
\<close>

subsection \<open>Buffered writes\<close>

record CommitNotice =
  cn_collection :: b16
  cn_first :: u64
  cn_head :: u64
  cn_head_chain :: b32
  cn_revoked :: "b16 list"
  cn_gone :: bool

datatype Write =
    CreateCollection CollectionSt
  | PutMeta CollectionMeta
  | UpsertAcl AclEntry
  | InsertItem StoredItem
  | PutObject ObjectMeta
  | DeleteObject b32
  | InsertSnapshot SnapshotRow
  | EndorseSnapshot u64
  | DeleteSnapshot u64
  | DeleteEntriesThrough u64
  | PruneTokens i64
  | Notify CommitNotice

subsection \<open>The memory backend\<close>

record MemCollection =
  mb_state :: "CollectionSt option"
  mb_items :: "(u64, StoredItem) bmap"
  mb_tokens :: "(b16, u64 \<times> i64) bmap"
  mb_objects :: "(b32, ObjectMeta) bmap"
  mb_snapshots :: "(u64, SnapshotRow) bmap"

definition mem_empty :: MemCollection where
  "mem_empty = \<lparr>mb_state = None, mb_items = [], mb_tokens = [], mb_objects = [], mb_snapshots = []\<rparr>"

fun items_loop :: "u64 \<Rightarrow> u64 \<Rightarrow> bool \<Rightarrow> StoredItem list \<Rightarrow> StoredItem list \<Rightarrow> u64 \<Rightarrow> StoredItem list" where
  "items_loop limit max_bytes control_only [] out tot = out"
| "items_loop limit max_bytes control_only (it # its) out tot =
    (if limit \<le> of_nat (length out) then out
     else if control_only \<and> si_kind it = 1 then items_loop limit max_bytes control_only its out tot
     else
       let tot = tot + of_nat (length (si_bytes it)) in
       if max_bytes < tot \<and> out \<noteq> [] then out
       else items_loop limit max_bytes control_only its (out @ [it]) tot)"

definition mem_items :: "MemCollection \<Rightarrow> u64 \<Rightarrow> u64 \<Rightarrow> u64 \<Rightarrow> bool \<Rightarrow> StoredItem list" where
  "mem_items g after limit max_bytes control_only =
    items_loop limit max_bytes control_only (map snd (filter (\<lambda>(s, _). after + 1 \<le> s) (mb_items g))) [] 0"

definition mem_tokens :: "MemCollection \<Rightarrow> b16 list \<Rightarrow> i64 \<Rightarrow> u64 option list" where
  "mem_tokens g tokens now =
    map (\<lambda>t. case map_of (mb_tokens g) t of
           Some (s, exp) \<Rightarrow> if now <s exp then Some s else None
         | None \<Rightarrow> None) tokens"

definition mem_objects :: "MemCollection \<Rightarrow> b32 list \<Rightarrow> ObjectMeta option list" where
  "mem_objects g addresses = map (map_of (mb_objects g)) addresses"

definition mem_snapshots :: "MemCollection \<Rightarrow> SnapshotRow list" where
  "mem_snapshots g = rev (map snd (mb_snapshots g))"

definition max_or_0 :: "u64 list \<Rightarrow> u64" where
  "max_or_0 xs = foldr max xs 0"

definition mem_last_seq_at_or_before :: "MemCollection \<Rightarrow> i64 \<Rightarrow> u64" where
  "mem_last_seq_at_or_before g t =
    max_or_0 (map si_seq (filter (\<lambda>i. si_appended_at i \<le>s t) (map snd (mb_items g))))"

definition mem_entry_bytes_through :: "MemCollection \<Rightarrow> u64 \<Rightarrow> u64" where
  "mem_entry_bytes_through g c =
    sum_list (map (\<lambda>(_, i). of_nat (length (si_bytes i)))
      (filter (\<lambda>(s, i). s \<le> c \<and> si_kind i = 1) (mb_items g)))"

definition mem_committed_blob_bytes :: "MemCollection \<Rightarrow> u64" where
  "mem_committed_blob_bytes g =
    sum_list (map om_size (filter (\<lambda>o'. om_committed o' \<and> om_kind o' = item_kind_value BlobPart) (map snd (mb_objects g))))"

definition mem_live_refs :: "MemCollection \<Rightarrow> b32 set" where
  "mem_live_refs g =
    set (concat (map (\<lambda>(_, i). si_refs i) (mb_items g)) @ concat (map (\<lambda>(_, s). sr_refs s) (mb_snapshots g)))"

definition mem_gc_candidates :: "MemCollection \<Rightarrow> i64 \<Rightarrow> u64 \<Rightarrow> ObjectMeta list" where
  "mem_gc_candidates g before limit =
    take (unat limit) (filter (\<lambda>o'. om_created_at o' <s before \<and> om_address o' \<notin> mem_live_refs g) (map snd (mb_objects g)))"

definition mem_snapshot_refs :: "MemCollection \<Rightarrow> u64 \<Rightarrow> b32 list" where
  "mem_snapshot_refs g seq = (case map_of (mb_snapshots g) seq of Some s \<Rightarrow> sr_refs s | None \<Rightarrow> [])"

definition mem_list_objects :: "MemCollection \<Rightarrow> b32 option \<Rightarrow> u64 \<Rightarrow> ObjectMeta list" where
  "mem_list_objects g after limit =
    take (unat limit) (filter (\<lambda>o'. om_committed o' \<and> (case after of None \<Rightarrow> True | Some a \<Rightarrow> a < om_address o'))
      (map snd (mb_objects g)))"

definition mem_write :: "Write \<Rightarrow> MemCollection \<Rightarrow> MemCollection" where
  "mem_write w g =
    (case w of
       CreateCollection s \<Rightarrow> g\<lparr>mb_state := Some s\<rparr>
     | PutMeta m \<Rightarrow> g\<lparr>mb_state := map_option (\<lambda>s. s\<lparr>st_meta := m\<rparr>) (mb_state g)\<rparr>
     | UpsertAcl e \<Rightarrow> g\<lparr>mb_state := map_option (\<lambda>s. s\<lparr>st_acl := bm_insert (ac_device e) e (st_acl s)\<rparr>) (mb_state g)\<rparr>
     | InsertItem i \<Rightarrow>
         g\<lparr>mb_tokens := (case si_token i of
               Some t \<Rightarrow> bm_insert t (si_seq i, si_appended_at i + TOKEN_RETENTION_MS) (mb_tokens g)
             | None \<Rightarrow> mb_tokens g),
           mb_items := bm_insert (si_seq i) i (mb_items g)\<rparr>
     | PutObject o' \<Rightarrow> g\<lparr>mb_objects := bm_insert (om_address o') o' (mb_objects g)\<rparr>
     | DeleteObject a \<Rightarrow> g\<lparr>mb_objects := bm_remove a (mb_objects g)\<rparr>
     | InsertSnapshot s \<Rightarrow> g\<lparr>mb_snapshots := bm_insert (sr_seq s) s (mb_snapshots g)\<rparr>
     | EndorseSnapshot seq \<Rightarrow>
         (case map_of (mb_snapshots g) seq of
            Some s \<Rightarrow> g\<lparr>mb_snapshots := bm_insert seq (s\<lparr>sr_endorsed := True\<rparr>) (mb_snapshots g)\<rparr>
          | None \<Rightarrow> g)
     | DeleteSnapshot seq \<Rightarrow> g\<lparr>mb_snapshots := bm_remove seq (mb_snapshots g)\<rparr>
     | DeleteEntriesThrough c \<Rightarrow> g\<lparr>mb_items := filter (\<lambda>(s, i). c < s \<or> si_kind i \<noteq> 1) (mb_items g)\<rparr>
     | PruneTokens now \<Rightarrow>
         g\<lparr>mb_tokens := filter (\<lambda>(_, s, exp). now <s exp \<or> bm_mem s (mb_items g)) (mb_tokens g)\<rparr>
     | Notify _ \<Rightarrow> g)"

definition mem_commit :: "Write list \<Rightarrow> MemCollection \<Rightarrow> MemCollection" where
  "mem_commit ws g = fold mem_write ws g"

subsection \<open>The contract of a store\<close>

locale log_store =
  fixes wr :: "Write \<Rightarrow> 's \<Rightarrow> 's"
    and invar :: "'s \<Rightarrow> bool"
    and state :: "'s \<Rightarrow> CollectionSt option"
    and item_at :: "'s \<Rightarrow> u64 \<Rightarrow> StoredItem option"
    and token_at :: "'s \<Rightarrow> b16 \<Rightarrow> (u64 \<times> i64) option"
    and object_at :: "'s \<Rightarrow> b32 \<Rightarrow> ObjectMeta option"
    and snapshot_at :: "'s \<Rightarrow> u64 \<Rightarrow> SnapshotRow option"
  assumes write_invar: "invar s \<Longrightarrow> invar (wr w s)"
    and write_state: "state (wr w s) = (case w of
        CreateCollection st \<Rightarrow> Some st
      | PutMeta m \<Rightarrow> map_option (\<lambda>st. st\<lparr>st_meta := m\<rparr>) (state s)
      | UpsertAcl e \<Rightarrow> map_option (\<lambda>st. st\<lparr>st_acl := bm_insert (ac_device e) e (st_acl st)\<rparr>) (state s)
      | _ \<Rightarrow> state s)"
    and write_item: "invar s \<Longrightarrow> item_at (wr w s) = (case w of
        InsertItem i \<Rightarrow> (item_at s)(si_seq i \<mapsto> i)
      | DeleteEntriesThrough c \<Rightarrow> (\<lambda>k. case item_at s k of
            Some i \<Rightarrow> if c < k \<or> si_kind i \<noteq> 1 then Some i else None | None \<Rightarrow> None)
      | _ \<Rightarrow> item_at s)"
    and write_token: "invar s \<Longrightarrow> token_at (wr w s) = (case w of
        InsertItem i \<Rightarrow> (case si_token i of
            Some t \<Rightarrow> (token_at s)(t \<mapsto> (si_seq i, si_appended_at i + TOKEN_RETENTION_MS)) | None \<Rightarrow> token_at s)
      | PruneTokens now \<Rightarrow> (\<lambda>t. case token_at s t of
            Some (q, e) \<Rightarrow> if now <s e \<or> item_at s q \<noteq> None then Some (q, e) else None | None \<Rightarrow> None)
      | _ \<Rightarrow> token_at s)"
    and write_object: "invar s \<Longrightarrow> object_at (wr w s) = (case w of
        PutObject x \<Rightarrow> (object_at s)(om_address x \<mapsto> x)
      | DeleteObject a \<Rightarrow> (object_at s)(a := None)
      | _ \<Rightarrow> object_at s)"
    and write_snapshot: "invar s \<Longrightarrow> snapshot_at (wr w s) = (case w of
        InsertSnapshot r \<Rightarrow> (snapshot_at s)(sr_seq r \<mapsto> r)
      | EndorseSnapshot q \<Rightarrow> (case snapshot_at s q of
            Some r \<Rightarrow> (snapshot_at s)(q \<mapsto> r\<lparr>sr_endorsed := True\<rparr>) | None \<Rightarrow> snapshot_at s)
      | DeleteSnapshot q \<Rightarrow> (snapshot_at s)(q := None)
      | _ \<Rightarrow> snapshot_at s)"
begin

lemma commit_invar: "invar s \<Longrightarrow> invar (fold wr ws s)"
  by (induction ws arbitrary: s) (auto intro: write_invar)

lemma commit_insert_items:
  "invar s \<Longrightarrow> item_at (fold wr (map InsertItem is) s) = item_at s ++ map_of (rev (map (\<lambda>i. (si_seq i, i)) is))"
proof (induction "is" arbitrary: s)
  case (Cons i "is")
  then show ?case
    by (simp add: write_item write_invar) (auto simp: map_add_def fun_eq_iff split: option.splits)
qed simp

lemma commit_item_frame:
  "invar s \<Longrightarrow> list_all (\<lambda>w. (\<forall>i. w \<noteq> InsertItem i) \<and> (\<forall>c. w \<noteq> DeleteEntriesThrough c)) ws \<Longrightarrow>
    item_at (fold wr ws s) = item_at s"
  by (induction ws arbitrary: s) (auto simp: write_item write_invar split: Write.splits)

lemma commit_object_frame:
  "invar s \<Longrightarrow> list_all (\<lambda>w. (\<forall>x. w \<noteq> PutObject x) \<and> (\<forall>a. w \<noteq> DeleteObject a)) ws \<Longrightarrow>
    object_at (fold wr ws s) = object_at s"
  by (induction ws arbitrary: s) (auto simp: write_object write_invar split: Write.splits)

lemma commit_snapshot_frame:
  "invar s \<Longrightarrow> list_all (\<lambda>w. (\<forall>x. w \<noteq> InsertSnapshot x) \<and> (\<forall>a. w \<noteq> EndorseSnapshot a) \<and> (\<forall>a. w \<noteq> DeleteSnapshot a)) ws \<Longrightarrow>
    snapshot_at (fold wr ws s) = snapshot_at s"
  by (induction ws arbitrary: s) (auto simp: write_snapshot write_invar split: Write.splits)

lemma commit_state_frame:
  "list_all (\<lambda>w. (\<forall>x. w \<noteq> CreateCollection x) \<and> (\<forall>m. w \<noteq> PutMeta m) \<and> (\<forall>e. w \<noteq> UpsertAcl e)) ws \<Longrightarrow>
    state (fold wr ws s) = state s"
  by (induction ws arbitrary: s) (auto simp: write_state split: Write.splits)

lemma commit_token_frame:
  "invar s \<Longrightarrow> list_all (\<lambda>w. (\<forall>i. w \<noteq> InsertItem i) \<and> (\<forall>n. w \<noteq> PruneTokens n)) ws \<Longrightarrow>
    token_at (fold wr ws s) = token_at s"
  by (induction ws arbitrary: s) (auto simp: write_token write_invar split: Write.splits)

lemma commit_upsert_acl:
  "state (fold wr (map UpsertAcl es) s)
    = map_option (\<lambda>st. st\<lparr>st_acl := fold (\<lambda>e. bm_insert (ac_device e) e) es (st_acl st)\<rparr>) (state s)"
  by (induction es arbitrary: s) (auto simp: write_state option.map_comp comp_def option.map_ident)

end

text \<open>The memory backend keeps its maps sorted and keyed by the rows' own keys.\<close>

definition mem_ok :: "MemCollection \<Rightarrow> bool" where
  "mem_ok g \<longleftrightarrow> bm_ok (mb_items g) \<and> bm_ok (mb_tokens g) \<and> bm_ok (mb_objects g) \<and> bm_ok (mb_snapshots g)
     \<and> (\<forall>k i. map_of (mb_items g) k = Some i \<longrightarrow> si_seq i = k)
     \<and> (\<forall>a x. map_of (mb_objects g) a = Some x \<longrightarrow> om_address x = a)
     \<and> (\<forall>k r. map_of (mb_snapshots g) k = Some r \<longrightarrow> sr_seq r = k)"

lemma mem_ok_empty: "mem_ok mem_empty"
  by (simp add: mem_ok_def mem_empty_def)

interpretation mem: log_store mem_write mem_ok mb_state "\<lambda>g. map_of (mb_items g)" "\<lambda>g. map_of (mb_tokens g)"
  "\<lambda>g. map_of (mb_objects g)" "\<lambda>g. map_of (mb_snapshots g)"
proof
  fix w g assume ok: "mem_ok g"
  show "mem_ok (mem_write w g)"
    using ok by (cases w) (auto simp: mem_write_def mem_ok_def bm_filter_lookup_Some split: option.splits)
  show "map_of (mb_items (mem_write w g)) = (case w of
        InsertItem i \<Rightarrow> (map_of (mb_items g))(si_seq i \<mapsto> i)
      | DeleteEntriesThrough c \<Rightarrow> (\<lambda>k. case map_of (mb_items g) k of
            Some i \<Rightarrow> if c < k \<or> si_kind i \<noteq> 1 then Some i else None | None \<Rightarrow> None)
      | _ \<Rightarrow> map_of (mb_items g))"
    using ok by (cases w) (auto simp: mem_write_def mem_ok_def bm_filter_lookup fun_eq_iff split: option.splits)
  show "map_of (mb_tokens (mem_write w g)) = (case w of
        InsertItem i \<Rightarrow> (case si_token i of
            Some t \<Rightarrow> (map_of (mb_tokens g))(t \<mapsto> (si_seq i, si_appended_at i + TOKEN_RETENTION_MS))
          | None \<Rightarrow> map_of (mb_tokens g))
      | PruneTokens now \<Rightarrow> (\<lambda>t. case map_of (mb_tokens g) t of
            Some (q, e) \<Rightarrow> if now <s e \<or> map_of (mb_items g) q \<noteq> None then Some (q, e) else None | None \<Rightarrow> None)
      | _ \<Rightarrow> map_of (mb_tokens g))"
    using ok by (cases w) (auto simp: mem_write_def mem_ok_def bm_filter_lookup fun_eq_iff split: option.splits)
  show "map_of (mb_objects (mem_write w g)) = (case w of
        PutObject x \<Rightarrow> (map_of (mb_objects g))(om_address x \<mapsto> x)
      | DeleteObject a \<Rightarrow> (map_of (mb_objects g))(a := None)
      | _ \<Rightarrow> map_of (mb_objects g))"
    using ok by (cases w) (auto simp: mem_write_def mem_ok_def split: option.splits)
  show "map_of (mb_snapshots (mem_write w g)) = (case w of
        InsertSnapshot r \<Rightarrow> (map_of (mb_snapshots g))(sr_seq r \<mapsto> r)
      | EndorseSnapshot q \<Rightarrow> (case map_of (mb_snapshots g) q of
            Some r \<Rightarrow> (map_of (mb_snapshots g))(q \<mapsto> r\<lparr>sr_endorsed := True\<rparr>) | None \<Rightarrow> map_of (mb_snapshots g))
      | DeleteSnapshot q \<Rightarrow> (map_of (mb_snapshots g))(q := None)
      | _ \<Rightarrow> map_of (mb_snapshots g))"
    using ok by (cases w) (auto simp: mem_write_def mem_ok_def split: option.splits)
next
  fix w g
  show "mb_state (mem_write w g) = (case w of
        CreateCollection st \<Rightarrow> Some st
      | PutMeta m \<Rightarrow> map_option (\<lambda>st. st\<lparr>st_meta := m\<rparr>) (mb_state g)
      | UpsertAcl e \<Rightarrow> map_option (\<lambda>st. st\<lparr>st_acl := bm_insert (ac_device e) e (st_acl st)\<rparr>) (mb_state g)
      | _ \<Rightarrow> mb_state g)"
    by (cases w) (auto simp: mem_write_def split: option.splits)
qed

end
