(* ===== verification/LogWire.thy ===== *)
theory LogWire
  imports PolicyWire
begin

text \<open>
  The messages of the log service, \<open>wire/src/log_service.rs\<close>: frames, the parameters and
  results of its methods and its pushes, each with its struct-map codec.  Constructors and fields
  keep the names of the source behind a short prefix per message.
\<close>

subsection \<open>Frames\<close>

record LsRequest =
  lq_id :: u64
  lq_method :: bytes
  lq_params :: Cbor

definition ls_request_to_cbor :: "LsRequest \<Rightarrow> Cbor" where
  "ls_request_to_cbor v = CMap (
      req_enc 1 (Uint (lq_id v))
    @ req_enc 2 (CText (lq_method v))
    @ req_enc 3 (lq_params v))"

definition ls_request_from_cbor :: "Cbor \<Rightarrow> SchemaError + LsRequest" where
  "ls_request_from_cbor c =
    (let ty = ''LsRequest'' in
     rbind (struct_map c ty) (\<lambda>m.
     rbind (req_dec m 1 ty u64_from_cbor) (\<lambda>id.
     rbind (req_dec m 2 ty string_from_cbor) (\<lambda>method.
     rbind (req_dec m 3 ty Ok) (\<lambda>params.
     Ok \<lparr>lq_id = id, lq_method = method, lq_params = params\<rparr>)))))"

record LsError =
  le_code :: bytes
  le_reason :: "bytes option"
  le_message :: "bytes option"
  le_retry_after_ms :: "u64 option"
  le_details :: "Cbor option"

definition ls_error_to_cbor :: "LsError \<Rightarrow> Cbor" where
  "ls_error_to_cbor v = CMap (
      req_enc 0 (CText (le_code v))
    @ opt_enc 1 (map_option CText (le_reason v))
    @ opt_enc 2 (map_option CText (le_message v))
    @ opt_enc 3 (map_option Uint (le_retry_after_ms v))
    @ opt_enc 4 (le_details v))"

definition ls_error_from_cbor :: "Cbor \<Rightarrow> SchemaError + LsError" where
  "ls_error_from_cbor c =
    (let ty = ''LsError'' in
     rbind (struct_map c ty) (\<lambda>m.
     rbind (req_dec m 0 ty string_from_cbor) (\<lambda>code.
     rbind (opt_dec m 1 string_from_cbor) (\<lambda>reason.
     rbind (opt_dec m 2 string_from_cbor) (\<lambda>message.
     rbind (opt_dec m 3 u64_from_cbor) (\<lambda>retry_after_ms.
     rbind (opt_dec m 4 Ok) (\<lambda>details.
     Ok \<lparr>le_code = code, le_reason = reason, le_message = message,
         le_retry_after_ms = retry_after_ms, le_details = details\<rparr>)))))))"

record LsResponse =
  lr_id :: u64
  lr_result :: "Cbor option"
  lr_error :: "LsError option"

definition ls_response_to_cbor :: "LsResponse \<Rightarrow> Cbor" where
  "ls_response_to_cbor v = CMap (
      req_enc 1 (Uint (lr_id v))
    @ opt_enc 2 (lr_result v)
    @ opt_enc 3 (map_option ls_error_to_cbor (lr_error v)))"

definition ls_response_from_cbor :: "Cbor \<Rightarrow> SchemaError + LsResponse" where
  "ls_response_from_cbor c =
    (let ty = ''LsResponse'' in
     rbind (struct_map c ty) (\<lambda>m.
     rbind (req_dec m 1 ty u64_from_cbor) (\<lambda>id.
     rbind (opt_dec m 2 Ok) (\<lambda>result.
     rbind (opt_dec m 3 ls_error_from_cbor) (\<lambda>error.
     Ok \<lparr>lr_id = id, lr_result = result, lr_error = error\<rparr>)))))"

record LsPush =
  lp_kind :: bytes
  lp_payload :: Cbor

definition ls_push_to_cbor :: "LsPush \<Rightarrow> Cbor" where
  "ls_push_to_cbor v = CMap (
      req_enc 1 (CText (lp_kind v))
    @ req_enc 2 (lp_payload v))"

definition ls_push_from_cbor :: "Cbor \<Rightarrow> SchemaError + LsPush" where
  "ls_push_from_cbor c =
    (let ty = ''LsPush'' in
     rbind (struct_map c ty) (\<lambda>m.
     rbind (req_dec m 1 ty string_from_cbor) (\<lambda>kind.
     rbind (req_dec m 2 ty Ok) (\<lambda>payload.
     Ok \<lparr>lp_kind = kind, lp_payload = payload\<rparr>))))"

datatype LsFrame =
    FrRequest LsRequest
  | FrResponse LsResponse
  | FrPush LsPush

fun ls_frame_to_cbor :: "LsFrame \<Rightarrow> Cbor" where
  "ls_frame_to_cbor (FrRequest v) = with_tag 0 (ls_request_to_cbor v)"
| "ls_frame_to_cbor (FrResponse v) = with_tag 1 (ls_response_to_cbor v)"
| "ls_frame_to_cbor (FrPush v) = with_tag 2 (ls_push_to_cbor v)"

definition ls_frame_from_cbor :: "Cbor \<Rightarrow> SchemaError + LsFrame" where
  "ls_frame_from_cbor c =
    (let ty = ''LsFrame'' in
     rbind (struct_map c ty) (\<lambda>m.
     rbind (discriminator m ty) (\<lambda>tag.
     if tag = 0 then rbind (ls_request_from_cbor c) (\<lambda>v. Ok (FrRequest v))
     else if tag = 1 then rbind (ls_response_from_cbor c) (\<lambda>v. Ok (FrResponse v))
     else if tag = 2 then rbind (ls_push_from_cbor c) (\<lambda>v. Ok (FrPush v))
     else Err (UnknownVariant ty tag))))"

record LsHelloParams =
  hp_version :: Version
  hp_token :: bytes
  hp_device :: "b16 option"
  hp_sig :: b64

definition ls_hello_params_to_cbor :: "LsHelloParams \<Rightarrow> Cbor" where
  "ls_hello_params_to_cbor v = CMap (
      req_enc 0 (version_to_cbor (hp_version v))
    @ req_enc 1 (CText (hp_token v))
    @ opt_enc 2 (map_option b16_to_cbor (hp_device v))
    @ req_enc 3 (b64_to_cbor (hp_sig v)))"

definition ls_hello_params_from_cbor :: "Cbor \<Rightarrow> SchemaError + LsHelloParams" where
  "ls_hello_params_from_cbor c =
    (let ty = ''LsHelloParams'' in
     rbind (struct_map c ty) (\<lambda>m.
     rbind (req_dec m 0 ty version_from_cbor) (\<lambda>version.
     rbind (req_dec m 1 ty string_from_cbor) (\<lambda>token.
     rbind (opt_dec m 2 b16_from_cbor) (\<lambda>device.
     rbind (req_dec m 3 ty b64_from_cbor) (\<lambda>sig.
     Ok \<lparr>hp_version = version, hp_token = token, hp_device = device, hp_sig = sig\<rparr>))))))"

record LsHelloResult =
  hr_version :: Version
  hr_server_nonce :: b32

definition ls_hello_result_to_cbor :: "LsHelloResult \<Rightarrow> Cbor" where
  "ls_hello_result_to_cbor v = CMap (
      req_enc 0 (version_to_cbor (hr_version v))
    @ req_enc 1 (b32_to_cbor (hr_server_nonce v)))"

definition ls_hello_result_from_cbor :: "Cbor \<Rightarrow> SchemaError + LsHelloResult" where
  "ls_hello_result_from_cbor c =
    (let ty = ''LsHelloResult'' in
     rbind (struct_map c ty) (\<lambda>m.
     rbind (req_dec m 0 ty version_from_cbor) (\<lambda>version.
     rbind (req_dec m 1 ty b32_from_cbor) (\<lambda>server_nonce.
     Ok \<lparr>hr_version = version, hr_server_nonce = server_nonce\<rparr>))))"

subsection \<open>Append and read\<close>

record SeqItem =
  sq_seq :: u64
  sq_item :: bytes

definition seq_item_to_cbor :: "SeqItem \<Rightarrow> Cbor" where
  "seq_item_to_cbor v = CArray [Uint (sq_seq v), CBytes (sq_item v)]"

definition seq_item_from_cbor :: "Cbor \<Rightarrow> SchemaError + SeqItem" where
  "seq_item_from_cbor c =
    rbind (array c ''seq-item'') (\<lambda>xs.
    case xs of
      [s,
         b] \<Rightarrow> rbind (u64_from_cbor s) (\<lambda>s. rbind (bytes_from_cbor b) (\<lambda>b. Ok \<lparr>sq_seq = s, sq_item = b\<rparr>))
    | _ \<Rightarrow> Err (Invalid ''seq-item'' ''must be [seq, item]''))"

record AppendParams =
  ap_collection :: b16
  ap_expect_seq :: u64
  ap_expect_prev :: b32
  ap_items :: "bytes list"

definition append_params_to_cbor :: "AppendParams \<Rightarrow> Cbor" where
  "append_params_to_cbor v = CMap (
      req_enc 0 (b16_to_cbor (ap_collection v))
    @ req_enc 1 (Uint (ap_expect_seq v))
    @ req_enc 2 (b32_to_cbor (ap_expect_prev v))
    @ req_enc 3 ((vec_to_cbor CBytes) (ap_items v)))"

definition append_params_from_cbor :: "Cbor \<Rightarrow> SchemaError + AppendParams" where
  "append_params_from_cbor c =
    (let ty = ''AppendParams'' in
     rbind (struct_map c ty) (\<lambda>m.
     rbind (req_dec m 0 ty b16_from_cbor) (\<lambda>collection.
     rbind (req_dec m 1 ty u64_from_cbor) (\<lambda>expect_seq.
     rbind (req_dec m 2 ty b32_from_cbor) (\<lambda>expect_prev.
     rbind (req1_dec m 3 ty (vec_from_cbor bytes_from_cbor)) (\<lambda>items.
     Ok \<lparr>ap_collection = collection, ap_expect_seq = expect_seq,
         ap_expect_prev = expect_prev, ap_items = items\<rparr>))))))"

record Appended =
  ad_first :: u64
  ad_last :: u64
  ad_head_chain :: b32
  ad_appended_at :: i64

definition appended_to_cbor :: "Appended \<Rightarrow> Cbor" where
  "appended_to_cbor v = CMap (
      req_enc 1 (Uint (ad_first v))
    @ req_enc 2 (Uint (ad_last v))
    @ req_enc 3 (b32_to_cbor (ad_head_chain v))
    @ req_enc 4 (cbor_int (ad_appended_at v)))"

definition appended_from_cbor :: "Cbor \<Rightarrow> SchemaError + Appended" where
  "appended_from_cbor c =
    (let ty = ''Appended'' in
     rbind (struct_map c ty) (\<lambda>m.
     rbind (req_dec m 1 ty u64_from_cbor) (\<lambda>first.
     rbind (req_dec m 2 ty u64_from_cbor) (\<lambda>last.
     rbind (req_dec m 3 ty b32_from_cbor) (\<lambda>head_chain.
     rbind (req_dec m 4 ty i64_from_cbor) (\<lambda>appended_at.
     Ok \<lparr>ad_first = first, ad_last = last, ad_head_chain = head_chain,
         ad_appended_at = appended_at\<rparr>))))))"

record HeadMoved =
  hm_head :: u64
  hm_head_chain :: b32

definition head_moved_to_cbor :: "HeadMoved \<Rightarrow> Cbor" where
  "head_moved_to_cbor v = CMap (
      req_enc 1 (Uint (hm_head v))
    @ req_enc 2 (b32_to_cbor (hm_head_chain v)))"

definition head_moved_from_cbor :: "Cbor \<Rightarrow> SchemaError + HeadMoved" where
  "head_moved_from_cbor c =
    (let ty = ''HeadMoved'' in
     rbind (struct_map c ty) (\<lambda>m.
     rbind (req_dec m 1 ty u64_from_cbor) (\<lambda>head.
     rbind (req_dec m 2 ty b32_from_cbor) (\<lambda>head_chain.
     Ok \<lparr>hm_head = head, hm_head_chain = head_chain\<rparr>))))"

record Duplicate =
  du_index :: u64
  du_seq :: u64

definition duplicate_to_cbor :: "Duplicate \<Rightarrow> Cbor" where
  "duplicate_to_cbor v = CMap (
      req_enc 1 (Uint (du_index v))
    @ req_enc 2 (Uint (du_seq v)))"

definition duplicate_from_cbor :: "Cbor \<Rightarrow> SchemaError + Duplicate" where
  "duplicate_from_cbor c =
    (let ty = ''Duplicate'' in
     rbind (struct_map c ty) (\<lambda>m.
     rbind (req_dec m 1 ty u64_from_cbor) (\<lambda>index.
     rbind (req_dec m 2 ty u64_from_cbor) (\<lambda>seq.
     Ok \<lparr>du_index = index, du_seq = seq\<rparr>))))"

datatype AppendResult =
    ArAppended Appended
  | ArHeadMoved HeadMoved
  | ArDuplicate Duplicate

fun append_result_to_cbor :: "AppendResult \<Rightarrow> Cbor" where
  "append_result_to_cbor (ArAppended v) = with_tag 0 (appended_to_cbor v)"
| "append_result_to_cbor (ArHeadMoved v) = with_tag 1 (head_moved_to_cbor v)"
| "append_result_to_cbor (ArDuplicate v) = with_tag 2 (duplicate_to_cbor v)"

definition append_result_from_cbor :: "Cbor \<Rightarrow> SchemaError + AppendResult" where
  "append_result_from_cbor c =
    (let ty = ''AppendResult'' in
     rbind (struct_map c ty) (\<lambda>m.
     rbind (discriminator m ty) (\<lambda>tag.
     if tag = 0 then rbind (appended_from_cbor c) (\<lambda>v. Ok (ArAppended v))
     else if tag = 1 then rbind (head_moved_from_cbor c) (\<lambda>v. Ok (ArHeadMoved v))
     else if tag = 2 then rbind (duplicate_from_cbor c) (\<lambda>v. Ok (ArDuplicate v))
     else Err (UnknownVariant ty tag))))"

datatype ReadKinds = All | Control

fun read_kinds_value :: "ReadKinds \<Rightarrow> u64" where
  "read_kinds_value All = 0"
| "read_kinds_value Control = 1"

definition read_kinds_to_cbor :: "ReadKinds \<Rightarrow> Cbor" where
  "read_kinds_to_cbor v = Uint (read_kinds_value v)"

definition read_kinds_from_cbor :: "Cbor \<Rightarrow> SchemaError + ReadKinds" where
  "read_kinds_from_cbor = enum_from_cbor ''ReadKinds'' (map (\<lambda>v. (read_kinds_value v, v)) [All, Control])"

record SnapshotPointer =
  sp_seq :: u64
  sp_manifest :: b32
  sp_author :: b16
  sp_created_at :: i64
  sp_endorsed :: bool

definition snapshot_pointer_to_cbor :: "SnapshotPointer \<Rightarrow> Cbor" where
  "snapshot_pointer_to_cbor v = CMap (
      req_enc 0 (Uint (sp_seq v))
    @ req_enc 1 (b32_to_cbor (sp_manifest v))
    @ req_enc 2 (b16_to_cbor (sp_author v))
    @ req_enc 3 (cbor_int (sp_created_at v))
    @ req_enc 4 (CBool (sp_endorsed v)))"

definition snapshot_pointer_from_cbor :: "Cbor \<Rightarrow> SchemaError + SnapshotPointer" where
  "snapshot_pointer_from_cbor c =
    (let ty = ''SnapshotPointer'' in
     rbind (struct_map c ty) (\<lambda>m.
     rbind (req_dec m 0 ty u64_from_cbor) (\<lambda>seq.
     rbind (req_dec m 1 ty b32_from_cbor) (\<lambda>manifest.
     rbind (req_dec m 2 ty b16_from_cbor) (\<lambda>author.
     rbind (req_dec m 3 ty i64_from_cbor) (\<lambda>created_at.
     rbind (req_dec m 4 ty bool_from_cbor) (\<lambda>endorsed.
     Ok \<lparr>sp_seq = seq, sp_manifest = manifest, sp_author = author,
         sp_created_at = created_at, sp_endorsed = endorsed\<rparr>)))))))"

record ReadParams =
  rd_collection :: b16
  rd_after :: u64
  rd_limit :: u64
  rd_kinds :: "ReadKinds option"
  rd_max_bytes :: "u64 option"

definition read_params_to_cbor :: "ReadParams \<Rightarrow> Cbor" where
  "read_params_to_cbor v = CMap (
      req_enc 0 (b16_to_cbor (rd_collection v))
    @ req_enc 1 (Uint (rd_after v))
    @ req_enc 2 (Uint (rd_limit v))
    @ opt_enc 3 (map_option read_kinds_to_cbor (rd_kinds v))
    @ opt_enc 4 (map_option Uint (rd_max_bytes v)))"

definition read_params_from_cbor :: "Cbor \<Rightarrow> SchemaError + ReadParams" where
  "read_params_from_cbor c =
    (let ty = ''ReadParams'' in
     rbind (struct_map c ty) (\<lambda>m.
     rbind (req_dec m 0 ty b16_from_cbor) (\<lambda>collection.
     rbind (req_dec m 1 ty u64_from_cbor) (\<lambda>after.
     rbind (req_dec m 2 ty u64_from_cbor) (\<lambda>limit.
     rbind (opt_dec m 3 read_kinds_from_cbor) (\<lambda>kinds.
     rbind (opt_dec m 4 u64_from_cbor) (\<lambda>max_bytes.
     Ok \<lparr>rd_collection = collection, rd_after = after, rd_limit = limit, rd_kinds = kinds,
         rd_max_bytes = max_bytes\<rparr>)))))))"

record ReadResult =
  rr_items :: "SeqItem list"
  rr_head :: u64
  rr_head_chain :: b32
  rr_retained_from :: u64
  rr_behind :: bool
  rr_snapshot :: "SnapshotPointer option"
  rr_more :: bool

definition read_result_to_cbor :: "ReadResult \<Rightarrow> Cbor" where
  "read_result_to_cbor v = CMap (
      req_enc 0 ((vec_to_cbor seq_item_to_cbor) (rr_items v))
    @ req_enc 1 (Uint (rr_head v))
    @ req_enc 2 (b32_to_cbor (rr_head_chain v))
    @ req_enc 3 (Uint (rr_retained_from v))
    @ req_enc 4 (CBool (rr_behind v))
    @ opt_enc 5 (map_option snapshot_pointer_to_cbor (rr_snapshot v))
    @ req_enc 6 (CBool (rr_more v)))"

definition read_result_from_cbor :: "Cbor \<Rightarrow> SchemaError + ReadResult" where
  "read_result_from_cbor c =
    (let ty = ''ReadResult'' in
     rbind (struct_map c ty) (\<lambda>m.
     rbind (req_dec m 0 ty (vec_from_cbor seq_item_from_cbor)) (\<lambda>items.
     rbind (req_dec m 1 ty u64_from_cbor) (\<lambda>head.
     rbind (req_dec m 2 ty b32_from_cbor) (\<lambda>head_chain.
     rbind (req_dec m 3 ty u64_from_cbor) (\<lambda>retained_from.
     rbind (req_dec m 4 ty bool_from_cbor) (\<lambda>behind.
     rbind (opt_dec m 5 snapshot_pointer_from_cbor) (\<lambda>snapshot.
     rbind (req_dec m 6 ty bool_from_cbor) (\<lambda>more.
     Ok \<lparr>rr_items = items, rr_head = head, rr_head_chain = head_chain,
         rr_retained_from = retained_from, rr_behind = behind, rr_snapshot = snapshot, rr_more = more\<rparr>)))))))))"

record HeadParams =
  hq_collection :: b16

definition head_params_to_cbor :: "HeadParams \<Rightarrow> Cbor" where
  "head_params_to_cbor v = CMap (
      req_enc 0 (b16_to_cbor (hq_collection v)))"

definition head_params_from_cbor :: "Cbor \<Rightarrow> SchemaError + HeadParams" where
  "head_params_from_cbor c =
    (let ty = ''HeadParams'' in
     rbind (struct_map c ty) (\<lambda>m.
     rbind (req_dec m 0 ty b16_from_cbor) (\<lambda>collection.
     Ok \<lparr>hq_collection = collection\<rparr>)))"

record HeadResult =
  hs_head :: u64
  hs_head_chain :: b32
  hs_retained_from :: u64
  hs_snapshot :: "SnapshotPointer option"

definition head_result_to_cbor :: "HeadResult \<Rightarrow> Cbor" where
  "head_result_to_cbor v = CMap (
      req_enc 0 (Uint (hs_head v))
    @ req_enc 1 (b32_to_cbor (hs_head_chain v))
    @ req_enc 2 (Uint (hs_retained_from v))
    @ opt_enc 3 (map_option snapshot_pointer_to_cbor (hs_snapshot v)))"

definition head_result_from_cbor :: "Cbor \<Rightarrow> SchemaError + HeadResult" where
  "head_result_from_cbor c =
    (let ty = ''HeadResult'' in
     rbind (struct_map c ty) (\<lambda>m.
     rbind (req_dec m 0 ty u64_from_cbor) (\<lambda>head.
     rbind (req_dec m 1 ty b32_from_cbor) (\<lambda>head_chain.
     rbind (req_dec m 2 ty u64_from_cbor) (\<lambda>retained_from.
     rbind (opt_dec m 3 snapshot_pointer_from_cbor) (\<lambda>snapshot.
     Ok \<lparr>hs_head = head, hs_head_chain = head_chain, hs_retained_from = retained_from,
         hs_snapshot = snapshot\<rparr>))))))"

subsection \<open>Objects and snapshots\<close>

record DirectTransfer =
  dt_url :: bytes
  dt_headers :: "(bytes \<times> bytes) list"
  dt_expires_at :: i64

definition direct_transfer_to_cbor :: "DirectTransfer \<Rightarrow> Cbor" where
  "direct_transfer_to_cbor v = CMap (
      req_enc 0 (CText (dt_url v))
    @ req_enc 1 ((data_map_to_cbor CText) (dt_headers v))
    @ req_enc 2 (cbor_int (dt_expires_at v)))"

definition direct_transfer_from_cbor :: "Cbor \<Rightarrow> SchemaError + DirectTransfer" where
  "direct_transfer_from_cbor c =
    (let ty = ''DirectTransfer'' in
     rbind (struct_map c ty) (\<lambda>m.
     rbind (req_dec m 0 ty string_from_cbor) (\<lambda>url.
     rbind (req_dec m 1 ty (data_map_from_cbor string_from_cbor)) (\<lambda>headers.
     rbind (req_dec m 2 ty i64_from_cbor) (\<lambda>expires_at.
     Ok \<lparr>dt_url = url, dt_headers = headers, dt_expires_at = expires_at\<rparr>)))))"

datatype PutStatus = Stored | Upload | Exists

fun put_status_value :: "PutStatus \<Rightarrow> u64" where
  "put_status_value Stored = 0"
| "put_status_value Upload = 1"
| "put_status_value Exists = 2"

definition put_status_to_cbor :: "PutStatus \<Rightarrow> Cbor" where
  "put_status_to_cbor v = Uint (put_status_value v)"

definition put_status_from_cbor :: "Cbor \<Rightarrow> SchemaError + PutStatus" where
  "put_status_from_cbor = enum_from_cbor ''PutStatus'' (map (\<lambda>v. (put_status_value v, v)) [Stored, Upload, Exists])"

record PutObjectParams =
  po_collection :: b16
  po_address :: b32
  po_kind :: ItemKind
  po_size :: u64
  po_checksum :: b32
  po_bytes :: "bytes option"

definition put_object_params_to_cbor :: "PutObjectParams \<Rightarrow> Cbor" where
  "put_object_params_to_cbor v = CMap (
      req_enc 0 (b16_to_cbor (po_collection v))
    @ req_enc 1 (b32_to_cbor (po_address v))
    @ req_enc 2 (item_kind_to_cbor (po_kind v))
    @ req_enc 3 (Uint (po_size v))
    @ req_enc 4 (b32_to_cbor (po_checksum v))
    @ opt_enc 5 (map_option CBytes (po_bytes v)))"

definition put_object_params_from_cbor :: "Cbor \<Rightarrow> SchemaError + PutObjectParams" where
  "put_object_params_from_cbor c =
    (let ty = ''PutObjectParams'' in
     rbind (struct_map c ty) (\<lambda>m.
     rbind (req_dec m 0 ty b16_from_cbor) (\<lambda>collection.
     rbind (req_dec m 1 ty b32_from_cbor) (\<lambda>address.
     rbind (req_dec m 2 ty item_kind_from_cbor) (\<lambda>kind.
     rbind (req_dec m 3 ty u64_from_cbor) (\<lambda>size.
     rbind (req_dec m 4 ty b32_from_cbor) (\<lambda>checksum.
     rbind (opt_dec m 5 bytes_from_cbor) (\<lambda>bytes.
     Ok \<lparr>po_collection = collection, po_address = address, po_kind = kind, po_size = size,
         po_checksum = checksum, po_bytes = bytes\<rparr>))))))))"

record PutObjectResult =
  pr_status :: PutStatus
  pr_direct :: "DirectTransfer option"

definition put_object_result_to_cbor :: "PutObjectResult \<Rightarrow> Cbor" where
  "put_object_result_to_cbor v = CMap (
      req_enc 0 (put_status_to_cbor (pr_status v))
    @ opt_enc 1 (map_option direct_transfer_to_cbor (pr_direct v)))"

definition put_object_result_from_cbor :: "Cbor \<Rightarrow> SchemaError + PutObjectResult" where
  "put_object_result_from_cbor c =
    (let ty = ''PutObjectResult'' in
     rbind (struct_map c ty) (\<lambda>m.
     rbind (req_dec m 0 ty put_status_from_cbor) (\<lambda>status.
     rbind (opt_dec m 1 direct_transfer_from_cbor) (\<lambda>direct.
     Ok \<lparr>pr_status = status, pr_direct = direct\<rparr>))))"

record CommitObjectParams =
  co_collection :: b16
  co_address :: b32

definition commit_object_params_to_cbor :: "CommitObjectParams \<Rightarrow> Cbor" where
  "commit_object_params_to_cbor v = CMap (
      req_enc 0 (b16_to_cbor (co_collection v))
    @ req_enc 1 (b32_to_cbor (co_address v)))"

definition commit_object_params_from_cbor :: "Cbor \<Rightarrow> SchemaError + CommitObjectParams" where
  "commit_object_params_from_cbor c =
    (let ty = ''CommitObjectParams'' in
     rbind (struct_map c ty) (\<lambda>m.
     rbind (req_dec m 0 ty b16_from_cbor) (\<lambda>collection.
     rbind (req_dec m 1 ty b32_from_cbor) (\<lambda>address.
     Ok \<lparr>co_collection = collection, co_address = address\<rparr>))))"

record ByteRange =
  br_offset :: u64
  br_len :: u64

definition byte_range_to_cbor :: "ByteRange \<Rightarrow> Cbor" where
  "byte_range_to_cbor v = CArray [Uint (br_offset v), Uint (br_len v)]"

definition byte_range_from_cbor :: "Cbor \<Rightarrow> SchemaError + ByteRange" where
  "byte_range_from_cbor c =
    rbind (array c ''ByteRange'') (\<lambda>xs.
    case xs of
      [a,
         b] \<Rightarrow> rbind (u64_from_cbor a) (\<lambda>a. rbind (u64_from_cbor b) (\<lambda>b. Ok \<lparr>br_offset = a, br_len = b\<rparr>))
    | _ \<Rightarrow> Err (Invalid ''ByteRange'' ''wrong number of elements''))"

record GetObjectParams =
  go_collection :: b16
  go_address :: b32
  go_range :: "ByteRange option"

definition get_object_params_to_cbor :: "GetObjectParams \<Rightarrow> Cbor" where
  "get_object_params_to_cbor v = CMap (
      req_enc 0 (b16_to_cbor (go_collection v))
    @ req_enc 1 (b32_to_cbor (go_address v))
    @ opt_enc 2 (map_option byte_range_to_cbor (go_range v)))"

definition get_object_params_from_cbor :: "Cbor \<Rightarrow> SchemaError + GetObjectParams" where
  "get_object_params_from_cbor c =
    (let ty = ''GetObjectParams'' in
     rbind (struct_map c ty) (\<lambda>m.
     rbind (req_dec m 0 ty b16_from_cbor) (\<lambda>collection.
     rbind (req_dec m 1 ty b32_from_cbor) (\<lambda>address.
     rbind (opt_dec m 2 byte_range_from_cbor) (\<lambda>range.
     Ok \<lparr>go_collection = collection, go_address = address, go_range = range\<rparr>)))))"

record GetObjectResult =
  gt_bytes :: "bytes option"
  gt_direct :: "DirectTransfer option"
  gt_size :: u64
  gt_checksum :: b32

definition get_object_result_to_cbor :: "GetObjectResult \<Rightarrow> Cbor" where
  "get_object_result_to_cbor v = CMap (
      opt_enc 0 (map_option CBytes (gt_bytes v))
    @ opt_enc 1 (map_option direct_transfer_to_cbor (gt_direct v))
    @ req_enc 2 (Uint (gt_size v))
    @ req_enc 3 (b32_to_cbor (gt_checksum v)))"

definition get_object_result_from_cbor :: "Cbor \<Rightarrow> SchemaError + GetObjectResult" where
  "get_object_result_from_cbor c =
    (let ty = ''GetObjectResult'' in
     rbind (struct_map c ty) (\<lambda>m.
     rbind (opt_dec m 0 bytes_from_cbor) (\<lambda>bytes.
     rbind (opt_dec m 1 direct_transfer_from_cbor) (\<lambda>direct.
     rbind (req_dec m 2 ty u64_from_cbor) (\<lambda>size.
     rbind (req_dec m 3 ty b32_from_cbor) (\<lambda>checksum.
     Ok \<lparr>gt_bytes = bytes, gt_direct = direct, gt_size = size, gt_checksum = checksum\<rparr>))))))"

record HasObjectsParams =
  ho_collection :: b16
  ho_addresses :: "b32 list"

definition has_objects_params_to_cbor :: "HasObjectsParams \<Rightarrow> Cbor" where
  "has_objects_params_to_cbor v = CMap (
      req_enc 0 (b16_to_cbor (ho_collection v))
    @ req_enc 1 ((vec_to_cbor b32_to_cbor) (ho_addresses v)))"

definition has_objects_params_from_cbor :: "Cbor \<Rightarrow> SchemaError + HasObjectsParams" where
  "has_objects_params_from_cbor c =
    (let ty = ''HasObjectsParams'' in
     rbind (struct_map c ty) (\<lambda>m.
     rbind (req_dec m 0 ty b16_from_cbor) (\<lambda>collection.
     rbind (req1_dec m 1 ty (vec_from_cbor b32_from_cbor)) (\<lambda>addresses.
     Ok \<lparr>ho_collection = collection, ho_addresses = addresses\<rparr>))))"

record HasObjectsResult =
  hx_present :: "bool list"

definition has_objects_result_to_cbor :: "HasObjectsResult \<Rightarrow> Cbor" where
  "has_objects_result_to_cbor v = CMap (
      req_enc 0 ((vec_to_cbor CBool) (hx_present v)))"

definition has_objects_result_from_cbor :: "Cbor \<Rightarrow> SchemaError + HasObjectsResult" where
  "has_objects_result_from_cbor c =
    (let ty = ''HasObjectsResult'' in
     rbind (struct_map c ty) (\<lambda>m.
     rbind (req1_dec m 0 ty (vec_from_cbor bool_from_cbor)) (\<lambda>present.
     Ok \<lparr>hx_present = present\<rparr>)))"

record PutSnapshotParams =
  ps_collection :: b16
  ps_seq :: u64
  ps_manifest :: b32
  ps_refs :: "b32 list"

definition put_snapshot_params_to_cbor :: "PutSnapshotParams \<Rightarrow> Cbor" where
  "put_snapshot_params_to_cbor v = CMap (
      req_enc 0 (b16_to_cbor (ps_collection v))
    @ req_enc 1 (Uint (ps_seq v))
    @ req_enc 2 (b32_to_cbor (ps_manifest v))
    @ req_enc 3 ((vec_to_cbor b32_to_cbor) (ps_refs v)))"

definition put_snapshot_params_from_cbor :: "Cbor \<Rightarrow> SchemaError + PutSnapshotParams" where
  "put_snapshot_params_from_cbor c =
    (let ty = ''PutSnapshotParams'' in
     rbind (struct_map c ty) (\<lambda>m.
     rbind (req_dec m 0 ty b16_from_cbor) (\<lambda>collection.
     rbind (req_dec m 1 ty u64_from_cbor) (\<lambda>seq.
     rbind (req_dec m 2 ty b32_from_cbor) (\<lambda>manifest.
     rbind (req1_dec m 3 ty (vec_from_cbor b32_from_cbor)) (\<lambda>refs.
     Ok \<lparr>ps_collection = collection, ps_seq = seq, ps_manifest = manifest,
         ps_refs = refs\<rparr>))))))"

record GetSnapshotResult =
  gs_snapshots :: "SnapshotPointer list"

definition get_snapshot_result_to_cbor :: "GetSnapshotResult \<Rightarrow> Cbor" where
  "get_snapshot_result_to_cbor v = CMap (
      req_enc 0 ((vec_to_cbor snapshot_pointer_to_cbor) (gs_snapshots v)))"

definition get_snapshot_result_from_cbor :: "Cbor \<Rightarrow> SchemaError + GetSnapshotResult" where
  "get_snapshot_result_from_cbor c =
    (let ty = ''GetSnapshotResult'' in
     rbind (struct_map c ty) (\<lambda>m.
     rbind (req_dec m 0 ty (vec_from_cbor snapshot_pointer_from_cbor)) (\<lambda>snapshots.
     Ok \<lparr>gs_snapshots = snapshots\<rparr>)))"

record EndorseSnapshotParams =
  es_collection :: b16
  es_seq :: u64
  es_manifest :: b32

definition endorse_snapshot_params_to_cbor :: "EndorseSnapshotParams \<Rightarrow> Cbor" where
  "endorse_snapshot_params_to_cbor v = CMap (
      req_enc 0 (b16_to_cbor (es_collection v))
    @ req_enc 1 (Uint (es_seq v))
    @ req_enc 2 (b32_to_cbor (es_manifest v)))"

definition endorse_snapshot_params_from_cbor :: "Cbor \<Rightarrow> SchemaError + EndorseSnapshotParams" where
  "endorse_snapshot_params_from_cbor c =
    (let ty = ''EndorseSnapshotParams'' in
     rbind (struct_map c ty) (\<lambda>m.
     rbind (req_dec m 0 ty b16_from_cbor) (\<lambda>collection.
     rbind (req_dec m 1 ty u64_from_cbor) (\<lambda>seq.
     rbind (req_dec m 2 ty b32_from_cbor) (\<lambda>manifest.
     Ok \<lparr>es_collection = collection, es_seq = seq, es_manifest = manifest\<rparr>)))))"

subsection \<open>Subscriptions and streams\<close>

record SubscribeParams =
  su_collection :: b16
  su_after :: u64
  su_inline_bytes :: "u64 option"

definition subscribe_params_to_cbor :: "SubscribeParams \<Rightarrow> Cbor" where
  "subscribe_params_to_cbor v = CMap (
      req_enc 0 (b16_to_cbor (su_collection v))
    @ req_enc 1 (Uint (su_after v))
    @ opt_enc 2 (map_option Uint (su_inline_bytes v)))"

definition subscribe_params_from_cbor :: "Cbor \<Rightarrow> SchemaError + SubscribeParams" where
  "subscribe_params_from_cbor c =
    (let ty = ''SubscribeParams'' in
     rbind (struct_map c ty) (\<lambda>m.
     rbind (req_dec m 0 ty b16_from_cbor) (\<lambda>collection.
     rbind (req_dec m 1 ty u64_from_cbor) (\<lambda>after.
     rbind (opt_dec m 2 u64_from_cbor) (\<lambda>inline_bytes.
     Ok \<lparr>su_collection = collection, su_after = after, su_inline_bytes = inline_bytes\<rparr>)))))"

record HeadPush =
  hd_collection :: b16
  hd_head :: u64
  hd_head_chain :: b32

definition head_push_to_cbor :: "HeadPush \<Rightarrow> Cbor" where
  "head_push_to_cbor v = CMap (
      req_enc 0 (b16_to_cbor (hd_collection v))
    @ req_enc 1 (Uint (hd_head v))
    @ req_enc 2 (b32_to_cbor (hd_head_chain v)))"

definition head_push_from_cbor :: "Cbor \<Rightarrow> SchemaError + HeadPush" where
  "head_push_from_cbor c =
    (let ty = ''HeadPush'' in
     rbind (struct_map c ty) (\<lambda>m.
     rbind (req_dec m 0 ty b16_from_cbor) (\<lambda>collection.
     rbind (req_dec m 1 ty u64_from_cbor) (\<lambda>head.
     rbind (req_dec m 2 ty b32_from_cbor) (\<lambda>head_chain.
     Ok \<lparr>hd_collection = collection, hd_head = head, hd_head_chain = head_chain\<rparr>)))))"

record ItemsPush =
  ip_collection :: b16
  ip_items :: "SeqItem list"
  ip_head :: u64
  ip_head_chain :: b32

definition items_push_to_cbor :: "ItemsPush \<Rightarrow> Cbor" where
  "items_push_to_cbor v = CMap (
      req_enc 0 (b16_to_cbor (ip_collection v))
    @ req_enc 1 ((vec_to_cbor seq_item_to_cbor) (ip_items v))
    @ req_enc 2 (Uint (ip_head v))
    @ req_enc 3 (b32_to_cbor (ip_head_chain v)))"

definition items_push_from_cbor :: "Cbor \<Rightarrow> SchemaError + ItemsPush" where
  "items_push_from_cbor c =
    (let ty = ''ItemsPush'' in
     rbind (struct_map c ty) (\<lambda>m.
     rbind (req_dec m 0 ty b16_from_cbor) (\<lambda>collection.
     rbind (req1_dec m 1 ty (vec_from_cbor seq_item_from_cbor)) (\<lambda>items.
     rbind (req_dec m 2 ty u64_from_cbor) (\<lambda>head.
     rbind (req_dec m 3 ty b32_from_cbor) (\<lambda>head_chain.
     Ok \<lparr>ip_collection = collection, ip_items = items, ip_head = head,
         ip_head_chain = head_chain\<rparr>))))))"

record ClosedPush =
  cp_collection :: b16
  cp_reason :: bytes

definition closed_push_to_cbor :: "ClosedPush \<Rightarrow> Cbor" where
  "closed_push_to_cbor v = CMap (
      req_enc 0 (b16_to_cbor (cp_collection v))
    @ req_enc 1 (CText (cp_reason v)))"

definition closed_push_from_cbor :: "Cbor \<Rightarrow> SchemaError + ClosedPush" where
  "closed_push_from_cbor c =
    (let ty = ''ClosedPush'' in
     rbind (struct_map c ty) (\<lambda>m.
     rbind (req_dec m 0 ty b16_from_cbor) (\<lambda>collection.
     rbind (req_dec m 1 ty string_from_cbor) (\<lambda>reason.
     Ok \<lparr>cp_collection = collection, cp_reason = reason\<rparr>))))"

record StreamRef =
  sf_collection :: b16
  sf_stream :: b16

definition stream_ref_to_cbor :: "StreamRef \<Rightarrow> Cbor" where
  "stream_ref_to_cbor v = CMap (
      req_enc 0 (b16_to_cbor (sf_collection v))
    @ req_enc 1 (b16_to_cbor (sf_stream v)))"

definition stream_ref_from_cbor :: "Cbor \<Rightarrow> SchemaError + StreamRef" where
  "stream_ref_from_cbor c =
    (let ty = ''StreamRef'' in
     rbind (struct_map c ty) (\<lambda>m.
     rbind (req_dec m 0 ty b16_from_cbor) (\<lambda>collection.
     rbind (req_dec m 1 ty b16_from_cbor) (\<lambda>stream.
     Ok \<lparr>sf_collection = collection, sf_stream = stream\<rparr>))))"

record StreamSendParams =
  ss_collection :: b16
  ss_stream :: b16
  ss_message :: bytes

definition stream_send_params_to_cbor :: "StreamSendParams \<Rightarrow> Cbor" where
  "stream_send_params_to_cbor v = CMap (
      req_enc 0 (b16_to_cbor (ss_collection v))
    @ req_enc 1 (b16_to_cbor (ss_stream v))
    @ req_enc 2 (CBytes (ss_message v)))"

definition stream_send_params_from_cbor :: "Cbor \<Rightarrow> SchemaError + StreamSendParams" where
  "stream_send_params_from_cbor c =
    (let ty = ''StreamSendParams'' in
     rbind (struct_map c ty) (\<lambda>m.
     rbind (req_dec m 0 ty b16_from_cbor) (\<lambda>collection.
     rbind (req_dec m 1 ty b16_from_cbor) (\<lambda>stream.
     rbind (req_dec m 2 ty bytes_from_cbor) (\<lambda>message.
     Ok \<lparr>ss_collection = collection, ss_stream = stream, ss_message = message\<rparr>)))))"

record StreamMsg =
  sm_collection :: b16
  sm_stream :: b16
  sm_from :: b16
  sm_message :: bytes

definition stream_msg_to_cbor :: "StreamMsg \<Rightarrow> Cbor" where
  "stream_msg_to_cbor v = CMap (
      req_enc 0 (b16_to_cbor (sm_collection v))
    @ req_enc 1 (b16_to_cbor (sm_stream v))
    @ req_enc 2 (b16_to_cbor (sm_from v))
    @ req_enc 3 (CBytes (sm_message v)))"

definition stream_msg_from_cbor :: "Cbor \<Rightarrow> SchemaError + StreamMsg" where
  "stream_msg_from_cbor c =
    (let ty = ''StreamMsg'' in
     rbind (struct_map c ty) (\<lambda>m.
     rbind (req_dec m 0 ty b16_from_cbor) (\<lambda>collection.
     rbind (req_dec m 1 ty b16_from_cbor) (\<lambda>stream.
     rbind (req_dec m 2 ty b16_from_cbor) (\<lambda>sender.
     rbind (req_dec m 3 ty bytes_from_cbor) (\<lambda>message.
     Ok \<lparr>sm_collection = collection, sm_stream = stream, sm_from = sender,
         sm_message = message\<rparr>))))))"

datatype StreamEventKind = Joined | Left

fun stream_event_kind_value :: "StreamEventKind \<Rightarrow> u64" where
  "stream_event_kind_value Joined = 0"
| "stream_event_kind_value Left = 1"

definition stream_event_kind_to_cbor :: "StreamEventKind \<Rightarrow> Cbor" where
  "stream_event_kind_to_cbor v = Uint (stream_event_kind_value v)"

definition stream_event_kind_from_cbor :: "Cbor \<Rightarrow> SchemaError + StreamEventKind" where
  "stream_event_kind_from_cbor = enum_from_cbor ''StreamEventKind'' (map (\<lambda>v. (stream_event_kind_value v, v)) [Joined, Left])"

record StreamEvent =
  ev_collection :: b16
  ev_stream :: b16
  ev_device :: b16
  ev_event :: StreamEventKind

definition stream_event_to_cbor :: "StreamEvent \<Rightarrow> Cbor" where
  "stream_event_to_cbor v = CMap (
      req_enc 0 (b16_to_cbor (ev_collection v))
    @ req_enc 1 (b16_to_cbor (ev_stream v))
    @ req_enc 2 (b16_to_cbor (ev_device v))
    @ req_enc 3 (stream_event_kind_to_cbor (ev_event v)))"

definition stream_event_from_cbor :: "Cbor \<Rightarrow> SchemaError + StreamEvent" where
  "stream_event_from_cbor c =
    (let ty = ''StreamEvent'' in
     rbind (struct_map c ty) (\<lambda>m.
     rbind (req_dec m 0 ty b16_from_cbor) (\<lambda>collection.
     rbind (req_dec m 1 ty b16_from_cbor) (\<lambda>stream.
     rbind (req_dec m 2 ty b16_from_cbor) (\<lambda>device.
     rbind (req_dec m 3 ty stream_event_kind_from_cbor) (\<lambda>event.
     Ok \<lparr>ev_collection = collection, ev_stream = stream, ev_device = device,
         ev_event = event\<rparr>))))))"

subsection \<open>Codecs\<close>

interpretation wire_seq_item: wire_total seq_item_to_cbor seq_item_from_cbor "\<lambda>v. length (sq_item v) < 2 ^ 64" 1
  by unfold_locales (simp_all add: seq_item_to_cbor_def seq_item_from_cbor_def array_def)

interpretation wire_append_params: wire_total append_params_to_cbor append_params_from_cbor
  "\<lambda>p. ap_items p \<noteq> [] \<and> length (ap_items p) < 2 ^ 64 \<and> list_all (\<lambda>b. length b < 2 ^ 64) (ap_items p)" 2
proof
  fix p :: AppendParams and d :: nat
  assume p: "ap_items p \<noteq> [] \<and> length (ap_items p) < 2 ^ 64 \<and> list_all (\<lambda>b. length b < 2 ^ 64) (ap_items p)"
  show "append_params_from_cbor (append_params_to_cbor p) = Inr p"
    using p by (simp add: append_params_from_cbor_def append_params_to_cbor_def codec_simps bstr.vec_from_to)
  show "cbor_rep (append_params_to_cbor p)"
    using p unfolding append_params_to_cbor_def by (intro struct_rep) (simp_all add: bstr.vec_rep length_enc)
  show "in_profile d (append_params_to_cbor p)" if "d + 2 \<le> MAX_DEPTH"
    unfolding append_params_to_cbor_def
    by (rule in_profile_struct, use that in simp, intro ascending_intros) (use that p in \<open>simp_all add: bstr.vec_profile\<close>)
qed

lemmas append_result_defs = appended_to_cbor_def head_moved_to_cbor_def duplicate_to_cbor_def
  appended_from_cbor_def head_moved_from_cbor_def duplicate_from_cbor_def

lemma append_result_ascending:
  "\<exists>m. append_result_to_cbor v = CMap m \<and> ascending 0 m \<and> (\<forall>d. d + 1 \<le> MAX_DEPTH \<longrightarrow>
    list_all (in_profile (d + 1)) (map snd m))"
  by (cases v; simp add: append_result_defs; intro conjI ascending_intros; simp)

interpretation wire_append_result: wire_total append_result_to_cbor append_result_from_cbor "\<lambda>_. True" 1
proof
  show "append_result_from_cbor (append_result_to_cbor v) = Inr v" for v
    by (cases v) (simp_all add: append_result_from_cbor_def append_result_defs Let_def codec_simps)
  show "cbor_rep (append_result_to_cbor v)" for v
    by (cases v) (simp_all add: append_result_defs cbor_rep_struct length_enc req_enc_def)
  show "in_profile d (append_result_to_cbor v)" if "d + 1 \<le> MAX_DEPTH" for d v
    using append_result_ascending [of v] that in_profile_struct [of d] by auto
qed

interpretation wire_snapshot_pointer: wire_total snapshot_pointer_to_cbor snapshot_pointer_from_cbor "\<lambda>_. True" 1
proof
  show "snapshot_pointer_from_cbor (snapshot_pointer_to_cbor v) = Inr v" for v
    by (simp add: snapshot_pointer_from_cbor_def snapshot_pointer_to_cbor_def)
  show "cbor_rep (snapshot_pointer_to_cbor v)" for v
    unfolding snapshot_pointer_to_cbor_def by (rule struct_rep) (simp_all add: length_enc)
  show "in_profile d (snapshot_pointer_to_cbor v)" if "d + 1 \<le> MAX_DEPTH" for d v
    unfolding snapshot_pointer_to_cbor_def
    by (rule in_profile_struct, use that in simp, intro ascending_intros) (use that in simp_all)
qed

definition read_result_rep :: "ReadResult \<Rightarrow> bool" where
  "read_result_rep r \<longleftrightarrow> length (rr_items r) < 2 ^ 64 \<and> list_all (\<lambda>v. length (sq_item v) < 2 ^ 64) (rr_items r)"

interpretation wire_read_result: wire_total read_result_to_cbor read_result_from_cbor read_result_rep 3
proof
  fix r :: ReadResult and d :: nat
  assume r: "read_result_rep r"
  show "read_result_from_cbor (read_result_to_cbor r) = Inr r"
    using r by (cases "rr_snapshot r")
      (simp_all add: read_result_from_cbor_def read_result_to_cbor_def read_result_rep_def codec_simps
        wire_seq_item.vec_from_to wire_snapshot_pointer.from_to)
  show "cbor_rep (read_result_to_cbor r)"
    using r unfolding read_result_to_cbor_def
    by (intro struct_rep) (auto simp: read_result_rep_def wire_seq_item.vec_rep length_enc req_enc_def opt_enc_def
        wire_snapshot_pointer.to_rep split: option.splits)
  show "in_profile d (read_result_to_cbor r)" if "d + 3 \<le> MAX_DEPTH"
    unfolding read_result_to_cbor_def
    by (rule in_profile_struct, use that in simp, intro ascending_intros)
      (use that r in \<open>simp_all add: read_result_rep_def wire_seq_item.vec_profile option.pred_map comp_def
        wire_snapshot_pointer.to_profile option.pred_True\<close>)
qed

definition read_result_to_bytes :: "ReadResult \<Rightarrow> CborError + bytes" where
  "read_result_to_bytes = to_bytes read_result_to_cbor"

definition read_result_from_bytes :: "bytes \<Rightarrow> SchemaError + ReadResult" where
  "read_result_from_bytes = from_bytes read_result_from_cbor"

text \<open>The outcome of an append always encodes, and a client decodes exactly the outcome the
  service computed: appended, head moved and duplicate are never confused.\<close>

theorem append_result_round_trip:
  "\<exists>bs. to_bytes append_result_to_cbor v = Inr bs \<and> from_bytes append_result_from_cbor bs = Inr v"
  by (intro wire_append_result.bytes_total_round_trip) (simp_all add: MAX_DEPTH_def)

text \<open>A page of a read encodes, and decodes back to the same page.\<close>

theorem read_result_round_trip:
  assumes "read_result_rep r"
  shows "\<exists>bs. read_result_to_bytes r = Inr bs \<and> read_result_from_bytes bs = Inr r"
  unfolding read_result_to_bytes_def read_result_from_bytes_def
  using assms by (intro wire_read_result.bytes_total_round_trip) (simp_all add: MAX_DEPTH_def)

definition sample_page :: ReadResult where
  "sample_page = \<lparr>rr_items = [\<lparr>sq_seq = 4, sq_item = [1, 2]\<rparr>], rr_head = 4, rr_head_chain = 7,
     rr_retained_from = 1, rr_behind = False,
     rr_snapshot = Some \<lparr>sp_seq = 3, sp_manifest = 5, sp_author = 6, sp_created_at = 8, sp_endorsed = True\<rparr>,
     rr_more = False\<rparr>"

theorem read_result_round_trip_witness:
  "\<exists>bs. read_result_to_bytes sample_page = Inr bs \<and> read_result_from_bytes bs = Inr sample_page"
  by (rule read_result_round_trip) (simp add: read_result_rep_def sample_page_def)

end
