(* ===== verification/LogAppend.thy ===== *)
theory LogAppend
  imports MemBackend LogWire
begin

text \<open>
  The append path of \<open>log-service/src/service.rs\<close>: authorisation, the status gate, rate
  limits, the policy gate of one item (\<open>check_item\<close>) and the conditional append
  (\<open>append_with_budget\<close>) on the memory backend.

  \<open>Service\<close> is the whole service over that backend: one \<open>MemCollection\<close> per collection
  (created empty on first use), the object store and its archive, the service-wide revocations and
  deletion floor, the rate-limit buckets and the credential cache.  Because a write transaction
  holds the collection's lock from its begin to its commit, a call is one atomic step.  An
  \<open>unwrap\<close>, \<open>expect\<close>, index or \<open>unreachable!\<close> that fails is the fault
  \<open>Panic\<close>, next to the ordinary errors \<open>Fail\<close>.
\<close>

subsection \<open>The service\<close>

datatype fault = Panic | Fail ServiceError

record Bucket =
  bk_items_milli :: u64
  bk_bytes :: u64
  bk_at :: i64

record Service =
  sv_cols :: "b16 \<Rightarrow> MemCollection"
  sv_revoked :: "b16 set"
  sv_deletions :: "(b16, DeletionRecord) bmap"
  sv_objects :: "string \<Rightarrow> bytes option"
  sv_archive :: "string \<Rightarrow> bytes option"
  sv_buckets :: "(b16, Bucket) bmap"
  sv_creds :: "(b16, bool \<times> i64) bmap"

definition service_new :: Service where
  "service_new = \<lparr>sv_cols = (\<lambda>_. mem_empty), sv_revoked = {}, sv_deletions = [], sv_objects = Map.empty,
     sv_archive = Map.empty, sv_buckets = [], sv_creds = []\<rparr>"

definition set_col :: "b16 \<Rightarrow> MemCollection \<Rightarrow> Service \<Rightarrow> Service" where
  "set_col c g s = s\<lparr>sv_cols := (sv_cols s)(c := g)\<rparr>"

definition ref_index_kind :: "ObjectMeta \<Rightarrow> bool" where
  "ref_index_kind m \<longleftrightarrow> om_kind m = item_kind_value RefIndex"

subsection \<open>Status and authorisation\<close>

fun live :: "Status \<Rightarrow> ServiceError + unit" where
  "live Live = Ok ()"
| "live Gone = Err (err_new CodeGone)"
| "live Importing = Err (err_retry (err_msg (err_new CodeUnavailable) ''collection is being restored'') 5000)"

fun not_gone :: "Status \<Rightarrow> ServiceError + unit" where
  "not_gone Gone = Err (err_new CodeGone)"
| "not_gone _ = Ok ()"

definition require_cp :: "Principal \<Rightarrow> ServiceError + unit" where
  "require_cp p = (case p of ControlPlane \<Rightarrow> Ok () | _ \<Rightarrow> Err (err_reason CodeForbidden ''principal''))"

definition authorize :: "CollectionSt \<Rightarrow> Principal \<Rightarrow> ServiceError + AclEntry option" where
  "authorize st p =
    (case p of
       ControlPlane \<Rightarrow> Ok None
     | Device d sign_pk collection \<Rightarrow>
         if (case collection of Some c \<Rightarrow> c \<noteq> cm_id (st_meta st) | None \<Rightarrow> False) then
           Err (err_reason CodeForbidden ''token_collection'')
         else
           (case map_of (st_acl st) d of
              Some e \<Rightarrow>
                if ac_active e \<and> ac_sign_pk e = sign_pk then Ok (Some e)
                else if \<not> ac_active e then Err (err_reason CodeForbidden ''revoked'')
                else Err (err_reason CodeForbidden ''not_enrolled'')
            | None \<Rightarrow> Err (err_reason CodeForbidden ''not_enrolled'')))"

definition svc_load :: "MemCollection \<Rightarrow> ServiceError + CollectionSt" where
  "svc_load g = ok_or (mb_state g) (err_new CodeNotFound)"

definition CREDENTIAL_RECHECK_MS :: i64 where
  "CREDENTIAL_RECHECK_MS = 30000"

definition check_credentials :: "Principal \<Rightarrow> i64 \<Rightarrow> bool \<Rightarrow> Service \<Rightarrow> Service \<times> (ServiceError + unit)" where
  "check_credentials p now fresh s =
    (case p of
       ControlPlane \<Rightarrow> (s, Ok ())
     | Device d _ _ \<Rightarrow>
         let (s, revoked) =
           (case map_of (sv_creds s) d of
              Some (True, _) \<Rightarrow> (s, True)
            | cached \<Rightarrow>
                if (case cached of Some (_, at) \<Rightarrow> \<not> fresh \<and> now - at <s CREDENTIAL_RECHECK_MS | None \<Rightarrow> False)
                then (s, False)
                else let r = (d \<in> sv_revoked s) in (s\<lparr>sv_creds := bm_insert d (r, now) (sv_creds s)\<rparr>, r)) in
         (s, if revoked then Err (err_reason CodeForbidden ''credentials_revoked'') else Ok ()))"

definition revoke_device_credentials :: "Principal \<Rightarrow> b16 \<Rightarrow> i64 \<Rightarrow> Service \<Rightarrow> Service \<times> (ServiceError + unit)" where
  "revoke_device_credentials p d now s =
    (case require_cp p of
       Inl e \<Rightarrow> (s, Err e)
     | Inr _ \<Rightarrow> (s\<lparr>sv_revoked := insert d (sv_revoked s), sv_creds := bm_insert d (True, now) (sv_creds s)\<rparr>, Ok ()))"

subsection \<open>Rate limits\<close>

definition clamp_dt :: "i64 \<Rightarrow> u64" where
  "clamp_dt d = (if d <s 0 then 0 else if 3600000 <s d then 3600000 else d)"

definition refill :: "Quotas \<Rightarrow> i64 \<Rightarrow> Bucket \<Rightarrow> Bucket" where
  "refill q now e =
    (let cap_items = sat_mul (qu_burst_items q) 1000;
         cap_bytes = sat_mul (qu_bytes_per_s q) 4;
         dt = clamp_dt (now - bk_at e) in
     \<lparr>bk_items_milli = min (sat_add (bk_items_milli e) (sat_mul dt (qu_items_per_s q))) cap_items,
      bk_bytes = min (sat_add (bk_bytes e) (sat_mul dt (qu_bytes_per_s q) div 1000)) cap_bytes,
      bk_at = now\<rparr>)"

definition rate_check ::
  "b16 \<Rightarrow> Quotas \<Rightarrow> u64 \<Rightarrow> u64 \<Rightarrow> i64 \<Rightarrow> (b16, Bucket) bmap \<Rightarrow> (b16, Bucket) bmap \<times> (ServiceError + unit)" where
  "rate_check c q items bs now b =
    (let e = (case map_of b c of
                Some e \<Rightarrow> e
              | None \<Rightarrow> \<lparr>bk_items_milli = sat_mul (qu_burst_items q) 1000, bk_bytes = sat_mul (qu_bytes_per_s q) 4, bk_at = now\<rparr>);
         e = refill q now e;
         need_i = items * 1000 in
     if bk_items_milli e < need_i \<or> bk_bytes e < bs then
       let wait_i = sat_sub need_i (bk_items_milli e) div max (qu_items_per_s q) 1;
           wait_b = sat_mul (sat_sub bs (bk_bytes e)) 1000 div max (qu_bytes_per_s q) 1 in
       (bm_insert c e b, Err (err_retry (err_new CodeRateLimited) (max (max wait_i wait_b) 1)))
     else
       (bm_insert c (e\<lparr>bk_items_milli := bk_items_milli e - need_i, bk_bytes := bk_bytes e - bs\<rparr>) b, Ok ()))"

definition REPAIR_ITEMS_PER_S :: u64 where "REPAIR_ITEMS_PER_S = 200"
definition REPAIR_BURST_ITEMS :: u64 where "REPAIR_BURST_ITEMS = 2000"

definition repair_rate_check ::
  "b16 \<Rightarrow> u64 \<Rightarrow> i64 \<Rightarrow> (b16, Bucket) bmap \<Rightarrow> (b16, Bucket) bmap \<times> (ServiceError + unit)" where
  "repair_rate_check uploader items now b =
    (let q = \<lparr>qu_storage_bytes = 0, qu_items_per_s = REPAIR_ITEMS_PER_S, qu_bytes_per_s = (- 1) div 8,
              qu_burst_items = REPAIR_BURST_ITEMS\<rparr>;
         key = uploader XOR push_bit 120 0xa5;
         (b, r) = rate_check key q items 0 now b in
     (b, map_err (\<lambda>e. e\<lparr>se_reason := Some ''repair''\<rparr>) r))"

subsection \<open>The policy gate of one item\<close>

definition item_msg :: "nat \<Rightarrow> string" where
  "item_msg i = ''item '' @ show_nat i"

definition check_content :: "CollectionSt \<Rightarrow> Item \<Rightarrow> nat \<Rightarrow> AclEntry \<Rightarrow> ServiceError + unit" where
  "check_content ws it i e =
    (let role = map_of (cm_members (st_meta ws)) (ac_account e);
         writer = (case role of Some r \<Rightarrow> 1 \<le> r | None \<Rightarrow> False);
         hosted_ok = (ac_kind e = HOSTED \<and> cm_cstate (st_meta ws) = 1) in
     if \<not> (writer \<or> hosted_ok) then Err (err_reason CodeForbidden ''role'')
     else if cm_frozen (st_meta ws) then Err (err_reason CodeFrozen ''frozen'')
     else if cm_rekey_required (st_meta ws) then Err (err_reason CodeFrozen ''rekey_required'')
     else if it_epoch it \<noteq> Some (cm_epoch (st_meta ws)) then Err (err_msg (err_invalid ''epoch'') (item_msg i))
     else Ok ())"

definition check_key_grant ::
  "CollectionSt \<Rightarrow> Item \<Rightarrow> nat \<Rightarrow> AclEntry \<Rightarrow> Usage \<Rightarrow> Usage \<times> (ServiceError + unit)" where
  "check_key_grant ws it i e u =
    (let role = map_of (cm_members (st_meta ws)) (ac_account e);
         writer = (case role of Some r \<Rightarrow> 1 \<le> r | None \<Rightarrow> False);
         cloud_service = ((ac_kind e = HOSTED \<or> ac_kind e = ESCROW) \<and> cm_cstate (st_meta ws) = 1);
         ordinary = (writer \<or> cloud_service);
         recovery_member = (ac_kind e = RECOVERY \<and> role \<noteq> None) in
     if \<not> (ordinary \<or> recovery_member) then (u, Err (err_reason CodeForbidden ''role''))
     else if cm_rekey_required (st_meta ws) then (u, Err (err_reason CodeFrozen ''rekey_required''))
     else
       (case budget_wire key_grant_payload_from_cbor (it_body it) u of
          (u, Inl err) \<Rightarrow> (u, Err err)
        | (u, Inr g) \<Rightarrow>
            if kg_epoch g \<noteq> cm_epoch (st_meta ws) then (u, Err (err_msg (err_invalid ''epoch'') (item_msg i)))
            else if \<not> ordinary \<and> \<not> (case map_of (st_acl ws) (kg_recipient g) of
                 Some r \<Rightarrow> ac_active r \<and> ac_account r = ac_account e \<and> ac_kind r \<le> 3 \<and> kw_device (kg_wrap g) = ac_device r
               | None \<Rightarrow> False) then (u, Err (err_reason CodeForbidden ''role''))
            else (u, Ok ())))"

definition check_grant_approval :: "CollectionSt \<Rightarrow> Item \<Rightarrow> nat \<Rightarrow> AclEntry \<Rightarrow> ServiceError + unit" where
  "check_grant_approval ws it i e =
    (if map_of (cm_members (st_meta ws)) (ac_account e) = None \<or> ac_kind e = ESCROW \<or> ac_kind e = HOSTED then
       Err (err_reason CodeForbidden ''role'')
     else if cm_rekey_required (st_meta ws) then Err (err_reason CodeFrozen ''rekey_required'')
     else if it_epoch it \<noteq> Some (cm_epoch (st_meta ws)) then Err (err_msg (err_invalid ''epoch'') (item_msg i))
     else Ok ())"

text \<open>Who signs: an active device of the collection, with a valid signature and, for an escrow
  device, a key item only.\<close>

definition check_signer :: "crypto \<Rightarrow> CollectionSt \<Rightarrow> Item \<Rightarrow> nat \<Rightarrow> fault + AclEntry" where
  "check_signer cr ws it i =
    rbind (ok_or (it_signer it) Panic) (\<lambda>signer.
    rbind (ok_or (case map_of (st_acl ws) signer of Some e \<Rightarrow> if ac_active e then Some e else None | None \<Rightarrow> None)
      (Fail (err_reason CodeForbidden ''revoked''))) (\<lambda>e.
    rbind (map_err (\<lambda>_. Fail (err_invalid ''shape'')) (item_signed_digest (cr_sha256 cr) it)) (\<lambda>digest.
    rbind (ok_or (it_sig it) Panic) (\<lambda>sig.
    if \<not> cr_verify cr (ac_sign_pk e) digest sig then Err (Fail (err_msg (err_invalid ''signature'') (item_msg i)))
    else if ac_kind e = ESCROW \<and> \<not> (it_kind it = Rekey \<or> it_kind it = KeyGrant) then
      Err (Fail (err_reason CodeForbidden ''kind''))
    else Ok e))))"

definition check_item ::
  "crypto \<Rightarrow> CollectionSt \<Rightarrow> Item \<Rightarrow> u64 \<Rightarrow> nat \<Rightarrow> b32 list \<Rightarrow> Usage \<Rightarrow> Usage \<times> (fault + CollectionSt \<times> b16 list)" where
  "check_item cr ws it seq i roots u =
    (if it_kind it = Policy then apsnd (map_err Fail) (apply_policy_with_budget cr ws it seq roots u)
     else
       (case check_signer cr ws it i of
          Inl f \<Rightarrow> (u, Err f)
        | Inr e \<Rightarrow>
            (case it_kind it of
               Entry \<Rightarrow> (u, rbind (map_err Fail (check_content ws it i e)) (\<lambda>_. Ok (ws, [])))
             | Base \<Rightarrow> (u, rbind (map_err Fail (check_content ws it i e)) (\<lambda>_. Ok (ws, [])))
             | Rekey \<Rightarrow> apsnd (\<lambda>r. rbind (map_err Fail r) (\<lambda>ws. Ok (ws, []))) (apply_rekey_with_budget ws it u)
             | KeyGrant \<Rightarrow> apsnd (\<lambda>r. rbind (map_err Fail r) (\<lambda>_. Ok (ws, []))) (check_key_grant ws it i e u)
             | GrantApproval \<Rightarrow> (u, rbind (map_err Fail (check_grant_approval ws it i e)) (\<lambda>_. Ok (ws, [])))
             | _ \<Rightarrow> (u, Err Panic))))"

subsection \<open>Append\<close>

record RepairAppend =
  ra_collection :: b16
  ra_uploader :: b16
  ra_first :: u64
  ra_last :: u64
  ra_foreign_items :: u64

record Outcome =
  oc_result :: Cbor
  oc_notice :: "CommitNotice option"
  oc_items :: "(u64 \<times> bytes) list"
  oc_credentials_revoked :: "b16 option"
  oc_repair :: "RepairAppend option"

definition plain :: "Cbor \<Rightarrow> Outcome" where
  "plain r = \<lparr>oc_result = r, oc_notice = None, oc_items = [], oc_credentials_revoked = None, oc_repair = None\<rparr>"

text \<open>Step 3: counts and sizes, then each item decoded and checked on its own.\<close>

definition batch_bytes :: "bytes list \<Rightarrow> u64" where
  "batch_bytes bs = sum_list (map (\<lambda>b. of_nat (length b)) bs)"

definition append_counts :: "AppendParams \<Rightarrow> ServiceError + unit" where
  "append_counts ps =
    (let n = length (ap_items ps) in
     if n = 0 then Err (err_msg (err_invalid ''shape'') ''empty batch'')
     else if MAX_BATCH_ITEMS < n then Err (err_reason CodeTooLarge ''batch_items'')
     else if ap_expect_seq ps = 0 \<or> 2 ^ 64 \<le> unat (ap_expect_seq ps) + n then
       Err (err_msg (err_invalid ''shape'') ''expect_seq'')
     else if MAX_BATCH_BYTES < batch_bytes (ap_items ps) then Err (err_reason CodeTooLarge ''batch_bytes'')
     else Ok ())"

definition parse_item :: "Principal \<Rightarrow> b16 \<Rightarrow> u64 \<Rightarrow> nat \<Rightarrow> bytes \<Rightarrow> Usage \<Rightarrow> Usage \<times> (ServiceError + Item)" where
  "parse_item p c expect_seq i b u =
    (if MAX_ITEM_BYTES < of_nat (length b) then (u, Err (err_reason CodeTooLarge ''item_bytes''))
     else
       (case budget_wire item_from_cbor b u of
          (u, Inl e) \<Rightarrow> (u, Err e)
        | (u, Inr it) \<Rightarrow>
            (u, rbind (map_err (\<lambda>e. err_msg (err_invalid ''shape'') (item_msg i @ '': '' @ schema_error_display e)) (check_shape it)) (\<lambda>_.
                if it_collection it \<noteq> c \<or> \<not> is_log_item (it_kind it) then
                  Err (err_msg (err_invalid ''shape'') (item_msg i @ '': collection or kind''))
                else if it_seq it \<noteq> Some (expect_seq + of_nat i) then
                  Err (err_msg (err_invalid ''shape'') (item_msg i @ '': seq''))
                else if (case it_refs it of Some r \<Rightarrow> MAX_REFS_PER_ITEM < length r | None \<Rightarrow> False) then
                  Err (err_reason CodeTooLarge ''refs'')
                else if p = ControlPlane \<and> it_kind it \<noteq> Policy then Err (err_reason CodeForbidden ''kind'')
                else Ok it))))"

fun parse_items :: "Principal \<Rightarrow> b16 \<Rightarrow> u64 \<Rightarrow> nat \<Rightarrow> bytes list \<Rightarrow> Usage \<Rightarrow> Usage \<times> (ServiceError + Item list)" where
  "parse_items p c expect_seq i [] u = (u, Ok [])"
| "parse_items p c expect_seq i (b # bs) u =
    (case parse_item p c expect_seq i b u of
       (u, Inl e) \<Rightarrow> (u, Err e)
     | (u, Inr it) \<Rightarrow>
         (case parse_items p c expect_seq (i + 1) bs u of
            (u, Inl e) \<Rightarrow> (u, Err e)
          | (u, Inr its) \<Rightarrow> (u, Ok (it # its))))"

definition repair_items :: "Principal \<Rightarrow> Item list \<Rightarrow> u64" where
  "repair_items p items =
    (case p of
       ControlPlane \<Rightarrow> 0
     | Device d _ _ \<Rightarrow> of_nat (length (filter (\<lambda>it. it_signer it \<noteq> Some d) items)))"

definition is_content :: "Item list \<Rightarrow> bool" where
  "is_content items = list_ex (\<lambda>it. it_kind it = Entry \<or> it_kind it = Base) items"

text \<open>Step 4: an append that already landed gets its receipt again.\<close>

definition append_replay :: "crypto \<Rightarrow> AppendParams \<Rightarrow> u64 \<Rightarrow> MemCollection \<Rightarrow> fault + Outcome option" where
  "append_replay cr ps hd_pos g =
    (let es = ap_expect_seq ps; n = length (ap_items ps) in
     if es \<le> hd_pos then
       let stored = mem_items g (es - 1) (of_nat n) (- 1) False;
           same = (length stored = n \<and> list_all (\<lambda>(s, b). es \<le> si_seq s \<and> si_bytes s = b) (zip stored (ap_items ps))) in
       if same then
         (if stored = [] then Err Panic
          else let l = last stored in
            Ok (Some (plain (append_result_to_cbor (ArAppended \<lparr>ad_first = es, ad_last = si_seq l,
              ad_head_chain = chain_hash (cr_sha256 cr) (si_bytes l), ad_appended_at = si_appended_at l\<rparr>)))))
       else Ok None
     else Ok None)"

text \<open>Steps 1, 2, 4 and 5: \<open>Inl\<close> is an outcome returned without a write, \<open>Inr\<close> the state
  the batch is judged against.\<close>

definition append_gate ::
  "crypto \<Rightarrow> Principal \<Rightarrow> AppendParams \<Rightarrow> Item list \<Rightarrow> MemCollection \<Rightarrow> fault + (Outcome + CollectionSt)" where
  "append_gate cr p ps items g =
    rbind (map_err Fail (svc_load g)) (\<lambda>st.
    rbind (map_err Fail (authorize st p)) (\<lambda>_.
    rbind (map_err Fail (live (cm_status (st_meta st)))) (\<lambda>_.
    rbind (append_replay cr ps (cm_head (st_meta st)) g) (\<lambda>replay.
    case replay of
      Some oc \<Rightarrow> Ok (Inl oc)
    | None \<Rightarrow>
        if is_content items \<and>
           qu_storage_bytes (cm_quotas (st_meta st)) < cm_used_bytes (st_meta st) + batch_bytes (ap_items ps) then
          Err (Fail (err_new CodeQuotaExceeded))
        else if ap_expect_seq ps \<noteq> cm_head (st_meta st) + 1 \<or> ap_expect_prev ps \<noteq> cm_head_chain (st_meta st) then
          Ok (Inl (plain (append_result_to_cbor (ArHeadMoved \<lparr>hm_head = cm_head (st_meta st),
            hm_head_chain = cm_head_chain (st_meta st)\<rparr>))))
        else Ok (Inr st)))))"

definition append_rates ::
  "Principal \<Rightarrow> b16 \<Rightarrow> Quotas \<Rightarrow> u64 \<Rightarrow> u64 \<Rightarrow> u64 \<Rightarrow> i64 \<Rightarrow> (b16, Bucket) bmap \<Rightarrow> (b16, Bucket) bmap \<times> (ServiceError + unit)" where
  "append_rates p c q n tot repair now b =
    (case p of
       ControlPlane \<Rightarrow> (b, Ok ())
     | Device d _ _ \<Rightarrow>
         (case rate_check c q n tot now b of
            (b, Inl e) \<Rightarrow> (b, Err e)
          | (b, Inr _) \<Rightarrow> if 0 < repair then repair_rate_check d repair now b else (b, Ok ())))"

text \<open>Step 6: the chain within the batch; the result is the chain value after it.\<close>

fun check_chain :: "crypto \<Rightarrow> nat \<Rightarrow> b32 \<Rightarrow> (Item \<times> bytes) list \<Rightarrow> ServiceError + b32" where
  "check_chain cr i prev [] = Ok prev"
| "check_chain cr i prev ((it, b) # xs) =
    (if it_prev it \<noteq> Some prev then Err (err_msg (err_invalid ''chain'') (item_msg i))
     else check_chain cr (i + 1) (chain_hash (cr_sha256 cr) b) xs)"

text \<open>Steps 7 and 8, item by item on a working copy.\<close>

fun check_items ::
  "crypto \<Rightarrow> CollectionSt \<Rightarrow> u64 \<Rightarrow> nat \<Rightarrow> Item list \<Rightarrow> b32 list \<Rightarrow> Usage \<Rightarrow> Usage \<times> (fault + CollectionSt \<times> b16 list)" where
  "check_items cr ws expect_seq i [] roots u = (u, Ok (ws, []))"
| "check_items cr ws expect_seq i (it # its) roots u =
    (case check_item cr ws it (expect_seq + of_nat i) i roots u of
       (u, Inl f) \<Rightarrow> (u, Err f)
     | (u, Inr (ws, revoked)) \<Rightarrow>
         (case check_items cr ws expect_seq (i + 1) its roots u of
            (u, Inl f) \<Rightarrow> (u, Err f)
          | (u, Inr (ws, later)) \<Rightarrow> (u, Ok (ws, revoked @ later))))"

text \<open>Step 9: the tokens of the batch with the index of their item.\<close>

fun scan_tokens :: "nat \<Rightarrow> b16 list \<Rightarrow> Item list \<Rightarrow> ServiceError + (b16 \<times> nat) list" where
  "scan_tokens i seen [] = Ok []"
| "scan_tokens i seen (it # its) =
    (case it_idem it of
       None \<Rightarrow> scan_tokens (i + 1) seen its
     | Some t \<Rightarrow>
         if t \<in> set seen then Err (err_msg (err_invalid ''shape'') ''token repeated within the batch'')
         else rbind (scan_tokens (i + 1) (t # seen) its) (\<lambda>ts. Ok ((t, i) # ts)))"

fun first_found :: "(nat \<times> u64 option) list \<Rightarrow> (nat \<times> u64) option" where
  "first_found [] = None"
| "first_found ((k, Some s) # xs) = Some (k, s)"
| "first_found ((k, None) # xs) = first_found xs"

definition append_tokens :: "MemCollection \<Rightarrow> i64 \<Rightarrow> Item list \<Rightarrow> ServiceError + Outcome option" where
  "append_tokens g now items =
    rbind (scan_tokens 0 [] items) (\<lambda>ts.
    Ok (map_option (\<lambda>(i, s). plain (append_result_to_cbor (ArDuplicate \<lparr>du_index = of_nat i, du_seq = s\<rparr>)))
      (first_found (zip (map snd ts) (mem_tokens g (map fst ts) now)))))"

text \<open>Step 10: every referenced object is committed, and none is a ref index.\<close>

definition batch_refs :: "Item list \<Rightarrow> b32 list" where
  "batch_refs items = sort (remdups (concat (map (\<lambda>it. case it_refs it of Some r \<Rightarrow> r | None \<Rightarrow> []) items)))"

definition append_refs :: "MemCollection \<Rightarrow> Item list \<Rightarrow> ServiceError + unit" where
  "append_refs g items =
    (let refs = batch_refs items; metas = mem_objects g refs;
         missing = filter (\<lambda>(_, m). \<not> (case m of Some m \<Rightarrow> om_committed m | None \<Rightarrow> False)) (zip refs metas) in
     if list_ex (\<lambda>m. case m of Some m \<Rightarrow> ref_index_kind m | None \<Rightarrow> False) metas then
       Err (err_msg (err_invalid ''kind'') ''ref-index outside a snapshot'')
     else if missing \<noteq> [] then
       Err ((err_new CodeRefsMissing)\<lparr>se_details := Some (CArray (map (\<lambda>(a, _). CBytes (be_bytes 32 a)) missing))\<rparr>)
     else Ok ())"

text \<open>Step 11: the writes of the transaction.\<close>

definition stored_item :: "u64 \<Rightarrow> Item \<Rightarrow> bytes \<Rightarrow> i64 \<Rightarrow> StoredItem" where
  "stored_item seq it b now = \<lparr>si_seq = seq, si_kind = item_kind_value (it_kind it), si_bytes = b, si_appended_at = now,
     si_token = it_idem it, si_refs = (case it_refs it of Some r \<Rightarrow> r | None \<Rightarrow> [])\<rparr>"

fun stored_items :: "u64 \<Rightarrow> i64 \<Rightarrow> (Item \<times> bytes) list \<Rightarrow> StoredItem list" where
  "stored_items seq now [] = []"
| "stored_items seq now ((it, b) # xs) = stored_item seq it b now # stored_items (seq + 1) now xs"

definition changed_acl :: "CollectionSt \<Rightarrow> CollectionSt \<Rightarrow> AclEntry list" where
  "changed_acl st ws = map snd (filter (\<lambda>(d, e). map_of (st_acl st) d \<noteq> Some e) (st_acl ws))"

definition append_commit ::
  "Principal \<Rightarrow> AppendParams \<Rightarrow> i64 \<Rightarrow> Item list \<Rightarrow> CollectionSt \<Rightarrow> CollectionSt \<Rightarrow> b16 list \<Rightarrow> b32 \<Rightarrow> MemCollection \<Rightarrow> MemCollection \<times> Outcome" where
  "append_commit p ps now items st ws revoked prev g =
    (let c = ap_collection ps; es = ap_expect_seq ps; n = length (ap_items ps);
         rows = stored_items es now (zip items (ap_items ps));
         m = (st_meta ws)\<lparr>cm_head := es + of_nat n - 1, cm_head_chain := prev,
              cm_used_bytes := cm_used_bytes (st_meta ws) + batch_bytes (ap_items ps)\<rparr>;
         notice = \<lparr>cn_collection = c, cn_first = es, cn_head = cm_head m, cn_head_chain = prev, cn_revoked = revoked,
              cn_gone = False\<rparr>;
         repair = repair_items p items in
     (mem_commit (map InsertItem rows @ map UpsertAcl (changed_acl st ws) @ [PutMeta m, Notify notice]) g,
      \<lparr>oc_result = append_result_to_cbor (ArAppended \<lparr>ad_first = es, ad_last = cm_head m, ad_head_chain = prev, ad_appended_at = now\<rparr>),
       oc_notice = Some notice, oc_items = map (\<lambda>r. (si_seq r, si_bytes r)) rows, oc_credentials_revoked = None,
       oc_repair = (case p of
           Device d _ _ \<Rightarrow> if 0 < repair then Some \<lparr>ra_collection = c, ra_uploader = d, ra_first = es, ra_last = cm_head m,
               ra_foreign_items = repair\<rparr> else None
         | ControlPlane \<Rightarrow> None)\<rparr>))"

text \<open>Steps 6 to 11 under the collection's lock: the collection after the call, and the outcome.\<close>

definition append_batch ::
  "crypto \<Rightarrow> b32 list \<Rightarrow> Principal \<Rightarrow> AppendParams \<Rightarrow> i64 \<Rightarrow> Item list \<Rightarrow> CollectionSt \<Rightarrow> MemCollection \<Rightarrow> Usage
    \<Rightarrow> Usage \<times> (fault + MemCollection \<times> Outcome)" where
  "append_batch cr roots p ps now items st g u =
    (case check_chain cr 0 (ap_expect_prev ps) (zip items (ap_items ps)) of
       Inl e \<Rightarrow> (u, Err (Fail e))
     | Inr prev \<Rightarrow>
         (case check_items cr st (ap_expect_seq ps) 0 items roots u of
            (u, Inl f) \<Rightarrow> (u, Err f)
          | (u, Inr (ws, revoked)) \<Rightarrow>
              (u, rbind (map_err Fail (append_tokens g now items)) (\<lambda>dup.
                  case dup of
                    Some oc \<Rightarrow> Ok (g, oc)
                  | None \<Rightarrow>
                      rbind (map_err Fail (append_refs g items)) (\<lambda>_.
                      Ok (append_commit p ps now items st ws revoked prev g))))))"

definition append_with_budget ::
  "crypto \<Rightarrow> b32 list \<Rightarrow> Principal \<Rightarrow> AppendParams \<Rightarrow> i64 \<Rightarrow> Usage \<Rightarrow> Service \<Rightarrow> Usage \<times> Service \<times> (fault + Outcome)" where
  "append_with_budget cr roots p ps now u s =
    (let c = ap_collection ps; g = sv_cols s c in
     case append_counts ps of
       Inl e \<Rightarrow> (u, s, Err (Fail e))
     | Inr _ \<Rightarrow>
    (case parse_items p c (ap_expect_seq ps) 0 (ap_items ps) u of
       (u, Inl e) \<Rightarrow> (u, s, Err (Fail e))
     | (u, Inr items) \<Rightarrow>
    (case append_gate cr p ps items g of
       Inl f \<Rightarrow> (u, s, Err f)
     | Inr (Inl oc) \<Rightarrow> (u, s, Ok oc)
     | Inr (Inr st) \<Rightarrow>
    (case append_rates p c (cm_quotas (st_meta st)) (of_nat (length (ap_items ps))) (batch_bytes (ap_items ps))
            (repair_items p items) now (sv_buckets s) of
       (b, Inl e) \<Rightarrow> (u, s\<lparr>sv_buckets := b\<rparr>, Err (Fail e))
     | (b, Inr _) \<Rightarrow>
    (let s = s\<lparr>sv_buckets := b\<rparr> in
     case append_batch cr roots p ps now items st g u of
       (u, Inl f) \<Rightarrow> (u, s, Err f)
     | (u, Inr (g, oc)) \<Rightarrow> (u, set_col c g s, Ok oc))))))"

definition svc_append :: "crypto \<Rightarrow> b32 list \<Rightarrow> Principal \<Rightarrow> AppendParams \<Rightarrow> i64 \<Rightarrow> Service \<Rightarrow> Service \<times> (fault + Outcome)" where
  "svc_append cr roots p ps now s = snd (append_with_budget cr roots p ps now budget_default s)"

end
