(* ===== verification/LogText.thy ===== *)
theory LogText
  imports MemBackend
begin

text \<open>
  Text forms: hexadecimal (\<open>wire/src/common.rs\<close>, \<open>wire/src/render.rs\<close>), UUIDs, object-store and
  archive keys and the notification payload of a commit (\<open>log-service/src/model.rs\<close>).

  A Rust \<open>str\<close> is its UTF-8 bytes, here a \<open>string\<close>.  \<open>from_str_radix\<close> and \<open>parse\<close>
  follow the standard library: a leading plus sign is accepted, an overflow is not.
\<close>

subsection \<open>Numbers and hexadecimal\<close>

definition hex_char :: "nat \<Rightarrow> char" where
  "hex_char n = (if n < 10 then char_of (48 + n) else char_of (87 + n))"

definition hex :: "bytes \<Rightarrow> string" where
  "hex bs = concat (map (\<lambda>b. [hex_char (unat b div 16), hex_char (unat b mod 16)]) bs)"

definition to_hex :: "nat \<Rightarrow> 'a::len word \<Rightarrow> string" where
  "to_hex n w = hex (be_bytes n w)"

definition hex_digit :: "char \<Rightarrow> nat option" where
  "hex_digit c =
    (let n = of_char c in
     if 48 \<le> n \<and> n \<le> 57 then Some (n - 48)
     else if 97 \<le> n \<and> n \<le> 102 then Some (n - 87)
     else if 65 \<le> n \<and> n \<le> 70 then Some (n - 55)
     else None)"

definition radix16 :: "char \<Rightarrow> char \<Rightarrow> u8 option" where
  "radix16 a b =
    (if a = CHR ''+'' then map_option of_nat (hex_digit b)
     else case (hex_digit a, hex_digit b) of (Some x, Some y) \<Rightarrow> Some (of_nat (16 * x + y)) | _ \<Rightarrow> None)"

fun unhex_pairs :: "string \<Rightarrow> bytes option" where
  "unhex_pairs [] = Some []"
| "unhex_pairs [c] = None"
| "unhex_pairs (a # b # s) =
    (case radix16 a b of None \<Rightarrow> None | Some x \<Rightarrow> map_option (\<lambda>r. x # r) (unhex_pairs s))"

definition unhex :: "string \<Rightarrow> bytes option" where
  "unhex s = (if length s mod 2 \<noteq> 0 then None else unhex_pairs s)"

definition unhex_fixed :: "nat \<Rightarrow> string \<Rightarrow> 'a::len word option" where
  "unhex_fixed n s = (case unhex s of Some b \<Rightarrow> if length b = n then Some (of_be b) else None | None \<Rightarrow> None)"

definition dec_digit :: "char \<Rightarrow> nat option" where
  "dec_digit c = (let n = of_char c in if 48 \<le> n \<and> n \<le> 57 then Some (n - 48) else None)"

fun parse_digits :: "nat \<Rightarrow> string \<Rightarrow> nat option" where
  "parse_digits acc [] = Some acc"
| "parse_digits acc (c # s) =
    (case dec_digit c of
       None \<Rightarrow> None
     | Some d \<Rightarrow> if 2 ^ 64 \<le> 10 * acc + d then None else parse_digits (10 * acc + d) s)"

definition parse_u64 :: "string \<Rightarrow> u64 option" where
  "parse_u64 s =
    (let t = (case s of c # r \<Rightarrow> if c = CHR ''+'' then r else s | [] \<Rightarrow> []) in
     if t = [] then None else map_option of_nat (parse_digits 0 t))"

definition show_u64 :: "u64 \<Rightarrow> string" where
  "show_u64 n = show_nat (unat n)"

subsection \<open>UUIDs and keys\<close>

definition to_uuid_string :: "b16 \<Rightarrow> string" where
  "to_uuid_string w =
    (let x = to_hex 16 w in
     take 8 x @ ''-'' @ take 4 (drop 8 x) @ ''-'' @ take 4 (drop 12 x) @ ''-'' @ take 4 (drop 16 x) @ ''-'' @ drop 20 x)"

definition parse_uuid :: "string \<Rightarrow> b16 option" where
  "parse_uuid s = unhex_fixed 16 (filter (\<lambda>c. c \<noteq> CHR ''-'') s)"

definition object_key :: "b16 \<Rightarrow> b32 \<Rightarrow> string" where
  "object_key c a = ''c/'' @ to_uuid_string c @ ''/'' @ to_hex 32 a"

definition archive_segment_key :: "b16 \<Rightarrow> RetentionTier \<Rightarrow> u64 \<Rightarrow> u64 \<Rightarrow> string" where
  "archive_segment_key c tier from to' =
    ''archive/'' @ tier_as_str tier @ ''/'' @ to_hex 16 c @ ''/segments/'' @ show_u64 from @ ''-'' @ show_u64 to'"

definition archive_object_key :: "b16 \<Rightarrow> RetentionTier \<Rightarrow> b32 \<Rightarrow> string" where
  "archive_object_key c tier a =
    ''archive/'' @ tier_as_str tier @ ''/'' @ to_hex 16 c @ ''/objects/'' @ to_hex 32 a"

definition staging_key :: "b16 \<Rightarrow> b32 \<Rightarrow> b16 \<Rightarrow> string" where
  "staging_key c a device = ''staging/c/'' @ to_uuid_string c @ ''/'' @ to_hex 32 a @ ''/'' @ to_hex 16 device"

subsection \<open>Commit notices\<close>

fun split_on :: "char \<Rightarrow> string \<Rightarrow> string list" where
  "split_on d [] = [[]]"
| "split_on d (c # s) =
    (if c = d then [] # split_on d s
     else case split_on d s of [] \<Rightarrow> [[c]] | w # ws \<Rightarrow> (c # w) # ws)"

definition notice_to_text :: "CommitNotice \<Rightarrow> string" where
  "notice_to_text n =
    show_u64 (cn_first n) @ '':'' @ show_u64 (cn_head n) @ '':'' @ to_hex 32 (cn_head_chain n) @ '':''
      @ show_nat (if cn_gone n then 1 else 0) @ '':'' @ to_hex 16 (cn_collection n)
      @ concat (map (\<lambda>d. '':'' @ to_hex 16 d) (cn_revoked n))"

fun unhex_all :: "string list \<Rightarrow> b16 list option" where
  "unhex_all [] = Some []"
| "unhex_all (d # ds) =
    (case unhex_fixed 16 d of None \<Rightarrow> None | Some x \<Rightarrow> map_option (\<lambda>r. x # r) (unhex_all ds))"

definition notice_from_text :: "string \<Rightarrow> CommitNotice option" where
  "notice_from_text s =
    (case split_on CHR '':'' s of
       f # hp # ch # g # c # ds \<Rightarrow>
         (case (parse_u64 f, parse_u64 hp, unhex_fixed 32 ch, unhex_fixed 16 c, unhex_all ds) of
            (Some first, Some hd_pos, Some chain, Some col, Some revoked) \<Rightarrow>
              Some \<lparr>cn_collection = col, cn_first = first, cn_head = hd_pos, cn_head_chain = chain, cn_revoked = revoked,
                cn_gone = (g = ''1'')\<rparr>
          | _ \<Rightarrow> None)
     | _ \<Rightarrow> None)"

subsection \<open>Round trips\<close>

lemma of_char_small [simp]: "n < 256 \<Longrightarrow> of_char (char_of n :: char) = (n :: nat)"
  by (simp add: of_char_of)

lemma hex_digit_char [simp]: "n < 16 \<Longrightarrow> hex_digit (hex_char n) = Some n"
  by (auto simp: hex_digit_def hex_char_def Let_def)

lemma hex_char_not [simp]:
  "n < 16 \<Longrightarrow> hex_char n \<noteq> CHR ''+''" "n < 16 \<Longrightarrow> hex_char n \<noteq> CHR ''-''" "n < 16 \<Longrightarrow> hex_char n \<noteq> CHR '':''"
  "n < 16 \<Longrightarrow> hex_char n \<noteq> CHR ''/''"
proof -
  have "of_char (hex_char n) \<noteq> (43 :: nat) \<and> of_char (hex_char n) \<noteq> (45 :: nat) \<and> of_char (hex_char n) \<noteq> (58 :: nat)
      \<and> of_char (hex_char n) \<noteq> (47 :: nat)" if "n < 16"
    using that by (auto simp: hex_char_def)
  moreover have "of_char CHR ''+'' = (43 :: nat)" "of_char CHR ''-'' = (45 :: nat)" "of_char CHR '':'' = (58 :: nat)"
      "of_char CHR ''/'' = (47 :: nat)" by simp_all
  ultimately show "n < 16 \<Longrightarrow> hex_char n \<noteq> CHR ''+''" "n < 16 \<Longrightarrow> hex_char n \<noteq> CHR ''-''" "n < 16 \<Longrightarrow> hex_char n \<noteq> CHR '':''"
      "n < 16 \<Longrightarrow> hex_char n \<noteq> CHR ''/''"
    by metis+
qed

lemma byte_nibbles: "unat (b :: u8) div 16 < 16" "unat b mod 16 < 16"
proof -
  have "unat b < 256" using unsigned_less [of b, where 'a = nat] by simp
  then show "unat (b :: u8) div 16 < 16" "unat b mod 16 < 16" by simp_all
qed

lemma hex_chars: "c \<in> set (hex bs) \<Longrightarrow> c \<noteq> CHR ''+'' \<and> c \<noteq> CHR ''-'' \<and> c \<noteq> CHR '':'' \<and> c \<noteq> CHR ''/''"
  using byte_nibbles by (auto simp: hex_def)

lemma length_hex [simp]: "length (hex bs) = 2 * length bs"
  by (induction bs) (simp_all add: hex_def)

lemma unhex_hex [simp]: "unhex (hex bs) = Some bs"
proof -
  have "unhex_pairs (hex bs) = Some bs"
  proof (induction bs)
    case (Cons b bs)
    have "radix16 (hex_char (unat b div 16)) (hex_char (unat b mod 16)) = Some b"
      using byte_nibbles [of b] by (simp add: radix16_def)
    then show ?case using Cons by (simp add: hex_def)
  qed (simp add: hex_def)
  then show ?thesis by (simp add: unhex_def)
qed

lemma unhex_fixed_to_hex: "8 * n = LENGTH('a) \<Longrightarrow> unhex_fixed n (to_hex n w) = Some (w :: 'a::len word)"
  by (simp add: unhex_fixed_def to_hex_def of_be_be_bytes)

lemma unhex_fixed_16 [simp]: "unhex_fixed 16 (to_hex 16 w) = Some w" for w :: b16
  by (rule unhex_fixed_to_hex) simp

lemma unhex_fixed_32 [simp]: "unhex_fixed 32 (to_hex 32 w) = Some w" for w :: b32
  by (rule unhex_fixed_to_hex) simp

lemma dec_digit_char [simp]: "n < 10 \<Longrightarrow> dec_digit (char_of (48 + n)) = Some n"
  by (simp add: dec_digit_def)

lemma parse_digits_append:
  "parse_digits acc (s @ t) = (case parse_digits acc s of None \<Rightarrow> None | Some a \<Rightarrow> parse_digits a t)"
  by (induction s arbitrary: acc) (auto split: option.splits)

lemma parse_digits_show: "n < 2 ^ 64 \<Longrightarrow> parse_digits 0 (show_nat n) = Some n"
proof (induction n rule: show_nat.induct)
  case (1 n)
  show ?case
  proof (cases "n < 10")
    case True
    then show ?thesis by (simp add: show_nat.simps)
  next
    case False
    then have "parse_digits 0 (show_nat (n div 10)) = Some (n div 10)" using 1 by simp
    then show ?thesis using False 1(2) by (subst show_nat.simps) (simp add: parse_digits_append)
  qed
qed

lemma show_nat_chars: "c \<in> set (show_nat n) \<Longrightarrow> 48 \<le> (of_char c :: nat) \<and> (of_char c :: nat) \<le> 57"
proof (induction n rule: show_nat.induct)
  case (1 n)
  then show ?case
    by (subst (asm) (2) show_nat.simps) (auto split: if_splits)
qed

lemma show_nat_nonempty [simp]: "show_nat n \<noteq> []"
  by (subst show_nat.simps) simp

lemma parse_show_u64 [simp]: "parse_u64 (show_u64 n) = Some n"
proof -
  have "unat n < 2 ^ 64" using unsigned_less [of n, where 'a = nat] by simp
  then have "parse_digits 0 (show_nat (unat n)) = Some (unat n)" by (rule parse_digits_show)
  moreover obtain c s where cs: "show_nat (unat n) = c # s" by (cases "show_nat (unat n)") auto
  moreover have "c \<noteq> CHR ''+''" using show_nat_chars [of c "unat n"] cs by (auto simp: of_char_def)
  ultimately show ?thesis by (simp add: parse_u64_def show_u64_def)
qed

lemma split_on_append: "d \<notin> set w \<Longrightarrow> split_on d (w @ d # s) = w # split_on d s"
  by (induction w) auto

lemma split_on_none: "d \<notin> set w \<Longrightarrow> split_on d w = [w]"
  by (induction w) auto

lemma to_hex_chars: "CHR ''-'' \<notin> set (to_hex n w)" "CHR '':'' \<notin> set (to_hex n w)" "CHR ''/'' \<notin> set (to_hex n w)"
  using hex_chars unfolding to_hex_def by blast+

lemma length_to_hex [simp]: "length (to_hex n w) = 2 * n"
  by (simp add: to_hex_def)

lemma filter_dash: "CHR ''-'' \<notin> set s \<Longrightarrow> filter (\<lambda>c. c \<noteq> CHR ''-'') s = s"
  by (induction s) auto

lemma take_drop_step: "take k (drop n x) @ drop (n + k) x = drop n x"
  using append_take_drop_id [of k "drop n x"] by (simp add: add.commute)

lemma parse_to_uuid [simp]: "parse_uuid (to_uuid_string w) = Some w"
proof -
  let ?x = "to_hex 16 w"
  have d: "filter (\<lambda>c. c \<noteq> CHR ''-'') (take i (drop j ?x)) = take i (drop j ?x)"
      "filter (\<lambda>c. c \<noteq> CHR ''-'') (drop j ?x) = drop j ?x" "filter (\<lambda>c. c \<noteq> CHR ''-'') (take i ?x) = take i ?x" for i j
    using to_hex_chars(1) [of 16 w] by (intro filter_dash; fastforce dest: in_set_takeD in_set_dropD)+
  have "take 8 ?x @ take 4 (drop 8 ?x) @ take 4 (drop 12 ?x) @ take 4 (drop 16 ?x) @ drop 20 ?x = ?x"
    using take_drop_step [of 4 8 ?x] take_drop_step [of 4 12 ?x] take_drop_step [of 4 16 ?x] by simp
  then have "filter (\<lambda>c. c \<noteq> CHR ''-'') (to_uuid_string w) = ?x"
    by (simp add: to_uuid_string_def d Let_def)
  then show ?thesis by (simp add: parse_uuid_def)
qed

lemma length_to_uuid [simp]: "length (to_uuid_string w) = 36"
  by (simp add: to_uuid_string_def Let_def)

lemma to_uuid_inj [simp]: "to_uuid_string v = to_uuid_string w \<longleftrightarrow> v = w"
  by (metis parse_to_uuid option.inject)

lemma to_hex16_inj [simp]: "to_hex 16 v = to_hex 16 w \<longleftrightarrow> v = w" for v w :: b16
  by (metis unhex_fixed_16 option.inject)

lemma to_hex32_inj [simp]: "to_hex 32 v = to_hex 32 w \<longleftrightarrow> v = w" for v w :: b32
  by (metis unhex_fixed_32 option.inject)

lemma object_key_inj [simp]: "object_key c a = object_key c' a' \<longleftrightarrow> c = c' \<and> a = a'"
  by (auto simp: object_key_def append_eq_append_conv)

lemma staging_key_inj: "staging_key c a d = staging_key c' a' d' \<longleftrightarrow> c = c' \<and> a = a' \<and> d = d'"
  by (auto simp: staging_key_def append_eq_append_conv)

lemma archive_object_key_inj:
  "archive_object_key c t a = archive_object_key c' t' a' \<longleftrightarrow> c = c' \<and> t = t' \<and> a = a'"
  by (cases t; cases t') (auto simp: archive_object_key_def append_eq_append_conv)

text \<open>Keys keep apart what they name: the final key of an object, the staging key of an upload and the
  archive key of an object determine the collection, the address and the device or tier, and a
  staging key is never a final key.\<close>

text \<open>Object keys, staging keys and archive keys are injective, and no staging upload can name a
  final object: writing one key never touches what another names.\<close>

theorem keys_separate:
  "(object_key c a = object_key c' a' \<longleftrightarrow> c = c' \<and> a = a')
    \<and> (staging_key c a d = staging_key c' a' d' \<longleftrightarrow> c = c' \<and> a = a' \<and> d = d')
    \<and> (archive_object_key c t a = archive_object_key c' t' a' \<longleftrightarrow> c = c' \<and> t = t' \<and> a = a')
    \<and> object_key c a \<noteq> staging_key c' a' d'"
  by (simp only: object_key_inj staging_key_inj archive_object_key_inj) (simp add: object_key_def staging_key_def)

lemma unhex_all_to_hex: "unhex_all (map (to_hex 16) ds) = Some ds"
  by (induction ds) auto

lemma split_revoked:
  "CHR '':'' \<notin> set w \<Longrightarrow> split_on CHR '':'' (w @ concat (map (\<lambda>d. CHR '':'' # to_hex 16 d) ds)) = w # map (to_hex 16) ds" for ds :: "b16 list"
proof (induction ds arbitrary: w)
  case (Cons d ds)
  then show ?case using Cons.IH [OF to_hex_chars(2)] by (simp add: split_on_append)
qed (simp add: split_on_none)

lemma show_nat_no_colon: "CHR '':'' \<notin> set (show_nat n)"
  using show_nat_chars [of "CHR '':''" n] by auto

text \<open>The text form of a commit notice, the payload of the database notification, is parsed back
  to the same notice, whatever devices it revokes.\<close>

theorem notice_round_trip: "notice_from_text (notice_to_text n) = Some n"
proof -
  have "split_on CHR '':'' (notice_to_text n) = show_u64 (cn_first n) # show_u64 (cn_head n) # to_hex 32 (cn_head_chain n)
      # show_nat (if cn_gone n then 1 else 0) # to_hex 16 (cn_collection n) # map (to_hex 16) (cn_revoked n)"
    by (simp add: notice_to_text_def show_u64_def split_on_append split_revoked show_nat_no_colon to_hex_chars(2))
  moreover have "show_nat 1 = ''1''" "show_nat 0 = ''0''" by code_simp+
  then have "show_nat (if b then 1 else 0) = ''1'' \<longleftrightarrow> b" for b by simp
  ultimately show ?thesis by (simp add: notice_from_text_def unhex_all_to_hex)
qed

text \<open>The hexadecimal decoder is not strict: a plus sign in place of a digit and upper-case digits
  are accepted, so distinct texts denote the same bytes although the function documents itself as
  a lower-case decoder.\<close>

theorem unhex_not_canonical:
  "unhex ''+f'' = Some [15] \<and> unhex ''0F'' = Some [15] \<and> unhex ''0f'' = Some [15]"
  by (simp add: unhex_def radix16_def hex_digit_def)

end
