(* ===== verification/LogDirect.thy ===== *)
theory LogDirect
  imports LogText LogWire
begin

text \<open>
  Direct-transfer capabilities of \<open>log-service/src/service.rs\<close>: signed URLs for uploads and
  downloads (\<open>direct\<close>, \<open>direct_mac\<close>, \<open>verify_direct\<close>), byte ranges and constant-time equality.
  HMAC-SHA256 is third-party code: the parameter \<open>hmac\<close>, from the secret and the message
  to the 32 bytes of the code.
\<close>

subsection \<open>Text helpers\<close>

definition show_i64 :: "i64 \<Rightarrow> string" where
  "show_i64 v = (if sint v < 0 then CHR ''-'' # show_nat (nat (- sint v)) else show_nat (nat (sint v)))"

text \<open>A signed number: an optional sign, then digits; out-of-range values are refused.\<close>

fun parse_dec :: "nat \<Rightarrow> string \<Rightarrow> nat option" where
  "parse_dec acc [] = Some acc"
| "parse_dec acc (c # s) = (case dec_digit c of None \<Rightarrow> None | Some d \<Rightarrow> parse_dec (10 * acc + d) s)"

definition parse_i64 :: "string \<Rightarrow> i64 option" where
  "parse_i64 s =
    (case s of
       [] \<Rightarrow> None
     | c # r \<Rightarrow>
         let neg = (c = CHR ''-''); t = (if c = CHR ''-'' \<or> c = CHR ''+'' then r else s) in
         if t = [] then None
         else (case parse_dec 0 t of
             None \<Rightarrow> None
           | Some n \<Rightarrow> if neg then (if n \<le> 2 ^ 63 then Some (- of_nat n) else None)
                       else (if n < 2 ^ 63 then Some (of_nat n) else None)))"

fun split_once :: "char \<Rightarrow> string \<Rightarrow> (string \<times> string) option" where
  "split_once d [] = None"
| "split_once d (c # s) = (if c = d then Some ([], s) else map_option (\<lambda>(a, b). (c # a, b)) (split_once d s))"

text \<open>The query as a map: of repeated keys the last one counts.\<close>

definition query_map :: "string \<Rightarrow> string \<rightharpoonup> string" where
  "query_map q = map_of (rev (List.map_filter (split_once CHR ''='') (split_on CHR ''&'' q)))"

definition ct_eq :: "bytes \<Rightarrow> bytes \<Rightarrow> bool" where
  "ct_eq a b \<longleftrightarrow> length a = length b \<and> fold (\<lambda>(x, y) acc. acc OR (x XOR y)) (zip a b) 0 = 0"

subsection \<open>Capabilities\<close>

record DirectOp =
  do_put :: bool
  do_collection :: b16
  do_address :: b32
  do_sealed_size :: u64
  do_sealed_checksum :: b32
  do_expires_ms :: i64
  do_expect :: "(u64 \<times> b32) option"
  do_device :: "b16 option"
  do_region :: "Region option"

definition direct_message :: "string \<Rightarrow> b16 \<Rightarrow> b32 \<Rightarrow> string \<Rightarrow> u64 \<Rightarrow> b32 \<Rightarrow> i64 \<Rightarrow> Region option \<Rightarrow> string" where
  "direct_message op c a dev size' ck ex region =
    ''ls-direct|'' @ op @ ''|'' @ to_hex 16 c @ ''|'' @ to_hex 32 a @ ''|'' @ dev @ ''|'' @ show_u64 size' @ ''|''
      @ to_hex 32 ck @ ''|'' @ show_i64 ex @ (case region of None \<Rightarrow> [] | Some r \<Rightarrow> ''|r='' @ region_as_str r)"

definition direct_mac ::
  "(bytes \<Rightarrow> bytes \<Rightarrow> bytes) \<Rightarrow> bytes \<Rightarrow> string \<Rightarrow> b16 \<Rightarrow> b32 \<Rightarrow> string \<Rightarrow> u64 \<Rightarrow> b32 \<Rightarrow> i64 \<Rightarrow> Region option \<Rightarrow> bytes" where
  "direct_mac hmac secret op c a dev size' ck ex region =
    hmac secret (ascii (direct_message op c a dev size' ck ex region))"

definition base64_char :: "nat \<Rightarrow> char" where
  "base64_char n = ''ABCDEFGHIJKLMNOPQRSTUVWXYZabcdefghijklmnopqrstuvwxyz0123456789+/'' ! n"

fun base64 :: "bytes \<Rightarrow> string" where
  "base64 [] = []"
| "base64 [a] = (let n = unat a * 2 ^ 16 in
     [base64_char (n div 2 ^ 18 mod 64), base64_char (n div 2 ^ 12 mod 64), CHR ''='', CHR ''=''])"
| "base64 [a, b] = (let n = unat a * 2 ^ 16 + unat b * 2 ^ 8 in
     [base64_char (n div 2 ^ 18 mod 64), base64_char (n div 2 ^ 12 mod 64), base64_char (n div 2 ^ 6 mod 64), CHR ''=''])"
| "base64 (a # b # c # s) = (let n = unat a * 2 ^ 16 + unat b * 2 ^ 8 + unat c in
     [base64_char (n div 2 ^ 18 mod 64), base64_char (n div 2 ^ 12 mod 64), base64_char (n div 2 ^ 6 mod 64), base64_char (n mod 64)]
     @ base64 s)"

definition direct_query ::
  "(bytes \<Rightarrow> bytes \<Rightarrow> bytes) \<Rightarrow> bytes \<Rightarrow> Region option \<Rightarrow> b16 option \<Rightarrow> b16 \<Rightarrow> b32 \<Rightarrow> u64 \<Rightarrow> b32 \<Rightarrow> i64 \<Rightarrow> string" where
  "direct_query hmac secret region uploader c a size' ck ex =
    (let op = (if uploader \<noteq> None then ''put'' else ''get'');
         dev = (case uploader of Some d \<Rightarrow> to_hex 16 d | None \<Rightarrow> []);
         sig = direct_mac hmac secret op c a dev size' ck ex region in
     ''op='' @ op @ ''&dev='' @ dev @ ''&size='' @ show_u64 size' @ ''&ck='' @ to_hex 32 ck @ ''&exp='' @ show_i64 ex
       @ (case region of None \<Rightarrow> [] | Some r \<Rightarrow> ''&r='' @ region_as_str r) @ ''&sig='' @ hex sig)"

definition trim_end_matches :: "char \<Rightarrow> string \<Rightarrow> string" where
  "trim_end_matches d s = rev (dropWhile (\<lambda>c. c = d) (rev s))"

definition direct ::
  "(bytes \<Rightarrow> bytes \<Rightarrow> bytes) \<Rightarrow> bytes \<Rightarrow> string \<Rightarrow> Region option \<Rightarrow> b16 option \<Rightarrow> b16 \<Rightarrow> b32 \<Rightarrow> u64 \<Rightarrow> b32 \<Rightarrow> i64 \<Rightarrow> DirectTransfer" where
  "direct hmac secret public_base region uploader c a size' ck now =
    (let ex = now + DIRECT_TTL_MS in
     \<lparr>dt_url = ascii (trim_end_matches CHR ''/'' public_base @ ''/v1/o/'' @ to_uuid_string c @ ''/'' @ to_hex 32 a @ ''?''
         @ direct_query hmac secret region uploader c a size' ck ex),
      dt_headers = (if uploader \<noteq> None then [(ascii ''x-amz-checksum-sha256'', ascii (base64 (be_bytes 32 ck)))] else []),
      dt_expires_at = ex\<rparr>)"

definition url_forbidden :: ServiceError where
  "url_forbidden = err_reason CodeForbidden ''url''"

definition verify_direct ::
  "(bytes \<Rightarrow> bytes \<Rightarrow> bytes) \<Rightarrow> bytes \<Rightarrow> string \<Rightarrow> string \<Rightarrow> string \<Rightarrow> i64 \<Rightarrow> ServiceError + DirectOp" where
  "verify_direct hmac secret collection address query now =
    (let q = query_map query; no = url_forbidden in
     rbind (ok_or (parse_uuid collection) no) (\<lambda>c.
     rbind (ok_or (unhex_fixed 32 address) no) (\<lambda>a.
     rbind (ok_or (q ''op'') no) (\<lambda>op.
     rbind (ok_or (Option.bind (q ''size'') parse_u64) no) (\<lambda>size'.
     rbind (ok_or (Option.bind (q ''ck'') (unhex_fixed 32)) no) (\<lambda>ck.
     rbind (ok_or (Option.bind (q ''exp'') parse_i64) no) (\<lambda>ex.
     let dev = (case q ''dev'' of Some d \<Rightarrow> d | None \<Rightarrow> []) in
     rbind (case q ''r'' of Some r \<Rightarrow> (case region_parse (ascii r) of Some x \<Rightarrow> Ok (Some x) | None \<Rightarrow> Err no) | None \<Rightarrow> Ok None) (\<lambda>region.
     rbind (ok_or (Option.bind (q ''sig'') unhex) no) (\<lambda>sig.
     let want = direct_mac hmac secret op c a dev size' ck ex region in
     if ex <s now \<or> \<not> ct_eq want sig then Err no
     else
       rbind (if op = ''put'' then (case unhex_fixed 16 dev of Some d \<Rightarrow> Ok (Some d) | None \<Rightarrow> Err no)
              else if op = ''get'' then Ok None else Err no) (\<lambda>device.
       Ok \<lparr>do_put = (op = ''put''), do_collection = c, do_address = a, do_sealed_size = size', do_sealed_checksum = ck,
         do_expires_ms = ex, do_expect = (if op = ''put'' then Some (size', ck) else None), do_device = device,
         do_region = region\<rparr>))))))))))"

text \<open>A range header \<open>bytes=a-b\<close>; white space around the numbers is ignored (a header
  value is ASCII).\<close>

definition trim :: "string \<Rightarrow> string" where
  "trim s = (let ws = (\<lambda>c. of_char c \<in> {9, 10, 11, 12, 13, 32 :: nat}) in rev (dropWhile ws (rev (dropWhile ws s))))"

definition strip_prefix :: "string \<Rightarrow> string \<Rightarrow> string option" where
  "strip_prefix p s = (if take (length p) s = p then Some (drop (length p) s) else None)"

definition parse_range :: "string \<Rightarrow> (u64 \<times> u64) option" where
  "parse_range hdr =
    Option.bind (strip_prefix ''bytes='' hdr) (\<lambda>s.
    Option.bind (split_once CHR ''-'' s) (\<lambda>(x, y).
    Option.bind (parse_u64 (trim x)) (\<lambda>a.
    Option.bind (parse_u64 (trim y)) (\<lambda>b.
    if b < a \<or> b - a = - 1 then None
    else if b - a + 1 \<le> MAX_OBJECT_BYTES then Some (a, b - a + 1) else None))))"

subsection \<open>Parsing what was printed\<close>

lemma parse_dec_append: "parse_dec acc (s @ t) = (case parse_dec acc s of None \<Rightarrow> None | Some a \<Rightarrow> parse_dec a t)"
  by (induction s arbitrary: acc) (auto split: option.splits)

lemma parse_dec_show [simp]: "parse_dec 0 (show_nat n) = Some n"
proof (induction n rule: show_nat.induct)
  case (1 n)
  show ?case
  proof (cases "n < 10")
    case True
    then show ?thesis by (simp add: show_nat.simps)
  next
    case False
    then have "parse_dec 0 (show_nat (n div 10)) = Some (n div 10)" using 1 by simp
    then show ?thesis using False by (subst show_nat.simps) (simp add: parse_dec_append)
  qed
qed

lemma show_nat_hd: "show_nat n = c # s \<Longrightarrow> c \<noteq> CHR ''+'' \<and> c \<noteq> CHR ''-''"
  using show_nat_chars [of c n] by (auto simp: of_char_def)

lemma parse_show_i64 [simp]: "parse_i64 (show_i64 v) = Some v"
proof -
  have b: "- (2 ^ 63) \<le> sint v" "sint v < 2 ^ 63" using sint_ge [of v] sint_lt [of v] by simp_all
  obtain c s where cs: "show_nat (nat (sint v)) = c # s" by (cases "show_nat (nat (sint v))") auto
  show ?thesis
  proof (cases "sint v < 0")
    case True
    have "- (of_nat (nat (- sint v)) :: i64) = of_int (sint v)" using True by simp
    then have "- (of_nat (nat (- sint v)) :: i64) = v" by simp
    then show ?thesis using True b by (simp add: show_i64_def parse_i64_def)
  next
    case False
    have "(of_nat (nat (sint v)) :: i64) = of_int (sint v)" using False by simp
    then have "(of_nat (nat (sint v)) :: i64) = v" by simp
    moreover have "parse_dec 0 (c # s) = Some (nat (sint v))" unfolding cs [symmetric] by simp
    ultimately show ?thesis
      using False b show_nat_hd [OF cs] by (simp add: show_i64_def parse_i64_def cs del: parse_dec.simps)
  qed
qed

lemma region_parse_str [simp]: "region_parse (ascii (region_as_str r)) = Some r"
  by (cases r) (simp_all add: region_parse_def)

text \<open>The characters printed fields are made of: no separator of the query or of the message.\<close>

definition plain_text :: "string \<Rightarrow> bool" where
  "plain_text s \<longleftrightarrow> CHR ''|'' \<notin> set s \<and> CHR ''&'' \<notin> set s \<and> CHR ''='' \<notin> set s"

lemma plain_of_range: "(\<And>c. c \<in> set s \<Longrightarrow> of_char c \<noteq> (124 :: nat) \<and> of_char c \<noteq> (38 :: nat) \<and> of_char c \<noteq> (61 :: nat)) \<Longrightarrow> plain_text s"
  by (fastforce simp: plain_text_def)

lemma plain_show_nat: "plain_text (show_nat n)"
  by (rule plain_of_range) (use show_nat_chars in fastforce)

lemma hex_char_range: "n < 16 \<Longrightarrow> 48 \<le> (of_char (hex_char n) :: nat) \<and> (of_char (hex_char n) :: nat) \<le> 57 \<or>
    97 \<le> (of_char (hex_char n) :: nat) \<and> (of_char (hex_char n) :: nat) \<le> 102"
  by (auto simp: hex_char_def)

lemma plain_hex: "plain_text (hex bs)"
proof (rule plain_of_range)
  fix c assume "c \<in> set (hex bs)"
  then have "\<exists>b\<in>set bs. c = hex_char (unat b div 16) \<or> c = hex_char (unat b mod 16)" by (auto simp: hex_def)
  then obtain n where "n < 16" "c = hex_char n" using byte_nibbles by blast
  then show "of_char c \<noteq> (124 :: nat) \<and> of_char c \<noteq> (38 :: nat) \<and> of_char c \<noteq> (61 :: nat)" using hex_char_range by fastforce
qed

lemma plain_fields [simp]:
  "plain_text (show_u64 n)" "plain_text (to_hex k w)" "plain_text (hex bs)" "plain_text (show_i64 v)" "plain_text []"
  "plain_text (region_as_str r)" "plain_text ''put''" "plain_text ''get''" "plain_text ''ls-direct''"
proof -
  have "plain_text (CHR ''-'' # s) \<longleftrightarrow> plain_text s" for s by (simp add: plain_text_def)
  then show "plain_text (show_i64 v)" by (simp add: show_i64_def plain_show_nat)
  show "plain_text (region_as_str r)" by (cases r) (simp_all add: plain_text_def)
qed (simp_all add: show_u64_def plain_show_nat plain_hex to_hex_def, simp_all add: plain_text_def)

lemma split_on_cat: "split_on d (w @ d # s) = split_on d w @ split_on d s"
proof (induction w)
  case (Cons c w)
  have "split_on d w \<noteq> []" by (cases w) (auto split: list.splits)
  then show ?case using Cons by (auto split: list.splits simp: neq_Nil_conv)
qed simp

lemma split_on_single: "split_on d s = [w] \<Longrightarrow> s = w"
proof (induction s arbitrary: w)
  case (Cons c s)
  have "split_on d s \<noteq> []" by (cases s) (auto split: list.splits)
  then show ?case using Cons by (auto split: if_splits list.splits)
qed simp

lemma split_once_eq: "CHR ''='' \<notin> set k \<Longrightarrow> split_once CHR ''='' (k @ CHR ''='' # v) = Some (k, v)"
  by (induction k) auto

lemma ct_eq_iff: "ct_eq a b \<longleftrightarrow> a = b"
proof -
  have "length a = length b \<Longrightarrow> fold (\<lambda>(x, y) acc. acc OR (x XOR y)) (zip a b) z = 0 \<longleftrightarrow> z = 0 \<and> a = b" for z
  proof (induction a b arbitrary: z rule: list_induct2)
    case (Cons x xs y ys)
    have "x XOR y = 0 \<longleftrightarrow> x = y" by (metis xor_self_eq xor.assoc xor.right_neutral xor.left_neutral)
    then show ?case using Cons by (auto simp: or_eq_0_iff)
  qed simp
  then show ?thesis by (auto simp: ct_eq_def)
qed

subsection \<open>Minting and verifying\<close>

lemma plain_no_amp: "plain_text s \<Longrightarrow> split_on CHR ''&'' s = [s]"
  by (rule split_on_none) (simp add: plain_text_def)

lemma split_pair: "CHR ''&'' \<notin> set k \<Longrightarrow> plain_text v \<Longrightarrow> split_on CHR ''&'' (k @ CHR ''='' # v) = [k @ CHR ''='' # v]"
  by (rule split_on_none) (auto simp: plain_text_def)

definition pair_text :: "string \<times> string \<Rightarrow> string" where
  "pair_text kv = fst kv @ CHR ''='' # snd kv"

lemma split_pair_text: "plain_text (fst kv) \<Longrightarrow> plain_text (snd kv) \<Longrightarrow> split_on CHR ''&'' (pair_text kv) = [pair_text kv]"
  using split_pair [of "fst kv" "snd kv"] by (simp add: pair_text_def plain_text_def)

fun join_amp :: "(string \<times> string) list \<Rightarrow> string" where
  "join_amp [] = []"
| "join_amp [kv] = pair_text kv"
| "join_amp (kv # kvs) = pair_text kv @ CHR ''&'' # join_amp kvs"

lemma split_join_amp:
  "kvs \<noteq> [] \<Longrightarrow> list_all (\<lambda>kv. plain_text (fst kv) \<and> plain_text (snd kv)) kvs \<Longrightarrow>
    split_on CHR ''&'' (join_amp kvs) = map pair_text kvs"
proof (induction kvs rule: join_amp.induct)
  case (2 kv)
  then show ?case by (simp add: split_pair_text)
next
  case (3 kv kv' kvs)
  then show ?case by (simp add: split_on_cat split_pair_text)
qed simp

lemma query_map_join:
  assumes "kvs \<noteq> []" "list_all (\<lambda>kv. plain_text (fst kv) \<and> plain_text (snd kv)) kvs"
  shows "query_map (join_amp kvs) = map_of (rev kvs)"
proof -
  have "List.map_filter (split_once CHR ''='') (map pair_text kvs) = kvs"
    using assms(2) by (induction kvs) (auto simp: List.map_filter_simps pair_text_def plain_text_def split_once_eq)
  then show ?thesis using split_join_amp [OF assms] by (simp add: query_map_def)
qed

definition minted_pairs ::
  "(bytes \<Rightarrow> bytes \<Rightarrow> bytes) \<Rightarrow> bytes \<Rightarrow> Region option \<Rightarrow> b16 option \<Rightarrow> b16 \<Rightarrow> b32 \<Rightarrow> u64 \<Rightarrow> b32 \<Rightarrow> i64 \<Rightarrow> (string \<times> string) list" where
  "minted_pairs hmac secret region up c a sz ck ex =
    (let op = (if up \<noteq> None then ''put'' else ''get''); dev = (case up of Some d \<Rightarrow> to_hex 16 d | None \<Rightarrow> []) in
     [(''op'', op), (''dev'', dev), (''size'', show_u64 sz), (''ck'', to_hex 32 ck), (''exp'', show_i64 ex)]
     @ (case region of None \<Rightarrow> [] | Some r \<Rightarrow> [(''r'', region_as_str r)])
     @ [(''sig'', hex (direct_mac hmac secret op c a dev sz ck ex region))])"

lemma direct_query_join: "direct_query hmac secret region up c a sz ck ex = join_amp (minted_pairs hmac secret region up c a sz ck ex)"
  by (cases region; cases up) (simp_all add: direct_query_def minted_pairs_def pair_text_def Let_def)

lemma minted_plain: "list_all (\<lambda>kv. plain_text (fst kv) \<and> plain_text (snd kv)) (minted_pairs hmac secret region up c a sz ck ex)"
proof -
  have "plain_text ''op''" "plain_text ''dev''" "plain_text ''size''" "plain_text ''ck''" "plain_text ''exp''" "plain_text ''r''" "plain_text ''sig''"
    by (simp_all add: plain_text_def)
  then show ?thesis by (cases region; cases up) (simp_all add: minted_pairs_def Let_def)
qed

lemma minted_verifies:
  assumes "\<not> ex <s now"
  shows "verify_direct hmac secret (to_uuid_string c) (to_hex 32 a) (direct_query hmac secret region up c a sz ck ex) now
    = Inr \<lparr>do_put = (up \<noteq> None), do_collection = c, do_address = a, do_sealed_size = sz, do_sealed_checksum = ck,
        do_expires_ms = ex, do_expect = (if up \<noteq> None then Some (sz, ck) else None), do_device = up, do_region = region\<rparr>"
proof -
  have "minted_pairs hmac secret region up c a sz ck ex \<noteq> []" by (simp add: minted_pairs_def Let_def)
  then have "query_map (direct_query hmac secret region up c a sz ck ex) = map_of (rev (minted_pairs hmac secret region up c a sz ck ex))"
    unfolding direct_query_join by (rule query_map_join [OF _ minted_plain])
  then show ?thesis
    using assms by (cases up; cases region) (simp_all add: verify_direct_def minted_pairs_def Let_def ct_eq_iff)
qed

text \<open>A capability works: the query minted for an upload or a download verifies until it expires,
  and yields exactly the collection, address, size, checksum, device, region and expiry it was
  minted for.\<close>

theorem direct_verifies:
  assumes "\<not> ex <s now"
  shows "verify_direct hmac secret (to_uuid_string c) (to_hex 32 a) (direct_query hmac secret region up c a sz ck ex) now
    = Inr \<lparr>do_put = (up \<noteq> None), do_collection = c, do_address = a, do_sealed_size = sz, do_sealed_checksum = ck,
        do_expires_ms = ex, do_expect = (if up \<noteq> None then Some (sz, ck) else None), do_device = up, do_region = region\<rparr>"
  using assms by (rule minted_verifies)

theorem direct_verifies_witness:
  "verify_direct (\<lambda>k m. m) [1] (to_uuid_string 3) (to_hex 32 (4 :: b32)) (direct_query (\<lambda>k m. m) [1] (Some Weur) (Some 9) 3 4 10 4 2000) 1000
    = Inr \<lparr>do_put = (Some (9 :: b16) \<noteq> None), do_collection = 3, do_address = 4, do_sealed_size = 10, do_sealed_checksum = 4,
        do_expires_ms = 2000, do_expect = (if Some (9 :: b16) \<noteq> None then Some (10, 4) else None), do_device = Some 9,
        do_region = Some Weur\<rparr>"
  by (rule direct_verifies) (simp add: word_sless_alt)

subsection \<open>Binding\<close>

lemma bar_split [simp]: "plain_text s \<Longrightarrow> split_on CHR ''|'' s = [s]"
  by (rule split_on_none) (simp add: plain_text_def)

lemma message_split:
  assumes "plain_text op"
  shows "split_on CHR ''|'' (direct_message op c a dev sz ck ex region)
    = [''ls-direct'', op, to_hex 16 c, to_hex 32 a] @ split_on CHR ''|'' dev @ [show_u64 sz, to_hex 32 ck, show_i64 ex]
      @ (case region of None \<Rightarrow> [] | Some r \<Rightarrow> [''r='' @ region_as_str r])"
proof -
  let ?B = "CHR ''|''"
  have r: "split_on ?B (''r='' @ region_as_str r) = [''r='' @ region_as_str r]" for r
    by (cases r) (simp_all add: split_on_none)
  define p where "p = ''ls-direct''"
  have p: "split_on ?B p = [p]" by (simp add: p_def plain_text_def split_on_none)
  have m: "direct_message op c a dev sz ck ex region = p @ ?B # op @ ?B # to_hex 16 c @ ?B # to_hex 32 a @ ?B # dev
      @ ?B # show_u64 sz @ ?B # to_hex 32 ck @ ?B # (show_i64 ex @ (case region of None \<Rightarrow> [] | Some r \<Rightarrow> ?B # ''r='' @ region_as_str r))"
    by (cases region) (simp_all add: direct_message_def p_def)
  have t: "split_on ?B (show_i64 ex @ (case region of None \<Rightarrow> [] | Some r \<Rightarrow> ?B # ''r='' @ region_as_str r))
      = show_i64 ex # (case region of None \<Rightarrow> [] | Some r \<Rightarrow> [''r='' @ region_as_str r])"
    by (cases region) (simp_all add: split_on_cat r [simplified])
  show ?thesis unfolding m p_def [symmetric] using assms by (simp add: split_on_cat p t)
qed

lemma show_i64_not_region: "show_i64 ex \<noteq> ''r='' @ region_as_str r"
  using plain_fields(4) [of ex] by (auto simp: plain_text_def)

lemma show_i64_inj [simp]: "show_i64 v = show_i64 w \<longleftrightarrow> v = w"
  by (metis parse_show_i64 option.inject)

lemma show_u64_inj [simp]: "show_u64 v = show_u64 w \<longleftrightarrow> v = w"
  by (metis parse_show_u64 option.inject)

lemma region_str_inj [simp]: "region_as_str r = region_as_str s \<longleftrightarrow> r = s"
  by (metis region_parse_str option.inject)

lemma message_binds:
  assumes eq: "direct_message op c a dev sz ck ex region = direct_message op' c' a' dev' sz' ck' ex' region'"
    and plain: "plain_text op" "plain_text op'" "plain_text dev'"
  shows "op = op' \<and> c = c' \<and> a = a' \<and> dev = dev' \<and> sz = sz' \<and> ck = ck' \<and> ex = ex' \<and> region = region'"
proof -
  let ?t = "\<lambda>region. case region of None \<Rightarrow> [] | Some r \<Rightarrow> [''r='' @ region_as_str r]"
  from arg_cong [OF eq, of "split_on CHR ''|''"]
  have l: "op = op' \<and> c = c' \<and> a = a'"
    and m: "split_on CHR ''|'' dev @ [show_u64 sz, to_hex 32 ck, show_i64 ex] @ ?t region
      = [dev', show_u64 sz', to_hex 32 ck', show_i64 ex'] @ ?t region'"
    using plain by (simp_all add: message_split)
  have r: "region = region'"
    using arg_cong [OF m, of last] by (cases region; cases region') (auto simp: show_i64_not_region [simplified] show_i64_not_region [simplified, symmetric])
  with m have m': "split_on CHR ''|'' dev @ [show_u64 sz, to_hex 32 ck, show_i64 ex] = [dev'] @ [show_u64 sz', to_hex 32 ck', show_i64 ex']"
    by simp
  then have d: "split_on CHR ''|'' dev = [dev']" "[show_u64 sz, to_hex 32 ck, show_i64 ex] = [show_u64 sz', to_hex 32 ck', show_i64 ex']"
    by (subst (asm) append_eq_append_conv; simp)+
  from d(1) have "dev = dev'" by (rule split_on_single)
  then show ?thesis using l d(2) r by simp
qed

text \<open>The message whose code a query carries, and the message that is signed for a transfer.\<close>

definition claimed_message :: "string \<Rightarrow> DirectOp \<Rightarrow> string" where
  "claimed_message query d = direct_message (if do_put d then ''put'' else ''get'') (do_collection d) (do_address d)
     (case query_map query ''dev'' of Some v \<Rightarrow> v | None \<Rightarrow> []) (do_sealed_size d) (do_sealed_checksum d) (do_expires_ms d) (do_region d)"

definition minted_message :: "Region option \<Rightarrow> b16 option \<Rightarrow> b16 \<Rightarrow> b32 \<Rightarrow> u64 \<Rightarrow> b32 \<Rightarrow> i64 \<Rightarrow> string" where
  "minted_message region up c a sz ck ex = direct_message (if up \<noteq> None then ''put'' else ''get'') c a
     (case up of Some v \<Rightarrow> to_hex 16 v | None \<Rightarrow> []) sz ck ex region"

text \<open>C34. A capability cannot be altered: a query that verifies has not expired, and if its signature is
  that minted for some transfer, then it denotes that very transfer (operation, collection, address,
  size, checksum, device, region, expiry), or its message and the minted one are different texts
  with the same code.\<close>

theorem verified_url_is_minted:
  assumes "verify_direct hmac secret collection address query now = Inr d"
    and "Option.bind (query_map query ''sig'') unhex = Some (hmac secret (ascii (minted_message region up c a sz ck ex)))"
  shows "\<not> do_expires_ms d <s now
    \<and> (do_put d = (up \<noteq> None) \<and> do_collection d = c \<and> do_address d = a \<and> do_sealed_size d = sz \<and> do_sealed_checksum d = ck
        \<and> do_expires_ms d = ex \<and> do_device d = up \<and> do_region d = region
      \<or> claimed_message query d \<noteq> minted_message region up c a sz ck ex
        \<and> hmac secret (ascii (claimed_message query d)) = hmac secret (ascii (minted_message region up c a sz ck ex)))"
proof -
  let ?q = "query_map query"
  from assms(1) obtain c1 a1 op sz1 ck1 ex1 region1 sig device where v:
      "?q ''op'' = Some op" "Option.bind (?q ''sig'') unhex = Some sig" "\<not> ex1 <s now"
      "ct_eq (direct_mac hmac secret op c1 a1 (case ?q ''dev'' of Some d \<Rightarrow> d | None \<Rightarrow> []) sz1 ck1 ex1 region1) sig"
      "op = ''put'' \<and> (\<exists>x. unhex_fixed 16 (case ?q ''dev'' of Some d \<Rightarrow> d | None \<Rightarrow> []) = Some x \<and> device = Some x)
         \<or> op = ''get'' \<and> device = None"
      "d = \<lparr>do_put = (op = ''put''), do_collection = c1, do_address = a1, do_sealed_size = sz1, do_sealed_checksum = ck1,
         do_expires_ms = ex1, do_expect = (if op = ''put'' then Some (sz1, ck1) else None), do_device = device,
         do_region = region1\<rparr>"
    unfolding verify_direct_def Let_def rbind_Ok_iff ok_or_Ok_iff
    by (auto simp: rbind_Ok_iff split: if_split_asm option.split_asm)
  let ?dev = "case ?q ''dev'' of Some d \<Rightarrow> d | None \<Rightarrow> []"
  let ?dev' = "case up of Some v \<Rightarrow> to_hex 16 v | None \<Rightarrow> []"
  have claimed: "claimed_message query d = direct_message op c1 a1 ?dev sz1 ck1 ex1 region1"
    using v(5) by (auto simp: claimed_message_def v(6))
  have code: "hmac secret (ascii (claimed_message query d)) = hmac secret (ascii (minted_message region up c a sz ck ex))"
    using v(2,4) assms(2) by (simp add: claimed direct_mac_def ct_eq_iff)
  have live: "\<not> do_expires_ms d <s now" using v(3,6) by simp
  show ?thesis
  proof (cases "claimed_message query d = minted_message region up c a sz ck ex")
    case True
    then have "direct_message op c1 a1 ?dev sz1 ck1 ex1 region1
        = direct_message (if up \<noteq> None then ''put'' else ''get'') c a ?dev' sz ck ex region"
      by (simp only: claimed minted_message_def)
    moreover have "plain_text op" "plain_text (if up \<noteq> None then ''put'' else ''get'')" "plain_text ?dev'"
      using v(5) by (auto split: option.splits)
    ultimately have b: "op = (if up \<noteq> None then ''put'' else ''get'')" "c1 = c" "a1 = a" "?dev = ?dev'" "sz1 = sz" "ck1 = ck" "ex1 = ex"
        "region1 = region"
      using message_binds by blast+
    have "device = up" using v(5) b(1,4) by (cases up) (auto split: if_splits)
    then show ?thesis using v(6) b live by (cases up) simp_all
  qed (use code live in blast)
qed

definition sample_hmac :: "bytes \<Rightarrow> bytes \<Rightarrow> bytes" where
  "sample_hmac k m = be_bytes 32 (of_be (k @ m) :: b32)"

theorem verified_url_is_minted_witness:
  "\<exists>d. verify_direct sample_hmac [1] (to_uuid_string 3) (to_hex 32 (4 :: b32)) (direct_query sample_hmac [1] None (Some 9) 3 4 10 4 2000) 1000 = Inr d
    \<and> do_device d = Some 9 \<and> do_collection d = 3 \<and> \<not> do_expires_ms d <s 1000"
proof -
  let ?q = "direct_query sample_hmac [1] None (Some 9) 3 4 10 4 2000"
  obtain d where d: "verify_direct sample_hmac [1] (to_uuid_string 3) (to_hex 32 (4 :: b32)) ?q 1000 = Inr d" and
    f: "do_put d" "do_collection d = 3" "do_address d = 4" "do_sealed_size d = 10" "do_sealed_checksum d = 4" "do_expires_ms d = 2000" "do_region d = None"
    using minted_verifies [of 2000 1000 sample_hmac "[1]" 3 4 None "Some 9" 10 4] by (auto simp: word_sless_alt)
  have q: "query_map ?q = map_of (rev (minted_pairs sample_hmac [1] None (Some 9) 3 4 10 4 2000))"
    unfolding direct_query_join by (rule query_map_join [OF _ minted_plain]) (simp add: minted_pairs_def Let_def)
  then have sig: "query_map ?q ''sig'' = Some (hex (direct_mac sample_hmac [1] ''put'' 3 4 (to_hex 16 (9 :: b16)) 10 4 2000 None))"
    by (simp add: minted_pairs_def Let_def)
  have "claimed_message ?q d = minted_message None (Some 9) 3 4 10 4 2000"
    unfolding claimed_message_def q f by (simp add: minted_message_def minted_pairs_def Let_def f(1))
  then show ?thesis
    using verified_url_is_minted [OF d, of None "Some 9" 3 4 10 4 2000] sig d by (simp add: direct_mac_def minted_message_def)
qed

end
