(* ===== verification/RefIndex.thy ===== *)
theory RefIndex
  imports Envelope
begin

text \<open>
  Snapshot ref-index objects, \<open>wire/src/ref_index.rs\<close>: the packed address lists that a snapshot
  names instead of its complete inventory.  (The format-2 manifest of that file belongs to the
  snapshot payloads and is not part of this theory.)
\<close>

definition MAX_REF_INDEX_ENTRIES :: nat where "MAX_REF_INDEX_ENTRIES = 8192"
definition MAX_REF_INDICES :: nat where "MAX_REF_INDICES = 32"

record RefIndexPayload =
  ri_addresses :: bytes

definition ref_index_payload_to_cbor :: "RefIndexPayload \<Rightarrow> Cbor" where
  "ref_index_payload_to_cbor v = CMap (req_enc 0 (Uint 1) @ req_enc 1 (CBytes (ri_addresses v)))"

definition ref_index_payload_from_cbor :: "Cbor \<Rightarrow> SchemaError + RefIndexPayload" where
  "ref_index_payload_from_cbor c =
    (let ty = ''RefIndexPayload'' in
     rbind (struct_map c ty) (\<lambda>m.
     rbind (check_fmt m ty 1) (\<lambda>_.
     rbind (req_dec m 1 ty bytes_from_cbor) (\<lambda>addresses.
     Ok \<lparr>ri_addresses = addresses\<rparr>))))"

definition ri_invalid :: "string \<Rightarrow> SchemaError" where
  "ri_invalid reason = Invalid ''RefIndex'' reason"

fun ascending_windows :: "b32 list \<Rightarrow> bool" where
  "ascending_windows (a # b # xs) \<longleftrightarrow> a < b \<and> ascending_windows (b # xs)"
| "ascending_windows _ \<longleftrightarrow> True"

definition ri_check :: "b32 list \<Rightarrow> SchemaError + unit" where
  "ri_check addresses =
    (if addresses = [] \<or> MAX_REF_INDEX_ENTRIES < length addresses then Err (ri_invalid ''entry count out of range'')
     else if \<not> ascending_windows addresses then Err (ri_invalid ''addresses must be strictly ascending'')
     else Ok ())"

definition ref_index_item :: "b16 \<Rightarrow> b32 list \<Rightarrow> SchemaError + Item" where
  "ref_index_item collection addresses =
    rbind (ri_check addresses) (\<lambda>_.
    rbind (map_err CborErr (to_bytes ref_index_payload_to_cbor
      \<lparr>ri_addresses = concat (map (be_bytes 32) addresses)\<rparr>)) (\<lambda>body.
    Ok \<lparr>it_kind = RefIndex, it_collection = collection, it_seq = None, it_prev = None, it_epoch = None, it_signer = None,
      it_salt = None, it_idem = None, it_refs = None, it_stream = None, it_body = body, it_sig = None\<rparr>))"

function chunks_exact :: "nat \<Rightarrow> 'a list \<Rightarrow> 'a list list" where
  "chunks_exact n xs = (if n = 0 \<or> length xs < n then [] else take n xs # chunks_exact n (drop n xs))"
  by auto
termination
  by (relation "measure (\<lambda>(n, xs). length xs)") auto

function chunks :: "nat \<Rightarrow> 'a list \<Rightarrow> 'a list list" where
  "chunks n xs = (if n = 0 \<or> xs = [] then [] else take n xs # chunks n (drop n xs))"
  by auto
termination
  by (relation "measure (\<lambda>(n, xs). length xs)") auto

declare chunks_exact.simps [simp del] chunks.simps [simp del]

definition ref_index_addresses :: "Item \<Rightarrow> SchemaError + b32 list" where
  "ref_index_addresses it =
    (if it_kind it \<noteq> RefIndex then Err (ri_invalid ''not a ref-index object'')
     else
       rbind (check_shape it) (\<lambda>_.
       rbind (from_bytes ref_index_payload_from_cbor (it_body it)) (\<lambda>p.
       if length (ri_addresses p) mod 32 \<noteq> 0 then Err (ri_invalid ''addresses are not a multiple of 32 bytes'')
       else
         let out = map of_be (chunks_exact 32 (ri_addresses p)) in
         rbind (ri_check out) (\<lambda>_. Ok out))))"

definition open_ref_index :: "(bytes \<Rightarrow> b32) \<Rightarrow> b16 \<Rightarrow> b32 \<Rightarrow> bytes \<Rightarrow> SchemaError + b32 list" where
  "open_ref_index sha256 collection address bs =
    (if sha256 bs \<noteq> address then Err (ri_invalid ''address is not the SHA-256 of the bytes'')
     else
       rbind (item_from_bytes bs) (\<lambda>it.
       if it_collection it \<noteq> collection then Err (ri_invalid ''ref-index object of another collection'')
       else ref_index_addresses it))"

definition div_ceil :: "nat \<Rightarrow> nat \<Rightarrow> nat" where
  "div_ceil a b = (a + b - 1) div b"

definition pack_ref_indices :: "(bytes \<Rightarrow> b32) \<Rightarrow> b16 \<Rightarrow> b32 list \<Rightarrow> SchemaError + (b32 \<times> bytes) list" where
  "pack_ref_indices sha256 collection refs =
    (if refs = [] then Ok []
     else
       let n = div_ceil (length refs) MAX_REF_INDEX_ENTRIES in
       if MAX_REF_INDICES < n then
         Err (ri_invalid ''inventory needs more ref-index objects than a snapshot may name'')
       else
         rmapM (\<lambda>part.
           rbind (ref_index_item collection part) (\<lambda>it.
           rbind (map_err CborErr (item_to_bytes it)) (\<lambda>bs.
           Ok (sha256 bs, bs)))) (chunks (div_ceil (length refs) n) refs))"

subsection \<open>Round trip\<close>

lemma concat_chunks: "0 < n \<Longrightarrow> concat (chunks n xs) = xs"
  by (induction n xs rule: chunks.induct) (subst chunks.simps, auto)

lemma chunks_bound: "p \<in> set (chunks n xs) \<Longrightarrow> p \<noteq> [] \<and> length p \<le> n"
  by (induction n xs rule: chunks.induct) (subst (asm) (2) chunks.simps, auto split: if_splits)

lemma length_chunks: "0 < n \<Longrightarrow> length xs \<le> k * n \<Longrightarrow> length (chunks n xs) \<le> k"
proof (induction n xs arbitrary: k rule: chunks.induct)
  case (1 n xs)
  show ?case
  proof (cases "xs = []")
    case True
    then show ?thesis by (simp add: chunks.simps)
  next
    case False
    then obtain j where j: "k = Suc j" using 1(3) by (cases k) auto
    have "length (chunks n (drop n xs)) \<le> j" using 1 False j by auto
    then show ?thesis using False j 1(2) by (simp add: chunks.simps [of n xs])
  qed
qed

lemma chunks_exact_concat:
  "(\<And>x. x \<in> set xs \<Longrightarrow> length x = n) \<Longrightarrow> 0 < n \<Longrightarrow> chunks_exact n (concat xs) = xs"
proof (induction xs)
  case (Cons x xs)
  then show ?case by (subst chunks_exact.simps) auto
qed (subst chunks_exact.simps, simp)

lemma ascending_windows_iff: "ascending_windows xs \<longleftrightarrow> sorted_wrt (<) xs"
  by (induction xs rule: ascending_windows.induct) (auto dest: order.strict_trans)

lemma unpack_addresses: "map of_be (chunks_exact 32 (concat (map (be_bytes 32) xs))) = (xs :: b32 list)"
proof -
  have "chunks_exact 32 (concat (map (be_bytes 32) xs)) = map (be_bytes 32) xs"
    by (rule chunks_exact_concat) auto
  then show ?thesis by (simp add: of_be_be_bytes comp_def take_bit_word_eq_self)
qed

lemma length_packed: "length (concat (map (be_bytes 32) (xs :: b32 list))) = 32 * length xs"
  by (induction xs) auto

interpretation wire_ref_index: wire_total ref_index_payload_to_cbor ref_index_payload_from_cbor
  "\<lambda>v. length (ri_addresses v) < 2 ^ 64" 1
proof
  fix v :: RefIndexPayload and d :: nat
  assume v: "length (ri_addresses v) < 2 ^ 64"
  show "ref_index_payload_from_cbor (ref_index_payload_to_cbor v) = Inr v"
    by (simp add: ref_index_payload_from_cbor_def ref_index_payload_to_cbor_def)
  show "cbor_rep (ref_index_payload_to_cbor v)"
    using v unfolding ref_index_payload_to_cbor_def by (intro struct_rep) (simp_all add: length_enc)
  show "in_profile d (ref_index_payload_to_cbor v)" if "d + 1 \<le> MAX_DEPTH"
    unfolding ref_index_payload_to_cbor_def
    by (rule in_profile_struct, use that in simp, intro ascending_intros) (use that in simp_all)
qed

lemma head_length: "length (head m n) \<le> 9"
  by (simp add: head_def Let_def)

lemma payload_length:
  assumes "to_bytes ref_index_payload_to_cbor v = Inr bs"
  shows "length bs \<le> 45 + length (ri_addresses v)"
proof -
  have "bs = head 5 2 @ head 0 0 @ head 0 1 @ head 0 1 @ head 2 (of_nat (length (ri_addresses v))) @ ri_addresses v"
    using assms by (auto simp: to_bytes_def encode_def ref_index_payload_to_cbor_def req_enc_def encode_into.simps MAX_DEPTH_def
        rbind_Ok_iff)
  then show ?thesis
    using head_length [of 5 2] head_length [of 0 0] head_length [of 0 1] head_length [of 2 "of_nat (length (ri_addresses v))"] by simp
qed

lemma ref_index_item_opens:
  assumes "ref_index_item c part = Inr it" "item_to_bytes it = Inr bs"
  shows "open_ref_index sha256 c (sha256 bs) bs = Inr part"
proof -
  from assms(1) obtain body where chk: "ri_check part = Inr ()"
    and body: "to_bytes ref_index_payload_to_cbor \<lparr>ri_addresses = concat (map (be_bytes 32) part)\<rparr> = Inr body"
    and it: "it = \<lparr>it_kind = RefIndex, it_collection = c, it_seq = None, it_prev = None, it_epoch = None, it_signer = None,
      it_salt = None, it_idem = None, it_refs = None, it_stream = None, it_body = body, it_sig = None\<rparr>"
    by (auto simp: ref_index_item_def rbind_Ok_iff map_err_Ok_iff)
  have n: "length part \<le> 8192" using chk by (auto simp: ri_check_def MAX_REF_INDEX_ENTRIES_def split: if_splits)
  have l: "length (concat (map (be_bytes 32) part)) = 32 * length part" by (rule length_packed)
  have "item_rep it" using payload_length [OF body] n l by (simp add: item_rep_def it)
  then have dec: "item_from_bytes bs = Inr it"
    using wire_item.bytes_round_trip assms(2) by (simp add: item_to_bytes_def item_from_bytes_def)
  have "from_bytes ref_index_payload_from_cbor body = Inr \<lparr>ri_addresses = concat (map (be_bytes 32) part)\<rparr>"
    using wire_ref_index.bytes_round_trip [OF body] n l by simp
  moreover have "check_shape it = Inr ()" by (simp add: check_shape_def it)
  ultimately have "ref_index_addresses it = Inr part"
    using chk l by (simp add: ref_index_addresses_def it unpack_addresses)
  then show ?thesis using dec by (simp add: open_ref_index_def it)
qed

lemma packed_part_opens:
  assumes "rbind (ref_index_item c part) (\<lambda>it. rbind (map_err CborErr (item_to_bytes it)) (\<lambda>bs. Ok (sha256 bs, bs))) = Inr p"
  shows "(case p of (a, bs) \<Rightarrow> open_ref_index sha256 c a bs) = Inr part"
  using assms by (auto simp: rbind_Ok_iff map_err_Ok_iff intro: ref_index_item_opens)

text \<open>C35. An inventory packed into ref-index objects is recovered exactly: every object opens under its
  own address, the opened lists concatenate to the inventory, and a snapshot never names more than
  the permitted number of indices.\<close>

theorem pack_open_round_trip:
  assumes "pack_ref_indices sha256 c refs = Inr parts"
  shows "\<exists>ls. rmapM (\<lambda>(a, bs). open_ref_index sha256 c a bs) parts = Inr ls \<and> concat ls = refs
    \<and> length parts \<le> MAX_REF_INDICES"
proof (cases "refs = []")
  case True
  then show ?thesis using assms by (simp add: pack_ref_indices_def)
next
  case False
  define n where "n = div_ceil (length refs) MAX_REF_INDEX_ENTRIES"
  define per where "per = div_ceil (length refs) n"
  have n: "0 < n" "n \<le> MAX_REF_INDICES"
    using assms False by (auto simp: pack_ref_indices_def n_def Let_def div_ceil_def MAX_REF_INDEX_ENTRIES_def Suc_le_eq split: if_splits)
      (cases refs; simp)
  have "1 \<le> length refs" using False by (cases refs) auto
  then have per: "0 < per" "length refs \<le> n * per"
    using n(1) dividend_less_times_div [of n "length refs + n - 1"]
    by (auto simp: per_def div_ceil_def div_greater_zero_iff)
  have "list_all2 (\<lambda>part p. rbind (ref_index_item c part) (\<lambda>it. rbind (map_err CborErr (item_to_bytes it)) (\<lambda>bs. Ok (sha256 bs, bs))) = Inr p)
      (chunks per refs) parts"
    using assms False n(2) by (simp add: pack_ref_indices_def n_def [symmetric] per_def [symmetric] Let_def rmapM_Ok_iff split: if_splits)
  then have "list_all2 (\<lambda>p part. (case p of (a, bs) \<Rightarrow> open_ref_index sha256 c a bs) = Inr part) parts (chunks per refs)"
    by (simp add: list_all2_conv_all_nth packed_part_opens)
  then have ls: "rmapM (\<lambda>(a, bs). open_ref_index sha256 c a bs) parts = Inr (chunks per refs)"
    by (simp add: rmapM_Ok_iff)
  have "length (chunks per refs) \<le> n" using length_chunks [OF per] .
  moreover have "length parts = length (chunks per refs)" using rmapM_length [OF ls] by simp
  ultimately show ?thesis using ls n(2) concat_chunks [OF per(1)] by auto
qed

theorem pack_open_round_trip_witness:
  "\<exists>parts ls. pack_ref_indices (\<lambda>_. 0) 1 [2, 5] = Inr parts
    \<and> rmapM (\<lambda>(a, bs). open_ref_index (\<lambda>_. 0) 1 a bs) parts = Inr ls \<and> concat ls = [2, 5]
    \<and> length parts \<le> MAX_REF_INDICES"
proof -
  have "isl (pack_ref_indices (\<lambda>_. 0) 1 [2, 5]) = False" by code_simp
  then obtain parts where "pack_ref_indices (\<lambda>_. 0) 1 [2, 5] = Inr parts"
    by (cases "pack_ref_indices (\<lambda>_. 0) 1 [2, 5]") auto
  then show ?thesis using pack_open_round_trip by blast
qed

end
