(* ===== verification/LogObjects.thy ===== *)
theory LogObjects
  imports LogAppend LogDirect RefIndex
begin

text \<open>
  Objects of \<open>log-service/src/service.rs\<close>: validation of uploaded bytes, the object store of the
  memory backend (\<open>MemObjects\<close> of \<open>mem.rs\<close>), publication of an object row, and the methods
  \<open>put_object\<close>, \<open>commit_object\<close>, \<open>get_object\<close> and \<open>has_objects\<close>.

  A method runs several transactions; the definitions compose them in the order of the source,
  each transaction being one atomic step on the service.
\<close>

subsection \<open>Configuration and the object store\<close>

record Config =
  cf_roots :: "b32 list"
  cf_hmac :: "bytes \<Rightarrow> bytes \<Rightarrow> bytes"
  cf_url_secret :: bytes
  cf_public_base :: string

record Verified =
  vf_kind :: u64
  vf_size :: u64
  vf_checksum :: b32

definition store_put_new :: "string \<Rightarrow> bytes \<Rightarrow> Service \<Rightarrow> Service \<times> bool" where
  "store_put_new key b s =
    (if sv_objects s key \<noteq> None then (s, False) else (s\<lparr>sv_objects := (sv_objects s)(key \<mapsto> b)\<rparr>, True))"

definition store_get :: "string \<Rightarrow> (u64 \<times> u64) option \<Rightarrow> Service \<Rightarrow> ServiceError + bytes option" where
  "store_get key rng s =
    (case sv_objects s key of
       None \<Rightarrow> Ok None
     | Some b \<Rightarrow>
         (case rng of
            None \<Rightarrow> Ok (Some b)
          | Some (o', l) \<Rightarrow>
              if 2 ^ 64 \<le> unat o' + unat l \<or> length b < unat o' + unat l then Err (err_invalid ''range'')
              else Ok (Some (take (unat l) (drop (unat o') b)))))"

definition store_delete :: "string \<Rightarrow> Service \<Rightarrow> Service" where
  "store_delete key s = s\<lparr>sv_objects := (sv_objects s)(key := None)\<rparr>"

datatype VerifiedCopy = Unverified | Refused ServiceError | Copied Verified bool

text \<open>The provided methods of the trait \<open>ObjectStore\<close>; \<open>vm\<close> is the store's
  \<open>verified_meta\<close> (the memory store records none).\<close>

definition store_copy_new :: "string \<Rightarrow> string \<Rightarrow> Service \<Rightarrow> Service \<times> (ServiceError + bool)" where
  "store_copy_new src dst s =
    (case sv_objects s src of
       Some b \<Rightarrow> (case store_put_new dst b s of (s, w) \<Rightarrow> (s, Ok w))
     | None \<Rightarrow> (s, Err (err_backend ''staged object vanished'')))"

definition copy_verified_new ::
  "(string \<Rightarrow> Verified option) \<Rightarrow> string \<Rightarrow> string \<Rightarrow> (Verified \<Rightarrow> ServiceError + unit) \<Rightarrow> Service
    \<Rightarrow> Service \<times> (ServiceError + VerifiedCopy)" where
  "copy_verified_new vm src dst accept s =
    (case vm src of
       None \<Rightarrow> (s, Ok Unverified)
     | Some v \<Rightarrow>
         (case accept v of
            Inl e \<Rightarrow> (s, Ok (Refused e))
          | Inr _ \<Rightarrow> (case store_copy_new src dst s of (s, r) \<Rightarrow> (s, rbind r (\<lambda>w. Ok (Copied v w))))))"

subsection \<open>Validation\<close>

definition ref_index_body :: "Item \<Rightarrow> Usage \<Rightarrow> Usage \<times> (ServiceError + b32 list)" where
  "ref_index_body it u =
    (case preflight (it_body it) u of
       (u, Inl reason) \<Rightarrow> (u, Err (err_invalid reason))
     | (u, Inr _) \<Rightarrow>
         (u, map_err (\<lambda>e. err_msg (err_invalid ''ref_index'') (schema_error_display e)) (ref_index_addresses it)))"

definition validate_object_bytes ::
  "crypto \<Rightarrow> b16 \<Rightarrow> b32 \<Rightarrow> u64 \<Rightarrow> u64 \<Rightarrow> b32 \<Rightarrow> bytes \<Rightarrow> Usage \<Rightarrow> Usage \<times> (ServiceError + unit)" where
  "validate_object_bytes cr c address knd sz checksum bs u =
    (if of_nat (length bs) \<noteq> sz then (u, Err (err_invalid ''size''))
     else if cr_sha256 cr bs \<noteq> checksum then (u, Err (err_invalid ''checksum''))
     else
       (case budget_wire item_from_cbor bs u of
          (u, Inl e) \<Rightarrow> (u, Err e)
        | (u, Inr it) \<Rightarrow>
            (case check_shape it of
               Inl e \<Rightarrow> (u, Err (err_msg (err_invalid ''shape'') (''object: '' @ schema_error_display e)))
             | Inr _ \<Rightarrow>
                 if it_collection it \<noteq> c \<or> item_kind_value (it_kind it) \<noteq> knd then
                   (u, Err (err_msg (err_invalid ''shape'') ''object collection or kind''))
                 else if knd \<noteq> item_kind_value BlobPart \<and> checksum \<noteq> address then (u, Err (err_invalid ''address''))
                 else if knd = item_kind_value RefIndex then
                   (case ref_index_body it u of (u, r) \<Rightarrow> (u, rbind r (\<lambda>_. Ok ())))
                 else (u, Ok ()))))"

definition verify_upload_with_budget ::
  "crypto \<Rightarrow> b16 \<Rightarrow> b32 \<Rightarrow> bytes \<Rightarrow> Usage \<Rightarrow> Usage \<times> (ServiceError + Verified)" where
  "verify_upload_with_budget cr c address bs u =
    (if MAX_OBJECT_BYTES < of_nat (length bs) then (u, Err (err_reason CodeTooLarge ''object''))
     else
       (case budget_wire item_from_cbor bs u of
          (u, Inl e) \<Rightarrow> (u, Err e)
        | (u, Inr it) \<Rightarrow>
            let knd = item_kind_value (it_kind it) in
            if \<not> (16 \<le> knd \<and> knd \<le> 19) then (u, Err (err_invalid ''kind''))
            else
              (case validate_object_bytes cr c address knd (of_nat (length bs)) (cr_sha256 cr bs) bs u of
                 (u, Inl e) \<Rightarrow> (u, Err e)
               | (u, Inr _) \<Rightarrow> (u, Ok \<lparr>vf_kind = knd, vf_size = of_nat (length bs), vf_checksum = cr_sha256 cr bs\<rparr>))))"

definition check_verified :: "b32 \<Rightarrow> Verified \<Rightarrow> ServiceError + unit" where
  "check_verified address v =
    (if \<not> (16 \<le> vf_kind v \<and> vf_kind v \<le> 19) \<or> MAX_OBJECT_BYTES < vf_size v then Err (err_invalid ''kind'')
     else if vf_kind v \<noteq> item_kind_value BlobPart \<and> vf_checksum v \<noteq> address then Err (err_invalid ''address'')
     else Ok ())"

subsection \<open>The deletion floor\<close>

definition deletion_floor :: "Service \<Rightarrow> b16 \<Rightarrow> ServiceError + DeletionRecord option" where
  "deletion_floor s c =
    (case map_of (sv_deletions s) c of
       None \<Rightarrow> Ok None
     | Some r \<Rightarrow>
         rbind (deletion_validate r) (\<lambda>_.
         if dl_collection r \<noteq> c then Err deletion_unavailable else Ok (Some r)))"

definition refuse_deleted_floor :: "Service \<Rightarrow> b16 \<Rightarrow> ServiceError + unit" where
  "refuse_deleted_floor s c =
    rbind (deletion_floor s c) (\<lambda>fl.
    case fl of
      Some r \<Rightarrow> Err ((err_reason CodeGone ''collection_deletion_floor'')\<lparr>se_details := Some (deletion_to_cbor r)\<rparr>)
    | None \<Rightarrow> Ok ())"

subsection \<open>Publication\<close>

definition active_device :: "Principal \<Rightarrow> MemCollection \<Rightarrow> ServiceError + CollectionSt" where
  "active_device p g =
    rbind (svc_load g) (\<lambda>st.
    if p = ControlPlane then Err (err_reason CodeForbidden ''principal'')
    else
      rbind (authorize st p) (\<lambda>_.
      rbind (live (cm_status (st_meta st))) (\<lambda>_. Ok st)))"

definition committed_at :: "MemCollection \<Rightarrow> b32 \<Rightarrow> bool" where
  "committed_at g a = (case map_of (mb_objects g) a of Some m \<Rightarrow> om_committed m | None \<Rightarrow> False)"

definition object_committed_current :: "Service \<Rightarrow> b16 \<Rightarrow> b32 \<Rightarrow> ServiceError + bool" where
  "object_committed_current s c a =
    rbind (svc_load (sv_cols s c)) (\<lambda>st.
    if cm_status (st_meta st) = Gone then Err (err_new CodeGone)
    else rbind (refuse_deleted_floor s c) (\<lambda>_. Ok (committed_at (sv_cols s c) a)))"

definition file_bytes :: "MemCollection \<Rightarrow> CollectionMeta \<Rightarrow> u64" where
  "file_bytes g m = (case cm_file_bytes m of Some b \<Rightarrow> b | None \<Rightarrow> mem_committed_blob_bytes g)"

definition object_limit :: "CollectionMeta \<Rightarrow> u64" where
  "object_limit m =
    (case cm_restore_plan m of
       Some plan \<Rightarrow> if cm_status m = Importing then rp_used_bytes plan else qu_storage_bytes (cm_quotas m)
     | None \<Rightarrow> qu_storage_bytes (cm_quotas m))"

text \<open>The row's accounting: quota, used bytes and, for a blob part, the file bytes.\<close>

definition charge_object :: "MemCollection \<Rightarrow> ObjectMeta \<Rightarrow> CollectionMeta \<Rightarrow> ServiceError + CollectionMeta" where
  "charge_object g om m =
    (if 2 ^ 64 \<le> unat (cm_used_bytes m) + unat (om_size om) \<or> object_limit m < cm_used_bytes m + om_size om then
       Err (err_new CodeQuotaExceeded)
     else
       let m = m\<lparr>cm_used_bytes := cm_used_bytes m + om_size om\<rparr> in
       if om_kind om = item_kind_value BlobPart then
         if 2 ^ 64 \<le> unat (file_bytes g m) + unat (om_size om) then Err (err_new CodeQuotaExceeded)
         else Ok (m\<lparr>cm_file_bytes := Some (file_bytes g m + om_size om)\<rparr>)
       else Ok m)"

definition record_object :: "b16 \<Rightarrow> ObjectMeta \<Rightarrow> Service \<Rightarrow> Service \<times> (ServiceError + bool)" where
  "record_object c om s =
    (let g = sv_cols s c in
     case svc_load g of
       Inl e \<Rightarrow> (s, Err e)
     | Inr st \<Rightarrow>
         if cm_status (st_meta st) = Gone then (s, Err (err_new CodeGone))
         else if committed_at g (om_address om) then (s, Ok False)
         else
           (case (if om_committed om then rbind (charge_object g om (st_meta st)) (\<lambda>m. Ok [PutMeta m]) else Ok []) of
              Inl e \<Rightarrow> (s, Err e)
            | Inr ws \<Rightarrow>
                (case refuse_deleted_floor s c of
                   Inl e \<Rightarrow> (s, Err e)
                 | Inr _ \<Rightarrow> (set_col c (mem_commit (ws @ [PutObject om]) g) s, Ok False))))"

definition finalize ::
  "crypto \<Rightarrow> b16 \<Rightarrow> b32 \<Rightarrow> u64 \<Rightarrow> bytes \<Rightarrow> i64 \<Rightarrow> Usage \<Rightarrow> Service \<Rightarrow> Usage \<times> Service \<times> (ServiceError + bool)" where
  "finalize cr c a knd bs now u s =
    (let key = object_key c a;
         om = (\<lambda>b. \<lparr>om_address = a, om_kind = knd, om_size = of_nat (length b), om_checksum = cr_sha256 cr b,
                om_committed = True, om_created_at = now\<rparr>) in
     case store_put_new key bs s of
       (s, True) \<Rightarrow> (u, record_object c (om bs) s)
     | (s, False) \<Rightarrow>
         (case sv_objects s key of
            None \<Rightarrow> (u, s, Err (err_backend ''object vanished''))
          | Some ex \<Rightarrow>
              (case validate_object_bytes cr c a knd (of_nat (length ex)) (cr_sha256 cr ex) ex u of
                 (u, Inl e) \<Rightarrow> (u, s, Err (err_msg e ''existing object fails verification: integrity incident''))
               | (u, Inr _) \<Rightarrow> (u, record_object c (om ex) s))))"

definition published_reply :: "Service \<Rightarrow> b16 \<Rightarrow> b32 \<Rightarrow> ServiceError + bool" where
  "published_reply s c a =
    rbind (object_committed_current s c a) (\<lambda>b.
    if b then Ok True else Err (err_backend ''object publication missing''))"

subsection \<open>The methods\<close>

text \<open>The checks of \<open>put_object\<close> on the request alone.\<close>

definition put_object_checks :: "PutObjectParams \<Rightarrow> ServiceError + unit" where
  "put_object_checks q =
    (if \<not> (po_kind q = Manifest \<or> po_kind q = Chunk \<or> po_kind q = BlobPart \<or> po_kind q = RefIndex) then Err (err_invalid ''kind'')
     else if MAX_OBJECT_BYTES < po_size q then Err (err_reason CodeTooLarge ''object'')
     else if (case po_bytes q of Some b \<Rightarrow> MAX_INLINE_OBJECT_BYTES < of_nat (length b) | None \<Rightarrow> False) then
       Err (err_reason CodeTooLarge ''inline'')
     else if po_kind q \<noteq> BlobPart \<and> po_checksum q \<noteq> po_address q then Err (err_invalid ''address'')
     else Ok ())"

definition device_id :: "Principal \<Rightarrow> ServiceError + b16" where
  "device_id p = (case p of Device d _ _ \<Rightarrow> Ok d | ControlPlane \<Rightarrow> Err (err_reason CodeForbidden ''principal''))"

text \<open>What precedes the upload: the state the quota is judged against, the caller, and whether
  the address is committed already.\<close>

definition upload_gate :: "Principal \<Rightarrow> b16 \<Rightarrow> b32 \<Rightarrow> Service \<Rightarrow> ServiceError + (CollectionSt \<times> b16 \<times> bool)" where
  "upload_gate p c a s =
    rbind (active_device p (sv_cols s c)) (\<lambda>st.
    rbind (device_id p) (\<lambda>d.
    rbind (object_committed_current s c a) (\<lambda>done'. Ok (st, d, done'))))"

definition over_quota :: "CollectionMeta \<Rightarrow> u64 \<Rightarrow> bool" where
  "over_quota m sz \<longleftrightarrow> 2 ^ 64 \<le> unat (cm_used_bytes m) + unat sz \<or> qu_storage_bytes (cm_quotas m) < cm_used_bytes m + sz"

definition put_object_with_budget ::
  "crypto \<Rightarrow> Config \<Rightarrow> Principal \<Rightarrow> PutObjectParams \<Rightarrow> i64 \<Rightarrow> Usage \<Rightarrow> Service
    \<Rightarrow> Usage \<times> Service \<times> (ServiceError + PutObjectResult)" where
  "put_object_with_budget cr cf p q now u s =
    (let c = po_collection q; a = po_address q; knd = item_kind_value (po_kind q) in
     case rbind (put_object_checks q) (\<lambda>_. upload_gate p c a s) of
       Inl e \<Rightarrow> (u, s, Err e)
     | Inr (st, d, done') \<Rightarrow>
         if done' then (u, s, Ok \<lparr>pr_status = Exists, pr_direct = None\<rparr>)
         else if over_quota (st_meta st) (po_size q) then (u, s, Err (err_new CodeQuotaExceeded))
         else
           (case po_bytes q of
              None \<Rightarrow> (u, s, Ok \<lparr>pr_status = Upload, pr_direct = Some (direct (cf_hmac cf) (cf_url_secret cf) (cf_public_base cf)
                (cm_region (st_meta st)) (Some d) c a (po_size q) (po_checksum q) now)\<rparr>)
            | Some b \<Rightarrow>
                (case validate_object_bytes cr c a knd (po_size q) (po_checksum q) b u of
                   (u, Inl e) \<Rightarrow> (u, s, Err e)
                 | (u, Inr _) \<Rightarrow>
                     (case finalize cr c a knd b now u s of
                        (u, s, Inl e) \<Rightarrow> (u, s, Err e)
                      | (u, s, Inr fenced) \<Rightarrow>
                          (u, s, rbind (if fenced then Ok True else published_reply s c a) (\<lambda>_.
                             Ok \<lparr>pr_status = Stored, pr_direct = None\<rparr>))))))"

text \<open>The row of a verified copy: the copied record, or the one of the bytes already there.\<close>

definition copied_row ::
  "(string \<Rightarrow> Verified option) \<Rightarrow> string \<Rightarrow> b32 \<Rightarrow> i64 \<Rightarrow> Verified \<Rightarrow> bool \<Rightarrow> ServiceError + ObjectMeta" where
  "copied_row vm final_key a now verified wrote =
    rbind (if wrote then Ok verified else ok_or (vm final_key) (err_backend ''final object without verification record'')) (\<lambda>v.
    Ok \<lparr>om_address = a, om_kind = vf_kind v, om_size = vf_size v, om_checksum = vf_checksum v, om_committed = True,
        om_created_at = now\<rparr>)"

text \<open>The path that buffers the staged bytes.\<close>

definition commit_staged ::
  "crypto \<Rightarrow> b16 \<Rightarrow> b32 \<Rightarrow> string \<Rightarrow> i64 \<Rightarrow> Usage \<Rightarrow> Service \<Rightarrow> Usage \<times> Service \<times> (ServiceError + bool)" where
  "commit_staged cr c a staged now u s =
    (case sv_objects s staged of
       None \<Rightarrow> (u, s, object_committed_current s c a)
     | Some bs \<Rightarrow>
         (case verify_upload_with_budget cr c a bs u of
            (u, Inl e) \<Rightarrow> (u, if is_resource_refusal e then s else store_delete staged s, Err e)
          | (u, Inr v) \<Rightarrow>
              (case finalize cr c a (vf_kind v) bs now u s of
                 (u, s, Inl e) \<Rightarrow> (u, s, Err e)
               | (u, s, Inr _) \<Rightarrow> let s = store_delete staged s in (u, s, published_reply s c a))))"

definition commit_object_with_budget ::
  "crypto \<Rightarrow> (string \<Rightarrow> Verified option) \<Rightarrow> Principal \<Rightarrow> CommitObjectParams \<Rightarrow> i64 \<Rightarrow> Usage \<Rightarrow> Service
    \<Rightarrow> Usage \<times> Service \<times> (ServiceError + bool)" where
  "commit_object_with_budget cr vm p q now u s =
    (let c = co_collection q; a = co_address q; final_key = object_key c a in
     case upload_gate p c a s of
       Inl e \<Rightarrow> (u, s, Err e)
     | Inr (_, d, done') \<Rightarrow>
         if done' then (u, s, Ok True)
         else
           let staged = staging_key c a d in
           (case copy_verified_new vm staged final_key (check_verified a) s of
              (s, Inl e) \<Rightarrow> (u, s, Err e)
            | (s, Inr (Refused e)) \<Rightarrow> (u, store_delete staged s, Err e)
            | (s, Inr (Copied v wrote)) \<Rightarrow>
                (case copied_row vm final_key a now v wrote of
                   Inl e \<Rightarrow> (u, s, Err e)
                 | Inr om \<Rightarrow>
                     (case record_object c om s of
                        (s, Inl e) \<Rightarrow> (u, s, Err e)
                      | (s, Inr _) \<Rightarrow> let s = store_delete staged s in (u, s, object_committed_current s c a)))
            | (s, Inr Unverified) \<Rightarrow> commit_staged cr c a staged now u s))"

definition fetch_object :: "Service \<Rightarrow> string \<Rightarrow> (u64 \<times> u64) option \<Rightarrow> ServiceError + bytes" where
  "fetch_object s key rng =
    rbind (store_get key rng s) (\<lambda>b. ok_or b (err_msg (err_new CodeNotFound) ''object bytes missing: integrity incident''))"

definition committed_meta :: "MemCollection \<Rightarrow> b32 \<Rightarrow> ServiceError + ObjectMeta" where
  "committed_meta g a =
    ok_or (case map_of (mb_objects g) a of Some m \<Rightarrow> if om_committed m then Some m else None | None \<Rightarrow> None) (err_new CodeNotFound)"

definition get_object :: "Config \<Rightarrow> Principal \<Rightarrow> GetObjectParams \<Rightarrow> i64 \<Rightarrow> Service \<Rightarrow> ServiceError + GetObjectResult" where
  "get_object cf p q now s =
    (let c = go_collection q; a = go_address q; g = sv_cols s c; key = object_key c a in
     rbind (svc_load g) (\<lambda>st.
     rbind (authorize st p) (\<lambda>_.
     rbind (not_gone (cm_status (st_meta st))) (\<lambda>_.
     rbind (committed_meta g a) (\<lambda>om.
     let reply = (\<lambda>b d. \<lparr>gt_bytes = b, gt_direct = d, gt_size = om_size om, gt_checksum = om_checksum om\<rparr>) in
     case go_range q of
       Some r \<Rightarrow>
         if 2 ^ 64 \<le> unat (br_offset r) + unat (br_len r) \<or> om_size om < br_offset r + br_len r
            \<or> MAX_OBJECT_BYTES < br_len r then Err (err_invalid ''range'')
         else rbind (fetch_object s key (Some (br_offset r, br_len r))) (\<lambda>b. Ok (reply (Some b) None))
     | None \<Rightarrow>
         if om_size om \<le> MAX_INLINE_OBJECT_BYTES then rbind (fetch_object s key None) (\<lambda>b. Ok (reply (Some b) None))
         else Ok (reply None (Some (direct (cf_hmac cf) (cf_url_secret cf) (cf_public_base cf) (cm_region (st_meta st)) None
                c a (om_size om) (om_checksum om) now))))))))"

definition has_objects :: "Principal \<Rightarrow> HasObjectsParams \<Rightarrow> Service \<Rightarrow> ServiceError + HasObjectsResult" where
  "has_objects p q s =
    (let g = sv_cols s (ho_collection q) in
     if MAX_HAS_OBJECTS < length (ho_addresses q) then Err (err_reason CodeTooLarge ''addresses'')
     else
       rbind (svc_load g) (\<lambda>st.
       rbind (authorize st p) (\<lambda>_.
       rbind (not_gone (cm_status (st_meta st))) (\<lambda>_.
       Ok \<lparr>hx_present = map (\<lambda>m. case m of Some m \<Rightarrow> om_committed m | None \<Rightarrow> False) (mem_objects g (ho_addresses q))\<rparr>))))"

end
