(* ===== verification/AppendCorrect.thy ===== *)
theory AppendCorrect
  imports LogAppend
begin

text \<open>
  What an append does: it never panics, it changes nothing unless it lands, and when it lands
  the batch becomes the next positions of the log, linked to the chain, signed and authorised
  item by item.
\<close>

subsection \<open>Parsed batches\<close>

definition parsed :: "Principal \<Rightarrow> b16 \<Rightarrow> u64 \<Rightarrow> bytes \<Rightarrow> Item \<Rightarrow> bool" where
  "parsed p c seq b it \<longleftrightarrow> item_from_bytes b = Inr it \<and> check_shape it = Inr () \<and> it_collection it = c
     \<and> is_log_item (it_kind it) \<and> it_seq it = Some seq \<and> pred_option (\<lambda>r. length r \<le> MAX_REFS_PER_ITEM) (it_refs it)
     \<and> (p = ControlPlane \<longrightarrow> it_kind it = Policy) \<and> length b \<le> unat MAX_ITEM_BYTES"

lemma budget_wire_Ok: "budget_wire fc b u = (u', Inr v) \<Longrightarrow> from_bytes fc b = Inr v"
  by (auto simp: budget_wire_def budget_raw_def from_bytes_def res_simps split: prod.splits sum.splits)

lemma budget_wire_length: "budget_wire fc b u = (u', Inr v) \<Longrightarrow> length b \<le> MAX_BYTES"
  by (auto simp: budget_wire_def preflight_def Let_def split: prod.splits sum.splits if_splits)

lemma fits_u64: "length b \<le> MAX_BYTES \<Longrightarrow> unat (of_nat (length b) :: u64) = length b"
  by (simp add: MAX_BYTES_def unat_of_nat take_bit_nat_eq_self)

lemma parse_item_Ok:
  assumes "parse_item p c es i b u = (u', Inr it)"
  shows "parsed p c (es + of_nat i) b it"
proof -
  obtain u1 where "budget_wire item_from_cbor b u = (u1, Inr it)"
    using assms by (auto simp: parse_item_def res_simps split: if_splits prod.splits sum.splits)
  then show ?thesis
    using assms budget_wire_Ok [of item_from_cbor b u u1 it] fits_u64 [OF budget_wire_length, of item_from_cbor b u u1 it]
    by (auto simp: parse_item_def parsed_def item_from_bytes_def res_simps pred_option_def not_less word_le_nat_alt
        split: if_splits option.splits)
qed

fun parsed_from :: "Principal \<Rightarrow> b16 \<Rightarrow> u64 \<Rightarrow> bytes list \<Rightarrow> Item list \<Rightarrow> bool" where
  "parsed_from p c seq [] [] = True"
| "parsed_from p c seq (b # bs) (it # its) = (parsed p c seq b it \<and> parsed_from p c (seq + 1) bs its)"
| "parsed_from p c seq _ _ = False"

lemma parse_items_Ok:
  "parse_items p c es i bs u = (u', Inr its) \<Longrightarrow> parsed_from p c (es + of_nat i) bs its"
proof (induction bs arbitrary: i u its)
  case (Cons b bs)
  then obtain u1 it its' where 1: "parse_item p c es i b u = (u1, Inr it)"
      "parse_items p c es (i + 1) bs u1 = (u', Inr its')" "its = it # its'"
    by (auto split: prod.splits sum.splits)
  then show ?case using parse_item_Ok [OF 1(1)] Cons.IH [OF 1(2)] by (simp add: ac_simps)
qed simp

lemma parsed_from_length: "parsed_from p c seq bs its \<Longrightarrow> length its = length bs"
  by (induction p c seq bs its rule: parsed_from.induct) auto

lemma parsed_from_all: "parsed_from p c seq bs its \<Longrightarrow> list_all (\<lambda>it. check_shape it = Inr () \<and> is_log_item (it_kind it)) its"
  by (induction p c seq bs its rule: parsed_from.induct) (auto simp: parsed_def)

subsection \<open>No panic\<close>

lemma check_shape_signed:
  "check_shape it = Inr () \<Longrightarrow> is_log_item (it_kind it) \<Longrightarrow> it_signer it \<noteq> None \<and> it_sig it \<noteq> None"
  by (cases "it_kind it") (simp_all add: check_shape_def is_log_item_def Let_def split: if_splits)

lemma check_signer_no_panic:
  assumes "it_signer it \<noteq> None" "it_sig it \<noteq> None"
  shows "check_signer cr ws it i \<noteq> Inl Panic"
  using assms by (auto simp: check_signer_def res_simps split: if_splits)

lemma check_item_no_panic:
  assumes "check_shape it = Inr ()" "is_log_item (it_kind it)"
  shows "snd (check_item cr ws it seq i roots u) \<noteq> Inl Panic"
  using check_shape_signed [OF assms] check_signer_no_panic [of it cr ws i] assms(2)
  by (cases "it_kind it") (auto simp: check_item_def is_log_item_def res_simps apsnd_def map_prod_def split: sum.splits prod.splits)

lemma check_items_no_panic:
  "list_all (\<lambda>it. check_shape it = Inr () \<and> is_log_item (it_kind it)) its \<Longrightarrow>
    snd (check_items cr ws es i its roots u) \<noteq> Inl Panic"
proof (induction its arbitrary: ws i u)
  case (Cons it its)
  then have "snd (check_item cr ws it (es + of_nat i) i roots u) \<noteq> Inl Panic"
    by (intro check_item_no_panic) simp_all
  then show ?case using Cons by (auto split: prod.splits sum.splits) (metis snd_conv)+
qed simp

lemma append_replay_no_panic: "ap_items ps \<noteq> [] \<Longrightarrow> append_replay cr ps pos g \<noteq> Inl Panic"
  by (auto simp: append_replay_def Let_def)

lemma append_gate_no_panic: "ap_items ps \<noteq> [] \<Longrightarrow> append_gate cr p ps items g \<noteq> Inl Panic"
  using append_replay_no_panic [of ps cr _ g]
  by (auto simp: append_gate_def res_simps split: option.splits if_splits)

text \<open>C26. An append never panics: whatever bytes a caller sends, none of the \<open>unwrap\<close>s, indexings
  and \<open>unreachable!\<close>s of the path can fail, because the shape check established what they rely on.\<close>

theorem append_never_panics:
  "snd (snd (append_with_budget cr roots p ps now u s)) \<noteq> Inl Panic"
proof -
  let ?c = "ap_collection ps" and ?g = "sv_cols s (ap_collection ps)"
  have batch: "snd (append_batch cr roots p ps now items st g u) \<noteq> Inl Panic"
    if "parsed_from p ?c (ap_expect_seq ps) (ap_items ps) items" for items st g u
    using check_items_no_panic [OF parsed_from_all [OF that], of cr st "ap_expect_seq ps" 0 roots u]
    by (auto simp: append_batch_def res_simps split: sum.splits prod.splits option.splits)
  have ne: "ap_items ps \<noteq> []" if "append_counts ps = Inr x" for x
    using that by (auto simp: append_counts_def)
  show ?thesis
    using batch parse_items_Ok [of p ?c "ap_expect_seq ps" 0 "ap_items ps" u] append_gate_no_panic [OF ne, of _ cr p _ ?g]
    by (auto simp: append_with_budget_def Let_def split: sum.splits prod.splits)
      (metis snd_conv)+
qed

subsection \<open>The cases of an append\<close>

lemma plain_notice [simp]: "oc_notice (plain r) = None"
  by (simp add: plain_def)

lemma append_replay_early: "append_replay cr ps pos g = Inr (Some oc) \<Longrightarrow> oc_notice oc = None"
  unfolding append_replay_def Let_def by (auto split: if_splits)

lemma append_gate_early: "append_gate cr p ps items g = Inr (Inl oc) \<Longrightarrow> oc_notice oc = None"
  unfolding append_gate_def by (auto simp: rbind_Ok_iff split: option.splits if_splits dest: append_replay_early)

lemma append_tokens_early: "append_tokens g now items = Inr (Some oc) \<Longrightarrow> oc_notice oc = None"
  by (auto simp: append_tokens_def res_simps)

lemma set_col_same [simp]: "set_col c (sv_cols s c) s = s"
  by (simp add: set_col_def)

text \<open>A batch that landed, with everything the path computed on the way.\<close>

definition lands ::
  "crypto \<Rightarrow> b32 list \<Rightarrow> Principal \<Rightarrow> AppendParams \<Rightarrow> i64 \<Rightarrow> MemCollection \<Rightarrow> Item list \<Rightarrow> CollectionSt \<Rightarrow> CollectionSt
    \<Rightarrow> b16 list \<Rightarrow> b32 \<Rightarrow> bool" where
  "lands cr roots p ps now g items st ws revoked prev \<longleftrightarrow>
     append_counts ps = Inr () \<and> parsed_from p (ap_collection ps) (ap_expect_seq ps) (ap_items ps) items
     \<and> append_gate cr p ps items g = Inr (Inr st)
     \<and> check_chain cr 0 (ap_expect_prev ps) (zip items (ap_items ps)) = Inr prev
     \<and> (\<exists>u u'. check_items cr st (ap_expect_seq ps) 0 items roots u = (u', Inr (ws, revoked)))
     \<and> append_tokens g now items = Inr None \<and> append_refs g items = Inr ()"

lemma append_batch_OkE:
  assumes "append_batch cr roots p ps now items st g u = (u', Inr (g', oc))"
  obtains (duplicate) "g' = g" "oc_notice oc = None"
  | (commit) prev ws revoked u1 where "check_chain cr 0 (ap_expect_prev ps) (zip items (ap_items ps)) = Inr prev"
      "check_items cr st (ap_expect_seq ps) 0 items roots u = (u1, Inr (ws, revoked))"
      "append_tokens g now items = Inr None" "append_refs g items = Inr ()"
      "append_commit p ps now items st ws revoked prev g = (g', oc)"
proof -
  obtain prev where 1: "check_chain cr 0 (ap_expect_prev ps) (zip items (ap_items ps)) = Inr prev"
    using assms by (auto simp: append_batch_def split: sum.splits)
  obtain u1 ws revoked where 2: "check_items cr st (ap_expect_seq ps) 0 items roots u = (u1, Inr (ws, revoked))"
    using assms by (auto simp: append_batch_def 1 split: sum.splits prod.splits)
  obtain dup where 3: "append_tokens g now items = Inr dup"
    using assms by (auto simp: append_batch_def 1 2 res_simps)
  show thesis
  proof (cases dup)
    case (Some oc')
    then show thesis using assms duplicate append_tokens_early 3 by (simp add: append_batch_def 1 2)
  next
    case None
    then show thesis
      using assms commit [OF 1 2] 3 by (auto simp: append_batch_def 1 2 res_simps)
  qed
qed

lemma append_OkE:
  assumes "append_with_budget cr roots p ps now u s = (u', s', Inr oc)"
  obtains (unchanged) b where "s' = s\<lparr>sv_buckets := b\<rparr>" "oc_notice oc = None"
  | (landed) items st ws revoked prev b g' where
      "lands cr roots p ps now (sv_cols s (ap_collection ps)) items st ws revoked prev"
      "append_commit p ps now items st ws revoked prev (sv_cols s (ap_collection ps)) = (g', oc)"
      "s' = set_col (ap_collection ps) g' (s\<lparr>sv_buckets := b\<rparr>)"
proof -
  let ?c = "ap_collection ps" and ?g = "sv_cols s (ap_collection ps)"
  obtain u1 items where 1: "append_counts ps = Inr ()" "parse_items p ?c (ap_expect_seq ps) 0 (ap_items ps) u = (u1, Inr items)"
    using assms by (auto simp: append_with_budget_def Let_def split: sum.splits prod.splits)
  obtain r where 2: "append_gate cr p ps items ?g = Inr r"
    using assms by (auto simp: append_with_budget_def Let_def 1 split: sum.splits)
  show thesis
  proof (cases r)
    case (Inl oc')
    then have "s' = s\<lparr>sv_buckets := sv_buckets s\<rparr>" "oc = oc'"
      using assms 2 by (simp_all add: append_with_budget_def Let_def 1)
    then show thesis using unchanged append_gate_early 2 Inl by blast
  next
    case (Inr st)
    obtain b where 3: "append_rates p ?c (cm_quotas (st_meta st)) (of_nat (length (ap_items ps))) (batch_bytes (ap_items ps))
            (repair_items p items) now (sv_buckets s) = (b, Inr ())"
      using assms 2 Inr by (auto simp: append_with_budget_def Let_def 1 split: sum.splits prod.splits)
    obtain u2 g' where 4: "append_batch cr roots p ps now items st ?g u1 = (u2, Inr (g', oc))"
        "s' = set_col ?c g' (s\<lparr>sv_buckets := b\<rparr>)"
      using assms 2 Inr by (auto simp: append_with_budget_def Let_def 1 3 split: sum.splits prod.splits)
    from 4(1) show thesis
    proof (cases rule: append_batch_OkE)
      case duplicate
      then have "s' = s\<lparr>sv_buckets := b\<rparr>" using 4(2) by (simp add: set_col_def)
      then show thesis using unchanged duplicate(2) by blast
    next
      case (commit prev ws revoked u3)
      have "lands cr roots p ps now ?g items st ws revoked prev"
        unfolding lands_def using 1 2 Inr commit parse_items_Ok [OF 1(2)] by auto
      then show thesis using landed commit(5) 4(2) by blast
    qed
  qed
qed

lemma append_FailE:
  assumes "append_with_budget cr roots p ps now u s = (u', s', Inl f)"
  obtains b where "s' = s\<lparr>sv_buckets := b\<rparr>"
proof -
  have "s' = s\<lparr>sv_buckets := sv_buckets s'\<rparr>"
    using assms by (auto simp: append_with_budget_def Let_def split: sum.splits prod.splits)
  then show thesis using that by blast
qed

subsection \<open>What the gate keeps\<close>

text \<open>A preorder on states that policy items and rekeys respect holds across a whole batch.\<close>

locale item_relation =
  fixes Q :: "CollectionSt \<Rightarrow> CollectionSt \<Rightarrow> bool"
  assumes reflexive: "Q st st"
    and transitive: "Q a b \<Longrightarrow> Q b c \<Longrightarrow> Q a c"
    and policy: "apply_policy_payload cr st it seq roots payload = Inr (st', rv) \<Longrightarrow> Q st st'"
    and rekey: "Q st (set_meta (\<lambda>m. m\<lparr>cm_epoch := e, cm_rekey_required := False\<rparr>) st)"
begin

lemma check_item_Q:
  assumes "check_item cr ws it seq i roots u = (u', Inr (ws', rv))"
  shows "Q ws ws'"
proof (cases "it_kind it = Policy")
  case True
  then show ?thesis
    using assms policy by (auto simp: check_item_def apply_policy_with_budget_def res_simps apsnd_def map_prod_def split: prod.splits)
next
  case False
  show ?thesis
  proof (cases "it_kind it = Rekey")
    case True
    then show ?thesis
      using assms rekey by (auto simp: check_item_def apply_rekey_with_budget_def apply_rekey_payload_def res_simps apsnd_def
          map_prod_def split: prod.splits sum.splits if_splits)
  next
    case not_rekey: False
    have "ws' = ws"
      using assms False not_rekey by (cases "it_kind it") (auto simp: check_item_def res_simps apsnd_def map_prod_def split: prod.splits sum.splits)
    then show ?thesis using reflexive by simp
  qed
qed

lemma check_items_Q: "check_items cr ws es i its roots u = (u', Inr (ws', rv)) \<Longrightarrow> Q ws ws'"
proof (induction its arbitrary: ws i u rv)
  case (Cons it its)
  then obtain u1 ws1 rv1 rv2 where 1: "check_item cr ws it (es + of_nat i) i roots u = (u1, Inr (ws1, rv1))"
      "check_items cr ws1 es (i + 1) its roots u1 = (u', Inr (ws', rv2))"
    by (auto split: prod.splits sum.splits)
  then show ?case using transitive [OF check_item_Q [OF 1(1)] Cons.IH [OF 1(2)]] by simp
qed (simp add: reflexive)

lemma lands_Q: "lands cr roots p ps now g items st ws revoked prev \<Longrightarrow> Q st ws"
  using check_items_Q by (auto simp: lands_def)

end

definition position_rel :: "CollectionSt \<Rightarrow> CollectionSt \<Rightarrow> bool" where
  "position_rel a b \<longleftrightarrow> (let m = st_meta a; n = st_meta b in
     cm_id n = cm_id m \<and> cm_head n = cm_head m \<and> cm_head_chain n = cm_head_chain m
     \<and> cm_status n = cm_status m \<and> cm_retained_from n = cm_retained_from m \<and> cm_quotas n = cm_quotas m
     \<and> cm_used_bytes n = cm_used_bytes m \<and> cm_file_bytes n = cm_file_bytes m \<and> cm_created_at n = cm_created_at m
     \<and> cm_retention_tier n = cm_retention_tier m \<and> cm_deletion n = cm_deletion m \<and> cm_region n = cm_region m)"

interpretation position: item_relation position_rel
proof
  fix cr st it seq roots payload st' rv
  assume "apply_policy_payload cr st it seq roots payload = Inr (st', rv)"
  then show "position_rel st st'"
    using frame.apply_policy_R [of cr st it seq roots payload st' rv] by (simp add: frame_rel_def position_rel_def Let_def)
qed (simp_all add: position_rel_def set_meta_def Let_def)

definition devices_rel :: "CollectionSt \<Rightarrow> CollectionSt \<Rightarrow> bool" where
  "devices_rel a b \<longleftrightarrow> acl_rel (a, []) (b, [])"

interpretation devices: item_relation devices_rel
proof
  fix cr st it seq roots payload st' rv
  assume "apply_policy_payload cr st it seq roots payload = Inr (st', rv)"
  then show "devices_rel st st'"
    using acl.apply_policy_R [of cr st it seq roots payload st' rv] by (simp add: devices_rel_def acl_rel_def)
next
  fix a b c assume "devices_rel a b" "devices_rel b c"
  then show "devices_rel a c" unfolding devices_rel_def by (rule acl_rel_trans)
qed (auto simp: devices_rel_def acl_rel_def set_meta_def state_ok_def)

definition owners_rel :: "CollectionSt \<Rightarrow> CollectionSt \<Rightarrow> bool" where
  "owners_rel a b \<longleftrightarrow> owner_rel (a, []) (b, [])"

interpretation owners: item_relation owners_rel
proof
  fix cr st it seq roots payload st' rv
  assume "apply_policy_payload cr st it seq roots payload = Inr (st', rv)"
  then show "owners_rel st st'"
    using owner.apply_policy_R [of cr st it seq roots payload st' rv] by (simp add: owners_rel_def owner_rel_def)
qed (auto simp: owners_rel_def owner_rel_def set_meta_def has_owner_def)

lemma devices_relD:
  assumes "devices_rel a b" "state_ok a"
  shows "state_ok b" "map_of (st_acl a) d = Some e \<Longrightarrow> \<exists>e'. map_of (st_acl b) d = Some e' \<and> (e' = e \<or> e' = e\<lparr>ac_active := False\<rparr>)"
  using assms by (auto simp: devices_rel_def acl_rel_def)

subsection \<open>The committed state\<close>

lemma fold_upsert_lookup:
  "bm_ok m \<Longrightarrow> map_of (fold (\<lambda>e. bm_insert (ac_device e) e) es m) = map_of m ++ map_of (rev (map (\<lambda>e. (ac_device e, e)) es))"
proof (induction es arbitrary: m)
  case (Cons e es)
  then show ?case by (simp) (auto simp: map_add_def fun_eq_iff split: option.splits)
qed simp

lemma fold_upsert_ok: "bm_ok m \<Longrightarrow> bm_ok (fold (\<lambda>e. bm_insert (ac_device e) e) es m)"
  by (induction es arbitrary: m) auto

text \<open>Writing the changed devices back yields the working copy's device list.\<close>

lemma changed_acl_writes:
  assumes "devices_rel st ws" "state_ok st"
  shows "fold (\<lambda>e. bm_insert (ac_device e) e) (changed_acl st ws) (st_acl st) = st_acl ws" (is "?l = _")
proof (rule bm_ext)
  have ok: "bm_ok (st_acl st)" "bm_ok (st_acl ws)" "acl_ok (st_acl ws)"
    using devices_relD(1) [OF assms] assms(2) by (auto simp: state_ok_def acl_ok_def)
  show "bm_ok ?l" "bm_ok (st_acl ws)" using ok fold_upsert_ok by auto
  let ?ch = "filter (\<lambda>(d, e). map_of (st_acl st) d \<noteq> Some e) (st_acl ws)"
  have ch: "map (\<lambda>e. (ac_device e, e)) (changed_acl st ws) = ?ch"
    unfolding changed_acl_def map_map by (rule map_idI) (use acl_ok_device [OF ok(3)] in auto)
  have d: "distinct (map fst ?ch)" using bm_ok_distinct [OF bm_filter_ok [OF ok(2)]] .
  have "map_of ?l = map_of (st_acl st) ++ map_of (rev ?ch)"
    using fold_upsert_lookup [OF ok(1), of "changed_acl st ws"] by (simp add: ch)
  also have "map_of (rev ?ch) = map_of ?ch"
    by (rule map_of_inject_set [THEN iffD2]) (use d in \<open>simp_all add: rev_map [symmetric]\<close>)
  also have "map_of (st_acl st) ++ map_of ?ch = map_of (st_acl ws)"
  proof
    fix d
    show "(map_of (st_acl st) ++ map_of ?ch) d = map_of (st_acl ws) d"
      using devices_relD(2) [OF assms, of d] bm_filter_lookup [OF ok(2), of "\<lambda>(d, e). map_of (st_acl st) d \<noteq> Some e" d]
      by (cases "map_of (st_acl ws) d"; cases "map_of (st_acl st) d") (auto simp: map_add_def split: option.splits if_splits)
  qed
  finally show "map_of ?l = map_of (st_acl ws)" .
qed

lemma append_gate_Ok:
  assumes "append_gate cr p ps items g = Inr (Inr st)"
  shows "mb_state g = Some st" "authorize st p \<noteq> Inl e" "cm_status (st_meta st) = Live"
    "append_replay cr ps (cm_head (st_meta st)) g = Inr None"
    "\<not> (is_content items \<and> qu_storage_bytes (cm_quotas (st_meta st)) < cm_used_bytes (st_meta st) + batch_bytes (ap_items ps))"
    "ap_expect_seq ps = cm_head (st_meta st) + 1" "ap_expect_prev ps = cm_head_chain (st_meta st)"
proof -
  have "live x = Inr () \<Longrightarrow> x = Live" for x by (cases x) auto
  then show "mb_state g = Some st" "authorize st p \<noteq> Inl e" "cm_status (st_meta st) = Live"
    "append_replay cr ps (cm_head (st_meta st)) g = Inr None"
    "\<not> (is_content items \<and> qu_storage_bytes (cm_quotas (st_meta st)) < cm_used_bytes (st_meta st) + batch_bytes (ap_items ps))"
    "ap_expect_seq ps = cm_head (st_meta st) + 1" "ap_expect_prev ps = cm_head_chain (st_meta st)"
    using assms unfolding append_gate_def svc_load_def
    by (auto simp: rbind_Ok_iff map_err_Ok_iff ok_or_Ok_iff split: option.splits if_splits)
qed

lemma append_counts_Ok:
  assumes "append_counts ps = Inr x"
  shows "0 < length (ap_items ps)" "length (ap_items ps) \<le> MAX_BATCH_ITEMS" "ap_expect_seq ps \<noteq> 0"
    "unat (ap_expect_seq ps) + length (ap_items ps) < 2 ^ 64" "batch_bytes (ap_items ps) \<le> MAX_BATCH_BYTES"
  using assms by (auto simp: append_counts_def Let_def split: if_splits)

lemma stored_items_lookup:
  "unat seq + length xs < 2 ^ 64 \<Longrightarrow>
    map_of (rev (map (\<lambda>i. (si_seq i, i)) (stored_items seq now xs))) k
      = (if seq \<le> k \<and> unat k < unat seq + length xs
         then Some (stored_item k (fst (xs ! (unat k - unat seq))) (snd (xs ! (unat k - unat seq))) now) else None)"
proof (induction xs arbitrary: seq)
  case (Cons x xs)
  obtain it b where x: "x = (it, b)" by force
  have s: "unat (seq + 1) = unat seq + 1" using Cons.prems by (simp add: unat_word_ariths)
  then have IH: "map_of (rev (map (\<lambda>i. (si_seq i, i)) (stored_items (seq + 1) now xs))) k
      = (if unat seq < unat k \<and> unat k < unat seq + length (x # xs)
         then Some (stored_item k (fst (xs ! (unat k - (unat seq + 1)))) (snd (xs ! (unat k - (unat seq + 1)))) now) else None)"
    using Cons.IH [of "seq + 1"] Cons.prems by (simp add: word_le_nat_alt Suc_le_eq)
  show ?case
  proof (cases "k = seq")
    case True
    then show ?thesis using IH by (simp add: x map_add_def stored_item_def)
  next
    case False
    then have "seq \<le> k \<longleftrightarrow> unat seq < unat k" by (auto simp: word_le_nat_alt word_unat_eq_iff)
    then show ?thesis using IH False by (auto simp: x map_add_def stored_item_def nth_Cons' split: option.splits)
  qed
qed (auto simp: word_le_nat_alt)

lemma stored_items_length [simp]: "length (stored_items seq now xs) = length xs"
  by (induction seq now xs rule: stored_items.induct) auto

definition landed_meta :: "AppendParams \<Rightarrow> CollectionSt \<Rightarrow> b32 \<Rightarrow> CollectionMeta" where
  "landed_meta ps ws prev = (st_meta ws)\<lparr>cm_head := ap_expect_seq ps + of_nat (length (ap_items ps)) - 1, cm_head_chain := prev,
     cm_used_bytes := cm_used_bytes (st_meta ws) + batch_bytes (ap_items ps)\<rparr>"

text \<open>The collection and the outcome after a commit.\<close>

lemma append_commit_effect:
  assumes "append_commit p ps now items st ws revoked prev g = (g', oc)"
    and "lands cr roots p ps now g items st ws revoked prev" "mem_ok g" "state_ok st"
  shows "mem_ok g'" "mb_state g' = Some (ws\<lparr>st_meta := landed_meta ps ws prev\<rparr>)"
    "map_of (mb_items g') k = (if ap_expect_seq ps \<le> k \<and> unat k < unat (ap_expect_seq ps) + length (ap_items ps)
       then Some (stored_item k (items ! (unat k - unat (ap_expect_seq ps))) (ap_items ps ! (unat k - unat (ap_expect_seq ps))) now)
       else map_of (mb_items g) k)"
    "mb_objects g' = mb_objects g" "mb_snapshots g' = mb_snapshots g"
    "oc_result oc = append_result_to_cbor (ArAppended \<lparr>ad_first = ap_expect_seq ps, ad_last = cm_head (landed_meta ps ws prev),
       ad_head_chain = prev, ad_appended_at = now\<rparr>)"
    "oc_notice oc = Some \<lparr>cn_collection = ap_collection ps, cn_first = ap_expect_seq ps, cn_head = cm_head (landed_meta ps ws prev),
       cn_head_chain = prev, cn_revoked = revoked, cn_gone = False\<rparr>"
proof -
  let ?rows = "stored_items (ap_expect_seq ps) now (zip items (ap_items ps))"
  define m where "m = landed_meta ps ws prev"
  obtain nt where g': "g' = fold mem_write (map InsertItem ?rows @ map UpsertAcl (changed_acl st ws) @ [PutMeta m, Notify nt]) g"
    using assms(1) by (auto simp: append_commit_def mem_commit_def Let_def m_def landed_meta_def)
  define g1 where "g1 = fold mem_write (map InsertItem ?rows) g"
  define g2 where "g2 = fold mem_write (map UpsertAcl (changed_acl st ws)) g1"
  have ok: "mem_ok g1" "mem_ok g2" "mem_ok (mem_write (PutMeta m) g2)"
    unfolding g1_def g2_def using assms(3) mem.commit_invar mem.write_invar by blast+
  have g'2: "g' = mem_write (Notify nt) (mem_write (PutMeta m) g2)" unfolding g' g1_def g2_def by simp
  then show "mem_ok g'" using ok mem.write_invar by blast
  have rel: "devices_rel st ws" using devices.lands_Q assms(2) by blast
  have "mb_state g = Some st" using assms(2) append_gate_Ok by (auto simp: lands_def)
  then have "mb_state g1 = Some st" unfolding g1_def by (subst mem.commit_state_frame) (auto simp: list_all_iff)
  then have "mb_state g2 = Some (st\<lparr>st_acl := st_acl ws\<rparr>)"
    unfolding g2_def by (subst mem.commit_upsert_acl) (simp add: changed_acl_writes [OF rel assms(4)])
  then show "mb_state g' = Some (ws\<lparr>st_meta := landed_meta ps ws prev\<rparr>)"
    by (simp add: g'2 mem.write_state m_def)
  have len: "length items = length (ap_items ps)" using assms(2) parsed_from_length by (auto simp: lands_def)
  have bound: "unat (ap_expect_seq ps) + length (ap_items ps) < 2 ^ 64"
    using assms(2) append_counts_Ok by (auto simp: lands_def)
  have "map_of (mb_items g') = map_of (mb_items g1)"
    using mem.commit_item_frame [OF ok(1), of "map UpsertAcl (changed_acl st ws) @ [PutMeta m, Notify nt]"]
    by (simp add: g'2 g2_def list_all_iff)
  also have "\<dots> = map_of (mb_items g) ++ map_of (rev (map (\<lambda>i. (si_seq i, i)) ?rows))"
    unfolding g1_def by (rule mem.commit_insert_items [OF assms(3)])
  finally show "map_of (mb_items g') k = (if ap_expect_seq ps \<le> k \<and> unat k < unat (ap_expect_seq ps) + length (ap_items ps)
       then Some (stored_item k (items ! (unat k - unat (ap_expect_seq ps))) (ap_items ps ! (unat k - unat (ap_expect_seq ps))) now)
       else map_of (mb_items g) k)"
    using stored_items_lookup [of "ap_expect_seq ps" "zip items (ap_items ps)" now k] len bound
    by (auto simp: map_add_def word_le_nat_alt)
  have frame: "mb_objects (fold mem_write (map InsertItem xs) h1) = mb_objects h1 \<and> mb_snapshots (fold mem_write (map InsertItem xs) h1) = mb_snapshots h1
      \<and> mb_objects (fold mem_write (map UpsertAcl es) h1) = mb_objects h1 \<and> mb_snapshots (fold mem_write (map UpsertAcl es) h1) = mb_snapshots h1" for xs es h1
    by (induction xs arbitrary: h1; induction es arbitrary: h1) (simp_all add: mem_write_def)
  show "mb_objects g' = mb_objects g" "mb_snapshots g' = mb_snapshots g"
    using frame [of ?rows g] frame by (simp_all add: g'2 g2_def g1_def) (simp_all add: mem_write_def frame)
  show "oc_result oc = append_result_to_cbor (ArAppended \<lparr>ad_first = ap_expect_seq ps, ad_last = cm_head (landed_meta ps ws prev),
       ad_head_chain = prev, ad_appended_at = now\<rparr>)"
    "oc_notice oc = Some \<lparr>cn_collection = ap_collection ps, cn_first = ap_expect_seq ps, cn_head = cm_head (landed_meta ps ws prev),
       cn_head_chain = prev, cn_revoked = revoked, cn_gone = False\<rparr>"
    using assms(1) by (auto simp: append_commit_def Let_def landed_meta_def)
qed

subsection \<open>The chain of a batch\<close>

definition chained :: "crypto \<Rightarrow> b32 \<Rightarrow> Item list \<Rightarrow> bytes list \<Rightarrow> bool" where
  "chained cr prev items bs \<longleftrightarrow> (\<forall>j < length bs. it_prev (items ! j)
     = Some (if j = 0 then prev else chain_hash (cr_sha256 cr) (bs ! (j - 1))))"

lemma check_chain_Ok:
  "length items = length bs \<Longrightarrow> check_chain cr i prev (zip items bs) = Inr r \<Longrightarrow>
    chained cr prev items bs \<and> r = (if bs = [] then prev else chain_hash (cr_sha256 cr) (last bs))"
proof (induction bs arbitrary: items i prev)
  case (Cons b bs)
  then obtain it its where items: "items = it # its" by (cases items) auto
  then have p: "it_prev it = Some prev" and c: "check_chain cr (i + 1) (chain_hash (cr_sha256 cr) b) (zip its bs) = Inr r"
    using Cons.prems by (auto split: if_splits)
  have IH: "chained cr (chain_hash (cr_sha256 cr) b) its bs \<and> r = (if bs = [] then chain_hash (cr_sha256 cr) b else chain_hash (cr_sha256 cr) (last bs))"
    using Cons.IH [OF _ c] Cons.prems(1) items by simp
  then have "chained cr prev items (b # bs)"
    using p by (auto simp: chained_def items nth_Cons')
  then show ?case using IH by simp
qed (simp add: chained_def)

lemma lands_chain:
  assumes "lands cr roots p ps now g items st ws revoked prev"
  shows "chained cr (ap_expect_prev ps) items (ap_items ps)" "prev = chain_hash (cr_sha256 cr) (last (ap_items ps))"
    "length items = length (ap_items ps)" "ap_items ps \<noteq> []"
proof -
  show l: "length items = length (ap_items ps)" using assms parsed_from_length by (auto simp: lands_def)
  show ne: "ap_items ps \<noteq> []" using assms append_counts_Ok(1) by (auto simp: lands_def)
  show "chained cr (ap_expect_prev ps) items (ap_items ps)" "prev = chain_hash (cr_sha256 cr) (last (ap_items ps))"
    using check_chain_Ok [OF l] assms ne by (auto simp: lands_def)
qed

lemma lands_head:
  assumes "lands cr roots p ps now g items st ws revoked prev"
  shows "ap_expect_seq ps = cm_head (st_meta st) + 1" "unat (ap_expect_seq ps) = unat (cm_head (st_meta st)) + 1"
    "unat (cm_head (landed_meta ps ws prev)) = unat (cm_head (st_meta st)) + length (ap_items ps)"
    "unat (cm_head (st_meta st)) + 1 + length (ap_items ps) < 2 ^ 64"
proof -
  let ?h = "cm_head (st_meta st)" and ?n = "length (ap_items ps)"
  show es: "ap_expect_seq ps = ?h + 1" using assms append_gate_Ok(6) by (auto simp: lands_def)
  have c: "append_counts ps = Inr ()" using assms by (simp add: lands_def)
  have "?h + 1 \<noteq> 0" using append_counts_Ok(3) [OF c] es by simp
  then show u: "unat (ap_expect_seq ps) = unat ?h + 1" unfolding es using unatSuc [of ?h] by (simp add: add.commute)
  show b: "unat ?h + 1 + ?n < 2 ^ 64" using append_counts_Ok(4) [OF c] u by simp
  have "cm_head (landed_meta ps ws prev) = ?h + of_nat ?n" by (simp add: landed_meta_def es)
  then show "unat (cm_head (landed_meta ps ws prev)) = unat ?h + ?n"
    using b by (simp add: unat_word_ariths unat_of_nat take_bit_eq_mod)
qed

subsection \<open>Properties of an append\<close>

text \<open>An append is atomic: an error, a lost race, a replay and a duplicate leave every
  collection exactly as it was, a landed batch touches only its own collection, and nothing else of
  the service changes but the rate-limit buckets.\<close>

theorem append_atomic:
  "let (u', s', r) = append_with_budget cr roots p ps now u s in
    s' = s\<lparr>sv_cols := (sv_cols s)(ap_collection ps := sv_cols s' (ap_collection ps)), sv_buckets := sv_buckets s'\<rparr>
    \<and> (sv_cols s' = sv_cols s \<or> (\<exists>oc nt. r = Inr oc \<and> oc_notice oc = Some nt))"
proof -
  obtain u' s' r where run: "append_with_budget cr roots p ps now u s = (u', s', r)" by (cases "append_with_budget cr roots p ps now u s") auto
  have "s' = s\<lparr>sv_cols := (sv_cols s)(ap_collection ps := sv_cols s' (ap_collection ps)), sv_buckets := sv_buckets s'\<rparr>
    \<and> (sv_cols s' = sv_cols s \<or> (\<exists>oc nt. r = Inr oc \<and> oc_notice oc = Some nt))"
  proof (cases r)
    case (Inl f)
    then obtain b where "s' = s\<lparr>sv_buckets := b\<rparr>" using append_FailE run by blast
    then show ?thesis by simp
  next
    case (Inr oc)
    from run [unfolded Inr] show ?thesis
    proof (cases rule: append_OkE)
      case (unchanged b)
      then show ?thesis by simp
    next
      case (landed items st ws revoked prev b g')
      then have "\<exists>nt. oc_notice oc = Some nt" by (auto simp: append_commit_def Let_def)
      then show ?thesis using Inr landed(3) by (simp add: set_col_def)
    qed
  qed
  then show ?thesis by (simp add: run)
qed

subsection \<open>A batch that lands\<close>

definition sample_entry :: Item where
  "sample_entry = \<lparr>it_kind = Entry, it_collection = 1, it_seq = Some 1, it_prev = Some 0,
     it_epoch = Some 0, it_signer = Some 9, it_salt = Some 2, it_idem = Some 3, it_refs = None,
     it_stream = None, it_body = [1], it_sig = Some 6\<rparr>"

definition sample_bytes :: bytes where
  "sample_bytes = projr (item_to_bytes sample_entry)"

definition sample_service :: Service where
  "sample_service = set_col 1 (mem_empty\<lparr>mb_state := Some sample_state\<rparr>) service_new"

definition sample_params :: AppendParams where
  "sample_params = \<lparr>ap_collection = 1, ap_expect_seq = 1, ap_expect_prev = 0, ap_items = [sample_bytes]\<rparr>"

definition sample_device :: Principal where
  "sample_device = Device 9 5 None"

lemma sample_entry_rep: "item_rep sample_entry"
  by (simp add: item_rep_def sample_entry_def)

lemma sample_bytes_eq: "item_to_bytes sample_entry = Inr sample_bytes" "length sample_bytes = 186"
  unfolding sample_bytes_def by code_simp code_simp

lemma sample_parsed: "\<exists>u. parse_items sample_device 1 1 0 [sample_bytes] budget_default = (u, Inr [sample_entry])"
proof -
  have "decode sample_bytes = Inr (item_to_cbor sample_entry)"
    using cbor.round_trip [OF _ wire_item.to_rep [OF sample_entry_rep]] sample_bytes_eq(1)
    by (simp add: item_to_bytes_def to_bytes_def)
  moreover have "cbor_nodes (item_to_cbor sample_entry) \<le> 100" by code_simp
  ultimately obtain u where "budget_wire item_from_cbor sample_bytes budget_default = (u, Inr sample_entry)"
    using budget_wire_complete [of sample_bytes "item_to_cbor sample_entry" item_from_cbor sample_entry budget_default]
      item_from_to [OF sample_entry_rep] sample_bytes_eq(2)
    by (auto simp: MAX_BYTES_def MAX_WORK_BYTES_def MAX_NODES_def budget_default_def)
  moreover have "check_shape sample_entry = Inr ()" by (simp add: check_shape_def sample_entry_def)
  ultimately show ?thesis
    by (simp add: parse_item_def sample_bytes_eq(2) MAX_ITEM_BYTES_def MIB_def sample_device_def)
      (simp add: sample_entry_def is_log_item_def)
qed

lemma sample_gate: "append_gate accept_all sample_device sample_params [sample_entry] (sv_cols sample_service 1) = Inr (Inr sample_state)"
  by (simp add: append_gate_def svc_load_def sample_service_def set_col_def mem_empty_def authorize_def sample_device_def
      append_replay_def sample_params_def batch_bytes_def sample_bytes_eq(2))
    (simp add: sample_state_def sample_acl_def meta_new_def quotas_default_def DEFAULT_STORAGE_BYTES_def MIB_def CHAIN_ZERO_def)

lemma sample_rates:
  "\<exists>b. append_rates sample_device 1 quotas_default 1 186 (repair_items sample_device [sample_entry]) 1000 [] = (b, Inr ())"
proof -
  have q: "quotas_default = \<lparr>qu_storage_bytes = 1073741824, qu_items_per_s = 50, qu_bytes_per_s = 4194304, qu_burst_items = 500\<rparr>"
    by (simp add: quotas_default_def DEFAULT_ITEMS_PER_S_def DEFAULT_BYTES_PER_S_def DEFAULT_BURST_ITEMS_def DEFAULT_STORAGE_BYTES_def MIB_def)
  have s: "sat_mul 500 1000 = 500000" "sat_mul 4194304 4 = 16777216" "sat_mul 0 50 = 0" "sat_mul 0 4194304 = 0"
     "sat_add 500000 0 = 500000" "sat_add 16777216 0 = 16777216" by (simp_all add: sat_mul_def sat_add_def)
  have r: "repair_items sample_device [sample_entry] = 0" by (simp add: repair_items_def sample_device_def sample_entry_def)
  have f: "refill quotas_default 1000 \<lparr>bk_items_milli = 500000, bk_bytes = 16777216, bk_at = 1000\<rparr>
      = \<lparr>bk_items_milli = 500000, bk_bytes = 16777216, bk_at = 1000\<rparr>"
    by (simp add: refill_def q s clamp_dt_def word_sless_alt)
  have "rate_check 1 quotas_default 1 186 1000 [] = ([(1, \<lparr>bk_items_milli = 499000, bk_bytes = 16777030, bk_at = 1000\<rparr>)], Inr ())"
    unfolding rate_check_def Let_def by (simp add: q s f [unfolded q])
  then show ?thesis by (simp add: append_rates_def sample_device_def r [unfolded sample_device_def])
qed


lemma sample_batch:
  "\<exists>g' oc nt. snd (append_batch accept_all [] sample_device sample_params 1000 [sample_entry] sample_state (sv_cols sample_service 1) u)
     = Inr (g', oc) \<and> oc_notice oc = Some nt \<and> map_option st_acl (mb_state g') = Some (st_acl sample_state)"
proof -
  let ?g = "sv_cols sample_service 1"
  obtain bs where dg: "item_signed_digest (cr_sha256 accept_all) sample_entry = Inr (h (cr_sha256 accept_all) ''mdbase/v1/item-sig'' bs)"
    using item_digest_total [OF sample_entry_rep] by blast
  have acl: "map_of (st_acl sample_state) 9 = Some sample_acl" "ac_active sample_acl" "ac_kind sample_acl \<noteq> ESCROW" "ac_account sample_acl = 7"
    by (simp_all add: sample_state_def sample_acl_def ESCROW_def)
  have "check_signer accept_all sample_state sample_entry 0 = Inr sample_acl"
    unfolding check_signer_def using dg acl by (simp add: sample_entry_def accept_all_def)
  moreover have "check_content sample_state sample_entry 0 sample_acl = Inr ()"
    by (simp add: check_content_def acl) (simp add: sample_state_def meta_new_def sample_entry_def word_le_nat_alt)
  moreover have "it_kind sample_entry = Entry" by (simp add: sample_entry_def)
  ultimately have ci: "check_item accept_all sample_state sample_entry seq 0 [] u = (u, Inr (sample_state, []))" for seq u
    by (simp add: check_item_def)
  have "append_tokens ?g 1000 [sample_entry] = Inr None"
    by (simp add: append_tokens_def sample_entry_def sample_service_def set_col_def mem_empty_def mem_tokens_def)
  moreover have "append_refs ?g [sample_entry] = Inr ()"
    by (simp add: append_refs_def batch_refs_def sample_entry_def mem_objects_def)
  moreover have "check_chain accept_all 0 0 [(sample_entry, sample_bytes)] = Inr (chain_hash (cr_sha256 accept_all) sample_bytes)"
    by (simp add: sample_entry_def)
  moreover have "changed_acl sample_state sample_state = []" by (simp add: changed_acl_def sample_state_def)
  moreover have "mb_state ?g = Some sample_state" by (simp add: sample_service_def set_col_def)
  ultimately show ?thesis
    using ci by (simp add: append_batch_def sample_params_def)
      (simp add: append_commit_def Let_def mem_commit_def mem_write_def stored_item_def split: option.splits)
qed

lemma sample_append:
  "\<exists>u' s' oc nt. append_with_budget accept_all [] sample_device sample_params 1000 budget_default sample_service = (u', s', Inr oc)
     \<and> oc_notice oc = Some nt \<and> map_option st_acl (mb_state (sv_cols s' 1)) = Some (st_acl sample_state)"
proof -
  obtain u where 1: "parse_items sample_device 1 1 0 [sample_bytes] budget_default = (u, Inr [sample_entry])"
    using sample_parsed by blast
  obtain b where 2: "append_rates sample_device 1 quotas_default 1 186 (repair_items sample_device [sample_entry]) 1000 [] = (b, Inr ())"
    using sample_rates by blast
  obtain g' oc nt u' where 3: "append_batch accept_all [] sample_device sample_params 1000 [sample_entry] sample_state (sv_cols sample_service 1) u
     = (u', Inr (g', oc))" "oc_notice oc = Some nt" "map_option st_acl (mb_state g') = Some (st_acl sample_state)"
    using sample_batch [of u] by (metis prod.collapse)
  have f: "append_counts sample_params = Inr ()" "ap_collection sample_params = 1" "ap_expect_seq sample_params = 1"
      "ap_items sample_params = [sample_bytes]" "sv_buckets sample_service = []" "cm_quotas (st_meta sample_state) = quotas_default"
      "batch_bytes [sample_bytes] = 186"
    by (simp_all add: append_counts_def sample_params_def MAX_BATCH_ITEMS_def MAX_BATCH_BYTES_def MIB_def batch_bytes_def
        sample_bytes_eq(2) sample_service_def service_new_def set_col_def sample_state_def meta_new_def)
  show ?thesis using 1 2 3 sample_gate by (simp add: append_with_budget_def f set_col_def)
qed

subsection \<open>The effect of a landed batch\<close>

text \<open>Only policy items change devices and members.\<close>

lemma check_item_members:
  assumes "check_item cr ws it seq i roots u = (u', Inr (ws', rv))" "it_kind it \<noteq> Policy"
  shows "st_acl ws' = st_acl ws" "cm_members (st_meta ws') = cm_members (st_meta ws)" "rv = []"
  using assms
  by (auto simp: check_item_def apply_rekey_with_budget_def apply_rekey_payload_def rbind_Ok_iff map_err_Ok_iff set_meta_def
      apsnd_def map_prod_def split: sum.split_asm ItemKind.split_asm prod.split_asm if_split_asm)

lemma check_items_members:
  "check_items cr ws es i its roots u = (u', Inr (ws', rv)) \<Longrightarrow> \<forall>it \<in> set its. it_kind it \<noteq> Policy \<Longrightarrow>
    st_acl ws' = st_acl ws \<and> cm_members (st_meta ws') = cm_members (st_meta ws) \<and> rv = []"
proof (induction its arbitrary: ws i u rv u' ws')
  case (Cons it its)
  obtain u1 r1 where 1: "check_item cr ws it (es + of_nat i) i roots u = (u1, r1)" by force
  then obtain ws1 rv1 where r1: "r1 = Inr (ws1, rv1)" using Cons.prems(1) by (cases r1) auto
  obtain u2 r2 where 2: "check_items cr ws1 es (i + 1) its roots u1 = (u2, r2)" by force
  then obtain ws2 rv2 where r2: "r2 = Inr (ws2, rv2)" using Cons.prems(1) 1 r1 by (cases r2) auto
  show ?case
    using check_item_members [OF 1 [unfolded r1]] Cons.IH [OF 2 [unfolded r2]] Cons.prems 1 2 r1 r2 by auto
qed simp

text \<open>C2. When an append reports a commit, its batch is exactly the next positions of the log: the
  head advances by the number of items without wrapping, every new position holds the bytes sent
  for it and the time of the call, no other row changes, each item names the chain value before it
  and the stored head chain is the chain value of the last item; the receipt states just that.  The
  rest of the state (devices, members, epoch, policy) is what checking the items one after another
  makes of it, and without a policy item the devices and members are untouched; the objects, the
  snapshots and every other collection are as before; and the notice names the devices revoked.\<close>

theorem append_extends_log:
  assumes run: "append_with_budget cr roots p ps now u s = (u', s', Inr oc)" and nt: "oc_notice oc = Some nt"
    and ok: "mem_ok (sv_cols s (ap_collection ps))" "pred_option state_ok (mb_state (sv_cols s (ap_collection ps)))"
  shows "\<exists>st st' items. mb_state (sv_cols s (ap_collection ps)) = Some st \<and> mb_state (sv_cols s' (ap_collection ps)) = Some st'
    \<and> unat (cm_head (st_meta st')) = unat (cm_head (st_meta st)) + length (ap_items ps)
    \<and> cm_head_chain (st_meta st') = chain_hash (cr_sha256 cr) (last (ap_items ps))
    \<and> cm_used_bytes (st_meta st') = cm_used_bytes (st_meta st) + batch_bytes (ap_items ps)
    \<and> parsed_from p (ap_collection ps) (cm_head (st_meta st) + 1) (ap_items ps) items
    \<and> chained cr (cm_head_chain (st_meta st)) items (ap_items ps)
    \<and> (\<forall>k. map_of (mb_items (sv_cols s' (ap_collection ps))) k
         = (if cm_head (st_meta st) < k \<and> k \<le> cm_head (st_meta st')
            then Some (stored_item k (items ! (unat k - unat (cm_head (st_meta st)) - 1))
                         (ap_items ps ! (unat k - unat (cm_head (st_meta st)) - 1)) now)
            else map_of (mb_items (sv_cols s (ap_collection ps))) k))
    \<and> oc_result oc = append_result_to_cbor (ArAppended \<lparr>ad_first = cm_head (st_meta st) + 1, ad_last = cm_head (st_meta st'),
         ad_head_chain = cm_head_chain (st_meta st'), ad_appended_at = now\<rparr>)
    \<and> (\<exists>v v' ws. check_items cr st (cm_head (st_meta st) + 1) 0 items roots v = (v', Inr (ws, cn_revoked nt))
         \<and> st_acl st' = st_acl ws
         \<and> st_meta st' = (st_meta ws)\<lparr>cm_head := cm_head (st_meta st'), cm_head_chain := cm_head_chain (st_meta st'),
              cm_used_bytes := cm_used_bytes (st_meta st')\<rparr>)
    \<and> ((\<forall>it \<in> set items. it_kind it \<noteq> Policy) \<longrightarrow>
         st_acl st' = st_acl st \<and> cm_members (st_meta st') = cm_members (st_meta st) \<and> cn_revoked nt = [])
    \<and> mb_objects (sv_cols s' (ap_collection ps)) = mb_objects (sv_cols s (ap_collection ps))
    \<and> mb_snapshots (sv_cols s' (ap_collection ps)) = mb_snapshots (sv_cols s (ap_collection ps))
    \<and> sv_objects s' = sv_objects s \<and> (\<forall>c. c \<noteq> ap_collection ps \<longrightarrow> sv_cols s' c = sv_cols s c)"
  using run
proof (cases rule: append_OkE)
  case (unchanged b)
  then show ?thesis using nt by simp
next
  case (landed items st ws revoked prev b g')
  let ?g = "sv_cols s (ap_collection ps)"
  have st: "mb_state ?g = Some st" using landed(1) append_gate_Ok(1) by (auto simp: lands_def)
  then have sok: "state_ok st" using ok(2) by simp
  note eff = append_commit_effect [OF landed(2,1) ok(1) sok]
  note hd = lands_head [OF landed(1)] and ch = lands_chain [OF landed(1)]
  have pos: "position_rel st ws" using position.lands_Q [OF landed(1)] .
  let ?st' = "ws\<lparr>st_meta := landed_meta ps ws prev\<rparr>"
  have g': "sv_cols s' (ap_collection ps) = g'" using landed(3) by (simp add: set_col_def)
  have "ap_expect_prev ps = cm_head_chain (st_meta st)" using landed(1) append_gate_Ok(7) by (auto simp: lands_def)
  then have c: "chained cr (cm_head_chain (st_meta st)) items (ap_items ps)" using ch(1) by simp
  have q: "parsed_from p (ap_collection ps) (cm_head (st_meta st) + 1) (ap_items ps) items"
    using landed(1) hd(1) by (simp add: lands_def)
  have rows: "map_of (mb_items g') k = (if cm_head (st_meta st) < k \<and> k \<le> cm_head (st_meta ?st')
            then Some (stored_item k (items ! (unat k - unat (cm_head (st_meta st)) - 1))
                         (ap_items ps ! (unat k - unat (cm_head (st_meta st)) - 1)) now)
            else map_of (mb_items ?g) k)" for k
    using eff(3) [of k] hd(2,3) by (auto simp: word_less_nat_alt word_le_nat_alt)
  have rv: "cn_revoked nt = revoked" using nt eff(7) by auto
  obtain v v' where ci: "check_items cr st (cm_head (st_meta st) + 1) 0 items roots v = (v', Inr (ws, revoked))"
    using landed(1) hd(1) by (auto simp: lands_def)
  have "st_meta ?st' = (st_meta ws)\<lparr>cm_head := cm_head (st_meta ?st'), cm_head_chain := cm_head_chain (st_meta ?st'),
      cm_used_bytes := cm_used_bytes (st_meta ?st')\<rparr>" by (simp add: landed_meta_def)
  then have policy: "\<exists>v v' ws. check_items cr st (cm_head (st_meta st) + 1) 0 items roots v = (v', Inr (ws, cn_revoked nt))
      \<and> st_acl ?st' = st_acl ws
      \<and> st_meta ?st' = (st_meta ws)\<lparr>cm_head := cm_head (st_meta ?st'), cm_head_chain := cm_head_chain (st_meta ?st'),
           cm_used_bytes := cm_used_bytes (st_meta ?st')\<rparr>"
    using ci unfolding rv by (intro exI [of _ v] exI [of _ v'] exI [of _ ws]) simp
  have members: "(\<forall>it \<in> set items. it_kind it \<noteq> Policy) \<longrightarrow>
      st_acl ?st' = st_acl st \<and> cm_members (st_meta ?st') = cm_members (st_meta st) \<and> cn_revoked nt = []"
    using check_items_members [OF ci] by (simp add: rv landed_meta_def)
  have others: "sv_objects s' = sv_objects s \<and> (\<forall>c. c \<noteq> ap_collection ps \<longrightarrow> sv_cols s' c = sv_cols s c)"
    using landed(3) by (simp add: set_col_def)
  have log: "unat (cm_head (st_meta ?st')) = unat (cm_head (st_meta st)) + length (ap_items ps)
      \<and> cm_head_chain (st_meta ?st') = chain_hash (cr_sha256 cr) (last (ap_items ps))
      \<and> cm_used_bytes (st_meta ?st') = cm_used_bytes (st_meta st) + batch_bytes (ap_items ps)
      \<and> oc_result oc = append_result_to_cbor (ArAppended \<lparr>ad_first = cm_head (st_meta st) + 1, ad_last = cm_head (st_meta ?st'),
           ad_head_chain = cm_head_chain (st_meta ?st'), ad_appended_at = now\<rparr>)"
    using eff(6) hd ch pos by (simp add: landed_meta_def position_rel_def Let_def)
  show ?thesis
    by (rule exI [of _ st], rule exI [of _ ?st'], rule exI [of _ items], unfold g')
      (intro conjI; (rule st eff(2,4,5) c q policy members others [THEN conjunct1] others [THEN conjunct2]
          allI [OF rows] log [THEN conjunct1] log [THEN conjunct2, THEN conjunct1]
          log [THEN conjunct2, THEN conjunct2, THEN conjunct1] log [THEN conjunct2, THEN conjunct2, THEN conjunct2]))
qed

lemma sample_service_ok: "mem_ok (sv_cols sample_service 1)" "pred_option state_ok (mb_state (sv_cols sample_service 1))"
  using sample_state_ok(1) by (simp_all add: sample_service_def set_col_def mem_ok_def mem_empty_def)

theorem append_extends_log_witness:
  "\<exists>u' s' oc st st' items. append_with_budget accept_all [] sample_device sample_params 1000 budget_default sample_service = (u', s', Inr oc)
    \<and> mb_state (sv_cols sample_service 1) = Some st \<and> mb_state (sv_cols s' 1) = Some st'
    \<and> unat (cm_head (st_meta st')) = unat (cm_head (st_meta st)) + length [sample_bytes]
    \<and> chained accept_all (cm_head_chain (st_meta st)) items [sample_bytes]
    \<and> ((\<forall>it \<in> set items. it_kind it \<noteq> Policy) \<longrightarrow> st_acl st' = st_acl st)"
proof -
  obtain u' s' oc nt where run: "append_with_budget accept_all [] sample_device sample_params 1000 budget_default sample_service = (u', s', Inr oc)"
    "oc_notice oc = Some nt" using sample_append by blast
  have c: "ap_collection sample_params = 1" "ap_items sample_params = [sample_bytes]" by (simp_all add: sample_params_def)
  show ?thesis
    using append_extends_log [OF run] sample_service_ok run(1) unfolding c by blast
qed

end
