(* ===== verification/AppendSafety.thy ===== *)
theory AppendSafety
  imports AppendCorrect
begin

text \<open>
  What callers rely on when they retry and what replicas rely on when they read: replays get the
  original receipt, idempotency tokens are honoured, references are resolved, and every accepted
  item was signed by a device that was authorised at its position.
\<close>

subsection \<open>Replay\<close>

lemma u64_bound: "unat (w :: u64) < 2 ^ 64"
  using unsigned_less [of w] by simp

lemma unat_of_nat_u64: "n < 2 ^ 64 \<Longrightarrow> unat (of_nat n :: u64) = n"
  by (simp add: unat_of_nat take_bit_nat_eq_self)

lemma items_loop_unbounded:
  "length out \<le> unat limit \<Longrightarrow>
    items_loop limit (- 1) False xs out tot = out @ take (unat limit - length out) xs"
proof (induction xs arbitrary: out tot)
  case (Cons x xs)
  have bound: "unat (of_nat (length out) :: u64) = length out"
    using Cons.prems u64_bound [of limit] by (intro unat_of_nat_u64) simp
  have max: "\<not> (- 1 :: u64) < y" for y by (simp add: not_less)
  show ?case
  proof (cases "unat limit \<le> length out")
    case True
    then show ?thesis using bound by (simp add: word_le_nat_alt)
  next
    case False
    then have "unat limit - length out = Suc (unat limit - Suc (length out))" by simp
    then show ?thesis
      using False bound max Cons.IH [of "out @ [x]" "tot + of_nat (length (si_bytes x))"]
      by (simp add: word_le_nat_alt Let_def)
  qed
qed simp

lemma contiguous_prefix:
  "sorted_wrt (<) ks \<Longrightarrow> (\<And>k. k \<in> set ks \<Longrightarrow> e \<le> k) \<Longrightarrow> {e..<e + n} \<subseteq> set ks \<Longrightarrow> take n ks = [e..<e + n]"
  for e :: nat
proof (induction n arbitrary: e ks)
  case (Suc n)
  then have "e \<in> set ks" by auto
  then obtain k rs where ks: "ks = k # rs" by (cases ks) auto
  then have k: "k = e" using Suc.prems(1,2) \<open>e \<in> set ks\<close> by (metis le_antisym list.set_intros(1) order_less_imp_le set_ConsD sorted_wrt.simps(2))
  have "take n rs = [Suc e..<Suc e + n]"
  proof (rule Suc.IH)
    show "sorted_wrt (<) rs" using Suc.prems(1) ks by simp
    show "Suc e \<le> x" if "x \<in> set rs" for x using Suc.prems(1) ks k that by (auto simp: Suc_le_eq)
    show "{Suc e..<Suc e + n} \<subseteq> set rs"
    proof
      fix x assume "x \<in> {Suc e..<Suc e + n}"
      then have "x \<in> set ks" "x \<noteq> e" using Suc.prems(3) by auto
      then show "x \<in> set rs" using ks k by simp
    qed
  qed
  then show ?case using ks k by (simp add: upt_rec)
qed simp

lemma bm_ok_unat_sorted: "bm_ok m \<Longrightarrow> sorted_wrt (<) (map (\<lambda>x. unat (fst x)) m)" for m :: "(u64, 'v) bmap"
proof (induction m)
  case (Cons a m)
  then show ?case by (cases a) (fastforce simp: bm_ok_Cons word_less_nat_alt)
qed simp

text \<open>Consecutive stored positions are read back in order.\<close>

lemma take_rows:
  assumes "mem_ok g" "unat es + n < 2 ^ 64"
    and rows: "\<And>j. j < n \<Longrightarrow> map_of (mb_items g) (es + of_nat j) = Some (r j)"
  shows "take n (map snd (filter (\<lambda>(s, _). es \<le> s) (mb_items g))) = map r [0..<n]"
proof -
  let ?m = "filter (\<lambda>(s, _). es \<le> s) (mb_items g)"
  have ok: "bm_ok ?m" using assms(1) by (simp add: mem_ok_def)
  have key: "unat (es + of_nat j :: u64) = unat es + j" if "j < n" for j
    using assms(2) that by (simp add: unat_word_ariths unat_of_nat take_bit_eq_mod)
  have look: "map_of ?m (es + of_nat j) = Some (r j)" if "j < n" for j
    using rows [OF that] key [OF that] assms(1) by (simp add: mem_ok_def bm_filter_lookup word_le_nat_alt)
  have "take n (map (\<lambda>x. unat (fst x)) ?m) = [unat es..<unat es + n]"
  proof (rule contiguous_prefix [OF bm_ok_unat_sorted [OF ok]])
    show "unat es \<le> k" if "k \<in> set (map (\<lambda>x. unat (fst x)) ?m)" for k using that by (auto simp: word_le_nat_alt)
    show "{unat es..<unat es + n} \<subseteq> set (map (\<lambda>x. unat (fst x)) ?m)"
    proof
      fix k assume "k \<in> {unat es..<unat es + n}"
      then obtain j where j: "j < n" "k = unat es + j" by (metis atLeastLessThan_iff le_iff_add nat_add_left_cancel_less)
      have "unat (fst (es + of_nat j :: u64, r j)) \<in> (\<lambda>x. unat (fst x)) ` set ?m"
        by (rule imageI [OF map_of_SomeD [OF look [OF j(1)]]])
      then show "k \<in> set (map (\<lambda>x. unat (fst x)) ?m)" using j key [OF j(1)] by simp
    qed
  qed
  moreover define ms where "ms = take n ?m"
  ultimately have keys: "map (\<lambda>x. unat (fst x)) ms = [unat es..<unat es + n]" by (simp add: take_map)
  from arg_cong [OF this, of length] have len: "length ms = n" by simp
  have mem: "x \<in> set ?m" if "x \<in> set ms" for x using that unfolding ms_def by (rule in_set_takeD)
  have "snd (ms ! j) = r j" if "j < n" for j
  proof -
    have "unat (fst (ms ! j)) = unat es + j"
      using arg_cong [OF keys, of "\<lambda>l. l ! j"] that len by simp
    then have "fst (ms ! j) = es + of_nat j" using key [OF that] by (simp add: word_unat_eq_iff)
    moreover have "ms ! j \<in> set ?m" using that len by (intro mem nth_mem) simp
    ultimately have "map_of ?m (es + of_nat j) = Some (snd (ms ! j))"
      unfolding bm_lookup_mem [OF ok] by (metis prod.collapse)
    then show ?thesis using look [OF that] by simp
  qed
  then have "map snd ms = map r [0..<n]" using len by (intro nth_equalityI) simp_all
  then show ?thesis by (simp add: ms_def take_map)
qed

lemma mem_items_range:
  assumes "mem_ok g" "es \<noteq> 0" "unat es + n < 2 ^ 64"
    and "\<And>j. j < n \<Longrightarrow> map_of (mb_items g) (es + of_nat j) = Some (r j)"
  shows "mem_items g (es - 1) (of_nat n) (- 1) False = map r [0..<n]"
proof -
  have "unat (of_nat n :: u64) = n" using assms(3) by (intro unat_of_nat_u64) simp
  then show ?thesis using take_rows [OF assms(1,3,4)] by (simp add: mem_items_def items_loop_unbounded)
qed

lemma append_replay_hit:
  assumes "mem_ok g" "append_counts ps = Inr ()"
    and rows: "\<And>j. j < length (ap_items ps) \<Longrightarrow> map_of (mb_items g) (ap_expect_seq ps + of_nat j) = Some (r j)
      \<and> si_bytes (r j) = ap_items ps ! j"
    and "unat (ap_expect_seq ps) + length (ap_items ps) \<le> unat pos + 1"
  shows "append_replay cr ps pos g = Inr (Some (plain (append_result_to_cbor (ArAppended \<lparr>ad_first = ap_expect_seq ps,
      ad_last = ap_expect_seq ps + of_nat (length (ap_items ps)) - 1, ad_head_chain = chain_hash (cr_sha256 cr) (last (ap_items ps)),
      ad_appended_at = si_appended_at (r (length (ap_items ps) - 1))\<rparr>))))"
proof -
  let ?n = "length (ap_items ps)" and ?es = "ap_expect_seq ps"
  note c = append_counts_Ok [OF assms(2)]
  have st: "mem_items g (?es - 1) (of_nat ?n) (- 1) False = map r [0..<?n]"
    using mem_items_range [OF assms(1) c(3,4)] rows by blast
  have seq: "si_seq (r j) = ?es + of_nat j" if "j < ?n" for j
    using rows [OF that] assms(1) by (auto simp: mem_ok_def)
  have ge: "?es \<le> si_seq (r j)" if "j < ?n" for j
    using seq [OF that] c(4) that by (simp add: word_le_nat_alt unat_word_ariths unat_of_nat take_bit_eq_mod)
  have l: "last (map r [0..<?n]) = r (?n - 1)" "map r [0..<?n] \<noteq> []" using c(1) by (simp_all add: last_map)
  have lb: "si_bytes (r (?n - 1)) = last (ap_items ps)" using rows [of "?n - 1"] c(1) by (simp add: last_conv_nth)
  have ls: "si_seq (r (?n - 1)) = ?es + of_nat ?n - 1" using seq [of "?n - 1"] c(1) by (simp add: of_nat_diff)
  have "list_all (\<lambda>(s, b). ?es \<le> si_seq s \<and> si_bytes s = b) (zip (map r [0..<?n]) (ap_items ps))"
    using rows ge by (auto simp: list_all_length)
  moreover have "?es \<le> pos" using assms(4) c(1) unfolding word_le_nat_alt by linarith
  ultimately show ?thesis
    using l lb ls unfolding append_replay_def Let_def st by simp
qed

text \<open>C8. A retry is harmless: once a batch landed, sending it again, by any authorised caller, at any
  time and whatever was appended since, returns the very receipt of the first call and changes
  nothing, as long as its positions are still stored.\<close>

theorem append_replay_receipt:
  assumes run: "append_with_budget cr roots p ps now u s = (u', s', Inr oc)" and nt: "oc_notice oc = Some nt"
    and ok: "mem_ok (sv_cols s (ap_collection ps))" "pred_option state_ok (mb_state (sv_cols s (ap_collection ps)))"
    and later: "mem_ok (sv_cols t (ap_collection ps))" "mb_state (sv_cols t (ap_collection ps)) = Some st"
      "cm_status (st_meta st) = Live" "cn_head nt \<le> cm_head (st_meta st)"
      "\<And>k. cn_first nt \<le> k \<Longrightarrow> k \<le> cn_head nt \<Longrightarrow>
        map_of (mb_items (sv_cols t (ap_collection ps))) k = map_of (mb_items (sv_cols s' (ap_collection ps))) k"
    and retry: "authorize st q = Inr e" "parse_items q (ap_collection ps) (ap_expect_seq ps) 0 (ap_items ps) v = (v', Inr items)"
  shows "append_with_budget cr roots q ps later_now v t = (v', t, Inr (plain (oc_result oc)))"
  using run
proof (cases rule: append_OkE)
  case (unchanged b)
  then show ?thesis using nt by simp
next
  case (landed items' st0 ws revoked prev b g')
  let ?c = "ap_collection ps" and ?es = "ap_expect_seq ps" and ?n = "length (ap_items ps)"
  have cnt: "append_counts ps = Inr ()" using landed(1) by (simp add: lands_def)
  note c = append_counts_Ok [OF cnt]
  have st0: "mb_state (sv_cols s ?c) = Some st0" using landed(1) append_gate_Ok(1) by (auto simp: lands_def)
  note eff = append_commit_effect [OF landed(2,1) ok(1)]
  have sok: "state_ok st0" using ok(2) st0 by simp
  have notice: "cn_first nt = ?es" "cn_head nt = ?es + of_nat ?n - 1"
    using nt eff(7) [OF sok] by (auto simp: landed_meta_def)
  obtain m where m: "?n = Suc m" using c(1) by (cases "ap_items ps") auto
  then have u: "unat (cn_head nt) = unat ?es + ?n - 1"
    using c(4) by (simp add: notice unat_word_ariths unat_of_nat take_bit_eq_mod)
  let ?r = "\<lambda>j. stored_item (?es + of_nat j) (items' ! j) (ap_items ps ! j) now"
  have rows: "map_of (mb_items (sv_cols t ?c)) (?es + of_nat j) = Some (?r j) \<and> si_bytes (?r j) = ap_items ps ! j" if j: "j < ?n" for j
  proof -
    have k: "unat (?es + of_nat j) = unat ?es + j" using c(4) j by (simp add: unat_word_ariths unat_of_nat take_bit_eq_mod)
    then have "map_of (mb_items (sv_cols t ?c)) (?es + of_nat j) = map_of (mb_items (sv_cols s' ?c)) (?es + of_nat j)"
      using later(5) u j notice(1) by (simp add: word_le_nat_alt)
    then show ?thesis
      using eff(3) [OF sok, of "?es + of_nat j"] k j landed(3) by (simp add: set_col_def word_le_nat_alt stored_item_def)
  qed
  have pos: "unat ?es + ?n \<le> unat (cm_head (st_meta st)) + 1"
    using later(4) u c(1) unfolding word_le_nat_alt by linarith
  have "append_replay cr ps (cm_head (st_meta st)) (sv_cols t ?c) = Inr (Some (plain (oc_result oc)))"
    using append_replay_hit [OF later(1) cnt, of ?r "cm_head (st_meta st)" cr] rows pos eff(6) [OF sok] lands_chain(2) [OF landed(1)]
    by (simp add: stored_item_def landed_meta_def)
  then have "append_gate cr q ps items (sv_cols t ?c) = Inr (Inl (plain (oc_result oc)))"
    using later(2,3) retry(1) by (simp add: append_gate_def svc_load_def)
  then show ?thesis using cnt retry(2) by (simp add: append_with_budget_def Let_def)
qed

theorem append_replay_receipt_witness:
  "\<exists>u' s' oc v. append_with_budget accept_all [] sample_device sample_params 1000 budget_default sample_service = (u', s', Inr oc)
    \<and> append_with_budget accept_all [] sample_device sample_params 2000 budget_default s' = (v, s', Inr (plain (oc_result oc)))"
proof -
  obtain u' s' oc nt where run: "append_with_budget accept_all [] sample_device sample_params 1000 budget_default sample_service = (u', s', Inr oc)"
      "oc_notice oc = Some nt" "map_option st_acl (mb_state (sv_cols s' 1)) = Some (st_acl sample_state)"
    using sample_append by blast
  have c: "ap_collection sample_params = 1" "ap_items sample_params = [sample_bytes]" "ap_expect_seq sample_params = 1"
    by (simp_all add: sample_params_def)
  obtain v where v: "parse_items sample_device 1 1 0 [sample_bytes] budget_default = (v, Inr [sample_entry])"
    using sample_parsed by blast
  from run(1) show ?thesis
  proof (cases rule: append_OkE)
    case (unchanged b)
    then show ?thesis using run(2) by simp
  next
    case (landed items st ws revoked prev b g')
    have st: "st = sample_state"
      using landed(1) append_gate_Ok(1) by (fastforce simp: lands_def c sample_service_def set_col_def)
    note eff = append_commit_effect [OF landed(2,1), unfolded c, OF sample_service_ok(1)]
    have ok: "state_ok st" using sample_state_ok st by simp
    have g': "sv_cols s' 1 = g'" using landed(3) by (simp add: set_col_def c)
    have acl: "st_acl ws = st_acl sample_state" using run(3) eff(2) [OF ok] g' by simp
    have pos: "position_rel st ws" by (rule position.lands_Q [OF landed(1)])
    have "append_with_budget accept_all [] sample_device sample_params 2000 budget_default s' = (v, s', Inr (plain (oc_result oc)))"
    proof (rule append_replay_receipt [OF run(1,2)])
      show "mb_state (sv_cols s' (ap_collection sample_params)) = Some (ws\<lparr>st_meta := landed_meta sample_params ws prev\<rparr>)"
        using eff(2) [OF ok] g' by (simp add: c)
      show "authorize (ws\<lparr>st_meta := landed_meta sample_params ws prev\<rparr>) sample_device = Inr (Some sample_acl)"
        using acl by (simp add: authorize_def sample_device_def sample_state_def sample_acl_def)
    qed (use eff [OF ok] g' c v sample_service_ok pos st run(2) in
        \<open>auto simp: landed_meta_def position_rel_def Let_def sample_state_def meta_new_def\<close>)
    then show ?thesis using run(1) by blast
  qed
qed

subsection \<open>Idempotency tokens\<close>

lemma parsed_from_unique: "parsed_from p c seq bs its \<Longrightarrow> parsed_from q c' seq' bs its' \<Longrightarrow> its = its'"
proof (induction p c seq bs its arbitrary: its' seq' rule: parsed_from.induct)
  case (2 p c seq b bs it its)
  then show ?case by (cases its') (auto simp: parsed_def)
qed (auto elim: parsed_from.elims)

lemma in_map_filter: "y \<in> set (List.map_filter f xs) \<longleftrightarrow> (\<exists>x\<in>set xs. f x = Some y)"
  by (induction xs) (auto simp: List.map_filter_simps split: option.splits)

lemma scan_tokens_Ok:
  "scan_tokens i seen items = Inr ts \<Longrightarrow> map fst ts = List.map_filter it_idem items \<and> distinct (map fst ts)
    \<and> set seen \<inter> fst ` set ts = {}"
proof (induction items arbitrary: i seen ts)
  case (Cons it its)
  show ?case
  proof (cases "it_idem it")
    case None
    then show ?thesis using Cons.IH [of "i + 1" seen ts] Cons.prems by (auto simp: List.map_filter_simps)
  next
    case (Some t)
    then obtain ts' where ts: "scan_tokens (i + 1) (t # seen) its = Inr ts'" "ts = (t, i) # ts'" "t \<notin> set seen"
      using Cons.prems by (auto simp: rbind_Ok_iff split: if_splits)
    then have k: "List.map_filter it_idem its = map fst ts'" "distinct (map fst ts')" "t \<notin> fst ` set ts'"
      "set seen \<inter> fst ` set ts' = {}" using Cons.IH [OF ts(1)] by auto
    then show ?thesis using Some ts(2,3) by (simp add: List.map_filter_simps k(1))
  qed
qed (simp add: List.map_filter_simps)

lemma first_found_None: "first_found xs = None \<longleftrightarrow> list_all (\<lambda>x. snd x = None) xs"
  by (induction xs rule: first_found.induct) auto

lemma append_tokens_None:
  assumes "append_tokens g now items = Inr None"
  shows "distinct (List.map_filter it_idem items)"
    "it \<in> set items \<Longrightarrow> it_idem it = Some t \<Longrightarrow> map_of (mb_tokens g) t = Some (q, e) \<Longrightarrow> \<not> now <s e"
proof -
  obtain ts where ts: "scan_tokens 0 [] items = Inr ts" "first_found (zip (map snd ts) (mem_tokens g (map fst ts) now)) = None"
    using assms by (auto simp: append_tokens_def rbind_Ok_iff)
  note sc = scan_tokens_Ok [OF ts(1)]
  then show "distinct (List.map_filter it_idem items)" by auto
  assume it: "it \<in> set items" "it_idem it = Some t" and tok: "map_of (mb_tokens g) t = Some (q, e)"
  have "t \<in> set (List.map_filter it_idem items)" using it by (auto simp: in_map_filter)
  then obtain j where j: "j < length ts" "fst (ts ! j) = t" using sc by (metis in_set_conv_nth length_map nth_map)
  have "mem_tokens g (map fst ts) now ! j = None"
    using ts(2) j(1) by (auto simp: first_found_None list_all_length mem_tokens_def)
  then show "\<not> now <s e" using j tok by (auto simp: mem_tokens_def split: if_splits)
qed

lemma fold_insert_tokens:
  "mem_ok g \<Longrightarrow> distinct (List.map_filter si_token rows) \<Longrightarrow>
    map_of (mb_tokens (fold mem_write (map InsertItem rows) g)) t =
      (case find (\<lambda>r. si_token r = Some t) rows of
         Some r \<Rightarrow> Some (si_seq r, si_appended_at r + TOKEN_RETENTION_MS) | None \<Rightarrow> map_of (mb_tokens g) t)"
proof (induction rows arbitrary: g)
  case (Cons r rows)
  have IH: "map_of (mb_tokens (fold mem_write (map InsertItem rows) (mem_write (InsertItem r) g))) t =
      (case find (\<lambda>r. si_token r = Some t) rows of
         Some r \<Rightarrow> Some (si_seq r, si_appended_at r + TOKEN_RETENTION_MS) | None \<Rightarrow> map_of (mb_tokens (mem_write (InsertItem r) g)) t)"
    using Cons.prems by (intro Cons.IH mem.write_invar) (auto simp: List.map_filter_simps split: option.splits)
  have "find (\<lambda>r. si_token r = Some t) rows = None" if "si_token r = Some t"
    using Cons.prems(2) that by (auto simp: find_None_iff List.map_filter_simps in_map_filter)
  then show ?case
    using IH mem.write_token [OF Cons.prems(1), of "InsertItem r"] by (auto split: option.splits)
qed simp

lemma stored_items_tokens: "List.map_filter si_token (stored_items seq now xs) = List.map_filter (\<lambda>x. it_idem (fst x)) xs"
  by (induction seq now xs rule: stored_items.induct) (auto simp: List.map_filter_simps stored_item_def split: option.splits)

lemma map_filter_zip: "length xs = length ys \<Longrightarrow> List.map_filter (\<lambda>x. f (fst x)) (zip xs ys) = List.map_filter f xs"
  by (induction xs ys rule: list_induct2) (auto simp: List.map_filter_simps split: option.splits)

text \<open>A landed token is remembered for the retention period.\<close>

lemma landed_token:
  assumes "append_commit p ps now items st ws revoked prev g = (g', oc)"
    and "lands cr roots p ps now g items st ws revoked prev" "mem_ok g"
    and "it \<in> set items" "it_idem it = Some t"
  shows "\<exists>seq. map_of (mb_tokens g') t = Some (seq, now + TOKEN_RETENTION_MS)"
proof -
  let ?rows = "stored_items (ap_expect_seq ps) now (zip items (ap_items ps))"
  let ?ws = "map UpsertAcl (changed_acl st ws) @ [PutMeta (landed_meta ps ws prev), Notify (the (oc_notice oc))]"
  have g': "g' = fold mem_write ?ws (fold mem_write (map InsertItem ?rows) g)"
    using assms(1) by (auto simp: append_commit_def mem_commit_def Let_def landed_meta_def)
  have len: "length items = length (ap_items ps)" using lands_chain(3) [OF assms(2)] .
  have d: "distinct (List.map_filter si_token ?rows)"
    using append_tokens_None(1) assms(2) len by (auto simp: lands_def stored_items_tokens map_filter_zip)
  have "t \<in> set (List.map_filter si_token ?rows)"
    using assms(4,5) len by (auto simp: stored_items_tokens map_filter_zip in_map_filter)
  then obtain r where r: "find (\<lambda>r. si_token r = Some t) ?rows = Some r"
    by (cases "find (\<lambda>r. si_token r = Some t) ?rows") (auto simp: in_map_filter find_None_iff)
  then have "r \<in> set ?rows" by (auto simp: find_Some_iff)
  moreover have "si_appended_at x = now" if "x \<in> set (stored_items seq now xs)" for x seq xs
    using that by (induction seq now xs rule: stored_items.induct) (auto simp: stored_item_def)
  ultimately have "si_appended_at r = now" by blast
  moreover have "map_of (mb_tokens g') t = map_of (mb_tokens (fold mem_write (map InsertItem ?rows) g)) t"
    unfolding g' by (rule fun_cong [OF mem.commit_token_frame]) (use mem.commit_invar [OF assms(3)] in \<open>auto simp: list_all_iff\<close>)
  ultimately show ?thesis using fold_insert_tokens [OF assms(3) d, of t] r by simp
qed

lemma sample_first_parsed: "parsed_from sample_device 1 1 [sample_bytes] [sample_entry]"
proof -
  obtain u where "parse_items sample_device 1 1 0 [sample_bytes] budget_default = (u, Inr [sample_entry])"
    using sample_parsed by blast
  from parse_items_Ok [OF this] show ?thesis by simp
qed

subsection \<open>References\<close>

lemma append_refs_Ok:
  assumes "append_refs g items = Inr x" "it \<in> set items" "it_refs it = Some rs" "a \<in> set rs"
  shows "\<exists>m. map_of (mb_objects g) a = Some m \<and> om_committed m \<and> \<not> ref_index_kind m"
proof -
  have a: "a \<in> set (batch_refs items)" using assms(2-4) by (force simp: batch_refs_def)
  have "\<not> list_ex (\<lambda>m. case m of Some m \<Rightarrow> ref_index_kind m | None \<Rightarrow> False) (mem_objects g (batch_refs items))"
    and "filter (\<lambda>(_, m). \<not> (case m of Some m \<Rightarrow> om_committed m | None \<Rightarrow> False)) (zip (batch_refs items) (mem_objects g (batch_refs items))) = []"
    using assms(1) by (auto simp: append_refs_def Let_def split: if_splits)
  then have "\<not> (case map_of (mb_objects g) a of Some m \<Rightarrow> ref_index_kind m | None \<Rightarrow> False)"
    and "(case map_of (mb_objects g) a of Some m \<Rightarrow> om_committed m | None \<Rightarrow> False)"
    using a by (auto simp: mem_objects_def list_ex_iff filter_empty_conv zip_map2 zip_same_conv_map)
  then show ?thesis by (auto split: option.splits)
qed

subsection \<open>Authorisation\<close>

lemma check_items_at:
  "check_items cr ws es i its roots u = (u', Inr (ws', rv)) \<Longrightarrow> j < length its \<Longrightarrow>
    \<exists>u1 ws1 rv1 u2 r. check_items cr ws es i (take j its) roots u = (u1, Inr (ws1, rv1))
      \<and> check_item cr ws1 (its ! j) (es + of_nat (i + j)) (i + j) roots u1 = (u2, Inr r)"
proof (induction its arbitrary: ws i u rv j)
  case (Cons it its)
  then obtain u1 ws1 rv1 rv2 where 1: "check_item cr ws it (es + of_nat i) i roots u = (u1, Inr (ws1, rv1))"
      "check_items cr ws1 es (i + 1) its roots u1 = (u', Inr (ws', rv2))"
    by (auto split: prod.splits sum.splits)
  show ?case
  proof (cases j)
    case 0
    then show ?thesis using 1(1) by simp
  next
    case (Suc k)
    then obtain u2 ws2 rv3 u3 r where "check_items cr ws1 es (i + 1) (take k its) roots u1 = (u2, Inr (ws2, rv3))"
        "check_item cr ws2 (its ! k) (es + of_nat (i + 1 + k)) (i + 1 + k) roots u2 = (u3, Inr r)"
      using Cons.IH [OF 1(2), of k] Cons.prems(2) by auto
    then show ?thesis using 1(1) Suc by simp
  qed
qed simp

lemma check_signer_Ok:
  assumes "check_signer cr ws it i = Inr e"
  shows "\<exists>d digest sig. it_signer it = Some d \<and> map_of (st_acl ws) d = Some e \<and> ac_active e
     \<and> item_signed_digest (cr_sha256 cr) it = Inr digest \<and> it_sig it = Some sig \<and> cr_verify cr (ac_sign_pk e) digest sig
     \<and> (ac_kind e \<noteq> ESCROW \<or> it_kind it = Rekey \<or> it_kind it = KeyGrant)"
  using assms
  by (auto simp: check_signer_def rbind_Ok_iff map_err_Ok_iff ok_or_Ok_iff split: option.split_asm if_split_asm)

lemma check_item_signed:
  assumes "check_item cr ws it seq i roots u = (u', Inr r)" "it_kind it \<noteq> Policy"
  shows "\<exists>e. check_signer cr ws it i = Inr e"
  using assms by (auto simp: check_item_def split: sum.splits)

text \<open>The rule for content items: a writer (or the hosted device of a cloud copy), no freeze, no
  pending rekey, the current epoch.\<close>

definition may_write :: "CollectionSt \<Rightarrow> Item \<Rightarrow> AclEntry \<Rightarrow> bool" where
  "may_write ws it e \<longleftrightarrow>
     (pred_option (\<lambda>r. 1 \<le> r) (map_of (cm_members (st_meta ws)) (ac_account e)) \<and> map_of (cm_members (st_meta ws)) (ac_account e) \<noteq> None
        \<or> ac_kind e = HOSTED \<and> cm_cstate (st_meta ws) = 1)
     \<and> \<not> cm_frozen (st_meta ws) \<and> \<not> cm_rekey_required (st_meta ws) \<and> it_epoch it = Some (cm_epoch (st_meta ws))"

lemma check_content_iff: "check_content ws it i e = Inr () \<longleftrightarrow> may_write ws it e"
  by (auto simp: check_content_def may_write_def Let_def split: option.splits)

text \<open>The rules for the other kinds (policy.md): key items of a rekey move the epoch by one and wrap for
  active devices only; a key is granted by a writer, by the hosted or escrow device of a cloud copy, or
  by a member's recovery device to another device of its own account; a grant is approved by a
  member's own device; an escrow device signs key items only.\<close>

definition may_rekey :: "CollectionSt \<Rightarrow> Item \<Rightarrow> bool" where
  "may_rekey ws it \<longleftrightarrow> (\<exists>p. from_bytes rekey_payload_from_cbor (it_body it) = Inr p
     \<and> rk_from p = cm_epoch (st_meta ws) \<and> rk_epoch p = rk_from p + 1
     \<and> (\<forall>w \<in> set (rk_wraps p). \<exists>e. map_of (st_acl ws) (kw_device w) = Some e \<and> ac_active e))"

definition may_grant_key :: "CollectionSt \<Rightarrow> Item \<Rightarrow> AclEntry \<Rightarrow> bool" where
  "may_grant_key ws it e \<longleftrightarrow> \<not> cm_rekey_required (st_meta ws)
     \<and> (\<exists>p. from_bytes key_grant_payload_from_cbor (it_body it) = Inr p \<and> kg_epoch p = cm_epoch (st_meta ws)
       \<and> ((\<exists>r. map_of (cm_members (st_meta ws)) (ac_account e) = Some r \<and> 1 \<le> r)
         \<or> (ac_kind e = HOSTED \<or> ac_kind e = ESCROW) \<and> cm_cstate (st_meta ws) = 1
         \<or> ac_kind e = RECOVERY \<and> map_of (cm_members (st_meta ws)) (ac_account e) \<noteq> None
           \<and> (\<exists>d. map_of (st_acl ws) (kg_recipient p) = Some d \<and> ac_active d \<and> ac_account d = ac_account e \<and> ac_kind d \<le> 3
               \<and> kw_device (kg_wrap p) = ac_device d)))"

definition may_approve :: "CollectionSt \<Rightarrow> Item \<Rightarrow> AclEntry \<Rightarrow> bool" where
  "may_approve ws it e \<longleftrightarrow> map_of (cm_members (st_meta ws)) (ac_account e) \<noteq> None \<and> ac_kind e \<noteq> ESCROW \<and> ac_kind e \<noteq> HOSTED
     \<and> \<not> cm_rekey_required (st_meta ws) \<and> it_epoch it = Some (cm_epoch (st_meta ws))"

definition may_append :: "CollectionSt \<Rightarrow> Item \<Rightarrow> AclEntry \<Rightarrow> bool" where
  "may_append ws it e \<longleftrightarrow> (ac_kind e = ESCROW \<longrightarrow> it_kind it = Rekey \<or> it_kind it = KeyGrant)
     \<and> (case it_kind it of
          Entry \<Rightarrow> may_write ws it e
        | Base \<Rightarrow> may_write ws it e
        | Rekey \<Rightarrow> may_rekey ws it
        | KeyGrant \<Rightarrow> may_grant_key ws it e
        | GrantApproval \<Rightarrow> may_approve ws it e
        | _ \<Rightarrow> False)"

lemma check_rekey_Ok: "apply_rekey_with_budget ws it u = (u', Inr r) \<Longrightarrow> may_rekey ws it"
  by (auto simp: apply_rekey_with_budget_def may_rekey_def apply_rekey_payload_def rbind_Ok_iff list_all_iff
      split: prod.split_asm if_split_asm option.split_asm dest!: budget_wire_Ok)
    (metis option.case_eq_if option.collapse)

lemma check_key_grant_Ok:
  assumes "check_key_grant ws it i e u = (u', Inr r)"
  shows "may_grant_key ws it e"
proof -
  let ?role = "map_of (cm_members (st_meta ws)) (ac_account e)"
  let ?ordinary = "(\<exists>r. ?role = Some r \<and> 1 \<le> r) \<or> (ac_kind e = HOSTED \<or> ac_kind e = ESCROW) \<and> cm_cstate (st_meta ws) = 1"
  have w: "(case ?role of Some r \<Rightarrow> 1 \<le> r | None \<Rightarrow> False) \<longleftrightarrow> (\<exists>r. ?role = Some r \<and> 1 \<le> r)" by (cases ?role) auto
  obtain u1 r1 where b: "budget_wire key_grant_payload_from_cbor (it_body it) u = (u1, r1)" by force
  obtain p where p: "r1 = Inr p" "?ordinary \<or> ac_kind e = RECOVERY \<and> ?role \<noteq> None" "\<not> cm_rekey_required (st_meta ws)"
      "kg_epoch p = cm_epoch (st_meta ws)"
      "?ordinary \<or> (case map_of (st_acl ws) (kg_recipient p) of
                 Some r \<Rightarrow> ac_active r \<and> ac_account r = ac_account e \<and> ac_kind r \<le> 3 \<and> kw_device (kg_wrap p) = ac_device r
               | None \<Rightarrow> False)"
    using assms b unfolding check_key_grant_def Let_def w by (cases r1) (simp_all split: if_split_asm)
  have "\<exists>d. map_of (st_acl ws) (kg_recipient p) = Some d \<and> ac_active d \<and> ac_account d = ac_account e \<and> ac_kind d \<le> 3
      \<and> kw_device (kg_wrap p) = ac_device d" if "\<not> ?ordinary"
    using p(5) that by (cases "map_of (st_acl ws) (kg_recipient p)") auto
  then show ?thesis using p(2-4) budget_wire_Ok [OF b [unfolded p(1)]] unfolding may_grant_key_def by blast
qed

lemma check_grant_approval_Ok: "check_grant_approval ws it i e = Inr r \<Longrightarrow> may_approve ws it e"
  by (auto simp: check_grant_approval_def may_approve_def split: if_split_asm)

lemma check_item_allowed:
  assumes "check_item cr ws it seq i roots u = (u', Inr r)" "it_kind it \<noteq> Policy" "check_signer cr ws it i = Inr e"
  shows "may_append ws it e"
proof -
  have "ac_kind e = ESCROW \<longrightarrow> it_kind it = Rekey \<or> it_kind it = KeyGrant" using check_signer_Ok [OF assms(3)] by auto
  moreover have "case it_kind it of Entry \<Rightarrow> may_write ws it e | Base \<Rightarrow> may_write ws it e | Rekey \<Rightarrow> may_rekey ws it
      | KeyGrant \<Rightarrow> may_grant_key ws it e | GrantApproval \<Rightarrow> may_approve ws it e | _ \<Rightarrow> False"
    using assms check_content_iff check_grant_approval_Ok
    by (cases "it_kind it"; cases "apply_rekey_with_budget ws it u"; cases "check_key_grant ws it i e u")
      (auto simp: check_item_def rbind_Ok_iff map_err_Ok_iff dest: check_rekey_Ok check_key_grant_Ok)
  ultimately show ?thesis by (simp add: may_append_def)
qed

text \<open>C6. Every device item of a landed batch was authorised at its own position: in the state left by
  the items before it, its signer is an active device of the collection, the signature over the
  item verifies under that device's key, and the policy allows that device an item of this kind:
  content by a writer under the current epoch, with no freeze and no rekey pending, a rekey to the
  next epoch for active devices, a key grant or the approval of a grant by who may give it.\<close>

theorem append_authorised:
  assumes run: "append_with_budget cr roots p ps now u s = (u', s', Inr oc)" and nt: "oc_notice oc = Some nt"
    and items: "parsed_from p (ap_collection ps) (ap_expect_seq ps) (ap_items ps) items"
    and j: "j < length items" "it_kind (items ! j) \<noteq> Policy"
  shows "\<exists>st v v' ws rv d e digest sig. mb_state (sv_cols s (ap_collection ps)) = Some st
    \<and> check_items cr st (ap_expect_seq ps) 0 (take j items) roots v = (v', Inr (ws, rv))
    \<and> it_signer (items ! j) = Some d \<and> map_of (st_acl ws) d = Some e \<and> ac_active e
    \<and> item_signed_digest (cr_sha256 cr) (items ! j) = Inr digest \<and> it_sig (items ! j) = Some sig
    \<and> cr_verify cr (ac_sign_pk e) digest sig
    \<and> may_append ws (items ! j) e"
  using run
proof (cases rule: append_OkE)
  case (unchanged b)
  then show ?thesis using nt by simp
next
  case (landed items' st ws revoked prev b g')
  have "items' = items" using landed(1) items parsed_from_unique by (auto simp: lands_def)
  then obtain v v2 where ci: "check_items cr st (ap_expect_seq ps) 0 items roots v = (v2, Inr (ws, revoked))"
    using landed(1) by (auto simp: lands_def)
  obtain u1 ws1 rv1 u2 r where at: "check_items cr st (ap_expect_seq ps) 0 (take j items) roots v = (u1, Inr (ws1, rv1))"
      "check_item cr ws1 (items ! j) (ap_expect_seq ps + of_nat j) j roots u1 = (u2, Inr r)"
    using check_items_at [OF ci j(1)] by auto
  obtain e where e: "check_signer cr ws1 (items ! j) j = Inr e" using check_item_signed [OF at(2) j(2)] by blast
  have st: "mb_state (sv_cols s (ap_collection ps)) = Some st" using landed(1) append_gate_Ok(1) by (auto simp: lands_def)
  show ?thesis using st at(1) check_signer_Ok [OF e] check_item_allowed [OF at(2) j(2) e] by blast
qed

theorem append_authorised_witness:
  "\<exists>u' s' oc ws e. append_with_budget accept_all [] sample_device sample_params 1000 budget_default sample_service = (u', s', Inr oc)
    \<and> it_signer sample_entry = Some 9 \<and> map_of (st_acl ws) 9 = Some e \<and> ac_active e \<and> may_append ws sample_entry e"
proof -
  obtain u' s' oc nt where run: "append_with_budget accept_all [] sample_device sample_params 1000 budget_default sample_service = (u', s', Inr oc)"
    "oc_notice oc = Some nt" using sample_append by blast
  have k: "it_kind ([sample_entry] ! 0) = Entry" "it_signer ([sample_entry] ! 0) = Some 9" by (simp_all add: sample_entry_def)
  have "parsed_from sample_device (ap_collection sample_params) (ap_expect_seq sample_params) (ap_items sample_params) [sample_entry]"
    using sample_first_parsed by (simp add: sample_params_def)
  from append_authorised [OF run this, of 0] show ?thesis using run(1) k by fastforce
qed

end
