(* ===== verification/LogRead.thy ===== *)
theory LogRead
  imports AppendSafety
begin

text \<open>
  Reading the log, from \<open>log-service/src/service.rs\<close>: \<open>pointer\<close>, \<open>read\<close> and
  \<open>head\<close> on the memory backend.
\<close>

subsection \<open>The methods\<close>

definition pointer :: "SnapshotRow \<Rightarrow> SnapshotPointer" where
  "pointer s = \<lparr>sp_seq = sr_seq s, sp_manifest = sr_manifest s, sp_author = sr_author s, sp_created_at = sr_created_at s,
     sp_endorsed = sr_endorsed s\<rparr>"

definition first_snapshot :: "MemCollection \<Rightarrow> SnapshotPointer option" where
  "first_snapshot g = (case mem_snapshots g of [] \<Rightarrow> None | s # _ \<Rightarrow> Some (pointer s))"

definition read_page :: "MemCollection \<Rightarrow> CollectionMeta \<Rightarrow> ReadParams \<Rightarrow> u64 \<Rightarrow> ReadResult" where
  "read_page g m ps max_bytes =
    (let control = (rd_kinds ps = Some Control);
         behind = (\<not> control \<and> sat_add (rd_after ps) 1 < cm_retained_from m);
         limit = min (rd_limit ps) MAX_READ_ITEMS;
         items = (if behind \<or> limit = 0 \<or> cm_head m \<le> rd_after ps then [] else mem_items g (rd_after ps) limit max_bytes control);
         latest = (if items = [] then rd_after ps else si_seq (last items));
         tot = sum_list (map (\<lambda>i. of_nat (length (si_bytes i))) items);
         more' = (if control then latest < cm_head m
                    \<and> (of_nat (length items) = limit \<or> sat_sub max_bytes MAX_ITEM_BYTES < tot)
                  else latest < cm_head m) in
     \<lparr>rr_items = map (\<lambda>i. \<lparr>sq_seq = si_seq i, sq_item = si_bytes i\<rparr>) items,
      rr_head = cm_head m, rr_head_chain = cm_head_chain m, rr_retained_from = cm_retained_from m, rr_behind = behind,
      rr_snapshot = (if behind \<or> control \<or> rd_after ps = 0 then first_snapshot g else None), rr_more = more'\<rparr>)"

definition read :: "Principal \<Rightarrow> ReadParams \<Rightarrow> i64 \<Rightarrow> Service \<Rightarrow> ServiceError + ReadResult" where
  "read p ps now s =
    (let max_bytes = min (case rd_max_bytes ps of Some b \<Rightarrow> b | None \<Rightarrow> MAX_READ_BYTES) MAX_READ_BYTES;
         g = sv_cols s (rd_collection ps) in
     if max_bytes = 0 then Err (err_invalid ''max_bytes'')
     else
       rbind (svc_load g) (\<lambda>st.
       rbind (authorize st p) (\<lambda>_.
       rbind (live (cm_status (st_meta st))) (\<lambda>_.
       Ok (read_page g (st_meta st) ps max_bytes)))))"

definition log_head :: "Principal \<Rightarrow> b16 \<Rightarrow> Service \<Rightarrow> ServiceError + HeadResult" where
  "log_head p c s =
    (let g = sv_cols s c in
     rbind (svc_load g) (\<lambda>st.
     rbind (authorize st p) (\<lambda>_.
     rbind (live (cm_status (st_meta st))) (\<lambda>_.
     Ok \<lparr>hs_head = cm_head (st_meta st), hs_head_chain = cm_head_chain (st_meta st),
         hs_retained_from = cm_retained_from (st_meta st), hs_snapshot = first_snapshot g\<rparr>))))"

end
