(* ===== verification/LogSnapshots.thy ===== *)
theory LogSnapshots
  imports LogObjects LogRead
begin

text \<open>
  Snapshots, compaction and garbage collection of \<open>log-service/src/service.rs\<close>, with the
  archive half of the memory object store (\<open>impl Archive for MemObjects\<close> in \<open>mem.rs\<close>).

  \<open>fa\<close> is the store's \<open>fail_archive\<close> switch.  The paging loop of \<open>archive_entries\<close> is a
  partial function: \<open>None\<close> is a run that does not end.
\<close>

subsection \<open>Registering a snapshot\<close>

definition stored_ref_index :: "crypto \<Rightarrow> b16 \<Rightarrow> b32 \<Rightarrow> bytes \<Rightarrow> Usage \<Rightarrow> Usage \<times> (ServiceError + b32 list)" where
  "stored_ref_index cr c a bs u =
    (if cr_sha256 cr bs \<noteq> a then (u, Err (err_backend ''ref-index bytes differ from their address: integrity incident''))
     else
       (case budget_wire item_from_cbor bs u of
          (u, Inl e) \<Rightarrow> (u, Err e)
        | (u, Inr it) \<Rightarrow>
            if it_collection it \<noteq> c then (u, Err (err_msg (err_invalid ''ref_index'') ''collection''))
            else ref_index_body it u))"

fun index_members :: "crypto \<Rightarrow> b16 \<Rightarrow> Service \<Rightarrow> b32 list \<Rightarrow> Usage \<Rightarrow> Usage \<times> (ServiceError + b32 list)" where
  "index_members cr c s [] u = (u, Ok [])"
| "index_members cr c s (a # as) u =
    (case sv_objects s (object_key c a) of
       None \<Rightarrow> (u, Err (err_backend ''ref-index bytes missing: integrity incident''))
     | Some bs \<Rightarrow>
         (case stored_ref_index cr c a bs u of
            (u, Inl e) \<Rightarrow> (u, Err e)
          | (u, Inr ms) \<Rightarrow>
              (case index_members cr c s as u of
                 (u, Inl e) \<Rightarrow> (u, Err e)
               | (u, Inr later) \<Rightarrow> (u, Ok (ms @ later)))))"

definition part_kind :: "u64 \<Rightarrow> bool" where
  "part_kind k \<longleftrightarrow> k = item_kind_value Chunk \<or> k = item_kind_value BlobPart"

text \<open>The members that are not committed, up to \<open>MAX_HAS_OBJECTS\<close> of them; a committed member of
  another kind refuses the snapshot.\<close>

fun missing_members :: "(b32 \<times> ObjectMeta option) list \<Rightarrow> Cbor list \<Rightarrow> ServiceError + Cbor list" where
  "missing_members [] missing = Ok missing"
| "missing_members ((a, m) # xs) missing =
    (if (case m of Some m \<Rightarrow> om_committed m | None \<Rightarrow> False) then
       (if part_kind (om_kind (the m)) then missing_members xs missing
        else Err (err_msg (err_invalid ''kind'') (if ref_index_kind (the m) then ''ref-index depth'' else ''ref-index member kind'')))
     else missing_members xs (if length missing < MAX_HAS_OBJECTS then missing @ [CBytes (be_bytes 32 a)] else missing))"

definition refs_missing :: "Cbor list \<Rightarrow> ServiceError" where
  "refs_missing missing = (err_new CodeRefsMissing)\<lparr>se_details := Some (CArray missing)\<rparr>"

definition expand_ref_indices ::
  "crypto \<Rightarrow> Service \<Rightarrow> b16 \<Rightarrow> b32 list \<Rightarrow> b32 list \<Rightarrow> Usage \<Rightarrow> Usage \<times> (ServiceError + b32 list)" where
  "expand_ref_indices cr s c refs indices u =
    (if MAX_REF_INDICES < length indices then (u, Err (err_reason CodeTooLarge ''ref_indices''))
     else
       (case index_members cr c s indices u of
          (u, Inl e) \<Rightarrow> (u, Err e)
        | (u, Inr ms) \<Rightarrow>
            let members = sort (remdups ms) in
            (u, rbind (missing_members (zip members (mem_objects (sv_cols s c) members)) []) (\<lambda>missing.
                if missing \<noteq> [] then Err (refs_missing missing) else Ok (remdups_adj (sort (refs @ members)))))))"

text \<open>The kinds of the direct references: the ref indices among them, or a refusal.\<close>

fun snapshot_indices :: "b32 \<Rightarrow> (b32 \<times> ObjectMeta option) list \<Rightarrow> ServiceError + b32 list" where
  "snapshot_indices manifest [] = Ok []"
| "snapshot_indices manifest ((a, m) # xs) =
    (let k = (case m of Some m \<Rightarrow> om_kind m | None \<Rightarrow> 0); bad = err_msg (err_invalid ''kind'') ''snapshot object kind'' in
     if a = manifest then (if k = item_kind_value Manifest then snapshot_indices manifest xs else Err bad)
     else if k = item_kind_value RefIndex then rbind (snapshot_indices manifest xs) (\<lambda>is. Ok (a # is))
     else if part_kind k then snapshot_indices manifest xs
     else Err bad)"

definition snapshot_refs ::
  "crypto \<Rightarrow> Service \<Rightarrow> PutSnapshotParams \<Rightarrow> Usage \<Rightarrow> Usage \<times> (ServiceError + b32 list)" where
  "snapshot_refs cr s q u =
    (let c = ps_collection q; refs = remdups_adj (sort (ps_refs q @ [ps_manifest q]));
         metas = mem_objects (sv_cols s c) refs;
         missing = filter (\<lambda>(_, m). \<not> (case m of Some m \<Rightarrow> om_committed m | None \<Rightarrow> False)) (zip refs metas) in
     if missing \<noteq> [] then (u, Err (refs_missing (map (\<lambda>(a, _). CBytes (be_bytes 32 a)) missing)))
     else
       (case snapshot_indices (ps_manifest q) (zip refs metas) of
          Inl e \<Rightarrow> (u, Err e)
        | Inr [] \<Rightarrow> (u, Ok refs)
        | Inr indices \<Rightarrow> expand_ref_indices cr s c refs indices u))"

definition authorize_device :: "CollectionSt \<Rightarrow> Principal \<Rightarrow> ServiceError + AclEntry" where
  "authorize_device st p =
    rbind (authorize st p) (\<lambda>me. ok_or me (err_reason CodeForbidden ''principal''))"

definition put_snapshot_with_budget ::
  "crypto \<Rightarrow> Principal \<Rightarrow> PutSnapshotParams \<Rightarrow> i64 \<Rightarrow> Usage \<Rightarrow> Service \<Rightarrow> Usage \<times> Service \<times> (ServiceError + bool)" where
  "put_snapshot_with_budget cr p q now u s =
    (let c = ps_collection q; g = sv_cols s c in
     case rbind (svc_load g) (\<lambda>st. rbind (authorize_device st p) (\<lambda>me. Ok (st, me))) of
       Inl e \<Rightarrow> (u, s, Err e)
     | Inr (st, me) \<Rightarrow>
         if cm_head (st_meta st) < ps_seq q \<or> ps_seq q = 0 then (u, s, Err (err_invalid ''seq''))
         else if (case mem_snapshots g of x # _ \<Rightarrow> ps_seq q \<le> sr_seq x | [] \<Rightarrow> False) then (u, s, Ok False)
         else
           (case snapshot_refs cr s q u of
              (u, Inl e) \<Rightarrow> (u, s, Err e)
            | (u, Inr refs) \<Rightarrow>
                (u, set_col c (mem_commit (InsertSnapshot \<lparr>sr_seq = ps_seq q, sr_manifest = ps_manifest q, sr_author = ac_device me,
                       sr_created_at = now, sr_endorsed = False, sr_refs = refs\<rparr>
                     # map (\<lambda>x. DeleteSnapshot (sr_seq x)) (drop (RETAINED_SNAPSHOTS - 1) (mem_snapshots g))) g) s, Ok True)))"

definition get_snapshot :: "Principal \<Rightarrow> b16 \<Rightarrow> Service \<Rightarrow> ServiceError + GetSnapshotResult" where
  "get_snapshot p c s =
    (let g = sv_cols s c in
     rbind (svc_load g) (\<lambda>st.
     rbind (authorize st p) (\<lambda>_.
     rbind (not_gone (cm_status (st_meta st))) (\<lambda>_.
     Ok \<lparr>gs_snapshots = map pointer (mem_snapshots g)\<rparr>))))"

subsection \<open>Compaction\<close>

definition archive_check :: "bool \<Rightarrow> ServiceError + unit" where
  "archive_check fa = (if fa then Err (err_backend ''archive unavailable (test)'') else Ok ())"

definition store_put_segment ::
  "bool \<Rightarrow> b16 \<Rightarrow> RetentionTier \<Rightarrow> u64 \<Rightarrow> u64 \<Rightarrow> bytes \<Rightarrow> Service \<Rightarrow> Service \<times> (ServiceError + unit)" where
  "store_put_segment fa c tier fr to bs s =
    (case archive_check fa of
       Inl e \<Rightarrow> (s, Err e)
     | Inr _ \<Rightarrow> (s\<lparr>sv_archive := (sv_archive s)(archive_segment_key c tier fr to \<mapsto> bs)\<rparr>, Ok ()))"

definition store_archive_object ::
  "bool \<Rightarrow> b16 \<Rightarrow> RetentionTier \<Rightarrow> b32 \<Rightarrow> Service \<Rightarrow> Service \<times> (ServiceError + unit)" where
  "store_archive_object fa c tier a s =
    (case archive_check fa of
       Inl e \<Rightarrow> (s, Err e)
     | Inr _ \<Rightarrow>
         (case sv_objects s (object_key c a) of
            None \<Rightarrow> (s, Ok ())
          | Some bs \<Rightarrow> (s\<lparr>sv_archive := (sv_archive s)(archive_object_key c tier a \<mapsto> bs)\<rparr>, Ok ())))"

definition segment_cbor :: "crypto \<Rightarrow> b16 \<Rightarrow> StoredItem list \<Rightarrow> Cbor" where
  "segment_cbor cr c seg =
    CMap [(Uint 0, Uint 1), (Uint 1, CBytes (be_bytes 16 c)), (Uint 2, Uint (si_seq (hd seg))),
      (Uint 3, Uint (si_seq (last seg))), (Uint 4, CBytes (be_bytes 32 (chain_hash (cr_sha256 cr) (si_bytes (last seg))))),
      (Uint 5, CArray (map (\<lambda>i. CArray [Uint (si_seq i), CBytes (si_bytes i)]) seg))]"

definition encode_segment :: "crypto \<Rightarrow> b16 \<Rightarrow> StoredItem list \<Rightarrow> fault + bytes" where
  "encode_segment cr c seg = (if seg = [] then Err Panic else map_err (\<lambda>_. Panic) (encode (segment_cbor cr c seg)))"

definition put_segment ::
  "crypto \<Rightarrow> bool \<Rightarrow> b16 \<Rightarrow> RetentionTier \<Rightarrow> StoredItem list \<Rightarrow> Service \<Rightarrow> Service \<times> (fault + unit)" where
  "put_segment cr fa c tier seg s =
    (case encode_segment cr c seg of
       Inl f \<Rightarrow> (s, Err f)
     | Inr bs \<Rightarrow> apsnd (map_err Fail) (store_put_segment fa c tier (si_seq (hd seg)) (si_seq (last seg)) bs s))"

text \<open>One page: the flag says that the loop is left at an item past the boundary; \<open>after\<close>, the
  open segment and its bytes carry over to the next page.\<close>

fun archive_page ::
  "crypto \<Rightarrow> bool \<Rightarrow> b16 \<Rightarrow> RetentionTier \<Rightarrow> u64 \<Rightarrow> StoredItem list \<Rightarrow> u64 \<Rightarrow> StoredItem list \<Rightarrow> u64 \<Rightarrow> Service
    \<Rightarrow> Service \<times> (fault + bool \<times> u64 \<times> StoredItem list \<times> u64)" where
  "archive_page cr fa c tier cp [] after seg sb s = (s, Ok (False, after, seg, sb))"
| "archive_page cr fa c tier cp (it # its) after seg sb s =
    (if cp < si_seq it then (s, Ok (True, after, seg, sb))
     else if si_kind it \<noteq> 1 then archive_page cr fa c tier cp its (si_seq it) seg sb s
     else
       let n = of_nat (length (si_bytes it)) in
       if seg \<noteq> [] \<and> ARCHIVE_SEGMENT_BYTES < sb + n then
         (case put_segment cr fa c tier seg s of
            (s, Inl f) \<Rightarrow> (s, Err f)
          | (s, Inr _) \<Rightarrow> archive_page cr fa c tier cp its (si_seq it) [it] n s)
       else archive_page cr fa c tier cp its (si_seq it) (seg @ [it]) (sb + n) s)"

partial_function (option) archive_pages ::
  "crypto \<Rightarrow> bool \<Rightarrow> b16 \<Rightarrow> RetentionTier \<Rightarrow> u64 \<Rightarrow> MemCollection \<Rightarrow> u64 \<Rightarrow> StoredItem list \<Rightarrow> u64 \<Rightarrow> Service
    \<Rightarrow> (Service \<times> (fault + StoredItem list)) option" where
  "archive_pages cr fa c tier cp g after seg sb s =
    (let page = mem_items g after MAX_READ_ITEMS ARCHIVE_SEGMENT_BYTES False in
     if page = [] then Some (s, Ok seg)
     else
       (case archive_page cr fa c tier cp page after seg sb s of
          (s, Inl f) \<Rightarrow> Some (s, Err f)
        | (s, Inr (stop, after, seg, sb)) \<Rightarrow>
            if stop then Some (s, Ok seg) else archive_pages cr fa c tier cp g after seg sb s))"

definition archive_entries ::
  "crypto \<Rightarrow> bool \<Rightarrow> b16 \<Rightarrow> RetentionTier \<Rightarrow> u64 \<Rightarrow> u64 \<Rightarrow> MemCollection \<Rightarrow> Service \<Rightarrow> (Service \<times> (fault + unit)) option" where
  "archive_entries cr fa c tier retained_from cp g s =
    map_option (\<lambda>(s, r).
      case r of
        Inl f \<Rightarrow> (s, Err f)
      | Inr seg \<Rightarrow> if seg = [] then (s, Ok ()) else put_segment cr fa c tier seg s)
      (archive_pages cr fa c tier cp g (sat_sub retained_from 1) [] 0 s)"

definition personal_devices :: "CollectionSt \<Rightarrow> nat" where
  "personal_devices st =
    length (filter (\<lambda>(_, e). ac_active e \<and> ac_kind e \<noteq> HOSTED \<and> ac_kind e \<noteq> ESCROW) (st_acl st))"

text \<open>The compaction boundary \<open>C\<close>.\<close>

definition compaction_point :: "CollectionSt \<Rightarrow> MemCollection \<Rightarrow> i64 \<Rightarrow> u64" where
  "compaction_point st g now =
    (let s_e = max_or_0 (map sr_seq (filter (\<lambda>x. sr_endorsed x
                 \<or> (personal_devices st \<le> 1 \<and> SELF_ENDORSE_AGE_MS <s now - sr_created_at x)) (mem_snapshots g)));
         c1 = sat_sub s_e COMPACTION_GRACE_ENTRIES;
         c2 = mem_last_seq_at_or_before g (now - COMPACTION_MIN_AGE_MS) in
     min c1 c2)"

definition compact ::
  "crypto \<Rightarrow> bool \<Rightarrow> b16 \<Rightarrow> i64 \<Rightarrow> Service \<Rightarrow> (Service \<times> (fault + u64)) option" where
  "compact cr fa c now s =
    (let g = sv_cols s c in
     case svc_load g of
       Inl e \<Rightarrow> Some (s, Err (Fail e))
     | Inr st \<Rightarrow>
         let cp = compaction_point st g now; m = st_meta st in
         if cp < cm_retained_from m then Some (s, Ok (cm_retained_from m))
         else
           map_option (\<lambda>(s, r).
             case r of
               Inl f \<Rightarrow> (s, Err f)
             | Inr _ \<Rightarrow>
                 (set_col c (mem_commit [DeleteEntriesThrough cp, PruneTokens now,
                     PutMeta (m\<lparr>cm_retained_from := cp + 1,
                       cm_used_bytes := sat_sub (cm_used_bytes m) (mem_entry_bytes_through g cp)\<rparr>)] g) s, Ok (cp + 1)))
             (archive_entries cr fa c (cm_retention_tier m) (cm_retained_from m) cp g s))"

text \<open>Endorsement: the write of the first transaction, then compaction.\<close>

definition endorse_write :: "Principal \<Rightarrow> EndorseSnapshotParams \<Rightarrow> MemCollection \<Rightarrow> ServiceError + MemCollection option" where
  "endorse_write p q g =
    rbind (svc_load g) (\<lambda>st.
    rbind (authorize_device st p) (\<lambda>me.
    case filter (\<lambda>x. sr_seq x = es_seq q \<and> sr_manifest x = es_manifest q) (mem_snapshots g) of
      [] \<Rightarrow> Ok None
    | x # _ \<Rightarrow>
        if sr_author x = ac_device me then Err (err_reason CodeForbidden ''author'')
        else if \<not> (((case map_of (cm_members (st_meta st)) (ac_account me) of Some r \<Rightarrow> 1 \<le> r | None \<Rightarrow> False)
               \<and> ac_kind me \<noteq> ESCROW) \<or> ac_kind me = HOSTED) then Err (err_reason CodeForbidden ''role'')
        else Ok (Some (if sr_endorsed x then g else mem_commit [EndorseSnapshot (sr_seq x)] g))))"

definition endorse_snapshot ::
  "crypto \<Rightarrow> bool \<Rightarrow> Principal \<Rightarrow> EndorseSnapshotParams \<Rightarrow> i64 \<Rightarrow> Service \<Rightarrow> (Service \<times> (fault + bool)) option" where
  "endorse_snapshot cr fa p q now s =
    (let c = es_collection q in
     case endorse_write p q (sv_cols s c) of
       Inl e \<Rightarrow> Some (s, Err (Fail e))
     | Inr None \<Rightarrow> Some (s, Ok False)
     | Inr (Some g) \<Rightarrow> map_option (\<lambda>(s, r). (s, rbind r (\<lambda>_. Ok True))) (compact cr fa c now (set_col c g s)))"

subsection \<open>Garbage collection\<close>

text \<open>The candidates that may go: the committed ones whose archive copy was written, and the
  uncommitted ones.\<close>

fun gc_dead :: "bool \<Rightarrow> b16 \<Rightarrow> RetentionTier \<Rightarrow> ObjectMeta list \<Rightarrow> Service \<Rightarrow> Service \<times> ObjectMeta list" where
  "gc_dead fa c tier [] s = (s, [])"
| "gc_dead fa c tier (x # xs) s =
    (if om_committed x then
       (case store_archive_object fa c tier (om_address x) s of
          (s, Inl _) \<Rightarrow> gc_dead fa c tier xs s
        | (s, Inr _) \<Rightarrow> apsnd (\<lambda>d. x # d) (gc_dead fa c tier xs s))
     else apsnd (\<lambda>d. x # d) (gc_dead fa c tier xs s))"

definition gc_meta :: "MemCollection \<Rightarrow> ObjectMeta list \<Rightarrow> CollectionMeta \<Rightarrow> CollectionMeta" where
  "gc_meta g dead m =
    (let dead_file_bytes = sum_list (map om_size (filter (\<lambda>x. om_committed x \<and> om_kind x = item_kind_value BlobPart) dead));
         m = (if 0 < dead_file_bytes then m\<lparr>cm_file_bytes := Some (sat_sub (file_bytes g m) dead_file_bytes)\<rparr> else m) in
     m\<lparr>cm_used_bytes := fold (\<lambda>x b. if om_committed x then sat_sub b (om_size x) else b) dead (cm_used_bytes m)\<rparr>)"

definition gc :: "bool \<Rightarrow> b16 \<Rightarrow> i64 \<Rightarrow> Service \<Rightarrow> Service \<times> (ServiceError + u64)" where
  "gc fa c now s =
    (let g = sv_cols s c in
     case rbind (svc_load g) (\<lambda>st. rbind (live (cm_status (st_meta st))) (\<lambda>_. Ok st)) of
       Inl e \<Rightarrow> (s, Err e)
     | Inr st \<Rightarrow>
         (case gc_dead fa c (cm_retention_tier (st_meta st)) (mem_gc_candidates g (now - OBJECT_GRACE_MS) GC_BATCH_OBJECTS) s of
            (s, dead) \<Rightarrow>
              if dead = [] then (s, Ok 0)
              else
                let s = set_col c (mem_commit (map (\<lambda>x. DeleteObject (om_address x)) dead @ [PutMeta (gc_meta g dead (st_meta st))]) g) s in
                (fold (\<lambda>x. store_delete (object_key c (om_address x))) dead s, Ok (of_nat (length dead)))))"

end
