(* ===== verification/LogAdmin.thy ===== *)
theory LogAdmin
  imports LogSnapshots
begin

text \<open>
  The administrative methods of \<open>log-service/src/service.rs\<close> (control plane only): creation,
  quotas, status, terminal deletion, and the deletion registry of the memory backend
  (\<open>record_collection_deletion\<close> in \<open>mem.rs\<close>).

  \<open>place\<close> stands for \<open>Placement::from_field(..)?.resolve_in(..)\<close>: the region recorded for a
  new collection, or the refusal of the placement field.  The region is stored and returned,
  nothing else depends on it.
\<close>

subsection \<open>Parameters\<close>

definition bad_params :: "string \<Rightarrow> ServiceError" where
  "bad_params e = err_msg (err_invalid ''shape'') (''params: '' @ e)"

definition map_of_fields :: "(u64 \<times> Cbor) list \<Rightarrow> Cbor" where
  "map_of_fields entries = CMap (map (\<lambda>(k, v). (Uint k, v)) entries)"

definition field :: "Cbor \<Rightarrow> u64 \<Rightarrow> Cbor option" where
  "field params k = (case params of CMap m \<Rightarrow> map_of m (Uint k) | _ \<Rightarrow> None)"

definition uuid_field :: "Cbor \<Rightarrow> u64 \<Rightarrow> ServiceError + b16" where
  "uuid_field params k =
    (case field params k of
       Some v \<Rightarrow> map_err (\<lambda>_. bad_params ''collection'') (b16_from_cbor v)
     | None \<Rightarrow> Err (bad_params ''collection''))"

definition revoke_device_credentials_call :: "Principal \<Rightarrow> Cbor \<Rightarrow> i64 \<Rightarrow> Service \<Rightarrow> Service \<times> (ServiceError + Outcome)" where
  "revoke_device_credentials_call p params now s =
    (case rbind (require_cp p) (\<lambda>_. uuid_field params 0) of
       Inl e \<Rightarrow> (s, Err e)
     | Inr d \<Rightarrow>
         apsnd (\<lambda>r. rbind r (\<lambda>_. Ok ((plain (map_of_fields [(0, CBool True)]))\<lparr>oc_credentials_revoked := Some d\<rparr>)))
           (revoke_device_credentials p d now s))"

subsection \<open>Creation\<close>

definition created_reply :: "b32 \<Rightarrow> Region option \<Rightarrow> Outcome" where
  "created_reply chain region =
    plain (map_of_fields ([(0, Uint 1), (1, CBytes (be_bytes 32 chain))]
      @ (case region of Some r \<Rightarrow> [(2, CText (ascii (region_as_str r)))] | None \<Rightarrow> [])))"

text \<open>The request alone: the genesis item, its bytes and the region.\<close>

definition create_params ::
  "(Cbor option \<Rightarrow> ServiceError + Region option) \<Rightarrow> Principal \<Rightarrow> Cbor \<Rightarrow> Service \<Rightarrow> Usage
    \<Rightarrow> Usage \<times> (ServiceError + b16 \<times> Item \<times> bytes \<times> Region option)" where
  "create_params place p params s u =
    (case rbind (require_cp p) (\<lambda>_.
          rbind (uuid_field params 0) (\<lambda>c.
          rbind (refuse_deleted_floor s c) (\<lambda>_.
          case field params 1 of Some (CBytes b) \<Rightarrow> Ok (c, b) | _ \<Rightarrow> Err (bad_params ''genesis'')))) of
       Inl e \<Rightarrow> (u, Err e)
     | Inr (c, b) \<Rightarrow>
         (case budget_wire item_from_cbor b u of
            (u, Inl e) \<Rightarrow> (u, Err e)
          | (u, Inr it) \<Rightarrow>
              (u, rbind (map_err (\<lambda>e. err_msg (err_invalid ''shape'') (schema_error_display e)) (check_shape it)) (\<lambda>_.
                  rbind (place (field params 2)) (\<lambda>region.
                  if it_kind it \<noteq> Policy \<or> it_collection it \<noteq> c \<or> it_seq it \<noteq> Some 1 \<or> it_prev it \<noteq> Some CHAIN_ZERO then
                    Err (err_msg (err_invalid ''shape'') ''genesis item'')
                  else Ok (c, it, b, region))))))"

text \<open>A collection that exists: the retry of its own creation is answered, anything else refused.\<close>

definition create_existing :: "Service \<Rightarrow> b16 \<Rightarrow> bytes \<Rightarrow> b32 \<Rightarrow> CollectionSt \<Rightarrow> ServiceError + Outcome" where
  "create_existing s c b chain ex =
    (if cm_status (st_meta ex) = Gone then Err (err_new CodeGone)
     else
       rbind (refuse_deleted_floor s c) (\<lambda>_.
       case mem_items (sv_cols s c) 0 1 (- 1) False of
         i # _ \<Rightarrow> if si_bytes i = b then Ok (created_reply chain (cm_region (st_meta ex))) else Err (err_invalid ''exists'')
       | [] \<Rightarrow> Err (err_invalid ''exists'')))"

definition created_state :: "b32 \<Rightarrow> bytes \<Rightarrow> CollectionSt \<Rightarrow> CollectionSt" where
  "created_state chain b st =
    st\<lparr>st_meta := (st_meta st)\<lparr>cm_head := 1, cm_head_chain := chain, cm_used_bytes := of_nat (length b)\<rparr>\<rparr>"

definition genesis_row :: "bytes \<Rightarrow> i64 \<Rightarrow> StoredItem" where
  "genesis_row b now = \<lparr>si_seq = 1, si_kind = item_kind_value Policy, si_bytes = b, si_appended_at = now, si_token = None, si_refs = []\<rparr>"

definition empty_state :: "b16 \<Rightarrow> i64 \<Rightarrow> Region option \<Rightarrow> CollectionSt" where
  "empty_state c now region = \<lparr>st_meta = (meta_new c now)\<lparr>cm_region := region\<rparr>, st_acl = []\<rparr>"

definition create_log ::
  "crypto \<Rightarrow> b32 list \<Rightarrow> (Cbor option \<Rightarrow> ServiceError + Region option) \<Rightarrow> Principal \<Rightarrow> Cbor \<Rightarrow> i64 \<Rightarrow> Usage \<Rightarrow> Service
    \<Rightarrow> Usage \<times> Service \<times> (ServiceError + Outcome)" where
  "create_log cr roots place p params now u s =
    (case create_params place p params s u of
       (u, Inl e) \<Rightarrow> (u, s, Err e)
     | (u, Inr (c, it, b, region)) \<Rightarrow>
         let g = sv_cols s c; chain = chain_hash (cr_sha256 cr) b in
         (case mb_state g of
            Some ex \<Rightarrow> (u, s, create_existing s c b chain ex)
          | None \<Rightarrow>
              (case apply_policy_with_budget cr (empty_state c now region) it 1 roots u of
                 (u, Inl e) \<Rightarrow> (u, s, Err e)
               | (u, Inr (st, _)) \<Rightarrow>
                   (u, set_col c (mem_commit [CreateCollection (created_state chain b st), InsertItem (genesis_row b now)] g) s,
                    Ok (created_reply chain region)))))"

subsection \<open>Quotas and status\<close>

fun quota_values :: "Cbor list \<Rightarrow> ServiceError + u64 list" where
  "quota_values [] = Ok []"
| "quota_values (Uint n # xs) = rbind (quota_values xs) (\<lambda>ns. Ok (n # ns))"
| "quota_values (_ # xs) = Err (bad_params ''quota'')"

definition quota_request :: "Principal \<Rightarrow> Cbor \<Rightarrow> Service \<Rightarrow> ServiceError + b16 \<times> u64 list \<times> CollectionMeta" where
  "quota_request p params s =
    rbind (require_cp p) (\<lambda>_.
    rbind (uuid_field params 0) (\<lambda>c.
    rbind (case field params 1 of Some (CArray a) \<Rightarrow> if length a = 4 then quota_values a else Err (bad_params ''quota'')
           | _ \<Rightarrow> Err (bad_params ''quota'')) (\<lambda>q.
    rbind (svc_load (sv_cols s c)) (\<lambda>st.
    if cm_status (st_meta st) = Importing \<and> cm_restore_plan (st_meta st) \<noteq> None then
      Err (err_msg (err_invalid ''restore_settings'') ''strict restore preserves the source quota'')
    else Ok (c, q, st_meta st)))))"

definition set_quota :: "Principal \<Rightarrow> Cbor \<Rightarrow> Service \<Rightarrow> Service \<times> (ServiceError + Outcome)" where
  "set_quota p params s =
    (case quota_request p params s of
       Inl e \<Rightarrow> (s, Err e)
     | Inr (c, q, m) \<Rightarrow>
         let m = m\<lparr>cm_quotas := \<lparr>qu_storage_bytes = q ! 0, qu_items_per_s = max (q ! 1) 1, qu_bytes_per_s = max (q ! 2) 1,
                 qu_burst_items = max (q ! 3) 1\<rparr>\<rparr> in
         ((set_col c (mem_commit [PutMeta m] (sv_cols s c)) s)\<lparr>sv_buckets := bm_remove c (sv_buckets s)\<rparr>,
          Ok (plain (map_of_fields [(0, CBool True)]))))"

definition storage_status :: "Principal \<Rightarrow> Cbor \<Rightarrow> Service \<Rightarrow> ServiceError + Outcome" where
  "storage_status p params s =
    rbind (require_cp p) (\<lambda>_.
    rbind (uuid_field params 0) (\<lambda>c.
    rbind (svc_load (sv_cols s c)) (\<lambda>st.
    rbind (live (cm_status (st_meta st))) (\<lambda>_.
    Ok (plain (map_of_fields [(0, Uint (cm_used_bytes (st_meta st))),
      (1, Uint (qu_storage_bytes (cm_quotas (st_meta st)))), (2, Uint (file_bytes (sv_cols s c) (st_meta st)))]))))))"

subsection \<open>Terminal deletion\<close>

definition record_collection_deletion :: "DeletionRecord \<Rightarrow> Service \<Rightarrow> Service \<times> (ServiceError + DeletionRecord)" where
  "record_collection_deletion r s =
    (case deletion_validate r of
       Inl e \<Rightarrow> (s, Err e)
     | Inr r \<Rightarrow>
         (case map_of (sv_deletions s) (dl_collection r) of
            Some actual \<Rightarrow> (s, if actual \<noteq> r then Err (deletion_conflict actual) else Ok actual)
          | None \<Rightarrow> (s\<lparr>sv_deletions := bm_insert (dl_collection r) r (sv_deletions s)\<rparr>, Ok r)))"

definition bad_deletion :: ServiceError where
  "bad_deletion = err_invalid ''collection_deletion_request''"

definition terminal_params :: "Cbor \<Rightarrow> nat \<Rightarrow> ServiceError + b16" where
  "terminal_params params count =
    (case params of
       CMap fs \<Rightarrow>
         if length fs \<noteq> count \<or> map fst fs \<noteq> map (\<lambda>i. Uint (of_nat i)) [0..<length fs] then Err bad_deletion
         else
           rbind (map_err (\<lambda>_. bad_deletion) (uuid_field params 0)) (\<lambda>c.
           if c = 0 then Err bad_deletion else Ok c)
     | _ \<Rightarrow> Err bad_deletion)"

definition delete_request :: "Cbor \<Rightarrow> ServiceError + DeletionRecord" where
  "delete_request params =
    rbind (terminal_params params 3) (\<lambda>c.
    rbind (map_err (\<lambda>_. bad_deletion) (uuid_field params 1)) (\<lambda>deletion_id.
    rbind (case field params 2 of Some (Uint n) \<Rightarrow> if 0 < n then Ok n else Err bad_deletion | _ \<Rightarrow> Err bad_deletion) (\<lambda>epoch.
    if deletion_id = 0 then Err bad_deletion
    else Ok \<lparr>dl_collection = c, dl_deletion_id = deletion_id, dl_lifecycle_epoch = epoch\<rparr>)))"

definition delete_log :: "Principal \<Rightarrow> Cbor \<Rightarrow> Service \<Rightarrow> Service \<times> (ServiceError + Outcome)" where
  "delete_log p params s =
    (case rbind (require_cp p) (\<lambda>_.
          rbind (delete_request params) (\<lambda>requested.
          rbind (deletion_floor s (dl_collection requested)) (\<lambda>fl.
          rbind (ok_or fl deletion_unavailable) (\<lambda>fl.
          if fl \<noteq> requested then Err (deletion_conflict fl)
          else rbind (svc_load (sv_cols s (dl_collection requested))) (\<lambda>st. Ok (requested, st)))))) of
       Inl e \<Rightarrow> (s, Err e)
     | Inr (requested, st) \<Rightarrow>
         let c = dl_collection requested; m = st_meta st;
             result = map_of_fields [(0, CBool True), (1, deletion_to_cbor requested)];
             notice = \<lparr>cn_collection = c, cn_first = 0, cn_head = cm_head m, cn_head_chain = cm_head_chain m, cn_revoked = [],
               cn_gone = True\<rparr> in
         if cm_id m \<noteq> c then (s, Err deletion_unavailable)
         else if cm_status m = Gone then
           (s, case cm_deletion m of
                 Some actual \<Rightarrow> if actual = requested then Ok (plain result) else Err (deletion_conflict actual)
               | None \<Rightarrow> Err (err_reason CodeGone ''collection_deletion_receipt_missing''))
         else if cm_deletion m \<noteq> None then (s, Err deletion_unavailable)
         else
           (set_col c (mem_commit [PutMeta (m\<lparr>cm_status := Gone, cm_deletion := Some requested\<rparr>), Notify notice] (sv_cols s c)) s,
            Ok ((plain result)\<lparr>oc_notice := Some notice\<rparr>)))"

fun status_code :: "Status \<Rightarrow> u64" where
  "status_code Live = 1"
| "status_code Importing = 2"
| "status_code Gone = 3"

definition log_terminal_status :: "Principal \<Rightarrow> Cbor \<Rightarrow> Service \<Rightarrow> ServiceError + Outcome" where
  "log_terminal_status p params s =
    rbind (require_cp p) (\<lambda>_.
    rbind (terminal_params params 1) (\<lambda>c.
    rbind (case mb_state (sv_cols s c) of
        None \<Rightarrow> Ok (0, CNull)
      | Some st \<Rightarrow>
          if cm_id (st_meta st) \<noteq> c then Err deletion_unavailable
          else
            let status = status_code (cm_status (st_meta st)) in
            (case cm_deletion (st_meta st) of
               None \<Rightarrow> Ok (status, CNull)
             | Some r \<Rightarrow>
                 rbind (deletion_validate r) (\<lambda>_.
                 if dl_collection r \<noteq> c \<or> status \<noteq> 3 then Err deletion_unavailable
                 else Ok (status, deletion_to_cbor r)))) (\<lambda>(status, receipt).
    Ok (plain (map_of_fields [(0, Uint 1), (1, b16_to_cbor c), (2, Uint status), (3, receipt)])))))"

end
