(* ===== verification/LogTxn.thy ===== *)
theory LogTxn
  imports LogAdmin
begin

text \<open>
  Every change of a collection is one of nine transactions, each taken under the collection's
  lock.  They form a step relation on collections; the invariant below holds of the empty
  collection and is kept by every step, so it holds of every collection a service can reach.
\<close>

subsection \<open>The transactions\<close>

definition genesis_ok :: "b16 \<Rightarrow> bytes \<Rightarrow> Item \<Rightarrow> bool" where
  "genesis_ok c b it \<longleftrightarrow> item_from_bytes b = Inr it \<and> check_shape it = Inr () \<and> it_kind it = Policy \<and> it_collection it = c
     \<and> it_seq it = Some 1 \<and> it_prev it = Some CHAIN_ZERO \<and> length b \<le> MAX_BYTES"

definition compacted_meta :: "MemCollection \<Rightarrow> u64 \<Rightarrow> CollectionMeta \<Rightarrow> CollectionMeta" where
  "compacted_meta g cp m = m\<lparr>cm_retained_from := cp + 1,
     cm_used_bytes := sat_sub (cm_used_bytes m) (mem_entry_bytes_through g cp)\<rparr>"

inductive txn :: "crypto \<Rightarrow> b32 list \<Rightarrow> b16 \<Rightarrow> MemCollection \<Rightarrow> MemCollection \<Rightarrow> bool" for cr roots c where
  create: "mb_state g = None \<Longrightarrow> genesis_ok c b it \<Longrightarrow>
     apply_policy_payload cr (empty_state c now region) it 1 roots payload = Inr (st, rv) \<Longrightarrow>
     txn cr roots c g (mem_commit [CreateCollection (created_state (chain_hash (cr_sha256 cr) b) b st), InsertItem (genesis_row b now)] g)"
| append: "lands cr roots p ps now g items st ws revoked prev \<Longrightarrow> ap_collection ps = c \<Longrightarrow>
     append_commit p ps now items st ws revoked prev g = (g', oc) \<Longrightarrow> txn cr roots c g g'"
| object: "mb_state g = Some st \<Longrightarrow> cm_status (st_meta st) \<noteq> Gone \<Longrightarrow> \<not> committed_at g (om_address om) \<Longrightarrow> om_committed om \<Longrightarrow>
     charge_object g om (st_meta st) = Inr m \<Longrightarrow> txn cr roots c g (mem_commit [PutMeta m, PutObject om] g)"
| snapshot: "mb_state g = Some st \<Longrightarrow> sr_seq row \<le> cm_head (st_meta st) \<Longrightarrow> sr_seq row \<noteq> 0 \<Longrightarrow>
     list_all (\<lambda>x. sr_seq x < sr_seq row) (take 1 (mem_snapshots g)) \<Longrightarrow> sr_manifest row \<in> set (sr_refs row) \<Longrightarrow>
     list_all (committed_at g) (sr_refs row) \<Longrightarrow>
     txn cr roots c g (mem_commit (InsertSnapshot row # map (\<lambda>x. DeleteSnapshot (sr_seq x)) (drop (RETAINED_SNAPSHOTS - 1) (mem_snapshots g))) g)"
| endorse: "txn cr roots c g (mem_commit [EndorseSnapshot q] g)"
| compact: "mb_state g = Some st \<Longrightarrow> cm_retained_from (st_meta st) \<le> compaction_point st g now \<Longrightarrow>
     txn cr roots c g (mem_commit [DeleteEntriesThrough (compaction_point st g now), PruneTokens now,
       PutMeta (compacted_meta g (compaction_point st g now) (st_meta st))] g)"
| gc: "mb_state g = Some st \<Longrightarrow> cm_status (st_meta st) = Live \<Longrightarrow> dead = filter P (mem_gc_candidates g before limit) \<Longrightarrow>
     txn cr roots c g (mem_commit (map (\<lambda>x. DeleteObject (om_address x)) dead @ [PutMeta (gc_meta g dead (st_meta st))]) g)"
| quota: "mb_state g = Some st \<Longrightarrow> txn cr roots c g (mem_commit [PutMeta ((st_meta st)\<lparr>cm_quotas := q\<rparr>)] g)"
| delete: "mb_state g = Some st \<Longrightarrow> cm_status (st_meta st) \<noteq> Gone \<Longrightarrow> dl_collection r = c \<Longrightarrow>
     txn cr roots c g (mem_commit [PutMeta ((st_meta st)\<lparr>cm_status := Gone, cm_deletion := Some r\<rparr>), Notify nt] g)"

inductive_cases txnE [consumes 1, case_names create append object snapshot endorse compact gc quota delete]: "txn cr roots c g g'"

lemma mem_commit_ok: "mem_ok g \<Longrightarrow> mem_ok (mem_commit ws g)"
  by (simp add: mem_commit_def mem.commit_invar)

lemma txn_mem_ok:
  assumes "txn cr roots c g g'" "mem_ok g"
  shows "mem_ok g'"
  using assms by cases (auto simp: append_commit_def Let_def intro: mem_commit_ok)

subsection \<open>The invariant of a collection\<close>

text \<open>A stored row is the item its bytes decode to, at the position it claims.\<close>

definition row_ok :: "b16 \<Rightarrow> u64 \<Rightarrow> StoredItem \<Rightarrow> Item \<Rightarrow> bool" where
  "row_ok c k i it \<longleftrightarrow> item_from_bytes (si_bytes i) = Inr it \<and> check_shape it = Inr () \<and> is_log_item (it_kind it)
     \<and> it_collection it = c \<and> it_seq it = Some k \<and> i = stored_item k it (si_bytes i) (si_appended_at i)
     \<and> length (si_bytes i) \<le> (if k = 1 then MAX_BYTES else unat MAX_ITEM_BYTES)"

text \<open>The log: positions up to the head, gap-free from \<open>retained_from\<close> on, linked by the chain hash.\<close>

definition log_ok :: "crypto \<Rightarrow> b16 \<Rightarrow> CollectionMeta \<Rightarrow> (u64 \<rightharpoonup> StoredItem) \<Rightarrow> bool" where
  "log_ok cr c m items \<longleftrightarrow>
     1 \<le> cm_retained_from m \<and> cm_retained_from m \<le> cm_head m \<and> unat (cm_head m) < 2 ^ 64 - 1
     \<and> (\<forall>k i. items k = Some i \<longrightarrow> 1 \<le> k \<and> k \<le> cm_head m \<and> (\<exists>it. row_ok c k i it))
     \<and> (\<forall>k. cm_retained_from m \<le> k \<and> k \<le> cm_head m \<longrightarrow> items k \<noteq> None)
     \<and> (\<forall>k i j it. items k = Some i \<and> items (k + 1) = Some j \<and> row_ok c (k + 1) j it
          \<longrightarrow> it_prev it = Some (chain_hash (cr_sha256 cr) (si_bytes i)))
     \<and> (\<exists>i. items (cm_head m) = Some i \<and> cm_head_chain m = chain_hash (cr_sha256 cr) (si_bytes i))"

lemma log_okI:
  assumes "1 \<le> cm_retained_from m" "cm_retained_from m \<le> cm_head m" "unat (cm_head m) < 2 ^ 64 - 1"
    and "\<And>k i. items k = Some i \<Longrightarrow> 1 \<le> k \<and> k \<le> cm_head m \<and> (\<exists>it. row_ok c k i it)"
    and "\<And>k. cm_retained_from m \<le> k \<Longrightarrow> k \<le> cm_head m \<Longrightarrow> items k \<noteq> None"
    and "\<And>k i j it. items k = Some i \<Longrightarrow> items (k + 1) = Some j \<Longrightarrow> row_ok c (k + 1) j it \<Longrightarrow>
        it_prev it = Some (chain_hash (cr_sha256 cr) (si_bytes i))"
    and "\<exists>i. items (cm_head m) = Some i \<and> cm_head_chain m = chain_hash (cr_sha256 cr) (si_bytes i)"
  shows "log_ok cr c m items"
  using assms unfolding log_ok_def by blast

lemma log_okD:
  assumes "log_ok cr c m items"
  shows "1 \<le> cm_retained_from m" "cm_retained_from m \<le> cm_head m" "unat (cm_head m) < 2 ^ 64 - 1"
    "items k = Some i \<Longrightarrow> 1 \<le> k" "items k = Some i \<Longrightarrow> k \<le> cm_head m" "items k = Some i \<Longrightarrow> \<exists>it. row_ok c k i it"
    "cm_retained_from m \<le> k \<Longrightarrow> k \<le> cm_head m \<Longrightarrow> \<exists>i. items k = Some i"
    "items k = Some i \<Longrightarrow> items (k + 1) = Some j \<Longrightarrow> row_ok c (k + 1) j it \<Longrightarrow> it_prev it = Some (chain_hash (cr_sha256 cr) (si_bytes i))"
    "\<exists>i. items (cm_head m) = Some i \<and> cm_head_chain m = chain_hash (cr_sha256 cr) (si_bytes i)"
  using assms unfolding log_ok_def by blast+

text \<open>Garbage collection safety: what an item or a snapshot refers to is a committed object.\<close>

definition refs_ok :: "MemCollection \<Rightarrow> bool" where
  "refs_ok g \<longleftrightarrow> (\<forall>a x. map_of (mb_objects g) a = Some x \<longrightarrow> om_committed x)
     \<and> (\<forall>k i. map_of (mb_items g) k = Some i \<longrightarrow> set (si_refs i) \<subseteq> dom (map_of (mb_objects g)))
     \<and> (\<forall>k r. map_of (mb_snapshots g) k = Some r \<longrightarrow> set (sr_refs r) \<subseteq> dom (map_of (mb_objects g)))"

lemma live_refs:
  "map_of (mb_items g) k = Some i \<Longrightarrow> a \<in> set (si_refs i) \<Longrightarrow> a \<in> mem_live_refs g"
  "map_of (mb_snapshots g) q = Some r \<Longrightarrow> a \<in> set (sr_refs r) \<Longrightarrow> a \<in> mem_live_refs g"
  by (force simp: mem_live_refs_def dest: map_of_SomeD)+

lemma refs_ok_step:
  assumes "refs_ok g"
    and obj: "\<And>a x. map_of (mb_objects g') a = Some x \<Longrightarrow> om_committed x"
    and items: "\<And>k i. map_of (mb_items g') k = Some i \<Longrightarrow> map_of (mb_items g) k = Some i"
    and snaps: "\<And>k r. map_of (mb_snapshots g') k = Some r \<Longrightarrow>
        (\<exists>r0. map_of (mb_snapshots g) k = Some r0 \<and> sr_refs r = sr_refs r0) \<or> set (sr_refs r) \<subseteq> dom (map_of (mb_objects g'))"
    and keep: "\<And>a. a \<in> mem_live_refs g \<Longrightarrow> a \<in> dom (map_of (mb_objects g)) \<Longrightarrow> a \<in> dom (map_of (mb_objects g'))"
  shows "refs_ok g'"
proof -
  have 1: "set (si_refs i) \<subseteq> dom (map_of (mb_objects g'))" if "map_of (mb_items g') k = Some i" for k i
    using assms(1) items [OF that] keep live_refs(1) by (meson refs_ok_def subset_iff)
  have 2: "set (sr_refs r) \<subseteq> dom (map_of (mb_objects g'))" if "map_of (mb_snapshots g') k = Some r" for k r
    using snaps [OF that]
  proof
    assume "\<exists>r0. map_of (mb_snapshots g) k = Some r0 \<and> sr_refs r = sr_refs r0"
    then obtain r0 where r0: "map_of (mb_snapshots g) k = Some r0" "sr_refs r = sr_refs r0" by blast
    then have "set (sr_refs r) \<subseteq> dom (map_of (mb_objects g))" using assms(1) by (simp add: refs_ok_def)
    then show ?thesis using keep live_refs(2) [OF r0(1)] r0(2) by auto
  qed
  show ?thesis using obj 1 2 by (auto simp: refs_ok_def)
qed

definition snaps_ok :: "CollectionMeta \<Rightarrow> MemCollection \<Rightarrow> bool" where
  "snaps_ok m g \<longleftrightarrow> length (mb_snapshots g) \<le> RETAINED_SNAPSHOTS
     \<and> (\<forall>k r. map_of (mb_snapshots g) k = Some r \<longrightarrow> 1 \<le> k \<and> k \<le> cm_head m \<and> sr_manifest r \<in> set (sr_refs r))"

definition col_inv :: "crypto \<Rightarrow> b16 \<Rightarrow> MemCollection \<Rightarrow> bool" where
  "col_inv cr c g \<longleftrightarrow> mem_ok g
     \<and> (case mb_state g of
          None \<Rightarrow> g = mem_empty
        | Some st \<Rightarrow> state_ok st \<and> has_owner st \<and> cm_id (st_meta st) = c \<and> log_ok cr c (st_meta st) (map_of (mb_items g))
            \<and> refs_ok g \<and> snaps_ok (st_meta st) g)"

lemma col_inv_empty: "col_inv cr c mem_empty"
  by (simp add: col_inv_def mem_ok_empty) (simp add: mem_empty_def)

lemma col_invD:
  assumes "col_inv cr c g" "mb_state g = Some st"
  shows "mem_ok g" "state_ok st" "has_owner st" "cm_id (st_meta st) = c" "log_ok cr c (st_meta st) (map_of (mb_items g))"
    "refs_ok g" "snaps_ok (st_meta st) g"
  using assms by (auto simp: col_inv_def)

lemma col_invI:
  assumes "mem_ok g" "mb_state g = Some st" "state_ok st" "has_owner st" "cm_id (st_meta st) = c"
    "log_ok cr c (st_meta st) (map_of (mb_items g))" "refs_ok g" "snaps_ok (st_meta st) g"
  shows "col_inv cr c g"
  using assms by (simp add: col_inv_def)

text \<open>A row of fields the log and the snapshots do not depend on.\<close>

lemma log_ok_meta:
  "log_ok cr c m items \<Longrightarrow> cm_head n = cm_head m \<Longrightarrow> cm_head_chain n = cm_head_chain m \<Longrightarrow> cm_retained_from n = cm_retained_from m
    \<Longrightarrow> log_ok cr c n items"
  by (simp add: log_ok_def)

lemma snaps_ok_meta: "snaps_ok m g \<Longrightarrow> cm_head m \<le> cm_head n \<Longrightarrow> mb_snapshots g' = mb_snapshots g \<Longrightarrow> snaps_ok n g'"
  by (auto simp: snaps_ok_def) force

subsection \<open>Creation\<close>

lemma genesis_row_ok:
  assumes "genesis_ok c b it"
  shows "row_ok c 1 (genesis_row b now) it"
  using assms
  by (auto simp: genesis_ok_def row_ok_def genesis_row_def stored_item_def check_shape_def is_log_item_def Let_def split: if_splits)

lemma create_inv:
  assumes "mb_state g = None" "genesis_ok c b it" "col_inv cr c g"
    and run: "apply_policy_payload cr (empty_state c now region) it 1 roots payload = Inr (st, rv)"
  shows "col_inv cr c (mem_commit [CreateCollection (created_state (chain_hash (cr_sha256 cr) b) b st), InsertItem (genesis_row b now)] g)"
    (is "col_inv cr c ?g'")
proof (rule col_invI)
  have g: "g = mem_empty" using assms(1,3) by (simp add: col_inv_def)
  let ?st = "created_state (chain_hash (cr_sha256 cr) b) b st"
  have e: "state_ok (empty_state c now region)"
    by (simp add: state_ok_def acl_ok_def empty_state_def meta_new_def)
  have pos: "frame_rel (empty_state c now region, []) (st, rv)" using frame.apply_policy_R [OF run] .
  have "acl_rel (empty_state c now region, []) (st, rv)" using acl.apply_policy_R [OF run] .
  with e have ok: "state_ok st" by (simp add: acl_rel_def)
  have own: "has_owner st" using keeps_owner [OF run e] by simp
  show "mem_ok ?g'" by (simp add: g mem_commit_ok mem_ok_empty)
  show "mb_state ?g' = Some ?st" by (simp add: g mem_commit_def mem_write_def genesis_row_def)
  show "state_ok ?st" "has_owner ?st" using ok own by (simp_all add: created_state_def state_ok_def has_owner_def)
  show "cm_id (st_meta ?st) = c" using pos by (simp add: frame_rel_def created_state_def empty_state_def meta_new_def Let_def)
  have items: "map_of (mb_items ?g') = [1 \<mapsto> genesis_row b now]"
    by (auto simp: g mem_commit_def mem_write_def genesis_row_def mem_empty_def)
  have rf: "cm_retained_from (st_meta st) = 1" using pos by (simp add: frame_rel_def empty_state_def meta_new_def Let_def)
  show "log_ok cr c (st_meta ?st) (map_of (mb_items ?g'))"
    unfolding items using genesis_row_ok [OF assms(2)] rf
    by (auto simp: log_ok_def created_state_def genesis_row_def split: if_splits)
  show "refs_ok ?g'" by (auto simp: refs_ok_def g mem_commit_def mem_write_def genesis_row_def mem_empty_def split: if_splits)
  show "snaps_ok (st_meta ?st) ?g'" by (simp add: snaps_ok_def g mem_commit_def mem_write_def genesis_row_def mem_empty_def)
qed

subsection \<open>Appending\<close>

lemma parsed_from_nth:
  "parsed_from p c seq bs its \<Longrightarrow> j < length bs \<Longrightarrow> parsed p c (seq + of_nat j) (bs ! j) (its ! j)"
proof (induction p c seq bs its arbitrary: j rule: parsed_from.induct)
  case (2 p c seq b bs it its)
  then show ?case by (cases j) (auto simp: ac_simps)
qed auto

lemma parsed_row:
  assumes "parsed p c k b it" "k \<noteq> 1"
  shows "row_ok c k (stored_item k it b now) it"
  using assms by (auto simp: parsed_def row_ok_def stored_item_def)

text \<open>What a landed batch adds: a block of rows directly above the head, linked to it.\<close>

lemma append_rows:
  assumes lands: "lands cr roots p ps now g items st ws revoked prev"
    and j: "j < length (ap_items ps)" and k: "k = cm_head (st_meta st) + 1 + of_nat j"
  shows "unat k = unat (cm_head (st_meta st)) + 1 + j" "parsed p (ap_collection ps) k (ap_items ps ! j) (items ! j)"
    "it_prev (items ! j) = Some (if j = 0 then cm_head_chain (st_meta st) else chain_hash (cr_sha256 cr) (ap_items ps ! (j - 1)))"
proof -
  note h = lands_head [OF lands]
  have "unat (ap_expect_seq ps + of_nat j) = unat (ap_expect_seq ps) + j"
    using h(2,4) j by (simp add: unat_word_ariths unat_of_nat take_bit_eq_mod)
  then show "unat k = unat (cm_head (st_meta st)) + 1 + j" using h(1,2) k by simp
  show "parsed p (ap_collection ps) k (ap_items ps ! j) (items ! j)"
    using parsed_from_nth [OF _ j] lands h(1) k by (simp add: lands_def)
  have "ap_expect_prev ps = cm_head_chain (st_meta st)" using append_gate_Ok(7) lands by (auto simp: lands_def)
  then show "it_prev (items ! j) = Some (if j = 0 then cm_head_chain (st_meta st) else chain_hash (cr_sha256 cr) (ap_items ps ! (j - 1)))"
    using lands_chain(1) [OF lands] j by (simp add: chained_def)
qed

lemma append_items:
  assumes "append_commit p ps now items st ws revoked prev g = (g', oc)"
    and lands: "lands cr roots p ps now g items st ws revoked prev" and "mem_ok g" "state_ok st"
    and "map_of (mb_items g') k = Some i"
  obtains (old) "map_of (mb_items g) k = Some i" "\<not> (cm_head (st_meta st) < k \<and> unat k \<le> unat (cm_head (st_meta st)) + length (ap_items ps))"
  | (new) j where "j < length (ap_items ps)" "k = cm_head (st_meta st) + 1 + of_nat j"
      "i = stored_item k (items ! j) (ap_items ps ! j) now"
proof -
  note h = lands_head [OF lands]
  have look: "map_of (mb_items g') k = (if cm_head (st_meta st) < k \<and> unat k \<le> unat (cm_head (st_meta st)) + length (ap_items ps)
       then Some (stored_item k (items ! (unat k - (unat (cm_head (st_meta st)) + 1))) (ap_items ps ! (unat k - (unat (cm_head (st_meta st)) + 1))) now)
       else map_of (mb_items g) k)"
    using append_commit_effect(3) [OF assms(1-4), of k] h(2) by (auto simp: word_le_nat_alt word_less_nat_alt less_eq_Suc_le)
  show thesis
  proof (cases "cm_head (st_meta st) < k \<and> unat k \<le> unat (cm_head (st_meta st)) + length (ap_items ps)")
    case True
    define j where "j = unat k - (unat (cm_head (st_meta st)) + 1)"
    have j: "j < length (ap_items ps)" "unat k = unat (cm_head (st_meta st)) + 1 + j"
      using True by (auto simp: j_def word_less_nat_alt)
    then have "k = cm_head (st_meta st) + 1 + of_nat j" using append_rows(1) [OF lands j(1) refl] by (metis word_unat_eq_iff)
    then show thesis using new [OF j(1)] look True assms(5) by (simp add: j_def)
  next
    case False
    from look have "map_of (mb_items g') k = map_of (mb_items g) k" unfolding if_not_P [OF False] .
    then show thesis using old [OF _ False] assms(5) by simp
  qed
qed

lemma append_log_ok:
  assumes commit: "append_commit p ps now items st ws revoked prev g = (g', oc)"
    and lands: "lands cr roots p ps now g items st ws revoked prev" and ok: "mem_ok g" "state_ok st"
    and log: "log_ok cr (ap_collection ps) (st_meta st) (map_of (mb_items g))"
  shows "log_ok cr (ap_collection ps) (landed_meta ps ws prev) (map_of (mb_items g'))"
proof -
  let ?h = "cm_head (st_meta st)" and ?n = "length (ap_items ps)" and ?m = "landed_meta ps ws prev" and ?c = "ap_collection ps"
  note h = lands_head [OF lands] and rows = append_rows [OF lands]
  have rf: "cm_retained_from ?m = cm_retained_from (st_meta st)"
    using position.lands_Q [OF lands] by (simp add: landed_meta_def position_rel_def Let_def)
  have new: "map_of (mb_items g') (?h + 1 + of_nat j) = Some (stored_item (?h + 1 + of_nat j) (items ! j) (ap_items ps ! j) now)"
    if "j < ?n" for j
    using append_commit_effect(3) [OF commit lands ok, of "?h + 1 + of_nat j"] rows(1) [OF that refl] h(2) that
    by (simp add: word_le_nat_alt)
  have old: "map_of (mb_items g') k = map_of (mb_items g) k" if "k \<le> ?h" for k
    using append_commit_effect(3) [OF commit lands ok, of k] h(2) that by (auto simp: word_le_nat_alt)
  have top: "?h \<le> cm_head ?m" using h(3) by (simp add: word_le_nat_alt)
  have new_row: "row_ok ?c k i (items ! j)" if "j < ?n" "k = ?h + 1 + of_nat j" "i = stored_item k (items ! j) (ap_items ps ! j) now" for j k i
  proof -
    have "k \<noteq> 1" using rows(1) [OF that(1,2)] log_okD(1,2) [OF log] by (auto simp: word_le_nat_alt)
    then show ?thesis using parsed_row [OF rows(2) [OF that(1,2)]] that(3) by simp
  qed
  have bounds: "1 \<le> k \<and> k \<le> cm_head ?m \<and> (\<exists>it. row_ok ?c k i it)" if "map_of (mb_items g') k = Some i" for k i
  proof (cases rule: append_items [OF commit lands ok that, case_names old new])
    case old
    then show ?thesis using log_okD(4-6) [OF log old(1)] top by (meson order_trans)
  next
    case (new j)
    then show ?thesis using new_row [OF new] rows(1) [OF new(1,2)] h(3) by (auto simp: word_le_nat_alt)
  qed
  have kept: "map_of (mb_items g') k \<noteq> None" if "cm_retained_from ?m \<le> k" "k \<le> cm_head ?m" for k
  proof (cases "k \<le> ?h")
    case True
    then show ?thesis using old log_okD(7) [OF log] that(1) rf by simp
  next
    case False
    define j where "j = unat k - (unat ?h + 1)"
    have j: "j < ?n" "unat k = unat ?h + 1 + j" using False that(2) h(3) by (auto simp: j_def word_le_nat_alt)
    then have "k = ?h + 1 + of_nat j" using rows(1) [OF j(1) refl] by (metis word_unat_eq_iff)
    then show ?thesis using new [OF j(1)] by simp
  qed
  have linked: "it_prev it = Some (chain_hash (cr_sha256 cr) (si_bytes i))"
    if "map_of (mb_items g') k = Some i" "map_of (mb_items g') (k + 1) = Some i'" "row_ok ?c (k + 1) i' it" for k i i' it
  proof -
    have "k + 1 \<noteq> 0" using bounds [OF that(2)] by auto
    then have k: "unat (k + 1) = unat k + 1" by (simp add: unatSuc add.commute)
    show ?thesis
    proof (cases rule: append_items [OF commit lands ok that(2), case_names below above])
      case below
      then have "k + 1 \<le> ?h" using log_okD(5) [OF log] by blast
      then have "k \<le> ?h" using k by (simp add: word_le_nat_alt)
      then show ?thesis using log_okD(8) [OF log _ below(1) that(3)] old that(1) by simp
    next
      case (above j)
      have it: "it = items ! j" using new_row [OF above] that(3) by (simp add: row_ok_def)
      have uk: "unat k = unat ?h + j" using rows(1) [OF above(1,2)] k by simp
      have "chain_hash (cr_sha256 cr) (si_bytes i)
          = (if j = 0 then cm_head_chain (st_meta st) else chain_hash (cr_sha256 cr) (ap_items ps ! (j - 1)))"
      proof (cases j)
        case 0
        then have "k = ?h" using uk by (simp add: word_unat_eq_iff)
        then show ?thesis using 0 old [of ?h] that(1) log_okD(9) [OF log] by auto
      next
        case (Suc j')
        then have "k = ?h + 1 + of_nat j'" using uk rows(1) [of j', OF _ refl] above(1) by (simp add: word_unat_eq_iff)
        then show ?thesis using new [of j'] Suc above(1) that(1) by (auto simp: stored_item_def)
      qed
      then show ?thesis using it rows(3) [OF above(1,2)] by simp
    qed
  qed
  have last: "\<exists>i. map_of (mb_items g') (cm_head ?m) = Some i \<and> cm_head_chain ?m = chain_hash (cr_sha256 cr) (si_bytes i)"
  proof -
    have n: "?n - 1 < ?n" using lands_chain(4) [OF lands] by (cases "ap_items ps") auto
    have top: "cm_head ?m = ?h + 1 + of_nat (?n - 1)" using n by (simp add: landed_meta_def h(1) of_nat_diff)
    have "cm_head_chain ?m = prev" by (simp add: landed_meta_def)
    then show ?thesis unfolding top using new [OF n] lands_chain(2,4) [OF lands] by (simp add: stored_item_def last_conv_nth)
  qed
  have "unat (cm_head ?m) < 2 ^ 64 - 1" "1 \<le> cm_retained_from ?m" "cm_retained_from ?m \<le> cm_head ?m"
    using h(3,4) rf log_okD(1,2) [OF log] top by auto
  then show ?thesis unfolding log_ok_def using bounds kept linked last by blast
qed

lemma append_inv:
  assumes lands: "lands cr roots p ps now g items st ws revoked prev" and c: "ap_collection ps = c"
    and commit: "append_commit p ps now items st ws revoked prev g = (g', oc)" and inv: "col_inv cr c g"
  shows "col_inv cr c g'"
proof -
  have st: "mb_state g = Some st" using append_gate_Ok(1) lands by (auto simp: lands_def)
  note I = col_invD [OF inv st]
  note eff = append_commit_effect [OF commit lands I(1,2)]
  have same: "cm_id (st_meta ws) = cm_id (st_meta st)" using position.lands_Q [OF lands] by (simp add: position_rel_def Let_def)
  have "devices_rel st ws" "owners_rel st ws" using devices.lands_Q [OF lands] owners.lands_Q [OF lands] .
  then have ws: "state_ok ws" "has_owner ws"
    using I(2,3) devices_relD(1) by (auto simp: owners_rel_def owner_rel_def state_ok_def)
  show ?thesis
  proof (rule col_invI [OF eff(1,2)])
    show "state_ok (ws\<lparr>st_meta := landed_meta ps ws prev\<rparr>)" "has_owner (ws\<lparr>st_meta := landed_meta ps ws prev\<rparr>)"
      using ws by (simp_all add: state_ok_def has_owner_def landed_meta_def)
    show "cm_id (st_meta (ws\<lparr>st_meta := landed_meta ps ws prev\<rparr>)) = c" using same I(4) by (simp add: landed_meta_def)
    show "log_ok cr c (st_meta (ws\<lparr>st_meta := landed_meta ps ws prev\<rparr>)) (map_of (mb_items g'))"
      using append_log_ok [OF commit lands I(1,2)] I(5) c by simp
    show "snaps_ok (st_meta (ws\<lparr>st_meta := landed_meta ps ws prev\<rparr>)) g'"
      using snaps_ok_meta [OF I(7)] lands_head(3) [OF lands] eff(5) by (simp add: word_le_nat_alt)
    have "set (si_refs i) \<subseteq> dom (map_of (mb_objects g))" if "map_of (mb_items g') k = Some i" for k i
    proof (cases rule: append_items [OF commit lands I(1,2) that, case_names old new])
      case old
      then show ?thesis using I(6) by (auto simp: refs_ok_def)
    next
      case (new j)
      have "items ! j \<in> set items" using new(1) lands_chain(3) [OF lands] by simp
      then show ?thesis
        using append_refs_Ok [of g items "()" "items ! j"] lands new(3)
        by (auto simp: lands_def stored_item_def split: option.splits)
    qed
    then show "refs_ok g'" using I(6) eff(4,5) by (auto simp: refs_ok_def)
  qed
qed

subsection \<open>Objects\<close>

lemma charge_object_Ok:
  assumes "charge_object g om m = Inr n"
  shows "n = m\<lparr>cm_used_bytes := cm_used_bytes m + om_size om, cm_file_bytes := cm_file_bytes n\<rparr>"
    "unat (cm_used_bytes m) + unat (om_size om) < 2 ^ 64" "cm_used_bytes m + om_size om \<le> object_limit m"
    "cm_file_bytes n = (if om_kind om = item_kind_value BlobPart then Some (file_bytes g m + om_size om) else cm_file_bytes m)"
    "om_kind om = item_kind_value BlobPart \<Longrightarrow> unat (file_bytes g m) + unat (om_size om) < 2 ^ 64"
  using assms by (auto simp: charge_object_def file_bytes_def Let_def not_le not_less split: if_splits)

lemma object_inv:
  assumes "mb_state g = Some st" "om_committed om" "charge_object g om (st_meta st) = Inr m" "col_inv cr c g"
  shows "col_inv cr c (mem_commit [PutMeta m, PutObject om] g)" (is "col_inv cr c ?g'")
proof -
  note I = col_invD [OF assms(4,1)] and m = charge_object_Ok(1) [OF assms(3)]
  have k: "cm_head m = cm_head (st_meta st)" "cm_head_chain m = cm_head_chain (st_meta st)"
    "cm_retained_from m = cm_retained_from (st_meta st)" "cm_id m = cm_id (st_meta st)" "cm_members m = cm_members (st_meta st)"
    "cm_revoked_cp_keys m = cm_revoked_cp_keys (st_meta st)" by (subst m; simp)+
  have g': "mb_state ?g' = Some (st\<lparr>st_meta := m\<rparr>)" "mb_items ?g' = mb_items g" "mb_snapshots ?g' = mb_snapshots g"
    "map_of (mb_objects ?g') = (map_of (mb_objects g))(om_address om \<mapsto> om)"
    using assms(1) I(1) by (simp_all add: mem_commit_def mem_write_def mem_ok_def)
  show ?thesis
  proof (rule col_invI [OF mem_commit_ok [OF I(1)] g'(1)])
    show "state_ok (st\<lparr>st_meta := m\<rparr>)" "has_owner (st\<lparr>st_meta := m\<rparr>)" "cm_id (st_meta (st\<lparr>st_meta := m\<rparr>)) = c"
      using I(2-4) k by (simp_all add: state_ok_def has_owner_def)
    show "log_ok cr c (st_meta (st\<lparr>st_meta := m\<rparr>)) (map_of (mb_items ?g'))" using log_ok_meta [OF I(5)] k g'(2) by simp
    show "snaps_ok (st_meta (st\<lparr>st_meta := m\<rparr>)) ?g'" using snaps_ok_meta [OF I(7)] k g'(3) by simp
    show "refs_ok ?g'"
      by (rule refs_ok_step [OF I(6)]) (use I(6) assms(2) in \<open>auto simp: g' refs_ok_def split: if_splits\<close>)
  qed
qed

subsection \<open>Snapshots and compaction\<close>

lemma commit_delete_snapshots:
  "mem_ok g \<Longrightarrow> map_of (mb_snapshots (fold mem_write (map (\<lambda>x. DeleteSnapshot (sr_seq x)) xs) g))
      = (\<lambda>k. if k \<in> sr_seq ` set xs then None else map_of (mb_snapshots g) k)
    \<and> mb_state (fold mem_write (map (\<lambda>x. DeleteSnapshot (sr_seq x)) xs) g) = mb_state g
    \<and> mb_items (fold mem_write (map (\<lambda>x. DeleteSnapshot (sr_seq x)) xs) g) = mb_items g
    \<and> mb_objects (fold mem_write (map (\<lambda>x. DeleteSnapshot (sr_seq x)) xs) g) = mb_objects g"
proof (induction xs arbitrary: g)
  case (Cons x xs)
  have "mem_ok (mem_write (DeleteSnapshot (sr_seq x)) g)" using Cons.prems mem.write_invar by blast
  from Cons.IH [OF this] show ?case by (auto simp: mem_write_def fun_eq_iff)
qed simp

lemma max_or_0_le: "list_all (\<lambda>x. x \<le> b) xs \<Longrightarrow> max_or_0 xs \<le> b"
  unfolding max_or_0_def by (induction xs) auto

lemma snapshot_le_head:
  assumes "mem_ok g" "snaps_ok m g" "x \<in> set (mem_snapshots g)"
  shows "1 \<le> sr_seq x" "sr_seq x \<le> cm_head m"
proof -
  obtain k where "(k, x) \<in> set (mb_snapshots g)" using assms(3) by (auto simp: mem_snapshots_def)
  then have "map_of (mb_snapshots g) k = Some x" using assms(1) by (simp add: mem_ok_def bm_lookup_mem)
  then show "1 \<le> sr_seq x" "sr_seq x \<le> cm_head m" using assms(1,2) by (auto simp: mem_ok_def snaps_ok_def)
qed

text \<open>Compaction stays well below the head: the newest endorsed snapshot lies at or below it, and the
  grace distance below that is kept.\<close>

lemma compaction_point_bound:
  assumes "mem_ok g" "snaps_ok (st_meta st) g" "1 \<le> compaction_point st g now"
  shows "unat (compaction_point st g now) + 10000 \<le> unat (cm_head (st_meta st))"
proof -
  let ?P = "\<lambda>x. sr_endorsed x \<or> (personal_devices st \<le> 1 \<and> SELF_ENDORSE_AGE_MS <s now - sr_created_at x)"
  define s_e where "s_e = max_or_0 (map sr_seq (filter ?P (mem_snapshots g)))"
  have "s_e \<le> cm_head (st_meta st)"
    unfolding s_e_def by (rule max_or_0_le) (auto simp: list_all_iff snapshot_le_head [OF assms(1,2)])
  moreover have cp: "compaction_point st g now \<le> sat_sub s_e COMPACTION_GRACE_ENTRIES"
    by (simp add: compaction_point_def s_e_def Let_def)
  moreover have "unat (sat_sub s_e COMPACTION_GRACE_ENTRIES) = unat s_e - 10000"
    by (simp add: unat_sat_sub COMPACTION_GRACE_ENTRIES_def)
  ultimately show ?thesis using assms(3) by (simp add: word_le_nat_alt)
qed

lemma compact_inv:
  assumes "mb_state g = Some st" "cm_retained_from (st_meta st) \<le> compaction_point st g now" "col_inv cr c g"
  shows "col_inv cr c (mem_commit [DeleteEntriesThrough (compaction_point st g now), PruneTokens now,
       PutMeta (compacted_meta g (compaction_point st g now) (st_meta st))] g)" (is "col_inv cr c ?g'")
proof -
  define cp where "cp = compaction_point st g now"
  define m where "m = compacted_meta g cp (st_meta st)"
  note I = col_invD [OF assms(3,1)]
  have "1 \<le> cp" using log_okD(1) [OF I(5)] assms(2) unfolding cp_def by (rule order_trans)
  then have cp: "unat cp + 10000 \<le> unat (cm_head (st_meta st))" using compaction_point_bound [OF I(1,7)] by (simp add: cp_def)
  then have cp1: "unat (cp + 1) = unat cp + 1" using u64_bound [of "cm_head (st_meta st)"] by (simp add: unat_word_ariths)
  have g': "mb_state ?g' = Some (st\<lparr>st_meta := m\<rparr>)" "mb_snapshots ?g' = mb_snapshots g" "mb_objects ?g' = mb_objects g"
    using assms(1) by (simp_all add: mem_commit_def mem_write_def m_def cp_def)
  have items: "map_of (mb_items ?g') k = (case map_of (mb_items g) k of
      Some i \<Rightarrow> if cp < k \<or> si_kind i \<noteq> 1 then Some i else None | None \<Rightarrow> None)" for k
    using I(1) by (simp add: mem_commit_def mem_write_def cp_def [symmetric] mem_ok_def bm_filter_lookup split: option.splits)
  then have sub: "map_of (mb_items g) k = Some i" if "map_of (mb_items ?g') k = Some i" for k i
    using that by (auto split: option.splits if_splits)
  have m: "cm_head m = cm_head (st_meta st)" "cm_head_chain m = cm_head_chain (st_meta st)" "cm_retained_from m = cp + 1"
    "cm_id m = cm_id (st_meta st)" "cm_members m = cm_members (st_meta st)" "cm_revoked_cp_keys m = cm_revoked_cp_keys (st_meta st)"
    by (simp_all add: m_def compacted_meta_def)
  show ?thesis
  proof (rule col_invI [OF mem_commit_ok [OF I(1)] g'(1)])
    show "state_ok (st\<lparr>st_meta := m\<rparr>)" "has_owner (st\<lparr>st_meta := m\<rparr>)" "cm_id (st_meta (st\<lparr>st_meta := m\<rparr>)) = c"
      using I(2-4) m by (simp_all add: state_ok_def has_owner_def)
    show "snaps_ok (st_meta (st\<lparr>st_meta := m\<rparr>)) ?g'" using snaps_ok_meta [OF I(7)] m g'(2) by simp
    show "refs_ok ?g'" by (rule refs_ok_step [OF I(6)]) (use I(6) sub in \<open>auto simp: g' refs_ok_def\<close>)
    have above: "map_of (mb_items ?g') k = map_of (mb_items g) k" if "cp < k" for k using items that by (simp split: option.splits)
    have hd: "cp < cm_head (st_meta st)" using cp by (simp add: word_less_nat_alt)
    have ab: "cp < k" if "cp + 1 \<le> k" for k using that cp1 by (simp add: word_le_nat_alt word_less_nat_alt)
    have rng: "1 \<le> cp + 1" "cp + 1 \<le> cm_head (st_meta st)" using cp cp1 by (simp_all add: word_le_nat_alt)
    have "log_ok cr c m (map_of (mb_items ?g'))"
    proof (rule log_okI, unfold m)
      show "1 \<le> cp + 1" "cp + 1 \<le> cm_head (st_meta st)" by fact+
      show "unat (cm_head (st_meta st)) < 2 ^ 64 - 1" by (rule log_okD(3) [OF I(5)])
      show "1 \<le> k \<and> k \<le> cm_head (st_meta st) \<and> (\<exists>it. row_ok c k i it)" if "map_of (mb_items ?g') k = Some i" for k i
        using log_okD(4-6) [OF I(5) sub [OF that]] by blast
      show "map_of (mb_items ?g') k \<noteq> None" if "cp + 1 \<le> k" "k \<le> cm_head (st_meta st)" for k
        using above [OF ab [OF that(1)]] log_okD(7) [OF I(5) _ that(2)] that(1) assms(2) ab [OF that(1)]
        by (fastforce simp: cp_def [symmetric])
      show "it_prev it = Some (chain_hash (cr_sha256 cr) (si_bytes i))"
        if "map_of (mb_items ?g') k = Some i" "map_of (mb_items ?g') (k + 1) = Some j" "row_ok c (k + 1) j it" for k i j it
        by (rule log_okD(8) [OF I(5) sub [OF that(1)] sub [OF that(2)] that(3)])
      show "\<exists>i. map_of (mb_items ?g') (cm_head (st_meta st)) = Some i
          \<and> cm_head_chain (st_meta st) = chain_hash (cr_sha256 cr) (si_bytes i)"
        unfolding above [OF hd] by (rule log_okD(9) [OF I(5)])
    qed
    then show "log_ok cr c (st_meta (st\<lparr>st_meta := m\<rparr>)) (map_of (mb_items ?g'))" by simp
  qed
qed

lemma snapshot_inv:
  assumes "mb_state g = Some st" "sr_seq row \<le> cm_head (st_meta st)" "sr_seq row \<noteq> 0"
    and "list_all (\<lambda>x. sr_seq x < sr_seq row) (take 1 (mem_snapshots g))" "sr_manifest row \<in> set (sr_refs row)"
    and refs: "list_all (committed_at g) (sr_refs row)" and inv: "col_inv cr c g"
  shows "col_inv cr c (mem_commit (InsertSnapshot row # map (\<lambda>x. DeleteSnapshot (sr_seq x)) (drop (RETAINED_SNAPSHOTS - 1) (mem_snapshots g))) g)"
proof -
  define old where "old = drop (RETAINED_SNAPSHOTS - 1) (mem_snapshots g)"
  define g' where "g' = mem_commit (InsertSnapshot row # map (\<lambda>x. DeleteSnapshot (sr_seq x)) old) g"
  note I = col_invD [OF inv assms(1)]
  let ?g1 = "mem_write (InsertSnapshot row) g"
  have ok1: "mem_ok ?g1" using I(1) mem.write_invar by blast
  have g1: "map_of (mb_snapshots ?g1) = (map_of (mb_snapshots g))(sr_seq row \<mapsto> row)" "mb_state ?g1 = Some st"
    "mb_items ?g1 = mb_items g" "mb_objects ?g1 = mb_objects g"
    using I(1) assms(1) by (simp_all add: mem_write_def mem_ok_def)
  have eq: "mb_state g' = Some st" "mb_items g' = mb_items g" "mb_objects g' = mb_objects g"
    "map_of (mb_snapshots g') = (\<lambda>k. if k \<in> sr_seq ` set old then None else if k = sr_seq row then Some row else map_of (mb_snapshots g) k)"
    using commit_delete_snapshots [OF ok1, of old] g1 by (auto simp: mem_commit_def fun_eq_iff g'_def)
  have ok': "mem_ok g'" unfolding g'_def by (rule mem_commit_ok [OF I(1)])
  have rows: "r = row \<or> map_of (mb_snapshots g) k = Some r" if "map_of (mb_snapshots g') k = Some r" for k r
    using that by (auto simp: eq(4) split: if_splits)
  have dom: "set (sr_refs row) \<subseteq> dom (map_of (mb_objects g))"
    using refs by (force simp: list_all_iff committed_at_def split: option.splits)
  have "col_inv cr c g'"
  proof (rule col_invI [OF ok' eq(1) I(2-4)])
    show "log_ok cr c (st_meta st) (map_of (mb_items g'))" using I(5) by (simp add: eq)
    have "set (sr_refs r) \<subseteq> dom (map_of (mb_objects g'))" if "map_of (mb_snapshots g') k = Some r" for k r
      using rows [OF that] dom I(6) unfolding eq(3) refs_ok_def by blast
    then show "refs_ok g'"
      by (intro refs_ok_step [OF I(6)]) (use I(6) in \<open>auto simp: eq(2,3) refs_ok_def\<close>)
    have "1 \<le> k \<and> k \<le> cm_head (st_meta st) \<and> sr_manifest r \<in> set (sr_refs r)" if "map_of (mb_snapshots g') k = Some r" for k r
      using rows [OF that]
    proof
      assume "r = row"
      moreover have "sr_seq r = k" using ok' that by (auto simp: mem_ok_def)
      ultimately show ?thesis using assms(2,3,5) by (auto simp: word_le_nat_alt unat_gt_0 Suc_le_eq)
    qed (use I(7) in \<open>auto simp: snaps_ok_def\<close>)
    moreover have "length (mb_snapshots g') \<le> RETAINED_SNAPSHOTS"
    proof -
      have d: "distinct (map fst (mb_snapshots g'))" using ok' bm_ok_distinct by (auto simp: mem_ok_def)
      have "fst ` set (mb_snapshots g') = dom (map_of (mb_snapshots g'))" by (simp add: dom_map_of_conv_image_fst)
      also have "\<dots> \<subseteq> insert (sr_seq row) (sr_seq ` set (take 1 (mem_snapshots g)))"
      proof
        fix k assume "k \<in> dom (map_of (mb_snapshots g'))"
        then obtain r where r: "map_of (mb_snapshots g') k = Some r" by blast
        show "k \<in> insert (sr_seq row) (sr_seq ` set (take 1 (mem_snapshots g)))"
        proof (cases "k = sr_seq row")
          case False
          then have "map_of (mb_snapshots g) k = Some r" "k \<notin> sr_seq ` set old" using r by (auto simp: eq(4) split: if_splits)
          moreover from this(1) have "r \<in> set (mem_snapshots g)" "sr_seq r = k"
            using I(1) map_of_SomeD [of "mb_snapshots g" k r] by (force simp: mem_snapshots_def, auto simp: mem_ok_def)
          moreover have "set (mem_snapshots g) = set (take 1 (mem_snapshots g)) \<union> set old"
            by (simp add: old_def RETAINED_SNAPSHOTS_def flip: set_append)
          ultimately show ?thesis by auto
        qed simp
      qed
      finally have "card (fst ` set (mb_snapshots g')) \<le> card (insert (sr_seq row) (sr_seq ` set (take 1 (mem_snapshots g))))"
        by (rule card_mono [rotated]) simp
      also have "\<dots> \<le> Suc (card (sr_seq ` set (take 1 (mem_snapshots g))))" by (rule card_insert_le_m1) simp_all
      also have "\<dots> \<le> 2"
        using card_image_le [of "set (take 1 (mem_snapshots g))" sr_seq] card_length [of "take 1 (mem_snapshots g)"] by simp
      finally show ?thesis using distinct_card [OF d] by (simp add: RETAINED_SNAPSHOTS_def flip: set_map)
    qed
    ultimately show "snaps_ok (st_meta st) g'" by (auto simp: snaps_ok_def)
  qed
  then show ?thesis by (simp only: g'_def old_def)
qed

lemma endorse_inv:
  assumes "col_inv cr c g"
  shows "col_inv cr c (mem_commit [EndorseSnapshot q] g)" (is "col_inv cr c ?g'")
proof (cases "mb_state g")
  case None
  then have "g = mem_empty" using assms by (simp add: col_inv_def)
  then show ?thesis using col_inv_empty by (simp add: mem_commit_def mem_write_def mem_empty_def)
next
  case (Some st)
  note I = col_invD [OF assms Some]
  have g': "mb_state ?g' = Some st" "mb_items ?g' = mb_items g" "mb_objects ?g' = mb_objects g"
    using Some by (simp_all add: mem_commit_def mem_write_def split: option.splits)
  have ok': "mem_ok ?g'" by (rule mem_commit_ok [OF I(1)])
  have rows: "\<exists>r0. map_of (mb_snapshots g) k = Some r0 \<and> sr_refs r = sr_refs r0 \<and> sr_manifest r = sr_manifest r0"
    if "map_of (mb_snapshots ?g') k = Some r" for k r
    using that I(1) by (auto simp: mem_commit_def mem_write_def mem_ok_def split: option.splits if_splits)
  have "fst ` set (mb_snapshots ?g') = fst ` set (mb_snapshots g)"
    unfolding dom_map_of_conv_image_fst [symmetric]
    using I(1) by (auto simp: mem_commit_def mem_write_def mem_ok_def split: option.splits if_splits)
  moreover have "distinct (map fst (mb_snapshots ?g'))" "distinct (map fst (mb_snapshots g))"
    using ok' I(1) bm_ok_distinct by (auto simp: mem_ok_def)
  ultimately have len: "length (mb_snapshots ?g') = length (mb_snapshots g)"
    by (metis distinct_card length_map list.set_map)
  show ?thesis
  proof (rule col_invI [OF ok' g'(1) I(2-4)])
    show "log_ok cr c (st_meta st) (map_of (mb_items ?g'))" using I(5) by (simp add: g')
    show "refs_ok ?g'"
      by (rule refs_ok_step [OF I(6)]) (use I(6) rows in \<open>auto simp: g' refs_ok_def, metis\<close>)
    show "snaps_ok (st_meta st) ?g'" using I(7) len rows by (auto simp: snaps_ok_def, metis+)
  qed
qed

subsection \<open>Garbage collection\<close>

lemma commit_delete_objects:
  "mem_ok g \<Longrightarrow> map_of (mb_objects (fold mem_write (map (\<lambda>x. DeleteObject (om_address x)) xs) g))
      = (\<lambda>a. if a \<in> om_address ` set xs then None else map_of (mb_objects g) a)
    \<and> mb_state (fold mem_write (map (\<lambda>x. DeleteObject (om_address x)) xs) g) = mb_state g
    \<and> mb_items (fold mem_write (map (\<lambda>x. DeleteObject (om_address x)) xs) g) = mb_items g
    \<and> mb_snapshots (fold mem_write (map (\<lambda>x. DeleteObject (om_address x)) xs) g) = mb_snapshots g"
proof (induction xs arbitrary: g)
  case (Cons x xs)
  have "mem_ok (mem_write (DeleteObject (om_address x)) g)" using Cons.prems mem.write_invar by blast
  from Cons.IH [OF this] show ?case by (auto simp: mem_write_def fun_eq_iff)
qed simp

lemma gc_effect:
  assumes "mem_ok g" "mb_state g = Some st"
  shows "map_of (mb_objects (mem_commit (map (\<lambda>x. DeleteObject (om_address x)) dead @ [PutMeta m]) g))
      = (\<lambda>a. if a \<in> om_address ` set dead then None else map_of (mb_objects g) a)"
    "mb_state (mem_commit (map (\<lambda>x. DeleteObject (om_address x)) dead @ [PutMeta m]) g) = Some (st\<lparr>st_meta := m\<rparr>)"
    "mb_items (mem_commit (map (\<lambda>x. DeleteObject (om_address x)) dead @ [PutMeta m]) g) = mb_items g"
    "mb_snapshots (mem_commit (map (\<lambda>x. DeleteObject (om_address x)) dead @ [PutMeta m]) g) = mb_snapshots g"
  using commit_delete_objects [OF assms(1), of dead] assms(2) by (simp_all add: mem_commit_def mem_write_def)

text \<open>No transaction of the collector touches an object something refers to.\<close>

lemma gc_candidates_dead: "x \<in> set (mem_gc_candidates g before limit) \<Longrightarrow> om_address x \<notin> mem_live_refs g"
  by (auto simp: mem_gc_candidates_def dest: in_set_takeD)

lemma meta_only:
  assumes "cm_head n = cm_head m" "cm_head_chain n = cm_head_chain m" "cm_retained_from n = cm_retained_from m" "cm_id n = cm_id m"
    "cm_members n = cm_members m" "cm_revoked_cp_keys n = cm_revoked_cp_keys m"
    and "col_inv cr c g" "mb_state g = Some st" "st_meta st = m"
    and "mem_ok g'" "mb_state g' = Some (st\<lparr>st_meta := n\<rparr>)" "mb_items g' = mb_items g" "mb_snapshots g' = mb_snapshots g" "refs_ok g'"
  shows "col_inv cr c g'"
proof -
  note I = col_invD [OF assms(7,8)]
  show ?thesis
  proof (rule col_invI [OF assms(10,11) _ _ _ _ assms(14)])
    show "state_ok (st\<lparr>st_meta := n\<rparr>)" "has_owner (st\<lparr>st_meta := n\<rparr>)" "cm_id (st_meta (st\<lparr>st_meta := n\<rparr>)) = c"
      using I(2-4) assms(4-6,9) by (simp_all add: state_ok_def has_owner_def)
    show "log_ok cr c (st_meta (st\<lparr>st_meta := n\<rparr>)) (map_of (mb_items g'))" using log_ok_meta [OF I(5)] assms(1-3,9,12) by simp
    show "snaps_ok (st_meta (st\<lparr>st_meta := n\<rparr>)) g'" using snaps_ok_meta [OF I(7)] assms(1,9,13) by simp
  qed
qed

lemma gc_inv:
  assumes "mb_state g = Some st" "dead = filter P (mem_gc_candidates g before limit)" "col_inv cr c g"
  shows "col_inv cr c (mem_commit (map (\<lambda>x. DeleteObject (om_address x)) dead @ [PutMeta (gc_meta g dead (st_meta st))]) g)"
proof -
  note I = col_invD [OF assms(3,1)] and eff = gc_effect [OF _ assms(1), of dead "gc_meta g dead (st_meta st)"]
  have dead: "a \<notin> om_address ` set dead" if "a \<in> mem_live_refs g" for a
    using that gc_candidates_dead [of _ g before limit] assms(2) by auto
  have "refs_ok (mem_commit (map (\<lambda>x. DeleteObject (om_address x)) dead @ [PutMeta (gc_meta g dead (st_meta st))]) g)"
    by (rule refs_ok_step [OF I(6)]) (use I(6) dead in \<open>auto simp: eff [OF I(1)] refs_ok_def split: if_splits\<close>)
  then show ?thesis
    by (intro meta_only [OF _ _ _ _ _ _ assms(3,1) refl mem_commit_ok [OF I(1)] eff(2-4) [OF I(1)]]) (simp_all add: gc_meta_def Let_def)
qed

lemma refs_ok_same:
  "refs_ok g \<Longrightarrow> mb_items g' = mb_items g \<Longrightarrow> mb_objects g' = mb_objects g \<Longrightarrow> mb_snapshots g' = mb_snapshots g \<Longrightarrow> refs_ok g'"
  by (simp add: refs_ok_def)

lemma put_meta_inv:
  assumes "cm_head n = cm_head m" "cm_head_chain n = cm_head_chain m" "cm_retained_from n = cm_retained_from m" "cm_id n = cm_id m"
    "cm_members n = cm_members m" "cm_revoked_cp_keys n = cm_revoked_cp_keys m"
    and "col_inv cr c g" "mb_state g = Some st" "st_meta st = m"
  shows "col_inv cr c (mem_commit [PutMeta n] g)" "col_inv cr c (mem_commit [PutMeta n, Notify nt] g)"
proof -
  note I = col_invD [OF assms(7,8)]
  show "col_inv cr c (mem_commit [PutMeta n] g)"
    by (rule meta_only [OF assms mem_commit_ok [OF I(1)] _ _ _ refs_ok_same [OF I(6)]])
      (use assms(8) in \<open>simp_all add: mem_commit_def mem_write_def\<close>)
  then show "col_inv cr c (mem_commit [PutMeta n, Notify nt] g)" by (simp add: mem_commit_def mem_write_def)
qed

subsection \<open>Every transaction\<close>

lemma txn_inv:
  assumes "txn cr roots c g g'" "col_inv cr c g"
  shows "col_inv cr c g'"
  using assms(1)
proof cases
  case (create b it now region payload st rv)
  then show ?thesis using create_inv assms(2) by blast
next
  case (append p ps now items st ws revoked prev oc)
  then show ?thesis using append_inv assms(2) by blast
next
  case (object st om m)
  then show ?thesis using object_inv assms(2) by blast
next
  case (snapshot st row)
  then show ?thesis using snapshot_inv assms(2) by blast
next
  case (endorse q)
  then show ?thesis using endorse_inv assms(2) by blast
next
  case (compact st now)
  then show ?thesis using compact_inv assms(2) by blast
next
  case (gc st dead P before limit)
  then show ?thesis using gc_inv assms(2) by blast
next
  case (quota st q)
  then show ?thesis using put_meta_inv(1) [OF _ _ _ _ _ _ assms(2) quota(2) refl] by simp
next
  case (delete st r nt)
  then show ?thesis using put_meta_inv(2) [OF _ _ _ _ _ _ assms(2) delete(2) refl] by simp
qed

end
