(* ===== verification/LogReach.thy ===== *)
theory LogReach
  imports LogTxn
begin

text \<open>
  The service as a state machine.  \<open>call\<close> relates the service before and after any method (and
  before and after a direct upload to a staging key); every call moves each collection by
  transactions of \<open>LogTxn\<close>, so the collection invariant holds in every reachable service, together
  with the invariant of the object store: a published row has its bytes, under its own key, with
  the recorded size and checksum.
\<close>

subsection \<open>Calls\<close>

inductive call :: "crypto \<Rightarrow> b32 list \<Rightarrow> Service \<Rightarrow> Service \<Rightarrow> bool" for cr roots where
  append: "append_with_budget cr roots p ps now u s = (u', s', r) \<Longrightarrow> call cr roots s s'"
| put_object: "put_object_with_budget cr cf p po now u s = (u', s', r) \<Longrightarrow> call cr roots s s'"
| upload: "call cr roots s (s\<lparr>sv_objects := (sv_objects s)(staging_key c a d \<mapsto> bs)\<rparr>)"
| commit_object: "commit_object_with_budget cr Map.empty p co now u s = (u', s', r) \<Longrightarrow> call cr roots s s'"
| put_snapshot: "put_snapshot_with_budget cr p q now u s = (u', s', r) \<Longrightarrow> call cr roots s s'"
| endorse: "endorse_snapshot cr fa p e now s = Some (s', r) \<Longrightarrow> call cr roots s s'"
| compact: "compact cr fa c now s = Some (s', r) \<Longrightarrow> call cr roots s s'"
| gc: "gc fa c now s = (s', r) \<Longrightarrow> call cr roots s s'"
| create: "create_log cr roots place p params now u s = (u', s', r) \<Longrightarrow> call cr roots s s'"
| quota: "set_quota p params s = (s', r) \<Longrightarrow> call cr roots s s'"
| delete: "delete_log p params s = (s', r) \<Longrightarrow> call cr roots s s'"
| record_deletion: "record_collection_deletion rec s = (s', r) \<Longrightarrow> call cr roots s s'"
| credentials: "check_credentials p now fresh s = (s', r) \<Longrightarrow> call cr roots s s'"
| revoke: "revoke_device_credentials_call p params now s = (s', r) \<Longrightarrow> call cr roots s s'"

definition reachable :: "crypto \<Rightarrow> b32 list \<Rightarrow> Service \<Rightarrow> bool" where
  "reachable cr roots s \<longleftrightarrow> (call cr roots)\<^sup>*\<^sup>* service_new s"

subsection \<open>Calls as transactions\<close>

text \<open>A call moves one collection by transactions and leaves the others alone.\<close>

definition moves :: "crypto \<Rightarrow> b32 list \<Rightarrow> Service \<Rightarrow> Service \<Rightarrow> bool" where
  "moves cr roots s s' \<longleftrightarrow> (\<exists>c g. (txn cr roots c)\<^sup>*\<^sup>* (sv_cols s c) g \<and> sv_cols s' = (sv_cols s)(c := g))"

lemma moves_refl: "sv_cols s' = sv_cols s \<Longrightarrow> moves cr roots s s'"
  unfolding moves_def by (intro exI [of _ undefined] exI [of _ "sv_cols s undefined"]) simp

lemma moves_txn: "txn cr roots c (sv_cols s c) g \<Longrightarrow> sv_cols s' = (sv_cols s)(c := g) \<Longrightarrow> moves cr roots s s'"
  unfolding moves_def by blast

lemma moves_cong: "moves cr roots s s' \<Longrightarrow> sv_cols t = sv_cols s \<Longrightarrow> sv_cols t' = sv_cols s' \<Longrightarrow> moves cr roots t t'"
  by (simp add: moves_def)

lemma sv_cols_set_col [simp]: "sv_cols (set_col c g s) = (sv_cols s)(c := g)" "sv_objects (set_col c g s) = sv_objects s"
  by (simp_all add: set_col_def)

lemma store_cols [simp]:
  "sv_cols (fst (store_put_new k b s)) = sv_cols s" "sv_cols (store_delete k s) = sv_cols s"
  by (simp_all add: store_put_new_def store_delete_def)

lemma append_moves:
  assumes "append_with_budget cr roots p ps now u s = (u', s', r)"
  shows "moves cr roots s s'"
proof (cases r)
  case (Inl f)
  from assms [unfolded this] obtain b where "s' = s\<lparr>sv_buckets := b\<rparr>" by (rule append_FailE)
  then show ?thesis by (simp add: moves_refl)
next
  case (Inr oc)
  from assms [unfolded Inr] show ?thesis
  proof (cases rule: append_OkE)
    case (unchanged b)
    then show ?thesis by (simp add: moves_refl)
  next
    case (landed items st ws revoked prev b g')
    then show ?thesis using txn.append [OF landed(1) refl landed(2)] by (intro moves_txn) auto
  qed
qed

lemma record_object_cases:
  assumes "record_object c om s = (s', r)" "om_committed om"
  obtains (same) "s' = s"
  | (put) st m where "mb_state (sv_cols s c) = Some st" "cm_status (st_meta st) \<noteq> Gone" "\<not> committed_at (sv_cols s c) (om_address om)"
      "charge_object (sv_cols s c) om (st_meta st) = Inr m" "s' = set_col c (mem_commit [PutMeta m, PutObject om] (sv_cols s c)) s"
proof -
  let ?g = "sv_cols s c"
  show thesis
  proof (cases "\<exists>st m. mb_state ?g = Some st \<and> cm_status (st_meta st) \<noteq> Gone \<and> \<not> committed_at ?g (om_address om)
      \<and> charge_object ?g om (st_meta st) = Inr m \<and> refuse_deleted_floor s c = Inr ()")
    case True
    then obtain st m where "mb_state ?g = Some st" "cm_status (st_meta st) \<noteq> Gone" "\<not> committed_at ?g (om_address om)"
        "charge_object ?g om (st_meta st) = Inr m" "refuse_deleted_floor s c = Inr ()" by blast
    then show thesis using put assms by (simp add: record_object_def svc_load_def)
  next
    case False
    then have "s' = s"
      using assms by (cases "mb_state ?g"; cases "refuse_deleted_floor s c")
        (auto simp: record_object_def svc_load_def Let_def rbind_Ok_iff split: sum.split_asm if_split_asm)
    then show thesis by (rule same)
  qed
qed

lemma record_object_moves:
  assumes "record_object c om s = (s', r)" "om_committed om"
  shows "moves cr roots s s'"
  using assms
proof (cases rule: record_object_cases)
  case (put st m)
  then show ?thesis using txn.object [OF put(1-3) assms(2) put(4)] by (intro moves_txn) auto
qed (simp add: moves_refl)

lemma finalize_cases:
  assumes "finalize cr c a knd bs now u s = (u', s', r)"
  obtains (vanished) "sv_cols s' = sv_cols s" "sv_objects s' = sv_objects s"
  | (fresh) om s1 where "sv_objects s (object_key c a) = None" "s1 = s\<lparr>sv_objects := (sv_objects s)(object_key c a \<mapsto> bs)\<rparr>"
      "om = \<lparr>om_address = a, om_kind = knd, om_size = of_nat (length bs), om_checksum = cr_sha256 cr bs, om_committed = True, om_created_at = now\<rparr>"
      "record_object c om s1 = (s', r)"
  | (existing) om ex u1 u2 where "sv_objects s (object_key c a) = Some ex"
      "validate_object_bytes cr c a knd (of_nat (length ex)) (cr_sha256 cr ex) ex u1 = (u2, Inr ())"
      "om = \<lparr>om_address = a, om_kind = knd, om_size = of_nat (length ex), om_checksum = cr_sha256 cr ex, om_committed = True, om_created_at = now\<rparr>"
      "record_object c om s = (s', r)"
  using assms by (auto simp: finalize_def store_put_new_def Let_def split: if_splits prod.splits sum.splits option.splits)

lemma finalize_moves:
  assumes "finalize cr c a knd bs now u s = (u', s', r)"
  shows "moves cr roots s s'"
  using assms
proof (cases rule: finalize_cases)
  case (fresh om s1)
  then have "moves cr roots s1 s'" using record_object_moves by fastforce
  then show ?thesis using moves_cong fresh(2) by fastforce
next
  case (existing om ex u1 u2)
  then show ?thesis using record_object_moves by fastforce
qed (simp add: moves_refl)

lemma put_object_cases:
  assumes "put_object_with_budget cr cf p q now u s = (u', s', r)"
  obtains (same) "s' = s"
  | (final) b u1 u2 u3 r' where "po_bytes q = Some b"
      "validate_object_bytes cr (po_collection q) (po_address q) (item_kind_value (po_kind q)) (po_size q) (po_checksum q) b u1 = (u2, Inr ())"
      "finalize cr (po_collection q) (po_address q) (item_kind_value (po_kind q)) b now u2 s = (u3, s', r')"
  using assms unfolding put_object_with_budget_def Let_def
  by (auto split: sum.split_asm prod.split_asm if_split_asm option.split_asm)

lemma commit_staged_cases:
  assumes "commit_staged cr c a staged now u s = (u', s', r)"
  obtains (same) "s' = s"
  | (dropped) "s' = store_delete staged s"
  | (failed) bs v u1 u2 u3 e where "sv_objects s staged = Some bs" "verify_upload_with_budget cr c a bs u1 = (u2, Inr v)"
      "finalize cr c a (vf_kind v) bs now u2 s = (u3, s', Inl e)"
  | (final) bs v u1 u2 u3 s1 b where "sv_objects s staged = Some bs" "verify_upload_with_budget cr c a bs u1 = (u2, Inr v)"
      "finalize cr c a (vf_kind v) bs now u2 s = (u3, s1, Inr b)" "s' = store_delete staged s1"
  using assms unfolding commit_staged_def Let_def
  by (auto split: sum.split_asm prod.split_asm if_split_asm option.split_asm)

lemma commit_object_cases:
  assumes "commit_object_with_budget cr Map.empty p q now u s = (u', s', r)"
  obtains (same) "s' = s"
  | (staged) d u1 where "commit_staged cr (co_collection q) (co_address q) (staging_key (co_collection q) (co_address q) d) now u1 s = (u', s', r)"
  using assms unfolding commit_object_with_budget_def Let_def copy_verified_new_def
  by (auto split: sum.split_asm prod.split_asm if_split_asm)

lemma put_object_moves: "put_object_with_budget cr cf p q now u s = (u', s', r) \<Longrightarrow> moves cr roots s s'"
  by (erule put_object_cases) (auto simp: moves_refl intro: finalize_moves)

lemma commit_object_moves: "commit_object_with_budget cr Map.empty p q now u s = (u', s', r) \<Longrightarrow> moves cr roots s s'"
proof (erule commit_object_cases)
  fix d u1 assume "commit_staged cr (co_collection q) (co_address q) (staging_key (co_collection q) (co_address q) d) now u1 s = (u', s', r)"
  then show ?thesis
  proof (cases rule: commit_staged_cases)
    case (final bs v u1 u2 u3 s1 b)
    then show ?thesis using moves_cong [OF finalize_moves [OF final(3)]] by simp
  qed (auto simp: moves_refl intro: finalize_moves)
qed (simp add: moves_refl)

subsection \<open>Snapshots\<close>

lemma missing_members_Ok:
  "missing_members xs acc = Inr [] \<Longrightarrow> acc = [] \<and> list_all (\<lambda>(_, m). case m of Some m \<Rightarrow> om_committed m \<and> part_kind (om_kind m) | None \<Rightarrow> False) xs"
  by (induction xs acc rule: missing_members.induct) (auto split: if_splits option.splits simp: MAX_HAS_OBJECTS_def)

lemma zip_objects_committed:
  "list_all (\<lambda>(_, m). case m of Some m \<Rightarrow> om_committed m | None \<Rightarrow> False) (zip refs (mem_objects g refs)) \<longleftrightarrow> list_all (committed_at g) refs"
  by (induction refs) (auto simp: mem_objects_def committed_at_def)

lemma snapshot_refs_Ok:
  assumes "snapshot_refs cr s q u = (u', Inr refs)"
  shows "ps_manifest q \<in> set refs" "list_all (committed_at (sv_cols s (ps_collection q))) refs"
proof -
  let ?g = "sv_cols s (ps_collection q)" and ?d = "remdups_adj (sort (ps_refs q @ [ps_manifest q]))"
  have "filter (\<lambda>(_, m). \<not> (case m of Some m \<Rightarrow> om_committed m | None \<Rightarrow> False)) (zip ?d (mem_objects ?g ?d)) = []"
    using assms by (auto simp: snapshot_refs_def Let_def split: if_splits)
  then have d: "list_all (committed_at ?g) ?d"
    unfolding zip_objects_committed [symmetric] by (auto simp: filter_empty_conv list_all_iff)
  consider "refs = ?d"
    | indices u1 where "expand_ref_indices cr s (ps_collection q) ?d indices u = (u1, Inr refs)"
    using assms by (auto simp: snapshot_refs_def Let_def split: if_splits sum.splits list.splits)
  then show "ps_manifest q \<in> set refs" "list_all (committed_at ?g) refs"
  proof (atomize(full), cases)
    case 1
    then show "ps_manifest q \<in> set refs \<and> list_all (committed_at ?g) refs" using d by simp
  next
    case 2
    then obtain ms where ms: "refs = remdups_adj (sort (?d @ sort (remdups ms)))"
        "missing_members (zip (sort (remdups ms)) (mem_objects ?g (sort (remdups ms)))) [] = Inr []"
      by (auto simp: expand_ref_indices_def Let_def res_simps split: if_splits sum.splits prod.splits)
    have "list_all (\<lambda>(_, m). case m of Some m \<Rightarrow> om_committed m | None \<Rightarrow> False)
        (zip (sort (remdups ms)) (mem_objects ?g (sort (remdups ms))))"
      using missing_members_Ok [OF ms(2)] by (auto simp: list_all_iff split: option.splits)
    then have "list_all (committed_at ?g) (sort (remdups ms))" by (simp only: zip_objects_committed)
    then show "ps_manifest q \<in> set refs \<and> list_all (committed_at ?g) refs" using d by (auto simp: ms(1) list_all_iff)
  qed
qed

lemma put_snapshot_cases:
  assumes "put_snapshot_with_budget cr p q now u s = (u', s', r)"
  obtains (same) "s' = s"
  | (put) st refs u1 row where "mb_state (sv_cols s (ps_collection q)) = Some st" "ps_seq q \<le> cm_head (st_meta st)" "ps_seq q \<noteq> 0"
      "list_all (\<lambda>x. sr_seq x < ps_seq q) (take 1 (mem_snapshots (sv_cols s (ps_collection q))))"
      "snapshot_refs cr s q u = (u1, Inr refs)" "sr_seq row = ps_seq q" "sr_manifest row = ps_manifest q" "sr_refs row = refs"
      "s' = set_col (ps_collection q) (mem_commit (InsertSnapshot row
          # map (\<lambda>x. DeleteSnapshot (sr_seq x)) (drop (RETAINED_SNAPSHOTS - 1) (mem_snapshots (sv_cols s (ps_collection q)))))
            (sv_cols s (ps_collection q))) s"
proof (cases "rbind (svc_load (sv_cols s (ps_collection q))) (\<lambda>st. rbind (authorize_device st p) (\<lambda>me. Ok (st, me)))")
  case (Inl e)
  then show thesis using same assms by (simp add: put_snapshot_with_budget_def)
next
  case (Inr x)
  then obtain st me where x: "x = (st, me)" "mb_state (sv_cols s (ps_collection q)) = Some st"
    by (auto simp: rbind_Ok_iff svc_load_def ok_or_Ok_iff)
  obtain u1 w where w: "snapshot_refs cr s q u = (u1, w)" by force
  show thesis
    by (cases "mem_snapshots (sv_cols s (ps_collection q))"; cases w)
      (use assms same put [OF x(2), of u1 _ "\<lparr>sr_seq = ps_seq q, sr_manifest = ps_manifest q, sr_author = ac_device me,
          sr_created_at = now, sr_endorsed = False, sr_refs = projr w\<rparr>"] Inr x w in
        \<open>auto simp: put_snapshot_with_budget_def Let_def not_less not_le split: if_split_asm\<close>)
qed

lemma put_snapshot_moves:
  assumes "put_snapshot_with_budget cr p q now u s = (u', s', r)"
  shows "moves cr roots s s'"
  using assms
proof (cases rule: put_snapshot_cases)
  case (put st refs u1 row)
  then show ?thesis
    using snapshot_refs_Ok [OF put(5)] by (intro moves_txn [OF txn.snapshot [OF put(1), of row]]) simp_all
qed (simp add: moves_refl)

subsection \<open>Compaction and collection\<close>

text \<open>Archiving writes the archive and nothing else.\<close>

definition archive_only :: "Service \<Rightarrow> Service \<Rightarrow> bool" where
  "archive_only s s' \<longleftrightarrow> s' = s\<lparr>sv_archive := sv_archive s'\<rparr>"

lemma archive_only_refl [simp]: "archive_only s s"
  by (simp add: archive_only_def)

lemma archive_only_trans: "archive_only s t \<Longrightarrow> archive_only t w \<Longrightarrow> archive_only s w"
proof -
  assume st: "archive_only s t" and tw: "archive_only t w"
  have "w = t\<lparr>sv_archive := sv_archive w\<rparr>" using tw by (simp add: archive_only_def)
  also have "t = s\<lparr>sv_archive := sv_archive t\<rparr>" using st by (simp add: archive_only_def)
  finally have "w = s\<lparr>sv_archive := sv_archive w\<rparr>" by simp
  then show ?thesis by (simp add: archive_only_def)
qed

lemma archive_only_frame: "archive_only s s' \<Longrightarrow> sv_cols s' = sv_cols s \<and> sv_objects s' = sv_objects s \<and> sv_deletions s' = sv_deletions s"
  unfolding archive_only_def by (metis Service.select_convs(1,3,4) Service.surjective Service.update_convs(5))

lemma put_segment_frame: "put_segment cr fa c tier seg s = (s', r) \<Longrightarrow> archive_only s s'"
  by (auto simp: put_segment_def store_put_segment_def archive_only_def split: sum.splits)

lemma archive_page_frame: "archive_page cr fa c tier cp page after seg sb s = (s', r) \<Longrightarrow> archive_only s s'"
proof (induction page arbitrary: after seg sb s)
  case (Cons it its)
  then show ?case
    by (auto simp: Let_def split: if_split_asm prod.split_asm sum.split_asm dest!: put_segment_frame intro: archive_only_trans)
qed simp

lemma archive_pages_frame:
  "archive_pages cr fa c tier cp g after seg sb s = Some y \<Longrightarrow> archive_only s (fst y)"
proof (induction rule: archive_pages.raw_induct [rotated, consumes 1, case_names step])
  case (step ap cr fa c tier cp g after seg sb s y)
  let ?page = "mem_items g after MAX_READ_ITEMS ARCHIVE_SEGMENT_BYTES False"
  show ?case
  proof (cases "?page = []")
    case False
    obtain s1 r where p: "archive_page cr fa c tier cp ?page after seg sb s = (s1, r)" by force
    from archive_page_frame [OF p] have f: "archive_only s s1" .
    show ?thesis
    proof (cases "\<exists>a' seg' sb'. r = Inr (False, a', seg', sb')")
      case True
      then obtain a' seg' sb' where "ap cr fa c tier cp g a' seg' sb' s1 = Some y" using step(2) False p by auto
      then show ?thesis using archive_only_trans [OF f] step(1) by blast
    next
      case no_more: False
      then have "fst y = s1" using step(2) False p by (auto split: sum.split_asm if_split_asm)
      then show ?thesis using f by simp
    qed
  qed (use step(2) in auto)
qed

lemma archive_entries_frame:
  assumes "archive_entries cr fa c tier rf cp g s = Some (s', r)"
  shows "archive_only s s'"
proof -
  obtain s1 r1 where p: "archive_pages cr fa c tier cp g (sat_sub rf 1) [] 0 s = Some (s1, r1)"
    and rest: "(case r1 of Inl f \<Rightarrow> (s1, Inl f) | Inr seg \<Rightarrow> if seg = [] then (s1, Inr ()) else put_segment cr fa c tier seg s1) = (s', r)"
    using assms by (auto simp: archive_entries_def)
  have f: "archive_only s s1" using archive_pages_frame [OF p] by simp
  have "archive_only s1 s'" using rest put_segment_frame by (auto split: sum.split_asm if_split_asm)
  then show ?thesis by (rule archive_only_trans [OF f])
qed

lemma compact_cases:
  assumes "compact cr fa c now s = Some (s', r)"
  obtains (same) "archive_only s s'"
  | (compacted) st s1 where "mb_state (sv_cols s c) = Some st" "cm_retained_from (st_meta st) \<le> compaction_point st (sv_cols s c) now"
      "archive_entries cr fa c (cm_retention_tier (st_meta st)) (cm_retained_from (st_meta st)) (compaction_point st (sv_cols s c) now) (sv_cols s c) s = Some (s1, Inr ())"
      "s' = set_col c (mem_commit [DeleteEntriesThrough (compaction_point st (sv_cols s c) now), PruneTokens now,
         PutMeta (compacted_meta (sv_cols s c) (compaction_point st (sv_cols s c) now) (st_meta st))] (sv_cols s c)) s1"
      "r = Inr (compaction_point st (sv_cols s c) now + 1)"
proof -
  let ?g = "sv_cols s c"
  show thesis
  proof (cases "mb_state ?g")
    case None
    then show thesis using same assms by (simp add: compact_def svc_load_def)
  next
    case (Some st)
    show thesis
    proof (cases "compaction_point st ?g now < cm_retained_from (st_meta st)")
      case True
      then show thesis using same assms Some by (simp add: compact_def svc_load_def Let_def)
    next
      case False
      note run = assms [unfolded compact_def svc_load_def Some ok_or.simps sum.case Let_def if_not_P [OF False]]
      obtain s1 r1 where a: "archive_entries cr fa c (cm_retention_tier (st_meta st)) (cm_retained_from (st_meta st))
          (compaction_point st ?g now) ?g s = Some (s1, r1)"
        using run by (cases "archive_entries cr fa c (cm_retention_tier (st_meta st)) (cm_retained_from (st_meta st))
          (compaction_point st ?g now) ?g s") auto
      have rest: "(case r1 of Inl f \<Rightarrow> (s1, Inl f) | Inr _ \<Rightarrow>
           (set_col c (mem_commit [DeleteEntriesThrough (compaction_point st ?g now), PruneTokens now,
              PutMeta (compacted_meta ?g (compaction_point st ?g now) (st_meta st))] ?g) s1, Inr (compaction_point st ?g now + 1))) = (s', r)"
        using run unfolding a compacted_meta_def by simp
      show thesis
      proof (cases r1)
        case (Inl f)
        then show thesis using same archive_entries_frame [OF a] rest by simp
      next
        case (Inr x)
        then show thesis using compacted [OF Some _ _ _] a rest False by (simp add: not_less)
      qed
    qed
  qed
qed

lemma compact_moves:
  assumes "compact cr fa c now s = Some (s', r)"
  shows "moves cr roots s s'"
  using assms
proof (cases rule: compact_cases)
  case (compacted st s1)
  then show ?thesis
    using txn.compact [OF compacted(1,2)] archive_only_frame [OF archive_entries_frame [OF compacted(3)]] by (intro moves_txn) auto
qed (simp add: moves_refl archive_only_frame)

lemma endorse_cases:
  assumes "endorse_snapshot cr fa p q now s = Some (s', r)"
  obtains (same) "s' = s"
  | (endorsed) k r' where "compact cr fa (es_collection q) now
      (set_col (es_collection q) (mem_commit [EndorseSnapshot k] (sv_cols s (es_collection q))) s) = Some (s', r')"
  | (again) r' where "compact cr fa (es_collection q) now s = Some (s', r')"
proof (cases "endorse_write p q (sv_cols s (es_collection q))")
  case (Inl e)
  then show thesis using same assms by (simp add: endorse_snapshot_def)
next
  case (Inr w)
  show thesis
  proof (cases w)
    case None
    then show thesis using same assms Inr by (simp add: endorse_snapshot_def)
  next
    case (Some g)
    then obtain r' where c: "compact cr fa (es_collection q) now (set_col (es_collection q) g s) = Some (s', r')"
      using assms Inr by (auto simp: endorse_snapshot_def Let_def)
    have "g = sv_cols s (es_collection q) \<or> (\<exists>k. g = mem_commit [EndorseSnapshot k] (sv_cols s (es_collection q)))"
      by (cases "filter (\<lambda>x. sr_seq x = es_seq q \<and> sr_manifest x = es_manifest q) (mem_snapshots (sv_cols s (es_collection q)))")
        (use Inr Some in \<open>auto simp: endorse_write_def rbind_Ok_iff split: if_split_asm\<close>)
    then show thesis using c endorsed again by (metis set_col_same)
  qed
qed

lemma moves_trans_same:
  assumes "txn cr roots c (sv_cols s c) g" "moves cr roots (set_col c g s) s'"
    and "\<And>d. d \<noteq> c \<Longrightarrow> sv_cols s' d = sv_cols s d"
  shows "moves cr roots s s'"
proof -
  obtain d g2 where d: "(txn cr roots d)\<^sup>*\<^sup>* (((sv_cols s)(c := g)) d) g2" "sv_cols s' = (sv_cols s)(c := g, d := g2)"
    using assms(2) by (auto simp: moves_def)
  show ?thesis
  proof (cases "d = c")
    case True
    then have "(txn cr roots c)\<^sup>*\<^sup>* (sv_cols s c) g2" "sv_cols s' = (sv_cols s)(c := g2)"
      using d assms(1) by (auto intro: converse_rtranclp_into_rtranclp)
    then show ?thesis unfolding moves_def by blast
  next
    case False
    then have "sv_cols s' = (sv_cols s)(c := g)" using d(2) assms(3) [OF False] by auto
    then show ?thesis using assms(1) moves_txn by blast
  qed
qed

lemma compact_others: "compact cr fa c now s = Some (s', r) \<Longrightarrow> d \<noteq> c \<Longrightarrow> sv_cols s' d = sv_cols s d"
  by (erule compact_cases) (auto simp: archive_only_frame dest!: archive_entries_frame)

lemma endorse_moves:
  assumes "endorse_snapshot cr fa p q now s = Some (s', r)"
  shows "moves cr roots s s'"
  using assms
proof (cases rule: endorse_cases)
  case (endorsed k r')
  then show ?thesis
    using moves_trans_same [OF txn.endorse compact_moves [OF endorsed]] compact_others [OF endorsed] by simp
qed (auto simp: moves_refl intro: compact_moves)

lemma gc_dead_eq: "gc_dead fa c tier xs s = (s', dead) \<Longrightarrow> archive_only s s' \<and> dead = filter (\<lambda>x. \<not> (om_committed x \<and> fa)) xs"
proof (induction xs arbitrary: s s' dead)
  case (Cons x xs)
  have a: "store_archive_object fa c tier (om_address x) s = (s1, r) \<Longrightarrow> archive_only s s1 \<and> (r = Inr () \<longleftrightarrow> \<not> fa)" for s1 r
    by (auto simp: store_archive_object_def archive_check_def archive_only_def split: option.split_asm if_split_asm)
  show ?case
  proof (cases "om_committed x")
    case True
    obtain s1 r where s1: "store_archive_object fa c tier (om_address x) s = (s1, r)" by force
    obtain s2 d2 where s2: "gc_dead fa c tier xs s1 = (s2, d2)" by force
    have "archive_only s s2" using a [OF s1] Cons.IH [OF s2] archive_only_trans by blast
    then show ?thesis using Cons.prems True s1 s2 a [OF s1] Cons.IH [OF s2] by (auto split: sum.split_asm)
  next
    case False
    obtain s2 d2 where s2: "gc_dead fa c tier xs s = (s2, d2)" by force
    then show ?thesis using Cons.prems False Cons.IH [OF s2] by auto
  qed
qed simp

lemma gc_cases:
  assumes "gc fa c now s = (s', r)"
  obtains (same) "archive_only s s'"
  | (collected) st s1 dead where "mb_state (sv_cols s c) = Some st" "cm_status (st_meta st) = Live"
      "dead = filter (\<lambda>x. \<not> (om_committed x \<and> fa)) (mem_gc_candidates (sv_cols s c) (now - OBJECT_GRACE_MS) GC_BATCH_OBJECTS)"
      "archive_only s s1"
      "s' = fold (\<lambda>x. store_delete (object_key c (om_address x))) dead
        (set_col c (mem_commit (map (\<lambda>x. DeleteObject (om_address x)) dead @ [PutMeta (gc_meta (sv_cols s c) dead (st_meta st))]) (sv_cols s c)) s1)"
proof (cases "rbind (svc_load (sv_cols s c)) (\<lambda>st. rbind (live (cm_status (st_meta st))) (\<lambda>_. Ok st))")
  case (Inl e)
  then show thesis using same assms by (simp add: gc_def)
next
  case (Inr st)
  then have st: "mb_state (sv_cols s c) = Some st" "cm_status (st_meta st) = Live"
    by (auto simp: rbind_Ok_iff svc_load_def ok_or_Ok_iff) (cases "cm_status (st_meta st)"; auto)
  obtain s1 dead where d: "gc_dead fa c (cm_retention_tier (st_meta st))
      (mem_gc_candidates (sv_cols s c) (now - OBJECT_GRACE_MS) GC_BATCH_OBJECTS) s = (s1, dead)" by force
  show thesis
    using collected [OF st] same assms Inr d gc_dead_eq [OF d] by (auto simp: gc_def Let_def split: if_split_asm)
qed

lemma fold_delete_cols [simp]: "sv_cols (fold (\<lambda>x. store_delete (f x)) xs s) = sv_cols s"
  by (induction xs arbitrary: s) auto

lemma gc_moves:
  assumes "gc fa c now s = (s', r)"
  shows "moves cr roots s s'"
  using assms
proof (cases rule: gc_cases)
  case (collected st s1 dead)
  then show ?thesis
    using txn.gc [OF collected(1,2,3)] archive_only_frame [OF collected(4)] by (intro moves_txn) auto
qed (simp add: moves_refl archive_only_frame)

subsection \<open>Administration\<close>

lemma create_params_Ok:
  assumes "create_params place p params s u = (u', Inr (c, it, b, region))"
  shows "genesis_ok c b it"
proof -
  obtain u1 where w: "budget_wire item_from_cbor b u = (u1, Inr it)"
    using assms by (auto simp: create_params_def rbind_Ok_iff map_err_Ok_iff split: sum.split_asm prod.split_asm if_split_asm)
  show ?thesis
    using assms w budget_wire_Ok [OF w] budget_wire_length [OF w]
    by (auto simp: create_params_def genesis_ok_def item_from_bytes_def rbind_Ok_iff map_err_Ok_iff
        split: sum.split_asm prod.split_asm if_split_asm)
qed

lemma create_cases:
  assumes "create_log cr roots place p params now u s = (u', s', r)"
  obtains (same) "s' = s"
  | (created) c it b region payload st rv where "mb_state (sv_cols s c) = None" "genesis_ok c b it"
      "apply_policy_payload cr (empty_state c now region) it 1 roots payload = Inr (st, rv)"
      "s' = set_col c (mem_commit [CreateCollection (created_state (chain_hash (cr_sha256 cr) b) b st), InsertItem (genesis_row b now)] (sv_cols s c)) s"
proof -
  obtain u1 x where p: "create_params place p params s u = (u1, x)" by force
  show thesis
  proof (cases x)
    case (Inl e)
    then show thesis using same assms p by (simp add: create_log_def)
  next
    case (Inr y)
    obtain c it b region where y: "y = (c, it, b, region)" by (cases y)
    have ok: "genesis_ok c b it" using create_params_Ok p Inr y by blast
    show thesis
    proof (cases "mb_state (sv_cols s c)")
      case (Some ex)
      then show thesis using same assms p Inr y by (simp add: create_log_def)
    next
      case None
      obtain u2 w where w: "apply_policy_with_budget cr (empty_state c now region) it 1 roots u1 = (u2, w)" by force
      show thesis
      proof (cases w)
        case (Inl e)
        then show thesis using same assms p \<open>x = Inr y\<close> y None w by (simp add: create_log_def)
      next
        case (Inr z)
        obtain st rv where z: "z = (st, rv)" by force
        obtain payload where "apply_policy_payload cr (empty_state c now region) it 1 roots payload = Inr (st, rv)"
          using w Inr z by (auto simp: apply_policy_with_budget_def rbind_Ok_iff split: prod.splits)
        then show thesis
          by (rule created [OF None ok]) (use assms p \<open>x = Inr y\<close> y None w Inr z in \<open>simp add: create_log_def Let_def\<close>)
      qed
    qed
  qed
qed

lemma create_moves:
  assumes "create_log cr roots place p params now u s = (u', s', r)"
  shows "moves cr roots s s'"
  using assms
proof (cases rule: create_cases)
  case (created c it b region payload st rv)
  then show ?thesis using txn.create [OF created(1-3)] by (intro moves_txn) auto
qed (simp add: moves_refl)

lemma quota_cases:
  assumes "set_quota p params s = (s', r)"
  obtains (same) "s' = s"
  | (set_to) c q st b where "mb_state (sv_cols s c) = Some st"
      "s' = (set_col c (mem_commit [PutMeta ((st_meta st)\<lparr>cm_quotas := q\<rparr>)] (sv_cols s c)) s)\<lparr>sv_buckets := b\<rparr>"
proof (cases "quota_request p params s")
  case (Inl e)
  then show thesis using same assms by (simp add: set_quota_def)
next
  case (Inr x)
  obtain c q m where x: "x = (c, q, m)" by (cases x)
  obtain st where st: "mb_state (sv_cols s c) = Some st" "m = st_meta st"
    using Inr x by (auto simp: quota_request_def rbind_Ok_iff svc_load_def ok_or_Ok_iff split: if_split_asm)
  have "\<exists>q b. s' = (set_col c (mem_commit [PutMeta ((st_meta st)\<lparr>cm_quotas := q\<rparr>)] (sv_cols s c)) s)\<lparr>sv_buckets := b\<rparr>"
    using assms Inr x st(2) by (auto simp: set_quota_def Let_def)
  then show thesis using set_to [OF st(1)] by blast
qed

lemma quota_moves:
  assumes "set_quota p params s = (s', r)"
  shows "moves cr roots s s'"
  using assms
proof (cases rule: quota_cases)
  case (set_to c q st b)
  then show ?thesis using txn.quota [OF set_to(1)] by (intro moves_txn) auto
qed (simp add: moves_refl)

lemma delete_cases:
  assumes "delete_log p params s = (s', r)"
  obtains (same) "s' = s"
  | (deleted) c st d nt where "mb_state (sv_cols s c) = Some st" "cm_status (st_meta st) \<noteq> Gone" "dl_collection d = c"
      "deletion_floor s c = Inr (Some d)"
      "s' = set_col c (mem_commit [PutMeta ((st_meta st)\<lparr>cm_status := Gone, cm_deletion := Some d\<rparr>), Notify nt] (sv_cols s c)) s"
proof -
  let ?pre = "rbind (require_cp p) (\<lambda>_.
          rbind (delete_request params) (\<lambda>requested.
          rbind (deletion_floor s (dl_collection requested)) (\<lambda>fl.
          rbind (ok_or fl deletion_unavailable) (\<lambda>fl.
          if fl \<noteq> requested then Err (deletion_conflict fl)
          else rbind (svc_load (sv_cols s (dl_collection requested))) (\<lambda>st. Ok (requested, st))))))"
  show thesis
  proof (cases ?pre)
    case (Inl e)
    then show thesis using same assms by (simp add: delete_log_def)
  next
    case (Inr x)
    then obtain d st where x: "x = (d, st)" "deletion_floor s (dl_collection d) = Inr (Some d)" "mb_state (sv_cols s (dl_collection d)) = Some st"
      by (auto simp: rbind_Ok_iff svc_load_def ok_or_Ok_iff split: if_split_asm)
    show thesis
      using assms same deleted [OF x(3) _ refl x(2)] unfolding delete_log_def Inr x(1) sum.case prod.case Let_def
      by (auto split: if_split_asm)
  qed
qed

lemma delete_moves:
  assumes "delete_log p params s = (s', r)"
  shows "moves cr roots s s'"
  using assms
proof (cases rule: delete_cases)
  case (deleted c st d nt)
  then show ?thesis using txn.delete [OF deleted(1-3)] by (intro moves_txn) auto
qed (simp add: moves_refl)

lemma record_deletion_frame:
  "record_collection_deletion rec s = (s', r) \<Longrightarrow> sv_cols s' = sv_cols s \<and> sv_objects s' = sv_objects s"
  by (auto simp: record_collection_deletion_def split: sum.split_asm option.split_asm)

lemma credentials_frame: "check_credentials p now fresh s = (s', r) \<Longrightarrow> sv_cols s' = sv_cols s \<and> sv_objects s' = sv_objects s"
  by (auto simp: check_credentials_def Let_def split: Principal.split_asm option.split_asm bool.split_asm if_split_asm prod.split_asm)

lemma revoke_frame: "revoke_device_credentials_call p params now s = (s', r) \<Longrightarrow> sv_cols s' = sv_cols s \<and> sv_objects s' = sv_objects s"
  by (auto simp: revoke_device_credentials_call_def revoke_device_credentials_def split: sum.split_asm)

text \<open>The refinement: a service call is a sequence of collection transactions.\<close>

lemma call_moves: "call cr roots s s' \<Longrightarrow> moves cr roots s s'"
proof (induction rule: call.induct)
  case (upload s c a d bs)
  show ?case by (simp add: moves_refl)
next
  case (record_deletion rec s s' r)
  then show ?case using record_deletion_frame moves_refl by blast
next
  case (credentials p now fresh s s' r)
  then show ?case using credentials_frame moves_refl by blast
next
  case (revoke p params now s s' r)
  then show ?case using revoke_frame moves_refl by blast
qed (blast intro: append_moves put_object_moves commit_object_moves put_snapshot_moves endorse_moves compact_moves
    gc_moves create_moves quota_moves delete_moves)+

end
