(* ===== verification/LogInvariant.thy ===== *)
theory LogInvariant
  imports LogReach
begin

text \<open>
  What holds in every reachable service: the invariant of each collection and the integrity of
  the object store, and what follows for the service's promises (\<open>log-service-api.md\<close>).
\<close>

subsection \<open>The object store\<close>

text \<open>Bytes that are the object their row describes.\<close>

definition object_valid :: "crypto \<Rightarrow> b16 \<Rightarrow> ObjectMeta \<Rightarrow> bytes \<Rightarrow> bool" where
  "object_valid cr c x bs \<longleftrightarrow> om_size x = of_nat (length bs) \<and> length bs \<le> MAX_BYTES \<and> om_checksum x = cr_sha256 cr bs
     \<and> (\<exists>it. item_from_bytes bs = Inr it \<and> check_shape it = Inr () \<and> it_collection it = c \<and> item_kind_value (it_kind it) = om_kind x)
     \<and> (om_kind x \<noteq> item_kind_value BlobPart \<longrightarrow> om_checksum x = om_address x)"

definition objects_ok :: "crypto \<Rightarrow> Service \<Rightarrow> bool" where
  "objects_ok cr s \<longleftrightarrow> (\<forall>c a x. map_of (mb_objects (sv_cols s c)) a = Some x \<longrightarrow>
     (\<exists>bs. sv_objects s (object_key c a) = Some bs \<and> object_valid cr c x bs))"

lemma objects_okD:
  "objects_ok cr s \<Longrightarrow> map_of (mb_objects (sv_cols s c)) a = Some x \<Longrightarrow> \<exists>bs. sv_objects s (object_key c a) = Some bs \<and> object_valid cr c x bs"
  unfolding objects_ok_def by blast

definition svc_inv :: "crypto \<Rightarrow> Service \<Rightarrow> bool" where
  "svc_inv cr s \<longleftrightarrow> (\<forall>c. col_inv cr c (sv_cols s c)) \<and> objects_ok cr s"

lemma validate_Ok:
  assumes "validate_object_bytes cr c a knd sz ck bs u = (u', Inr ())"
  shows "object_valid cr c \<lparr>om_address = a, om_kind = knd, om_size = of_nat (length bs), om_checksum = cr_sha256 cr bs,
      om_committed = True, om_created_at = now\<rparr> bs"
proof -
  have ck: "cr_sha256 cr bs = ck" using assms by (auto simp: validate_object_bytes_def split: if_split_asm)
  obtain u1 it where w: "budget_wire item_from_cbor bs u = (u1, Inr it)"
    using assms by (auto simp: validate_object_bytes_def split: if_split_asm sum.split_asm prod.split_asm)
  have "check_shape it = Inr ()" "it_collection it = c" "item_kind_value (it_kind it) = knd"
    "knd \<noteq> item_kind_value BlobPart \<longrightarrow> ck = a"
    using assms w by (auto simp: validate_object_bytes_def split: if_split_asm sum.split_asm)
  then show ?thesis
    using budget_wire_Ok [OF w] budget_wire_length [OF w] ck by (auto simp: object_valid_def item_from_bytes_def)
qed

lemma verify_upload_Ok:
  assumes "verify_upload_with_budget cr c a bs u = (u', Inr v)"
  shows "object_valid cr c \<lparr>om_address = a, om_kind = vf_kind v, om_size = of_nat (length bs), om_checksum = cr_sha256 cr bs,
      om_committed = True, om_created_at = now\<rparr> bs"
proof -
  obtain u1 u2 where "validate_object_bytes cr c a (vf_kind v) (of_nat (length bs)) (cr_sha256 cr bs) bs u1 = (u2, Inr ())"
    using assms by (auto simp: verify_upload_with_budget_def Let_def split: if_split_asm sum.split_asm prod.split_asm)
  then show ?thesis by (rule validate_Ok)
qed

lemma objects_ok_frame:
  assumes "objects_ok cr s" "\<And>c. mb_objects (sv_cols s' c) = mb_objects (sv_cols s c)"
    and "\<And>c a. sv_objects s' (object_key c a) = sv_objects s (object_key c a)"
  shows "objects_ok cr s'"
  using assms by (simp add: objects_ok_def)

lemma staging_not_object: "object_key c a \<noteq> staging_key c' a' d'"
  by (simp add: object_key_def staging_key_def)

lemma record_object_ok:
  assumes "record_object c om s = (s', r)" "om_committed om" "svc_inv cr s"
    and "sv_objects s (object_key c (om_address om)) = Some bs" "object_valid cr c om bs"
  shows "objects_ok cr s'"
  using assms(1,2)
proof (cases rule: record_object_cases)
  case same
  then show ?thesis using assms(3) by (simp add: svc_inv_def)
next
  case (put st m)
  have ok: "mem_ok (sv_cols s c)" "objects_ok cr s" using assms(3) by (auto simp: svc_inv_def col_inv_def)
  have "map_of (mb_objects (sv_cols s' d)) = (if d = c then (map_of (mb_objects (sv_cols s c)))(om_address om \<mapsto> om) else map_of (mb_objects (sv_cols s d)))" for d
    using ok(1) by (simp add: put(5) mem_commit_def mem_write_def mem_ok_def)
  then show ?thesis using assms(4,5) ok(2) by (auto simp: objects_ok_def put(5) split: if_split_asm)
qed

lemma finalize_ok:
  assumes "finalize cr c a knd bs now u s = (u', s', r)" "svc_inv cr s"
    and valid: "object_valid cr c \<lparr>om_address = a, om_kind = knd, om_size = of_nat (length bs), om_checksum = cr_sha256 cr bs,
      om_committed = True, om_created_at = now\<rparr> bs"
  shows "objects_ok cr s'"
  using assms(1)
proof (cases rule: finalize_cases)
  case vanished
  then show ?thesis using assms(2) by (auto simp: svc_inv_def objects_ok_def)
next
  case (fresh om s1)
  have "objects_ok cr s1" unfolding objects_ok_def
  proof (intro allI impI)
    fix d b x assume "map_of (mb_objects (sv_cols s1 d)) b = Some x"
    then have "map_of (mb_objects (sv_cols s d)) b = Some x" using fresh(2) by simp
    then obtain bs' where "sv_objects s (object_key d b) = Some bs'" "object_valid cr d x bs'"
      using assms(2) objects_okD unfolding svc_inv_def by blast
    then show "\<exists>bs. sv_objects s1 (object_key d b) = Some bs \<and> object_valid cr d x bs" using fresh(1,2) by auto
  qed
  then have "svc_inv cr s1" using assms(2) fresh(2) by (simp add: svc_inv_def)
  then show ?thesis using record_object_ok [OF fresh(4)] fresh(2,3) valid by simp
next
  case (existing om ex u1 u2)
  then show ?thesis using record_object_ok [OF existing(4) _ assms(2)] validate_Ok [OF existing(2)] by simp
qed

lemma put_object_ok:
  assumes "put_object_with_budget cr cf p q now u s = (u', s', r)" "svc_inv cr s"
  shows "objects_ok cr s'"
  using assms(1)
proof (cases rule: put_object_cases)
  case same
  then show ?thesis using assms(2) by (simp add: svc_inv_def)
next
  case (final b u1 u2 u3 r')
  then show ?thesis using finalize_ok [OF final(3) assms(2) validate_Ok [OF final(2)]] by blast
qed

lemma delete_staged_ok: "objects_ok cr s \<Longrightarrow> objects_ok cr (store_delete (staging_key c a d) s)"
  by (rule objects_ok_frame) (simp_all add: store_delete_def staging_not_object)

lemma commit_object_ok:
  assumes "commit_object_with_budget cr Map.empty p q now u s = (u', s', r)" "svc_inv cr s"
  shows "objects_ok cr s'"
  using assms(1)
proof (cases rule: commit_object_cases)
  case same
  then show ?thesis using assms(2) by (simp add: svc_inv_def)
next
  case (staged d u1)
  then show ?thesis
  proof (cases rule: commit_staged_cases)
    case (failed bs v u1 u2 u3 e)
    then show ?thesis using finalize_ok [OF failed(3) assms(2) verify_upload_Ok [OF failed(2)]] by blast
  next
    case (final bs v u1 u2 u3 s1 b)
    then show ?thesis using finalize_ok [OF final(3) assms(2) verify_upload_Ok [OF final(2)]] delete_staged_ok by blast
  qed (use assms(2) delete_staged_ok in \<open>auto simp: svc_inv_def\<close>)
qed

text \<open>The remaining calls: only the collector deletes final objects, together with their rows.\<close>

lemma fold_delete_objects: "sv_objects (fold (\<lambda>x. store_delete (f x)) xs s) k = (if k \<in> f ` set xs then None else sv_objects s k)"
  by (induction xs arbitrary: s) (auto simp: store_delete_def)

lemma gc_ok:
  assumes "gc fa c now s = (s', r)" "svc_inv cr s"
  shows "objects_ok cr s'"
  using assms(1)
proof (cases rule: gc_cases)
  case same
  then show ?thesis using assms(2) archive_only_frame [OF same] by (auto simp: svc_inv_def intro: objects_ok_frame)
next
  case (collected st s1 dead)
  have ok: "mem_ok (sv_cols s c)" "objects_ok cr s" using assms(2) by (auto simp: svc_inv_def col_inv_def)
  have rows: "map_of (mb_objects (sv_cols s' d)) = (if d = c then (\<lambda>a. if a \<in> om_address ` set dead then None
      else map_of (mb_objects (sv_cols s c)) a) else map_of (mb_objects (sv_cols s d)))" for d
    unfolding collected(5) fold_delete_cols sv_cols_set_col
    using archive_only_frame [OF collected(4)] by (simp add: gc_effect(1) [OF ok(1) collected(1)])
  show ?thesis unfolding objects_ok_def
  proof (intro allI impI)
    fix d a x assume "map_of (mb_objects (sv_cols s' d)) a = Some x"
    then have x: "map_of (mb_objects (sv_cols s d)) a = Some x" "d \<noteq> c \<or> a \<notin> om_address ` set dead"
      by (auto simp: rows split: if_split_asm)
    then have "sv_objects s' (object_key d a) = sv_objects s (object_key d a)"
      using archive_only_frame [OF collected(4)] by (auto simp: collected(5) fold_delete_objects object_key_inj)
    then show "\<exists>bs. sv_objects s' (object_key d a) = Some bs \<and> object_valid cr d x bs" using objects_okD [OF ok(2) x(1)] by simp
  qed
qed

lemma commit_objects_frame:
  "list_all (\<lambda>w. (\<forall>x. w \<noteq> PutObject x) \<and> (\<forall>a. w \<noteq> DeleteObject a)) ws \<Longrightarrow> mb_objects (mem_commit ws g) = mb_objects g"
  unfolding mem_commit_def
proof (induction ws arbitrary: g)
  case (Cons w ws)
  have "mb_objects (mem_write w g) = mb_objects g" using Cons.prems by (cases w) (auto simp: mem_write_def split: option.splits)
  then show ?case using Cons by simp
qed simp

text \<open>A call that commits no object write and stores no object.\<close>

lemma other_ok:
  assumes "svc_inv cr s" "sv_objects s' = sv_objects s" "\<And>d. d \<noteq> c \<Longrightarrow> sv_cols s' d = sv_cols s d"
    and "mb_objects (sv_cols s' c) = mb_objects (sv_cols s c)"
  shows "objects_ok cr s'"
  by (rule objects_ok_frame [of cr s]) (use assms in \<open>auto simp: svc_inv_def\<close>, metis)

lemma compact_ok:
  assumes "compact cr fa c now s = Some (s', r)" "svc_inv cr s"
  shows "objects_ok cr s'"
  using assms(1)
proof (cases rule: compact_cases)
  case same
  then show ?thesis using assms(2) archive_only_frame [OF same] by (intro other_ok [OF assms(2)]) auto
next
  case (compacted st s1)
  then show ?thesis using archive_only_frame [OF archive_entries_frame [OF compacted(3)]]
    by (intro other_ok [OF assms(2), of _ c]) (simp_all add: commit_objects_frame)
qed

lemma append_ok:
  assumes "append_with_budget cr roots p ps now u s = (u', s', r)" "svc_inv cr s"
  shows "objects_ok cr s'"
proof (cases r)
  case (Inl f)
  from assms(1) [unfolded this] obtain b where "s' = s\<lparr>sv_buckets := b\<rparr>" by (rule append_FailE)
  then show ?thesis by (intro other_ok [OF assms(2)]) auto
next
  case (Inr oc)
  from assms(1) [unfolded this] show ?thesis
  proof (cases rule: append_OkE)
    case (unchanged b)
    then show ?thesis by (intro other_ok [OF assms(2)]) auto
  next
    case (landed items st ws revoked prev b g')
    then have "mb_objects g' = mb_objects (sv_cols s (ap_collection ps))"
      by (auto simp: append_commit_def Let_def intro!: commit_objects_frame simp: list_all_iff)
    then show ?thesis using landed(3) by (intro other_ok [OF assms(2), of _ "ap_collection ps"]) auto
  qed
qed

lemma put_snapshot_ok:
  assumes "put_snapshot_with_budget cr p q now u s = (u', s', r)" "svc_inv cr s"
  shows "objects_ok cr s'"
  using assms(1)
proof (cases rule: put_snapshot_cases)
  case (put st refs u1 row)
  then show ?thesis by (intro other_ok [OF assms(2), of _ "ps_collection q"]) (auto simp: list_all_iff intro!: commit_objects_frame)
qed (use assms(2) in \<open>simp add: svc_inv_def\<close>)

lemma call_objects_ok: "call cr roots s s' \<Longrightarrow> svc_inv cr s \<Longrightarrow> objects_ok cr s'"
proof (induction rule: call.induct)
  case (upload s c a d bs)
  then show ?case by - (rule objects_ok_frame [of cr s], simp_all add: svc_inv_def staging_not_object)
next
  case (endorse fa p q now s s' r)
  show ?case using endorse(1)
  proof (cases rule: endorse_cases)
    case same
    then show ?thesis using endorse(2) by (simp add: svc_inv_def)
  next
    case (endorsed k r')
    let ?s = "set_col (es_collection q) (mem_commit [EndorseSnapshot k] (sv_cols s (es_collection q))) s"
    have "objects_ok cr ?s" by (intro other_ok [OF endorse(2), of _ "es_collection q"]) (simp_all add: commit_objects_frame)
    then have "svc_inv cr ?s" using endorse(2) endorse_inv by (auto simp: svc_inv_def)
    then show ?thesis using compact_ok [OF endorsed] by blast
  next
    case (again r')
    then show ?thesis using compact_ok endorse(2) by blast
  qed
next
  case (create place p params now u s u' s' r)
  from create(1) show ?case
  proof (cases rule: create_cases)
    case (created c it b region payload st rv)
    then show ?thesis by (intro other_ok [OF create(2), of _ c]) (simp_all add: commit_objects_frame)
  qed (use create(2) in \<open>simp add: svc_inv_def\<close>)
next
  case (quota p params s s' r)
  from quota(1) show ?case
  proof (cases rule: quota_cases)
    case (set_to c q st b)
    then show ?thesis by (intro other_ok [OF quota(2), of _ c]) (simp_all add: commit_objects_frame)
  qed (use quota(2) in \<open>simp add: svc_inv_def\<close>)
next
  case (delete p params s s' r)
  from delete(1) show ?case
  proof (cases rule: delete_cases)
    case (deleted c st d nt)
    then show ?thesis by (intro other_ok [OF delete(2), of _ c]) (simp_all add: commit_objects_frame)
  qed (use delete(2) in \<open>simp add: svc_inv_def\<close>)
next
  case (record_deletion rec s s' r)
  then show ?case using record_deletion_frame by (intro other_ok [OF record_deletion(2)]) auto
next
  case (credentials p now fresh s s' r)
  then show ?case using credentials_frame by (intro other_ok [OF credentials(2)]) auto
next
  case (revoke p params now s s' r)
  then show ?case using revoke_frame by (intro other_ok [OF revoke(2)]) auto
qed (blast intro: append_ok put_object_ok commit_object_ok put_snapshot_ok compact_ok gc_ok)+

subsection \<open>Every reachable service\<close>

lemma moves_inv:
  assumes "moves cr roots s s'" "\<forall>c. col_inv cr c (sv_cols s c)"
  shows "\<forall>c. col_inv cr c (sv_cols s' c)"
proof -
  obtain c g where g: "(txn cr roots c)\<^sup>*\<^sup>* (sv_cols s c) g" "sv_cols s' = (sv_cols s)(c := g)"
    using assms(1) by (auto simp: moves_def)
  from g(1) have "col_inv cr c g" by (induction rule: rtranclp_induct) (use assms(2) txn_inv in blast)+
  then show ?thesis using assms(2) g(2) by simp
qed

lemma call_inv: "call cr roots s s' \<Longrightarrow> svc_inv cr s \<Longrightarrow> svc_inv cr s'"
  using call_objects_ok moves_inv [OF call_moves] by (simp add: svc_inv_def)

lemma svc_inv_new: "svc_inv cr service_new"
  by (simp add: svc_inv_def service_new_def col_inv_empty objects_ok_def) (simp add: mem_empty_def)

lemma reachable_inv: "reachable cr roots s \<Longrightarrow> svc_inv cr s"
  unfolding reachable_def by (induction rule: rtranclp_induct) (auto intro: svc_inv_new call_inv)

end
