(* ===== verification/LogSample.thy ===== *)
theory LogSample
  imports LogInvariant
begin

text \<open>
  A concrete run of the service, the witness of the properties of reachable services: the control
  plane creates a collection with one owner and one enrolled device, the device uploads a chunk
  and appends an entry that refers to it.  \<open>accept_all\<close> is a signature scheme that accepts, with a
  constant hash, so every digest is the zero word.
\<close>

lemma budget_wire_steps:
  assumes "decode bs = Inr v" "fc v = Inr x" "length bs \<le> MAX_BYTES" "us_work_bytes u + length bs \<le> MAX_WORK_BYTES"
    "us_nodes u + cbor_nodes v \<le> MAX_NODES"
  shows "\<exists>u'. budget_wire fc bs u = (u', Inr x) \<and> us_nodes u' = us_nodes u + cbor_nodes v \<and> us_work_bytes u' = us_work_bytes u + length bs"
proof -
  obtain u' where u': "budget_wire fc bs u = (u', Inr x)" using budget_wire_complete [where fc = fc and bs = bs and u = u and v = v and x = x] assms by blast
  have "u' = fst (budget_raw bs u)" using u' by (metis budget_usage fst_conv)
  then show ?thesis using budget_raw_complete [where bs = bs and v = v and u = u] assms u' by simp
qed

lemma accept_all_chain: "chain_hash (cr_sha256 accept_all) b = 0" "CHAIN_ZERO = 0"
  by (simp_all add: chain_hash_def h_def accept_all_def CHAIN_ZERO_def)

subsection \<open>Genesis\<close>

definition genesis_policy :: PolicyPayload where
  "genesis_policy = \<lparr>pp_cert = sample_cert\<lparr>cc_root := 0\<rparr>, pp_issued_at = 5,
     pp_ops = [OpGenesis \<lparr>gn_owner = 7, gn_root = 0, gn_state = E2e\<rparr>,
       OpDeviceEnrol \<lparr>de_device = 9, de_account = 7, de_kind = Desktop, de_sign_pk = 5, de_kem_pk = 0, de_noise_pk = 0,
         de_sas_commit = None, de_local_root = None\<rparr>]\<rparr>"

definition genesis_body :: bytes where
  "genesis_body = projr (policy_payload_to_bytes genesis_policy)"

definition genesis_item :: Item where
  "genesis_item = \<lparr>it_kind = Policy, it_collection = 1, it_seq = Some 1, it_prev = Some 0, it_epoch = None,
     it_signer = Some 0, it_salt = None, it_idem = None, it_refs = None, it_stream = None, it_body = genesis_body, it_sig = Some 6\<rparr>"

definition genesis_bytes :: bytes where
  "genesis_bytes = projr (item_to_bytes genesis_item)"

lemma genesis_body_eq: "policy_payload_to_bytes genesis_policy = Inr genesis_body" "length genesis_body < 400"
  unfolding genesis_body_def by code_simp code_simp

lemma genesis_bytes_eq: "item_to_bytes genesis_item = Inr genesis_bytes" "length genesis_bytes < 600"
  unfolding genesis_bytes_def by code_simp code_simp

lemma genesis_rep: "item_rep genesis_item" "policy_payload_rep genesis_policy"
  using genesis_body_eq(2) by (simp_all add: item_rep_def genesis_item_def policy_payload_rep_def genesis_policy_def)

lemma genesis_nodes: "cbor_nodes (item_to_cbor genesis_item) < 50" "cbor_nodes (policy_payload_to_cbor genesis_policy) < 100"
  by code_simp+

definition genesis_state :: CollectionSt where
  "genesis_state = \<lparr>st_meta = (meta_new 1 0)\<lparr>cm_root := 0, cm_owner := 7, cm_cstate := cstate_value E2e, cm_members := [(7, 2)],
       cm_last_issued_at := 5\<rparr>,
     st_acl = [(9, \<lparr>ac_device = 9, ac_account = 7, ac_kind = device_kind_value Desktop, ac_sign_pk = 5, ac_active = True\<rparr>)]\<rparr>"

lemma genesis_applies:
  "apply_policy_payload accept_all (empty_state 1 0 None) genesis_item 1 [3] genesis_policy = Inr (genesis_state, [])"
proof -
  obtain bs where "item_signed_digest (cr_sha256 accept_all) genesis_item = Inr (h (cr_sha256 accept_all) ''mdbase/v1/item-sig'' bs)"
    using item_digest_total [OF genesis_rep(1)] by auto
  moreover obtain cs where "cp_cert_signed_digest (cr_sha256 accept_all) (pp_cert genesis_policy)
      = Inr (h (cr_sha256 accept_all) ''mdbase/v1/cp-cert'' cs)"
    using cert_digest_total by blast
  moreover have "cr_verify accept_all k d s" for k d s by (simp add: accept_all_def)
  moreover have f: "it_signer genesis_item = Some 0" "it_sig genesis_item = Some 6" "cc_root (pp_cert genesis_policy) = 0"
      "cc_not_before (pp_cert genesis_policy) = 0" "cc_not_after (pp_cert genesis_policy) = 100" "pp_issued_at genesis_policy = 5"
    by (simp_all add: genesis_item_def genesis_policy_def sample_cert_def)
  ultimately have "verify_policy_crypto accept_all genesis_item genesis_policy 0 [3] = Inr 3"
    using f by (simp add: verify_policy_crypto_def key_id_accept_all Let_def sle_0)
  moreover have "governing_root (empty_state 1 0 None) 1 genesis_policy = Inr 0" by (simp add: governing_root_def genesis_policy_def)
  moreover have "apply_ops accept_all genesis_item 1 [3] 3 0 (pp_ops genesis_policy) (empty_state 1 0 None, [], False)
      = Inr (genesis_state\<lparr>st_meta := (st_meta genesis_state)\<lparr>cm_last_issued_at := 0x8000000000000000\<rparr>\<rparr>, [], False)"
    by (simp add: genesis_policy_def empty_state_def apply_op_def op_genesis_def op_device_enrol_def genesis_state_def set_meta_def
        set_acl_def meta_new_def res_simps HOSTED_def ESCROW_def Let_def)
  moreover have "pp_ops genesis_policy \<noteq> []" "is_genesis (hd (pp_ops genesis_policy))"
    "\<not> (5 :: i64) <s cm_last_issued_at (st_meta (empty_state 1 0 None))" "cm_revoked_cp_keys (st_meta (empty_state 1 0 None)) = []"
    by (simp_all add: genesis_policy_def empty_state_def meta_new_def word_sless_alt)
  ultimately show ?thesis
    by (simp add: apply_policy_payload_def res_simps Let_def f sle_0 set_meta_def) (simp add: genesis_state_def meta_new_def)
qed


subsection \<open>Creation\<close>

definition genesis_params :: Cbor where
  "genesis_params = CMap [(Uint 0, b16_to_cbor 1), (Uint 1, CBytes genesis_bytes)]"

lemma genesis_decodes: "\<exists>u'. budget_wire item_from_cbor genesis_bytes budget_default = (u', Inr genesis_item)
    \<and> us_nodes u' < 50 \<and> us_work_bytes u' < 600"
proof -
  have "decode genesis_bytes = Inr (item_to_cbor genesis_item)"
    using cbor.round_trip [OF _ wire_item.to_rep [OF genesis_rep(1)]] genesis_bytes_eq(1) by (simp add: item_to_bytes_def to_bytes_def)
  then show ?thesis
    using budget_wire_steps [of genesis_bytes "item_to_cbor genesis_item" item_from_cbor genesis_item budget_default]
      item_from_to [OF genesis_rep(1)] genesis_bytes_eq(2) genesis_nodes(1)
    by (auto simp: budget_default_def MAX_BYTES_def MAX_WORK_BYTES_def MAX_NODES_def)
qed

lemma genesis_body_decodes:
  assumes "us_nodes u < 50" "us_work_bytes u < 600"
  shows "\<exists>u'. budget_wire policy_payload_from_cbor genesis_body u = (u', Inr genesis_policy)"
proof -
  have "decode genesis_body = Inr (policy_payload_to_cbor genesis_policy)"
    using cbor.round_trip [OF _ wire_policy.to_rep [OF genesis_rep(2)]] genesis_body_eq(1)
    by (simp add: policy_payload_to_bytes_def to_bytes_def)
  then show ?thesis
    using budget_wire_steps [of genesis_body "policy_payload_to_cbor genesis_policy" policy_payload_from_cbor genesis_policy u]
      wire_policy.from_to [OF genesis_rep(2)] genesis_body_eq(2) genesis_nodes(2) assms
    by (auto simp: MAX_BYTES_def MAX_WORK_BYTES_def MAX_NODES_def)
qed

definition created_col :: MemCollection where
  "created_col = mem_commit [CreateCollection (created_state 0 genesis_bytes genesis_state), InsertItem (genesis_row genesis_bytes 0)] mem_empty"

lemma sample_create:
  "\<exists>u'. create_log accept_all [3] (\<lambda>_. Inr None) ControlPlane genesis_params 0 budget_default service_new
    = (u', set_col 1 created_col service_new, Inr (created_reply 0 None))"
proof -
  obtain u where u: "budget_wire item_from_cbor genesis_bytes budget_default = (u, Inr genesis_item)"
      "us_nodes u < 50" "us_work_bytes u < 600" using genesis_decodes by blast
  obtain u' where u': "budget_wire policy_payload_from_cbor genesis_body u = (u', Inr genesis_policy)"
    using genesis_body_decodes [OF u(2,3)] by blast
  have "check_shape genesis_item = Inr ()" by (simp add: check_shape_def genesis_item_def)
  moreover have "refuse_deleted_floor service_new 1 = Inr ()"
    by (simp add: refuse_deleted_floor_def deletion_floor_def service_new_def)
  moreover have "field genesis_params 0 = Some (b16_to_cbor 1)" "field genesis_params 1 = Some (CBytes genesis_bytes)"
    by (simp_all add: field_def genesis_params_def)
  ultimately have "create_params (\<lambda>_. Inr None) ControlPlane genesis_params service_new budget_default
      = (u, Inr (1, genesis_item, genesis_bytes, None))"
    by (simp add: create_params_def require_cp_def uuid_field_def u(1)) (simp add: genesis_item_def CHAIN_ZERO_def)
  moreover have "apply_policy_with_budget accept_all (empty_state 1 0 None) genesis_item 1 [3] u = (u', Inr (genesis_state, []))"
    using u' genesis_applies by (simp add: apply_policy_with_budget_def) (simp add: genesis_item_def)
  moreover have "sv_cols service_new 1 = mem_empty" "mb_state mem_empty = None" by (simp_all add: service_new_def mem_empty_def)
  ultimately show ?thesis
    by (simp add: create_log_def Let_def accept_all_chain created_col_def)
qed


subsection \<open>An object\<close>

definition chunk_item :: Item where
  "chunk_item = \<lparr>it_kind = Chunk, it_collection = 1, it_seq = None, it_prev = None, it_epoch = Some 0,
     it_signer = None, it_salt = Some 2, it_idem = None, it_refs = None, it_stream = None, it_body = [1], it_sig = None\<rparr>"

definition chunk_bytes :: bytes where
  "chunk_bytes = projr (item_to_bytes chunk_item)"

lemma chunk_bytes_eq: "item_to_bytes chunk_item = Inr chunk_bytes" "length chunk_bytes < 200"
  unfolding chunk_bytes_def by code_simp code_simp

lemma chunk_nodes: "cbor_nodes (item_to_cbor chunk_item) < 50"
  by code_simp

lemma chunk_rep: "item_rep chunk_item"
  by (simp add: item_rep_def chunk_item_def)

lemma chunk_shape: "check_shape chunk_item = Inr ()"
  by (simp add: check_shape_def chunk_item_def)

lemma chunk_decodes: "\<exists>u'. budget_wire item_from_cbor chunk_bytes budget_default = (u', Inr chunk_item)"
proof -
  have "decode chunk_bytes = Inr (item_to_cbor chunk_item)"
    using cbor.round_trip [OF _ wire_item.to_rep [OF chunk_rep]] chunk_bytes_eq(1) by (simp add: item_to_bytes_def to_bytes_def)
  then show ?thesis
    using budget_wire_steps [of chunk_bytes "item_to_cbor chunk_item" item_from_cbor chunk_item budget_default]
      item_from_to [OF chunk_rep] chunk_bytes_eq(2) chunk_nodes
    by (auto simp: budget_default_def MAX_BYTES_def MAX_WORK_BYTES_def MAX_NODES_def)
qed

definition chunk_params :: PutObjectParams where
  "chunk_params = \<lparr>po_collection = 1, po_address = 0, po_kind = Chunk, po_size = of_nat (length chunk_bytes), po_checksum = 0,
     po_bytes = Some chunk_bytes\<rparr>"

lemma chunk_validates:
  "\<exists>u'. validate_object_bytes accept_all 1 0 (item_kind_value Chunk) (of_nat (length chunk_bytes)) 0 chunk_bytes budget_default
    = (u', Inr ())"
proof -
  have "it_collection chunk_item = 1" "it_kind chunk_item = Chunk" by (simp_all add: chunk_item_def)
  then show ?thesis using chunk_decodes chunk_shape
    by (auto simp: validate_object_bytes_def accept_all_def)
qed

definition used :: u64 where
  "used = of_nat (length genesis_bytes)"

definition created_meta :: CollectionMeta where
  "created_meta = st_meta (created_state 0 genesis_bytes genesis_state)"

lemma created_meta_fields:
  "cm_status created_meta = Live" "cm_used_bytes created_meta = used" "cm_quotas created_meta = quotas_default"
  "cm_head created_meta = 1" "cm_head_chain created_meta = 0" "cm_id created_meta = 1" "cm_epoch created_meta = 0"
  "cm_members created_meta = [(7, 2)]" "cm_frozen created_meta = False" "cm_rekey_required created_meta = False"
  "cm_restore_plan created_meta = None" "unat used < 600" "unat (of_nat (length chunk_bytes) :: u64) < 200"
  using genesis_bytes_eq(2) chunk_bytes_eq(2)
  by (simp_all add: created_meta_def created_state_def genesis_state_def meta_new_def used_def unat_of_nat take_bit_eq_mod)

lemma created_col_fields:
  "mb_state created_col = Some \<lparr>st_meta = created_meta, st_acl = [(9, sample_acl)]\<rparr>"
  "mb_items created_col = [(1, genesis_row genesis_bytes 0)]" "mb_tokens created_col = []" "mb_objects created_col = []"
  "mb_snapshots created_col = []"
  by (simp_all add: created_col_def mem_commit_def mem_write_def mem_empty_def genesis_row_def)
    (simp add: created_meta_def created_state_def genesis_state_def sample_acl_def)

definition chunk_meta :: ObjectMeta where
  "chunk_meta = \<lparr>om_address = 0, om_kind = item_kind_value Chunk, om_size = of_nat (length chunk_bytes), om_checksum = 0,
     om_committed = True, om_created_at = 0\<rparr>"

definition stored_col :: MemCollection where
  "stored_col = mem_commit [PutMeta (created_meta\<lparr>cm_used_bytes := used + of_nat (length chunk_bytes)\<rparr>), PutObject chunk_meta] created_col"

definition put_service :: Service where
  "put_service = set_col 1 stored_col (service_new\<lparr>sv_cols := (sv_cols service_new)(1 := created_col),
     sv_objects := Map.empty(object_key 1 0 \<mapsto> chunk_bytes)\<rparr>)"

lemma small_sum:
  assumes "unat a < 1000" "unat b < 1000"
  shows "unat (a + b :: u64) = unat a + unat b"
  using assms by (simp add: unat_word_ariths)

lemma chunk_charge: "charge_object created_col chunk_meta created_meta
    = Inr (created_meta\<lparr>cm_used_bytes := used + of_nat (length chunk_bytes)\<rparr>)"
proof -
  have "unat (used + of_nat (length chunk_bytes)) < 1000" "unat used + unat (of_nat (length chunk_bytes) :: u64) < 1000"
    using created_meta_fields(12,13) small_sum [of used "of_nat (length chunk_bytes)"] by linarith+
  moreover have "\<not> 2 ^ 64 \<le> n" if "n < 1000" for n :: nat using that by simp
  moreover have "\<not> qu_storage_bytes quotas_default < w" if "unat w < 1000" for w :: u64
    using that by (simp add: quotas_default_def DEFAULT_STORAGE_BYTES_def MIB_def word_less_nat_alt)
  ultimately show ?thesis
    by (simp add: charge_object_def object_limit_def created_meta_fields(1-11) chunk_meta_def Let_def)
qed

lemma sample_put:
  "\<exists>u'. put_object_with_budget accept_all cf sample_device chunk_params 0 budget_default (set_col 1 created_col service_new)
    = (u', put_service, Inr \<lparr>pr_status = Stored, pr_direct = None\<rparr>)"
proof -
  let ?s = "set_col 1 created_col service_new"
  obtain u where u: "validate_object_bytes accept_all 1 0 (item_kind_value Chunk) (of_nat (length chunk_bytes)) 0 chunk_bytes budget_default
    = (u, Inr ())" using chunk_validates by blast
  have col: "sv_cols ?s 1 = created_col" "sv_objects ?s = Map.empty" "sv_deletions ?s = []"
    by (simp_all add: service_new_def set_col_def)
  have "put_object_checks chunk_params = Inr ()"
    using chunk_bytes_eq(2) by (simp add: put_object_checks_def chunk_params_def MAX_OBJECT_BYTES_def MAX_INLINE_OBJECT_BYTES_def MIB_def
        word_less_nat_alt created_meta_fields(13)  unat_of_nat take_bit_eq_mod)
  moreover have "upload_gate sample_device 1 0 ?s = Inr (\<lparr>st_meta = created_meta, st_acl = [(9, sample_acl)]\<rparr>, 9, False)"
    by (simp add: upload_gate_def active_device_def object_committed_current_def refuse_deleted_floor_def deletion_floor_def col svc_load_def
        created_col_fields sample_device_def device_id_def authorize_def sample_acl_def created_meta_fields(1-11) committed_at_def)
  moreover have "\<not> over_quota created_meta (of_nat (length chunk_bytes))"
    using chunk_charge by (simp add: charge_object_def over_quota_def object_limit_def created_meta_fields(1-11) chunk_meta_def Let_def split: if_splits)
  moreover have "finalize accept_all 1 0 (item_kind_value Chunk) chunk_bytes 0 u ?s = (u, put_service, Inr False)"
    using chunk_charge
    by (simp add: finalize_def store_put_new_def col Let_def record_object_def svc_load_def created_col_fields created_meta_fields(1-11)
        committed_at_def refuse_deleted_floor_def deletion_floor_def chunk_meta_def accept_all_def)
      (simp add: put_service_def stored_col_def chunk_meta_def service_new_def set_col_def)
  moreover have "published_reply put_service 1 0 = Inr True"
    by (simp add: published_reply_def object_committed_current_def put_service_def svc_load_def stored_col_def mem_commit_def mem_write_def
       created_col_fields created_meta_fields(1-11) refuse_deleted_floor_def deletion_floor_def service_new_def committed_at_def chunk_meta_def
       set_col_def)
  ultimately show ?thesis using u
    by (simp add: put_object_with_budget_def chunk_params_def Let_def)
qed


subsection \<open>An entry that refers to the object\<close>

definition ref_entry :: Item where
  "ref_entry = \<lparr>it_kind = Entry, it_collection = 1, it_seq = Some 2, it_prev = Some 0,
     it_epoch = Some 0, it_signer = Some 9, it_salt = Some 2, it_idem = Some 3, it_refs = Some [0],
     it_stream = None, it_body = [1], it_sig = Some 6\<rparr>"

definition ref_bytes :: bytes where
  "ref_bytes = projr (item_to_bytes ref_entry)"

definition ref_params :: AppendParams where
  "ref_params = \<lparr>ap_collection = 1, ap_expect_seq = 2, ap_expect_prev = 0, ap_items = [ref_bytes]\<rparr>"

lemma ref_bytes_eq: "item_to_bytes ref_entry = Inr ref_bytes" "length ref_bytes = 222"
  unfolding ref_bytes_def by code_simp code_simp

lemma ref_rep: "item_rep ref_entry"
  by (simp add: item_rep_def ref_entry_def)

lemma ref_parsed: "\<exists>u. parse_items sample_device 1 2 0 [ref_bytes] budget_default = (u, Inr [ref_entry])"
proof -
  have "decode ref_bytes = Inr (item_to_cbor ref_entry)"
    using cbor.round_trip [OF _ wire_item.to_rep [OF ref_rep]] ref_bytes_eq(1) by (simp add: item_to_bytes_def to_bytes_def)
  moreover have "cbor_nodes (item_to_cbor ref_entry) \<le> 100" by code_simp
  ultimately obtain u where "budget_wire item_from_cbor ref_bytes budget_default = (u, Inr ref_entry)"
    using budget_wire_steps [of ref_bytes "item_to_cbor ref_entry" item_from_cbor ref_entry budget_default] item_from_to [OF ref_rep]
      ref_bytes_eq(2)
    by (auto simp: budget_default_def MAX_BYTES_def MAX_WORK_BYTES_def MAX_NODES_def)
  moreover have "check_shape ref_entry = Inr ()" by (simp add: check_shape_def ref_entry_def)
  ultimately show ?thesis
    by (simp add: parse_item_def ref_bytes_eq(2) MAX_ITEM_BYTES_def MIB_def sample_device_def)
      (simp add: ref_entry_def is_log_item_def MAX_REFS_PER_ITEM_def)
qed

definition stored_meta :: CollectionMeta where
  "stored_meta = created_meta\<lparr>cm_used_bytes := used + of_nat (length chunk_bytes)\<rparr>"

definition stored_state :: CollectionSt where
  "stored_state = \<lparr>st_meta = stored_meta, st_acl = [(9, sample_acl)]\<rparr>"

lemma stored_meta_fields:
  "cm_status stored_meta = Live" "unat (cm_used_bytes stored_meta) < 800" "cm_quotas stored_meta = quotas_default"
  "cm_head stored_meta = 1" "cm_head_chain stored_meta = 0" "cm_id stored_meta = 1" "cm_epoch stored_meta = 0"
  "cm_members stored_meta = [(7, 2)]" "cm_frozen stored_meta = False" "cm_rekey_required stored_meta = False"
  using created_meta_fields small_sum [of used "of_nat (length chunk_bytes)"] by (simp_all add: stored_meta_def)

lemma stored_col_fields:
  "mb_state stored_col = Some stored_state" "mb_items stored_col = [(1, genesis_row genesis_bytes 0)]" "mb_tokens stored_col = []"
  "mb_objects stored_col = [(0, chunk_meta)]" "mb_snapshots stored_col = []"
  by (simp_all add: stored_col_def mem_commit_def mem_write_def created_col_fields stored_state_def stored_meta_def)
    (simp add: chunk_meta_def)

definition ref_meta :: CollectionMeta where
  "ref_meta = stored_meta\<lparr>cm_head := 2, cm_head_chain := 0, cm_used_bytes := cm_used_bytes stored_meta + 222\<rparr>"

definition ref_row :: StoredItem where
  "ref_row = \<lparr>si_seq = 2, si_kind = item_kind_value Entry, si_bytes = ref_bytes, si_appended_at = 1000, si_token = Some 3, si_refs = [0]\<rparr>"

definition ref_col :: MemCollection where
  "ref_col = \<lparr>mb_state = Some \<lparr>st_meta = ref_meta, st_acl = [(9, sample_acl)]\<rparr>,
     mb_items = [(1, genesis_row genesis_bytes 0), (2, ref_row)], mb_tokens = [(3, 2, 1000 + TOKEN_RETENTION_MS)],
     mb_objects = [(0, chunk_meta)], mb_snapshots = []\<rparr>"

lemma ref_gate: "append_gate accept_all sample_device ref_params [ref_entry] stored_col = Inr (Inr stored_state)"
proof -
  have "unat (cm_used_bytes stored_meta + 222) < 1100"
    using stored_meta_fields(2) small_sum [of "cm_used_bytes stored_meta" 222] by simp
  then have "\<not> qu_storage_bytes quotas_default < cm_used_bytes stored_meta + 222"
    by (simp add: quotas_default_def DEFAULT_STORAGE_BYTES_def MIB_def word_less_nat_alt)
  moreover have "\<not> (2 :: u64) \<le> 1" by (simp add: word_le_nat_alt)
  ultimately show ?thesis
    by (simp add: append_gate_def svc_load_def stored_col_fields stored_state_def authorize_def sample_device_def sample_acl_def
        stored_meta_fields append_replay_def ref_params_def batch_bytes_def ref_bytes_eq(2))
qed

lemma ref_rates:
  "\<exists>b. append_rates sample_device 1 quotas_default 1 222 (repair_items sample_device [ref_entry]) 1000 [] = (b, Inr ())"
proof -
  have q: "quotas_default = \<lparr>qu_storage_bytes = 1073741824, qu_items_per_s = 50, qu_bytes_per_s = 4194304, qu_burst_items = 500\<rparr>"
    by (simp add: quotas_default_def DEFAULT_ITEMS_PER_S_def DEFAULT_BYTES_PER_S_def DEFAULT_BURST_ITEMS_def DEFAULT_STORAGE_BYTES_def MIB_def)
  have s: "sat_mul 500 1000 = 500000" "sat_mul 4194304 4 = 16777216" "sat_mul 0 50 = 0" "sat_mul 0 4194304 = 0"
     "sat_add 500000 0 = 500000" "sat_add 16777216 0 = 16777216" by (simp_all add: sat_mul_def sat_add_def)
  have r: "repair_items sample_device [ref_entry] = 0" by (simp add: repair_items_def sample_device_def ref_entry_def)
  have f: "refill quotas_default 1000 \<lparr>bk_items_milli = 500000, bk_bytes = 16777216, bk_at = 1000\<rparr>
      = \<lparr>bk_items_milli = 500000, bk_bytes = 16777216, bk_at = 1000\<rparr>"
    by (simp add: refill_def q s clamp_dt_def word_sless_alt)
  have "rate_check 1 quotas_default 1 222 1000 [] = ([(1, \<lparr>bk_items_milli = 499000, bk_bytes = 16776994, bk_at = 1000\<rparr>)], Inr ())"
    unfolding rate_check_def Let_def by (simp add: q s f [unfolded q])
  then show ?thesis by (simp add: append_rates_def sample_device_def r [unfolded sample_device_def])
qed

lemma ref_batch:
  "\<exists>oc nt. append_batch accept_all [3] sample_device ref_params 1000 [ref_entry] stored_state stored_col u = (u, Inr (ref_col, oc))
    \<and> oc_notice oc = Some nt"
proof -
  obtain bs where dg: "item_signed_digest (cr_sha256 accept_all) ref_entry = Inr (h (cr_sha256 accept_all) ''mdbase/v1/item-sig'' bs)"
    using item_digest_total [OF ref_rep] by blast
  have acl: "map_of (st_acl stored_state) 9 = Some sample_acl" "ac_active sample_acl" "ac_kind sample_acl \<noteq> ESCROW" "ac_account sample_acl = 7"
    by (simp_all add: stored_state_def sample_acl_def ESCROW_def)
  have "check_signer accept_all stored_state ref_entry 0 = Inr sample_acl"
    unfolding check_signer_def using dg acl by (simp add: ref_entry_def accept_all_def)
  moreover have "check_content stored_state ref_entry 0 sample_acl = Inr ()"
    by (simp add: check_content_def acl) (simp add: stored_state_def stored_meta_fields ref_entry_def word_le_nat_alt)
  moreover have "it_kind ref_entry = Entry" by (simp add: ref_entry_def)
  ultimately have ci: "check_item accept_all stored_state ref_entry seq 0 [3] u = (u, Inr (stored_state, []))" for seq
    by (simp add: check_item_def)
  have "append_tokens stored_col 1000 [ref_entry] = Inr None"
    by (simp add: append_tokens_def ref_entry_def stored_col_fields mem_tokens_def)
  moreover have "append_refs stored_col [ref_entry] = Inr ()"
    by (simp add: append_refs_def batch_refs_def ref_entry_def mem_objects_def stored_col_fields chunk_meta_def ref_index_kind_def)
  moreover have "check_chain accept_all 0 0 [(ref_entry, ref_bytes)] = Inr 0"
    by (simp add: ref_entry_def accept_all_chain)
  moreover have "\<exists>oc nt. append_commit sample_device ref_params 1000 [ref_entry] stored_state stored_state [] 0 stored_col = (ref_col, oc)
      \<and> oc_notice oc = Some nt"
  proof -
    have "fst (append_commit sample_device ref_params 1000 [ref_entry] stored_state stored_state [] 0 stored_col) = ref_col"
      by (rule MemCollection.equality)
        (simp_all add: append_commit_def Let_def mem_commit_def mem_write_def stored_item_def changed_acl_def ref_params_def batch_bytes_def
          ref_bytes_eq(2) stored_col_fields stored_state_def ref_col_def ref_row_def ref_meta_def ref_entry_def genesis_row_def)
    moreover have "oc_notice (snd (append_commit sample_device ref_params 1000 [ref_entry] stored_state stored_state [] 0 stored_col)) \<noteq> None"
      by (simp add: append_commit_def Let_def)
    ultimately show ?thesis by (metis option.exhaust prod.collapse)
  qed
  ultimately show ?thesis
    using ci by (auto simp: append_batch_def) (auto simp: ref_params_def)
qed

text \<open>The run as a whole.\<close>

definition run_service :: "(b16, Bucket) bmap \<Rightarrow> Service" where
  "run_service b = set_col 1 ref_col (put_service\<lparr>sv_buckets := b\<rparr>)"

lemma ref_append:
  "\<exists>u' b oc nt. append_with_budget accept_all [3] sample_device ref_params 1000 budget_default put_service = (u', run_service b, Inr oc)
     \<and> oc_notice oc = Some nt"
proof -
  obtain u where 1: "parse_items sample_device 1 2 0 [ref_bytes] budget_default = (u, Inr [ref_entry])"
    using ref_parsed by blast
  obtain b where 2: "append_rates sample_device 1 quotas_default 1 222 (repair_items sample_device [ref_entry]) 1000 [] = (b, Inr ())"
    using ref_rates by blast
  obtain oc nt where 3: "append_batch accept_all [3] sample_device ref_params 1000 [ref_entry] stored_state stored_col u = (u, Inr (ref_col, oc))"
      "oc_notice oc = Some nt" using ref_batch by blast
  have f: "append_counts ref_params = Inr ()" "ap_collection ref_params = 1" "ap_expect_seq ref_params = 2"
      "ap_items ref_params = [ref_bytes]" "sv_buckets put_service = []" "cm_quotas (st_meta stored_state) = quotas_default"
      "batch_bytes [ref_bytes] = 222" "sv_cols put_service 1 = stored_col"
    by (simp_all add: append_counts_def ref_params_def MAX_BATCH_ITEMS_def MAX_BATCH_BYTES_def MIB_def batch_bytes_def ref_bytes_eq(2)
        put_service_def service_new_def set_col_def stored_state_def stored_meta_fields)
  show ?thesis using 1 2 3 ref_gate by (simp add: append_with_budget_def f run_service_def) blast
qed

lemma run_reachable: "\<exists>b. reachable accept_all [3] (run_service b)" "reachable accept_all [3] put_service"
proof -
  have "call accept_all [3] service_new (set_col 1 created_col service_new)" using sample_create call.create by blast
  moreover have "call accept_all [3] (set_col 1 created_col service_new) put_service" using sample_put call.put_object by blast
  ultimately show 1: "reachable accept_all [3] put_service" unfolding reachable_def by (meson rtranclp.rtrancl_into_rtrancl rtranclp.rtrancl_refl)
  obtain u' b oc where "append_with_budget accept_all [3] sample_device ref_params 1000 budget_default put_service = (u', run_service b, Inr oc)"
    using ref_append by blast
  then have "call accept_all [3] put_service (run_service b)" by (rule call.append)
  then show "\<exists>b. reachable accept_all [3] (run_service b)" using 1 unfolding reachable_def by (meson rtranclp.rtrancl_into_rtrancl)
qed

lemma run_fields:
  "sv_cols (run_service b) 1 = ref_col" "sv_objects (run_service b) = Map.empty(object_key 1 0 \<mapsto> chunk_bytes)"
  "sv_deletions (run_service b) = []" "mb_state ref_col = Some \<lparr>st_meta = ref_meta, st_acl = [(9, sample_acl)]\<rparr>"
  "cm_status ref_meta = Live" "cm_head ref_meta = 2" "cm_id ref_meta = 1" "cm_members ref_meta = [(7, 2)]"
  by (simp_all add: run_service_def put_service_def set_col_def ref_col_def ref_meta_def stored_meta_fields service_new_def)

end
