(* ===== verification/LogHistory.thy ===== *)
theory LogHistory
  imports LogSample
begin

text \<open>
  The abstract specification of the log service: a collection is an append-only list of item
  bytes.  \<open>represents\<close> relates a collection to the list of everything ever accepted into it;
  compaction forgets rows, never history.  Every call of the service is simulated by appends to
  the list, the head of a collection commits to the whole list, and a deletion is final.
\<close>

subsection \<open>Histories\<close>

text \<open>A well-linked history of collection \<open>c\<close>: every item at its position, chained to the one
  before.\<close>

definition history :: "crypto \<Rightarrow> b16 \<Rightarrow> bytes list \<Rightarrow> bool" where
  "history cr c H \<longleftrightarrow> (\<forall>j < length H. \<exists>it. item_from_bytes (H ! j) = Inr it \<and> it_collection it = c \<and> it_seq it = Some (of_nat (j + 1))
     \<and> it_prev it = Some (if j = 0 then CHAIN_ZERO else chain_hash (cr_sha256 cr) (H ! (j - 1))))"

definition represents :: "crypto \<Rightarrow> b16 \<Rightarrow> bytes list \<Rightarrow> MemCollection \<Rightarrow> bool" where
  "represents cr c H g \<longleftrightarrow> history cr c H \<and>
     (case mb_state g of
        None \<Rightarrow> H = []
      | Some st \<Rightarrow> H \<noteq> [] \<and> length H = unat (cm_head (st_meta st)) \<and> cm_head_chain (st_meta st) = chain_hash (cr_sha256 cr) (last H)
          \<and> (\<forall>k i. map_of (mb_items g) k = Some i \<longrightarrow> si_bytes i = H ! (unat k - 1)))"

lemma representsD:
  assumes "represents cr c H g" "mb_state g = Some st"
  shows "history cr c H" "H \<noteq> []" "length H = unat (cm_head (st_meta st))"
    "cm_head_chain (st_meta st) = chain_hash (cr_sha256 cr) (last H)"
    "map_of (mb_items g) k = Some i \<Longrightarrow> si_bytes i = H ! (unat k - 1)"
  using assms by (auto simp: represents_def)

lemma history_append:
  assumes "history cr c H" "H \<noteq> []"
    and new: "\<And>j. j < length new \<Longrightarrow> \<exists>it. item_from_bytes (new ! j) = Inr it \<and> it_collection it = c
       \<and> it_seq it = Some (of_nat (length H + j + 1))
       \<and> it_prev it = Some (if j = 0 then chain_hash (cr_sha256 cr) (last H) else chain_hash (cr_sha256 cr) (new ! (j - 1)))"
  shows "history cr c (H @ new)"
  unfolding history_def
proof (intro allI impI)
  fix j assume j: "j < length (H @ new)"
  show "\<exists>it. item_from_bytes ((H @ new) ! j) = Inr it \<and> it_collection it = c \<and> it_seq it = Some (of_nat (j + 1))
     \<and> it_prev it = Some (if j = 0 then CHAIN_ZERO else chain_hash (cr_sha256 cr) ((H @ new) ! (j - 1)))"
  proof (cases "j < length H")
    case True
    then show ?thesis using assms(1) by (auto simp: history_def nth_append)
  next
    case False
    define l where "l = j - length H"
    have l: "j = length H + l" "l < length new" "length H \<noteq> 0" using False j assms(2) by (auto simp: l_def)
    have "(H @ new) ! (j - 1) = (if l = 0 then last H else new ! (l - 1))"
      using l by (auto simp: nth_append last_conv_nth)
    then show ?thesis using new [OF l(2)] l by (auto simp: nth_append)
  qed
qed

text \<open>A step that keeps head and chain and adds no row keeps the history.\<close>

lemma represents_frame:
  assumes "represents cr c H g" "mb_state g = Some st" "mb_state g' = Some st'"
    and "cm_head (st_meta st') = cm_head (st_meta st)" "cm_head_chain (st_meta st') = cm_head_chain (st_meta st)"
    and "map_of (mb_items g') \<subseteq>\<^sub>m map_of (mb_items g)"
  shows "represents cr c (H @ []) g'"
  using assms by (auto simp: represents_def map_le_def dom_def)


subsection \<open>Transactions on histories\<close>

text \<open>What every transaction but a creation and an append leaves alone.\<close>

definition kept :: "MemCollection \<Rightarrow> MemCollection \<Rightarrow> bool" where
  "kept g g' \<longleftrightarrow> g' = g \<or> (\<exists>st st'. mb_state g = Some st \<and> mb_state g' = Some st'
     \<and> cm_head (st_meta st') = cm_head (st_meta st) \<and> cm_head_chain (st_meta st') = cm_head_chain (st_meta st)
     \<and> st_acl st' = st_acl st \<and> cm_members (st_meta st') = cm_members (st_meta st)
     \<and> map_of (mb_items g') \<subseteq>\<^sub>m map_of (mb_items g)
     \<and> (cm_retained_from (st_meta st') = cm_retained_from (st_meta st)
          \<or> (\<forall>k i. map_of (mb_items g') k = Some i \<and> si_kind i = 1 \<longrightarrow> cm_retained_from (st_meta st') \<le> k))
     \<and> (cm_status (st_meta st) = Gone \<longrightarrow>
          cm_status (st_meta st') = Gone \<and> cm_deletion (st_meta st') = cm_deletion (st_meta st) \<and> mb_objects g' = mb_objects g))"

lemma keptI:
  assumes "mb_state g = Some st" "mb_state g' = Some (st\<lparr>st_meta := m\<rparr>)" "cm_head m = cm_head (st_meta st)"
    "cm_head_chain m = cm_head_chain (st_meta st)" "cm_members m = cm_members (st_meta st)"
    "map_of (mb_items g') \<subseteq>\<^sub>m map_of (mb_items g)"
    "cm_retained_from m = cm_retained_from (st_meta st)
      \<or> (\<forall>k i. map_of (mb_items g') k = Some i \<and> si_kind i = 1 \<longrightarrow> cm_retained_from m \<le> k)"
    "cm_status (st_meta st) = Gone \<Longrightarrow> cm_status m = Gone \<and> cm_deletion m = cm_deletion (st_meta st) \<and> mb_objects g' = mb_objects g"
  shows "kept g g'"
  using assms by (auto simp: kept_def)

lemma kept_same:
  assumes "mb_state g = Some st" "mb_state g' = mb_state g" "mb_items g' = mb_items g" "mb_objects g' = mb_objects g"
  shows "kept g g'"
  using assms by (auto simp: kept_def)

lemma charge_object_frame:
  assumes "charge_object g om m = Inr n"
  shows "cm_head n = cm_head m" "cm_head_chain n = cm_head_chain m" "cm_members n = cm_members m" "cm_status n = cm_status m"
    "cm_retained_from n = cm_retained_from m"
  using assms by (auto simp: charge_object_def Let_def split: if_splits)

lemma gc_meta_frame:
  "cm_head (gc_meta g d m) = cm_head m" "cm_head_chain (gc_meta g d m) = cm_head_chain m" "cm_members (gc_meta g d m) = cm_members m"
  "cm_status (gc_meta g d m) = cm_status m" "cm_deletion (gc_meta g d m) = cm_deletion m" "cm_retained_from (gc_meta g d m) = cm_retained_from m"
  by (simp_all add: gc_meta_def Let_def)

lemma txn_kept:
  assumes "txn cr roots c g g'" "col_inv cr c g"
  obtains (create) b it now region payload st rv where "mb_state g = None" "genesis_ok c b it"
      "apply_policy_payload cr (empty_state c now region) it 1 roots payload = Inr (st, rv)"
      "g' = mem_commit [CreateCollection (created_state (chain_hash (cr_sha256 cr) b) b st), InsertItem (genesis_row b now)] g"
  | (append) p ps now items st ws revoked prev oc where "lands cr roots p ps now g items st ws revoked prev" "ap_collection ps = c"
      "append_commit p ps now items st ws revoked prev g = (g', oc)"
  | (kept) "kept g g'"
proof -
  have ok: "mem_ok g" using assms(2) by (simp add: col_inv_def)
  show thesis using assms(1)
  proof cases
    case (create b it now region payload st rv)
    then show thesis using that(1) by blast
  next
    case (append p ps now items st ws revoked prev oc)
    then show thesis using that(2) by blast
  next
    case (object st om m)
    note m = charge_object_frame [OF object(6)]
    show thesis using object(2,3) m by (intro that(3) keptI [of g st _ m]) (simp_all add: object(1) mem_commit_def mem_write_def)
  next
    case (snapshot st row)
    have "mem_ok (mem_write (InsertSnapshot row) g)" using ok mem.write_invar by blast
    note del = commit_delete_snapshots [OF this, of "drop (RETAINED_SNAPSHOTS - 1) (mem_snapshots g)"]
    have ins: "mb_state (mem_write (InsertSnapshot row) g) = mb_state g" "mb_items (mem_write (InsertSnapshot row) g) = mb_items g"
      "mb_objects (mem_write (InsertSnapshot row) g) = mb_objects g" by (simp_all add: mem_write_def)
    from del ins show thesis by (intro that(3) kept_same [OF snapshot(2)]) (simp_all add: snapshot(1) mem_commit_def)
  next
    case (endorse q)
    show thesis
    proof (cases "mb_state g")
      case None
      then have "g = mem_empty" using assms(2) by (simp add: col_inv_def)
      then have "g' = g" by (simp add: endorse mem_commit_def mem_write_def mem_empty_def)
      then show thesis using that(3) by (simp add: kept_def)
    next
      case (Some st)
      then show thesis by (intro that(3) kept_same) (simp_all add: endorse mem_commit_def mem_write_def split: option.splits)
    qed
  next
    case (compact st now)
    have "map_of (mb_items g') \<subseteq>\<^sub>m map_of (mb_items g)"
      using ok by (auto simp: compact(1) mem_commit_def mem_write_def mem_ok_def map_le_def bm_filter_lookup dom_def split: option.splits if_splits)
    moreover have "\<forall>k i. map_of (mb_items g') k = Some i \<and> si_kind i = 1 \<longrightarrow> compaction_point st g now + 1 \<le> k"
      using ok by (auto simp: compact(1) mem_commit_def mem_write_def mem_ok_def bm_filter_lookup split: option.splits if_splits intro: inc_le)
    ultimately show thesis
      by (intro that(3) keptI [OF compact(2), of _ "compacted_meta g (compaction_point st g now) (st_meta st)"])
        (simp_all add: compact(1,2) mem_commit_def mem_write_def compacted_meta_def)
  next
    case (gc st dead P before limit)
    note eff = gc_effect [OF ok gc(2), of dead "gc_meta g dead (st_meta st)"]
    show thesis using gc(3)
      by (intro that(3) keptI [OF gc(2), of _ "gc_meta g dead (st_meta st)"]) (simp_all add: gc(1) eff gc_meta_frame)
  next
    case (quota st q)
    show thesis
      by (intro that(3) keptI [OF quota(2), of _ "(st_meta st)\<lparr>cm_quotas := q\<rparr>"]) (simp_all add: quota mem_commit_def mem_write_def)
  next
    case (delete st r nt)
    show thesis using delete(3)
      by (intro that(3) keptI [OF delete(2), of _ "(st_meta st)\<lparr>cm_status := Gone, cm_deletion := Some r\<rparr>"])
        (simp_all add: delete(1,2) mem_commit_def mem_write_def)
  qed
qed


lemma represents_create:
  assumes "genesis_ok c b it" "g = mem_empty"
  shows "represents cr c [b] (mem_commit [CreateCollection (created_state (chain_hash (cr_sha256 cr) b) b st), InsertItem (genesis_row b now)] g)"
  using assms
  by (auto simp: represents_def history_def genesis_ok_def mem_commit_def mem_write_def genesis_row_def created_state_def mem_empty_def
      split: if_splits)

lemma represents_append:
  assumes H: "represents cr c H g" and inv: "col_inv cr c g"
    and lands: "lands cr roots p ps now g items st ws revoked prev" and c: "ap_collection ps = c"
    and commit: "append_commit p ps now items st ws revoked prev g = (g', oc)"
  shows "represents cr c (H @ ap_items ps) g'"
proof -
  have st: "mb_state g = Some st" using append_gate_Ok(1) lands by (auto simp: lands_def)
  note I = col_invD [OF inv st] and R = representsD [OF H st] and h = lands_head [OF lands] and ch = lands_chain [OF lands]
  note eff = append_commit_effect [OF commit lands I(1,2)]
  have hist: "history cr c (H @ ap_items ps)"
  proof (rule history_append [OF R(1,2)])
    fix j assume j: "j < length (ap_items ps)"
    note rows = append_rows [OF lands j refl]
    have "of_nat (length H + j + 1) = cm_head (st_meta st) + 1 + (of_nat j :: u64)" by (simp add: R(3))
    then show "\<exists>it. item_from_bytes (ap_items ps ! j) = Inr it \<and> it_collection it = c \<and> it_seq it = Some (of_nat (length H + j + 1))
       \<and> it_prev it = Some (if j = 0 then chain_hash (cr_sha256 cr) (last H) else chain_hash (cr_sha256 cr) (ap_items ps ! (j - 1)))"
      using rows(2,3) R(4) c by (auto simp: parsed_def)
  qed
  have items: "si_bytes i = (H @ ap_items ps) ! (unat k - 1)" if "map_of (mb_items g') k = Some i" for k i
  proof (cases rule: append_items [OF commit lands I(1,2) that, case_names old new])
    case old
    then have "1 \<le> k" "k \<le> cm_head (st_meta st)" using log_okD(4,5) [OF I(5)] by blast+
    then have "unat k - 1 < length H" using R(3) by (auto simp: word_le_nat_alt)
    then show ?thesis using R(5) [OF old(1)] by (simp add: nth_append)
  next
    case (new j)
    then have "unat k = length H + 1 + j" using append_rows(1) [OF lands new(1,2)] R(3) by simp
    then show ?thesis using new by (simp add: nth_append stored_item_def)
  qed
  show ?thesis
    using hist R(2,3) eff(2) h(3) ch(2,4) items by (simp add: represents_def landed_meta_def)
qed

lemma txn_represents:
  assumes "txn cr roots c g g'" "col_inv cr c g" "represents cr c H g"
  shows "\<exists>new. represents cr c (H @ new) g'"
  using assms(1,2)
proof (cases rule: txn_kept)
  case (create b it now region payload st rv)
  then have "g = mem_empty" "H = []" using assms(2,3) by (simp_all add: col_inv_def represents_def)
  then show ?thesis using represents_create [OF create(2)] create(4) by (metis append_Nil)
next
  case (append p ps now items st ws revoked prev oc)
  then show ?thesis using represents_append [OF assms(3,2)] by blast
next
  case kept
  then show ?thesis using represents_frame [OF assms(3)] assms(3) unfolding kept_def by (metis append_Nil2)
qed

lemma txns_represents:
  assumes "(txn cr roots c)\<^sup>*\<^sup>* g g'" "col_inv cr c g" "represents cr c H g"
  shows "\<exists>new. represents cr c (H @ new) g' \<and> col_inv cr c g'"
  using assms(1)
proof (induction rule: rtranclp_induct)
  case base
  then show ?case using assms(2,3) by (metis append_Nil2)
next
  case (step y z)
  then show ?case using txn_represents txn_inv by (metis append_assoc)
qed

lemma call_txns:
  assumes "call cr roots s s'"
  shows "(txn cr roots c)\<^sup>*\<^sup>* (sv_cols s c) (sv_cols s' c)"
  using call_moves [OF assms] by (auto simp: moves_def)

lemma calls_txns: "(call cr roots)\<^sup>*\<^sup>* s s' \<Longrightarrow> (txn cr roots c)\<^sup>*\<^sup>* (sv_cols s c) (sv_cols s' c)"
  by (induction rule: rtranclp_induct) (auto intro: rtranclp_trans call_txns)

lemma represents_new: "represents cr c [] (sv_cols service_new c)"
  by (simp add: represents_def history_def service_new_def mem_empty_def)

lemma reachable_col_inv: "reachable cr roots s \<Longrightarrow> col_inv cr c (sv_cols s c)"
  using reachable_inv by (auto simp: svc_inv_def)

lemma reachable_represents: "reachable cr roots s \<Longrightarrow> \<exists>H. represents cr c H (sv_cols s c)"
  using txns_represents [OF calls_txns _ represents_new, of cr roots s c] reachable_col_inv [of cr roots service_new c]
  by (fastforce simp: reachable_def)


subsection \<open>The log is append-only\<close>

text \<open>C1. The log refines an append-only list: whatever a reachable service has accepted into a
  collection, a list of item bytes describes it, and after any further calls (appends, compactions,
  collections of garbage, quota changes, deletion) that list has only been extended at its end; the
  head is its length, the head's chain value the hash of its last item, and every stored row is its
  element at the row's position.\<close>

theorem log_append_only:
  assumes "reachable cr roots s" "(call cr roots)\<^sup>*\<^sup>* s s'"
  shows "\<exists>H new. represents cr c H (sv_cols s c) \<and> represents cr c (H @ new) (sv_cols s' c)"
proof -
  obtain H where H: "represents cr c H (sv_cols s c)" using reachable_represents [OF assms(1)] by blast
  then show ?thesis using txns_represents [OF calls_txns [OF assms(2)] reachable_col_inv [OF assms(1)]] by blast
qed

theorem log_append_only_witness:
  "\<exists>b H new. represents accept_all 1 H (sv_cols put_service 1) \<and> represents accept_all 1 (H @ new) (sv_cols (run_service b) 1)"
proof -
  obtain u' b oc where run: "append_with_budget accept_all [3] sample_device ref_params 1000 budget_default put_service = (u', run_service b, Inr oc)"
    using ref_append by blast
  show ?thesis using log_append_only [OF run_reachable(2) r_into_rtranclp [of "call accept_all [3]", OF call.append [OF run]], of 1] by blast
qed

subsection \<open>The head commits to the log\<close>

text \<open>Two well-formed logs under the same head agree on every position both retain, unless their rows
  collide somewhere.\<close>

lemma log_ok_agree:
  assumes ok: "log_ok cr c m f" and ok': "log_ok cr c m' f'"
    and hd: "cm_head m' = cm_head m" "cm_head_chain m' = cm_head_chain m"
    and none: "\<And>j i i'. f j = Some i \<Longrightarrow> f' j = Some i' \<Longrightarrow>
       chain_hash (cr_sha256 cr) (si_bytes i) = chain_hash (cr_sha256 cr) (si_bytes i') \<Longrightarrow> si_bytes i = si_bytes i'"
    and "cm_retained_from m \<le> k" "cm_retained_from m' \<le> k" "k \<le> cm_head m"
  shows "\<exists>i i'. f k = Some i \<and> f' k = Some i' \<and> si_bytes i = si_bytes i'"
  using assms(6-8)
proof (induction "unat (cm_head m) - unat k" arbitrary: k)
  case 0
  then have "k = cm_head m" by (simp add: word_le_nat_alt word_unat_eq_iff)
  then show ?case using log_okD(9) [OF ok] log_okD(9) [OF ok'] none hd by metis
next
  case (Suc n)
  then have less: "unat k < unat (cm_head m)" by simp
  then have k1: "unat (k + 1) = unat k + 1" using log_okD(3) [OF ok] by (simp add: unat_word_ariths)
  then have up: "k \<le> k + 1" "k + 1 \<le> cm_head m" using less by (simp_all add: word_le_nat_alt)
  have low: "cm_retained_from m \<le> k + 1" "cm_retained_from m' \<le> k + 1" using Suc.prems(1,2) up(1) by (auto intro: order_trans)
  have idx: "n = unat (cm_head m) - unat (k + 1)" using Suc.hyps(2) less k1 by arith
  obtain i1 i1' where next_row: "f (k + 1) = Some i1" "f' (k + 1) = Some i1'" "si_bytes i1 = si_bytes i1'"
    using Suc.hyps(1) [OF idx low up(2)] by blast
  obtain i where i: "f k = Some i" using log_okD(7) [OF ok] Suc.prems by blast
  obtain i' where i': "f' k = Some i'" using log_okD(7) [OF ok'] Suc.prems hd by metis
  obtain it where it: "row_ok c (k + 1) i1 it" using log_okD(6) [OF ok next_row(1)] by blast
  obtain it' where it': "row_ok c (k + 1) i1' it'" using log_okD(6) [OF ok' next_row(2)] by blast
  have "it' = it" using it it' next_row(3) by (simp add: row_ok_def)
  then have "chain_hash (cr_sha256 cr) (si_bytes i) = chain_hash (cr_sha256 cr) (si_bytes i')"
    using log_okD(8) [OF ok i next_row(1) it] log_okD(8) [OF ok' i' next_row(2) it'] by simp
  then show ?case using none [OF i i'] i i' by blast
qed

text \<open>C4. The head commits to the log: take two reachable services, of one deployment at two times or of
  two deployments with the same hash and signature check, whose copies of a collection show the same
  head position and chain value.  Then they store the same bytes at every position that both
  retain, or the two exhibit a collision of the chain hash: at some position both store a row, with
  different bytes and the same chain hash.\<close>

theorem head_commits_to_history:
  assumes "reachable cr roots s" "reachable cr roots' s'"
    and "mb_state (sv_cols s c) = Some st" "mb_state (sv_cols s' c) = Some st'"
    and "cm_head (st_meta st') = cm_head (st_meta st)" "cm_head_chain (st_meta st') = cm_head_chain (st_meta st)"
  shows "(\<forall>k. cm_retained_from (st_meta st) \<le> k \<and> cm_retained_from (st_meta st') \<le> k \<longrightarrow>
      map_option si_bytes (map_of (mb_items (sv_cols s c)) k) = map_option si_bytes (map_of (mb_items (sv_cols s' c)) k)
      \<and> (map_of (mb_items (sv_cols s c)) k \<noteq> None \<longleftrightarrow> k \<le> cm_head (st_meta st)))
    \<or> (\<exists>j i i'. map_of (mb_items (sv_cols s c)) j = Some i \<and> map_of (mb_items (sv_cols s' c)) j = Some i'
        \<and> si_bytes i \<noteq> si_bytes i' \<and> chain_hash (cr_sha256 cr) (si_bytes i) = chain_hash (cr_sha256 cr) (si_bytes i'))"
    (is "?same \<or> ?collision")
proof (rule disjCI)
  let ?f = "map_of (mb_items (sv_cols s c))" and ?f' = "map_of (mb_items (sv_cols s' c))"
  note L = col_invD(5) [OF reachable_col_inv [OF assms(1)] assms(3)] and L' = col_invD(5) [OF reachable_col_inv [OF assms(2)] assms(4)]
  assume "\<not> ?collision"
  then have none: "si_bytes i = si_bytes i'" if "?f j = Some i" "?f' j = Some i'"
    "chain_hash (cr_sha256 cr) (si_bytes i) = chain_hash (cr_sha256 cr) (si_bytes i')" for j i i' using that by blast
  show ?same
  proof (intro allI impI)
    fix k assume k: "cm_retained_from (st_meta st) \<le> k \<and> cm_retained_from (st_meta st') \<le> k"
    show "map_option si_bytes (?f k) = map_option si_bytes (?f' k) \<and> (?f k \<noteq> None \<longleftrightarrow> k \<le> cm_head (st_meta st))"
    proof (cases "k \<le> cm_head (st_meta st)")
      case True
      have "\<exists>i i'. ?f k = Some i \<and> ?f' k = Some i' \<and> si_bytes i = si_bytes i'"
        by (rule log_ok_agree [OF L L' assms(5,6)]) (use none k True in blast)+
      then show ?thesis using True by auto
    next
      case False
      then have "?f k = None" "?f' k = None" using log_okD(5) [OF L] log_okD(5) [OF L'] assms(5) by (metis not_None_eq)+
      then show ?thesis using False by simp
    qed
  qed
qed

text \<open>A run that ends in a deletion.\<close>

definition sample_deletion :: DeletionRecord where
  "sample_deletion = \<lparr>dl_collection = 1, dl_deletion_id = 2, dl_lifecycle_epoch = 3\<rparr>"

definition gone_col :: MemCollection where
  "gone_col = stored_col\<lparr>mb_state := Some (stored_state\<lparr>st_meta := stored_meta\<lparr>cm_status := Gone, cm_deletion := Some sample_deletion\<rparr>\<rparr>)\<rparr>"

definition gone_service :: Service where
  "gone_service = set_col 1 gone_col (put_service\<lparr>sv_deletions := [(1, sample_deletion)]\<rparr>)"

lemma gone_reachable: "reachable accept_all [3] gone_service"
proof -
  let ?s = "put_service\<lparr>sv_deletions := [(1, sample_deletion)]\<rparr>"
  let ?p = "CMap [(Uint 0, b16_to_cbor 1), (Uint 1, b16_to_cbor 2), (Uint 2, Uint 3)]"
  have col: "sv_cols put_service 1 = stored_col" "sv_deletions put_service = []"
    by (simp_all add: put_service_def set_col_def service_new_def)
  have valid: "deletion_validate sample_deletion = Inr sample_deletion"
    by (simp add: deletion_validate_def sample_deletion_def)
  have 1: "record_collection_deletion sample_deletion put_service = (?s, Inr sample_deletion)"
    by (simp add: record_collection_deletion_def valid col(2)) (simp add: sample_deletion_def)
  have req: "delete_request ?p = Inr sample_deletion"
    by (simp add: delete_request_def terminal_params_def uuid_field_def field_def res_simps sample_deletion_def)
  have "cm_deletion stored_meta = None"
    by (simp add: stored_meta_def created_meta_def created_state_def genesis_state_def meta_new_def)
  then have "fst (delete_log ControlPlane ?p ?s) = gone_service"
    by (simp add: delete_log_def req require_cp_def deletion_floor_def valid sample_deletion_def [THEN arg_cong, of dl_collection]
        svc_load_def col stored_col_fields stored_state_def stored_meta_fields Let_def)
      (simp add: gone_service_def gone_col_def mem_commit_def mem_write_def stored_col_fields stored_state_def)
  then have "call accept_all [3] ?s gone_service" using call.delete by (metis prod.collapse)
  moreover have "call accept_all [3] put_service ?s" using 1 by (rule call.record_deletion)
  ultimately show ?thesis using run_reachable(2) unfolding reachable_def by (meson rtranclp.rtrancl_into_rtrancl)
qed

theorem head_commits_to_history_witness:
  "cm_head stored_meta = 1 \<and>
   ((\<forall>k. cm_retained_from stored_meta \<le> k \<longrightarrow>
      map_option si_bytes (map_of (mb_items (sv_cols put_service 1)) k) = map_option si_bytes (map_of (mb_items (sv_cols gone_service 1)) k)
      \<and> (map_of (mb_items (sv_cols put_service 1)) k \<noteq> None \<longleftrightarrow> k \<le> 1))
    \<or> (\<exists>j i i'. map_of (mb_items (sv_cols put_service 1)) j = Some i \<and> map_of (mb_items (sv_cols gone_service 1)) j = Some i'
        \<and> si_bytes i \<noteq> si_bytes i' \<and> chain_hash (cr_sha256 accept_all) (si_bytes i) = chain_hash (cr_sha256 accept_all) (si_bytes i')))"
proof -
  have A: "mb_state (sv_cols put_service 1) = Some stored_state"
    by (simp add: put_service_def stored_col_fields)
  have B: "mb_state (sv_cols gone_service 1)
      = Some (stored_state\<lparr>st_meta := stored_meta\<lparr>cm_status := Gone, cm_deletion := Some sample_deletion\<rparr>\<rparr>)"
    by (simp add: gone_service_def gone_col_def)
  show ?thesis
    using head_commits_to_history [OF run_reachable(2) gone_reachable A B] by (simp add: stored_state_def stored_meta_fields)
qed

subsection \<open>Deletion is final\<close>

text \<open>What happens to a collection that is gone: of its metadata only the retained position, the used
  bytes and the quotas may change, its devices and its objects are as they were, and items and
  tokens are only dropped.  Its snapshots are not mentioned.\<close>

definition gone_kept :: "MemCollection \<Rightarrow> MemCollection \<Rightarrow> bool" where
  "gone_kept g g' \<longleftrightarrow> (\<exists>st f b q. mb_state g = Some st
     \<and> mb_state g' = Some (st\<lparr>st_meta := (st_meta st)\<lparr>cm_retained_from := f, cm_used_bytes := b, cm_quotas := q\<rparr>\<rparr>)
     \<and> map_of (mb_items g') \<subseteq>\<^sub>m map_of (mb_items g) \<and> map_of (mb_tokens g') \<subseteq>\<^sub>m map_of (mb_tokens g)
     \<and> mb_objects g' = mb_objects g)"

lemma gone_keptI:
  assumes "mb_state g = Some st" "mb_state g' = Some (st\<lparr>st_meta := m\<rparr>)"
    "m = (st_meta st)\<lparr>cm_retained_from := cm_retained_from m, cm_used_bytes := cm_used_bytes m, cm_quotas := cm_quotas m\<rparr>"
    "map_of (mb_items g') \<subseteq>\<^sub>m map_of (mb_items g)" "map_of (mb_tokens g') \<subseteq>\<^sub>m map_of (mb_tokens g)" "mb_objects g' = mb_objects g"
  shows "gone_kept g g'"
  using assms unfolding gone_kept_def by metis

lemma gone_kept_same:
  assumes "mb_state g = Some st" "mb_state g' = mb_state g" "mb_items g' = mb_items g" "map_of (mb_tokens g') = map_of (mb_tokens g)"
    "mb_objects g' = mb_objects g"
  shows "gone_kept g g'"
  by (rule gone_keptI [OF assms(1), of _ "st_meta st"]) (use assms in simp_all)

lemma gone_kept_trans: "gone_kept g g' \<Longrightarrow> gone_kept g' g'' \<Longrightarrow> gone_kept g g''"
  unfolding gone_kept_def by (fastforce intro: map_le_trans)

lemma txn_gone:
  assumes "txn cr roots c g g'" "mem_ok g" "mb_state g = Some st" "cm_status (st_meta st) = Gone"
  shows "gone_kept g g'"
  using assms(1)
proof cases
  case (append p ps now items st' ws revoked prev oc)
  then have "mb_state g = Some st'" "cm_status (st_meta st') = Live"
    using append_gate_Ok(1) append_gate_Ok(3) by (fastforce simp: lands_def)+
  then show ?thesis using assms(3,4) by simp
next
  case (snapshot st' row)
  let ?ws = "InsertSnapshot row # map (\<lambda>x. DeleteSnapshot (sr_seq x)) (drop (RETAINED_SNAPSHOTS - 1) (mem_snapshots g))"
  have "mem_ok (mem_write (InsertSnapshot row) g)" using assms(2) mem.write_invar by blast
  note del = commit_delete_snapshots [OF this, of "drop (RETAINED_SNAPSHOTS - 1) (mem_snapshots g)"]
  have ins: "mb_state (mem_write (InsertSnapshot row) g) = mb_state g" "mb_items (mem_write (InsertSnapshot row) g) = mb_items g"
    "mb_objects (mem_write (InsertSnapshot row) g) = mb_objects g" by (simp_all add: mem_write_def)
  have tok: "map_of (mb_tokens (mem_commit ?ws g)) = map_of (mb_tokens g)"
    unfolding mem_commit_def by (rule mem.commit_token_frame [OF assms(2)]) (simp add: list_all_iff)
  from del ins tok show ?thesis by (intro gone_kept_same [OF snapshot(2)]) (simp_all add: snapshot(1) mem_commit_def)
next
  case (endorse q)
  show ?thesis by (intro gone_kept_same [OF assms(3)]) (simp_all add: endorse mem_commit_def mem_write_def split: option.splits)
next
  case (compact st' now)
  have "map_of (mb_items g') \<subseteq>\<^sub>m map_of (mb_items g)"
    using assms(2) by (auto simp: compact(1) mem_commit_def mem_write_def mem_ok_def map_le_def bm_filter_lookup dom_def split: option.splits if_splits)
  moreover have "map_of (mb_tokens g') \<subseteq>\<^sub>m map_of (mb_tokens g)"
    using assms(2) by (auto simp: compact(1) mem_commit_def mem_write_def mem_ok_def map_le_def bm_filter_lookup dom_def split: option.splits if_splits)
  ultimately show ?thesis
    by (intro gone_keptI [OF compact(2), of _ "compacted_meta g (compaction_point st' g now) (st_meta st')"])
      (simp_all add: compact(1,2) mem_commit_def mem_write_def compacted_meta_def)
next
  case (quota st' q)
  show ?thesis
    by (intro gone_keptI [OF quota(2), of _ "(st_meta st')\<lparr>cm_quotas := q\<rparr>"]) (simp_all add: quota mem_commit_def mem_write_def)
qed (use assms(3,4) in auto)

lemma txns_gone:
  assumes "(txn cr roots c)\<^sup>*\<^sup>* g g'" "col_inv cr c g" "mb_state g = Some st" "cm_status (st_meta st) = Gone"
  shows "gone_kept g g'"
proof -
  have "gone_kept g g' \<and> col_inv cr c g'" using assms(1)
  proof (induction rule: rtranclp_induct)
    case base
    then show ?case using assms(2,3) by (simp add: gone_kept_same)
  next
    case (step y z)
    then obtain st' where "mb_state y = Some st'" "cm_status (st_meta st') = Gone" using assms(3,4) by (auto simp: gone_kept_def)
    moreover have "mem_ok y" using step by (simp add: col_inv_def)
    ultimately show ?case using step txn_gone gone_kept_trans txn_inv by blast
  qed
  then show ?thesis ..
qed

text \<open>C16. A deletion is final: once a collection is gone no call brings it back or extends its log.
  Of its state only the retained position, the used bytes and the quotas can still change (compaction
  and the control plane's quota call do not look at the status), so it stays gone under the same
  deletion record, with the same head, chain value, members, devices, policy and epoch; its object rows
  are as they were, and no item and no idempotency token is added or changed (compaction may drop
  them).  Snapshot rows are outside the statement: \<open>put_snapshot\<close> does not look at the status and
  still adds one.\<close>

theorem deletion_is_final:
  assumes "reachable cr roots s" "(call cr roots)\<^sup>*\<^sup>* s s'" "mb_state (sv_cols s c) = Some st" "cm_status (st_meta st) = Gone"
  shows "\<exists>st' from_pos used quotas. mb_state (sv_cols s' c) = Some st' \<and> cm_status (st_meta st') = Gone
    \<and> st' = st\<lparr>st_meta := (st_meta st)\<lparr>cm_retained_from := from_pos, cm_used_bytes := used, cm_quotas := quotas\<rparr>\<rparr>
    \<and> map_of (mb_items (sv_cols s' c)) \<subseteq>\<^sub>m map_of (mb_items (sv_cols s c))
    \<and> map_of (mb_tokens (sv_cols s' c)) \<subseteq>\<^sub>m map_of (mb_tokens (sv_cols s c))
    \<and> mb_objects (sv_cols s' c) = mb_objects (sv_cols s c)"
proof -
  obtain f b q where "mb_state (sv_cols s' c)
      = Some (st\<lparr>st_meta := (st_meta st)\<lparr>cm_retained_from := f, cm_used_bytes := b, cm_quotas := q\<rparr>\<rparr>)" (is "_ = Some ?st'")
    "map_of (mb_items (sv_cols s' c)) \<subseteq>\<^sub>m map_of (mb_items (sv_cols s c))"
    "map_of (mb_tokens (sv_cols s' c)) \<subseteq>\<^sub>m map_of (mb_tokens (sv_cols s c))" "mb_objects (sv_cols s' c) = mb_objects (sv_cols s c)"
    using txns_gone [OF calls_txns [OF assms(2)] reachable_col_inv [OF assms(1)] assms(3,4)] assms(3) by (auto simp: gone_kept_def)
  moreover have "cm_status (st_meta ?st') = Gone" using assms(4) by simp
  ultimately show ?thesis by blast
qed

definition sample_quota :: Cbor where
  "sample_quota = CMap [(Uint 0, b16_to_cbor 1), (Uint 1, CArray [Uint 9, Uint 9, Uint 9, Uint 9])]"

theorem deletion_is_final_witness:
  "\<exists>st' from_pos used quotas. mb_state (sv_cols (fst (set_quota ControlPlane sample_quota gone_service)) 1) = Some st'
    \<and> cm_status (st_meta st') = Gone
    \<and> st' = \<lparr>st_meta = stored_meta\<lparr>cm_status := Gone, cm_deletion := Some sample_deletion, cm_retained_from := from_pos,
        cm_used_bytes := used, cm_quotas := quotas\<rparr>, st_acl = [(9, sample_acl)]\<rparr>
    \<and> map_of (mb_items (sv_cols (fst (set_quota ControlPlane sample_quota gone_service)) 1)) \<subseteq>\<^sub>m [1 \<mapsto> genesis_row genesis_bytes 0]
    \<and> mb_objects (sv_cols (fst (set_quota ControlPlane sample_quota gone_service)) 1) = [(0, chunk_meta)]"
proof -
  have "call accept_all [3] gone_service (fst (set_quota ControlPlane sample_quota gone_service))" using call.quota by (metis prod.collapse)
  then have "(call accept_all [3])\<^sup>*\<^sup>* gone_service (fst (set_quota ControlPlane sample_quota gone_service))" by blast
  then have run: "(call accept_all [3])\<^sup>*\<^sup>* gone_service (fst (set_quota ControlPlane sample_quota gone_service))" .
  have B: "mb_state (sv_cols gone_service 1)
      = Some (stored_state\<lparr>st_meta := stored_meta\<lparr>cm_status := Gone, cm_deletion := Some sample_deletion\<rparr>\<rparr>)"
    by (simp add: gone_service_def gone_col_def)
  have cols: "map_of (mb_items (sv_cols gone_service 1)) = [1 \<mapsto> genesis_row genesis_bytes 0]"
    "mb_objects (sv_cols gone_service 1) = [(0, chunk_meta)]"
    by (simp_all add: gone_service_def gone_col_def stored_col_fields)
  show ?thesis using deletion_is_final [OF gone_reachable run B] by (simp add: cols stored_state_def) blast
qed

end
