(* ===== verification/LogReading.thy ===== *)
theory LogReading
  imports LogHistory
begin

text \<open>
  What a reader may rely on (\<open>log-service-api.md\<close>, reading): a page of the whole log is the next
  block of positions, it is not empty while there is something to read, and the flag \<open>more\<close> is
  exact; a page of control items skips entries only, and a page without \<open>more\<close> is complete.  The
  same loop feeds the archive, so compaction terminates and archives what it deletes.
\<close>

subsection \<open>The page loop\<close>

definition isize :: "StoredItem list \<Rightarrow> nat" where
  "isize is = sum_list (map (\<lambda>i. length (si_bytes i)) is)"

lemma isize_simps [simp]: "isize [] = 0" "isize (i # is) = length (si_bytes i) + isize is" "isize (is @ js) = isize is + isize js"
  by (simp_all add: isize_def)

lemma add_len: "unat t + n < 2 ^ 64 \<Longrightarrow> unat (t + of_nat n :: u64) = unat t + n"
  by (simp add: unat_word_ariths unat_of_nat take_bit_eq_mod)

text \<open>The loop returns a prefix of the rows it may return, and it stops early only at the item
  limit or when the next row would exceed the byte limit of a non-empty page.\<close>

lemma items_loop_spec:
  assumes "\<forall>i\<in>set xs. length (si_bytes i) \<le> B" "unat tot = isize out" "isize out \<le> max (unat mb) B" "max (unat mb) B + B < 2 ^ 64"
    and "length out \<le> unat limit"
  shows "\<exists>n. items_loop limit mb co xs out tot = out @ take n (filter (\<lambda>i. \<not> (co \<and> si_kind i = 1)) xs)
    \<and> length out + n \<le> unat limit
    \<and> (n = length (filter (\<lambda>i. \<not> (co \<and> si_kind i = 1)) xs) \<or> n < length (filter (\<lambda>i. \<not> (co \<and> si_kind i = 1)) xs)
       \<and> (length out + n = unat limit
          \<or> (out @ take n (filter (\<lambda>i. \<not> (co \<and> si_kind i = 1)) xs) \<noteq> []
             \<and> unat mb < isize (out @ take n (filter (\<lambda>i. \<not> (co \<and> si_kind i = 1)) xs))
                 + length (si_bytes (filter (\<lambda>i. \<not> (co \<and> si_kind i = 1)) xs ! n)))))"
  using assms
proof (induction limit mb co xs out tot rule: items_loop.induct)
  case (2 limit mb co it its out tot)
  let ?ys = "filter (\<lambda>i. \<not> (co \<and> si_kind i = 1)) its"
  have len: "unat (of_nat (length out) :: u64) = length out" using 2(7) u64_bound [of limit] by (intro unat_of_nat_u64) simp
  have tot: "unat (tot + of_nat (length (si_bytes it))) = isize out + length (si_bytes it)"
    using 2(3-6) by (subst add_len) auto
  consider (full) "limit \<le> of_nat (length out)" | (skip) "\<not> limit \<le> of_nat (length out)" "co \<and> si_kind it = 1"
    | (over) "\<not> limit \<le> of_nat (length out)" "\<not> (co \<and> si_kind it = 1)" "mb < tot + of_nat (length (si_bytes it)) \<and> out \<noteq> []"
    | (take') "\<not> limit \<le> of_nat (length out)" "\<not> (co \<and> si_kind it = 1)" "\<not> (mb < tot + of_nat (length (si_bytes it)) \<and> out \<noteq> [])"
    by blast
  then show ?case
  proof cases
    case full
    then have "length out = unat limit" using 2(7) len by (simp add: word_le_nat_alt)
    then show ?thesis using full by (intro exI [of _ 0]) auto
  next
    case skip
    then show ?thesis using "2.IH"(1) [OF skip] 2(3-7) by simp
  next
    case over
    then show ?thesis using tot 2(7) by (intro exI [of _ 0]) (auto simp: word_less_nat_alt Let_def)
  next
    case take'
    have room: "length (out @ [it]) \<le> unat limit" using take'(1) len by (simp add: word_le_nat_alt)
    have small: "isize (out @ [it]) \<le> max (unat mb) B" using take'(3) tot 2(3) by (auto simp: word_less_nat_alt)
    obtain n where n: "items_loop limit mb co its (out @ [it]) (tot + of_nat (length (si_bytes it))) = (out @ [it]) @ take n ?ys"
      "length (out @ [it]) + n \<le> unat limit"
      "n = length ?ys \<or> n < length ?ys \<and> (length (out @ [it]) + n = unat limit \<or>
        ((out @ [it]) @ take n ?ys \<noteq> [] \<and> unat mb < isize ((out @ [it]) @ take n ?ys) + length (si_bytes (?ys ! n))))"
      using "2.IH"(2) [OF take'(1,2) refl take'(3)] 2(3,6) tot small room by auto
    then show ?thesis using take' by (intro exI [of _ "Suc n"]) (auto simp: Let_def)
  qed
qed simp

subsection \<open>Rows above a position\<close>

abbreviation rows_above :: "MemCollection \<Rightarrow> u64 \<Rightarrow> StoredItem list" where
  "rows_above g a \<equiv> map snd (filter (\<lambda>(s, _). a + 1 \<le> s) (mb_items g))"

lemma stored_row:
  assumes "mem_ok g" "(k, i) \<in> set (mb_items g)"
  shows "map_of (mb_items g) k = Some i" "si_seq i = k"
proof -
  show row: "map_of (mb_items g) k = Some i" using assms by (simp add: mem_ok_def bm_lookup_mem)
  then show "si_seq i = k" using assms(1) by (simp add: mem_ok_def)
qed

lemma rows_above_row:
  assumes "mem_ok g" "i \<in> set (rows_above g a)"
  shows "a + 1 \<le> si_seq i" "map_of (mb_items g) (si_seq i) = Some i"
proof -
  obtain k where k: "(k, i) \<in> set (mb_items g)" "a + 1 \<le> k" using assms(2) by auto
  then show "a + 1 \<le> si_seq i" "map_of (mb_items g) (si_seq i) = Some i" using stored_row [OF assms(1) k(1)] by simp_all
qed

lemma row_length:
  assumes "log_ok cr c m items" "items k = Some i"
  shows "length (si_bytes i) \<le> MAX_BYTES" "k \<noteq> 1 \<Longrightarrow> length (si_bytes i) \<le> unat MAX_ITEM_BYTES" "si_bytes i \<noteq> []"
proof -
  obtain it where it: "row_ok c k i it" using log_okD(6) [OF assms] by blast
  moreover have "unat MAX_ITEM_BYTES \<le> MAX_BYTES" by (simp add: MAX_ITEM_BYTES_def MIB_def MAX_BYTES_def)
  ultimately show "length (si_bytes i) \<le> MAX_BYTES" "k \<noteq> 1 \<Longrightarrow> length (si_bytes i) \<le> unat MAX_ITEM_BYTES"
    by (auto simp: row_ok_def split: if_splits)
  have "decode [] = Inl UnexpectedEnd" by code_simp
  then have "item_from_bytes [] \<noteq> Inr x" for x by (simp add: item_from_bytes_def from_bytes_def res_simps)
  then show "si_bytes i \<noteq> []" using it by (auto simp: row_ok_def)
qed

lemma mem_items_spec:
  assumes "col_inv cr c g" "mb_state g = Some st" "unat mb \<le> 2 ^ 32"
  shows "\<exists>n. mem_items g a limit mb co = take n (filter (\<lambda>i. \<not> (co \<and> si_kind i = 1)) (rows_above g a)) \<and> n \<le> unat limit
    \<and> (n = length (filter (\<lambda>i. \<not> (co \<and> si_kind i = 1)) (rows_above g a)) \<or> n < length (filter (\<lambda>i. \<not> (co \<and> si_kind i = 1)) (rows_above g a))
       \<and> (n = unat limit \<or> (0 < n \<and> unat mb < isize (take n (filter (\<lambda>i. \<not> (co \<and> si_kind i = 1)) (rows_above g a)))
            + length (si_bytes (filter (\<lambda>i. \<not> (co \<and> si_kind i = 1)) (rows_above g a) ! n)))))"
proof -
  note I = col_invD [OF assms(1,2)]
  have "\<forall>i\<in>set (rows_above g a). length (si_bytes i) \<le> MAX_BYTES"
    using row_length(1) [OF I(5)] rows_above_row(2) [OF I(1)] by blast
  from items_loop_spec [OF this, of 0 "[]" mb limit co] assms(3) show ?thesis
    by (auto simp: mem_items_def MAX_BYTES_def)
qed

lemma rows_above_contiguous:
  assumes inv: "col_inv cr c g" "mb_state g = Some st" and "cm_retained_from (st_meta st) \<le> a + 1" "a < cm_head (st_meta st)"
  shows "length (rows_above g a) = unat (cm_head (st_meta st)) - unat a"
    "j < unat (cm_head (st_meta st)) - unat a \<Longrightarrow>
       unat (a + 1 + of_nat j) = unat a + 1 + j \<and> map_of (mb_items g) (a + 1 + of_nat j) = Some (rows_above g a ! j)"
proof -
  note I = col_invD [OF inv]
  define n where "n = unat (cm_head (st_meta st)) - unat a"
  have a: "unat a < unat (cm_head (st_meta st))" using assms(4) by (simp add: word_less_nat_alt)
  have hd: "unat (cm_head (st_meta st)) < 2 ^ 64 - 1" by (rule log_okD(3) [OF I(5)])
  have a1: "unat (a + 1) = unat a + 1" using a hd by (simp add: unat_word_ariths)
  have key: "unat (a + 1 + of_nat j) = unat a + 1 + j" if "j < n" for j
    using add_len [of "a + 1" j] a1 that hd by (simp add: n_def)
  define r where "r j = the (map_of (mb_items g) (a + 1 + of_nat j))" for j
  have row: "map_of (mb_items g) (a + 1 + of_nat j) = Some (r j)" if "j < n" for j
  proof -
    have "cm_retained_from (st_meta st) \<le> a + 1 + of_nat j" "a + 1 + of_nat j \<le> cm_head (st_meta st)"
      using assms(3) key [OF that] a1 that by (auto simp: word_le_nat_alt n_def)
    then show ?thesis using log_okD(7) [OF I(5)] by (fastforce simp: r_def)
  qed
  have tk: "take n (rows_above g a) = map r [0..<n]"
    by (rule take_rows [OF I(1) _ row]) (use a1 hd a in \<open>simp_all add: n_def\<close>)
  have "length (rows_above g a) \<le> n"
  proof -
    let ?ks = "map (\<lambda>x. unat (fst x)) (filter (\<lambda>(s, _). a + 1 \<le> s) (mb_items g))"
    have "bm_ok (filter (\<lambda>(s, _). a + 1 \<le> s) (mb_items g))" using I(1) by (simp add: mem_ok_def)
    then have "distinct ?ks" using bm_ok_unat_sorted strict_sorted_iff by blast
    moreover have "set ?ks \<subseteq> {unat a + 1..unat (cm_head (st_meta st))}"
    proof
      fix x assume "x \<in> set ?ks"
      then obtain k i where k: "(k, i) \<in> set (mb_items g)" "a + 1 \<le> k" "x = unat k" by auto
      have "map_of (mb_items g) k = Some i" by (rule stored_row(1) [OF I(1) k(1)])
      then have "k \<le> cm_head (st_meta st)" by (rule log_okD(5) [OF I(5)])
      then show "x \<in> {unat a + 1..unat (cm_head (st_meta st))}" using k(2,3) a1 by (simp add: word_le_nat_alt)
    qed
    ultimately have "length ?ks \<le> card {unat a + 1..unat (cm_head (st_meta st))}"
      using card_mono [of "{unat a + 1..unat (cm_head (st_meta st))}" "set ?ks"] by (metis distinct_card finite_atLeastAtMost)
    then show ?thesis by (simp add: n_def)
  qed
  then have rows: "rows_above g a = map r [0..<n]" using tk by simp
  then show "length (rows_above g a) = unat (cm_head (st_meta st)) - unat a" by (metis length_map length_upt minus_nat.diff_0 n_def)
  show "unat (a + 1 + of_nat j) = unat a + 1 + j \<and> map_of (mb_items g) (a + 1 + of_nat j) = Some (rows_above g a ! j)"
    if "j < unat (cm_head (st_meta st)) - unat a"
    using key row that unfolding rows by (simp add: n_def)
qed


subsection \<open>Reading\<close>

lemma read_Ok:
  assumes "read p ps now s = Inr r"
  obtains st mb where "mb_state (sv_cols s (rd_collection ps)) = Some st" "mb \<noteq> 0" "unat mb \<le> 2 ^ 32" "cm_status (st_meta st) = Live"
    "r = read_page (sv_cols s (rd_collection ps)) (st_meta st) ps mb"
proof -
  have small: "unat (min x MAX_READ_BYTES) \<le> 2 ^ 32" for x
  proof -
    have "min x MAX_READ_BYTES \<le> MAX_READ_BYTES" by simp
    moreover have "unat MAX_READ_BYTES \<le> 2 ^ 32" by (simp add: MAX_READ_BYTES_def MIB_def)
    ultimately show ?thesis by (metis order_trans word_le_nat_alt)
  qed
  have lv: "live x = Inr () \<Longrightarrow> x = Live" for x by (cases x) auto
  show thesis using assms that small lv
    by (auto simp: read_def Let_def svc_load_def rbind_Ok_iff ok_or_Ok_iff split: if_splits)
qed

text \<open>C17. A page of the whole log is the next block of positions: unless the reader is behind the
  retained log, the page holds the rows directly above its position, without a gap and in order,
  with the bytes that were accepted; it is not empty while something is above, and \<open>more\<close> is set
  exactly when the page ends below the head.\<close>

theorem read_next_block:
  assumes "reachable cr roots s" "read p ps now s = Inr r" "rd_kinds ps \<noteq> Some Control" "\<not> rr_behind r"
  shows "length (rr_items r) \<le> unat (rd_limit ps)
    \<and> (\<forall>j < length (rr_items r). \<exists>i. map_of (mb_items (sv_cols s (rd_collection ps))) (rd_after ps + 1 + of_nat j) = Some i
          \<and> rr_items r ! j = \<lparr>sq_seq = rd_after ps + 1 + of_nat j, sq_item = si_bytes i\<rparr>)
    \<and> (rd_after ps < rr_head r \<and> rd_limit ps \<noteq> 0 \<longrightarrow> rr_items r \<noteq> [])
    \<and> (rr_more r \<longleftrightarrow> unat (rd_after ps) + length (rr_items r) < unat (rr_head r))"
proof -
  let ?g = "sv_cols s (rd_collection ps)" and ?a = "rd_after ps"
  obtain st mb where st: "mb_state ?g = Some st" "unat mb \<le> 2 ^ 32" and r: "r = read_page ?g (st_meta st) ps mb"
    using assms(2) by (rule read_Ok)
  note inv = reachable_col_inv [OF assms(1)]
  note I = col_invD [OF inv st(1)]
  define limit where "limit = min (rd_limit ps) MAX_READ_ITEMS"
  let ?h = "cm_head (st_meta st)"
  have head: "rr_head r = ?h" by (simp add: r read_page_def Let_def)
  have near: "cm_retained_from (st_meta st) \<le> sat_add ?a 1"
    using assms(3,4) by (simp add: r read_page_def Let_def not_less)
  have lim: "unat limit \<le> unat (rd_limit ps)" "limit = 0 \<longleftrightarrow> rd_limit ps = 0"
    by (auto simp: limit_def min_def word_le_nat_alt MAX_READ_ITEMS_def)
  show ?thesis
  proof (cases "limit = 0 \<or> ?h \<le> ?a")
    case True
    then have "rr_items r = []" "rr_more r \<longleftrightarrow> ?a < ?h"
      using assms(3,4) by (auto simp: r read_page_def Let_def limit_def)
    then show ?thesis using True lim(2) head by (auto simp: word_less_nat_alt word_le_nat_alt)
  next
    case False
    then have a: "?a < ?h" by (simp add: not_le)
    then have "unat ?a + 1 < 2 ^ 64" using log_okD(3) [OF I(5)] by (simp add: word_less_nat_alt)
    then have "cm_retained_from (st_meta st) \<le> ?a + 1" using near by (simp add: sat_add_def)
    note rows = rows_above_contiguous [OF inv st(1) this a]
    define page where "page = mem_items ?g ?a limit mb False"
    obtain n where n: "page = take n (rows_above ?g ?a)" "n \<le> unat limit"
      "n = length (rows_above ?g ?a) \<or> n < length (rows_above ?g ?a) \<and> (n = unat limit \<or> 0 < n)"
      using mem_items_spec [OF inv st, of ?a limit False] by (auto simp: page_def)
    have len: "length page = n" "n \<le> unat ?h - unat ?a" using n(1,3) rows(1) by auto
    have "0 < unat limit" using False by (simp add: unat_gt_0)
    then have pos: "0 < n" using n(3) rows(1) a by (auto simp: word_less_nat_alt)
    have row: "unat (?a + 1 + of_nat j) = unat ?a + 1 + j \<and> map_of (mb_items ?g) (?a + 1 + of_nat j) = Some (page ! j)" if "j < n" for j
      using rows(2) [of j] that len n(1) by simp
    have seq: "si_seq (page ! j) = ?a + 1 + of_nat j" if "j < n" for j
      using row [OF that] I(1) by (auto simp: mem_ok_def)
    have items: "rr_items r = map (\<lambda>i. \<lparr>sq_seq = si_seq i, sq_item = si_bytes i\<rparr>) page"
      using assms(3,4) False by (simp add: r read_page_def Let_def limit_def page_def)
    have "rr_more r \<longleftrightarrow> si_seq (last page) < ?h"
      using assms(3,4) False pos len by (auto simp: r read_page_def Let_def limit_def page_def)
    moreover have "unat (si_seq (last page)) = unat ?a + n"
      using seq [of "n - 1"] row [of "n - 1"] pos len(1) by (cases page) (auto simp: last_conv_nth)
    ultimately have "rr_more r \<longleftrightarrow> unat ?a + n < unat ?h" by (simp add: word_less_nat_alt)
    then show ?thesis using items len pos row seq lim(1) n(2) head by auto
  qed
qed


definition sample_read :: "ReadKinds option \<Rightarrow> u64 \<Rightarrow> ReadParams" where
  "sample_read kinds after = \<lparr>rd_collection = 1, rd_after = after, rd_limit = 10, rd_kinds = kinds, rd_max_bytes = None\<rparr>"

lemma sample_read_Ok:
  "read ControlPlane (sample_read kinds after) 2000 (run_service b) = Inr (read_page ref_col ref_meta (sample_read kinds after) MAX_READ_BYTES)"
  by (simp add: read_def sample_read_def run_fields svc_load_def authorize_def MAX_READ_BYTES_def MIB_def)

lemma ref_meta_retained: "cm_retained_from ref_meta = 1"
  by (simp add: ref_meta_def stored_meta_def created_meta_def created_state_def genesis_state_def meta_new_def)

theorem read_next_block_witness:
  "\<exists>b r. read ControlPlane (sample_read None 1) 2000 (run_service b) = Inr r \<and> rr_items r \<noteq> []
    \<and> (rr_more r \<longleftrightarrow> unat (1 :: u64) + length (rr_items r) < unat (rr_head r))"
proof -
  obtain b where reach: "reachable accept_all [3] (run_service b)" using run_reachable(1) by blast
  let ?r = "read_page ref_col ref_meta (sample_read None 1) MAX_READ_BYTES"
  have "\<not> rr_behind ?r" "rr_head ?r = 2"
    by (simp_all add: read_page_def Let_def sample_read_def ref_meta_retained sat_add_def run_fields word_less_nat_alt)
  then show ?thesis
    using read_next_block [OF reach sample_read_Ok] by (intro exI [of _ b] exI [of _ ?r]) (simp add: sample_read_Ok, simp add: sample_read_def word_less_nat_alt)
qed

lemma rows_above_sorted: "mem_ok g \<Longrightarrow> sorted_wrt (\<lambda>i j. si_seq i < si_seq j) (rows_above g a)"
proof -
  assume ok: "mem_ok g"
  have key: "si_seq (snd x) = fst x" if "x \<in> set (mb_items g)" for x
    using that stored_row(2) [OF ok, of "fst x" "snd x"] by simp
  have "sorted_wrt (\<lambda>x y. fst x < fst y) (mb_items g)"
    using bm_ok_unat_sorted [of "mb_items g"] ok by (simp add: mem_ok_def sorted_wrt_map word_less_nat_alt)
  then have "sorted_wrt (\<lambda>x y. fst x < fst y) (filter (\<lambda>(s, _). a + 1 \<le> s) (mb_items g))" by (rule sorted_wrt_filter)
  then show ?thesis
    unfolding sorted_wrt_map by (rule sorted_wrt_mono_rel [rotated]) (auto simp: key)
qed

lemma isize_bound: "\<forall>i\<in>set is. length (si_bytes i) \<le> B \<Longrightarrow> isize is \<le> length is * B"
  by (induction "is") auto

lemma sum_isize: "isize is < 2 ^ 64 \<Longrightarrow> unat (sum_list (map (\<lambda>i. of_nat (length (si_bytes i)) :: u64) is)) = isize is"
proof (induction "is")
  case (Cons i "is")
  let ?t = "sum_list (map (\<lambda>i. of_nat (length (si_bytes i)) :: u64) is)"
  have "unat (?t + of_nat (length (si_bytes i))) = isize is + length (si_bytes i)" using Cons by (subst add_len) auto
  then show ?case by (simp add: add.commute)
qed simp

text \<open>A page of control items without \<open>more\<close> is complete: it holds every stored item above the
  reader's position that is not an entry, in order.  (A page that was cut off, by the item limit or
  by the byte limit, always says so, although the flag is computed from the returned rows alone.)\<close>

theorem read_control_complete:
  assumes "reachable cr roots s" "read p ps now s = Inr r" "rd_kinds ps = Some Control" "\<not> rr_more r"
  shows "rr_items r = map (\<lambda>(k, i). \<lparr>sq_seq = k, sq_item = si_bytes i\<rparr>)
      (filter (\<lambda>(k, i). rd_after ps < k \<and> si_kind i \<noteq> 1) (mb_items (sv_cols s (rd_collection ps))))"
proof -
  let ?g = "sv_cols s (rd_collection ps)" and ?a = "rd_after ps"
  obtain st mb where st: "mb_state ?g = Some st" "unat mb \<le> 2 ^ 32" and r: "r = read_page ?g (st_meta st) ps mb"
    using assms(2) by (rule read_Ok)
  note inv = reachable_col_inv [OF assms(1)]
  note I = col_invD [OF inv st(1)]
  define limit where "limit = min (rd_limit ps) MAX_READ_ITEMS"
  let ?h = "cm_head (st_meta st)"
  have key: "map_of (mb_items ?g) k = Some i \<and> si_seq i = k \<and> k \<le> ?h" if "(k, i) \<in> set (mb_items ?g)" for k i
    using stored_row [OF I(1) that] log_okD(5) [OF I(5)] by blast
  show ?thesis
  proof (cases "?h \<le> ?a")
    case True
    then have "filter (\<lambda>(k, i). ?a < k \<and> si_kind i \<noteq> 1) (mb_items ?g) = []"
      using key by (fastforce simp: filter_empty_conv)
    moreover have "rr_items r = []" using True by (simp add: r read_page_def Let_def)
    ultimately show ?thesis by simp
  next
    case False
    then have a: "?a < ?h" by (simp add: not_le)
    then have "unat (?a + 1) = unat ?a + 1" using add_len [of ?a 1] log_okD(3) [OF I(5)] by (simp add: word_less_nat_alt)
    then have a1: "?a + 1 \<le> k \<longleftrightarrow> ?a < k" for k by (simp add: word_le_nat_alt word_less_nat_alt Suc_le_eq)
    define ys where "ys = filter (\<lambda>i. \<not> (True \<and> si_kind i = 1)) (rows_above ?g ?a)"
    define page where "page = (if limit = 0 then [] else mem_items ?g ?a limit mb True)"
    obtain n where n: "page = take n ys" "n \<le> unat limit"
      "n = length ys \<or> n < length ys \<and> (n = unat limit \<or> (0 < n \<and> unat mb < isize page + length (si_bytes (ys ! n))))"
    proof (cases "limit = 0")
      case True
      then show thesis by (intro that [of 0]) (auto simp: page_def)
    next
      case limit: False
      then show thesis using mem_items_spec [OF inv st, of ?a limit True] that by (auto simp: page_def ys_def)
    qed
    have items: "rr_items r = map (\<lambda>i. \<lparr>sq_seq = si_seq i, sq_item = si_bytes i\<rparr>) page"
      using False assms(3) by (auto simp: r read_page_def Let_def limit_def page_def)
    have more: "rr_more r \<longleftrightarrow> (if page = [] then ?a else si_seq (last page)) < ?h
        \<and> (of_nat (length page) = limit \<or> sat_sub mb MAX_ITEM_BYTES < sum_list (map (\<lambda>i. of_nat (length (si_bytes i))) page))"
      using False assms(3) by (auto simp: r read_page_def Let_def limit_def page_def)
    have row: "map_of (mb_items ?g) (si_seq i) = Some i" "?a < si_seq i" if "i \<in> set ys" for i
      using rows_above_row [OF I(1), of i ?a] that a1 by (auto simp: ys_def)
    have sorted: "sorted_wrt (\<lambda>i j. si_seq i < si_seq j) ys"
      unfolding ys_def by (rule sorted_wrt_filter [OF rows_above_sorted [OF I(1)]])
    have "n = length ys"
    proof (rule ccontr)
      assume "n \<noteq> length ys"
      then have cut: "n < length ys" "n = unat limit \<or> (0 < n \<and> unat mb < isize page + length (si_bytes (ys ! n)))" using n(3) by auto
      then have len: "length page = n" "set page \<subseteq> set ys" using n(1) by (auto dest: in_set_takeD)
      have next': "map_of (mb_items ?g) (si_seq (ys ! n)) = Some (ys ! n)" "?a < si_seq (ys ! n)" using row cut(1) by auto
      have below: "si_seq i < si_seq (ys ! n)" if "i \<in> set page" for i
        using that cut(1) sorted_wrt_nth_less [OF sorted] unfolding n(1) by (auto simp: in_set_conv_nth)
      have "si_seq (ys ! n) \<le> ?h" by (rule log_okD(5) [OF I(5) next'(1)])
      then have "(if page = [] then ?a else si_seq (last page)) < ?h" using below [OF last_in_set] next'(2)
        by (cases "page = []") (auto intro: less_le_trans)
      moreover have "of_nat (length page) = limit \<or> sat_sub mb MAX_ITEM_BYTES < sum_list (map (\<lambda>i. of_nat (length (si_bytes i))) page)"
        using cut(2)
      proof
        assume "n = unat limit" then show ?thesis using len by simp
      next
        assume big: "0 < n \<and> unat mb < isize page + length (si_bytes (ys ! n))"
        then obtain x where x: "x \<in> set page" using len(1) by (cases page) auto
        then have xr: "map_of (mb_items ?g) (si_seq x) = Some x" using row(1) len(2) by auto
        have "1 \<le> si_seq x" by (rule log_okD(4) [OF I(5) xr])
        then have "si_seq (ys ! n) \<noteq> 1" using below [OF x] by auto
        then have item: "length (si_bytes (ys ! n)) \<le> unat MAX_ITEM_BYTES" by (rule row_length(2) [OF I(5) next'(1)])
        have "isize page \<noteq> 0" using x row_length(3) [OF I(5) xr] by (auto simp: isize_def)
        moreover have "isize page < 2 ^ 64"
        proof -
          have "isize page \<le> length page * MAX_BYTES"
            using isize_bound [of page MAX_BYTES] row_length(1) [OF I(5)] row(1) len(2) by (meson subsetD)
          moreover have "length page \<le> 1000"
          proof -
            have "limit \<le> MAX_READ_ITEMS" by (simp add: limit_def)
            then show ?thesis using len n(2) by (auto simp: word_le_nat_alt MAX_READ_ITEMS_def)
          qed
          ultimately have "isize page \<le> 1000 * MAX_BYTES" by (meson le_trans mult_le_mono1)
          then show ?thesis by (simp add: MAX_BYTES_def)
        qed
        moreover have "unat mb - unat MAX_ITEM_BYTES < isize page" using calculation(1) big item by linarith
        ultimately show ?thesis using sum_isize [of page] by (simp add: word_less_nat_alt unat_sat_sub)
      qed
      ultimately show False using more assms(4) by simp
    qed
    then have "page = map snd (filter (\<lambda>(k, i). ?a < k \<and> si_kind i \<noteq> 1) (mb_items ?g))"
      unfolding n(1) ys_def by (simp add: filter_map comp_def a1 case_prod_unfold conj_commute)
    then show ?thesis unfolding items using key by (auto simp: case_prod_beta)
  qed
qed

theorem read_control_complete_witness:
  "\<exists>b r. read ControlPlane (sample_read (Some Control) 0) 2000 (run_service b) = Inr r
    \<and> rr_items r = map (\<lambda>(k, i). \<lparr>sq_seq = k, sq_item = si_bytes i\<rparr>)
      (filter (\<lambda>(k, i). 0 < k \<and> si_kind i \<noteq> 1) (mb_items (sv_cols (run_service b) 1)))"
proof -
  obtain b where reach: "reachable accept_all [3] (run_service b)" using run_reachable(1) by blast
  let ?r = "read_page ref_col ref_meta (sample_read (Some Control) 0) MAX_READ_BYTES"
  have small: "\<not> sat_sub MAX_READ_BYTES MAX_ITEM_BYTES < used"
    using created_meta_fields(12) by (simp add: word_less_nat_alt unat_sat_sub MAX_READ_BYTES_def MAX_ITEM_BYTES_def MIB_def)
  have "\<not> MAX_READ_BYTES < used" using created_meta_fields(12) by (simp add: word_less_nat_alt MAX_READ_BYTES_def MIB_def)
  moreover have "\<not> (10 :: u64) \<le> 1" by (simp add: word_le_nat_alt)
  ultimately have "mem_items ref_col 0 10 MAX_READ_BYTES True = [genesis_row genesis_bytes 0]"
    by (simp add: mem_items_def ref_col_def genesis_row_def ref_row_def used_def Let_def)
  then have "\<not> rr_more ?r"
    using small by (simp add: read_page_def Let_def sample_read_def run_fields MAX_READ_ITEMS_def genesis_row_def used_def)
  then show ?thesis
    using read_control_complete [OF reach sample_read_Ok] by (intro exI [of _ b] exI [of _ ?r]) (simp add: sample_read_Ok, simp add: sample_read_def)
qed

end
