(* ===== verification/LogCompaction.thy ===== *)
theory LogCompaction
  imports LogReading
begin

text \<open>
  Compaction (\<open>compact\<close> and \<open>archive_entries\<close> of \<open>log-service/src/service.rs\<close>): the
  paging loop over the entries terminates, no input makes it panic, and every entry that leaves
  the log is in an archived segment first.
\<close>

subsection \<open>Archive keys\<close>

lemma shown_u64_inj: "show_u64 a = show_u64 b \<longleftrightarrow> a = b"
proof
  assume "show_u64 a = show_u64 b"
  then have "parse_digits 0 (show_nat (unat a)) = parse_digits 0 (show_nat (unat b))"
    unfolding show_u64_def by (rule arg_cong)
  then have "unat a = unat b" unfolding parse_digits_show [OF u64_bound] by (rule option.inject [THEN iffD1])
  then show "a = b" by (simp add: word_unat_eq_iff)
qed (rule arg_cong)

lemma show_u64_no_dash: "CHR ''-'' \<notin> set (show_u64 n)"
  using show_nat_chars [of "CHR ''-''" "unat n"] by (auto simp: show_u64_def)

lemma segment_key_inj: "archive_segment_key c t a b = archive_segment_key c t a' b' \<longleftrightarrow> a = a' \<and> b = b'"
  using show_u64_no_dash by (auto simp: archive_segment_key_def append_Cons_eq_iff shown_u64_inj)

subsection \<open>Segments\<close>

text \<open>The archive holds the segment under its key.\<close>

definition segment_stored :: "crypto \<Rightarrow> b16 \<Rightarrow> RetentionTier \<Rightarrow> Service \<Rightarrow> StoredItem list \<Rightarrow> bool" where
  "segment_stored cr c tier s f \<longleftrightarrow> f \<noteq> [] \<and> (\<exists>bs. encode (segment_cbor cr c f) = Inr bs
     \<and> sv_archive s (archive_segment_key c tier (si_seq (hd f)) (si_seq (last f))) = Some bs)"

lemma segment_encodes: "\<exists>bs. encode (segment_cbor cr c seg) = Inr bs"
  unfolding encode_def encode_Ok_iff(1)
  by (auto simp: segment_cbor_def MAX_DEPTH_def map_rule_def word_less_nat_alt intro!: exI [of _ "[0, 1, 2, 3, 4, 5]"])

lemma put_segment_Ok:
  assumes "put_segment cr fa c tier seg s = (s', Inr ())"
  shows "segment_stored cr c tier s' seg"
    "segment_stored cr c tier s f \<Longrightarrow> si_seq (hd f) \<noteq> si_seq (hd seg) \<Longrightarrow> segment_stored cr c tier s' f"
  using assms
  by (auto simp: put_segment_def encode_segment_def store_put_segment_def segment_stored_def segment_key_inj map_err_Ok_iff
      split: sum.splits if_splits)

lemma put_segment_no_panic: "seg \<noteq> [] \<Longrightarrow> put_segment cr fa c tier seg s \<noteq> (s', Inl Panic)"
  using segment_encodes [of cr c seg] by (auto simp: put_segment_def encode_segment_def store_put_segment_def split: sum.splits)

subsection \<open>The paging loop\<close>

abbreviation ascending_rows :: "StoredItem list \<Rightarrow> bool" where
  "ascending_rows \<equiv> sorted_wrt (\<lambda>i j. si_seq i < si_seq j)"

lemma archive_page_no_panic: "archive_page cr fa c tier cp its after seg sb s \<noteq> (s', Inl Panic)"
proof (induction its arbitrary: after seg sb s)
  case (Cons it its)
  show ?case
  proof
    assume "archive_page cr fa c tier cp (it # its) after seg sb s = (s', Inl Panic)"
    then show False using Cons.IH put_segment_no_panic [of seg cr fa c tier s]
      by (auto simp: Let_def split: if_split_asm prod.split_asm sum.split_asm)
  qed
qed simp

text \<open>One page: the rows up to the end (or to the boundary) are in flushed segments or in the open one.\<close>

lemma archive_page_spec:
  assumes "archive_page cr fa c tier cp its after seg sb s = (s', Inr (stop, after', seg', sb'))" "ascending_rows (seg @ its)"
  shows "\<exists>fs dn rest. its = dn @ rest \<and> concat fs @ seg' = seg @ filter (\<lambda>i. si_kind i = 1) dn
    \<and> (\<forall>f\<in>set fs. segment_stored cr c tier s' f)
    \<and> (\<forall>f. segment_stored cr c tier s f \<and> (\<forall>j\<in>set (seg @ its). si_seq (hd f) < si_seq j) \<longrightarrow> segment_stored cr c tier s' f)
    \<and> after' = (if dn = [] then after else si_seq (last dn)) \<and> (if stop then rest \<noteq> [] \<and> cp < si_seq (hd rest) else rest = [])"
  using assms
proof (induction its arbitrary: after seg sb s)
  case Nil
  then show ?case by (intro exI [of _ "[]"]) auto
next
  case (Cons it its)
  have sorted: "ascending_rows ((seg @ [it]) @ its)" "ascending_rows (seg @ its)" "ascending_rows ([it] @ its)" "ascending_rows seg"
      "\<forall>j\<in>set (it # its). \<forall>i\<in>set seg. si_seq i < si_seq j"
    using Cons.prems(2) by (auto simp: sorted_wrt_append)
  let ?n = "of_nat (length (si_bytes it)) :: u64"
  consider (stop) "cp < si_seq it" | (skip) "\<not> cp < si_seq it" "si_kind it \<noteq> 1"
    | (flush) "\<not> cp < si_seq it" "si_kind it = 1" "seg \<noteq> [] \<and> ARCHIVE_SEGMENT_BYTES < sb + ?n"
    | (add) "\<not> cp < si_seq it" "si_kind it = 1" "\<not> (seg \<noteq> [] \<and> ARCHIVE_SEGMENT_BYTES < sb + ?n)"
    by blast
  then show ?case
  proof cases
    case stop
    then show ?thesis using Cons.prems(1) by (intro exI [of _ "[]"] exI [of _ "it # its"]) auto
  next
    case skip
    then have "archive_page cr fa c tier cp its (si_seq it) seg sb s = (s', Inr (stop, after', seg', sb'))"
      using Cons.prems(1) by simp
    from Cons.IH [OF this sorted(2)] obtain fs dn rest where
      "its = dn @ rest" "concat fs @ seg' = seg @ filter (\<lambda>i. si_kind i = 1) dn" "\<forall>f\<in>set fs. segment_stored cr c tier s' f"
      "\<forall>f. segment_stored cr c tier s f \<and> (\<forall>j\<in>set (seg @ its). si_seq (hd f) < si_seq j) \<longrightarrow> segment_stored cr c tier s' f"
      "after' = (if dn = [] then si_seq it else si_seq (last dn))" "if stop then rest \<noteq> [] \<and> cp < si_seq (hd rest) else rest = []"
      by blast
    then show ?thesis using skip(2) by (intro exI [of _ fs] exI [of _ "it # dn"] exI [of _ rest]) auto
  next
    case flush
    obtain s1 where put: "put_segment cr fa c tier seg s = (s1, Inr ())"
      and next': "archive_page cr fa c tier cp its (si_seq it) [it] ?n s1 = (s', Inr (stop, after', seg', sb'))"
      using Cons.prems(1) flush by (auto simp: Let_def split: prod.split_asm sum.split_asm)
    from Cons.IH [OF next' sorted(3)] obtain fs dn rest where
      r: "its = dn @ rest" "concat fs @ seg' = [it] @ filter (\<lambda>i. si_kind i = 1) dn" "\<forall>f\<in>set fs. segment_stored cr c tier s' f"
      and keep: "\<forall>f. segment_stored cr c tier s1 f \<and> (\<forall>j\<in>set ([it] @ its). si_seq (hd f) < si_seq j) \<longrightarrow> segment_stored cr c tier s' f"
      and e: "after' = (if dn = [] then si_seq it else si_seq (last dn))" "if stop then rest \<noteq> [] \<and> cp < si_seq (hd rest) else rest = []"
      by blast
    have "\<forall>j\<in>set ([it] @ its). si_seq (hd seg) < si_seq j" using sorted(5) flush(3) by simp
    then have "segment_stored cr c tier s' seg" using keep put_segment_Ok(1) [OF put] by blast
    moreover have "segment_stored cr c tier s' f"
      if "segment_stored cr c tier s f" "\<forall>j\<in>set (seg @ it # its). si_seq (hd f) < si_seq j" for f
    proof -
      have "si_seq (hd f) \<noteq> si_seq (hd seg)" using that(2) flush(3) by (metis Un_iff hd_in_set less_irrefl set_append)
      then show ?thesis using keep put_segment_Ok(2) [OF put that(1)] that(2) by auto
    qed
    ultimately show ?thesis using r e flush(2)
      by (intro exI [of _ "seg # fs"] exI [of _ "it # dn"] exI [of _ rest]) auto
  next
    case add
    then have "archive_page cr fa c tier cp its (si_seq it) (seg @ [it]) (sb + ?n) s = (s', Inr (stop, after', seg', sb'))"
      using Cons.prems(1) by (cases "seg = []") (simp_all add: Let_def)
    from Cons.IH [OF this sorted(1)] obtain fs dn rest where
      "its = dn @ rest" "concat fs @ seg' = (seg @ [it]) @ filter (\<lambda>i. si_kind i = 1) dn" "\<forall>f\<in>set fs. segment_stored cr c tier s' f"
      "\<forall>f. segment_stored cr c tier s f \<and> (\<forall>j\<in>set ((seg @ [it]) @ its). si_seq (hd f) < si_seq j) \<longrightarrow> segment_stored cr c tier s' f"
      "after' = (if dn = [] then si_seq it else si_seq (last dn))" "if stop then rest \<noteq> [] \<and> cp < si_seq (hd rest) else rest = []"
      by blast
    then show ?thesis using add(2) by (intro exI [of _ fs] exI [of _ "it # dn"] exI [of _ rest]) auto
  qed
qed


lemma ascending_filter: "ascending_rows xs \<Longrightarrow> ascending_rows (filter P xs)"
  by (rule sorted_wrt_filter)

text \<open>What is above the last row of a prefix is the rest.\<close>

lemma rows_above_step:
  assumes "mem_ok g" "rows_above g a = xs @ ys" "xs \<noteq> []" "si_seq (last xs) \<noteq> - 1"
  shows "rows_above g (si_seq (last xs)) = ys"
proof -
  let ?b = "si_seq (last xs)"
  have b1: "?b + 1 \<le> k \<longleftrightarrow> ?b < k" for k
  proof -
    have "unat ?b \<noteq> unat (- 1 :: u64)" using assms(4) by (simp only: word_unat_eq_iff [symmetric] not_False_eq_True)
    then have "unat ?b < 2 ^ 64 - 1" using u64_bound [of ?b] by (simp add: unat_max_word)
    then have "unat (?b + 1) = unat ?b + 1" using add_len [of ?b 1] by simp
    then show ?thesis by (simp add: word_le_nat_alt word_less_nat_alt Suc_le_eq)
  qed
  have sorted: "ascending_rows (xs @ ys)" using rows_above_sorted [OF assms(1), of a] assms(2) by simp
  have key: "si_seq (snd x) = fst x" if "x \<in> set (mb_items g)" for x
    using stored_row(2) [OF assms(1), of "fst x" "snd x"] that by simp
  have low: "a + 1 \<le> ?b" using rows_above_row(1) [OF assms(1), of "last xs" a] assms(2,3) by simp
  have "rows_above g ?b = map snd (filter (\<lambda>x. ?b < si_seq (snd x) \<and> a + 1 \<le> fst x) (mb_items g))"
    using key b1 low by (intro arg_cong [of _ _ "map snd"] filter_cong) auto
  also have "\<dots> = filter (\<lambda>i. ?b < si_seq i) (rows_above g a)"
    by (simp add: filter_map comp_def case_prod_unfold conj_commute)
  also have "\<dots> = filter (\<lambda>i. ?b < si_seq i) xs @ filter (\<lambda>i. ?b < si_seq i) ys" by (simp add: assms(2))
  also have "filter (\<lambda>i. ?b < si_seq i) xs = []"
  proof -
    obtain us x where xs: "xs = us @ [x]" using assms(3) by (cases xs rule: rev_cases) auto
    then have "\<forall>i\<in>set xs. si_seq i \<le> ?b" using sorted by (auto simp: sorted_wrt_append less_imp_le)
    then show ?thesis by (auto simp: filter_empty_conv not_less)
  qed
  also have "filter (\<lambda>i. ?b < si_seq i) ys = ys"
    using sorted assms(3) by (auto simp: sorted_wrt_append filter_id_conv)
  finally show ?thesis by simp
qed

text \<open>The whole loop: it terminates without a panic, and when it succeeds everything up to the
  boundary is in flushed segments or in the open one.\<close>

lemma archive_pages_spec:
  assumes inv: "col_inv cr c g" "mb_state g = Some st" and "unat after \<le> unat (cm_head (st_meta st))"
    and "ascending_rows (seg @ rows_above g after)"
  shows "\<exists>s' r. archive_pages cr fa c tier cp g after seg sb s = Some (s', r) \<and> r \<noteq> Inl Panic \<and> (\<forall>seg'. r = Inr seg' \<longrightarrow>
    (\<exists>fs dn rest. rows_above g after = dn @ rest \<and> (\<forall>x\<in>set rest. cp < si_seq x)
       \<and> concat fs @ seg' = seg @ filter (\<lambda>i. si_kind i = 1) dn
       \<and> (\<forall>f\<in>set fs. segment_stored cr c tier s' f)
       \<and> (\<forall>f. segment_stored cr c tier s f \<and> (\<forall>j\<in>set (seg @ rows_above g after). si_seq (hd f) < si_seq j)
            \<longrightarrow> segment_stored cr c tier s' f)))"
  using assms(3,4)
proof (induction "unat (cm_head (st_meta st)) - unat after" arbitrary: after seg sb s rule: less_induct)
  case less
  note I = col_invD [OF inv]
  let ?page = "mem_items g after MAX_READ_ITEMS ARCHIVE_SEGMENT_BYTES False" and ?rows = "rows_above g after"
  have small: "unat ARCHIVE_SEGMENT_BYTES \<le> 2 ^ 32" by (simp add: ARCHIVE_SEGMENT_BYTES_def MIB_def)
  obtain n where n: "?page = take n ?rows" "n = length ?rows \<or> n < length ?rows \<and> (n = unat MAX_READ_ITEMS \<or> 0 < n)"
    using mem_items_spec [OF inv small, of after MAX_READ_ITEMS False] by auto
  show ?case
  proof (cases "?page = []")
    case True
    then have "?rows = []" using n by (auto simp: MAX_READ_ITEMS_def)
    then show ?thesis using True by (subst archive_pages.simps) (auto intro!: exI [of _ "[]"])
  next
    case False
    obtain s1 r1 where p: "archive_page cr fa c tier cp ?page after seg sb s = (s1, r1)" by force
    have rows: "?rows = ?page @ drop n ?rows" using n(1) by simp
    have sorted: "ascending_rows (seg @ ?page @ drop n ?rows)" using less.prems(2) rows by simp
    then have sp: "ascending_rows (seg @ ?page)" by (simp add: sorted_wrt_append)
    show ?thesis
    proof (cases r1)
      case (Inl f)
      then show ?thesis using p False archive_page_no_panic [of cr fa c tier cp ?page after seg sb s s1]
        by (subst archive_pages.simps) auto
    next
      case (Inr q)
      obtain stop after1 seg1 sb1 where q: "q = (stop, after1, seg1, sb1)" by (cases q) auto
      obtain fs dn rest where
        r: "?page = dn @ rest" "concat fs @ seg1 = seg @ filter (\<lambda>i. si_kind i = 1) dn" "\<forall>f\<in>set fs. segment_stored cr c tier s1 f"
        and keep: "\<forall>f. segment_stored cr c tier s f \<and> (\<forall>j\<in>set (seg @ ?page). si_seq (hd f) < si_seq j) \<longrightarrow> segment_stored cr c tier s1 f"
        and e: "after1 = (if dn = [] then after else si_seq (last dn))" "if stop then rest \<noteq> [] \<and> cp < si_seq (hd rest) else rest = []"
        using archive_page_spec [OF p [unfolded Inr q] sp] by blast
      show ?thesis
      proof (cases stop)
        case True
        have "\<forall>x\<in>set (rest @ drop n ?rows). cp < si_seq x"
        proof -
          have "ascending_rows (rest @ drop n ?rows)" using sorted r(1) by (simp add: sorted_wrt_append)
          then show ?thesis using e(2) True by (cases rest) (auto intro: less_trans)
        qed
        moreover have "?rows = dn @ rest @ drop n ?rows" using rows r(1) by simp
        moreover have "archive_pages cr fa c tier cp g after seg sb s = Some (s1, Inr seg1)"
          using False p Inr q True by (subst archive_pages.simps) simp
        moreover have "\<forall>f. segment_stored cr c tier s f \<and> (\<forall>j\<in>set (seg @ ?rows). si_seq (hd f) < si_seq j) \<longrightarrow> segment_stored cr c tier s1 f"
        proof -
          have "set (seg @ ?page) \<subseteq> set (seg @ ?rows)" using n(1) by (auto dest: in_set_takeD)
          then show ?thesis using keep by blast
        qed
        ultimately have "\<exists>fs dn rest. ?rows = dn @ rest \<and> (\<forall>x\<in>set rest. cp < si_seq x) \<and> concat fs @ seg1 = seg @ filter (\<lambda>i. si_kind i = 1) dn
            \<and> (\<forall>f\<in>set fs. segment_stored cr c tier s1 f)
            \<and> (\<forall>f. segment_stored cr c tier s f \<and> (\<forall>j\<in>set (seg @ ?rows). si_seq (hd f) < si_seq j) \<longrightarrow> segment_stored cr c tier s1 f)"
          using r(2,3) by blast
        then show ?thesis using \<open>archive_pages cr fa c tier cp g after seg sb s = Some (s1, Inr seg1)\<close> by blast
      next
        case go: False
        then have dn: "dn = ?page" "after1 = si_seq (last ?page)" using r(1) e False by auto
        have lastrow: "last ?page \<in> set ?rows" using False rows by (metis UnI1 last_in_set set_append)
        have row: "after + 1 \<le> after1" "map_of (mb_items g) after1 = Some (last ?page)"
          using rows_above_row [OF I(1) lastrow] dn(2) by simp_all
        have top: "after1 \<le> cm_head (st_meta st)" by (rule log_okD(5) [OF I(5) row(2)])
        have hd: "unat (cm_head (st_meta st)) < 2 ^ 64 - 1" by (rule log_okD(3) [OF I(5)])
        have "unat (after + 1) = unat after + 1" using add_len [of after 1] less.prems(1) hd by simp
        then have adv: "unat after < unat after1" using row(1) by (simp add: word_le_nat_alt)
        have le: "unat after1 \<le> unat (cm_head (st_meta st))" using top by (simp add: word_le_nat_alt)
        then have "after1 \<noteq> - 1" using hd by (auto simp: unat_max_word)
        then have rest1: "rows_above g after1 = drop n ?rows"
          using rows_above_step [OF I(1) rows False] dn(2) by simp
        have seq: "concat fs @ seg1 = seg @ filter (\<lambda>i. si_kind i = 1) ?page" using r(2) dn(1) by simp
        have all: "ascending_rows (concat fs @ seg1 @ drop n ?rows)"
        proof -
          have "ascending_rows (seg @ filter (\<lambda>i. si_kind i = 1) ?page @ drop n ?rows)"
            using sorted ascending_filter [of ?page] by (auto simp: sorted_wrt_append)
          then show ?thesis using seq by (metis append.assoc)
        qed
        then have "ascending_rows (seg1 @ rows_above g after1)" by (simp add: sorted_wrt_append rest1)
        moreover have "unat (cm_head (st_meta st)) - unat after1 < unat (cm_head (st_meta st)) - unat after" using adv le by simp
        ultimately obtain s' r' where pages: "archive_pages cr fa c tier cp g after1 seg1 sb1 s1 = Some (s', r')" "r' \<noteq> Inl Panic"
          and more: "\<forall>seg'. r' = Inr seg' \<longrightarrow> (\<exists>fs dn rest. rows_above g after1 = dn @ rest \<and> (\<forall>x\<in>set rest. cp < si_seq x)
            \<and> concat fs @ seg' = seg1 @ filter (\<lambda>i. si_kind i = 1) dn
            \<and> (\<forall>f\<in>set fs. segment_stored cr c tier s' f)
            \<and> (\<forall>f. segment_stored cr c tier s1 f \<and> (\<forall>j\<in>set (seg1 @ rows_above g after1). si_seq (hd f) < si_seq j)
                 \<longrightarrow> segment_stored cr c tier s' f))"
          using less.hyps [of after1 seg1 sb1 s1] le by blast
        have run: "archive_pages cr fa c tier cp g after seg sb s = Some (s', r')"
          using False p Inr q go pages(1) by (subst archive_pages.simps) simp
        have "\<exists>fs dn rest. ?rows = dn @ rest \<and> (\<forall>x\<in>set rest. cp < si_seq x)
            \<and> concat fs @ seg' = seg @ filter (\<lambda>i. si_kind i = 1) dn
            \<and> (\<forall>f\<in>set fs. segment_stored cr c tier s' f)
            \<and> (\<forall>f. segment_stored cr c tier s f \<and> (\<forall>j\<in>set (seg @ ?rows). si_seq (hd f) < si_seq j) \<longrightarrow> segment_stored cr c tier s' f)"
          if seg': "r' = Inr seg'" for seg'
        proof -
          obtain fs2 dn2 rest2 where
            m: "rows_above g after1 = dn2 @ rest2" "\<forall>x\<in>set rest2. cp < si_seq x"
              "concat fs2 @ seg' = seg1 @ filter (\<lambda>i. si_kind i = 1) dn2" "\<forall>f\<in>set fs2. segment_stored cr c tier s' f"
            and keep2: "\<forall>f. segment_stored cr c tier s1 f \<and> (\<forall>j\<in>set (seg1 @ rows_above g after1). si_seq (hd f) < si_seq j)
                 \<longrightarrow> segment_stored cr c tier s' f"
            using more seg' by blast
          have "segment_stored cr c tier s' f" if f: "f \<in> set fs" for f
          proof -
            have "segment_stored cr c tier s1 f" using r(3) f by blast
            moreover from this have "hd f \<in> set f" by (simp add: segment_stored_def)
            then have "hd f \<in> set (concat fs)" using f by auto
            ultimately show ?thesis using keep2 all rest1 by (auto simp: sorted_wrt_append)
          qed
          moreover have "segment_stored cr c tier s' f"
            if f: "segment_stored cr c tier s f" "\<forall>j\<in>set (seg @ ?rows). si_seq (hd f) < si_seq j" for f
          proof -
            have "set (seg1 @ rows_above g after1) \<subseteq> set (seg @ ?rows)"
            proof -
              have "set seg1 \<subseteq> set (seg @ filter (\<lambda>i. si_kind i = 1) ?page)" unfolding seq [symmetric] by auto
              then have "set seg1 \<subseteq> set seg \<union> set ?page" by auto
              moreover have "set ?page \<subseteq> set ?rows" unfolding n(1) by (rule set_take_subset)
              moreover have "set (rows_above g after1) \<subseteq> set ?rows" unfolding rest1 by (rule set_drop_subset)
              ultimately show ?thesis unfolding set_append by blast
            qed
            moreover have "set ?page \<subseteq> set ?rows" unfolding n(1) by (rule set_take_subset)
            then have "segment_stored cr c tier s1 f" using keep f unfolding set_append by blast
            ultimately show ?thesis using keep2 f(2) by blast
          qed
          moreover have "concat (fs @ fs2) @ seg' = seg @ filter (\<lambda>i. si_kind i = 1) (?page @ dn2)"
            using m(3) seq by simp
          moreover have "?rows = (?page @ dn2) @ rest2" using rows m(1) rest1 by simp
          ultimately show ?thesis using m(2,4)
            by (intro exI [of _ "fs @ fs2"] exI [of _ "?page @ dn2"] exI [of _ rest2]) auto
        qed
        then show ?thesis using run pages(2) by blast
      qed
    qed
  qed
qed


lemma archive_entries_spec:
  assumes inv: "col_inv cr c g" "mb_state g = Some st"
  shows "\<exists>s' r. archive_entries cr fa c tier (cm_retained_from (st_meta st)) cp g s = Some (s', r) \<and> r \<noteq> Inl Panic \<and> (r = Inr () \<longrightarrow>
    (\<forall>k i. map_of (mb_items g) k = Some i \<and> si_kind i = 1 \<and> cm_retained_from (st_meta st) \<le> k \<and> k \<le> cp
       \<longrightarrow> (\<exists>f. i \<in> set f \<and> segment_stored cr c tier s' f)))"
proof -
  note I = col_invD [OF inv]
  let ?rf = "cm_retained_from (st_meta st)"
  define a where "a = sat_sub ?rf 1"
  have rf: "1 \<le> ?rf" "?rf \<le> cm_head (st_meta st)" using log_okD(1,2) [OF I(5)] by blast+
  have a: "a = ?rf - 1" using rf(1) by (simp add: a_def sat_sub_def)
  have "unat a \<le> unat (cm_head (st_meta st))" using rf(2) by (simp add: a_def unat_sat_sub word_le_nat_alt)
  from archive_pages_spec [OF inv this, where seg = "[]" and cp = cp and fa = fa and tier = tier and sb = 0 and s = s] rows_above_sorted [OF I(1), of a]
  obtain s1 r1 where p: "archive_pages cr fa c tier cp g a [] 0 s = Some (s1, r1)" "r1 \<noteq> Inl Panic"
    and spec: "\<forall>seg'. r1 = Inr seg' \<longrightarrow> (\<exists>fs dn rest. rows_above g a = dn @ rest \<and> (\<forall>x\<in>set rest. cp < si_seq x)
       \<and> concat fs @ seg' = filter (\<lambda>i. si_kind i = 1) dn \<and> (\<forall>f\<in>set fs. segment_stored cr c tier s1 f))"
    by simp blast
  show ?thesis
  proof (cases r1)
    case (Inl f)
    then show ?thesis using p by (auto simp: archive_entries_def a_def)
  next
    case (Inr seg)
    then obtain fs dn rest where d: "rows_above g a = dn @ rest" "\<forall>x\<in>set rest. cp < si_seq x"
      "concat fs @ seg = filter (\<lambda>i. si_kind i = 1) dn" "\<forall>f\<in>set fs. segment_stored cr c tier s1 f"
      using spec by blast
    have sorted: "ascending_rows (concat fs @ seg)"
      unfolding d(3) using rows_above_sorted [OF I(1), of a] d(1) by (simp add: sorted_wrt_append sorted_wrt_filter)
    have covered: "i \<in> set (concat fs @ seg)"
      if "map_of (mb_items g) k = Some i" "si_kind i = 1" "?rf \<le> k" "k \<le> cp" for k i
    proof -
      have "si_seq i = k" using that(1) I(1) by (simp add: mem_ok_def)
      have "i \<in> set (rows_above g a)" using map_of_SomeD [OF that(1)] that(3) a by (auto intro!: rev_image_eqI)
      then have "i \<in> set dn" using d(1,2) that(4) \<open>si_seq i = k\<close> by auto
      then show ?thesis unfolding d(3) using that(2) by simp
    qed
    show ?thesis
    proof (cases "seg = []")
      case True
      then have "archive_entries cr fa c tier ?rf cp g s = Some (s1, Inr ())"
        using p(1) Inr by (simp add: archive_entries_def a_def)
      then show ?thesis using covered d(4) True by fastforce
    next
      case False
      obtain s' r where put: "put_segment cr fa c tier seg s1 = (s', r)" by force
      then have run: "archive_entries cr fa c tier ?rf cp g s = Some (s', r)"
        using p(1) Inr False by (simp add: archive_entries_def a_def)
      have "r \<noteq> Inl Panic" using put_segment_no_panic [OF False, of cr fa c tier s1 s'] put by auto
      moreover have "\<exists>f. i \<in> set f \<and> segment_stored cr c tier s' f" if r: "r = Inr ()" and i: "i \<in> set (concat fs @ seg)" for i
      proof -
        note put' = put_segment_Ok [OF put [unfolded r]]
        show ?thesis
        proof (cases "i \<in> set seg")
          case True
          then show ?thesis using put'(1) by blast
        next
          case no: False
          then obtain f where f: "f \<in> set fs" "i \<in> set f" using i by auto
          have st: "segment_stored cr c tier s1 f" using d(4) f(1) by blast
          have "hd f \<in> set f" using st by (simp add: segment_stored_def)
          then have "hd f \<in> set (concat fs)" using f(1) by auto
          moreover have "hd seg \<in> set seg" using False by simp
          ultimately have "si_seq (hd f) < si_seq (hd seg)" using sorted unfolding sorted_wrt_append by blast
          then show ?thesis using put'(2) [OF st] f(2) by auto
        qed
      qed
      ultimately show ?thesis using run covered by blast
    qed
  qed
qed

subsection \<open>Entries below the retained log\<close>

definition entries_retained :: "MemCollection \<Rightarrow> bool" where
  "entries_retained g \<longleftrightarrow> (\<forall>st k i. mb_state g = Some st \<and> map_of (mb_items g) k = Some i \<and> si_kind i = 1
     \<longrightarrow> cm_retained_from (st_meta st) \<le> k)"

lemma txn_retained:
  assumes "txn cr roots c g g'" "col_inv cr c g" "entries_retained g"
  shows "entries_retained g'"
  using assms(1,2)
proof (cases rule: txn_kept)
  case (create b it now region payload st rv)
  then have "g = mem_empty" using assms(2) by (simp add: col_inv_def)
  then show ?thesis
    by (auto simp: create(4) entries_retained_def mem_commit_def mem_write_def genesis_row_def mem_empty_def split: if_splits)
next
  case (append p ps now items st ws revoked prev oc)
  have st: "mb_state g = Some st" using append_gate_Ok(1) append(1) by (auto simp: lands_def)
  note I = col_invD [OF assms(2) st]
  note eff = append_commit_effect [OF append(3,1) I(1,2)]
  have rf: "cm_retained_from (landed_meta ps ws prev) = cm_retained_from (st_meta st)"
    using position.lands_Q [OF append(1)] by (simp add: landed_meta_def position_rel_def Let_def)
  have "cm_retained_from (st_meta st) \<le> k" if row: "map_of (mb_items g') k = Some i" "si_kind i = 1" for k i
  proof (cases rule: append_items [OF append(3,1) I(1,2) row(1), case_names old new])
    case old
    then show ?thesis using assms(3) st row(2) by (auto simp: entries_retained_def)
  next
    case (new j)
    then have "cm_head (st_meta st) \<le> k" using append_rows(1) [OF append(1) new(1,2)] by (simp add: word_le_nat_alt)
    then show ?thesis using log_okD(2) [OF I(5)] by (rule order_trans [rotated])
  qed
  then show ?thesis using eff(2) rf by (auto simp: entries_retained_def)
next
  case kept
  show ?thesis
  proof (cases "g' = g")
    case False
    then obtain st st' where s: "mb_state g = Some st" "mb_state g' = Some st'" "map_of (mb_items g') \<subseteq>\<^sub>m map_of (mb_items g)"
      "cm_retained_from (st_meta st') = cm_retained_from (st_meta st)
        \<or> (\<forall>k i. map_of (mb_items g') k = Some i \<and> si_kind i = 1 \<longrightarrow> cm_retained_from (st_meta st') \<le> k)"
      using kept by (auto simp: kept_def)
    have "map_of (mb_items g') k = Some i \<Longrightarrow> map_of (mb_items g) k = Some i" for k i using s(3) by (force simp: map_le_def)
    then show ?thesis using s(1,2,4) assms(3) unfolding entries_retained_def by fastforce
  qed (use assms(3) in simp)
qed

lemma reachable_retained: "reachable cr roots s \<Longrightarrow> entries_retained (sv_cols s c)"
proof -
  assume "reachable cr roots s"
  then have "(txn cr roots c)\<^sup>*\<^sup>* (sv_cols service_new c) (sv_cols s c)" unfolding reachable_def by (rule calls_txns)
  then have "entries_retained (sv_cols s c) \<and> col_inv cr c (sv_cols s c)"
  proof (induction rule: rtranclp_induct)
    case base
    then show ?case using svc_inv_new [of cr] by (simp add: svc_inv_def) (simp add: entries_retained_def service_new_def mem_empty_def)
  next
    case (step y z)
    then show ?case using txn_retained txn_inv by blast
  qed
  then show ?thesis ..
qed

subsection \<open>Compaction\<close>

text \<open>C12. Compaction terminates and cannot panic: in every reachable service the paging loop over the
  log ends with a result, and when it is refused (no such collection, the archive is not available)
  every collection is as it was.\<close>

theorem compact_terminates:
  assumes "reachable cr roots s"
  shows "\<exists>s' r. compact cr fa c now s = Some (s', r) \<and> r \<noteq> Inl Panic \<and> (\<not> isl r \<or> sv_cols s' = sv_cols s)"
proof (cases "mb_state (sv_cols s c)")
  case None
  then show ?thesis by (simp add: compact_def svc_load_def)
next
  case (Some st)
  note inv = reachable_col_inv [OF assms, of c]
  let ?cp = "compaction_point st (sv_cols s c) now"
  obtain s1 r1 where e: "archive_entries cr fa c (cm_retention_tier (st_meta st)) (cm_retained_from (st_meta st)) ?cp (sv_cols s c) s = Some (s1, r1)"
    "r1 \<noteq> Inl Panic" using archive_entries_spec [OF inv Some] by blast
  have "sv_cols s1 = sv_cols s" using archive_entries_frame [OF e(1)] unfolding archive_only_def by (metis Service.select_convs(1) Service.surjective Service.update_convs(5))
  then show ?thesis
    using Some e by (cases r1) (auto simp: compact_def svc_load_def Let_def)
qed

theorem compact_terminates_witness:
  "\<exists>b s' r. compact accept_all False 1 5000 (run_service b) = Some (s', r) \<and> r \<noteq> Inl Panic \<and> (\<not> isl r \<or> sv_cols s' = sv_cols (run_service b))"
  using run_reachable(1) compact_terminates by blast

lemma compact_Ok:
  assumes "compact cr fa c now s = Some (s', Inr q)" "mb_state (sv_cols s c) = Some st"
  defines "cp \<equiv> compaction_point st (sv_cols s c) now"
  obtains (same) "s' = s" "q = cm_retained_from (st_meta st)"
  | (compacted) s1 where "cm_retained_from (st_meta st) \<le> cp" "q = cp + 1"
      "archive_entries cr fa c (cm_retention_tier (st_meta st)) (cm_retained_from (st_meta st)) cp (sv_cols s c) s = Some (s1, Inr ())"
      "s' = set_col c (mem_commit [DeleteEntriesThrough cp, PruneTokens now,
         PutMeta (compacted_meta (sv_cols s c) cp (st_meta st))] (sv_cols s c)) s1"
proof (cases "cp < cm_retained_from (st_meta st)")
  case True
  then show thesis using same assms by (simp add: compact_def svc_load_def Let_def)
next
  case False
  note run = assms(1) [unfolded compact_def svc_load_def assms(2) ok_or.simps sum.case Let_def cp_def [symmetric] if_not_P [OF False]]
  then obtain s1 r1 where e: "archive_entries cr fa c (cm_retention_tier (st_meta st)) (cm_retained_from (st_meta st)) cp (sv_cols s c) s = Some (s1, r1)"
    by (auto simp: map_option_case split: option.split_asm)
  then show thesis using compacted [of s1] run False by (cases r1) (auto simp: compacted_meta_def not_less)
qed

lemma max_or_0_in: "1 \<le> max_or_0 xs \<Longrightarrow> max_or_0 xs \<in> set xs"
  unfolding max_or_0_def by (induction xs) (auto simp: max_def)

text \<open>What puts a position at or below the boundary: a snapshot that counts, the grace distance above it,
  and a row at or above it that is a week old.\<close>

lemma compaction_point_reasons:
  assumes "mem_ok g" "1 \<le> k" "k \<le> compaction_point st g now"
  shows "\<exists>x \<in> snd ` set (mb_snapshots g). unat k + 10000 \<le> unat (sr_seq x)
      \<and> (sr_endorsed x \<or> (personal_devices st \<le> 1 \<and> SELF_ENDORSE_AGE_MS <s now - sr_created_at x))"
    "\<exists>k' j. map_of (mb_items g) k' = Some j \<and> k \<le> k' \<and> si_appended_at j \<le>s now - COMPACTION_MIN_AGE_MS"
proof -
  let ?P = "\<lambda>x. sr_endorsed x \<or> (personal_devices st \<le> 1 \<and> SELF_ENDORSE_AGE_MS <s now - sr_created_at x)"
  define s_e where "s_e = max_or_0 (map sr_seq (filter ?P (mem_snapshots g)))"
  define c2 where "c2 = mem_last_seq_at_or_before g (now - COMPACTION_MIN_AGE_MS)"
  have k: "k \<le> sat_sub s_e COMPACTION_GRACE_ENTRIES" "k \<le> c2"
    using assms(3) by (simp_all add: compaction_point_def s_e_def c2_def Let_def)
  have grace: "unat k + 10000 \<le> unat s_e"
    using k(1) assms(2) by (simp add: word_le_nat_alt unat_sat_sub COMPACTION_GRACE_ENTRIES_def)
  then have "1 \<le> s_e" by (simp add: word_le_nat_alt)
  then have "s_e \<in> set (map sr_seq (filter ?P (mem_snapshots g)))" unfolding s_e_def by (rule max_or_0_in)
  then show "\<exists>x \<in> snd ` set (mb_snapshots g). unat k + 10000 \<le> unat (sr_seq x) \<and> ?P x"
    using grace by (auto simp: mem_snapshots_def image_iff)
  have "1 \<le> c2" using assms(2) k(2) by (rule order_trans)
  then have "c2 \<in> set (map si_seq (filter (\<lambda>i. si_appended_at i \<le>s now - COMPACTION_MIN_AGE_MS) (map snd (mb_items g))))"
    unfolding c2_def mem_last_seq_at_or_before_def by (rule max_or_0_in)
  then obtain k' j where j: "(k', j) \<in> set (mb_items g)" "si_seq j = c2" "si_appended_at j \<le>s now - COMPACTION_MIN_AGE_MS" by auto
  then have "map_of (mb_items g) k' = Some j" using assms(1) by (simp add: mem_ok_def bm_lookup_mem)
  moreover from this have "k' = c2" using assms(1) j(2) by (auto simp: mem_ok_def)
  ultimately show "\<exists>k' j. map_of (mb_items g) k' = Some j \<and> k \<le> k' \<and> si_appended_at j \<le>s now - COMPACTION_MIN_AGE_MS"
    using k(2) j(3) by blast
qed

text \<open>C11. Nothing leaves the log before it is archived, and only old entries leave it: when a
  compaction succeeds with \<open>q\<close>, the retained log starts at \<open>q\<close>, and the rows removed are exactly the
  entries below \<open>q\<close>.  For each of them: a snapshot of the collection lies at least 10,000 positions
  above it and not above the head, and is endorsed or, where there is at most one personal device, older
  than 30 days; the row itself or a later row was appended at least 7 days before; and the
  archive holds it, in a segment under the segment's own key.\<close>

theorem compact_archives_first:
  assumes "reachable cr roots s" "compact cr fa c now s = Some (s', Inr q)" "mb_state (sv_cols s c) = Some st"
    and "map_of (mb_items (sv_cols s c)) k = Some i"
  shows "map_of (mb_items (sv_cols s' c)) k = (if si_kind i = item_kind_value Entry \<and> k < q then None else Some i)
    \<and> (\<exists>st'. mb_state (sv_cols s' c) = Some st' \<and> cm_retained_from (st_meta st') = q)
    \<and> (si_kind i = item_kind_value Entry \<and> k < q \<longrightarrow>
        (\<exists>x \<in> snd ` set (mb_snapshots (sv_cols s c)). unat k + 10000 \<le> unat (sr_seq x) \<and> sr_seq x \<le> cm_head (st_meta st)
          \<and> (sr_endorsed x \<or> (personal_devices st \<le> 1 \<and> 30 * 24 * 60 * 60 * 1000 <s now - sr_created_at x)))
        \<and> (\<exists>k' j. map_of (mb_items (sv_cols s c)) k' = Some j \<and> k \<le> k' \<and> si_appended_at j \<le>s now - 7 * 24 * 60 * 60 * 1000)
        \<and> (\<exists>f bs. i \<in> set f \<and> encode (segment_cbor cr c f) = Inr bs
            \<and> sv_archive s' (archive_segment_key c (cm_retention_tier (st_meta st)) (si_seq (hd f)) (si_seq (last f))) = Some bs))"
  using assms(2,3)
proof (cases rule: compact_Ok)
  case same
  then show ?thesis using reachable_retained [OF assms(1), of c] assms(3,4) by (auto simp: entries_retained_def)
next
  case C: (compacted s1)
  define cp where "cp = compaction_point st (sv_cols s c) now"
  note inv = reachable_col_inv [OF assms(1), of c]
  note I = col_invD [OF inv assms(3)]
  have low: "1 \<le> cm_retained_from (st_meta st)" by (rule log_okD(1) [OF I(5)])
  then have "1 \<le> cp" using C(1) unfolding cp_def by (rule order_trans)
  then have "unat cp + 10000 \<le> unat (cm_head (st_meta st))" using compaction_point_bound [OF I(1,7)] by (simp add: cp_def)
  then have "unat (cp + 1) = unat cp + 1" using u64_bound [of "cm_head (st_meta st)"] by (simp add: unat_word_ariths)
  then have q: "k < q \<longleftrightarrow> k \<le> cp" by (simp add: C(2) cp_def [symmetric] word_less_nat_alt word_le_nat_alt less_Suc_eq_le)
  have items: "map_of (mb_items (sv_cols s' c)) k = (if cp < k \<or> si_kind i \<noteq> 1 then Some i else None)"
    using I(1) assms(4) by (simp add: C(4) mem_commit_def mem_write_def cp_def [symmetric] mem_ok_def bm_filter_lookup)
  have state: "\<exists>st'. mb_state (sv_cols s' c) = Some st' \<and> cm_retained_from (st_meta st') = q"
    using assms(3) by (simp add: C(2,4) mem_commit_def mem_write_def compacted_meta_def)
  show ?thesis
  proof (cases "k \<le> cp \<and> si_kind i = 1")
    case False
    then show ?thesis using items state q by (auto simp: not_le)
  next
    case True
    then have ret: "cm_retained_from (st_meta st) \<le> k"
      using reachable_retained [OF assms(1), of c] assms(3,4) by (auto simp: entries_retained_def)
    then have "1 \<le> k" using low by (rule order_trans [rotated])
    note R = compaction_point_reasons [OF I(1) this, of st now]
    obtain f where "i \<in> set f" "segment_stored cr c (cm_retention_tier (st_meta st)) s1 f"
      using archive_entries_spec [OF inv assms(3), of fa "cm_retention_tier (st_meta st)" cp s] C(3) True ret assms(4) unfolding cp_def by fastforce
    then have "\<exists>f bs. i \<in> set f \<and> encode (segment_cbor cr c f) = Inr bs
            \<and> sv_archive s' (archive_segment_key c (cm_retention_tier (st_meta st)) (si_seq (hd f)) (si_seq (last f))) = Some bs"
      by (auto simp: segment_stored_def C(4) set_col_def)
    moreover have "sr_seq x \<le> cm_head (st_meta st)" if "x \<in> snd ` set (mb_snapshots (sv_cols s c))" for x
      using snapshot_le_head [OF I(1,7)] that by (simp add: mem_snapshots_def)
    ultimately show ?thesis
      using R items state q True by (auto simp: cp_def SELF_ENDORSE_AGE_MS_def COMPACTION_MIN_AGE_MS_def)
  qed
qed

theorem compact_archives_first_witness:
  "\<exists>b s' q. compact accept_all False 1 5000 (run_service b) = Some (s', Inr q)
    \<and> (map_of (mb_items (sv_cols s' 1)) 2 = Some ref_row
       \<or> (si_kind ref_row = 1 \<and> unat (2 :: u64) + 10000 \<le> unat (cm_head ref_meta)
         \<and> (\<exists>f bs. ref_row \<in> set f \<and> encode (segment_cbor accept_all 1 f) = Inr bs
            \<and> sv_archive s' (archive_segment_key 1 (cm_retention_tier ref_meta) (si_seq (hd f)) (si_seq (last f))) = Some bs)))"
proof -
  obtain b where reach: "reachable accept_all [3] (run_service b)" using run_reachable(1) by blast
  have "mem_snapshots ref_col = []" by (simp add: mem_snapshots_def ref_col_def)
  then have "compact accept_all False 1 5000 (run_service b) = Some (run_service b, Inr 1)"
    by (simp add: compact_def svc_load_def run_fields compaction_point_def max_or_0_def sat_sub_def COMPACTION_GRACE_ENTRIES_def
        ref_meta_retained Let_def)
  then show ?thesis
    using compact_archives_first [OF reach, of False 1 5000 "run_service b" 1] by (fastforce simp: run_fields ref_col_def)
qed

end
