(* ===== verification/LogIntegrity.thy ===== *)
theory LogIntegrity
  imports LogHistory
begin

text \<open>
  What holds of the contents of every reachable service: the stored log is well formed and owned,
  whatever the log refers to is a committed object whose verified bytes are in the object store,
  and a download returns exactly those bytes.
\<close>

subsection \<open>The stored log\<close>

text \<open>C3. In every reachable service a collection has an owner and its own id; its rows lie between 1
  and the head, the retained part has no gap, every row is the decoded item at its own position with
  the size limit of an item, consecutive rows are linked by the chain hash, and the head's chain
  value is the hash of the row at the head.\<close>

theorem reachable_log:
  assumes "reachable cr roots s" "mb_state (sv_cols s c) = Some st"
  shows "has_owner st \<and> cm_id (st_meta st) = c \<and> log_ok cr c (st_meta st) (map_of (mb_items (sv_cols s c)))
    \<and> length (mb_snapshots (sv_cols s c)) \<le> RETAINED_SNAPSHOTS"
  using col_invD [OF reachable_col_inv [OF assms(1)] assms(2)] by (simp add: snaps_ok_def)

theorem reachable_log_witness:
  "\<exists>b. has_owner \<lparr>st_meta = ref_meta, st_acl = [(9, sample_acl)]\<rparr> \<and> cm_id (st_meta \<lparr>st_meta = ref_meta, st_acl = [(9, sample_acl)]\<rparr>) = 1
    \<and> log_ok accept_all 1 (st_meta \<lparr>st_meta = ref_meta, st_acl = [(9, sample_acl)]\<rparr>) (map_of (mb_items (sv_cols (run_service b) 1)))
    \<and> length (mb_snapshots (sv_cols (run_service b) 1)) \<le> RETAINED_SNAPSHOTS"
proof -
  obtain b where reach: "reachable accept_all [3] (run_service b)" using run_reachable(1) by blast
  show ?thesis by (intro exI [of _ b] reachable_log [OF reach]) (simp add: run_fields)
qed

subsection \<open>Objects\<close>

lemma reachable_objects: "reachable cr roots s \<Longrightarrow> objects_ok cr s"
  using reachable_inv by (auto simp: svc_inv_def)

text \<open>C5. What the log refers to is there: every address that a stored item or a retained snapshot
  refers to is a committed object of the collection, and the object store holds its bytes, with the
  recorded size and checksum, decoding to a well-formed object of this collection and kind, at its
  content address unless it is a blob part.  Garbage collection never breaks this.\<close>

theorem referenced_objects_stored:
  assumes "reachable cr roots s" "a \<in> mem_live_refs (sv_cols s c)"
  shows "\<exists>x bs. map_of (mb_objects (sv_cols s c)) a = Some x \<and> om_committed x \<and> om_address x = a
    \<and> sv_objects s (object_key c a) = Some bs \<and> object_valid cr c x bs"
proof -
  note inv = reachable_col_inv [OF assms(1), of c]
  have "mb_state (sv_cols s c) \<noteq> None"
  proof
    assume "mb_state (sv_cols s c) = None"
    then have "sv_cols s c = mem_empty" using inv by (simp add: col_inv_def)
    then show False using assms(2) by (simp add: mem_live_refs_def mem_empty_def)
  qed
  then obtain st where st: "mb_state (sv_cols s c) = Some st" by blast
  note I = col_invD [OF inv st]
  have "a \<in> dom (map_of (mb_objects (sv_cols s c)))"
  proof -
    from assms(2) consider k i where "(k, i) \<in> set (mb_items (sv_cols s c))" "a \<in> set (si_refs i)"
      | k r where "(k, r) \<in> set (mb_snapshots (sv_cols s c))" "a \<in> set (sr_refs r)"
      by (auto simp: mem_live_refs_def)
    then show ?thesis
    proof cases
      case 1
      then have "map_of (mb_items (sv_cols s c)) k = Some i" using I(1) by (simp add: mem_ok_def bm_lookup_mem)
      then have "set (si_refs i) \<subseteq> dom (map_of (mb_objects (sv_cols s c)))" using I(6) unfolding refs_ok_def by blast
      then show ?thesis using 1(2) by blast
    next
      case 2
      then have "map_of (mb_snapshots (sv_cols s c)) k = Some r" using I(1) by (simp add: mem_ok_def bm_lookup_mem)
      then have "set (sr_refs r) \<subseteq> dom (map_of (mb_objects (sv_cols s c)))" using I(6) unfolding refs_ok_def by blast
      then show ?thesis using 2(2) by blast
    qed
  qed
  then obtain x where x: "map_of (mb_objects (sv_cols s c)) a = Some x" by blast
  then have "om_committed x" "om_address x = a" using I(1,6) by (auto simp: refs_ok_def mem_ok_def)
  then show ?thesis using objects_okD [OF reachable_objects [OF assms(1)] x] x by blast
qed

theorem referenced_objects_stored_witness:
  "\<exists>b x bs. map_of (mb_objects (sv_cols (run_service b) 1)) 0 = Some x \<and> om_committed x \<and> om_address x = 0
    \<and> sv_objects (run_service b) (object_key 1 0) = Some bs \<and> object_valid accept_all 1 x bs"
proof -
  obtain b where reach: "reachable accept_all [3] (run_service b)" using run_reachable(1) by blast
  have "0 \<in> mem_live_refs (sv_cols (run_service b) 1)" by (simp add: run_fields mem_live_refs_def ref_col_def ref_row_def)
  then show ?thesis using referenced_objects_stored [OF reach] by blast
qed

text \<open>The bytes an address resolves to in a reachable service.\<close>

lemma get_object_Ok:
  assumes "get_object cf p q now s = Inr r" "gt_bytes r = Some b"
  obtains st e om where "mb_state (sv_cols s (go_collection q)) = Some st" "authorize st p = Inr e" "cm_status (st_meta st) \<noteq> Gone"
    "map_of (mb_objects (sv_cols s (go_collection q))) (go_address q) = Some om" "om_committed om"
    "gt_size r = om_size om" "gt_checksum r = om_checksum om"
    "(case go_range q of None \<Rightarrow> fetch_object s (object_key (go_collection q) (go_address q)) None = Inr b
      | Some x \<Rightarrow> unat (br_offset x) + unat (br_len x) < 2 ^ 64 \<and> br_offset x + br_len x \<le> om_size om \<and>
          fetch_object s (object_key (go_collection q) (go_address q)) (Some (br_offset x, br_len x)) = Inr b)"
proof -
  have ng: "not_gone x = Inr () \<Longrightarrow> x \<noteq> Gone" for x by (cases x) auto
  show thesis
  proof (cases "go_range q")
    case None
    then show thesis using assms that ng unfolding get_object_def Let_def svc_load_def committed_meta_def
      by (auto simp: rbind_Ok_iff ok_or_Ok_iff split: option.split_asm if_split_asm)
  next
    case (Some x)
    then show thesis using assms that ng unfolding get_object_def Let_def svc_load_def committed_meta_def
      by (auto simp: rbind_Ok_iff ok_or_Ok_iff not_le not_less split: option.split_asm if_split_asm)
  qed
qed

text \<open>C9. A download is authentic: when \<open>get_object\<close> returns bytes, the collection is not gone and the
  caller was authorised for it; the row at the requested address is a committed object of that
  address, and the object store holds its bytes under the key of that collection and address.  The
  bytes returned are those stored bytes (the requested range of them when a range is given, at its full
  length), and the size and checksum reported are the row's and are the length and hash of the stored
  bytes.  These are a well-formed object of the collection, of the row's kind, and unless it is a blob
  part their hash is the address that was asked for.\<close>

theorem get_object_authentic:
  assumes "reachable cr roots s" "get_object cf p q now s = Inr r" "gt_bytes r = Some b"
  shows "\<exists>st e om bs it. mb_state (sv_cols s (go_collection q)) = Some st \<and> cm_status (st_meta st) \<noteq> Gone
    \<and> authorize st p = Inr e
    \<and> map_of (mb_objects (sv_cols s (go_collection q))) (go_address q) = Some om
    \<and> om_committed om \<and> om_address om = go_address q
    \<and> sv_objects s (object_key (go_collection q) (go_address q)) = Some bs
    \<and> b = (case go_range q of None \<Rightarrow> bs | Some x \<Rightarrow> take (unat (br_len x)) (drop (unat (br_offset x)) bs))
    \<and> (case go_range q of None \<Rightarrow> True | Some x \<Rightarrow> length b = unat (br_len x))
    \<and> gt_size r = om_size om \<and> unat (gt_size r) = length bs
    \<and> gt_checksum r = om_checksum om \<and> gt_checksum r = cr_sha256 cr bs
    \<and> item_from_bytes bs = Inr it \<and> it_collection it = go_collection q \<and> item_kind_value (it_kind it) = om_kind om
    \<and> (it_kind it = BlobPart \<or> cr_sha256 cr bs = go_address q)"
proof -
  let ?c = "go_collection q" and ?a = "go_address q"
  from assms(2,3) obtain st e om where st: "mb_state (sv_cols s ?c) = Some st" "authorize st p = Inr e" "cm_status (st_meta st) \<noteq> Gone"
    and om: "map_of (mb_objects (sv_cols s ?c)) ?a = Some om" "om_committed om" "gt_size r = om_size om" "gt_checksum r = om_checksum om"
    and fetch: "(case go_range q of None \<Rightarrow> fetch_object s (object_key ?c ?a) None = Inr b
      | Some x \<Rightarrow> unat (br_offset x) + unat (br_len x) < 2 ^ 64 \<and> br_offset x + br_len x \<le> om_size om \<and>
          fetch_object s (object_key ?c ?a) (Some (br_offset x, br_len x)) = Inr b)"
    by (rule get_object_Ok) blast
  obtain bs where bs: "sv_objects s (object_key ?c ?a) = Some bs" "object_valid cr ?c om bs"
    using objects_okD [OF reachable_objects [OF assms(1)] om(1)] by blast
  then obtain it where it: "item_from_bytes bs = Inr it" "it_collection it = ?c" "item_kind_value (it_kind it) = om_kind om"
    by (auto simp: object_valid_def)
  have addr: "om_address om = ?a"
  proof -
    have "mem_ok (sv_cols s ?c)" using reachable_col_inv [OF assms(1), of ?c] by (simp add: col_inv_def)
    then show ?thesis using om(1) by (simp add: mem_ok_def)
  qed
  have len: "unat (om_size om) = length bs"
    using bs(2) by (simp add: object_valid_def MAX_BYTES_def unat_of_nat take_bit_eq_mod)
  have kind: "it_kind it = BlobPart \<or> cr_sha256 cr bs = ?a"
  proof -
    have "item_kind_value k = item_kind_value BlobPart \<Longrightarrow> k = BlobPart" for k by (cases k) simp_all
    then show ?thesis using bs(2) it(3) addr by (auto simp: object_valid_def)
  qed
  have "b = (case go_range q of None \<Rightarrow> bs | Some x \<Rightarrow> take (unat (br_len x)) (drop (unat (br_offset x)) bs))
    \<and> (case go_range q of None \<Rightarrow> True | Some x \<Rightarrow> length b = unat (br_len x))"
    using fetch bs(1) by (auto simp: fetch_object_def store_get_def rbind_Ok_iff ok_or_Ok_iff split: option.splits if_splits)
  moreover have "om_checksum om = cr_sha256 cr bs" using bs(2) by (simp add: object_valid_def)
  ultimately show ?thesis using st om addr bs(1) it len kind by simp
qed

definition sample_config :: Config where
  "sample_config = \<lparr>cf_roots = [3], cf_hmac = (\<lambda>_ _. []), cf_url_secret = [], cf_public_base = []\<rparr>"

definition sample_download :: GetObjectParams where
  "sample_download = \<lparr>go_collection = 1, go_address = 0, go_range = None\<rparr>"

theorem get_object_authentic_witness:
  "\<exists>b r om it. get_object sample_config ControlPlane sample_download 2000 (run_service b) = Inr r \<and> gt_bytes r = Some chunk_bytes
    \<and> map_of (mb_objects (sv_cols (run_service b) 1)) 0 = Some om \<and> om_committed om \<and> om_address om = 0
    \<and> sv_objects (run_service b) (object_key 1 0) = Some chunk_bytes
    \<and> unat (gt_size r) = length chunk_bytes \<and> gt_checksum r = cr_sha256 accept_all chunk_bytes
    \<and> item_from_bytes chunk_bytes = Inr it \<and> it_collection it = 1 \<and> item_kind_value (it_kind it) = om_kind om"
proof -
  obtain b where reach: "reachable accept_all [3] (run_service b)" using run_reachable(1) by blast
  have size: "(of_nat (length chunk_bytes) :: u64) \<le> MAX_INLINE_OBJECT_BYTES"
    using created_meta_fields(13) by (simp add: word_le_nat_alt MAX_INLINE_OBJECT_BYTES_def MIB_def)
  then have r: "get_object sample_config ControlPlane sample_download 2000 (run_service b)
      = Inr \<lparr>gt_bytes = Some chunk_bytes, gt_direct = None, gt_size = of_nat (length chunk_bytes), gt_checksum = 0\<rparr>"
    by (simp add: get_object_def sample_download_def run_fields svc_load_def authorize_def committed_meta_def ref_col_def chunk_meta_def
        fetch_object_def store_get_def)
  note A = get_object_authentic [OF reach r, of chunk_bytes, unfolded sample_download_def GetObjectParams.simps GetObjectResult.simps option.simps]
  show ?thesis using A r by (fastforce simp: run_fields)
qed

subsection \<open>Garbage collection\<close>

lemma gc_dead_archives:
  assumes "gc_dead fa c tier xs s = (s', dead)" "x \<in> set dead" "om_committed x" "sv_objects s (object_key c (om_address x)) = Some bs"
  shows "sv_archive s' (archive_object_key c tier (om_address x)) = Some bs"
proof -
  have keep: "gc_dead fa c tier ys t = (t', d) \<Longrightarrow> sv_objects t (object_key c a) = Some b \<Longrightarrow>
      sv_archive t (archive_object_key c tier a) = Some b \<Longrightarrow> sv_archive t' (archive_object_key c tier a) = Some b" for ys t t' d a b
  proof (induction ys arbitrary: t t' d)
    case (Cons y ys)
    obtain t1 r where t1: "store_archive_object fa c tier (om_address y) t = (t1, r)" by force
    have "sv_objects t1 = sv_objects t" "sv_archive t1 (archive_object_key c tier a) = Some b"
      using t1 Cons.prems(2,3) by (auto simp: store_archive_object_def archive_object_key_inj split: sum.splits option.splits)
    then show ?case using Cons.IH Cons.prems t1
      by (cases "gc_dead fa c tier ys t1"; cases "gc_dead fa c tier ys t") (auto split: if_splits sum.splits)
  qed simp
  show ?thesis using assms
  proof (induction xs arbitrary: s dead)
    case (Cons y ys)
    obtain s1 r where s1: "store_archive_object fa c tier (om_address y) s = (s1, r)" by force
    have obj: "sv_objects s1 = sv_objects s" using s1 by (auto simp: store_archive_object_def split: sum.splits option.splits)
    show ?case
    proof (cases "om_committed y \<and> r = Inr ()")
      case True
      obtain d where d: "gc_dead fa c tier ys s1 = (s', d)" "dead = y # d"
        using Cons.prems(1) True s1 by (cases "gc_dead fa c tier ys s1") auto
      show ?thesis
      proof (cases "x \<in> set d")
        case False
        then have "x = y" using Cons.prems(2) d(2) by simp
        then have "sv_archive s1 (archive_object_key c tier (om_address x)) = Some bs"
          using s1 True Cons.prems(4) by (auto simp: store_archive_object_def split: sum.splits option.splits)
        then show ?thesis using keep [OF d(1)] obj Cons.prems(4) by simp
      qed (use Cons.IH [OF d(1)] Cons.prems(3,4) obj in simp)
    next
      case False
      obtain t d where d: "gc_dead fa c tier ys t = (s', d)" "dead = d \<or> (dead = y # d \<and> \<not> om_committed y)" "sv_objects t = sv_objects s"
        using Cons.prems(1) False s1 obj
        by (cases "om_committed y"; cases "gc_dead fa c tier ys s1"; cases "gc_dead fa c tier ys s") (auto split: sum.splits)
      then have "x \<in> set d" using Cons.prems(2,3) by auto
      then show ?thesis using Cons.IH [OF d(1)] d(3) Cons.prems(3,4) by simp
    qed
  qed simp
qed

text \<open>C10. Garbage collection removes nothing that is in use or unarchived: a run keeps every object
  row with its bytes, or the object was referred to by no stored item and no retained snapshot, was
  older than the grace period, and its bytes are in the archive, under its own archive key, from
  before its row went.\<close>

theorem gc_removes_only_garbage:
  assumes "reachable cr roots s" "gc fa c now s = (s', r)" "map_of (mb_objects (sv_cols s c)) a = Some x"
  shows "(map_of (mb_objects (sv_cols s' c)) a = Some x \<and> sv_objects s' (object_key c a) = sv_objects s (object_key c a))
    \<or> (a \<notin> mem_live_refs (sv_cols s c) \<and> om_created_at x <s now - OBJECT_GRACE_MS \<and>
       (\<exists>st bs. mb_state (sv_cols s c) = Some st \<and> cm_status (st_meta st) = Live \<and> sv_objects s (object_key c a) = Some bs
          \<and> sv_archive s' (archive_object_key c (cm_retention_tier (st_meta st)) a) = Some bs))"
proof -
  let ?g = "sv_cols s c"
  note inv = reachable_col_inv [OF assms(1), of c]
  have ok: "mem_ok ?g" using inv by (simp add: col_inv_def)
  show ?thesis
  proof (cases "rbind (svc_load ?g) (\<lambda>st. rbind (live (cm_status (st_meta st))) (\<lambda>_. Ok st))")
    case (Inl e)
    then show ?thesis using assms(2,3) by (simp add: gc_def)
  next
    case (Inr st)
    then have st: "mb_state ?g = Some st" "cm_status (st_meta st) = Live"
      by (auto simp: rbind_Ok_iff svc_load_def ok_or_Ok_iff) (cases "cm_status (st_meta st)"; auto)
    define tier where "tier = cm_retention_tier (st_meta st)"
    obtain s1 dead where d: "gc_dead fa c tier (mem_gc_candidates ?g (now - OBJECT_GRACE_MS) GC_BATCH_OBJECTS) s = (s1, dead)" by force
    have only: "archive_only s s1" and dead: "dead = filter (\<lambda>x. \<not> (om_committed x \<and> fa)) (mem_gc_candidates ?g (now - OBJECT_GRACE_MS) GC_BATCH_OBJECTS)"
      using gc_dead_eq [OF d] by blast+
    show ?thesis
    proof (cases "dead = []")
      case True
      then have "s' = s1" using assms(2) Inr d by (simp add: gc_def tier_def)
      then show ?thesis using archive_only_frame [OF only] assms(3) by simp
    next
      case False
      let ?t = "set_col c (mem_commit (map (\<lambda>x. DeleteObject (om_address x)) dead @ [PutMeta (gc_meta ?g dead (st_meta st))]) ?g) s1"
      have s': "s' = fold (\<lambda>x. store_delete (object_key c (om_address x))) dead ?t"
        using assms(2) Inr d False by (simp add: gc_def tier_def Let_def)
      have rows: "map_of (mb_objects (sv_cols s' c)) = (\<lambda>a. if a \<in> om_address ` set dead then None else map_of (mb_objects ?g) a)"
        unfolding s' fold_delete_cols sv_cols_set_col
        using archive_only_frame [OF only] by (simp add: gc_effect(1) [OF ok st(1)])
      show ?thesis
      proof (cases "a \<in> om_address ` set dead")
        case no: False
        then have "sv_objects s' (object_key c a) = sv_objects s (object_key c a)"
          using archive_only_frame [OF only] by (auto simp: s' fold_delete_objects object_key_inj)
        then show ?thesis using rows no assms(3) by simp
      next
        case True
        then obtain y where y: "y \<in> set dead" "om_address y = a" by auto
        then have cand: "y \<in> set (mem_gc_candidates ?g (now - OBJECT_GRACE_MS) GC_BATCH_OBJECTS)" using dead by simp
        then have "y \<in> snd ` set (mb_objects ?g)" "om_created_at y <s now - OBJECT_GRACE_MS"
          by (auto simp: mem_gc_candidates_def dest!: in_set_takeD)
        moreover from this(1) have "map_of (mb_objects ?g) (om_address y) = Some y"
          using ok by (force simp: mem_ok_def bm_lookup_mem)
        ultimately have yx: "y = x" "om_created_at x <s now - OBJECT_GRACE_MS" using y(2) assms(3) by auto
        obtain bs where bs: "sv_objects s (object_key c a) = Some bs"
          using objects_okD [OF reachable_objects [OF assms(1)] assms(3)] by blast
        have "om_committed x" using col_invD(6) [OF inv st(1)] assms(3) by (auto simp: refs_ok_def)
        then have "sv_archive s1 (archive_object_key c tier a) = Some bs"
          using gc_dead_archives [OF d, of x bs] y yx(1) bs by simp
        moreover have "sv_archive s' = sv_archive s1"
        proof -
          have "sv_archive (fold (\<lambda>x. store_delete (object_key c (om_address x))) ds t) = sv_archive t" for ds :: "ObjectMeta list" and t :: Service
            by (induction ds arbitrary: t) (simp_all add: store_delete_def)
          then show ?thesis by (simp add: s' set_col_def)
        qed
        ultimately show ?thesis using gc_candidates_dead [OF cand] y(2) yx(2) st bs by (auto simp: tier_def)
      qed
    qed
  qed
qed

theorem gc_removes_only_garbage_witness:
  "(map_of (mb_objects (sv_cols (fst (gc False 1 10000000000 put_service)) 1)) 0 = Some chunk_meta
      \<and> sv_objects (fst (gc False 1 10000000000 put_service)) (object_key 1 0) = sv_objects put_service (object_key 1 0))
    \<or> (0 \<notin> mem_live_refs (sv_cols put_service 1) \<and> om_created_at chunk_meta <s 10000000000 - OBJECT_GRACE_MS \<and>
       (\<exists>st bs. mb_state (sv_cols put_service 1) = Some st \<and> cm_status (st_meta st) = Live
          \<and> sv_objects put_service (object_key 1 0) = Some bs
          \<and> sv_archive (fst (gc False 1 10000000000 put_service)) (archive_object_key 1 (cm_retention_tier (st_meta st)) 0) = Some bs))"
  by (rule gc_removes_only_garbage [OF run_reachable(2), of False 1 10000000000 _ "snd (gc False 1 10000000000 put_service)"])
    (simp_all add: put_service_def stored_col_fields)

end
