(* ===== verification/LogTokens.thy ===== *)
theory LogTokens
  imports LogIntegrity
begin

text \<open>
  Idempotency tokens over time.  \<open>call_at\<close> is a call of the service with the clock it reads; a token
  that landed is remembered through any calls made before its retention period has passed, whatever
  they prune, so no batch lands it a second time.
\<close>

subsection \<open>Calls with their clock\<close>

inductive call_at :: "crypto \<Rightarrow> b32 list \<Rightarrow> i64 \<Rightarrow> Service \<Rightarrow> Service \<Rightarrow> bool" for cr roots now where
  append: "append_with_budget cr roots p ps now u s = (u', s', r) \<Longrightarrow> call_at cr roots now s s'"
| put_object: "put_object_with_budget cr cf p po now u s = (u', s', r) \<Longrightarrow> call_at cr roots now s s'"
| upload: "call_at cr roots now s (s\<lparr>sv_objects := (sv_objects s)(staging_key c a d \<mapsto> bs)\<rparr>)"
| commit_object: "commit_object_with_budget cr Map.empty p co now u s = (u', s', r) \<Longrightarrow> call_at cr roots now s s'"
| put_snapshot: "put_snapshot_with_budget cr p q now u s = (u', s', r) \<Longrightarrow> call_at cr roots now s s'"
| endorse: "endorse_snapshot cr fa p e now s = Some (s', r) \<Longrightarrow> call_at cr roots now s s'"
| compact: "compact cr fa c now s = Some (s', r) \<Longrightarrow> call_at cr roots now s s'"
| gc: "gc fa c now s = (s', r) \<Longrightarrow> call_at cr roots now s s'"
| create: "create_log cr roots place p params now u s = (u', s', r) \<Longrightarrow> call_at cr roots now s s'"
| quota: "set_quota p params s = (s', r) \<Longrightarrow> call_at cr roots now s s'"
| delete: "delete_log p params s = (s', r) \<Longrightarrow> call_at cr roots now s s'"
| record_deletion: "record_collection_deletion rec s = (s', r) \<Longrightarrow> call_at cr roots now s s'"
| credentials: "check_credentials p now fresh s = (s', r) \<Longrightarrow> call_at cr roots now s s'"
| revoke: "revoke_device_credentials_call p params now s = (s', r) \<Longrightarrow> call_at cr roots now s s'"

text \<open>Every call is a call at some time, and conversely.\<close>

lemma call_at_iff: "call cr roots s s' \<longleftrightarrow> (\<exists>now. call_at cr roots now s s')"
proof
  assume "call cr roots s s'"
  then show "\<exists>now. call_at cr roots now s s'" by cases (blast intro: call_at.intros)+
next
  assume "\<exists>now. call_at cr roots now s s'"
  then obtain now where "call_at cr roots now s s'" by blast
  then show "call cr roots s s'" by cases (blast intro: call.intros)+
qed

subsection \<open>What keeps a token\<close>

definition remembers :: "b16 \<Rightarrow> b16 \<Rightarrow> i64 \<Rightarrow> Service \<Rightarrow> bool" where
  "remembers c t e s \<longleftrightarrow> mem_ok (sv_cols s c) \<and> mb_state (sv_cols s c) \<noteq> None
     \<and> (\<exists>q. map_of (mb_tokens (sv_cols s c)) t = Some (q, e))"

definition spares_token :: "b16 \<Rightarrow> i64 \<Rightarrow> Write \<Rightarrow> bool" where
  "spares_token t e w \<longleftrightarrow> (case w of InsertItem i \<Rightarrow> si_token i \<noteq> Some t | PruneTokens n \<Rightarrow> n <s e | _ \<Rightarrow> True)"

lemma spares_token_simps [simp]:
  "spares_token t e (CreateCollection st)" "spares_token t e (PutMeta m)" "spares_token t e (UpsertAcl a)"
  "spares_token t e (PutObject x)" "spares_token t e (DeleteObject b)" "spares_token t e (InsertSnapshot r)"
  "spares_token t e (DeleteSnapshot k)" "spares_token t e (EndorseSnapshot k)" "spares_token t e (DeleteEntriesThrough k)"
  "spares_token t e (Notify nt)"
  "spares_token t e (InsertItem i) \<longleftrightarrow> si_token i \<noteq> Some t" "spares_token t e (PruneTokens n) \<longleftrightarrow> n <s e"
  by (simp_all add: spares_token_def)

lemma commit_spares:
  assumes "mem_ok g" "mb_state g \<noteq> None" "map_of (mb_tokens g) t = Some (q, e)" "list_all (spares_token t e) ws"
  shows "mem_ok (mem_commit ws g) \<and> mb_state (mem_commit ws g) \<noteq> None \<and> map_of (mb_tokens (mem_commit ws g)) t = Some (q, e)"
  using assms unfolding mem_commit_def
proof (induction ws arbitrary: g)
  case (Cons w ws)
  have "mb_state (mem_write w g) \<noteq> None"
    using Cons.prems(2) by (cases w) (auto simp: mem_write_def split: option.split)
  moreover have "map_of (mb_tokens (mem_write w g)) t = Some (q, e)"
    using mem.write_token [OF Cons.prems(1), of w] Cons.prems(3,4) by (cases w) (auto split: option.split)
  ultimately show ?case using Cons mem.write_invar [OF Cons.prems(1), of w] by simp
qed simp

lemma remembers_commit:
  assumes "remembers c t e s" "sv_cols s' = (sv_cols s)(d := mem_commit ws (sv_cols s d))"
    and "d = c \<Longrightarrow> list_all (spares_token t e) ws"
  shows "remembers c t e s'"
proof (cases "d = c")
  case True
  obtain q where "mem_ok (sv_cols s c)" "mb_state (sv_cols s c) \<noteq> None" "map_of (mb_tokens (sv_cols s c)) t = Some (q, e)"
    using assms(1) by (auto simp: remembers_def)
  from commit_spares [OF this assms(3) [OF True]] show ?thesis using assms(2) True by (simp add: remembers_def)
qed (use assms in \<open>simp add: remembers_def\<close>)

lemma remembers_cols: "remembers c t e s \<Longrightarrow> sv_cols s' = sv_cols s \<Longrightarrow> remembers c t e s'"
  by (simp add: remembers_def)

lemma record_object_remembers:
  assumes "record_object d om s = (s', r)" "om_committed om" "remembers c t e s"
  shows "remembers c t e s'"
  using assms(1,2)
proof (cases rule: record_object_cases)
  case (put st m)
  then show ?thesis by (intro remembers_commit [OF assms(3), of _ d]) simp+
qed (use assms(3) in simp)

lemma finalize_remembers:
  assumes "finalize cr d a knd bs now u s = (u', s', r)" "remembers c t e s"
  shows "remembers c t e s'"
  using assms(1)
proof (cases rule: finalize_cases)
  case (fresh om s1)
  have "remembers c t e s1" using assms(2) fresh(2) by (simp add: remembers_def)
  then show ?thesis using record_object_remembers [OF fresh(4)] fresh(3) by simp
next
  case (existing om ex u1 u2)
  then show ?thesis using record_object_remembers assms(2) by simp
qed (rule remembers_cols [OF assms(2)])

lemma put_object_remembers:
  "put_object_with_budget cr cf p q now u s = (u', s', r) \<Longrightarrow> remembers c t e s \<Longrightarrow> remembers c t e s'"
  by (erule put_object_cases) (auto intro: finalize_remembers)

lemma commit_object_remembers:
  assumes "commit_object_with_budget cr Map.empty p q now u s = (u', s', r)" "remembers c t e s"
  shows "remembers c t e s'"
  using assms(1)
proof (cases rule: commit_object_cases)
  case (staged d u1)
  then show ?thesis
  proof (cases rule: commit_staged_cases)
    case (final bs v u1 u2 u3 s1 b)
    then show ?thesis using finalize_remembers [OF final(3) assms(2)] by (simp add: remembers_def)
  next
    case (failed bs v u1 u2 u3 e')
    then show ?thesis using finalize_remembers [OF failed(3) assms(2)] by simp
  qed (use assms(2) in \<open>simp_all add: remembers_def\<close>)
qed (use assms(2) in simp)

lemma put_snapshot_remembers:
  assumes "put_snapshot_with_budget cr p q now u s = (u', s', r)" "remembers c t e s"
  shows "remembers c t e s'"
  using assms(1)
proof (cases rule: put_snapshot_cases)
  case (put st refs u1 row)
  show ?thesis unfolding put(9)
    by (rule remembers_commit [OF assms(2), of _ "ps_collection q"]) (simp add: list_all_iff)+
qed (use assms(2) in simp)

lemma compact_remembers:
  assumes "compact cr fa d now s = Some (s', r)" "remembers c t e s" "now <s e"
  shows "remembers c t e s'"
  using assms(1)
proof (cases rule: compact_cases)
  case (compacted st s1)
  have "sv_cols s1 = sv_cols s" using archive_only_frame [OF archive_entries_frame [OF compacted(3)]] by blast
  then show ?thesis
    using compacted(4) assms(3) by (intro remembers_commit [OF assms(2), of _ d]) simp+
qed (use assms(2) archive_only_frame remembers_cols in blast)

lemma endorse_remembers:
  assumes "endorse_snapshot cr fa p q now s = Some (s', r)" "remembers c t e s" "now <s e"
  shows "remembers c t e s'"
  using assms(1)
proof (cases rule: endorse_cases)
  case (endorsed k r')
  have "remembers c t e (set_col (es_collection q) (mem_commit [EndorseSnapshot k] (sv_cols s (es_collection q))) s)"
    by (rule remembers_commit [OF assms(2)]) simp+
  then show ?thesis using compact_remembers [OF endorsed _ assms(3)] by blast
qed (use assms compact_remembers in auto)

lemma gc_remembers:
  assumes "gc fa d now s = (s', r)" "remembers c t e s"
  shows "remembers c t e s'"
  using assms(1)
proof (cases rule: gc_cases)
  case (collected st s1 dead)
  have "sv_cols s1 = sv_cols s" using archive_only_frame [OF collected(4)] by blast
  then show ?thesis
    using collected by (intro remembers_commit [OF assms(2), of _ d]) (simp add: list_all_iff)+
qed (use assms(2) archive_only_frame remembers_cols in blast)

lemma create_remembers:
  assumes "create_log cr roots place p params now u s = (u', s', r)" "remembers c t e s"
  shows "remembers c t e s'"
  using assms(1)
proof (cases rule: create_cases)
  case (created d it b region payload st rv)
  then have "d \<noteq> c" using assms(2) by (auto simp: remembers_def)
  then show ?thesis using created assms(2) by (simp add: remembers_def)
qed (use assms(2) in simp)

lemma quota_remembers:
  assumes "set_quota p params s = (s', r)" "remembers c t e s"
  shows "remembers c t e s'"
  using assms(1)
proof (cases rule: quota_cases)
  case (set_to d q st b)
  then show ?thesis by (intro remembers_commit [OF assms(2), of _ d]) simp+
qed (use assms(2) in simp)

lemma delete_remembers:
  assumes "delete_log p params s = (s', r)" "remembers c t e s"
  shows "remembers c t e s'"
  using assms(1)
proof (cases rule: delete_cases)
  case (deleted d st rec nt)
  then show ?thesis by (intro remembers_commit [OF assms(2), of _ d]) simp+
qed (use assms(2) in simp)

text \<open>An append refuses a remembered token, so it inserts no row that carries it.\<close>

lemma append_remembers:
  assumes "append_with_budget cr roots p ps now u s = (u', s', r)" "remembers c t e s" "now <s e"
  shows "remembers c t e s'"
proof (cases r)
  case (Inl f)
  from assms(1) [unfolded this] obtain b where "s' = s\<lparr>sv_buckets := b\<rparr>" by (rule append_FailE)
  then show ?thesis using assms(2) by (simp add: remembers_def)
next
  case (Inr oc)
  from assms(1) [unfolded Inr] show ?thesis
  proof (cases rule: append_OkE)
    case (unchanged b)
    then show ?thesis using assms(2) by (simp add: remembers_def)
  next
    case (landed items st ws revoked prev b g')
    let ?rows = "stored_items (ap_expect_seq ps) now (zip items (ap_items ps))"
    have "si_token i \<noteq> Some t" if "ap_collection ps = c" "i \<in> set ?rows" for i
    proof
      assume "si_token i = Some t"
      then have "t \<in> set (List.map_filter si_token ?rows)" using that(2) by (auto simp: in_map_filter)
      then obtain it where it: "it \<in> set items" "it_idem it = Some t"
        using lands_chain(3) [OF landed(1)] by (auto simp: stored_items_tokens map_filter_zip in_map_filter)
      obtain q where "map_of (mb_tokens (sv_cols s c)) t = Some (q, e)" using assms(2) by (auto simp: remembers_def)
      then show False using append_tokens_None(2) [OF _ it] landed(1) that(1) assms(3) by (auto simp: lands_def)
    qed
    then have "ap_collection ps = c \<Longrightarrow> list_all (spares_token t e) (map InsertItem ?rows @ map UpsertAcl (changed_acl st ws)
        @ [PutMeta (landed_meta ps ws prev), Notify (the (oc_notice oc))])"
      by (auto simp: list_all_iff)
    moreover have "g' = mem_commit (map InsertItem ?rows @ map UpsertAcl (changed_acl st ws)
        @ [PutMeta (landed_meta ps ws prev), Notify (the (oc_notice oc))]) (sv_cols s (ap_collection ps))"
      using landed(2) by (auto simp: append_commit_def Let_def landed_meta_def)
    ultimately show ?thesis using landed(3) by (intro remembers_commit [OF assms(2), of _ "ap_collection ps"]) simp+
  qed
qed

lemma call_at_remembers:
  assumes "call_at cr roots now s s'" "remembers c t e s" "now <s e"
  shows "remembers c t e s'"
  using assms(1)
proof cases
  case (upload c' a d bs)
  then show ?thesis using assms(2) by (simp add: remembers_def)
next
  case (record_deletion rec r)
  then show ?thesis using assms(2) record_deletion_frame remembers_cols by blast
next
  case (credentials p fresh r)
  then show ?thesis using assms(2) credentials_frame remembers_cols by blast
next
  case (revoke p params r)
  then show ?thesis using assms(2) revoke_frame remembers_cols by blast
qed (use assms(2,3) in \<open>blast intro: append_remembers put_object_remembers commit_object_remembers put_snapshot_remembers
    endorse_remembers compact_remembers gc_remembers create_remembers quota_remembers delete_remembers\<close>)+

lemma calls_remember:
  assumes "(\<lambda>a b. \<exists>n. n <s e \<and> call_at cr roots n a b)\<^sup>*\<^sup>* s s'" "remembers c t e s"
  shows "remembers c t e s'"
  using assms by (induction rule: rtranclp_induct) (auto intro: call_at_remembers)

subsection \<open>At most once\<close>

text \<open>C7. At most once: an idempotency token that landed cannot land again in its retention period (180
  days).  Take any reachable service and an append at time \<open>now\<close> that lands an item under a token;
  then any calls whatever (appends, compactions, endorsements, collections of garbage, quota changes,
  deletion), in any order, each reading a clock before the end of the period; and then another batch
  for the collection with an item under that token, before the end of the period.  That batch leaves
  every collection unchanged and announces no commit: it is refused, or answered by the
  earlier receipt or as a duplicate.\<close>

theorem append_token_once:
  assumes reach: "reachable cr roots s"
    and run: "append_with_budget cr roots p ps now u s = (u', s1, Inr oc)" and nt: "oc_notice oc = Some nt"
    and first: "parsed_from p (ap_collection ps) (ap_expect_seq ps) (ap_items ps) items" "it \<in> set items" "it_idem it = Some tok"
    and between: "(\<lambda>a b. \<exists>n. n <s now + TOKEN_RETENTION_MS \<and> call_at cr roots n a b)\<^sup>*\<^sup>* s1 s2"
    and again: "append_with_budget cr roots q ps2 now2 v s2 = (v', s3, r)" "ap_collection ps2 = ap_collection ps"
      "parsed_from q (ap_collection ps2) (ap_expect_seq ps2) (ap_items ps2) items2" "it2 \<in> set items2" "it_idem it2 = Some tok"
    and soon: "now2 <s now + TOKEN_RETENTION_MS"
  shows "sv_cols s3 = sv_cols s2 \<and> (\<forall>oc2. r = Inr oc2 \<longrightarrow> oc_notice oc2 = None)"
proof -
  let ?c = "ap_collection ps"
  have ok: "col_inv cr ?c (sv_cols s ?c)" by (rule reachable_col_inv [OF reach])
  from run obtain items' st ws revoked prev g' where l: "lands cr roots p ps now (sv_cols s ?c) items' st ws revoked prev"
      "append_commit p ps now items' st ws revoked prev (sv_cols s ?c) = (g', oc)" "sv_cols s1 ?c = g'"
    by (cases rule: append_OkE) (use nt in \<open>auto simp: set_col_def\<close>)
  have "items' = items" using l(1) first(1) parsed_from_unique by (auto simp: lands_def)
  then obtain seq where "map_of (mb_tokens (sv_cols s1 ?c)) tok = Some (seq, now + TOKEN_RETENTION_MS)"
    using landed_token [OF l(2,1) _ _ first(3)] ok first(2) l(3) by (auto simp: col_inv_def)
  moreover have "col_inv cr ?c (sv_cols s1 ?c)"
    using reach call.append [OF run] by (intro reachable_col_inv [where roots = roots]) (auto simp: reachable_def)
  moreover have "mb_state g' \<noteq> None"
    using append_commit_effect(2) [OF l(2,1)] col_invD [OF ok] append_gate_Ok(1) l(1) by (fastforce simp: lands_def)
  ultimately have "remembers ?c tok (now + TOKEN_RETENTION_MS) s1" using l(3) by (simp add: remembers_def col_inv_def)
  then have rem: "remembers ?c tok (now + TOKEN_RETENTION_MS) s2" by (rule calls_remember [OF between])
  show ?thesis
  proof (cases r)
    case (Inl f)
    from again(1) [unfolded Inl] obtain b where "s3 = s2\<lparr>sv_buckets := b\<rparr>" by (rule append_FailE)
    then show ?thesis using Inl by simp
  next
    case (Inr oc2)
    from again(1) [unfolded Inr] show ?thesis
    proof (cases rule: append_OkE)
      case (unchanged b)
      then show ?thesis using Inr by simp
    next
      case (landed items3 st2 ws2 revoked2 prev2 b g2)
      then have "items3 = items2" using again(3) parsed_from_unique by (auto simp: lands_def)
      then have "\<not> now2 <s now + TOKEN_RETENTION_MS"
        using append_tokens_None(2) [OF _ again(4,5)] landed(1) again(2) rem by (fastforce simp: lands_def remembers_def)
      then show ?thesis using soon by simp
    qed
  qed
qed

theorem append_token_once_witness:
  "\<exists>b s2 s3. s2 = fst (set_quota ControlPlane sample_quota (run_service b))
    \<and> s3 = fst (snd (append_with_budget accept_all [3] sample_device ref_params 2000 budget_default s2)) \<and> sv_cols s3 = sv_cols s2"
proof -
  obtain u' b oc nt where run: "append_with_budget accept_all [3] sample_device ref_params 1000 budget_default put_service = (u', run_service b, Inr oc)"
      "oc_notice oc = Some nt" using ref_append by blast
  define s2 where "s2 = fst (set_quota ControlPlane sample_quota (run_service b))"
  obtain r where "set_quota ControlPlane sample_quota (run_service b) = (s2, r)" by (metis prod.exhaust_sel s2_def)
  then have step: "call_at accept_all [3] 1500 (run_service b) s2" by (rule call_at.quota)
  have early: "1500 <s (1000 :: i64) + TOKEN_RETENTION_MS" "2000 <s (1000 :: i64) + TOKEN_RETENTION_MS"
    by (simp_all add: TOKEN_RETENTION_MS_def word_sless_alt)
  have between: "(\<lambda>a b. \<exists>n. n <s 1000 + TOKEN_RETENTION_MS \<and> call_at accept_all [3] n a b)\<^sup>*\<^sup>* (run_service b) s2"
    using step early(1) by (intro r_into_rtranclp) blast
  obtain v s3 r' where again: "append_with_budget accept_all [3] sample_device ref_params 2000 budget_default s2 = (v, s3, r')"
    by (metis prod.exhaust)
  obtain w where "parse_items sample_device 1 2 0 [ref_bytes] budget_default = (w, Inr [ref_entry])" using ref_parsed by blast
  from parse_items_Ok [OF this] have parsed: "parsed_from sample_device (ap_collection ref_params) (ap_expect_seq ref_params) (ap_items ref_params) [ref_entry]"
    by (simp add: ref_params_def)
  have tok: "it_idem ref_entry = Some 3" by (simp add: ref_entry_def)
  have "sv_cols s3 = sv_cols s2"
    using append_token_once [OF run_reachable(2) run parsed _ tok between again refl parsed _ tok early(2)] by simp
  then have "s2 = fst (set_quota ControlPlane sample_quota (run_service b))
    \<and> s3 = fst (snd (append_with_budget accept_all [3] sample_device ref_params 2000 budget_default s2)) \<and> sv_cols s3 = sv_cols s2"
    using again by (simp add: s2_def)
  then show ?thesis by blast
qed

end
