(* ===== verification/LogAccounting.thy ===== *)
theory LogAccounting
  imports LogHistory
begin

text \<open>
  The byte accounting of a collection: what \<open>used_bytes\<close> and \<open>file_bytes\<close> of the collection row say
  is what the collection holds, across appends, uploads, compactions and garbage collections, as
  long as a collection holds less than \<open>2^64\<close> bytes (the counters are 64-bit and the additions of
  the append path are not checked).
\<close>

subsection \<open>Sums over maps\<close>

definition msum :: "('v \<Rightarrow> nat) \<Rightarrow> ('k \<rightharpoonup> 'v) \<Rightarrow> nat" where
  "msum f m = (\<Sum>k\<in>dom m. f (the (m k)))"

lemma msum_empty [simp]: "msum f Map.empty = 0"
  by (simp add: msum_def)

lemma msum_upd: "finite (dom m) \<Longrightarrow> m k = None \<Longrightarrow> msum f (m(k \<mapsto> v)) = f v + msum f m"
proof -
  assume "finite (dom m)" "m k = None"
  then have "msum f (m(k \<mapsto> v)) = f v + (\<Sum>x\<in>dom m. f (the ((m(k \<mapsto> v)) x)))"
    by (simp add: msum_def domIff)
  also have "(\<Sum>x\<in>dom m. f (the ((m(k \<mapsto> v)) x))) = msum f m"
    unfolding msum_def using \<open>m k = None\<close> by (intro sum.cong) auto
  finally show ?thesis .
qed

lemma msum_del: "finite (dom m) \<Longrightarrow> m k = Some v \<Longrightarrow> msum f m = f v + msum f (m(k := None))"
  using msum_upd [of "m(k := None)" k f v] by (simp add: fun_upd_idem)

lemma msum_del_list:
  assumes "finite (dom m)" "distinct (map key xs)" "\<forall>x\<in>set xs. m (key x) = Some x"
  shows "msum f m = sum_list (map f xs) + msum f (\<lambda>a. if a \<in> key ` set xs then None else m a)"
  using assms(2,3)
proof (induction xs)
  case (Cons x xs)
  let ?m = "\<lambda>a. if a \<in> key ` set xs then None else m a"
  have "dom ?m \<subseteq> dom m" by (auto split: if_splits)
  then have "finite (dom ?m)" using assms(1) by (rule finite_subset)
  moreover have "?m (key x) = Some x" using Cons.prems by simp
  ultimately have "msum f ?m = f x + msum f (?m(key x := None))" by (rule msum_del)
  also have "?m(key x := None) = (\<lambda>a. if a \<in> key ` set (x # xs) then None else m a)" by auto
  finally show ?case using Cons by simp
qed simp

lemma msum_filter:
  assumes "finite (dom m)"
  shows "msum f m = msum f (\<lambda>k. case m k of Some v \<Rightarrow> if P k v then Some v else None | None \<Rightarrow> None)
    + msum f (\<lambda>k. case m k of Some v \<Rightarrow> if P k v then None else Some v | None \<Rightarrow> None)"
proof -
  let ?a = "{k \<in> dom m. P k (the (m k))}" and ?b = "{k \<in> dom m. \<not> P k (the (m k))}"
  have "msum f m = (\<Sum>k\<in>?a. f (the (m k))) + (\<Sum>k\<in>?b. f (the (m k)))"
    unfolding msum_def using assms by (subst sum.union_disjoint [symmetric]) (auto intro: sum.cong)
  also have "(\<Sum>k\<in>?a. f (the (m k))) = msum f (\<lambda>k. case m k of Some v \<Rightarrow> if P k v then Some v else None | None \<Rightarrow> None)"
    unfolding msum_def by (rule sum.cong) (auto split: option.splits if_splits)
  also have "(\<Sum>k\<in>?b. f (the (m k))) = msum f (\<lambda>k. case m k of Some v \<Rightarrow> if P k v then None else Some v | None \<Rightarrow> None)"
    unfolding msum_def by (rule sum.cong) (auto split: option.splits if_splits)
  finally show ?thesis .
qed

lemma msum_block:
  fixes e :: u64
  assumes "finite (dom m)" "\<forall>j<n. m (e + of_nat j) = None" "unat e + n < 2 ^ 64"
    and "m' = (\<lambda>k. if e \<le> k \<and> unat k < unat e + n then Some (r (unat k - unat e)) else m k)"
  shows "msum f m' = msum f m + (\<Sum>j<n. f (r j))"
  using assms(2-4)
proof (induction n arbitrary: m')
  case 0
  have "m' = m"
  proof
    show "m' k = m k" for k unfolding 0(3) by (auto simp: word_le_nat_alt)
  qed
  then show ?case by simp
next
  case (Suc n)
  define m1 where "m1 = (\<lambda>k. if e \<le> k \<and> unat k < unat e + n then Some (r (unat k - unat e)) else m k)"
  have IH: "msum f m1 = msum f m + (\<Sum>j<n. f (r j))" using Suc.IH [OF _ _ m1_def] Suc.prems(1,2) by simp
  have key: "unat (e + of_nat n) = unat e + n"
    using Suc.prems(2) by (simp add: unat_word_ariths unat_of_nat take_bit_eq_mod)
  have "dom m1 \<subseteq> dom m \<union> (\<lambda>j. e + of_nat j) ` {..<n}"
  proof
    fix k assume k: "k \<in> dom m1"
    show "k \<in> dom m \<union> (\<lambda>j. e + of_nat j) ` {..<n}"
    proof (cases "e \<le> k \<and> unat k < unat e + n")
      case True
      then have j: "unat k - unat e < n" "unat e \<le> unat k" by (auto simp: word_le_nat_alt)
      then have "k = e + of_nat (unat k - unat e)" by (simp add: of_nat_diff)
      then show ?thesis using j(1) by blast
    qed (use k in \<open>auto simp: m1_def\<close>)
  qed
  then have fin: "finite (dom m1)" using assms(1) by (meson finite_UnI finite_imageI finite_lessThan finite_subset)
  have new: "m1 (e + of_nat n) = None" using Suc.prems(1) key by (auto simp: m1_def)
  have "m' = m1(e + of_nat n \<mapsto> r n)"
  proof
    fix k
    have "k = e + of_nat n \<longleftrightarrow> unat k = unat e + n" using key by (metis word_unat_eq_iff)
    then show "m' k = (m1(e + of_nat n \<mapsto> r n)) k"
      unfolding Suc.prems(3) by (auto simp: m1_def word_le_nat_alt less_Suc_eq)
  qed
  then show ?case using msum_upd [OF fin new, of f "r n"] IH by (simp del: fun_upd_apply)
qed

lemma msum_list: "bm_ok m \<Longrightarrow> msum f (map_of m) = sum_list (map (\<lambda>x. f (snd x)) m)"
proof (induction m)
  case (Cons x m)
  then have "map_of m (fst x) = None" by (cases x) (auto simp: bm_ok_Cons map_of_eq_None_iff)
  moreover have "map_of (x # m) = (map_of m)(fst x \<mapsto> snd x)" by (cases x) simp
  moreover have "bm_ok m" using Cons.prems by (cases x) (simp add: bm_ok_Cons)
  ultimately show ?case using msum_upd [OF finite_dom_map_of, of m "fst x" f "snd x"] Cons.IH by (simp del: map_of.simps fun_upd_apply)
qed simp

lemma sum_list_u64: "sum_list (map f xs) < 2 ^ 64 \<Longrightarrow> unat (sum_list (map (\<lambda>x. of_nat (f x) :: u64) xs)) = sum_list (map f xs)"
proof (induction xs)
  case (Cons x xs)
  let ?t = "sum_list (map (\<lambda>x. of_nat (f x) :: u64) xs)"
  have "unat (of_nat (f x) + ?t) = f x + sum_list (map f xs)"
    using Cons by (simp add: unat_word_ariths unat_of_nat take_bit_eq_mod)
  then show ?case by simp
qed simp

subsection \<open>The counters\<close>

definition item_bytes :: "MemCollection \<Rightarrow> nat" where
  "item_bytes g = msum (\<lambda>i. length (si_bytes i)) (map_of (mb_items g))"

definition object_bytes :: "MemCollection \<Rightarrow> nat" where
  "object_bytes g = msum (\<lambda>x. unat (om_size x)) (map_of (mb_objects g))"

definition blob_size :: "ObjectMeta \<Rightarrow> nat" where
  "blob_size x = (if om_kind x = item_kind_value BlobPart then unat (om_size x) else 0)"

definition blob_bytes :: "MemCollection \<Rightarrow> nat" where
  "blob_bytes g = msum blob_size (map_of (mb_objects g))"

definition stored_bytes :: "MemCollection \<Rightarrow> nat" where
  "stored_bytes g = item_bytes g + object_bytes g"

definition accounted :: "MemCollection \<Rightarrow> bool" where
  "accounted g \<longleftrightarrow> (\<forall>st. mb_state g = Some st \<longrightarrow> unat (cm_used_bytes (st_meta st)) = stored_bytes g
     \<and> (\<exists>b. cm_file_bytes (st_meta st) = Some b \<and> unat b = blob_bytes g))"

lemma accountedI:
  assumes "mb_state g = Some st" "unat (cm_used_bytes (st_meta st)) = stored_bytes g" "cm_file_bytes (st_meta st) = Some b" "unat b = blob_bytes g"
  shows "accounted g"
  using assms by (simp add: accounted_def)

lemma accounted_same:
  assumes "accounted g" "mb_state g = Some st" "mb_state g' = Some st'" "cm_used_bytes (st_meta st') = cm_used_bytes (st_meta st)"
    "cm_file_bytes (st_meta st') = cm_file_bytes (st_meta st)" "mb_items g' = mb_items g" "mb_objects g' = mb_objects g"
  shows "accounted g'"
  using assms by (simp add: accounted_def stored_bytes_def item_bytes_def object_bytes_def blob_bytes_def)

lemma add_bytes: "unat (a :: u64) = x \<Longrightarrow> unat b = y \<Longrightarrow> x + y < 2 ^ 64 \<Longrightarrow> unat (a + b) = x + y"
  by (simp add: unat_word_ariths)

lemma append_accounted:
  assumes lands: "lands cr roots p ps now g items st ws revoked prev" and commit: "append_commit p ps now items st ws revoked prev g = (g', oc)"
    and inv: "col_inv cr (ap_collection ps) g" and "accounted g" "stored_bytes g' < 2 ^ 64"
  shows "accounted g'"
proof -
  have st: "mb_state g = Some st" using append_gate_Ok(1) lands by (auto simp: lands_def)
  note I = col_invD [OF inv st] and h = lands_head [OF lands]
  note eff = append_commit_effect [OF commit lands I(1,2)]
  let ?n = "length (ap_items ps)" and ?es = "ap_expect_seq ps"
  define r where "r j = stored_item (?es + of_nat j) (items ! j) (ap_items ps ! j) now" for j
  have fresh: "\<forall>j<?n. map_of (mb_items g) (?es + of_nat j) = None"
  proof (intro allI impI)
    fix j assume j: "j < ?n"
    then have "unat (?es + of_nat j) = unat (cm_head (st_meta st)) + 1 + j" using append_rows(1) [OF lands j refl] h(1) by simp
    then have "\<not> ?es + of_nat j \<le> cm_head (st_meta st)" by (simp add: word_le_nat_alt)
    then show "map_of (mb_items g) (?es + of_nat j) = None" using log_okD(5) [OF I(5)] by (metis not_None_eq)
  qed
  have bound: "unat ?es + ?n < 2 ^ 64" using h(2,4) by simp
  have items: "map_of (mb_items g') = (\<lambda>k. if ?es \<le> k \<and> unat k < unat ?es + ?n then Some (r (unat k - unat ?es)) else map_of (mb_items g) k)"
  proof
    fix k
    have "?es \<le> k \<Longrightarrow> ?es + of_nat (unat k - unat ?es) = k" by (simp add: word_le_nat_alt of_nat_diff)
    then show "map_of (mb_items g') k = (if ?es \<le> k \<and> unat k < unat ?es + ?n then Some (r (unat k - unat ?es)) else map_of (mb_items g) k)"
      using eff(3) [of k] by (simp add: r_def)
  qed
  have "item_bytes g' = item_bytes g + (\<Sum>j<?n. length (si_bytes (r j)))"
    unfolding item_bytes_def by (rule msum_block [OF finite_dom_map_of fresh bound items])
  also have "(\<Sum>j<?n. length (si_bytes (r j))) = sum_list (map length (ap_items ps))"
    by (simp add: r_def stored_item_def sum_list_sum_nth atLeast0LessThan)
  finally have total: "stored_bytes g' = stored_bytes g + sum_list (map length (ap_items ps))"
    by (simp add: stored_bytes_def object_bytes_def eff(4))
  have pos: "cm_used_bytes (st_meta ws) = cm_used_bytes (st_meta st)" "cm_file_bytes (st_meta ws) = cm_file_bytes (st_meta st)"
    using position.lands_Q [OF lands] by (simp_all add: position_rel_def Let_def)
  obtain b where b: "unat (cm_used_bytes (st_meta st)) = stored_bytes g" "cm_file_bytes (st_meta st) = Some b" "unat b = blob_bytes g"
    using assms(4) st by (auto simp: accounted_def)
  have "unat (batch_bytes (ap_items ps)) = sum_list (map length (ap_items ps))"
    unfolding batch_bytes_def using sum_list_u64 [of length "ap_items ps"] total assms(5) by simp
  then have "unat (cm_used_bytes (landed_meta ps ws prev)) = stored_bytes g'"
    using add_bytes [OF b(1)] total assms(5) pos(1) by (simp add: landed_meta_def)
  then show ?thesis
    using accountedI [OF eff(2), of b] b(2,3) pos(2) eff(4) by (simp add: landed_meta_def blob_bytes_def)
qed

lemma object_accounted:
  assumes "mb_state g = Some st" "\<not> committed_at g (om_address om)" "om_committed om" "charge_object g om (st_meta st) = Inr m"
    and inv: "col_inv cr c g" and "accounted g" and g': "g' = mem_commit [PutMeta m, PutObject om] g"
  shows "accounted g'"
proof -
  note I = col_invD [OF inv assms(1)]
  have fresh: "map_of (mb_objects g) (om_address om) = None"
    using assms(2) I(6) by (fastforce simp: committed_at_def refs_ok_def split: option.splits)
  have objs: "map_of (mb_objects g') = (map_of (mb_objects g))(om_address om \<mapsto> om)" "mb_items g' = mb_items g"
      "mb_state g' = Some (st\<lparr>st_meta := m\<rparr>)"
    using I(1) assms(1) by (simp_all add: g' mem_commit_def mem_write_def mem_ok_def)
  obtain b where b: "unat (cm_used_bytes (st_meta st)) = stored_bytes g" "cm_file_bytes (st_meta st) = Some b" "unat b = blob_bytes g"
    using assms(6,1) by (auto simp: accounted_def)
  have total: "stored_bytes g' = stored_bytes g + unat (om_size om)" "blob_bytes g' = blob_bytes g + blob_size om"
    using msum_upd [OF finite_dom_map_of fresh] by (simp_all add: stored_bytes_def object_bytes_def blob_bytes_def item_bytes_def objs)
  have room: "unat (cm_used_bytes (st_meta st)) + unat (om_size om) < 2 ^ 64"
      "om_kind om = item_kind_value BlobPart \<Longrightarrow> unat b + unat (om_size om) < 2 ^ 64"
    using assms(4) b(2) by (auto simp: charge_object_def Let_def file_bytes_def split: if_splits)
  have "cm_used_bytes m = cm_used_bytes (st_meta st) + om_size om"
      "cm_file_bytes m = Some (if om_kind om = item_kind_value BlobPart then b + om_size om else b)"
    using assms(4) b(2) by (auto simp: charge_object_def Let_def file_bytes_def split: if_splits)
  then show ?thesis
    using accountedI [OF objs(3)] b add_bytes [OF refl refl room(1)] add_bytes [OF refl refl room(2)] total by (auto simp: blob_size_def)
qed

lemma compact_accounted:
  assumes "mb_state g = Some st" "col_inv cr c g" "accounted g" "stored_bytes g < 2 ^ 64"
    and g': "g' = mem_commit [DeleteEntriesThrough cp, PruneTokens now, PutMeta (compacted_meta g cp (st_meta st))] g"
  shows "accounted g'"
proof -
  note I = col_invD [OF assms(2,1)]
  have ok: "bm_ok (mb_items g)" using I(1) by (simp add: mem_ok_def)
  let ?P = "\<lambda>k i. cp < k \<or> si_kind i \<noteq> 1"
  have kept: "map_of (mb_items g') = (\<lambda>k. case map_of (mb_items g) k of Some i \<Rightarrow> if ?P k i then Some i else None | None \<Rightarrow> None)"
    using ok by (simp add: g' mem_commit_def mem_write_def bm_filter_lookup fun_eq_iff split: option.splits)
  have frame: "mb_objects g' = mb_objects g" "mb_state g' = Some (st\<lparr>st_meta := compacted_meta g cp (st_meta st)\<rparr>)"
    using assms(1) by (simp_all add: g' mem_commit_def mem_write_def)
  let ?gone = "filter (\<lambda>(s, i). s \<le> cp \<and> si_kind i = 1) (mb_items g)"
  have gone: "map_of ?gone = (\<lambda>k. case map_of (mb_items g) k of Some i \<Rightarrow> if ?P k i then None else Some i | None \<Rightarrow> None)"
  proof
    fix k
    show "map_of ?gone k = (case map_of (mb_items g) k of Some i \<Rightarrow> if ?P k i then None else Some i | None \<Rightarrow> None)"
      using ok by (cases "map_of (mb_items g) k") (auto simp: bm_filter_lookup)
  qed
  have "msum (\<lambda>i. length (si_bytes i)) (\<lambda>k. case map_of (mb_items g) k of Some i \<Rightarrow> if ?P k i then None else Some i | None \<Rightarrow> None)
      = sum_list (map (\<lambda>x. length (si_bytes (snd x))) ?gone)"
    using msum_list [OF bm_filter_ok [OF ok, of "\<lambda>(s, i). s \<le> cp \<and> si_kind i = 1"], of "\<lambda>i. length (si_bytes i)"] unfolding gone .
  then have split: "item_bytes g = item_bytes g' + sum_list (map (\<lambda>x. length (si_bytes (snd x))) ?gone)"
    using msum_filter [OF finite_dom_map_of, of "\<lambda>i. length (si_bytes i)" "mb_items g" ?P] by (simp add: item_bytes_def kept)
  have "unat (mem_entry_bytes_through g cp) = sum_list (map (\<lambda>x. length (si_bytes (snd x))) ?gone)"
    using sum_list_u64 [of "\<lambda>x. length (si_bytes (snd x))" ?gone] split assms(4)
    by (simp add: mem_entry_bytes_through_def case_prod_unfold stored_bytes_def)
  moreover obtain b where b: "unat (cm_used_bytes (st_meta st)) = stored_bytes g" "cm_file_bytes (st_meta st) = Some b" "unat b = blob_bytes g"
    using assms(3,1) by (auto simp: accounted_def)
  ultimately have "unat (cm_used_bytes (compacted_meta g cp (st_meta st))) = stored_bytes g'"
    using split by (simp add: compacted_meta_def unat_sat_sub stored_bytes_def object_bytes_def frame(1))
  then show ?thesis using accountedI [OF frame(2), of b] b(2,3) by (simp add: compacted_meta_def blob_bytes_def frame(1))
qed

lemma fold_sat_sub:
  "list_all om_committed xs \<Longrightarrow> unat (fold (\<lambda>x b. if om_committed x then sat_sub b (om_size x) else b) xs u)
    = unat u - sum_list (map (\<lambda>x. unat (om_size x)) xs)"
  by (induction xs arbitrary: u) (simp_all add: unat_sat_sub)

lemma sum_blobs:
  assumes "list_all om_committed xs" "sum_list (map blob_size xs) < 2 ^ 64"
  shows "unat (sum_list (map om_size (filter (\<lambda>x. om_committed x \<and> om_kind x = item_kind_value BlobPart) xs))) = sum_list (map blob_size xs)"
proof -
  have "sum_list (map blob_size xs) = sum_list (map (\<lambda>x. unat (om_size x)) (filter (\<lambda>x. om_committed x \<and> om_kind x = item_kind_value BlobPart) xs))"
    using assms(1) by (induction xs) (auto simp: blob_size_def)
  then show ?thesis using assms(2) sum_list_u64 [of "\<lambda>x. unat (om_size x)"] by simp
qed

lemma distinct_map_take: "distinct (map f xs) \<Longrightarrow> distinct (map f (take n xs))"
  by (simp add: take_map [symmetric])

lemma gc_accounted:
  assumes "mb_state g = Some st" "dead = filter P (mem_gc_candidates g before limit)" "col_inv cr c g" "accounted g" "stored_bytes g < 2 ^ 64"
    and g': "g' = mem_commit (map (\<lambda>x. DeleteObject (om_address x)) dead @ [PutMeta (gc_meta g dead (st_meta st))]) g"
  shows "accounted g'"
proof -
  note I = col_invD [OF assms(3,1)]
  note eff = gc_effect [OF I(1) assms(1), of dead "gc_meta g dead (st_meta st)", folded g']
  have ok: "bm_ok (mb_objects g)" using I(1) by (simp add: mem_ok_def)
  have row: "map_of (mb_objects g) (om_address x) = Some x \<and> om_committed x" if "x \<in> set dead" for x
  proof -
    have "x \<in> snd ` set (mb_objects g)"
      using that unfolding assms(2) mem_gc_candidates_def by (auto dest!: in_set_takeD)
    then obtain k where "(k, x) \<in> set (mb_objects g)" by auto
    then have "map_of (mb_objects g) k = Some x" using ok by (simp add: bm_lookup_mem)
    moreover from this have "om_address x = k" using I(1) by (simp add: mem_ok_def)
    ultimately show ?thesis using I(6) by (auto simp: refs_ok_def)
  qed
  have keys: "map om_address (map snd (mb_objects g)) = map fst (mb_objects g)"
    using I(1) ok by (auto simp: mem_ok_def bm_lookup_mem)
  have "distinct (map om_address (map snd (mb_objects g)))" using bm_ok_distinct [OF ok] unfolding keys .
  then have dist: "distinct (map om_address dead)"
    unfolding assms(2) mem_gc_candidates_def by (intro distinct_map_filter distinct_map_take)
  have split: "msum f (map_of (mb_objects g)) = sum_list (map f dead) + msum f (map_of (mb_objects g'))" for f
    unfolding eff(1) using msum_del_list [OF finite_dom_map_of dist] row by blast
  have all: "list_all om_committed dead" using row by (simp add: list_all_iff)
  obtain b where b: "unat (cm_used_bytes (st_meta st)) = stored_bytes g" "cm_file_bytes (st_meta st) = Some b" "unat b = blob_bytes g"
    using assms(4,1) by (auto simp: accounted_def)
  have used: "unat (cm_used_bytes (gc_meta g dead (st_meta st))) = stored_bytes g'"
    using fold_sat_sub [OF all] b(1) split [of "\<lambda>x. unat (om_size x)"]
    by (simp add: gc_meta_def Let_def stored_bytes_def object_bytes_def item_bytes_def eff(3))
  have "blob_bytes g = sum_list (map blob_size dead) + blob_bytes g'" unfolding blob_bytes_def by (rule split)
  moreover have "unat (sum_list (map om_size (filter (\<lambda>x. om_committed x \<and> om_kind x = item_kind_value BlobPart) dead))) = sum_list (map blob_size dead)"
    using sum_blobs [OF all] calculation b(3) u64_bound [of b] by simp
  ultimately have "\<exists>b'. cm_file_bytes (gc_meta g dead (st_meta st)) = Some b' \<and> unat b' = blob_bytes g'"
    using b(2,3) by (auto simp: gc_meta_def Let_def file_bytes_def unat_sat_sub word_less_nat_alt)
  then show ?thesis using used eff(2) by (auto simp: accounted_def)
qed

lemma create_accounted:
  assumes "genesis_ok c b it" "apply_policy_payload cr (empty_state c now region) it 1 roots payload = Inr (st, rv)" "g = mem_empty"
    and g': "g' = mem_commit [CreateCollection (created_state (chain_hash (cr_sha256 cr) b) b st), InsertItem (genesis_row b now)] g"
  shows "accounted g'"
proof -
  have fields: "mb_state g' = Some (created_state (chain_hash (cr_sha256 cr) b) b st)" "map_of (mb_items g') = [1 \<mapsto> genesis_row b now]"
    "mb_objects g' = []"
    by (simp_all add: g' assms(3) mem_commit_def mem_write_def mem_empty_def genesis_row_def)
  have "cm_file_bytes (st_meta st) = Some 0"
    using frame.apply_policy_R [OF assms(2)] by (simp add: frame_rel_def empty_state_def meta_new_def Let_def)
  moreover have "unat (of_nat (length b) :: u64) = length b"
    using assms(1) by (intro unat_of_nat_u64) (simp add: genesis_ok_def MAX_BYTES_def)
  moreover have "stored_bytes g' = length b" "blob_bytes g' = 0"
    by (simp_all add: stored_bytes_def item_bytes_def object_bytes_def blob_bytes_def fields(2,3) msum_def genesis_row_def)
  ultimately show ?thesis using accountedI [OF fields(1), of 0] by (simp add: created_state_def)
qed

lemma txn_accounted:
  assumes "txn cr roots c g g'" "col_inv cr c g" "accounted g" "stored_bytes g < 2 ^ 64" "stored_bytes g' < 2 ^ 64"
  shows "accounted g'"
  using assms(1)
proof cases
  case (create b it now region payload st rv)
  then show ?thesis using create_accounted assms(2) by (simp add: col_inv_def)
next
  case (append p ps now items st ws revoked prev oc)
  then show ?thesis using append_accounted assms(2,3,5) by blast
next
  case (object st om m)
  then show ?thesis using object_accounted [OF object(2,4,5,6) assms(2,3)] by blast
next
  case (snapshot st row)
  have ok: "mem_ok (mem_write (InsertSnapshot row) g)" using assms(2) mem.write_invar by (auto simp: col_inv_def)
  note del = commit_delete_snapshots [OF ok, of "drop (RETAINED_SNAPSHOTS - 1) (mem_snapshots g)"]
  have "mb_state (mem_write (InsertSnapshot row) g) = mb_state g" "mb_items (mem_write (InsertSnapshot row) g) = mb_items g"
    "mb_objects (mem_write (InsertSnapshot row) g) = mb_objects g" by (simp_all add: mem_write_def)
  with del show ?thesis by (intro accounted_same [OF assms(3) snapshot(2)]) (simp_all add: snapshot(1,2) mem_commit_def)
next
  case (endorse q)
  show ?thesis
  proof (cases "mb_state g")
    case None
    then show ?thesis by (simp add: endorse accounted_def mem_commit_def mem_write_def split: option.splits)
  next
    case (Some st)
    then show ?thesis
      by (intro accounted_same [OF assms(3) Some]) (simp_all add: endorse mem_commit_def mem_write_def split: option.splits)
  qed
next
  case (compact st now)
  then show ?thesis using compact_accounted [OF compact(2) assms(2,3,4)] by blast
next
  case (gc st dead P before limit)
  then show ?thesis using gc_accounted [OF gc(2,4) assms(2,3,4)] by blast
next
  case (quota st q)
  show ?thesis
    by (rule accounted_same [OF assms(3) quota(2), where st' = "st\<lparr>st_meta := st_meta st\<lparr>cm_quotas := q\<rparr>\<rparr>"])
      (simp_all add: quota mem_commit_def mem_write_def)
next
  case (delete st r nt)
  show ?thesis
    by (rule accounted_same [OF assms(3) delete(2), where st' = "st\<lparr>st_meta := st_meta st\<lparr>cm_status := Gone, cm_deletion := Some r\<rparr>\<rparr>"])
      (simp_all add: delete(1,2) mem_commit_def mem_write_def)
qed

text \<open>C18. The accounting is exact: in every collection reached by any sequence of transactions
  during which it never held \<open>2^64\<close> bytes, \<open>used_bytes\<close> is the size of the stored items plus the
  size of the committed objects, and \<open>file_bytes\<close> the size of its blob parts.\<close>

theorem used_bytes_exact:
  assumes "(\<lambda>g g'. txn cr roots c g g' \<and> stored_bytes g' < 2 ^ 64)\<^sup>*\<^sup>* mem_empty g" "mb_state g = Some st"
  shows "unat (cm_used_bytes (st_meta st)) = stored_bytes g \<and> (\<exists>b. cm_file_bytes (st_meta st) = Some b \<and> unat b = blob_bytes g)"
proof -
  have "accounted g \<and> col_inv cr c g \<and> stored_bytes g < 2 ^ 64" using assms(1)
  proof (induction rule: rtranclp_induct)
    case base
    then show ?case using col_inv_empty
      by (simp add: accounted_def) (simp add: mem_empty_def stored_bytes_def item_bytes_def object_bytes_def)
  next
    case (step y z)
    then show ?case using txn_accounted txn_inv by blast
  qed
  then show ?thesis using assms(2) by (simp add: accounted_def)
qed

lemma sample_accounting: "(\<lambda>g g'. txn accept_all [3] 1 g g' \<and> stored_bytes g' < 2 ^ 64)\<^sup>*\<^sup>* mem_empty stored_col"
proof -
  have gok: "genesis_ok 1 genesis_bytes genesis_item"
    using wire_item.bytes_round_trip [OF _ genesis_rep(1)] genesis_bytes_eq
    by (simp add: genesis_ok_def item_to_bytes_def item_from_bytes_def MAX_BYTES_def)
      (simp add: genesis_item_def check_shape_def CHAIN_ZERO_def)
  have "txn accept_all [3] 1 mem_empty created_col"
    using txn.create [OF _ gok genesis_applies, of mem_empty] by (simp add: created_col_def accept_all_chain mem_empty_def)
  moreover have "stored_bytes created_col < 2 ^ 64"
    using genesis_bytes_eq(2)
    by (simp add: stored_bytes_def item_bytes_def object_bytes_def created_col_fields msum_def genesis_row_def)
  moreover have "txn accept_all [3] 1 created_col stored_col"
    using txn.object [OF created_col_fields(1), where om = chunk_meta and cr = accept_all and roots = "[3]" and c = 1 and m = "created_meta\<lparr>cm_used_bytes := used + of_nat (length chunk_bytes)\<rparr>"] chunk_charge
    by (simp add: stored_col_def created_meta_fields(1) committed_at_def created_col_fields) (simp add: chunk_meta_def)
  moreover have "stored_bytes stored_col < 2 ^ 64"
    using genesis_bytes_eq(2) created_meta_fields(13)
    by (simp add: stored_bytes_def item_bytes_def object_bytes_def stored_col_fields msum_def genesis_row_def chunk_meta_def)
  ultimately show ?thesis
    by - (rule rtranclp.rtrancl_into_rtrancl [where b = created_col], rule r_into_rtranclp, simp_all only: simp_thms)
qed

theorem used_bytes_exact_witness:
  "unat (cm_used_bytes (st_meta stored_state)) = stored_bytes stored_col
    \<and> (\<exists>b. cm_file_bytes (st_meta stored_state) = Some b \<and> unat b = blob_bytes stored_col)"
  by (rule used_bytes_exact [OF sample_accounting]) (rule stored_col_fields(1))

end
