(* ===== verification/LogLimits.thy ===== *)
theory LogLimits
  imports AppendSafety
begin

text \<open>
  The token bucket of \<open>rate_check\<close> (\<open>log-service/src/service.rs\<close>): over any sequence of
  requests against one bucket, accepted or refused, the items that get through are bounded by the
  burst plus the rate times the elapsed time.
\<close>

subsection \<open>One request\<close>

lemma clamp_dt_le:
  assumes "sint a \<le> sint b"
  shows "int (unat (clamp_dt (b - a))) \<le> sint b - sint a"
proof -
  define x y where "x = unat a" and "y = unat b"
  have b: "x < 2 ^ 64" "y < 2 ^ 64" unfolding x_def y_def by (rule u64_bound)+
  have d: "unat (b - a) = (if x \<le> y then y - x else y + 2 ^ 64 - x)"
    unfolding x_def y_def using unat_sub_if_size [of b a] by (simp add: word_size)
  have s: "sint a = (if x < 2 ^ 63 then int x else int x - 2 ^ 64)" "sint b = (if y < 2 ^ 63 then int y else int y - 2 ^ 64)"
    unfolding x_def y_def by (rule sint64)+
  have sd: "sint (b - a) = (if unat (b - a) < 2 ^ 63 then int (unat (b - a)) else int (unat (b - a)) - 2 ^ 64)" by (rule sint64)
  have c: "int (unat (clamp_dt (b - a))) = (if sint (b - a) < 0 then 0 else if 3600000 < sint (b - a) then 3600000 else int (unat (b - a)))"
    by (simp add: clamp_dt_def word_sless_alt del: of_nat_unat)
  show ?thesis using assms b unfolding c sd s d by (auto split: if_splits)
qed

subsection \<open>A run of requests\<close>

text \<open>The items of a bucket, full when the bucket does not exist yet.\<close>

definition bucket_level :: "b16 \<Rightarrow> Quotas \<Rightarrow> (b16, Bucket) bmap \<Rightarrow> nat" where
  "bucket_level c q b = (case map_of b c of Some e \<Rightarrow> unat (bk_items_milli e) | None \<Rightarrow> 1000 * unat (qu_burst_items q))"

definition bucket_before :: "b16 \<Rightarrow> i64 \<Rightarrow> (b16, Bucket) bmap \<Rightarrow> bool" where
  "bucket_before c now b \<longleftrightarrow> (case map_of b c of Some e \<Rightarrow> sint (bk_at e) \<le> sint now | None \<Rightarrow> True)"

text \<open>The level cannot rise faster than the rate, and an accepted request pays for its items.\<close>

lemma rate_check_step:
  assumes "rate_check c q n bs now b = (b', r)" "bm_ok b" "bucket_before c now b" "unat n < 2 ^ 54"
  shows "bm_ok b'" "\<exists>e. map_of b' c = Some e \<and> bk_at e = now"
    "int (1000 * (if isl r then 0 else unat n)) + int (bucket_level c q b')
      \<le> int (bucket_level c q b) + (case map_of b c of Some e \<Rightarrow> (sint now - sint (bk_at e)) * int (unat (qu_items_per_s q)) | None \<Rightarrow> 0)"
proof -
  define e0 where "e0 = (case map_of b c of
                Some e \<Rightarrow> e
              | None \<Rightarrow> \<lparr>bk_items_milli = sat_mul (qu_burst_items q) 1000, bk_bytes = sat_mul (qu_bytes_per_s q) 4, bk_at = now\<rparr>)"
  define e where "e = refill q now e0"
  define dt where "dt = clamp_dt (now - bk_at e0)"
  have at: "sint (bk_at e0) \<le> sint now" using assms(3) by (auto simp: e0_def bucket_before_def split: option.splits)
  have dt: "int (unat dt) \<le> sint now - sint (bk_at e0)" unfolding dt_def by (rule clamp_dt_le [OF at])
  have "unat (bk_items_milli e) \<le> unat (bk_items_milli e0) + unat dt * unat (qu_items_per_s q)"
  proof -
    have "bk_items_milli e \<le> sat_add (bk_items_milli e0) (sat_mul dt (qu_items_per_s q))" by (simp add: e_def refill_def Let_def dt_def)
    then show ?thesis by (auto simp: word_le_nat_alt unat_sat_add unat_sat_mul min_def split: if_splits)
  qed
  moreover have "int (unat dt * unat (qu_items_per_s q)) \<le> (sint now - sint (bk_at e0)) * int (unat (qu_items_per_s q))"
    using mult_right_mono [OF dt, of "int (unat (qu_items_per_s q))"] by simp
  ultimately have lvl: "int (unat (bk_items_milli e)) \<le> int (unat (bk_items_milli e0)) + (sint now - sint (bk_at e0)) * int (unat (qu_items_per_s q))"
    by linarith
  have start: "int (unat (bk_items_milli e0)) + (sint now - sint (bk_at e0)) * int (unat (qu_items_per_s q))
      \<le> int (bucket_level c q b) + (case map_of b c of Some e \<Rightarrow> (sint now - sint (bk_at e)) * int (unat (qu_items_per_s q)) | None \<Rightarrow> 0)"
  proof -
    have "unat (bk_items_milli e0) \<le> bucket_level c q b"
      by (simp add: e0_def bucket_level_def unat_sat_mul min_def split: option.splits)
    then have "int (unat (bk_items_milli e0)) \<le> int (bucket_level c q b)" by (simp only: of_nat_le_iff)
    then show ?thesis by (simp add: e0_def split: option.splits)
  qed
  have need: "unat (n * 1000) = unat n * 1000" using assms(4) by (simp add: unat_word_ariths)
  have run: "rate_check c q n bs now b = (if bk_items_milli e < n * 1000 \<or> bk_bytes e < bs then (bm_insert c e b, r)
      else (bm_insert c (e\<lparr>bk_items_milli := bk_items_milli e - n * 1000, bk_bytes := bk_bytes e - bs\<rparr>) b, Inr ()))"
    "bk_items_milli e < n * 1000 \<or> bk_bytes e < bs \<longleftrightarrow> isl r"
    using assms(1) unfolding rate_check_def e0_def [symmetric] Let_def e_def [symmetric] by (auto split: if_splits)
  have "map_of b' c = Some (if isl r then e else e\<lparr>bk_items_milli := bk_items_milli e - n * 1000, bk_bytes := bk_bytes e - bs\<rparr>)"
      "bm_ok b'" "\<not> isl r \<Longrightarrow> n * 1000 \<le> bk_items_milli e"
    using run assms(1,2) by (auto split: if_splits)
  moreover have "bk_at e = now" by (simp add: e_def refill_def Let_def)
  moreover have "unat (bk_items_milli e - n * 1000) = unat (bk_items_milli e) - unat n * 1000" if "n * 1000 \<le> bk_items_milli e"
    using that need by (simp add: unat_sub)
  moreover have "unat n * 1000 \<le> unat (bk_items_milli e)" if "n * 1000 \<le> bk_items_milli e" using that need by (simp add: word_le_nat_alt)
  ultimately have res: "bm_ok b'" "\<exists>e. map_of b' c = Some e \<and> bk_at e = now"
    "1000 * (if isl r then 0 else unat n) + bucket_level c q b' \<le> unat (bk_items_milli e)"
    by (auto simp: bucket_level_def)
  then show "bm_ok b'" "\<exists>e. map_of b' c = Some e \<and> bk_at e = now" by blast+
  have "int (1000 * (if isl r then 0 else unat n)) + int (bucket_level c q b') \<le> int (unat (bk_items_milli e))"
    using res(3) by (simp only: of_nat_add [symmetric] of_nat_le_iff)
  then show "int (1000 * (if isl r then 0 else unat n)) + int (bucket_level c q b')
      \<le> int (bucket_level c q b) + (case map_of b c of Some e \<Rightarrow> (sint now - sint (bk_at e)) * int (unat (qu_items_per_s q)) | None \<Rightarrow> 0)"
    using lvl start by linarith
qed

text \<open>The items that get through a sequence of requests \<open>(items, bytes, time)\<close>.\<close>

fun accepted_items :: "b16 \<Rightarrow> Quotas \<Rightarrow> (u64 \<times> u64 \<times> i64) list \<Rightarrow> (b16, Bucket) bmap \<Rightarrow> nat" where
  "accepted_items c q [] b = 0"
| "accepted_items c q ((n, bs, now) # rs) b =
    (case rate_check c q n bs now b of
       (b', Inr _) \<Rightarrow> unat n + accepted_items c q rs b'
     | (b', Inl _) \<Rightarrow> accepted_items c q rs b')"

lemma accepted_items_level:
  assumes "bm_ok b" "map_of b c = Some e" "sorted (map (\<lambda>(_, _, t). sint t) rs)" "\<forall>(n, _, t)\<in>set rs. unat n < 2 ^ 54 \<and> sint (bk_at e) \<le> sint t"
  shows "int (1000 * accepted_items c q rs b) \<le> int (bucket_level c q b)
    + (if rs = [] then 0 else sint (snd (snd (last rs))) - sint (bk_at e)) * int (unat (qu_items_per_s q))"
  using assms
proof (induction rs arbitrary: b e)
  case (Cons r rs)
  obtain n bs now where r: "r = (n, bs, now)" by (cases r) auto
  obtain b' res where run: "rate_check c q n bs now b = (b', res)" by force
  have before: "bucket_before c now b" using Cons.prems(2,4) r by (simp add: bucket_before_def)
  note step = rate_check_step [OF run Cons.prems(1) before]
  have n: "unat n < 2 ^ 54" using Cons.prems(4) r by simp
  obtain e' where e': "map_of b' c = Some e'" "bk_at e' = now" using step(2) [OF n] by blast
  have later: "\<forall>(n, _, t)\<in>set rs. unat n < 2 ^ 54 \<and> sint (bk_at e') \<le> sint t" using Cons.prems(3,4) r e'(2) by fastforce
  have IH: "int (1000 * accepted_items c q rs b') \<le> int (bucket_level c q b')
    + (if rs = [] then 0 else sint (snd (snd (last rs))) - sint now) * int (unat (qu_items_per_s q))"
    using Cons.IH [OF step(1) [OF n] e'(1) _ later, unfolded e'(2)] Cons.prems(3) r by simp
  have acc: "int (1000 * accepted_items c q (r # rs) b) = int (1000 * (if isl res then 0 else unat n)) + int (1000 * accepted_items c q rs b')"
    using run r by (cases res) auto
  have "(if rs = [] then 0 else sint (snd (snd (last rs))) - sint now) * int (unat (qu_items_per_s q))
      + (sint now - sint (bk_at e)) * int (unat (qu_items_per_s q))
    = (sint (snd (snd (last (r # rs)))) - sint (bk_at e)) * int (unat (qu_items_per_s q))"
    by (simp add: r distrib_right [symmetric])
  then show ?case using acc IH step(3) [OF n] Cons.prems(2) by simp
qed simp

text \<open>C19. The rate limit holds: whatever requests are made against a bucket over time, the items
  that get through are at most the burst plus the items per second times the time between the first
  and the last request (in milliseconds, hence the factor 1000), for a clock that does not go back
  and requests of less than \<open>2^54\<close> items.\<close>

theorem rate_limit_bound:
  assumes "bm_ok b" "map_of b c = None" "rs \<noteq> []" "sorted (map (\<lambda>(_, _, t). sint t) rs)" "\<forall>(n, _, _)\<in>set rs. unat n < 2 ^ 54"
  shows "int (1000 * accepted_items c q rs b) \<le> int (1000 * unat (qu_burst_items q))
    + (sint (snd (snd (last rs))) - sint (snd (snd (hd rs)))) * int (unat (qu_items_per_s q))"
proof (cases rs)
  case (Cons r rest)
  obtain n bs now where r: "r = (n, bs, now)" by (cases r) auto
  obtain b' res where run: "rate_check c q n bs now b = (b', res)" by force
  have before: "bucket_before c now b" using assms(2) by (simp add: bucket_before_def)
  have n: "unat n < 2 ^ 54" using assms(5) Cons r by simp
  note step = rate_check_step [OF run assms(1) before n]
  obtain e' where e': "map_of b' c = Some e'" "bk_at e' = now" using step(2) by blast
  have "\<forall>(n, _, t)\<in>set rest. unat n < 2 ^ 54 \<and> sint (bk_at e') \<le> sint t" using assms(4,5) Cons r e'(2) by fastforce
  then have "int (1000 * accepted_items c q rest b') \<le> int (bucket_level c q b')
    + (if rest = [] then 0 else sint (snd (snd (last rest))) - sint now) * int (unat (qu_items_per_s q))"
    using accepted_items_level [OF step(1) e'(1) _, unfolded e'(2)] assms(4) Cons e'(2) by simp
  moreover have "int (1000 * accepted_items c q rs b) = int (1000 * (if isl res then 0 else unat n)) + int (1000 * accepted_items c q rest b')"
    using run r Cons by (cases res) auto
  ultimately show ?thesis using step(3) assms(2) Cons r by (auto simp: bucket_level_def)
qed (use assms(3) in simp)

theorem rate_limit_bound_witness:
  "int (1000 * accepted_items 1 quotas_default [(9, 0, 10), (500, 0, 1010), (50, 0, 2010)] [])
    \<le> int (1000 * unat (qu_burst_items quotas_default)) + (sint (2010 :: i64) - sint (10 :: i64)) * int (unat (qu_items_per_s quotas_default))"
  using rate_limit_bound [of "[]" 1 "[(9, 0, 10), (500, 0, 1010), (50, 0, 2010)]" quotas_default] by simp

end
