(* ===== verification/LogAuth.thy ===== *)
theory LogAuth
  imports LogDirect
begin

text \<open>
  Authentication of the log service (\<open>log-service/src/auth.rs\<close>): tokens, the proof of possession of
  a \<open>hello\<close> and of a plain HTTPS request, stateless nonces and the cache that makes them single-use.

  SHA-256 and strict Ed25519 verification are the parameter \<open>cr\<close>, HMAC-SHA256 the parameter \<open>hmac\<close>.
  A decode budget is passed and returned; the nonce cache behind its mutex is passed and returned.
\<close>

definition unauth :: "string \<Rightarrow> ServiceError" where
  "unauth why = err_reason CodeUnauthenticated why"

definition AUDIENCE :: string where "AUDIENCE = ''mdbase-log''"

subsection \<open>Claims\<close>

record Claims =
  cl_control_plane :: bool
  cl_device :: "b16 option"
  cl_sign_pk :: b32
  cl_expires_at :: i64
  cl_collection :: "b16 option"

definition claims_map :: "Claims \<Rightarrow> Cbor" where
  "claims_map c = CMap (
     [(Uint 0, Uint (if cl_control_plane c then 1 else 0))]
     @ (case cl_device c of Some d \<Rightarrow> [(Uint 1, CBytes (be_bytes 16 d))] | None \<Rightarrow> [])
     @ [(Uint 2, CBytes (be_bytes 32 (cl_sign_pk c))), (Uint 3, cbor_int (cl_expires_at c)), (Uint 4, CText (ascii AUDIENCE))]
     @ (case cl_collection c of Some x \<Rightarrow> [(Uint 5, CBytes (be_bytes 16 x))] | None \<Rightarrow> []))"

definition claims_encode :: "Claims \<Rightarrow> CborError + bytes" where
  "claims_encode c = encode (claims_map c)"

text \<open>An optional 16-byte field: \<open>Some None\<close> when it is absent, \<open>None\<close> when it is malformed.\<close>

fun id_field :: "Cbor option \<Rightarrow> b16 option option" where
  "id_field (Some (CBytes x)) = (if length x = 16 then Some (Some (of_be x)) else None)"
| "id_field None = Some None"
| "id_field _ = None"

definition claims_decode :: "Cbor \<Rightarrow> Claims option" where
  "claims_decode v =
    (case v of
       CMap m \<Rightarrow>
         (let get = (\<lambda>k. map_option snd (find (\<lambda>(kk, _). kk = Uint k) m)) in
          Option.bind (get 0) (\<lambda>r. case r of
            Uint role \<Rightarrow>
              Option.bind (id_field (get 1)) (\<lambda>device.
              Option.bind (get 2) (\<lambda>pk. case pk of
                CBytes x \<Rightarrow>
                  if length x \<noteq> 32 then None
                  else
                    Option.bind (get 3) (\<lambda>e. Option.bind (as_i64 e) (\<lambda>expires.
                    Option.bind (get 4) (\<lambda>aud.
                    if aud \<noteq> CText (ascii AUDIENCE) then None
                    else
                      Option.bind (id_field (get 5)) (\<lambda>collection.
                      Some \<lparr>cl_control_plane = (role = 1), cl_device = device, cl_sign_pk = of_be x,
                        cl_expires_at = expires, cl_collection = collection\<rparr>))))
              | _ \<Rightarrow> None))
          | _ \<Rightarrow> None))
     | _ \<Rightarrow> None)"

subsection \<open>Digests\<close>

definition token_digest :: "(bytes \<Rightarrow> b32) \<Rightarrow> bytes \<Rightarrow> b32" where
  "token_digest sha256 claims = h sha256 ''mdbase/v1/ls-token'' claims"

definition hello_digest :: "(bytes \<Rightarrow> b32) \<Rightarrow> b32 \<Rightarrow> string \<Rightarrow> b32" where
  "hello_digest sha256 server_nonce token = h sha256 ''mdbase/v1/ls-hello'' (be_bytes 32 server_nonce @ ascii token)"

definition http_message :: "(bytes \<Rightarrow> b32) \<Rightarrow> bytes \<Rightarrow> string \<Rightarrow> b16 \<Rightarrow> string \<Rightarrow> string \<Rightarrow> bytes \<Rightarrow> bytes" where
  "http_message sha256 nonce path collection token method body =
    ascii method @ [0] @ ascii path @ [0] @ be_bytes 16 collection
      @ be_bytes 32 (sha256 (ascii token)) @ be_bytes 32 (sha256 body) @ nonce"

definition http_digest :: "(bytes \<Rightarrow> b32) \<Rightarrow> bytes \<Rightarrow> string \<Rightarrow> b16 \<Rightarrow> string \<Rightarrow> string \<Rightarrow> bytes \<Rightarrow> b32" where
  "http_digest sha256 nonce path collection token method body =
    h sha256 ''mdbase/v1/ls-http'' (http_message sha256 nonce path collection token method body)"

text \<open>The collection a request names: params key 0, or zero.\<close>

definition collection_from_params :: "Cbor \<Rightarrow> b16" where
  "collection_from_params params =
    (case params of
       CMap m \<Rightarrow>
         (case find (\<lambda>(k, _). k = Uint 0) m of
            Some (_, CBytes b) \<Rightarrow> if length b = 16 then of_be b else 0
          | _ \<Rightarrow> 0)
     | _ \<Rightarrow> 0)"

definition request_collection :: "bytes \<Rightarrow> b16" where
  "request_collection body =
    (case snd (budget_wire ls_frame_from_cbor body budget_default) of
       Inr (FrRequest r) \<Rightarrow> collection_from_params (lq_params r)
     | _ \<Rightarrow> 0)"

subsection \<open>Nonces\<close>

type_synonym nonce_cache = "(bytes, i64) bmap"

definition HTTP_NONCE_TTL_MS :: i64 where "HTTP_NONCE_TTL_MS = 60000"

text \<open>\<open>NonceCache::first_use\<close>: expired nonces are forgotten first.\<close>

definition first_use :: "nonce_cache \<Rightarrow> bytes \<Rightarrow> i64 \<Rightarrow> bool \<times> nonce_cache" where
  "first_use seen nonce now =
    (let s = filter (\<lambda>(_, exp). now <s exp) seen in
     (map_of s nonce = None, bm_insert nonce (now + HTTP_NONCE_TTL_MS) s))"

definition http_nonce :: "(bytes \<Rightarrow> bytes \<Rightarrow> bytes) \<Rightarrow> bytes \<Rightarrow> i64 \<Rightarrow> bytes \<Rightarrow> bytes" where
  "http_nonce hmac secret now random =
    (let n = be_bytes 8 now @ random in n @ take 16 (hmac secret n))"

definition http_nonce_fresh :: "(bytes \<Rightarrow> bytes \<Rightarrow> bytes) \<Rightarrow> bytes \<Rightarrow> bytes \<Rightarrow> i64 \<Rightarrow> bool" where
  "http_nonce_fresh hmac secret nonce now =
    (let ts = of_be (take 8 nonce) :: i64 in
     ct_eq (take 16 (hmac secret (take 16 nonce))) (drop 16 nonce)
       \<and> now - ts \<le>s HTTP_NONCE_TTL_MS \<and> ts \<le>s now + 5000)"

subsection \<open>Tokens\<close>

record VerifiedToken =
  vt_claims :: Claims
  vt_issuer :: b32
  vt_token_hash :: b32

definition verify_issuer_token_with_budget ::
  "crypto \<Rightarrow> string \<Rightarrow> b32 list \<Rightarrow> i64 \<Rightarrow> Usage \<Rightarrow> Usage \<times> (ServiceError + VerifiedToken)" where
  "verify_issuer_token_with_budget cr token issuers now u =
    (if 16 * 1024 < length token then (u, Err (unauth ''token''))
     else case split_once CHR ''.'' token of
       None \<Rightarrow> (u, Err (unauth ''token''))
     | Some (c, s) \<Rightarrow>
         if length s \<noteq> 128 then (u, Err (unauth ''token''))
         else case unhex c of
           None \<Rightarrow> (u, Err (unauth ''token''))
         | Some claims \<Rightarrow>
             (case unhex_fixed 64 s :: b64 option of
                None \<Rightarrow> (u, Err (unauth ''token''))
              | Some sig \<Rightarrow>
                  (case find (\<lambda>pk. cr_verify cr pk (token_digest (cr_sha256 cr) claims) sig) issuers of
                     None \<Rightarrow> (u, Err (unauth ''token_signature''))
                   | Some issuer \<Rightarrow>
                       (case budget_raw claims u of
                          (u, Inl e) \<Rightarrow> (u, Err e)
                        | (u, Inr value) \<Rightarrow>
                            (case claims_decode value of
                               None \<Rightarrow> (u, Err (unauth ''token''))
                             | Some cl \<Rightarrow>
                                 if cl_expires_at cl \<le>s now then (u, Err (unauth ''expired''))
                                 else if cl_control_plane cl = (cl_device cl \<noteq> None) then (u, Err (unauth ''token''))
                                 else (u, Ok \<lparr>vt_claims = cl, vt_issuer = issuer, vt_token_hash = cr_sha256 cr (ascii token)\<rparr>))))))"

definition verify_token_with_budget ::
  "crypto \<Rightarrow> string \<Rightarrow> b32 list \<Rightarrow> i64 \<Rightarrow> Usage \<Rightarrow> Usage \<times> (ServiceError + Claims)" where
  "verify_token_with_budget cr token issuers now u =
    apsnd (\<lambda>r. rbind r (\<lambda>t. Ok (vt_claims t))) (verify_issuer_token_with_budget cr token issuers now u)"

definition verify_token :: "crypto \<Rightarrow> string \<Rightarrow> b32 list \<Rightarrow> i64 \<Rightarrow> ServiceError + Claims" where
  "verify_token cr token issuers now = snd (verify_token_with_budget cr token issuers now budget_default)"

subsection \<open>Callers\<close>

record VerifiedCaller =
  vc_principal :: Principal
  vc_transport_key :: b32
  vc_issuer_key :: b32
  vc_expires_at :: i64
  vc_token_collection :: "b16 option"

definition verified_caller :: "Principal \<Rightarrow> Claims \<Rightarrow> b32 \<Rightarrow> VerifiedCaller" where
  "verified_caller p claims issuer =
    \<lparr>vc_principal = p, vc_transport_key = cl_sign_pk claims, vc_issuer_key = issuer,
     vc_expires_at = cl_expires_at claims, vc_token_collection = cl_collection claims\<rparr>"

definition principal_of :: "Claims \<Rightarrow> Principal" where
  "principal_of claims =
    (case cl_device claims of
       Some d \<Rightarrow> Device d (cl_sign_pk claims) (cl_collection claims)
     | None \<Rightarrow> ControlPlane)"

definition text_of :: "bytes \<Rightarrow> string" where
  "text_of = map (\<lambda>b. char_of (unat b))"

definition verify_hello_caller_with_budget ::
  "crypto \<Rightarrow> LsHelloParams \<Rightarrow> b32 \<Rightarrow> b32 list \<Rightarrow> i64 \<Rightarrow> Usage \<Rightarrow> Usage \<times> (ServiceError + VerifiedCaller)" where
  "verify_hello_caller_with_budget cr p server_nonce issuers now u =
    (if major (hp_version p) \<noteq> 1 then (u, Err (err_new CodeUpgradeRequired))
     else
       apsnd (\<lambda>r. rbind r (\<lambda>verified.
         let claims = vt_claims verified in
         if cl_device claims \<noteq> hp_device p then Err (unauth ''device'')
         else if \<not> cr_verify cr (cl_sign_pk claims) (hello_digest (cr_sha256 cr) server_nonce (text_of (hp_token p))) (hp_sig p) then
           Err (unauth ''possession'')
         else Ok (verified_caller (principal_of claims) claims (vt_issuer verified))))
       (verify_issuer_token_with_budget cr (text_of (hp_token p)) issuers now u))"

definition verify_hello ::
  "crypto \<Rightarrow> LsHelloParams \<Rightarrow> b32 \<Rightarrow> b32 list \<Rightarrow> i64 \<Rightarrow> ServiceError + Principal" where
  "verify_hello cr p server_nonce issuers now =
    rbind (snd (verify_hello_caller_with_budget cr p server_nonce issuers now budget_default)) (\<lambda>c. Ok (vc_principal c))"

subsection \<open>HTTPS requests\<close>

text \<open>What a request presents.\<close>

record http_request =
  ht_token :: string
  ht_nonce_hex :: string
  ht_sig_hex :: string
  ht_path :: string
  ht_method :: string
  ht_body :: bytes

definition verify_http_claims ::
  "crypto \<Rightarrow> (bytes \<Rightarrow> bytes \<Rightarrow> bytes) \<Rightarrow> http_request \<Rightarrow> b16 \<Rightarrow> Claims \<Rightarrow> bytes \<Rightarrow> i64 \<Rightarrow> nonce_cache
    \<Rightarrow> (ServiceError + Principal) \<times> nonce_cache" where
  "verify_http_claims cr hmac q collection claims secret now seen =
    (if cl_expires_at claims \<le>s now then (Err (unauth ''expired''), seen)
     else case unhex (ht_nonce_hex q) of
       None \<Rightarrow> (Err (unauth ''nonce''), seen)
     | Some nonce \<Rightarrow>
         if length nonce \<noteq> 32 \<or> \<not> http_nonce_fresh hmac secret nonce now then (Err (unauth ''nonce''), seen)
         else case unhex_fixed 64 (ht_sig_hex q) :: b64 option of
           None \<Rightarrow> (Err (unauth ''possession''), seen)
         | Some sig \<Rightarrow>
             if \<not> cr_verify cr (cl_sign_pk claims)
                 (http_digest (cr_sha256 cr) nonce (ht_path q) collection (ht_token q) (ht_method q) (ht_body q)) sig then
               (Err (unauth ''possession''), seen)
             else
               let (fresh, seen) = first_use seen nonce now in
               if \<not> fresh then (Err (unauth ''replay''), seen) else (Ok (principal_of claims), seen))"

definition verify_http_verified_token ::
  "crypto \<Rightarrow> (bytes \<Rightarrow> bytes \<Rightarrow> bytes) \<Rightarrow> http_request \<Rightarrow> b16 \<Rightarrow> VerifiedToken \<Rightarrow> bytes \<Rightarrow> i64 \<Rightarrow> nonce_cache
    \<Rightarrow> (ServiceError + VerifiedCaller) \<times> nonce_cache" where
  "verify_http_verified_token cr hmac q collection verified secret now seen =
    (if 16 * 1024 < length (ht_token q)
        \<or> \<not> ct_eq (be_bytes 32 (cr_sha256 cr (ascii (ht_token q)))) (be_bytes 32 (vt_token_hash verified)) then
       (Err (unauth ''token''), seen)
     else
       (case verify_http_claims cr hmac q collection (vt_claims verified) secret now seen of
          (Inl e, seen) \<Rightarrow> (Err e, seen)
        | (Inr who, seen) \<Rightarrow> (Ok (verified_caller who (vt_claims verified) (vt_issuer verified)), seen)))"

definition verify_http_caller_with_budget ::
  "crypto \<Rightarrow> (bytes \<Rightarrow> bytes \<Rightarrow> bytes) \<Rightarrow> http_request \<Rightarrow> b16 \<Rightarrow> b32 list \<Rightarrow> bytes \<Rightarrow> i64 \<Rightarrow> nonce_cache \<Rightarrow> Usage
    \<Rightarrow> Usage \<times> (ServiceError + VerifiedCaller) \<times> nonce_cache" where
  "verify_http_caller_with_budget cr hmac q collection issuers secret now seen u =
    (case verify_issuer_token_with_budget cr (ht_token q) issuers now u of
       (u, Inl e) \<Rightarrow> (u, Err e, seen)
     | (u, Inr verified) \<Rightarrow> (u, verify_http_verified_token cr hmac q collection verified secret now seen))"

text \<open>\<open>verify_http\<close>: a fresh budget for the token and the body; a body that is no request names no
  collection, but a refused budget is an error.\<close>

definition verify_http ::
  "crypto \<Rightarrow> (bytes \<Rightarrow> bytes \<Rightarrow> bytes) \<Rightarrow> http_request \<Rightarrow> b32 list \<Rightarrow> bytes \<Rightarrow> i64 \<Rightarrow> nonce_cache
    \<Rightarrow> (ServiceError + Principal) \<times> nonce_cache" where
  "verify_http cr hmac q issuers secret now seen =
    (case verify_token_with_budget cr (ht_token q) issuers now budget_default of
       (u, Inl e) \<Rightarrow> (Err e, seen)
     | (u, Inr claims) \<Rightarrow>
         (case snd (budget_wire ls_frame_from_cbor (ht_body q) u) of
            Inr (FrRequest r) \<Rightarrow> verify_http_claims cr hmac q (collection_from_params (lq_params r)) claims secret now seen
          | Inl e \<Rightarrow>
              if is_resource_refusal e then (Err e, seen)
              else verify_http_claims cr hmac q 0 claims secret now seen
          | _ \<Rightarrow> verify_http_claims cr hmac q 0 claims secret now seen))"

subsection \<open>What a verified token proves\<close>

text \<open>The token is a text of claims signed by one of the issuers, unexpired, with a role that fits.\<close>

definition issued :: "crypto \<Rightarrow> string \<Rightarrow> b32 list \<Rightarrow> i64 \<Rightarrow> Claims \<Rightarrow> b32 \<Rightarrow> bool" where
  "issued cr token issuers now cl issuer \<longleftrightarrow>
    (\<exists>c s claims sig v. token = c @ CHR ''.'' # s \<and> unhex c = Some claims \<and> unhex_fixed 64 s = Some sig
      \<and> issuer \<in> set issuers \<and> cr_verify cr issuer (token_digest (cr_sha256 cr) claims) sig
      \<and> encode v = Inr claims \<and> claims_decode v = Some cl)
    \<and> now <s cl_expires_at cl \<and> (cl_control_plane cl \<longleftrightarrow> cl_device cl = None)"

lemma split_once_parts: "split_once d t = Some (a, b) \<Longrightarrow> t = a @ d # b"
  by (induction t arbitrary: a) (auto split: if_splits)

lemma budget_raw_encode: "budget_raw bs u = (u', Inr v) \<Longrightarrow> encode v = Inr bs"
  by (auto simp: budget_raw_def res_simps decode_iff split: prod.splits sum.splits)

lemma verify_issuer_token_issued:
  assumes "verify_issuer_token_with_budget cr token issuers now u = (u', Inr t)"
  shows "issued cr token issuers now (vt_claims t) (vt_issuer t) \<and> vt_token_hash t = cr_sha256 cr (ascii token) \<and> length token \<le> 16 * 1024"
proof -
  obtain c s claims sig issuer u1 v cl where
    steps: "length token \<le> 16 * 1024" "split_once CHR ''.'' token = Some (c, s)" "unhex c = Some claims" "unhex_fixed 64 s = Some sig"
    "find (\<lambda>pk. cr_verify cr pk (token_digest (cr_sha256 cr) claims) sig) issuers = Some issuer"
    "budget_raw claims u = (u1, Inr v)" "claims_decode v = Some cl" "\<not> cl_expires_at cl \<le>s now" "cl_control_plane cl \<noteq> (cl_device cl \<noteq> None)"
    "t = \<lparr>vt_claims = cl, vt_issuer = issuer, vt_token_hash = cr_sha256 cr (ascii token)\<rparr>"
    using assms unfolding verify_issuer_token_with_budget_def
    by (auto split: if_splits option.splits prod.splits sum.splits)
  have "issuer \<in> set issuers" "cr_verify cr issuer (token_digest (cr_sha256 cr) claims) sig"
    using steps(5) by (auto simp: find_Some_iff)
  moreover have "now <s cl_expires_at cl" using steps(8) by (simp add: word_sless_alt word_sle_eq)
  ultimately have "issued cr token issuers now cl issuer"
    using steps(3,4,7,9) split_once_parts [OF steps(2)] budget_raw_encode [OF steps(6)] unfolding issued_def by blast
  then show ?thesis using steps(1,10) by simp
qed

text \<open>C27. A \<open>hello\<close> is accepted only with a token that one of the issuers signed, unexpired and naming
  exactly the device that calls, and with a signature by the key the token is bound to over the
  server's nonce and this very token; the caller carries the identity of the signed claims.\<close>

theorem hello_authentic:
  assumes "verify_hello_caller_with_budget cr p server_nonce issuers now u = (u', Inr caller)"
  shows "\<exists>cl. issued cr (text_of (hp_token p)) issuers now cl (vc_issuer_key caller) \<and> cl_device cl = hp_device p
    \<and> cr_verify cr (cl_sign_pk cl) (hello_digest (cr_sha256 cr) server_nonce (text_of (hp_token p))) (hp_sig p)
    \<and> caller = verified_caller (principal_of cl) cl (vc_issuer_key caller)"
proof -
  obtain t where t: "verify_issuer_token_with_budget cr (text_of (hp_token p)) issuers now u = (u', Inr t)"
    "cl_device (vt_claims t) = hp_device p"
    "cr_verify cr (cl_sign_pk (vt_claims t)) (hello_digest (cr_sha256 cr) server_nonce (text_of (hp_token p))) (hp_sig p)"
    "caller = verified_caller (principal_of (vt_claims t)) (vt_claims t) (vt_issuer t)"
    using assms unfolding verify_hello_caller_with_budget_def
    by (cases "verify_issuer_token_with_budget cr (text_of (hp_token p)) issuers now u")
      (auto simp: res_simps Let_def split: if_splits)
  have "vc_issuer_key caller = vt_issuer t" using t(4) by (simp add: verified_caller_def)
  then show ?thesis using verify_issuer_token_issued [OF t(1)] t(2-4) by (intro exI [of _ "vt_claims t"]) simp
qed

subsection \<open>Nonces are used once\<close>

text \<open>A service instance handles requests one after another with one cache.\<close>

fun http_run ::
  "crypto \<Rightarrow> (bytes \<Rightarrow> bytes \<Rightarrow> bytes) \<Rightarrow> bytes \<Rightarrow> (http_request \<times> b16 \<times> Claims \<times> i64) list \<Rightarrow> nonce_cache \<Rightarrow> (ServiceError + Principal) list" where
  "http_run cr hmac secret [] seen = []"
| "http_run cr hmac secret ((q, c, cl, now) # rs) seen =
    (case verify_http_claims cr hmac q c cl secret now seen of (r, seen) \<Rightarrow> r # http_run cr hmac secret rs seen)"

definition nonce_time :: "bytes \<Rightarrow> i64" where
  "nonce_time nonce = of_be (take 8 nonce)"

text \<open>A time stamp in milliseconds far from the end of the 64-bit range.\<close>

definition sane :: "i64 \<Rightarrow> bool" where
  "sane t \<longleftrightarrow> 0 \<le> sint t \<and> sint t < 2 ^ 62"

lemma sane_later: "sane t \<Longrightarrow> sint (t + HTTP_NONCE_TTL_MS) = sint t + 60000"
proof -
  assume t: "sane t"
  have "unat t < 2 ^ 64" using unsigned_less [of t, where 'a = nat] by simp
  then have u: "unat t < 2 ^ 62" "sint t = int (unat t)" using t by (auto simp: sane_def sint64 simp del: of_nat_unat split: if_splits)
  then have "unat (t + HTTP_NONCE_TTL_MS) = unat t + 60000" by (simp add: HTTP_NONCE_TTL_MS_def unat_word_ariths)
  then show ?thesis using u by (simp add: sint64 del: of_nat_unat)
qed

lemma first_use_ok: "bm_ok seen \<Longrightarrow> bm_ok (snd (first_use seen n now))"
  by (simp add: first_use_def Let_def)

text \<open>The entry of a nonce after a request: refreshed, kept, or expired.\<close>

lemma first_use_keeps:
  assumes "bm_ok seen" "map_of seen n = Some e" "e0 \<le> sint e" "e0 \<le> sint now + 60000" "sane now"
  shows "(\<exists>e'. map_of (snd (first_use seen m now)) n = Some e' \<and> e0 \<le> sint e') \<or> e0 \<le> sint now"
proof (cases "now <s e")
  case True
  then have "map_of (filter (\<lambda>(_, exp). now <s exp) seen) n = Some e" using assms(1,2) by (simp add: bm_filter_lookup)
  then show ?thesis using assms sane_later [OF assms(5)] by (auto simp: first_use_def Let_def)
next
  case False
  then show ?thesis using assms(3) by (simp add: word_sless_alt)
qed

lemma first_use_stale:
  assumes "bm_ok seen" "map_of seen n = Some e" "fst (first_use seen n now)"
  shows "sint e \<le> sint now"
  using assms by (auto simp: first_use_def Let_def bm_filter_lookup word_sless_alt split: if_splits)

text \<open>A request leaves the cache as it is or uses one nonce.\<close>

lemma verify_http_cache:
  assumes "verify_http_claims cr hmac q c cl secret now seen = (r, seen')"
  shows "seen' = seen \<and> (\<forall>p. r \<noteq> Inr p) \<or> (\<exists>n. unhex (ht_nonce_hex q) = Some n \<and> seen' = snd (first_use seen n now)
    \<and> ((\<exists>p. r = Inr p) \<longrightarrow> fst (first_use seen n now) \<and> length n = 32 \<and> http_nonce_fresh hmac secret n now))"
  using assms unfolding verify_http_claims_def
  by (auto split: if_splits option.splits prod.splits)

definition times_ok :: "(http_request \<times> b16 \<times> Claims \<times> i64) list \<Rightarrow> bool" where
  "times_ok rs \<longleftrightarrow> sorted_wrt (\<lambda>(_, _, _, s) (_, _, _, t). s \<le>s t) rs \<and> list_all (\<lambda>(_, _, _, t). sane t) rs"

text \<open>The request at a place of the run is accepted with the nonce.\<close>

definition accepted :: "(http_request \<times> b16 \<times> Claims \<times> i64) list \<Rightarrow> (ServiceError + Principal) list \<Rightarrow> nat \<Rightarrow> bytes \<Rightarrow> i64 \<Rightarrow> bool" where
  "accepted rs out i n now \<longleftrightarrow> (\<exists>q c cl p. rs ! i = (q, c, cl, now) \<and> unhex (ht_nonce_hex q) = Some n \<and> out ! i = Inr p)"

lemma run_after_use:
  assumes "bm_ok seen" "map_of seen n = Some e" "e0 \<le> sint e" "times_ok rs" "\<And>q c cl t. (q, c, cl, t) \<in> set rs \<Longrightarrow> e0 \<le> sint t + 60000"
    and "j < length rs" "accepted rs (http_run cr hmac secret rs seen) j n now"
  shows "e0 \<le> sint now"
  using assms
proof (induction rs arbitrary: seen e j)
  case (Cons r rs)
  obtain q c cl t where r: "r = (q, c, cl, t)" by (cases r)
  obtain res seen' where run: "verify_http_claims cr hmac q c cl secret t seen = (res, seen')" by fastforce
  have t: "sane t" "e0 \<le> sint t + 60000" using Cons.prems(4,5) r by (auto simp: times_ok_def)
  note use = verify_http_cache [OF run]
  show ?case
  proof (cases j)
    case 0
    then have "now = t" "unhex (ht_nonce_hex q) = Some n" "\<exists>p. res = Inr p" using Cons.prems(7) r run by (auto simp: accepted_def)
    then have "fst (first_use seen n t)" using use by auto
    then show ?thesis using first_use_stale [OF Cons.prems(1,2)] Cons.prems(3) \<open>now = t\<close> by fastforce
  next
    case (Suc i)
    have acc: "accepted rs (http_run cr hmac secret rs seen') i n now" using Cons.prems(7) r run Suc by (simp add: accepted_def)
    have i: "i < length rs" using Cons.prems(6) Suc by simp
    have later: "sint t \<le> sint now" using Cons.prems(4) r acc nth_mem [OF i] by (auto simp: times_ok_def accepted_def word_sle_eq)
    have ok: "bm_ok seen'" using use Cons.prems(1) first_use_ok by auto
    have "(\<exists>e'. map_of seen' n = Some e' \<and> e0 \<le> sint e') \<or> e0 \<le> sint t"
      using use first_use_keeps [OF Cons.prems(1-3) t(2,1)] Cons.prems(2,3) by auto
    then show ?thesis
    proof
      assume "\<exists>e'. map_of seen' n = Some e' \<and> e0 \<le> sint e'"
      then obtain e' where e': "map_of seen' n = Some e'" "e0 \<le> sint e'" by blast
      have "times_ok rs" using Cons.prems(4) by (simp add: times_ok_def)
      from Cons.IH [OF ok e' this _ i acc] Cons.prems(5) show ?thesis by auto
    next
      assume "e0 \<le> sint t"
      then show ?thesis using later by simp
    qed
  qed
qed simp

lemma accepted_later:
  "verify_http_claims cr hmac q c cl secret t seen = (res, seen') \<Longrightarrow>
    accepted ((q, c, cl, t) # rs) (http_run cr hmac secret ((q, c, cl, t) # rs) seen) (Suc i) n now
      = accepted rs (http_run cr hmac secret rs seen') i n now"
  by (simp add: accepted_def)

lemma accepted_first:
  assumes "verify_http_claims cr hmac q c cl secret t seen = (res, seen')"
    and "accepted ((q, c, cl, t) # rs) (http_run cr hmac secret ((q, c, cl, t) # rs) seen) 0 n now"
  shows "t = now \<and> seen' = snd (first_use seen n now) \<and> length n = 32 \<and> http_nonce_fresh hmac secret n now"
proof -
  have "t = now" "unhex (ht_nonce_hex q) = Some n" "\<exists>p. res = Inr p" using assms by (auto simp: accepted_def)
  then show ?thesis using verify_http_cache [OF assms(1)] by auto
qed

lemma accepted_fresh:
  "j < length rs \<Longrightarrow> accepted rs (http_run cr hmac secret rs seen) j n now \<Longrightarrow> length n = 32 \<and> http_nonce_fresh hmac secret n now"
proof (induction rs arbitrary: j seen)
  case (Cons r rs)
  obtain q c cl t where r: "r = (q, c, cl, t)" by (cases r)
  obtain res seen' where run: "verify_http_claims cr hmac q c cl secret t seen = (res, seen')" by fastforce
  show ?case
  proof (cases j)
    case 0
    then show ?thesis using accepted_first [OF run] Cons.prems(2) r by simp
  next
    case (Suc i)
    then show ?thesis using Cons.IH [of i seen'] Cons.prems accepted_later [OF run] r by simp
  qed
qed simp

lemma used_again_later:
  assumes "bm_ok seen" "times_ok rs" "i < j" "j < length rs"
    and "accepted rs (http_run cr hmac secret rs seen) i n now" "accepted rs (http_run cr hmac secret rs seen) j n later"
  shows "sint now + 60000 \<le> sint later"
  using assms
proof (induction rs arbitrary: seen i j)
  case (Cons r rs)
  obtain q c cl t where r: "r = (q, c, cl, t)" by (cases r)
  obtain res seen' where run: "verify_http_claims cr hmac q c cl secret t seen = (res, seen')" by fastforce
  obtain j' where j: "j = Suc j'" "j' < length rs" using Cons.prems(3,4) by (cases j) auto
  have second: "accepted rs (http_run cr hmac secret rs seen') j' n later" using Cons.prems(6) accepted_later [OF run] r j by simp
  have times: "times_ok rs" "sane t" "\<And>q c cl t'. (q, c, cl, t') \<in> set rs \<Longrightarrow> t \<le>s t'"
    using Cons.prems(2) r by (auto simp: times_ok_def)
  have ok: "bm_ok seen'" using verify_http_cache [OF run] Cons.prems(1) first_use_ok by auto
  show ?case
  proof (cases i)
    case 0
    then have first: "t = now" "seen' = snd (first_use seen n now)" using accepted_first [OF run] Cons.prems(5) r by simp_all
    have "map_of seen' n = Some (now + HTTP_NONCE_TTL_MS)" using first(2) Cons.prems(1) by (simp add: first_use_def Let_def)
    moreover have "sint (now + HTTP_NONCE_TTL_MS) = sint now + 60000" using sane_later times(2) first(1) by simp
    ultimately show ?thesis
      using run_after_use [OF ok _ _ times(1) _ j(2) second, of "now + HTTP_NONCE_TTL_MS" "sint now + 60000"] times(3) first(1)
      by (simp add: word_sle_eq)
  next
    case (Suc i')
    then have "accepted rs (http_run cr hmac secret rs seen') i' n now" "i' < j'" using Cons.prems(3,5) accepted_later [OF run] r j by simp_all
    then show ?thesis using Cons.IH [OF ok times(1) _ j(2) _ second] by blast
  qed
qed simp

lemma sint_sane: "sane t \<Longrightarrow> sint t = int (unat t) \<and> unat t < 2 ^ 62"
  using unsigned_less [of t, where 'a = nat] by (auto simp: sane_def sint64 simp del: of_nat_unat split: if_splits)

lemma fresh_window:
  assumes "http_nonce_fresh hmac secret n now" "sane now" "sane (nonce_time n)"
  shows "sint now \<le> sint (nonce_time n) + 60000"
proof (cases "nonce_time n \<le> now")
  case True
  have "now - nonce_time n \<le>s HTTP_NONCE_TTL_MS" using assms(1) by (simp add: http_nonce_fresh_def nonce_time_def Let_def)
  moreover have "unat (now - nonce_time n) = unat now - unat (nonce_time n)" using True by (rule unat_sub)
  moreover have "sane (now - nonce_time n)"
  proof -
    have "unat (now - nonce_time n) < 2 ^ 62" using sint_sane [OF assms(2)] unat_sub [OF True] by linarith
    then show ?thesis by (simp add: sane_def sint64 del: of_nat_unat)
  qed
  ultimately show ?thesis
    using sint_sane [of "now - nonce_time n"] sint_sane [OF assms(2)] sint_sane [OF assms(3)] True
    by (simp add: word_sle_eq HTTP_NONCE_TTL_MS_def word_le_nat_alt del: of_nat_unat)
next
  case False
  then show ?thesis using sint_sane [OF assms(2)] sint_sane [OF assms(3)] by (simp add: word_le_nat_alt del: of_nat_unat)
qed

text \<open>C28. An HTTPS nonce is used once: of the requests one service instance handles at times that do
  not run backwards, a second one with the same nonce is accepted only 60 seconds after the first
  or later, and only if the nonce was stamped with the time of the first use or a later one.\<close>

theorem http_nonce_single_use:
  assumes "bm_ok seen" "times_ok rs" "i < j" "j < length rs" "sane (nonce_time n)"
    and "accepted rs (http_run cr hmac secret rs seen) i n now" "accepted rs (http_run cr hmac secret rs seen) j n later"
  shows "sint now + 60000 \<le> sint later \<and> sint later \<le> sint (nonce_time n) + 60000"
proof -
  have "sane later" using assms(2,7) nth_mem [OF assms(4)] by (auto simp: times_ok_def accepted_def list_all_iff)
  then show ?thesis
    using used_again_later [OF assms(1-4,6,7)] accepted_fresh [OF assms(4,7)] fresh_window assms(5) by blast
qed

text \<open>The bound is met: a nonce stamped and used in one millisecond is accepted again exactly 60
  seconds later, where it is still fresh but no longer in the cache.\<close>

definition sample_crypto :: crypto where
  "sample_crypto = \<lparr>cr_sha256 = (\<lambda>_. 0), cr_verify = (\<lambda>_ _ _. True)\<rparr>"

definition sample_hmac :: "bytes \<Rightarrow> bytes \<Rightarrow> bytes" where
  "sample_hmac secret m = replicate 32 0"

definition sample_request :: http_request where
  "sample_request = \<lparr>ht_token = [], ht_nonce_hex = ''00000000000003e8'' @ replicate 48 (CHR ''0''), ht_sig_hex = replicate 128 (CHR ''0''),
     ht_path = ''/v1'', ht_method = ''POST'', ht_body = []\<rparr>"

definition sample_claims :: Claims where
  "sample_claims = \<lparr>cl_control_plane = True, cl_device = None, cl_sign_pk = 0, cl_expires_at = 100000, cl_collection = None\<rparr>"

definition sample_run :: "(http_request \<times> b16 \<times> Claims \<times> i64) list" where
  "sample_run = [(sample_request, 0, sample_claims, 1000), (sample_request, 0, sample_claims, 61000)]"

abbreviation sample_nonce :: bytes where
  "sample_nonce \<equiv> [0, 0, 0, 0, 0, 0, 3, 232] @ replicate 24 0"

lemma sample_nonce: "unhex (ht_nonce_hex sample_request) = Some sample_nonce" "length sample_nonce = 32" "nonce_time sample_nonce = 1000"
  by code_simp+

lemma sample_sig: "unhex_fixed 64 (ht_sig_hex sample_request) = Some (0 :: b64)"
  by code_simp

lemma sample_fresh: "http_nonce_fresh sample_hmac [] sample_nonce 1000" "http_nonce_fresh sample_hmac [] sample_nonce 61000"
  by code_simp+

lemma sample_use:
  "verify_http_claims sample_crypto sample_hmac sample_request 0 sample_claims [] 1000 [] = (Inr ControlPlane, [(sample_nonce, 61000)])"
  "verify_http_claims sample_crypto sample_hmac sample_request 0 sample_claims [] 61000 [(sample_nonce, 61000)]
    = (Inr ControlPlane, [(sample_nonce, 121000)])"
  unfolding verify_http_claims_def sample_nonce(1) sample_sig option.case
  by (simp_all only: sample_fresh sample_nonce(2))
    (simp_all add: sample_claims_def sample_crypto_def first_use_def principal_of_def HTTP_NONCE_TTL_MS_def word_sle_eq word_sless_alt)

lemma nonce_replay_at_expiry: "http_run sample_crypto sample_hmac [] sample_run [] = [Inr ControlPlane, Inr ControlPlane]"
  by (simp only: sample_run_def http_run.simps sample_use prod.case)

theorem http_nonce_single_use_witness:
  "\<exists>n. accepted sample_run (http_run sample_crypto sample_hmac [] sample_run []) 0 n 1000
    \<and> sint (61000 :: i64) \<le> sint (nonce_time n) + 60000"
proof -
  let ?n = "[0, 0, 0, 0, 0, 0, 3, 232] @ replicate 24 0 :: bytes"
  note n = sample_nonce(1) and time = sample_nonce(3)
  have acc: "accepted sample_run (http_run sample_crypto sample_hmac [] sample_run []) 0 ?n 1000"
    "accepted sample_run (http_run sample_crypto sample_hmac [] sample_run []) 1 ?n 61000"
    using n unfolding nonce_replay_at_expiry by (auto simp: accepted_def sample_run_def)
  have ok: "times_ok sample_run" "sane (nonce_time ?n)" unfolding time by (simp_all add: times_ok_def sample_run_def sane_def word_sle_eq)
  show ?thesis
    using http_nonce_single_use [OF bm_ok_Nil ok(1) _ _ ok(2) acc] acc(1) by (auto simp: sample_run_def)
qed

subsection \<open>Claims and request digests\<close>

lemma id_field_be [simp]: "id_field (Some (CBytes (be_bytes 16 d))) = Some (Some d)"
  by (simp add: codec_simps take_bit_word_eq_self)

lemma claims_decode_map: "claims_decode (claims_map c) = Some c"
  by (cases "cl_device c"; cases "cl_collection c")
    (simp_all add: claims_decode_def claims_map_def as_i64_int codec_simps take_bit_word_eq_self)

lemma claims_map_rep: "cbor_rep (claims_map c)"
  by (auto simp: claims_map_def cbor_int_def AUDIENCE_def ascii_def split: option.split)

lemma uint_keys: "sorted_wrt (<) ns \<Longrightarrow> map_rule (map Uint ns)"
  by (auto simp: map_rule_def)

lemma claims_encodes: "\<exists>b. claims_encode c = Inr b"
  unfolding claims_encode_def encode_def encode_Ok_iff
  using uint_keys [of "[0, 2, 3, 4]"] uint_keys [of "[0, 1, 2, 3, 4]"] uint_keys [of "[0, 2, 3, 4, 5]"] uint_keys [of "[0, 1, 2, 3, 4, 5]"]
  by (auto simp: claims_map_def cbor_int_def check_map_def MAX_DEPTH_def AUDIENCE_def ascii_utf8 ascii_only_def ascii_def split: option.split)

text \<open>Every claims record encodes (so \<open>encode\<close> never panics), and what an issuer signs decodes to
  exactly these claims.\<close>

theorem claims_round_trip: "\<exists>b v. claims_encode c = Inr b \<and> decode b = Inr v \<and> claims_decode v = Some c"
proof -
  obtain b where b: "claims_encode c = Inr b" using claims_encodes by blast
  then have "decode b = Inr (claims_map c)" using claims_map_rep by (simp add: decode_iff claims_encode_def)
  then show ?thesis using b claims_decode_map by blast
qed

lemma zero_split:
  assumes "a @ (0 :: u8) # b = c @ 0 # d" "0 \<notin> set a" "0 \<notin> set c"
  shows "a = c \<and> b = d"
proof -
  have "takeWhile (\<lambda>x. x \<noteq> 0) (a @ 0 # b) = a" "takeWhile (\<lambda>x. x \<noteq> 0) (c @ 0 # d) = c" using assms(2,3) by (auto simp: takeWhile_append)
  then show ?thesis using assms(1) by auto
qed

text \<open>The message signed for an HTTPS request determines its method, path, collection and nonce and
  the digests of its token and body: a signature for one request fits no other.\<close>

theorem http_message_binds:
  assumes "http_message sha256 n path c tok method body = http_message sha256 n' path' c' tok' method' body'"
    and "length n = 32" "length n' = 32" "0 \<notin> set (ascii method @ ascii method' @ ascii path @ ascii path')"
  shows "method = method' \<and> path = path' \<and> c = c' \<and> n = n' \<and> sha256 (ascii tok) = sha256 (ascii tok') \<and> sha256 body = sha256 body'"
proof -
  have eq: "ascii method @ 0 # ascii path @ 0 # be_bytes 16 c @ be_bytes 32 (sha256 (ascii tok)) @ be_bytes 32 (sha256 body) @ n
      = ascii method' @ 0 # ascii path' @ 0 # be_bytes 16 c' @ be_bytes 32 (sha256 (ascii tok')) @ be_bytes 32 (sha256 body') @ n'"
    using assms(1) by (simp add: http_message_def)
  have m: "method = method'" and r: "ascii path @ 0 # be_bytes 16 c @ be_bytes 32 (sha256 (ascii tok)) @ be_bytes 32 (sha256 body) @ n
      = ascii path' @ 0 # be_bytes 16 c' @ be_bytes 32 (sha256 (ascii tok')) @ be_bytes 32 (sha256 body') @ n'"
    using zero_split [OF eq] assms(4) by auto
  have "path = path'" and rest: "be_bytes 16 c @ be_bytes 32 (sha256 (ascii tok)) @ be_bytes 32 (sha256 body) @ n
      = be_bytes 16 c' @ be_bytes 32 (sha256 (ascii tok')) @ be_bytes 32 (sha256 body') @ n'"
    using zero_split [OF r] assms(4) by auto
  then show ?thesis using m by simp
qed

subsection \<open>Issued tokens are accepted\<close>

lemma hex_no_dot: "CHR ''.'' \<notin> set (hex bs)"
proof -
  have "hex_char n \<noteq> CHR ''.''" if "n < 16" for n
  proof -
    have "of_char (hex_char n) \<noteq> (46 :: nat)" using that by (auto simp: hex_char_def)
    then show ?thesis by auto
  qed
  moreover have "unat (b :: u8) div 16 < 16" for b using unsigned_less [of b, where 'a = nat] by simp
  ultimately show ?thesis unfolding hex_def by (auto simp: eq_commute [of "CHR ''.''"])
qed

lemma split_once_found: "d \<notin> set a \<Longrightarrow> split_once d (a @ d # b) = Some (a, b)"
  by (induction a) auto

lemma claims_nodes: "cbor_nodes (claims_map c) \<le> 13"
  by (auto simp: claims_map_def cbor_int_def split: option.split)

definition mint_token :: "bytes \<Rightarrow> b64 \<Rightarrow> string" where
  "mint_token claims sig = hex claims @ CHR ''.'' # to_hex 64 sig"

lemma minted_token_ok:
  assumes "claims_encode cl = Inr b" "length b \<le> 8000" "cl_control_plane cl \<longleftrightarrow> cl_device cl = None" "now <s cl_expires_at cl"
    and "find (\<lambda>pk. cr_verify cr pk (token_digest (cr_sha256 cr) b) sig) issuers = Some issuer"
  shows "\<exists>u t. verify_issuer_token_with_budget cr (mint_token b sig) issuers now budget_default = (u, Inr t)
    \<and> vt_claims t = cl \<and> vt_issuer t = issuer"
proof -
  have b: "decode b = Inr (claims_map cl)" using assms(1) claims_map_rep by (simp add: decode_iff claims_encode_def)
  have "snd (budget_raw b budget_default) = Inr (claims_map cl)"
    using budget_raw_complete [OF b, of budget_default] assms(2) claims_nodes [of cl]
    by (simp add: MAX_BYTES_def MAX_WORK_BYTES_def MAX_NODES_def budget_default_def)
  then obtain u where raw: "budget_raw b budget_default = (u, Inr (claims_map cl))" by (metis prod.collapse)
  have split: "split_once CHR ''.'' (mint_token b sig) = Some (hex b, to_hex 64 sig)"
    unfolding mint_token_def by (rule split_once_found) (rule hex_no_dot)
  have len: "length (mint_token b sig) \<le> 16 * 1024" "length (to_hex 64 sig) = 128"
    using assms(2) by (simp_all add: mint_token_def length_hex to_hex_def)
  have sig: "unhex_fixed 64 (to_hex 64 sig) = Some sig" by (rule unhex_fixed_to_hex) simp
  have exp: "\<not> cl_expires_at cl \<le>s now" using assms(4) by (simp add: word_sless_alt word_sle_eq)
  show ?thesis
    using len split sig exp assms(3,5) raw by (auto simp: verify_issuer_token_with_budget_def claims_decode_map)
qed

text \<open>C29. A token minted for claims that fit their role is accepted until it expires by every service
  that trusts a key its signature verifies under, and gives back exactly its claims.\<close>

theorem minted_token_accepted:
  assumes "claims_encode cl = Inr b" "length b \<le> 8000" "cl_control_plane cl \<longleftrightarrow> cl_device cl = None" "now <s cl_expires_at cl"
    and "find (\<lambda>pk. cr_verify cr pk (token_digest (cr_sha256 cr) b) sig) issuers = Some issuer"
  shows "\<exists>u t. verify_issuer_token_with_budget cr (mint_token b sig) issuers now budget_default = (u, Inr t)
    \<and> vt_claims t = cl \<and> vt_issuer t = issuer"
  using assms by (rule minted_token_ok)

definition sample_claims_bytes :: bytes where
  "sample_claims_bytes = [0xa4, 0, 1, 2, 0x58, 32] @ replicate 32 0 @ [3, 0x1a, 0, 1, 0x86, 0xa0, 4, 0x6a] @ ascii AUDIENCE"

lemma sample_claims_encode: "claims_encode sample_claims = Inr sample_claims_bytes"
proof -
  have "be_bytes 32 (0 :: b32) = replicate 32 0" by (simp add: numeral_eq_Suc)
  moreover have "be_bytes 4 (100000 :: u32) = [0, 1, 0x86, 0xa0]" by code_simp
  ultimately show ?thesis
    by (simp add: claims_encode_def claims_map_def sample_claims_def sample_claims_bytes_def cbor_int_def encode_def encode_into.simps
        head_def MAX_DEPTH_def check_map_def word_sle_eq AUDIENCE_def ascii_def)
qed

theorem minted_token_accepted_witness:
  "\<exists>u t. verify_issuer_token_with_budget sample_crypto (mint_token sample_claims_bytes 0) [7] 1000 budget_default = (u, Inr t)
    \<and> vt_claims t = sample_claims \<and> vt_issuer t = 7"
  by (rule minted_token_accepted [OF sample_claims_encode])
    (simp_all add: sample_claims_bytes_def AUDIENCE_def sample_claims_def sample_crypto_def word_sless_alt)

lemma text_of_ascii [simp]: "text_of (ascii s) = s"
  by (simp add: text_of_def ascii_def unat_of_char comp_def)

definition sample_hello :: LsHelloParams where
  "sample_hello = \<lparr>hp_version = \<lparr>major = 1, minor = 0\<rparr>, hp_token = ascii (mint_token sample_claims_bytes 0), hp_device = None, hp_sig = 0\<rparr>"

theorem hello_authentic_witness:
  "\<exists>u caller cl. verify_hello_caller_with_budget sample_crypto sample_hello 5 [7] 1000 budget_default = (u, Inr caller)
    \<and> issued sample_crypto (mint_token sample_claims_bytes 0) [7] 1000 cl (vc_issuer_key caller)"
proof -
  obtain u t where t: "verify_issuer_token_with_budget sample_crypto (mint_token sample_claims_bytes 0) [7] 1000 budget_default = (u, Inr t)"
    "vt_claims t = sample_claims"
    using minted_token_ok [OF sample_claims_encode, of 1000 sample_crypto 0 "[7]" 7]
    by (auto simp: sample_claims_bytes_def AUDIENCE_def sample_claims_def sample_crypto_def word_sless_alt)
  then have run: "verify_hello_caller_with_budget sample_crypto sample_hello 5 [7] 1000 budget_default
      = (u, Inr (verified_caller (principal_of sample_claims) sample_claims (vt_issuer t)))"
    by (simp add: verify_hello_caller_with_budget_def sample_hello_def sample_claims_def sample_crypto_def Let_def)
  then show ?thesis using hello_authentic [OF run] by (auto simp: sample_hello_def)
qed

theorem http_message_binds_witness:
  "http_message (\<lambda>_. 0) (replicate 32 0) ''/v1'' 3 ''t'' ''POST'' [] \<noteq> http_message (\<lambda>_. 0) (replicate 32 0) ''/v1'' 4 ''t'' ''POST'' []"
  using http_message_binds [of "\<lambda>_. 0" "replicate 32 0" "''/v1''" 3 "''t''" "''POST''" "[]" "replicate 32 0" "''/v1''" 4 "''t''" "''POST''" "[]"]
  by (auto simp: ascii_def)

end
