(* ===== verification/LogHub.thy ===== *)
theory LogHub
  imports LogDirect
begin

text \<open>
  \<open>log-service/src/hub.rs\<close>: the subscriptions and the ephemeral streams of one collection.  Nothing
  here is durable: the hub is one record, and every operation returns the hub and the pushes it
  addresses to sessions.  \<open>usize\<close> counts are natural numbers.
\<close>

definition DEFAULT_INLINE_BYTES :: u64 where "DEFAULT_INLINE_BYTES = 65536"
definition EPH_MAX_MESSAGE :: nat where "EPH_MAX_MESSAGE = 16 * 1024"
definition EPH_RATE_MSGS :: u64 where "EPH_RATE_MSGS = 30"
definition EPH_RATE_BYTES :: u64 where "EPH_RATE_BYTES = 256 * 1024"
definition EPH_MAX_SESSIONS :: nat where "EPH_MAX_SESSIONS = 64"
definition EPH_MAX_STREAMS_PER_CONN :: nat where "EPH_MAX_STREAMS_PER_CONN = 512"
definition EPH_MAX_STREAMS :: nat where "EPH_MAX_STREAMS = 4096"
definition EPH_IDLE_MS :: i64 where "EPH_IDLE_MS = 60000"

subsection \<open>State\<close>

type_synonym SessionId = u64

datatype PushClass = Items | State | Ephemeral_class

record Push =
  pu_to :: SessionId
  pu_push :: LsPush
  pu_class :: PushClass
  pu_fallback :: "LsPush option"

record Sub =
  sb_device :: "b16 option"
  sb_inline_bytes :: u64

record Member =
  mb_device :: b16
  mb_last_active :: i64
  mb_msgs_milli :: u64
  mb_bytes :: u64
  mb_at :: i64

record Hub =
  hb_collection :: b16
  hb_subs :: "(SessionId, Sub) bmap"
  hb_streams :: "(b16, (SessionId, Member) bmap) bmap"
  hb_joined :: "(SessionId, nat) bmap"

definition hub_push :: "string \<Rightarrow> Cbor \<Rightarrow> LsPush" where
  "hub_push kind' payload = \<lparr>lp_kind = ascii kind', lp_payload = payload\<rparr>"

definition hub_new :: "b16 \<Rightarrow> Hub" where
  "hub_new collection = \<lparr>hb_collection = collection, hb_subs = [], hb_streams = [], hb_joined = []\<rparr>"

definition subscriber_count :: "Hub \<Rightarrow> nat" where
  "subscriber_count hub = length (hb_subs hub)"

definition subscribe :: "SessionId \<Rightarrow> b16 option \<Rightarrow> u64 option \<Rightarrow> Hub \<Rightarrow> Hub" where
  "subscribe s device inline_bytes hub =
    hub\<lparr>hb_subs := bm_insert s \<lparr>sb_device = device,
      sb_inline_bytes = (case inline_bytes of Some b \<Rightarrow> b | None \<Rightarrow> DEFAULT_INLINE_BYTES)\<rparr> (hb_subs hub)\<rparr>"

definition unsubscribe :: "SessionId \<Rightarrow> Hub \<Rightarrow> Hub" where
  "unsubscribe s hub = hub\<lparr>hb_subs := bm_remove s (hb_subs hub)\<rparr>"

definition is_subscribed :: "SessionId \<Rightarrow> Hub \<Rightarrow> bool" where
  "is_subscribed s hub \<longleftrightarrow> bm_mem s (hb_subs hub)"

definition subscription :: "SessionId \<Rightarrow> Hub \<Rightarrow> u64 option" where
  "subscription s hub = map_option sb_inline_bytes (map_of (hb_subs hub) s)"

subsection \<open>Leaving\<close>

definition stream_event :: "Hub \<Rightarrow> b16 \<Rightarrow> b16 \<Rightarrow> StreamEventKind \<Rightarrow> SessionId \<Rightarrow> Push list" where
  "stream_event hub stream device ev except =
    (case map_of (hb_streams hub) stream of
       None \<Rightarrow> []
     | Some m \<Rightarrow>
         map (\<lambda>s. \<lparr>pu_to = s,
             pu_push = hub_push ''stream_event'' (stream_event_to_cbor
               \<lparr>ev_collection = hb_collection hub, ev_stream = stream, ev_device = device, ev_event = ev\<rparr>),
             pu_class = Ephemeral_class, pu_fallback = None\<rparr>)
           (filter (\<lambda>s. s \<noteq> except) (bm_keys m)))"

definition leave :: "SessionId \<Rightarrow> b16 \<Rightarrow> Hub \<Rightarrow> Hub \<times> Push list" where
  "leave s stream hub =
    (case map_of (hb_streams hub) stream of
       None \<Rightarrow> (hub, [])
     | Some m \<Rightarrow>
         (case map_of m s of
            None \<Rightarrow> (hub, [])
          | Some v \<Rightarrow>
              let hub = hub\<lparr>hb_streams := bm_insert stream (bm_remove s m) (hb_streams hub)\<rparr>;
                  hub = (case map_of (hb_joined hub) s of
                      Some j \<Rightarrow>
                        if j - 1 = 0 then hub\<lparr>hb_joined := bm_remove s (hb_joined hub)\<rparr>
                        else hub\<lparr>hb_joined := bm_insert s (j - 1) (hb_joined hub)\<rparr>
                    | None \<Rightarrow> hub);
                  out = stream_event hub stream (mb_device v) Left s;
                  hub = (if map_of (hb_streams hub) stream = Some [] then hub\<lparr>hb_streams := bm_remove stream (hb_streams hub)\<rparr>
                         else hub) in
              (hub, out)))"

text \<open>A loop over the pairs of session and stream that leave.\<close>

fun leave_all :: "(SessionId \<times> b16) list \<Rightarrow> Hub \<Rightarrow> Hub \<times> Push list" where
  "leave_all [] hub = (hub, [])"
| "leave_all ((s, st) # ps) hub =
    (let (hub, out) = leave s st hub; (hub, rest) = leave_all ps hub in (hub, out @ rest))"

definition disconnect :: "SessionId \<Rightarrow> Hub \<Rightarrow> Hub \<times> Push list" where
  "disconnect s hub =
    (let hub = hub\<lparr>hb_subs := bm_remove s (hb_subs hub)\<rparr>;
         streams = map fst (filter (\<lambda>(_, m). bm_mem s m) (hb_streams hub));
         (hub, out) = leave_all (map (\<lambda>st. (s, st)) streams) hub in
     (hub\<lparr>hb_joined := bm_remove s (hb_joined hub)\<rparr>, out))"

fun disconnect_all :: "SessionId list \<Rightarrow> Hub \<Rightarrow> Hub \<times> Push list" where
  "disconnect_all [] hub = (hub, [])"
| "disconnect_all (s # ss) hub =
    (let (hub, out) = disconnect s hub; (hub, rest) = disconnect_all ss hub in (hub, out @ rest))"

definition expire :: "i64 \<Rightarrow> Hub \<Rightarrow> Hub \<times> Push list" where
  "expire now hub =
    leave_all (concat (map (\<lambda>(st, m). map (\<lambda>(s, _). (s, st)) (filter (\<lambda>(_, v). EPH_IDLE_MS <s now - mb_last_active v) m))
      (hb_streams hub))) hub"

subsection \<open>Commits\<close>

definition closed_to :: "b16 \<Rightarrow> string \<Rightarrow> SessionId \<Rightarrow> Push" where
  "closed_to collection reason s =
    \<lparr>pu_to = s, pu_push = hub_push ''closed'' (closed_push_to_cbor \<lparr>cp_collection = collection, cp_reason = ascii reason\<rparr>),
     pu_class = State, pu_fallback = None\<rparr>"

definition close_gone :: "Hub \<Rightarrow> Hub \<times> Push list" where
  "close_gone hub =
    (let out = map (closed_to (hb_collection hub) ''gone'') (bm_keys (hb_subs hub));
         hub = hub\<lparr>hb_subs := []\<rparr>;
         (hub, _) = disconnect_all (bm_keys (hb_joined hub)) hub in
     (hub, out))"

definition close_devices :: "b16 list \<Rightarrow> string \<Rightarrow> Hub \<Rightarrow> Hub \<times> Push list" where
  "close_devices devices reason hub =
    (if devices = [] then (hub, [])
     else
       let hit = map fst (filter (\<lambda>(_, s). case sb_device s of Some d \<Rightarrow> d \<in> set devices | None \<Rightarrow> False) (hb_subs hub));
           hub = hub\<lparr>hb_subs := fold bm_remove hit (hb_subs hub)\<rparr>;
           out = map (closed_to (hb_collection hub) reason) hit;
           members = concat (map (\<lambda>(_, m). map fst (filter (\<lambda>(_, v). mb_device v \<in> set devices) m)) (hb_streams hub));
           (hub, rest) = disconnect_all members hub in
       (hub, out @ rest))"

definition commit_push :: "CommitNotice \<Rightarrow> (u64 \<times> bytes) list \<Rightarrow> SessionId \<times> Sub \<Rightarrow> Push" where
  "commit_push n items p =
    (let (s, sub) = p;
         hd_push = hub_push ''head'' (head_push_to_cbor
           \<lparr>hd_collection = cn_collection n, hd_head = cn_head n, hd_head_chain = cn_head_chain n\<rparr>);
         size' = sum_list (map (\<lambda>(_, b). of_nat (length b)) items) :: u64;
         full = (items \<noteq> [] \<and> fst (hd items) = cn_first n \<and> fst (last items) = cn_head n) in
     if full \<and> size' \<le> sb_inline_bytes sub then
       \<lparr>pu_to = s,
        pu_push = hub_push ''items'' (items_push_to_cbor
          \<lparr>ip_collection = cn_collection n, ip_items = map (\<lambda>(seq, b). \<lparr>sq_seq = seq, sq_item = b\<rparr>) items,
           ip_head = cn_head n, ip_head_chain = cn_head_chain n\<rparr>),
        pu_class = Items, pu_fallback = Some hd_push\<rparr>
     else \<lparr>pu_to = s, pu_push = hd_push, pu_class = State, pu_fallback = None\<rparr>)"

definition on_commit :: "CommitNotice \<Rightarrow> (u64 \<times> bytes) list \<Rightarrow> Hub \<Rightarrow> Hub \<times> Push list" where
  "on_commit n items hub =
    (if cn_gone n then close_gone hub
     else
       let (hub, out) = close_devices (cn_revoked n) ''forbidden'' hub in
       if cn_first n = 0 then (hub, out) else (hub, out @ map (commit_push n items) (hb_subs hub)))"

subsection \<open>Streams\<close>

definition stream_limited :: "string \<Rightarrow> ServiceError" where
  "stream_limited what = err_retry (err_reason CodeRateLimited what) 1000"

definition join_refused :: "SessionId \<Rightarrow> b16 \<Rightarrow> Hub \<Rightarrow> ServiceError option" where
  "join_refused s stream hub =
    (if \<not> bm_mem stream (hb_streams hub) \<and> EPH_MAX_STREAMS \<le> length (hb_streams hub) then
       Some (stream_limited ''streams_per_collection'')
     else if (case map_of (hb_streams hub) stream of Some m \<Rightarrow> EPH_MAX_SESSIONS \<le> length m | None \<Rightarrow> False) then
       Some (stream_limited ''sessions_per_stream'')
     else if EPH_MAX_STREAMS_PER_CONN \<le> (case map_of (hb_joined hub) s of Some j \<Rightarrow> j | None \<Rightarrow> 0) then
       Some (stream_limited ''streams_per_connection'')
     else None)"

text \<open>The sessions that expire leave even when the call is refused; the events are then lost.\<close>

definition join :: "SessionId \<Rightarrow> b16 \<Rightarrow> b16 \<Rightarrow> i64 \<Rightarrow> Hub \<Rightarrow> Hub \<times> (ServiceError + b16 list \<times> Push list)" where
  "join s device stream now hub =
    (let (hub, out) = expire now hub;
         old = (case map_of (hb_streams hub) stream of Some m \<Rightarrow> m | None \<Rightarrow> []);
         exists = bm_mem s old in
     case (if exists then None else join_refused s stream hub) of
       Some e \<Rightarrow> (hub, Err e)
     | None \<Rightarrow>
         let others = map (\<lambda>(_, v). mb_device v) (filter (\<lambda>(k, _). k \<noteq> s) old);
             m = bm_insert s \<lparr>mb_device = device, mb_last_active = now, mb_msgs_milli = EPH_RATE_MSGS * 1000,
                 mb_bytes = EPH_RATE_BYTES, mb_at = now\<rparr> old;
             hub = hub\<lparr>hb_streams := bm_insert stream m (hb_streams hub)\<rparr> in
         if exists then (hub, Ok (others, out))
         else
           let j = (case map_of (hb_joined hub) s of Some j \<Rightarrow> j | None \<Rightarrow> 0);
               hub = hub\<lparr>hb_joined := bm_insert s (j + 1) (hb_joined hub)\<rparr> in
           (hub, Ok (others, out @ stream_event hub stream device Joined s)))"

text \<open>\<open>(now - m.at).clamp(0, 60_000) as u64\<close>, and the two token buckets.\<close>

definition hub_dt :: "i64 \<Rightarrow> i64 \<Rightarrow> u64" where
  "hub_dt now at' = (let d = now - at' in if d <s 0 then 0 else if 60000 <s d then 60000 else d)"

definition refill_member :: "i64 \<Rightarrow> Member \<Rightarrow> Member" where
  "refill_member now m =
    (let dt = hub_dt now (mb_at m) in
     m\<lparr>mb_msgs_milli := min (mb_msgs_milli m + dt * EPH_RATE_MSGS) (EPH_RATE_MSGS * 1000),
       mb_bytes := min (mb_bytes m + dt * EPH_RATE_BYTES div 1000) EPH_RATE_BYTES,
       mb_at := now\<rparr>)"

definition set_member :: "SessionId \<Rightarrow> b16 \<Rightarrow> Member \<Rightarrow> Hub \<Rightarrow> Hub" where
  "set_member s stream v hub =
    hub\<lparr>hb_streams := map (\<lambda>(st, m). (st, if st = stream then map (\<lambda>(k, w). (k, if k = s then v else w)) m else m)) (hb_streams hub)\<rparr>"

definition stream_msg_to :: "Hub \<Rightarrow> b16 \<Rightarrow> b16 \<Rightarrow> bytes \<Rightarrow> SessionId \<Rightarrow> Push" where
  "stream_msg_to hub stream sender message t =
    \<lparr>pu_to = t,
     pu_push = hub_push ''stream_msg'' (stream_msg_to_cbor
       \<lparr>sm_collection = hb_collection hub, sm_stream = stream, sm_from = sender, sm_message = message\<rparr>),
     pu_class = Ephemeral_class, pu_fallback = None\<rparr>"

definition stream_wait :: "u64 \<Rightarrow> Member \<Rightarrow> u64" where
  "stream_wait len' m =
    max (max ((1000 - min (mb_msgs_milli m) 1000) div EPH_RATE_MSGS) (sat_sub len' (mb_bytes m) * 1000 div EPH_RATE_BYTES)) 1"

definition hub_member :: "SessionId \<Rightarrow> b16 \<Rightarrow> Hub \<Rightarrow> Member option" where
  "hub_member s stream hub = Option.bind (map_of (hb_streams hub) stream) (\<lambda>m. map_of m s)"

definition send_with_budget ::
  "SessionId \<Rightarrow> b16 \<Rightarrow> bytes \<Rightarrow> i64 \<Rightarrow> Usage \<Rightarrow> Hub \<Rightarrow> Hub \<times> Usage \<times> (ServiceError + u64 \<times> Push list)" where
  "send_with_budget s stream message now u hub =
    (if EPH_MAX_MESSAGE < length message then (hub, u, Err (err_reason CodeTooLarge ''message''))
     else
       let (hub, out) = expire now hub in
       case hub_member s stream hub of
         None \<Rightarrow> (hub, u, Err (err_reason CodeForbidden ''not_joined''))
       | Some m \<Rightarrow>
           (case budget_wire item_from_cbor message u of
              (u, Inl e) \<Rightarrow> (hub, u, Err e)
            | (u, Inr it) \<Rightarrow>
                if check_shape it \<noteq> Ok () \<or> it_kind it \<noteq> Ephemeral \<or> it_collection it \<noteq> hb_collection hub
                   \<or> it_stream it \<noteq> Some stream \<or> it_signer it \<noteq> Some (mb_device m) then
                  (hub, u, Err (err_msg (err_invalid ''shape'') ''ephemeral envelope''))
                else
                  let m = refill_member now m; len' = of_nat (length message) :: u64 in
                  if mb_msgs_milli m < 1000 \<or> mb_bytes m < len' then
                    (set_member s stream m hub, u, Err (err_retry (err_reason CodeRateLimited ''stream_rate'') (stream_wait len' m)))
                  else
                    let m = m\<lparr>mb_msgs_milli := mb_msgs_milli m - 1000, mb_bytes := mb_bytes m - len', mb_last_active := now\<rparr>;
                        hub = set_member s stream m hub;
                        targets = filter (\<lambda>k. k \<noteq> s) (bm_keys (the (map_of (hb_streams hub) stream))) in
                    (hub, u, Ok (of_nat (length targets), out @ map (stream_msg_to hub stream (mb_device m) message) targets))))"

definition send :: "SessionId \<Rightarrow> b16 \<Rightarrow> bytes \<Rightarrow> i64 \<Rightarrow> Hub \<Rightarrow> Hub \<times> (ServiceError + u64 \<times> Push list)" where
  "send s stream message now hub =
    (case send_with_budget s stream message now budget_default hub of (hub, _, r) \<Rightarrow> (hub, r))"

end
