(* ===== verification/LogFanout.thy ===== *)
theory LogFanout
  imports LogHub LogSample
begin

text \<open>
  Correctness of the hub: the limits on streams, sessions and buckets hold in every reachable hub and
  the counts of joined streams are exact; a commit sends every subscriber exactly one push and a
  revoked device none; a stream message goes to every other member exactly once.
\<close>

subsection \<open>The invariant\<close>

definition streams_of :: "SessionId \<Rightarrow> Hub \<Rightarrow> b16 set" where
  "streams_of s hub = {st. hub_member s st hub \<noteq> None}"

definition member_ok :: "Member \<Rightarrow> bool" where
  "member_ok v \<longleftrightarrow> mb_msgs_milli v \<le> EPH_RATE_MSGS * 1000 \<and> mb_bytes v \<le> EPH_RATE_BYTES"

definition sessions_ok :: "(SessionId, Member) bmap \<Rightarrow> bool" where
  "sessions_ok m \<longleftrightarrow> bm_ok m \<and> m \<noteq> [] \<and> length m \<le> EPH_MAX_SESSIONS \<and> (\<forall>s v. map_of m s = Some v \<longrightarrow> member_ok v)"

definition hub_ok :: "Hub \<Rightarrow> bool" where
  "hub_ok hub \<longleftrightarrow> bm_ok (hb_subs hub) \<and> bm_ok (hb_streams hub) \<and> bm_ok (hb_joined hub)
    \<and> length (hb_streams hub) \<le> EPH_MAX_STREAMS
    \<and> (\<forall>st m. map_of (hb_streams hub) st = Some m \<longrightarrow> sessions_ok m)
    \<and> (\<forall>s. map_of (hb_joined hub) s = (if streams_of s hub = {} then None else Some (card (streams_of s hub))))
    \<and> (\<forall>s. card (streams_of s hub) \<le> EPH_MAX_STREAMS_PER_CONN)"

lemma bm_insert_length: "bm_ok m \<Longrightarrow> length (bm_insert k v m) = (if bm_mem k m then length m else length m + 1)"
proof (induction m)
  case (Cons p m)
  obtain k' v' where p: "p = (k', v')" by (cases p)
  have "map_of m k = None" if "k < k'"
    using that Cons.prems p by (auto simp: bm_ok_Cons map_of_eq_None_iff)
  then show ?case using Cons p by (auto simp: bm_ok_Cons)
qed simp

lemma bm_remove_length: "length (bm_remove k m) \<le> length m"
  by (simp add: bm_remove_def)

lemma finite_streams_of [simp]: "finite (streams_of s hub)"
proof -
  have "streams_of s hub \<subseteq> dom (map_of (hb_streams hub))" by (auto simp: streams_of_def hub_member_def split: Option.bind_splits)
  then show ?thesis by (rule finite_subset) (rule finite_dom_map_of)
qed

subsection \<open>Leaving\<close>

lemma leave_absent: "hub_member s st hub = None \<Longrightarrow> leave s st hub = (hub, [])"
  by (auto simp: leave_def hub_member_def split: option.splits)

lemma leave_present:
  assumes "hub_ok hub" "map_of (hb_streams hub) st = Some m" "map_of m s = Some v"
  defines "m' \<equiv> bm_remove s m" and "hub' \<equiv> fst (leave s st hub)"
  shows "hb_subs hub' = hb_subs hub" "hb_collection hub' = hb_collection hub"
    "map_of (hb_streams hub') = (map_of (hb_streams hub))(st := if m' = [] then None else Some m')"
    "bm_ok (hb_streams hub')" "length (hb_streams hub') \<le> length (hb_streams hub)"
    "bm_ok (hb_joined hub')"
    "map_of (hb_joined hub') = (map_of (hb_joined hub))(s := if card (streams_of s hub) = 1 then None else Some (card (streams_of s hub) - 1))"
proof -
  have ok: "bm_ok (hb_streams hub)" "bm_ok (hb_joined hub)" using assms(1) by (simp_all add: hub_ok_def)
  have "hub_member s st hub = Some v" using assms(2,3) by (simp add: hub_member_def)
  then have ne: "streams_of s hub \<noteq> {}" by (auto simp: streams_of_def)
  then have j: "map_of (hb_joined hub) s = Some (card (streams_of s hub))" using assms(1) by (simp add: hub_ok_def)
  obtain n where n: "card (streams_of s hub) = Suc n" using ne by (metis card_0_eq finite_streams_of old.nat.exhaust)
  have len: "length (bm_insert st (bm_remove s m) (hb_streams hub)) = length (hb_streams hub)" using bm_insert_length [OF ok(1)] assms(2) by simp
  note unf = hub'_def m'_def leave_def assms(2,3) j
  show "hb_subs hub' = hb_subs hub" "hb_collection hub' = hb_collection hub" by (simp_all add: unf Let_def)
  show "map_of (hb_streams hub') = (map_of (hb_streams hub))(st := if m' = [] then None else Some m')"
    using ok by (auto simp: unf Let_def)
  show "bm_ok (hb_streams hub')" using ok by (simp add: unf Let_def)
  show "length (hb_streams hub') \<le> length (hb_streams hub)"
    using len bm_remove_length [of st "bm_insert st (bm_remove s m) (hb_streams hub)"] by (simp add: unf Let_def)
  show "bm_ok (hb_joined hub')" using ok by (simp add: unf Let_def)
  show "map_of (hb_joined hub') = (map_of (hb_joined hub))(s := if card (streams_of s hub) = 1 then None else Some (card (streams_of s hub) - 1))"
    using ok by (auto simp: unf Let_def n)
qed

lemma leave_member:
  assumes "hub_ok hub"
  shows "hub_member s' st' (fst (leave s st hub)) = (if s' = s \<and> st' = st then None else hub_member s' st' hub)"
proof (cases "hub_member s st hub")
  case None
  then show ?thesis by (auto simp: leave_absent)
next
  case (Some v)
  then obtain m where m: "map_of (hb_streams hub) st = Some m" "map_of m s = Some v" by (auto simp: hub_member_def split: Option.bind_splits)
  have "map_of (bm_remove s m) s' = None" if "bm_remove s m = []" using that by simp
  then have "map_of m s' = None" if "bm_remove s m = []" "s' \<noteq> s" using that bm_remove_lookup [of s m] by (simp add: fun_eq_iff) metis
  then show ?thesis using leave_present(3) [OF assms m] m by (auto simp: hub_member_def)
qed

lemma streams_of_leave:
  "hub_ok hub \<Longrightarrow> streams_of s' (fst (leave s st hub)) = (if s' = s then streams_of s hub - {st} else streams_of s' hub)"
  by (auto simp: streams_of_def leave_member)

lemma leave_ok:
  assumes "hub_ok hub"
  shows "hub_ok (fst (leave s st hub))"
proof (cases "hub_member s st hub")
  case None
  then show ?thesis using assms by (simp add: leave_absent)
next
  case (Some v)
  then obtain m where m: "map_of (hb_streams hub) st = Some m" "map_of m s = Some v" by (auto simp: hub_member_def split: Option.bind_splits)
  note L = leave_present [OF assms m]
  have st: "st \<in> streams_of s hub" using Some by (simp add: streams_of_def)
  have sess: "sessions_ok (bm_remove s m)" if "bm_remove s m \<noteq> []"
  proof -
    have "sessions_ok m" using assms m(1) by (simp add: hub_ok_def)
    then show ?thesis using that le_trans [OF bm_remove_length, of m EPH_MAX_SESSIONS s] by (auto simp: sessions_ok_def)
  qed
  have card: "card (streams_of s hub - {st}) = card (streams_of s hub) - 1" using st by simp
  have one: "card (streams_of s hub) = 1 \<longleftrightarrow> streams_of s hub - {st} = {}" using st by (auto simp: card_1_singleton_iff)
  have joined: "map_of (hb_joined (fst (leave s st hub))) s' = (if streams_of s' (fst (leave s st hub)) = {} then None
      else Some (card (streams_of s' (fst (leave s st hub)))))" for s'
    using assms one card unfolding L(7) streams_of_leave [OF assms] by (auto simp: hub_ok_def)
  have "card (streams_of s' (fst (leave s st hub))) \<le> EPH_MAX_STREAMS_PER_CONN" for s'
    using assms card_mono [of "streams_of s hub" "streams_of s hub - {st}"]
    unfolding streams_of_leave [OF assms] by (auto simp: hub_ok_def intro: le_trans)
  moreover have "sessions_ok m'" if "map_of (hb_streams (fst (leave s st hub))) st' = Some m'" for st' m'
    using that assms sess unfolding L(3) by (auto simp: hub_ok_def split: if_splits)
  ultimately show ?thesis using assms L(1,4,5,6) joined by (simp add: hub_ok_def)
qed

lemma leave_subs: "hub_ok hub \<Longrightarrow> hb_subs (fst (leave s st hub)) = hb_subs hub \<and> hb_collection (fst (leave s st hub)) = hb_collection hub"
proof (cases "hub_member s st hub")
  case (Some v)
  assume ok: "hub_ok hub"
  from Some obtain m where "map_of (hb_streams hub) st = Some m" "map_of m s = Some v" by (auto simp: hub_member_def split: Option.bind_splits)
  then show ?thesis using leave_present [OF ok] by blast
qed (simp add: leave_absent)

lemma leave_all_Cons: "fst (leave_all ((s, st) # ps) hub) = fst (leave_all ps (fst (leave s st hub)))"
  "snd (leave_all ((s, st) # ps) hub) = snd (leave s st hub) @ snd (leave_all ps (fst (leave s st hub)))"
  by (simp_all add: split_beta Let_def)

lemma leave_all_ok:
  assumes "hub_ok hub"
  shows "hub_ok (fst (leave_all ps hub)) \<and> hb_subs (fst (leave_all ps hub)) = hb_subs hub
    \<and> hb_collection (fst (leave_all ps hub)) = hb_collection hub
    \<and> (\<forall>s st. hub_member s st (fst (leave_all ps hub)) = (if (s, st) \<in> set ps then None else hub_member s st hub))"
  using assms
proof (induction ps arbitrary: hub)
  case (Cons p ps)
  obtain s st where p: "p = (s, st)" by (cases p)
  show ?case
    using Cons.IH [OF leave_ok [OF Cons.prems, of s st]] leave_subs [OF Cons.prems, of s st] leave_member [OF Cons.prems, of _ _ s st]
    unfolding p leave_all_Cons by auto
qed simp

text \<open>The pushes of a session that leaves are events, all of the ephemeral class.\<close>

definition ephemeral_only :: "Push list \<Rightarrow> bool" where
  "ephemeral_only out \<longleftrightarrow> (\<forall>p \<in> set out. pu_class p = Ephemeral_class \<and> lp_kind (pu_push p) = ascii ''stream_event'')"

lemma stream_event_ephemeral: "ephemeral_only (stream_event hub st d ev s)"
  by (auto simp: ephemeral_only_def stream_event_def hub_push_def split: option.split)

lemma ephemeral_append [simp]: "ephemeral_only (xs @ ys) \<longleftrightarrow> ephemeral_only xs \<and> ephemeral_only ys"
  by (auto simp: ephemeral_only_def)

lemma ephemeral_Nil [simp]: "ephemeral_only []"
  by (simp add: ephemeral_only_def)

lemma leave_ephemeral: "ephemeral_only (snd (leave s st hub))"
  by (auto simp: leave_def Let_def stream_event_ephemeral split: option.split)

lemma leave_all_ephemeral: "ephemeral_only (snd (leave_all ps hub))"
proof (induction ps arbitrary: hub)
  case (Cons p ps)
  then show ?case by (cases p) (simp only: leave_all_Cons ephemeral_append leave_ephemeral)
qed simp

lemma expire_ok:
  assumes "hub_ok hub"
  shows "hub_ok (fst (expire now hub))" "hb_subs (fst (expire now hub)) = hb_subs hub" "hb_collection (fst (expire now hub)) = hb_collection hub"
    "hub_member s st (fst (expire now hub)) = (case hub_member s st hub of None \<Rightarrow> None
      | Some v \<Rightarrow> if EPH_IDLE_MS <s now - mb_last_active v then None else Some v)"
    "ephemeral_only (snd (expire now hub))"
proof -
  let ?ps = "concat (map (\<lambda>(st, m). map (\<lambda>(s, _). (s, st)) (filter (\<lambda>(_, v). EPH_IDLE_MS <s now - mb_last_active v) m)) (hb_streams hub))"
  note L = leave_all_ok [OF assms, of ?ps]
  show "hub_ok (fst (expire now hub))" "hb_subs (fst (expire now hub)) = hb_subs hub" "hb_collection (fst (expire now hub)) = hb_collection hub"
    using L by (simp_all add: expire_def)
  show "ephemeral_only (snd (expire now hub))" by (simp add: expire_def leave_all_ephemeral)
  have ok: "bm_ok (hb_streams hub)" "\<And>st m. map_of (hb_streams hub) st = Some m \<Longrightarrow> bm_ok m"
    using assms by (auto simp: hub_ok_def sessions_ok_def)
  have "(s, st) \<in> set ?ps \<longleftrightarrow> (\<exists>v. hub_member s st hub = Some v \<and> EPH_IDLE_MS <s now - mb_last_active v)"
  proof -
    have "(s, st) \<in> set ?ps \<longleftrightarrow> (\<exists>m v. (st, m) \<in> set (hb_streams hub) \<and> (s, v) \<in> set m \<and> EPH_IDLE_MS <s now - mb_last_active v)" by force
    also have "\<dots> \<longleftrightarrow> (\<exists>m v. map_of (hb_streams hub) st = Some m \<and> map_of m s = Some v \<and> EPH_IDLE_MS <s now - mb_last_active v)"
      using bm_lookup_mem [OF ok(1)] bm_lookup_mem [OF ok(2)] by metis
    finally show ?thesis by (auto simp: hub_member_def split: Option.bind_splits)
  qed
  then show "hub_member s st (fst (expire now hub)) = (case hub_member s st hub of None \<Rightarrow> None
      | Some v \<Rightarrow> if EPH_IDLE_MS <s now - mb_last_active v then None else Some v)"
    using L by (auto simp: expire_def split: option.split)
qed

lemma hub_ok_subs: "hub_ok hub \<Longrightarrow> bm_ok subs \<Longrightarrow> hub_ok (hub\<lparr>hb_subs := subs\<rparr>)"
  by (simp add: hub_ok_def streams_of_def hub_member_def)

lemma hub_member_subs [simp]: "hub_member s st (hub\<lparr>hb_subs := subs\<rparr>) = hub_member s st hub"
  "hub_member s st (hub\<lparr>hb_joined := js\<rparr>) = hub_member s st hub"
  by (simp_all add: hub_member_def)

lemma disconnect_ok:
  assumes "hub_ok hub"
  shows "hub_ok (fst (disconnect s hub))" "hb_subs (fst (disconnect s hub)) = bm_remove s (hb_subs hub)"
    "hb_collection (fst (disconnect s hub)) = hb_collection hub"
    "hub_member s' st (fst (disconnect s hub)) = (if s' = s then None else hub_member s' st hub)"
    "ephemeral_only (snd (disconnect s hub))"
proof -
  define h0 where "h0 = hub\<lparr>hb_subs := bm_remove s (hb_subs hub)\<rparr>"
  define ps where "ps = map (\<lambda>st. (s, st)) (map fst (filter (\<lambda>(_, m). bm_mem s m) (hb_streams hub)))"
  have ok0: "hub_ok h0" unfolding h0_def using assms by (intro hub_ok_subs) (auto simp: hub_ok_def)
  note L = leave_all_ok [OF ok0, of ps]
  have eq: "disconnect s hub = (let (hub, out) = leave_all ps h0 in (hub\<lparr>hb_joined := bm_remove s (hb_joined hub)\<rparr>, out))"
    by (simp add: disconnect_def h0_def ps_def Let_def)
  then have res: "fst (disconnect s hub) = (fst (leave_all ps h0))\<lparr>hb_joined := bm_remove s (hb_joined (fst (leave_all ps h0)))\<rparr>"
    "snd (disconnect s hub) = snd (leave_all ps h0)" by (simp_all add: split_beta Let_def)
  have in_ps: "(s', st) \<in> set ps \<longleftrightarrow> s' = s \<and> hub_member s st hub \<noteq> None" for s' st
  proof -
    have "bm_ok (hb_streams hub)" using assms by (simp add: hub_ok_def)
    note lk = bm_lookup_mem [OF this, of st, symmetric]
    have "(s', st) \<in> set ps \<longleftrightarrow> s' = s \<and> (\<exists>m. (st, m) \<in> set (hb_streams hub) \<and> bm_mem s m)" by (auto simp: ps_def intro: rev_image_eqI)
    also have "\<dots> \<longleftrightarrow> s' = s \<and> (\<exists>m. map_of (hb_streams hub) st = Some m \<and> bm_mem s m)" unfolding lk by (rule refl)
    finally show ?thesis unfolding hub_member_def by (cases "map_of (hb_streams hub) st") simp_all
  qed
  show mem: "hub_member s' st (fst (disconnect s hub)) = (if s' = s then None else hub_member s' st hub)" for s' st
    using L in_ps [of s' st] by (auto simp: res h0_def)
  have "streams_of s (fst (leave_all ps h0)) = {}" using mem [of s] by (auto simp: streams_of_def res)
  then have "map_of (hb_joined (fst (leave_all ps h0))) s = None" using L by (simp add: hub_ok_def)
  moreover have "bm_ok (hb_joined (fst (leave_all ps h0)))" using L by (simp add: hub_ok_def)
  ultimately have "bm_remove s (hb_joined (fst (leave_all ps h0))) = hb_joined (fst (leave_all ps h0))"
    by (intro bm_ext) auto
  then show "hub_ok (fst (disconnect s hub))" using L by (simp add: res)
  show "hb_subs (fst (disconnect s hub)) = bm_remove s (hb_subs hub)" "hb_collection (fst (disconnect s hub)) = hb_collection hub"
    using L by (simp_all add: res h0_def)
  show "ephemeral_only (snd (disconnect s hub))" by (simp add: res leave_all_ephemeral)
qed

lemma disconnect_all_Cons: "fst (disconnect_all (s # ss) hub) = fst (disconnect_all ss (fst (disconnect s hub)))"
  "snd (disconnect_all (s # ss) hub) = snd (disconnect s hub) @ snd (disconnect_all ss (fst (disconnect s hub)))"
  by (simp_all add: split_beta Let_def)

lemma disconnect_all_ok:
  assumes "hub_ok hub"
  shows "hub_ok (fst (disconnect_all ss hub))
    \<and> map_of (hb_subs (fst (disconnect_all ss hub))) = (\<lambda>s. if s \<in> set ss then None else map_of (hb_subs hub) s)
    \<and> hb_collection (fst (disconnect_all ss hub)) = hb_collection hub
    \<and> (\<forall>s st. hub_member s st (fst (disconnect_all ss hub)) = (if s \<in> set ss then None else hub_member s st hub))
    \<and> ephemeral_only (snd (disconnect_all ss hub))"
  using assms
proof (induction ss arbitrary: hub)
  case (Cons s ss)
  note D = disconnect_ok [OF Cons.prems]
  show ?case
    using Cons.IH [OF D(1), of s] D(2,3) [of s] D(4) [of _ _ s] D(5) [of s]
    unfolding disconnect_all_Cons by (auto simp: fun_eq_iff)
qed simp

subsection \<open>Commits\<close>

definition sub_revoked :: "b16 list \<Rightarrow> Sub \<Rightarrow> bool" where
  "sub_revoked devices sub \<longleftrightarrow> (\<exists>d \<in> set devices. sb_device sub = Some d)"

definition member_revoked :: "b16 list \<Rightarrow> SessionId \<Rightarrow> Hub \<Rightarrow> bool" where
  "member_revoked devices s hub \<longleftrightarrow> (\<exists>st v. hub_member s st hub = Some v \<and> mb_device v \<in> set devices)"

text \<open>The pushes about the log that a session is sent.\<close>

definition log_pushes :: "SessionId \<Rightarrow> Push list \<Rightarrow> Push list" where
  "log_pushes s out = filter (\<lambda>p. pu_to p = s \<and> pu_class p \<noteq> Ephemeral_class) out"

lemma log_pushes_ephemeral [simp]: "ephemeral_only out \<Longrightarrow> log_pushes s out = []"
  by (auto simp: log_pushes_def ephemeral_only_def filter_empty_conv)

lemma log_pushes_append [simp]: "log_pushes s (xs @ ys) = log_pushes s xs @ log_pushes s ys"
  by (simp add: log_pushes_def)

lemma closed_to_simps [simp]: "pu_to (closed_to c r s) = s" "pu_class (closed_to c r s) = State"
  by (simp_all add: closed_to_def)

lemma commit_push_simps [simp]: "pu_to (commit_push n items p) = fst p" "pu_class (commit_push n items p) \<noteq> Ephemeral_class"
  by (simp_all add: commit_push_def split_beta Let_def)

lemma log_pushes_each:
  assumes "bm_ok m" "\<And>p. pu_to (f p) = fst p \<and> pu_class (f p) \<noteq> Ephemeral_class"
  shows "log_pushes s (map f m) = (case map_of m s of None \<Rightarrow> [] | Some v \<Rightarrow> [f (s, v)])"
  using assms(1)
proof (induction m)
  case (Cons p m)
  obtain k v where p: "p = (k, v)" by (cases p)
  have ok: "\<forall>x \<in> fst ` set m. k < x" "bm_ok m" using Cons.prems by (simp_all add: p bm_ok_Cons)
  have "log_pushes k (map f m) = []" using ok(1) assms(2) by (fastforce simp: log_pushes_def filter_empty_conv)
  then show ?case using Cons.IH [OF ok(2)] assms(2) [of p] by (auto simp: log_pushes_def p)
qed (simp add: log_pushes_def)

lemma fold_remove_lookup: "map_of (fold bm_remove ks m) = (\<lambda>k. if k \<in> set ks then None else map_of m k)"
  by (induction ks arbitrary: m) (auto simp: fun_eq_iff)

lemma fold_remove_ok: "bm_ok m \<Longrightarrow> bm_ok (fold bm_remove ks m)"
  by (induction ks arbitrary: m) auto

lemma close_devices_ok:
  fixes devices :: "b16 list" and reason :: string
  assumes "hub_ok hub"
  defines "hub' \<equiv> fst (close_devices devices reason hub)"
  shows "hub_ok hub'" "hb_collection hub' = hb_collection hub"
    "map_of (hb_subs hub') s = (case map_of (hb_subs hub) s of None \<Rightarrow> None
      | Some sub \<Rightarrow> if sub_revoked devices sub \<or> member_revoked devices s hub then None else Some sub)"
    "log_pushes s (snd (close_devices devices reason hub)) = (case map_of (hb_subs hub) s of None \<Rightarrow> []
      | Some sub \<Rightarrow> if sub_revoked devices sub then [closed_to (hb_collection hub) reason s] else [])"
    "hub_member s st hub' = (if member_revoked devices s hub then None else hub_member s st hub)"
    "p \<in> set (snd (close_devices devices reason hub)) \<Longrightarrow> pu_class p = Ephemeral_class \<Longrightarrow>
      lp_kind (pu_push p) = ascii ''stream_event'' \<and> devices \<noteq> []"
proof -
  let ?P = "\<lambda>s. case sb_device s of Some d \<Rightarrow> d \<in> set devices | None \<Rightarrow> False"
  define hits where "hits = filter (\<lambda>(_, s). ?P s) (hb_subs hub)"
  define h0 where "h0 = hub\<lparr>hb_subs := fold bm_remove (map fst hits) (hb_subs hub)\<rparr>"
  define mems where "mems = concat (map (\<lambda>(_, m). map fst (filter (\<lambda>(_, v). mb_device v \<in> set devices) m)) (hb_streams hub))"
  have subs: "bm_ok (hb_subs hub)" and streams: "bm_ok (hb_streams hub)" "\<And>st m. map_of (hb_streams hub) st = Some m \<Longrightarrow> bm_ok m"
    using assms(1) by (auto simp: hub_ok_def sessions_ok_def)
  have ok0: "hub_ok h0" unfolding h0_def using assms(1) fold_remove_ok [OF subs] by (intro hub_ok_subs)
  note D = disconnect_all_ok [OF ok0, of mems]
  have P: "?P sub \<longleftrightarrow> sub_revoked devices sub" for sub by (auto simp: sub_revoked_def split: option.split)
  have hits: "bm_ok hits" "map_of hits s = (case map_of (hb_subs hub) s of Some sub \<Rightarrow> if sub_revoked devices sub then Some sub else None | None \<Rightarrow> None)" for s
    using subs by (simp_all add: hits_def bm_filter_lookup P split: option.split)
  have hit: "s \<in> set (map fst hits) \<longleftrightarrow> (\<exists>sub. map_of (hb_subs hub) s = Some sub \<and> sub_revoked devices sub)" for s
  proof -
    have "s \<in> set (map fst hits) \<longleftrightarrow> map_of hits s \<noteq> None" by (simp add: map_of_eq_None_iff)
    then show ?thesis using hits(2) [of s] by (auto split: option.splits if_splits)
  qed
  have mems: "s \<in> set mems \<longleftrightarrow> member_revoked devices s hub" for s
  proof -
    have "s \<in> set mems \<longleftrightarrow> (\<exists>st m v. (st, m) \<in> set (hb_streams hub) \<and> (s, v) \<in> set m \<and> mb_device v \<in> set devices)"
      by (force simp: mems_def)
    also have "\<dots> \<longleftrightarrow> (\<exists>st m v. map_of (hb_streams hub) st = Some m \<and> map_of m s = Some v \<and> mb_device v \<in> set devices)"
      using bm_lookup_mem [OF streams(1)] bm_lookup_mem [OF streams(2)] by metis
    finally show ?thesis by (auto simp: member_revoked_def hub_member_def split: Option.bind_splits)
  qed
  have eq: "close_devices devices reason hub = (if devices = [] then (hub, [])
      else (fst (disconnect_all mems h0), map (closed_to (hb_collection hub) reason) (map fst hits) @ snd (disconnect_all mems h0)))"
    by (simp add: close_devices_def h0_def hits_def mems_def Let_def split_beta)
  have none: "\<not> sub_revoked [] sub" "\<not> member_revoked [] s hub" for sub s by (simp_all add: sub_revoked_def member_revoked_def)
  show "hub_ok hub'" "hb_collection hub' = hb_collection hub" using D assms(1) by (auto simp: hub'_def eq h0_def)
  show "map_of (hb_subs hub') s = (case map_of (hb_subs hub) s of None \<Rightarrow> None
      | Some sub \<Rightarrow> if sub_revoked devices sub \<or> member_revoked devices s hub then None else Some sub)"
    using D hit [of s] mems [of s] none by (auto simp: hub'_def eq h0_def fold_remove_lookup split: option.split)
  show "hub_member s st hub' = (if member_revoked devices s hub then None else hub_member s st hub)"
    using D mems [of s] none by (auto simp: hub'_def eq h0_def)
  show "lp_kind (pu_push p) = ascii ''stream_event'' \<and> devices \<noteq> []"
    if "p \<in> set (snd (close_devices devices reason hub))" "pu_class p = Ephemeral_class"
  proof -
    have "ephemeral_only (snd (disconnect_all mems h0))" using D by blast
    then show ?thesis using that by (auto simp: eq ephemeral_only_def split: if_splits)
  qed
  have "map (closed_to (hb_collection hub) reason) (map fst hits) = map (\<lambda>p. closed_to (hb_collection hub) reason (fst p)) hits" by simp
  moreover have "log_pushes s (map (\<lambda>p. closed_to (hb_collection hub) reason (fst p)) hits)
      = (case map_of hits s of None \<Rightarrow> [] | Some v \<Rightarrow> [closed_to (hb_collection hub) reason s])"
    by (subst log_pushes_each [OF hits(1)]) (simp_all cong: option.case_cong)
  ultimately show "log_pushes s (snd (close_devices devices reason hub)) = (case map_of (hb_subs hub) s of None \<Rightarrow> []
      | Some sub \<Rightarrow> if sub_revoked devices sub then [closed_to (hb_collection hub) reason s] else [])"
    using D none by (auto simp: eq hits(2) comp_def log_pushes_def [of _ "[]"] split: option.split)
qed

text \<open>The pushes of a commit and the hub after it; a session is revoked when its subscription or one
  of its stream memberships is of a revoked device.\<close>

lemma commit_pushes:
  assumes "hub_ok hub" "\<not> cn_gone n" "on_commit n items hub = (hub', out)"
  shows "log_pushes s out = (case map_of (hb_subs hub) s of
      None \<Rightarrow> []
    | Some sub \<Rightarrow>
        if sub_revoked (cn_revoked n) sub then [closed_to (hb_collection hub) ''forbidden'' s]
        else if member_revoked (cn_revoked n) s hub \<or> cn_first n = 0 then []
        else [commit_push n items (s, sub)])"
    "map_of (hb_subs hub') s = (case map_of (hb_subs hub) s of
        None \<Rightarrow> None
      | Some sub \<Rightarrow> if sub_revoked (cn_revoked n) sub \<or> member_revoked (cn_revoked n) s hub then None else Some sub)"
    "hub_member s st hub' = (if member_revoked (cn_revoked n) s hub then None else hub_member s st hub)"
    "p \<in> set out \<Longrightarrow> pu_class p = Ephemeral_class \<Longrightarrow> lp_kind (pu_push p) = ascii ''stream_event'' \<and> cn_revoked n \<noteq> []"
proof -
  note C = close_devices_ok [OF assms(1), where devices = "cn_revoked n" and reason = "''forbidden''"]
  let ?h = "fst (close_devices (cn_revoked n) ''forbidden'' hub)" and ?o = "snd (close_devices (cn_revoked n) ''forbidden'' hub)"
  have res: "hub' = ?h" "out = (if cn_first n = 0 then ?o else ?o @ map (commit_push n items) (hb_subs ?h))"
    using assms(2,3) by (auto simp: on_commit_def Let_def split_beta split: if_splits)
  have "bm_ok (hb_subs ?h)" using C(1) by (simp add: hub_ok_def)
  then have "log_pushes s (map (commit_push n items) (hb_subs ?h)) = (case map_of (hb_subs ?h) s of None \<Rightarrow> [] | Some v \<Rightarrow> [commit_push n items (s, v)])"
    by (rule log_pushes_each) simp
  then show "log_pushes s out = (case map_of (hb_subs hub) s of
      None \<Rightarrow> []
    | Some sub \<Rightarrow>
        if sub_revoked (cn_revoked n) sub then [closed_to (hb_collection hub) ''forbidden'' s]
        else if member_revoked (cn_revoked n) s hub \<or> cn_first n = 0 then []
        else [commit_push n items (s, sub)])"
    "map_of (hb_subs hub') s = (case map_of (hb_subs hub) s of
        None \<Rightarrow> None
      | Some sub \<Rightarrow> if sub_revoked (cn_revoked n) sub \<or> member_revoked (cn_revoked n) s hub then None else Some sub)"
    using C(3,4) [where s = s] by (auto simp: res split: option.split)
  show "hub_member s st hub' = (if member_revoked (cn_revoked n) s hub then None else hub_member s st hub)"
    using C(5) by (simp add: res)
  show "lp_kind (pu_push p) = ascii ''stream_event'' \<and> cn_revoked n \<noteq> []" if "p \<in> set out" "pu_class p = Ephemeral_class"
    using that C(6) by (auto simp: res split: if_splits)
qed

text \<open>C30. After a commit of items to a collection that is not deleted: a subscriber that the commit
  does not revoke gets exactly one push about the log, the items when they are the whole commit and
  fit its limit, the new head otherwise; a subscriber whose own device is revoked gets exactly the
  notice that it is closed; a subscriber that has joined a stream with a revoked device gets none.
  Revoked sessions are no subscribers and no members any more, all others are what they were, and
  whatever else is sent are stream events, and only by a commit that revokes.  A notice without
  items (\<open>first = 0\<close>) only revokes.\<close>

theorem commit_pushes_exact:
  assumes "hub_ok hub" "\<not> cn_gone n" "on_commit n items hub = (hub', out)"
  shows "log_pushes s out = (case map_of (hb_subs hub) s of
      None \<Rightarrow> []
    | Some sub \<Rightarrow>
        if sub_revoked (cn_revoked n) sub then [closed_to (hb_collection hub) ''forbidden'' s]
        else if member_revoked (cn_revoked n) s hub \<or> cn_first n = 0 then []
        else [commit_push n items (s, sub)])
    \<and> map_of (hb_subs hub') s = (case map_of (hb_subs hub) s of
        None \<Rightarrow> None
      | Some sub \<Rightarrow> if sub_revoked (cn_revoked n) sub \<or> member_revoked (cn_revoked n) s hub then None else Some sub)
    \<and> hub_member s st hub' = (if member_revoked (cn_revoked n) s hub then None else hub_member s st hub)
    \<and> (\<forall>p \<in> set out. pu_class p = Ephemeral_class \<longrightarrow> lp_kind (pu_push p) = ascii ''stream_event'' \<and> cn_revoked n \<noteq> [])"
  using commit_pushes [OF assms] by blast

text \<open>A deleted collection closes every subscription and empties the hub.\<close>

lemma close_gone_empty:
  assumes "hub_ok hub"
  shows "hub_ok (fst (close_gone hub))" "hb_subs (fst (close_gone hub)) = []" "hub_member s st (fst (close_gone hub)) = None"
proof -
  define h0 where "h0 = hub\<lparr>hb_subs := []\<rparr>"
  have ok0: "hub_ok h0" unfolding h0_def using assms by (intro hub_ok_subs) simp_all
  have res: "fst (close_gone hub) = fst (disconnect_all (bm_keys (hb_joined hub)) h0)"
    by (simp add: close_gone_def Let_def split_beta h0_def)
  note D = disconnect_all_ok [OF ok0, of "bm_keys (hb_joined hub)"]
  show "hub_ok (fst (close_gone hub))" using D by (simp add: res)
  have "map_of (hb_subs (fst (close_gone hub))) = Map.empty" using D by (simp add: res h0_def fun_eq_iff)
  then show "hb_subs (fst (close_gone hub)) = []" by simp
  have "hub_member s st hub = None" if "s \<notin> set (bm_keys (hb_joined hub))"
  proof -
    have "map_of (hb_joined hub) s = None" using that by (simp add: map_of_eq_None_iff)
    then have "streams_of s hub = {}" using assms by (simp add: hub_ok_def split: if_splits)
    then show ?thesis by (auto simp: streams_of_def)
  qed
  then show "hub_member s st (fst (close_gone hub)) = None" using D by (simp add: res h0_def)
qed

subsection \<open>Joining\<close>

definition stream_sessions :: "b16 \<Rightarrow> Hub \<Rightarrow> (SessionId, Member) bmap" where
  "stream_sessions st hub = (case map_of (hb_streams hub) st of Some m \<Rightarrow> m | None \<Rightarrow> [])"

definition put_member :: "SessionId \<Rightarrow> b16 \<Rightarrow> Member \<Rightarrow> Hub \<Rightarrow> Hub" where
  "put_member s st v hub = hub\<lparr>hb_streams := bm_insert st (bm_insert s v (stream_sessions st hub)) (hb_streams hub)\<rparr>"

lemma stream_sessions_ok: "hub_ok hub \<Longrightarrow> bm_ok (stream_sessions st hub)"
  by (auto simp: stream_sessions_def hub_ok_def sessions_ok_def split: option.split)

lemma hub_member_sessions: "hub_member s st hub = map_of (stream_sessions st hub) s"
  by (simp add: hub_member_def stream_sessions_def split: option.split)

lemma put_member_member:
  "hub_ok hub \<Longrightarrow> hub_member s' st' (put_member s st v hub) = (if s' = s \<and> st' = st then Some v else hub_member s' st' hub)"
  using stream_sessions_ok [of hub st] by (cases "map_of (hb_streams hub) st") (auto simp: put_member_def stream_sessions_def hub_member_def hub_ok_def)

lemma put_member_simps [simp]:
  "hb_subs (put_member s st v hub) = hb_subs hub" "hb_joined (put_member s st v hub) = hb_joined hub"
  "hub_ok hub \<Longrightarrow> bm_ok (hb_streams (put_member s st v hub))"
  by (simp_all add: put_member_def hub_ok_def)

lemma put_member_sessions:
  assumes "hub_ok hub" "member_ok v" "hub_member s st hub \<noteq> None \<or> length (stream_sessions st hub) < EPH_MAX_SESSIONS"
  shows "map_of (hb_streams (put_member s st v hub)) st' = Some m \<Longrightarrow> sessions_ok m"
proof -
  have m: "sessions_ok (bm_insert s v (stream_sessions st hub))"
  proof -
    have ne: "bm_insert s v (stream_sessions st hub) \<noteq> []" by (cases "stream_sessions st hub") (auto split: prod.splits if_splits)
    have len: "length (bm_insert s v (stream_sessions st hub)) \<le> EPH_MAX_SESSIONS"
    proof (cases "hub_member s st hub")
      case None
      then show ?thesis using assms(3) bm_insert_length [OF stream_sessions_ok [OF assms(1)]] by (simp add: hub_member_sessions)
    next
      case (Some w)
      then obtain m where "map_of (hb_streams hub) st = Some m" "stream_sessions st hub = m"
        by (auto simp: hub_member_def stream_sessions_def split: Option.bind_splits)
      then have "length (stream_sessions st hub) \<le> EPH_MAX_SESSIONS" using assms(1) by (auto simp: hub_ok_def sessions_ok_def)
      then show ?thesis using Some bm_insert_length [OF stream_sessions_ok [OF assms(1)]] by (simp add: hub_member_sessions)
    qed
    have "member_ok w" if "map_of (stream_sessions st hub) s' = Some w" for s' w
      using that assms(1) by (auto simp: stream_sessions_def hub_ok_def sessions_ok_def split: option.splits)
    then show ?thesis using ne len stream_sessions_ok [OF assms(1), of st] assms(2) by (auto simp: sessions_ok_def)
  qed
  show "map_of (hb_streams (put_member s st v hub)) st' = Some m \<Longrightarrow> sessions_ok m"
    using assms(1) m by (auto simp: put_member_def hub_ok_def split: if_splits)
qed

lemma put_member_ok_again:
  assumes "hub_ok hub" "member_ok v" "hub_member s st hub \<noteq> None"
  shows "hub_ok (put_member s st v hub)"
proof -
  have "streams_of s' (put_member s st v hub) = streams_of s' hub" for s'
    using assms(3) by (auto simp: streams_of_def put_member_member [OF assms(1)])
  moreover have "length (hb_streams (put_member s st v hub)) \<le> EPH_MAX_STREAMS"
    using assms(1,3) bm_insert_length [of "hb_streams hub" st] by (auto simp: put_member_def hub_ok_def hub_member_def split: Option.bind_splits)
  moreover have "sessions_ok m" if "map_of (hb_streams (put_member s st v hub)) st' = Some m" for st' m
    using put_member_sessions [OF assms(1,2) _ that] assms(3) by blast
  ultimately show ?thesis using assms(1) put_member_simps unfolding hub_ok_def by (simp only: simp_thms) blast
qed

lemma put_member_ok_new:
  assumes "hub_ok hub" "member_ok v" "hub_member s st hub = None" "join_refused s st hub = None"
  shows "hub_ok ((put_member s st v hub)\<lparr>hb_joined := bm_insert s ((case map_of (hb_joined hub) s of Some j \<Rightarrow> j | None \<Rightarrow> 0) + 1) (hb_joined hub)\<rparr>)"
    (is "hub_ok (?h\<lparr>hb_joined := ?js\<rparr>)")
proof -
  have room: "map_of (hb_streams hub) st = None \<Longrightarrow> length (hb_streams hub) < EPH_MAX_STREAMS"
    "length (stream_sessions st hub) < EPH_MAX_SESSIONS"
    "(case map_of (hb_joined hub) s of Some j \<Rightarrow> j | None \<Rightarrow> 0) < EPH_MAX_STREAMS_PER_CONN"
    using assms(4) by (auto simp: join_refused_def stream_sessions_def EPH_MAX_SESSIONS_def split: if_splits option.splits)
  have js: "(case map_of (hb_joined hub) s of Some j \<Rightarrow> j | None \<Rightarrow> 0) = card (streams_of s hub)"
    using assms(1) by (simp add: hub_ok_def)
  have streams: "streams_of s' (?h\<lparr>hb_joined := x\<rparr>) = (if s' = s then insert st (streams_of s hub) else streams_of s' hub)" for s' x
    by (auto simp: streams_of_def put_member_member [OF assms(1)])
  have new: "st \<notin> streams_of s hub" using assms(3) by (simp add: streams_of_def)
  have "length (hb_streams ?h) \<le> EPH_MAX_STREAMS"
    using assms(1) room(1) bm_insert_length [of "hb_streams hub" st] by (auto simp: put_member_def hub_ok_def)
  moreover have "sessions_ok m" if "map_of (hb_streams ?h) st' = Some m" for st' m
    using put_member_sessions [OF assms(1,2) _ that] room(2) by blast
  moreover have "bm_ok (hb_subs ?h)" "bm_ok (hb_streams ?h)" "bm_ok ?js" using assms(1) put_member_simps by (auto simp: hub_ok_def)
  moreover have "map_of ?js s' = (if streams_of s' (?h\<lparr>hb_joined := ?js\<rparr>) = {} then None else Some (card (streams_of s' (?h\<lparr>hb_joined := ?js\<rparr>))))" for s'
    using assms(1) new unfolding streams by (auto simp: hub_ok_def)
  moreover have "card (streams_of s' (?h\<lparr>hb_joined := ?js\<rparr>)) \<le> EPH_MAX_STREAMS_PER_CONN" for s'
    using assms(1) room(3) new unfolding streams by (auto simp: hub_ok_def split: if_splits)
  ultimately show ?thesis unfolding hub_ok_def by simp
qed

lemma join_ok:
  assumes "hub_ok hub"
  shows "hub_ok (fst (join s d st now hub))"
proof -
  let ?h = "fst (expire now hub)"
  define v where "v = \<lparr>mb_device = d, mb_last_active = now, mb_msgs_milli = EPH_RATE_MSGS * 1000, mb_bytes = EPH_RATE_BYTES, mb_at = now\<rparr>"
  have ok: "hub_ok ?h" and v: "member_ok v" using expire_ok(1) [OF assms] by (simp_all add: v_def member_ok_def)
  have old: "(case map_of (hb_streams ?h) st of Some m \<Rightarrow> m | None \<Rightarrow> []) = stream_sessions st ?h" by (simp add: stream_sessions_def)
  show ?thesis
  proof (cases "hub_member s st ?h")
    case None
    show ?thesis
    proof (cases "join_refused s st ?h")
      case None
      then show ?thesis
        using put_member_ok_new [OF ok v \<open>hub_member s st ?h = None\<close>] \<open>hub_member s st ?h = None\<close>
        by (simp add: join_def Let_def split_beta old hub_member_sessions put_member_def v_def)
    next
      case (Some e)
      then show ?thesis using None ok by (simp add: join_def Let_def split_beta old hub_member_sessions)
    qed
  next
    case (Some w)
    then show ?thesis
      using put_member_ok_again [OF ok v] by (simp add: join_def Let_def split_beta old hub_member_sessions put_member_def v_def)
  qed
qed

subsection \<open>Sending\<close>

lemma map_value_lookup: "map_of (map (\<lambda>(k, v). (k, f k v)) m) k = map_option (f k) (map_of m k)"
  by (induction m) auto

lemma replace_is_insert:
  assumes "bm_ok m" "map_of m s \<noteq> None"
  shows "map (\<lambda>(k, w). (k, if k = s then v else w)) m = bm_insert s v m"
proof (rule bm_ext)
  show "bm_ok (map (\<lambda>(k, w). (k, if k = s then v else w)) m)" "bm_ok (bm_insert s v m)" using assms(1) by simp_all
  show "map_of (map (\<lambda>(k, w). (k, if k = s then v else w)) m) = map_of (bm_insert s v m)"
    using assms by (auto simp: fun_eq_iff map_value_lookup [of "\<lambda>k w. if k = s then v else w"] option.map_ident)
qed

lemma set_is_put:
  assumes "hub_ok hub" "hub_member s st hub \<noteq> None"
  shows "set_member s st v hub = put_member s st v hub"
proof -
  obtain m where m: "map_of (hb_streams hub) st = Some m" "map_of m s \<noteq> None" using assms(2) by (auto simp: hub_member_def split: Option.bind_splits)
  have ok: "bm_ok (hb_streams hub)" "bm_ok m" using assms(1) m(1) by (auto simp: hub_ok_def sessions_ok_def)
  have "map (\<lambda>(k, w). (k, if k = st then map (\<lambda>(k, w). (k, if k = s then v else w)) w else w)) (hb_streams hub)
      = map (\<lambda>(k, w). (k, if k = st then bm_insert s v m else w)) (hb_streams hub)"
  proof (intro map_cong refl)
    fix p assume p: "p \<in> set (hb_streams hub)"
    obtain k w where kw: "p = (k, w)" by (cases p)
    have "w = m" if "k = st" using p kw that m(1) bm_lookup_mem [OF ok(1), of k w] by simp
    then show "(case p of (k, w) \<Rightarrow> (k, if k = st then map (\<lambda>(k, w). (k, if k = s then v else w)) w else w))
        = (case p of (k, w) \<Rightarrow> (k, if k = st then bm_insert s v m else w))"
      using replace_is_insert [OF ok(2) m(2)] kw by simp
  qed
  also have "\<dots> = bm_insert st (bm_insert s v m) (hb_streams hub)" using ok(1) m(1) by (intro replace_is_insert) simp_all
  finally show ?thesis using m(1) by (simp add: set_member_def put_member_def stream_sessions_def)
qed

lemma refill_ok: "member_ok (refill_member now m)"
  by (simp add: member_ok_def refill_member_def Let_def)

lemma spend_ok: "member_ok m \<Longrightarrow> \<not> mb_msgs_milli m < 1000 \<Longrightarrow> \<not> mb_bytes m < l \<Longrightarrow>
  member_ok (m\<lparr>mb_msgs_milli := mb_msgs_milli m - 1000, mb_bytes := mb_bytes m - l, mb_last_active := now\<rparr>)"
  using word_sub_le [of 1000 "mb_msgs_milli m"] word_sub_le [of l "mb_bytes m"]
  by (auto simp: member_ok_def not_less intro: order_trans)

text \<open>The branches of \<open>send_with_budget\<close>.\<close>

lemma send_cases:
  assumes "send_with_budget s st message now u hub = (hub', u', r)"
  obtains e where "hub' = hub" "r = Inl e"
  | e where "hub' = fst (expire now hub)" "r = Inl e"
  | e v where "hub_member s st (fst (expire now hub)) = Some v" "hub' = set_member s st (refill_member now v) (fst (expire now hub))" "r = Inl e"
  | it v m targets where "budget_wire item_from_cbor message u = (u', Inr it)" "check_shape it = Inr ()" "it_kind it = Ephemeral"
      "it_collection it = hb_collection (fst (expire now hub))" "it_stream it = Some st" "it_signer it = Some (mb_device v)"
      "length message \<le> EPH_MAX_MESSAGE"
      "hub_member s st (fst (expire now hub)) = Some v" "\<not> mb_msgs_milli (refill_member now v) < 1000" "\<not> mb_bytes (refill_member now v) < of_nat (length message)"
      "m = (refill_member now v)\<lparr>mb_msgs_milli := mb_msgs_milli (refill_member now v) - 1000,
         mb_bytes := mb_bytes (refill_member now v) - of_nat (length message), mb_last_active := now\<rparr>"
      "hub' = set_member s st m (fst (expire now hub))" "targets = filter (\<lambda>k. k \<noteq> s) (bm_keys (the (map_of (hb_streams hub') st)))"
      "r = Inr (of_nat (length targets), snd (expire now hub) @ map (stream_msg_to hub' st (mb_device v) message) targets)"
proof -
  let ?h = "fst (expire now hub)" and ?o = "snd (expire now hub)"
  have dev: "mb_device (refill_member now v) = mb_device v" for v by (simp add: refill_member_def Let_def)
  note run = assms [unfolded send_with_budget_def Let_def split_beta]
  show ?thesis
  proof (cases "EPH_MAX_MESSAGE < length message \<or> hub_member s st ?h = None")
    case True
    then show ?thesis using run that(1,2) by (cases "EPH_MAX_MESSAGE < length message") auto
  next
    case False
    then obtain v where v: "hub_member s st ?h = Some v" and len: "\<not> EPH_MAX_MESSAGE < length message" by auto
    obtain u1 res where wire: "budget_wire item_from_cbor message u = (u1, res)" by fastforce
    show ?thesis
    proof (cases res)
      case (Inl e)
      then show ?thesis using run len v wire that(2) by auto
    next
      case (Inr it)
      let ?bad = "check_shape it \<noteq> Inr () \<or> it_kind it \<noteq> Ephemeral \<or> it_collection it \<noteq> hb_collection ?h
        \<or> it_stream it \<noteq> Some st \<or> it_signer it \<noteq> Some (mb_device v)"
      let ?slow = "mb_msgs_milli (refill_member now v) < 1000 \<or> mb_bytes (refill_member now v) < of_nat (length message)"
      consider ?bad | "\<not> ?bad" ?slow | "\<not> ?bad" "\<not> ?slow" by blast
      then show ?thesis
      proof cases
        case 1
        then show ?thesis using run len v wire Inr that(2) by auto
      next
        case 2
        then show ?thesis using run len v wire Inr that(3) by auto
      next
        case 3
        define m where "m = (refill_member now v)\<lparr>mb_msgs_milli := mb_msgs_milli (refill_member now v) - 1000,
          mb_bytes := mb_bytes (refill_member now v) - of_nat (length message), mb_last_active := now\<rparr>"
        define h where "h = set_member s st m ?h"
        define targets where "targets = filter (\<lambda>k. k \<noteq> s) (bm_keys (the (map_of (hb_streams h) st)))"
        have dev': "mb_device m = mb_device v" by (simp add: m_def dev)
        have "(h, u1, Inr (of_nat (length targets), ?o @ map (stream_msg_to h st (mb_device m) message) targets)) = (hub', u', r)"
          unfolding h_def targets_def m_def using run len v wire Inr 3 by (auto simp: dev simp del: length_filter_map)
        then have eqs: "h = hub'" "u1 = u'" "r = Inr (of_nat (length targets), ?o @ map (stream_msg_to h st (mb_device v) message) targets)"
          by (auto simp: dev')
        have t: "targets = filter (\<lambda>k. k \<noteq> s) (bm_keys (the (map_of (hb_streams hub') st)))" unfolding targets_def eqs(1) ..
        show ?thesis using that(4) [OF _ _ _ _ _ _ _ v _ _ m_def _ t eqs(3) [unfolded eqs(1)]] 3 len wire Inr eqs(1,2) h_def by simp
      qed
    qed
  qed
qed

lemma send_ok:
  assumes "hub_ok hub"
  shows "hub_ok (fst (send_with_budget s st message now u hub))"
proof -
  obtain hub' u' r where run: "send_with_budget s st message now u hub = (hub', u', r)" by (metis prod_cases3)
  note ex = expire_ok(1) [OF assms, of now]
  have put: "hub_ok (set_member s st w (fst (expire now hub)))" if "hub_member s st (fst (expire now hub)) = Some v" "member_ok w" for v w
    using put_member_ok_again [OF ex that(2)] set_is_put [OF ex] that(1) by simp
  have "hub_ok hub'"
    using run
  proof (cases rule: send_cases)
    case (4 it v m targets)
    then show ?thesis using put spend_ok [OF refill_ok] by simp
  qed (use assms ex put refill_ok in simp_all)
  then show ?thesis by (simp add: run)
qed

subsection \<open>Reachable hubs\<close>

text \<open>Every hub the service can come to hold: any operations in any order, at any times.\<close>

inductive hub_reachable :: "b16 \<Rightarrow> Hub \<Rightarrow> bool" for c where
  new: "hub_reachable c (hub_new c)"
| subscribed: "hub_reachable c hub \<Longrightarrow> hub_reachable c (subscribe s device limit hub)"
| unsubscribed: "hub_reachable c hub \<Longrightarrow> hub_reachable c (unsubscribe s hub)"
| committed: "hub_reachable c hub \<Longrightarrow> hub_reachable c (fst (on_commit n items hub))"
| devices_closed: "hub_reachable c hub \<Longrightarrow> hub_reachable c (fst (close_devices devices reason hub))"
| joined: "hub_reachable c hub \<Longrightarrow> hub_reachable c (fst (join s d st now hub))"
| left: "hub_reachable c hub \<Longrightarrow> hub_reachable c (fst (leave s st hub))"
| sent: "hub_reachable c hub \<Longrightarrow> hub_reachable c (fst (send_with_budget s st message now u hub))"
| disconnected: "hub_reachable c hub \<Longrightarrow> hub_reachable c (fst (disconnect s hub))"
| expired: "hub_reachable c hub \<Longrightarrow> hub_reachable c (fst (expire now hub))"

lemma hub_new_ok: "hub_ok (hub_new c)"
  by (simp add: hub_ok_def hub_new_def streams_of_def hub_member_def)

lemma commit_ok: "hub_ok hub \<Longrightarrow> hub_ok (fst (on_commit n items hub))"
  using close_gone_empty(1) close_devices_ok(1) [where devices = "cn_revoked n" and reason = "''forbidden''"]
  by (simp add: on_commit_def Let_def split_beta)

lemma reachable_ok: "hub_reachable c hub \<Longrightarrow> hub_ok hub"
proof (induction rule: hub_reachable.induct)
  case (subscribed hub s device limit)
  then show ?case unfolding subscribe_def by (intro hub_ok_subs) (auto simp: hub_ok_def)
next
  case (unsubscribed hub s)
  then show ?case unfolding unsubscribe_def by (intro hub_ok_subs) (auto simp: hub_ok_def)
qed (simp_all add: hub_new_ok commit_ok close_devices_ok join_ok leave_ok send_ok disconnect_ok expire_ok)

text \<open>C31. In every reachable hub the limits hold (streams per collection, sessions per stream, streams per
  connection, the size of the token buckets), no stream is empty, and the number of streams recorded
  for a connection is exactly the number it has joined.\<close>

theorem hub_limits:
  assumes "hub_reachable c hub"
  shows "length (hb_streams hub) \<le> EPH_MAX_STREAMS
    \<and> (\<forall>(st, m) \<in> set (hb_streams hub). m \<noteq> [] \<and> length m \<le> EPH_MAX_SESSIONS
        \<and> (\<forall>(s, v) \<in> set m. mb_msgs_milli v \<le> EPH_RATE_MSGS * 1000 \<and> mb_bytes v \<le> EPH_RATE_BYTES))
    \<and> card (streams_of s hub) \<le> EPH_MAX_STREAMS_PER_CONN
    \<and> map_of (hb_joined hub) s = (if streams_of s hub = {} then None else Some (card (streams_of s hub)))"
proof -
  have ok: "hub_ok hub" using assms by (rule reachable_ok)
  have "sessions_ok m" if "(st, m) \<in> set (hb_streams hub)" for st m
    using ok that bm_lookup_mem [of "hb_streams hub" st m] by (simp add: hub_ok_def)
  then have "m \<noteq> [] \<and> length m \<le> EPH_MAX_SESSIONS \<and> (\<forall>(s, v) \<in> set m. member_ok v)" if "(st, m) \<in> set (hb_streams hub)" for st m
    using that bm_lookup_mem [of m] by (auto simp: sessions_ok_def)
  then have "\<forall>(st, m) \<in> set (hb_streams hub). m \<noteq> [] \<and> length m \<le> EPH_MAX_SESSIONS \<and> (\<forall>(s, v) \<in> set m. member_ok v)" by fast
  then show ?thesis using ok by (simp add: hub_ok_def member_ok_def)
qed

subsection \<open>Fan-out\<close>

lemma filter_targets:
  assumes "distinct ks" "\<And>k. pu_to (f k) = k \<and> P (f k)"
  shows "filter (\<lambda>p. pu_to p = t \<and> P p) (map f ks) = (if t \<in> set ks then [f t] else [])"
  using assms by (induction ks) auto

definition is_stream_msg :: "Push \<Rightarrow> bool" where
  "is_stream_msg p \<longleftrightarrow> lp_kind (pu_push p) = ascii ''stream_msg''"

lemma stream_event_is_no_msg: "ephemeral_only out \<Longrightarrow> filter (\<lambda>p. pu_to p = t \<and> is_stream_msg p) out = []"
  by (auto simp: ephemeral_only_def is_stream_msg_def filter_empty_conv ascii_def)

lemma put_member_sessions_of:
  "hub_ok hub \<Longrightarrow> map_of (hb_streams (put_member s st v hub)) st = Some (bm_insert s v (stream_sessions st hub))"
  by (simp add: put_member_def hub_ok_def)

text \<open>C32. A message is passed on only when the sender is a member of the stream that is not idle and the
  message decodes to an ephemeral envelope of this collection and stream that names the sender's
  device; then every other member that is not idle gets it exactly once, the sender never, nobody
  else, and the count returned is the number of those members.\<close>

theorem send_fan_out:
  assumes "hub_ok hub" "send_with_budget s st message now u hub = (hub', u', Inr (n, out))"
  shows "\<exists>v it. hub_member s st hub = Some v \<and> \<not> EPH_IDLE_MS <s now - mb_last_active v
    \<and> budget_wire item_from_cbor message u = (u', Inr it) \<and> it_kind it = Ephemeral \<and> it_signer it = Some (mb_device v)
    \<and> it_collection it = hb_collection hub \<and> it_stream it = Some st
    \<and> (\<forall>t. filter (\<lambda>p. pu_to p = t \<and> is_stream_msg p) out
          = (if t \<noteq> s \<and> (\<exists>w. hub_member t st hub = Some w \<and> \<not> EPH_IDLE_MS <s now - mb_last_active w)
             then [stream_msg_to hub st (mb_device v) message t] else []))
    \<and> unat n = card {t. t \<noteq> s \<and> (\<exists>w. hub_member t st hub = Some w \<and> \<not> EPH_IDLE_MS <s now - mb_last_active w)}"
  using assms(2)
proof (cases rule: send_cases)
  case (4 it v m targets)
  let ?h = "fst (expire now hub)"
  note ex = expire_ok [OF assms(1), where now = now]
  have v: "hub_member s st hub = Some v" "\<not> EPH_IDLE_MS <s now - mb_last_active v"
    using 4(8) ex(4) [of s st] by (auto split: option.splits if_splits)
  have hub': "hub' = put_member s st m ?h" using 4(8,12) set_is_put [OF ex(1)] by simp
  have ks: "targets = filter (\<lambda>k. k \<noteq> s) (bm_keys (bm_insert s m (stream_sessions st ?h)))"
    using 4(13) put_member_sessions_of [OF ex(1)] by (simp add: hub')
  have okm: "bm_ok (bm_insert s m (stream_sessions st ?h))" using stream_sessions_ok [OF ex(1)] by simp
  then have dist: "distinct targets" by (simp add: ks bm_ok_def strict_sorted_iff)
  have mem: "t \<in> set targets \<longleftrightarrow> t \<noteq> s \<and> (\<exists>w. hub_member t st hub = Some w \<and> \<not> EPH_IDLE_MS <s now - mb_last_active w)" for t
  proof -
    have "t \<in> set targets \<longleftrightarrow> t \<noteq> s \<and> map_of (bm_insert s m (stream_sessions st ?h)) t \<noteq> None" by (auto simp: ks map_of_eq_None_iff)
    also have "\<dots> \<longleftrightarrow> t \<noteq> s \<and> hub_member t st ?h \<noteq> None"
      using stream_sessions_ok [OF ex(1)] by (auto simp: hub_member_sessions)
    finally show ?thesis using ex(4) [of t st] by (auto split: option.splits if_splits)
  qed
  have "hb_collection hub' = hb_collection hub" using ex(3) by (simp add: hub' put_member_def)
  then have msg: "stream_msg_to hub' st (mb_device v) message = stream_msg_to hub st (mb_device v) message" by (simp add: stream_msg_to_def fun_eq_iff)
  have "pu_to (stream_msg_to hub st d message k) = k \<and> is_stream_msg (stream_msg_to hub st d message k)" for d k
    by (simp add: stream_msg_to_def is_stream_msg_def hub_push_def)
  note each = filter_targets [OF dist this]
  have len: "length targets \<le> EPH_MAX_SESSIONS"
  proof -
    have "sessions_ok (bm_insert s m (stream_sessions st ?h))"
      using send_ok [OF assms(1), of s st message now u] put_member_sessions_of [OF ex(1), of s st m]
      unfolding assms(2) hub' by (simp add: hub_ok_def)
    then have "length (bm_insert s m (stream_sessions st ?h)) \<le> EPH_MAX_SESSIONS" by (simp add: sessions_ok_def)
    then show ?thesis unfolding ks by (metis length_filter_le length_map le_trans)
  qed
  have "n = of_nat (length targets)" and out: "out = snd (expire now hub) @ map (stream_msg_to hub st (mb_device v) message) targets"
    using 4(14) by (simp_all add: msg)
  then have "unat n = length targets" using len by (simp add: unat_of_nat take_bit_eq_mod EPH_MAX_SESSIONS_def)
  also have "\<dots> = card (set targets)" using dist by (simp add: distinct_card)
  also have "set targets = {t. t \<noteq> s \<and> (\<exists>w. hub_member t st hub = Some w \<and> \<not> EPH_IDLE_MS <s now - mb_last_active w)}" using mem by blast
  finally show ?thesis using 4 v ex(3) each mem stream_event_is_no_msg [OF ex(5)] by (auto simp: out simp del: length_filter_map)
qed simp_all

subsection \<open>Two limits that are not kept\<close>

text \<open>Joining a stream again replaces the member: both of its buckets are full again, whatever the
  session has sent, so a session that joins before every message is not limited to 30 messages and
  256 KiB a second.\<close>

lemma rejoin_refills:
  assumes "hub_ok hub" "hub_member s st (fst (expire now hub)) = Some v"
  shows "\<exists>others out. snd (join s d st now hub) = Inr (others, out)
    \<and> hub_member s st (fst (join s d st now hub)) = Some \<lparr>mb_device = d, mb_last_active = now,
        mb_msgs_milli = EPH_RATE_MSGS * 1000, mb_bytes = EPH_RATE_BYTES, mb_at = now\<rparr>"
proof -
  let ?h = "fst (expire now hub)"
  have old: "(case map_of (hb_streams ?h) st of Some m \<Rightarrow> m | None \<Rightarrow> []) = stream_sessions st ?h" by (simp add: stream_sessions_def)
  show ?thesis using assms(2) put_member_member [OF expire_ok(1) [OF assms(1), of now], of s st s st]
    by (simp add: join_def Let_def split_beta old hub_member_sessions [of s st ?h] put_member_def)
qed

text \<open>A send that is refused because the sender has not joined has removed the idle sessions, and
  the events that tell the others of it are dropped: no later sweep at that time reports them.\<close>

lemma refused_send_loses_events:
  assumes "hub_ok hub" "length message \<le> EPH_MAX_MESSAGE" "hub_member s st (fst (expire now hub)) = None"
  shows "send_with_budget s st message now u hub = (fst (expire now hub), u, Inl (err_reason CodeForbidden ''not_joined''))
    \<and> snd (expire now (fst (expire now hub))) = []"
proof -
  let ?h = "fst (expire now hub)"
  let ?idle = "\<lambda>v. EPH_IDLE_MS <s now - mb_last_active v"
  note ex = expire_ok [OF assms(1), where now = now]
  have "filter (\<lambda>(_, v). ?idle v) m = []" if st': "(st', m) \<in> set (hb_streams ?h)" for st' m
  proof -
    have m: "map_of (hb_streams ?h) st' = Some m" "bm_ok m"
      using ex(1) st' bm_lookup_mem [of "hb_streams ?h" st' m] by (auto simp: hub_ok_def sessions_ok_def)
    have "\<not> ?idle v" if "(k, v) \<in> set m" for k v
    proof -
      have "hub_member k st' ?h = Some v" using that m bm_lookup_mem [OF m(2), of k v] by (simp add: hub_member_def)
      then show ?thesis using ex(4) [of k st'] by (auto split: option.splits if_splits)
    qed
    then show ?thesis by (auto simp: filter_empty_conv)
  qed
  then have "expire now ?h = leave_all [] ?h" unfolding expire_def by (intro arg_cong2 [where f = leave_all] refl) (auto simp del: leave_all.simps)
  then show ?thesis using assms(2,3) by (simp add: send_with_budget_def Let_def split_beta)
qed

subsection \<open>Witnesses\<close>

definition sample_hub :: Hub where
  "sample_hub = fst (join 2 8 4 0 (fst (join 1 9 4 0 (subscribe 3 (Some 8) None (subscribe 1 (Some 9) None (hub_new 1))))))"

definition sample_member :: "b16 \<Rightarrow> Member" where
  "sample_member d = \<lparr>mb_device = d, mb_last_active = 0, mb_msgs_milli = 30000, mb_bytes = 262144, mb_at = 0\<rparr>"

lemma sample_hub_eq: "sample_hub = \<lparr>hb_collection = 1,
    hb_subs = [(1, \<lparr>sb_device = Some 9, sb_inline_bytes = 65536\<rparr>), (3, \<lparr>sb_device = Some 8, sb_inline_bytes = 65536\<rparr>)],
    hb_streams = [(4, [(1, sample_member 9), (2, sample_member 8)])], hb_joined = [(1, 1), (2, 1)]\<rparr>"
  by code_simp

lemma sample_hub_members: "hub_member s st sample_hub =
    (if st = 4 then if s = 1 then Some (sample_member 9) else if s = 2 then Some (sample_member 8) else None else None)"
  by (simp add: sample_hub_eq hub_member_def)

lemma sample_hub_reachable: "hub_reachable 1 sample_hub"
  unfolding sample_hub_def by (intro hub_reachable.intros)

theorem hub_limits_witness:
  "length (hb_streams sample_hub) \<le> EPH_MAX_STREAMS \<and> card (streams_of 1 sample_hub) \<le> EPH_MAX_STREAMS_PER_CONN"
  using hub_limits [OF sample_hub_reachable, of 1] by simp

definition sample_notice :: CommitNotice where
  "sample_notice = \<lparr>cn_collection = 1, cn_first = 1, cn_head = 1, cn_head_chain = 0, cn_revoked = [8], cn_gone = False\<rparr>"

theorem commit_pushes_exact_witness:
  "\<exists>hub' out. on_commit sample_notice [(1, [7])] sample_hub = (hub', out)
    \<and> log_pushes 1 out = [commit_push sample_notice [(1, [7])] (1, \<lparr>sb_device = Some 9, sb_inline_bytes = 65536\<rparr>)]
    \<and> log_pushes 3 out = [closed_to 1 ''forbidden'' 3]"
proof -
  obtain hub' out where run: "on_commit sample_notice [(1, [7])] sample_hub = (hub', out)" by fastforce
  have "\<not> cn_gone sample_notice" by (simp add: sample_notice_def)
  note C = commit_pushes_exact [OF reachable_ok [OF sample_hub_reachable] this run]
  have "\<not> member_revoked [8] 1 sample_hub" by (simp add: member_revoked_def sample_hub_members sample_member_def)
  moreover have "\<not> sub_revoked [8] \<lparr>sb_device = Some 9, sb_inline_bytes = 65536\<rparr>" "sub_revoked [8] \<lparr>sb_device = Some 8, sb_inline_bytes = 65536\<rparr>"
    by (simp_all add: sub_revoked_def)
  moreover have "cn_revoked sample_notice = [8]" "cn_first sample_notice = 1" by (simp_all add: sample_notice_def)
  moreover have "map_of (hb_subs sample_hub) 1 = Some \<lparr>sb_device = Some 9, sb_inline_bytes = 65536\<rparr>"
    "map_of (hb_subs sample_hub) 3 = Some \<lparr>sb_device = Some 8, sb_inline_bytes = 65536\<rparr>" "hb_collection sample_hub = 1"
    by (simp_all add: sample_hub_eq)
  ultimately show ?thesis using run C [of 1] C [of 3] by simp
qed

definition ephemeral_item :: Item where
  "ephemeral_item = \<lparr>it_kind = Ephemeral, it_collection = 1, it_seq = None, it_prev = None, it_epoch = Some 0,
     it_signer = Some 9, it_salt = Some 2, it_idem = None, it_refs = None, it_stream = Some 4, it_body = [1], it_sig = None\<rparr>"

definition ephemeral_bytes :: bytes where
  "ephemeral_bytes = projr (item_to_bytes ephemeral_item)"

lemma ephemeral_bytes_eq: "item_to_bytes ephemeral_item = Inr ephemeral_bytes" "length ephemeral_bytes < 200"
  unfolding ephemeral_bytes_def by code_simp code_simp

lemma ephemeral_nodes: "cbor_nodes (item_to_cbor ephemeral_item) < 50"
  by code_simp

lemma ephemeral_shape: "item_rep ephemeral_item" "check_shape ephemeral_item = Inr ()"
  by (simp_all add: item_rep_def check_shape_def ephemeral_item_def)

lemma ephemeral_decodes: "\<exists>u'. budget_wire item_from_cbor ephemeral_bytes budget_default = (u', Inr ephemeral_item)"
proof -
  have "decode ephemeral_bytes = Inr (item_to_cbor ephemeral_item)"
    using cbor.round_trip [OF _ wire_item.to_rep [OF ephemeral_shape(1)]] ephemeral_bytes_eq(1) by (simp add: item_to_bytes_def to_bytes_def)
  then show ?thesis
    using budget_wire_steps [of ephemeral_bytes "item_to_cbor ephemeral_item" item_from_cbor ephemeral_item budget_default]
      item_from_to [OF ephemeral_shape(1)] ephemeral_bytes_eq(2) ephemeral_nodes
    by (auto simp: budget_default_def MAX_BYTES_def MAX_WORK_BYTES_def MAX_NODES_def)
qed

theorem send_fan_out_witness:
  "\<exists>hub' u' n out. send_with_budget 1 4 ephemeral_bytes 1 budget_default sample_hub = (hub', u', Inr (n, out))
    \<and> filter (\<lambda>p. pu_to p = 2 \<and> is_stream_msg p) out = [stream_msg_to sample_hub 4 9 ephemeral_bytes 2]"
proof -
  obtain u' where u': "budget_wire item_from_cbor ephemeral_bytes budget_default = (u', Inr ephemeral_item)" using ephemeral_decodes by blast
  have idle: "\<not> EPH_IDLE_MS <s (1 :: i64)" by (simp add: EPH_IDLE_MS_def word_sless_alt)
  note ok = reachable_ok [OF sample_hub_reachable]
  let ?h = "fst (expire 1 sample_hub)"
  have m: "hub_member 1 4 ?h = Some (sample_member 9)"
    using expire_ok(4) [OF ok, of 1 4 1] idle by (simp add: sample_hub_members) (simp add: sample_member_def)
  have c: "hb_collection ?h = 1" using expire_ok(3) [OF ok] by (simp add: sample_hub_eq)
  have r: "refill_member 1 (sample_member 9) = (sample_member 9)\<lparr>mb_at := 1\<rparr>" unfolding sample_member_def by code_simp
  have "unat (of_nat (length ephemeral_bytes) :: u64) < 200"
    using ephemeral_bytes_eq(2) by (simp add: unat_of_nat take_bit_eq_mod)
  then have l: "\<not> 262144 < (of_nat (length ephemeral_bytes) :: u64)" "\<not> EPH_MAX_MESSAGE < length ephemeral_bytes"
    using ephemeral_bytes_eq(2) by (simp_all add: word_less_nat_alt EPH_MAX_MESSAGE_def)
  have "\<exists>hub' n out. send_with_budget 1 4 ephemeral_bytes 1 budget_default sample_hub = (hub', u', Inr (n, out))"
    using u' m c l ephemeral_shape(2)
    by (simp add: send_with_budget_def Let_def split_beta r) (simp add: ephemeral_item_def sample_member_def)
  then obtain hub' n out where run: "send_with_budget 1 4 ephemeral_bytes 1 budget_default sample_hub = (hub', u', Inr (n, out))" by blast
  show ?thesis using send_fan_out [OF ok run] idle run by (auto simp: sample_hub_members) (auto simp: sample_member_def)
qed

end
