(* ===== verification/LogOutbox.thy ===== *)
theory LogOutbox
  imports LogFanout
begin

text \<open>
  \<open>log-service/src/outbox.rs\<close>: the bounded outbound queue of a connection, and what survives of a
  stream of pushes that goes through it.  \<open>usize\<close> counts are natural numbers; the subtractions from
  them never run below zero, which is part of \<open>outbox_ok\<close>.
\<close>

definition PUSH_QUEUE_BYTES :: nat where "PUSH_QUEUE_BYTES = unat MIB"
definition EPH_BUFFER_BYTES :: nat where "EPH_BUFFER_BYTES = 256 * 1024"

subsection \<open>The queue\<close>

record Queued =
  qd_bytes :: bytes
  qd_class :: "PushClass option"
  qd_collection :: "bytes option"

record Outbox =
  ob_q :: "Queued list"
  ob_log_bytes :: nat
  ob_eph_bytes :: nat
  ob_dropped :: u64

definition outbox_new :: Outbox where
  "outbox_new = \<lparr>ob_q = [], ob_log_bytes = 0, ob_eph_bytes = 0, ob_dropped = 0\<rparr>"

definition collection_of :: "LsPush \<Rightarrow> bytes option" where
  "collection_of p =
    (case lp_payload p of
       CMap m \<Rightarrow>
         (case find (\<lambda>(k, _). k = Uint 0) m of
            Some (_, CBytes b) \<Rightarrow> Some b
          | _ \<Rightarrow> None)
     | _ \<Rightarrow> None)"

definition frame_bytes :: "LsPush \<Rightarrow> CborError + bytes" where
  "frame_bytes p = to_bytes ls_frame_to_cbor (FrPush p)"

text \<open>\<open>None\<close> is the panic of the encoder on a frame that is no canonical value.\<close>

definition push_encode :: "LsPush \<Rightarrow> bytes option" where
  "push_encode p = (case frame_bytes p of Inr b \<Rightarrow> Some b | Inl _ \<Rightarrow> None)"

definition is_closed :: "bytes \<Rightarrow> bool" where
  "is_closed frame =
    (case snd (budget_wire ls_frame_from_cbor frame budget_default) of
       Inr (FrPush p) \<Rightarrow> lp_kind p = ascii ''closed''
     | _ \<Rightarrow> False)"

definition outbox_response :: "bytes \<Rightarrow> Outbox \<Rightarrow> Outbox" where
  "outbox_response frame ob = ob\<lparr>ob_q := ob_q ob @ [\<lparr>qd_bytes = frame, qd_class = None, qd_collection = None\<rparr>]\<rparr>"

definition is_eph :: "Queued \<Rightarrow> bool" where
  "is_eph e \<longleftrightarrow> qd_class e = Some Ephemeral_class"

definition is_log :: "Queued \<Rightarrow> bool" where
  "is_log e \<longleftrightarrow> qd_class e = Some Items \<or> qd_class e = Some State"

text \<open>The loop that drops the oldest ephemeral messages until \<open>n\<close> more bytes fit.\<close>

function make_room :: "nat \<Rightarrow> Outbox \<Rightarrow> Outbox" where
  "make_room n ob =
    (if EPH_BUFFER_BYTES < ob_eph_bytes ob + n then
       (case List.extract is_eph (ob_q ob) of
          None \<Rightarrow> ob
        | Some (before, e, after) \<Rightarrow>
            make_room n (ob\<lparr>ob_q := before @ after, ob_eph_bytes := ob_eph_bytes ob - length (qd_bytes e), ob_dropped := ob_dropped ob + 1\<rparr>))
     else ob)"
  by pat_completeness auto
termination
  by (relation "measure (\<lambda>(_, ob). length (ob_q ob))") (auto simp: extract_Some_iff)

declare make_room.simps [simp del]

text \<open>The queued log pushes of a collection that an overflow drops.\<close>

definition coalesced :: "bytes option \<Rightarrow> Queued \<Rightarrow> bool" where
  "coalesced col e \<longleftrightarrow> is_log e \<and> qd_collection e = col \<and> \<not> is_closed (qd_bytes e)"

definition outbox_push :: "Push \<Rightarrow> Outbox \<Rightarrow> Outbox option" where
  "outbox_push p ob =
    Option.bind (push_encode (pu_push p)) (\<lambda>b.
    let col = collection_of (pu_push p) in
    if pu_class p = Ephemeral_class then
      (let ob = make_room (length b) ob in
       Some (ob\<lparr>ob_q := ob_q ob @ [\<lparr>qd_bytes = b, qd_class = Some (pu_class p), qd_collection = col\<rparr>],
         ob_eph_bytes := ob_eph_bytes ob + length b\<rparr>))
    else if PUSH_QUEUE_BYTES < ob_log_bytes ob + length b then
      (let q = filter (\<lambda>e. \<not> coalesced col e) (ob_q ob);
           freed = sum_list (map (length \<circ> qd_bytes) (filter (coalesced col) (ob_q ob))) in
       Option.bind
         (case (pu_class p, pu_fallback p) of (Items, Some f) \<Rightarrow> push_encode f | _ \<Rightarrow> Some b) (\<lambda>hd_frame.
         Some \<lparr>ob_q = q @ [\<lparr>qd_bytes = hd_frame, qd_class = Some State, qd_collection = col\<rparr>],
           ob_log_bytes = ob_log_bytes ob - freed + length hd_frame, ob_eph_bytes = ob_eph_bytes ob,
           ob_dropped = ob_dropped ob + of_nat (length (ob_q ob) - length q)\<rparr>))
    else
      Some (ob\<lparr>ob_q := ob_q ob @ [\<lparr>qd_bytes = b, qd_class = Some (pu_class p), qd_collection = col\<rparr>],
        ob_log_bytes := ob_log_bytes ob + length b\<rparr>))"

definition outbox_pop :: "Outbox \<Rightarrow> Outbox \<times> bytes option" where
  "outbox_pop ob =
    (case ob_q ob of
       [] \<Rightarrow> (ob, None)
     | e # q \<Rightarrow>
         let ob = ob\<lparr>ob_q := q\<rparr> in
         (case qd_class e of
            Some Ephemeral_class \<Rightarrow> ob\<lparr>ob_eph_bytes := ob_eph_bytes ob - length (qd_bytes e)\<rparr>
          | Some _ \<Rightarrow> ob\<lparr>ob_log_bytes := ob_log_bytes ob - length (qd_bytes e)\<rparr>
          | None \<Rightarrow> ob, Some (qd_bytes e)))"

definition outbox_len :: "Outbox \<Rightarrow> nat" where
  "outbox_len ob = length (ob_q ob)"

definition outbox_is_empty :: "Outbox \<Rightarrow> bool" where
  "outbox_is_empty ob \<longleftrightarrow> ob_q ob = []"

subsection \<open>The counts are exact\<close>

definition bytes_in :: "(Queued \<Rightarrow> bool) \<Rightarrow> Queued list \<Rightarrow> nat" where
  "bytes_in P q = sum_list (map (length \<circ> qd_bytes) (filter P q))"

lemma bytes_in_simps [simp]:
  "bytes_in P [] = 0" "bytes_in P (e # q) = (if P e then length (qd_bytes e) else 0) + bytes_in P q"
  "bytes_in P (q @ q') = bytes_in P q + bytes_in P q'"
  by (simp_all add: bytes_in_def)

definition outbox_ok :: "Outbox \<Rightarrow> bool" where
  "outbox_ok ob \<longleftrightarrow> ob_log_bytes ob = bytes_in is_log (ob_q ob) \<and> ob_eph_bytes ob = bytes_in is_eph (ob_q ob)"

lemma is_log_simps [simp]:
  "is_log \<lparr>qd_bytes = b, qd_class = c, qd_collection = x\<rparr> \<longleftrightarrow> c = Some Items \<or> c = Some State"
  "is_eph \<lparr>qd_bytes = b, qd_class = c, qd_collection = x\<rparr> \<longleftrightarrow> c = Some Ephemeral_class"
  by (simp_all add: is_log_def is_eph_def)

lemma class_cases: "is_log e \<and> \<not> is_eph e \<and> qd_class e \<noteq> None \<or> is_eph e \<and> \<not> is_log e \<and> qd_class e \<noteq> None
    \<or> \<not> is_log e \<and> \<not> is_eph e \<and> qd_class e = None"
  by (cases "qd_class e"; cases "the (qd_class e)") (auto simp: is_log_def is_eph_def)

text \<open>What the loop leaves: everything but the oldest ephemeral messages, and room for the new one
  unless it is alone.\<close>

lemma make_room_spec:
  assumes "outbox_ok ob"
  shows "outbox_ok (make_room n ob) \<and> ob_log_bytes (make_room n ob) = ob_log_bytes ob
    \<and> filter (Not \<circ> is_eph) (ob_q (make_room n ob)) = filter (Not \<circ> is_eph) (ob_q ob)
    \<and> (\<exists>k. filter is_eph (ob_q (make_room n ob)) = drop k (filter is_eph (ob_q ob)))
    \<and> (ob_eph_bytes (make_room n ob) + n \<le> EPH_BUFFER_BYTES \<or> ob_eph_bytes (make_room n ob) = 0)"
  using assms
proof (induction n ob rule: make_room.induct)
  case (1 n ob)
  show ?case
  proof (cases "EPH_BUFFER_BYTES < ob_eph_bytes ob + n")
    case False
    then show ?thesis using 1(2) by (subst (1 2 3 4 5 6) make_room.simps) (auto intro: exI [of _ 0])
  next
    case over: True
    show ?thesis
    proof (cases "List.extract is_eph (ob_q ob)")
      case None
      then have none: "filter is_eph (ob_q ob) = []" by (auto simp: extract_None_iff filter_empty_conv)
      then have "bytes_in is_eph (ob_q ob) = 0" by (simp add: bytes_in_def)
      moreover have "make_room n ob = ob" using over None by (simp add: make_room.simps)
      ultimately show ?thesis using none 1(2) by (simp add: outbox_ok_def)
    next
      case some: (Some r)
      obtain before e after where "r = (before, e, after)" by (cases r)
      then have Some: "List.extract is_eph (ob_q ob) = Some (before, e, after)" using some by simp
      let ?ob = "ob\<lparr>ob_q := before @ after, ob_eph_bytes := ob_eph_bytes ob - length (qd_bytes e), ob_dropped := ob_dropped ob + 1\<rparr>"
      have q: "ob_q ob = before @ e # after" "is_eph e" "\<forall>x \<in> set before. \<not> is_eph x"
        using Some by (auto simp: extract_Some_iff)
      then have "\<not> is_log e" using class_cases [of e] by blast
      then have ok: "outbox_ok ?ob" using 1(2) q(1,2) by (auto simp: outbox_ok_def)
      have step: "make_room n ob = make_room n ?ob" using over Some by (subst make_room.simps) simp
      have before: "filter is_eph before = []" using q(3) by (simp add: filter_empty_conv)
      obtain k where k: "filter is_eph (ob_q (make_room n ?ob)) = drop k (filter is_eph (ob_q ?ob))"
        using 1(1) [OF over Some refl refl ok] by blast
      have "filter is_eph (ob_q (make_room n ob)) = drop (Suc k) (filter is_eph (ob_q ob))"
        using k before q(1,2) by (simp add: step)
      then show ?thesis using 1(1) [OF over Some refl refl ok] q(1,2) step by (auto simp del: filter.simps) (auto simp: q)
    qed
  qed
qed

lemma make_room_eph: "outbox_ok ob \<Longrightarrow> ob_eph_bytes ob \<le> EPH_BUFFER_BYTES \<Longrightarrow> n \<le> EPH_BUFFER_BYTES
    \<Longrightarrow> ob_eph_bytes (make_room n ob) + n \<le> EPH_BUFFER_BYTES"
  using make_room_spec [of ob n] by auto

subsection \<open>The branches of a push\<close>

lemma push_cases:
  assumes "outbox_ok ob" "outbox_push p ob = Some ob'"
  obtains (eph) b q1 k where "push_encode (pu_push p) = Some b" "pu_class p = Ephemeral_class"
      "ob_q ob' = q1 @ [\<lparr>qd_bytes = b, qd_class = Some Ephemeral_class, qd_collection = collection_of (pu_push p)\<rparr>]"
      "filter (Not \<circ> is_eph) q1 = filter (Not \<circ> is_eph) (ob_q ob)" "filter is_eph q1 = drop k (filter is_eph (ob_q ob))"
      "outbox_ok ob'" "length b \<le> EPH_BUFFER_BYTES \<Longrightarrow> ob_eph_bytes ob \<le> EPH_BUFFER_BYTES \<Longrightarrow> ob_eph_bytes ob' \<le> EPH_BUFFER_BYTES"
  | (room) b where "push_encode (pu_push p) = Some b" "pu_class p \<noteq> Ephemeral_class" "ob_eph_bytes ob' = ob_eph_bytes ob" "outbox_ok ob'"
      "ob_q ob' = ob_q ob @ [\<lparr>qd_bytes = b, qd_class = Some (pu_class p), qd_collection = collection_of (pu_push p)\<rparr>]"
      "ob_log_bytes ob' \<le> PUSH_QUEUE_BYTES"
  | (over) b f where "push_encode (pu_push p) = Some b" "pu_class p \<noteq> Ephemeral_class" "ob_eph_bytes ob' = ob_eph_bytes ob" "outbox_ok ob'"
      "f = b \<or> pu_class p = Items \<and> (\<exists>fb. pu_fallback p = Some fb \<and> push_encode fb = Some f)"
      "ob_q ob' = filter (\<lambda>e. \<not> coalesced (collection_of (pu_push p)) e) (ob_q ob)
        @ [\<lparr>qd_bytes = f, qd_class = Some State, qd_collection = collection_of (pu_push p)\<rparr>]"
proof -
  obtain b where b: "push_encode (pu_push p) = Some b" using assms(2) by (auto simp: outbox_push_def split: Option.bind_splits)
  let ?col = "collection_of (pu_push p)"
  show thesis
  proof (cases "pu_class p = Ephemeral_class")
    case True
    let ?ob = "make_room (length b) ob"
    note spec = make_room_spec [OF assms(1), of "length b"]
    obtain k where k: "filter is_eph (ob_q ?ob) = drop k (filter is_eph (ob_q ob))" using spec by blast
    have ob': "ob' = ?ob\<lparr>ob_q := ob_q ?ob @ [\<lparr>qd_bytes = b, qd_class = Some Ephemeral_class, qd_collection = ?col\<rparr>],
        ob_eph_bytes := ob_eph_bytes ?ob + length b\<rparr>"
      using assms(2) True b by (simp add: outbox_push_def Let_def)
    show thesis
      by (rule eph [OF b True, of "ob_q ?ob" k])
        (use spec k make_room_eph [OF assms(1), of "length b"] in \<open>simp_all add: ob' outbox_ok_def\<close>)
  next
    case log: False
    then have cls: "pu_class p = Items \<or> pu_class p = State" by (cases "pu_class p") simp_all
    show thesis
    proof (cases "PUSH_QUEUE_BYTES < ob_log_bytes ob + length b")
      case False
      then have ob': "ob' = ob\<lparr>ob_q := ob_q ob @ [\<lparr>qd_bytes = b, qd_class = Some (pu_class p), qd_collection = ?col\<rparr>],
          ob_log_bytes := ob_log_bytes ob + length b\<rparr>"
        using assms(2) log b by (simp add: outbox_push_def Let_def)
      show thesis by (rule room [OF b log]) (use assms(1) cls False in \<open>auto simp: ob' outbox_ok_def\<close>)
    next
      case True
      let ?q = "filter (\<lambda>e. \<not> coalesced ?col e) (ob_q ob)"
      obtain f where f: "(case (pu_class p, pu_fallback p) of (Items, Some f) \<Rightarrow> push_encode f | _ \<Rightarrow> Some b) = Some f"
          "ob_q ob' = ?q @ [\<lparr>qd_bytes = f, qd_class = Some State, qd_collection = ?col\<rparr>]" "ob_eph_bytes ob' = ob_eph_bytes ob"
          "ob_log_bytes ob' = ob_log_bytes ob - bytes_in (coalesced ?col) (ob_q ob) + length f"
        using assms(2) log b True by (auto simp: outbox_push_def Let_def bytes_in_def split: Option.bind_splits)
      have split: "bytes_in is_log q = bytes_in (coalesced ?col) q + bytes_in is_log (filter (\<lambda>e. \<not> coalesced ?col e) q)" for q
        by (induction q) (auto simp: coalesced_def)
      have eph: "bytes_in is_eph (filter (\<lambda>e. \<not> coalesced ?col e) q) = bytes_in is_eph q" for q
      proof (induction q)
        case (Cons e q)
        then show ?case using class_cases [of e] by (auto simp: coalesced_def)
      qed simp
      have "outbox_ok ob'" using assms(1) split [of "ob_q ob"] eph [of "ob_q ob"] f(2-4) by (simp add: outbox_ok_def)
      then show thesis
        by (rule over [OF b log f(3) _ _ f(2)]) (use f(1) in \<open>auto split: PushClass.splits option.splits\<close>)
    qed
  qed
qed

lemma pop_cases:
  assumes "outbox_ok ob" "ob_q ob = e # q"
  shows "ob_q (fst (outbox_pop ob)) = q" "snd (outbox_pop ob) = Some (qd_bytes e)" "outbox_ok (fst (outbox_pop ob))"
    "ob_eph_bytes (fst (outbox_pop ob)) \<le> ob_eph_bytes ob"
  using assms class_cases [of e]
  by (auto simp: outbox_pop_def Let_def outbox_ok_def is_log_def is_eph_def split: option.splits PushClass.splits)

subsection \<open>A connection\<close>

text \<open>What a connection does with its queue: responses and pushes are queued, frames are written to the
  socket from the front.  \<open>outbox_run ops sent ob\<close>: after the operations \<open>ops\<close> the frames of \<open>sent\<close> were
  written and \<open>ob\<close> is left.\<close>

datatype outbox_op = Respond bytes | Offer Push | Write

inductive outbox_run :: "outbox_op list \<Rightarrow> Queued list \<Rightarrow> Outbox \<Rightarrow> bool" where
  start: "outbox_run [] [] outbox_new"
| responded: "outbox_run ops sent ob \<Longrightarrow> outbox_run (ops @ [Respond f]) sent (outbox_response f ob)"
| offered: "outbox_run ops sent ob \<Longrightarrow> outbox_push p ob = Some ob' \<Longrightarrow> outbox_run (ops @ [Offer p]) sent ob'"
| written: "outbox_run ops sent ob \<Longrightarrow> ob_q ob = e # q \<Longrightarrow> outbox_run (ops @ [Write]) (sent @ [e]) (fst (outbox_pop ob))"

fun response_of :: "outbox_op \<Rightarrow> bytes list" where
  "response_of (Respond f) = [f]"
| "response_of _ = []"

fun log_offer :: "bytes option \<Rightarrow> outbox_op \<Rightarrow> Push list" where
  "log_offer col (Offer p) = (if pu_class p \<noteq> Ephemeral_class \<and> collection_of (pu_push p) = col then [p] else [])"
| "log_offer col _ = []"

definition log_offers :: "bytes option \<Rightarrow> outbox_op list \<Rightarrow> Push list" where
  "log_offers col ops = concat (map (log_offer col) ops)"

lemma log_offers_simps [simp]: "log_offers col [] = []" "log_offers col (ops @ ops') = log_offers col ops @ log_offers col ops'"
    "log_offers col [x] = log_offer col x"
  by (simp_all add: log_offers_def)

text \<open>The frames that stand for a push: its own, and for items also that of the head.\<close>

definition stands_for :: "Push \<Rightarrow> bytes \<Rightarrow> bool" where
  "stands_for p f \<longleftrightarrow> push_encode (pu_push p) = Some f
    \<or> pu_class p = Items \<and> (\<exists>fb. pu_fallback p = Some fb \<and> push_encode fb = Some f)"

text \<open>The log pushes of a collection that a connection has been sent or will be.\<close>

definition told :: "bytes option \<Rightarrow> Queued list \<Rightarrow> Queued list" where
  "told col out = filter (\<lambda>e. is_log e \<and> qd_collection e = col) out"

lemma told_append [simp]: "told col (xs @ ys) = told col xs @ told col ys"
  by (simp add: told_def)

lemma told_non_eph: "filter (Not \<circ> is_eph) xs = filter (Not \<circ> is_eph) ys \<Longrightarrow> told col xs = told col ys"
proof -
  have "told col xs = told col (filter (Not \<circ> is_eph) xs)" for xs
  proof (induction xs)
    case (Cons e xs)
    then show ?case using class_cases [of e] by (auto simp: told_def)
  qed (simp add: told_def)
  then show "filter (Not \<circ> is_eph) xs = filter (Not \<circ> is_eph) ys \<Longrightarrow> told col xs = told col ys" by metis
qed

lemma told_coalesced: "col \<noteq> c \<Longrightarrow> told col (filter (\<lambda>e. \<not> coalesced c e) q) = told col q"
  by (induction q) (auto simp: told_def coalesced_def)

lemma run_ok: "outbox_run ops sent ob \<Longrightarrow> outbox_ok ob"
proof (induction rule: outbox_run.induct)
  case (offered ops sent ob p ob')
  show ?case using offered(3,2) by (rule push_cases)
next
  case (written ops sent ob e q)
  then show ?case using pop_cases(3) by blast
qed (simp_all add: outbox_ok_def outbox_new_def outbox_response_def)

lemma responses_kept: "outbox_run ops sent ob \<Longrightarrow>
  map qd_bytes (filter (\<lambda>e. qd_class e = None) (sent @ ob_q ob)) = concat (map response_of ops)"
proof (induction rule: outbox_run.induct)
  case (offered ops sent ob p ob')
  have none: "filter (\<lambda>e. qd_class e = None) xs = filter (\<lambda>e. qd_class e = None) (filter (Not \<circ> is_eph) xs)" for xs
    by (induction xs) (auto simp: is_eph_def)
  have co: "filter (\<lambda>e. qd_class e = None) (filter (\<lambda>e. \<not> coalesced c e) xs) = filter (\<lambda>e. qd_class e = None) xs" for c xs
    by (induction xs) (auto simp: coalesced_def is_log_def)
  show ?case using run_ok [OF offered(1)] offered(2)
  proof (cases rule: push_cases)
    case (eph b q1 k)
    then have "filter (\<lambda>e. qd_class e = None) q1 = filter (\<lambda>e. qd_class e = None) (ob_q ob)" using none by metis
    then show ?thesis using offered(3) eph(3) by simp
  qed (use offered(3) co in simp_all)
next
  case (written ops sent ob e q)
  then show ?case using pop_cases(1) [OF run_ok [OF written(1)] written(2)] by simp
qed (simp_all add: outbox_new_def outbox_response_def)

lemma last_told:
  assumes "outbox_run ops sent ob"
  shows "if log_offers col ops = [] then told col (sent @ ob_q ob) = []
    else told col (sent @ ob_q ob) \<noteq> [] \<and> stands_for (last (log_offers col ops)) (qd_bytes (last (told col (sent @ ob_q ob))))"
  using assms
proof (induction rule: outbox_run.induct)
  case (offered ops sent ob p ob')
  show ?case using run_ok [OF offered(1)] offered(2)
  proof (cases rule: push_cases)
    case (eph b q1 k)
    then have "told col (ob_q ob') = told col (ob_q ob)" using told_non_eph [of q1 "ob_q ob"] by (simp add: told_def)
    then show ?thesis using offered(3) eph(2) by (auto split: if_splits)
  next
    case (room b)
    then have "pu_class p = Items \<or> pu_class p = State" by (cases "pu_class p") simp_all
    then show ?thesis using offered(3) room by (auto simp: told_def stands_for_def)
  next
    case (over b f)
    have "told (collection_of (pu_push p)) [\<lparr>qd_bytes = f, qd_class = Some State, qd_collection = collection_of (pu_push p)\<rparr>]
        = [\<lparr>qd_bytes = f, qd_class = Some State, qd_collection = collection_of (pu_push p)\<rparr>]" by (simp add: told_def)
    moreover have "told col [\<lparr>qd_bytes = f, qd_class = Some State, qd_collection = collection_of (pu_push p)\<rparr>] = []"
      if "col \<noteq> collection_of (pu_push p)" using that by (simp add: told_def)
    moreover have "stands_for p f" using over(1,5) by (auto simp: stands_for_def)
    ultimately show ?thesis using offered(3) over(2,6) told_coalesced [of col "collection_of (pu_push p)" "ob_q ob"]
      by (cases "col = collection_of (pu_push p)") auto
  qed
next
  case (written ops sent ob e q)
  have out: "sent @ ob_q ob = (sent @ [e]) @ ob_q (fst (outbox_pop ob))"
    using pop_cases(1) [OF run_ok [OF written(1)] written(2)] written(2) by simp
  show ?case using written(3) unfolding out log_offers_simps log_offer.simps append_Nil2 .
qed (simp_all add: outbox_new_def outbox_response_def told_def split: if_splits)

lemma closed_kept:
  assumes "outbox_run ops sent ob"
  shows "Offer p \<in> set ops \<Longrightarrow> pu_class p = State \<Longrightarrow> push_encode (pu_push p) = Some b \<Longrightarrow> is_closed b
    \<Longrightarrow> \<exists>e \<in> set (sent @ ob_q ob). is_log e \<and> qd_bytes e = b"
  using assms
proof (induction rule: outbox_run.induct)
  case (offered ops sent ob p' ob')
  show ?case using run_ok [OF offered(1)] offered(2)
  proof (cases rule: push_cases)
    case (eph b' q1 k)
    have "e \<in> set (filter (Not \<circ> is_eph) (ob_q ob)) \<longleftrightarrow> e \<in> set (filter (Not \<circ> is_eph) q1)" for e using eph(4) by simp
    then have "e \<in> set q1" if "is_log e" "e \<in> set (ob_q ob)" for e using that class_cases [of e] by auto
    then show ?thesis using offered(3-7) eph(2,3) by auto
  next
    case (room b')
    then show ?thesis using offered(3-7) by auto
  next
    case (over b' f)
    then show ?thesis using offered(3-7) by (auto simp: coalesced_def)
  qed
next
  case (written ops sent ob e q)
  then show ?case using pop_cases(1) [OF run_ok [OF written(1)] written(2)] by auto
qed (auto simp: outbox_response_def)

lemma eph_bound:
  assumes "outbox_run ops sent ob"
  shows "\<forall>p b. Offer p \<in> set ops \<and> pu_class p = Ephemeral_class \<and> push_encode (pu_push p) = Some b \<longrightarrow> length b \<le> EPH_BUFFER_BYTES
    \<Longrightarrow> ob_eph_bytes ob \<le> EPH_BUFFER_BYTES"
  using assms
proof (induction rule: outbox_run.induct)
  case (offered ops sent ob p' ob')
  show ?case using run_ok [OF offered(1)] offered(2) by (rule push_cases) (use offered(3,4) in auto)
next
  case (written ops sent ob e q)
  then show ?case using pop_cases(4) [OF run_ok [OF written(1)] written(2)] by (auto intro: le_trans)
qed (simp_all add: outbox_new_def outbox_response_def)

text \<open>The closing notices of the hub are frames that the queue recognises.\<close>

lemma closed_value:
  "ls_frame_to_cbor (FrPush (pu_push (closed_to c reason s))) = CMap [(Uint 0, Uint 2), (Uint 1, CText (ascii ''closed'')),
      (Uint 2, CMap [(Uint 0, CBytes (be_bytes 16 c)), (Uint 1, CText (ascii reason))])]"
  by (simp add: closed_to_def hub_push_def ls_push_to_cbor_def closed_push_to_cbor_def req_enc_def fixed_to_cbor_def)

lemma closed_bytes:
  assumes "reason \<in> {''forbidden'', ''gone''}"
  obtains b where "encode (ls_frame_to_cbor (FrPush (pu_push (closed_to c reason s)))) = Inr b" "length b < 100"
    "decode b = Inr (ls_frame_to_cbor (FrPush (pu_push (closed_to c reason s))))"
proof -
  have one: "\<not> (2 :: u64) \<le> 1" by (simp add: word_le_nat_alt)
  have "\<exists>b. encode (ls_frame_to_cbor (FrPush (pu_push (closed_to c reason s)))) = Inr b \<and> length b < 100"
    unfolding closed_value using assms
    by (elim insertE emptyE) (simp_all add: one encode_def encode_into.simps ascii_def MAX_DEPTH_def check_map_def head_def)
  moreover have "cbor_rep (ls_frame_to_cbor (FrPush (pu_push (closed_to c reason s))))"
    unfolding closed_value using assms by (elim insertE emptyE) (simp_all add: ascii_def)
  ultimately show thesis using that cbor.round_trip by blast
qed

lemma closed_frame:
  assumes "reason \<in> {''forbidden'', ''gone''}"
  obtains b where "push_encode (pu_push (closed_to c reason s)) = Some b" "is_closed b"
proof -
  let ?p = "pu_push (closed_to c reason s)"
  obtain b where b: "encode (ls_frame_to_cbor (FrPush ?p)) = Inr b" "length b < 100" "decode b = Inr (ls_frame_to_cbor (FrPush ?p))"
    using assms by (rule closed_bytes)
  have kind: "string_from_cbor (CText x) = Inr x" for x by simp
  have "ls_frame_from_cbor (ls_frame_to_cbor (FrPush ?p)) = Inr (FrPush ?p)"
    by (simp add: ls_frame_from_cbor_def ls_push_to_cbor_def ls_push_from_cbor_def codec_simps closed_to_def hub_push_def)
  moreover have "length b \<le> MAX_BYTES" "us_work_bytes budget_default + length b \<le> MAX_WORK_BYTES"
    "us_nodes budget_default + cbor_nodes (ls_frame_to_cbor (FrPush ?p)) \<le> MAX_NODES"
    using b(2) unfolding closed_value by (simp_all add: budget_default_def MAX_BYTES_def MAX_WORK_BYTES_def MAX_NODES_def)
  ultimately obtain u' where "budget_wire ls_frame_from_cbor b budget_default = (u', Inr (FrPush ?p))"
    using budget_wire_complete [OF b(3), of ls_frame_from_cbor "FrPush ?p" budget_default] by blast
  then show thesis using b(1) that [of b]
    by (simp add: push_encode_def frame_bytes_def to_bytes_def is_closed_def) (simp add: closed_to_def hub_push_def)
qed

text \<open>C33. Whatever is queued and written in whatever order: the responses all arrive, in order; of the
  pushes about a collection the last one that arrives is the last one queued, or the new head in its
  place, so an overflow never hides the newest state; a notice of the hub that a subscription is
  closed always arrives; and if every ephemeral frame fits the buffer of 256 KiB by itself, the
  ephemeral messages that wait never exceed it.\<close>

theorem outbox_delivers:
  assumes "outbox_run ops sent ob"
  shows "map qd_bytes (filter (\<lambda>e. qd_class e = None) (sent @ ob_q ob)) = concat (map response_of ops)
    \<and> (log_offers col ops \<noteq> [] \<longrightarrow> told col (sent @ ob_q ob) \<noteq> []
        \<and> stands_for (last (log_offers col ops)) (qd_bytes (last (told col (sent @ ob_q ob)))))
    \<and> (\<forall>c reason s. Offer (closed_to c reason s) \<in> set ops \<and> reason \<in> {''forbidden'', ''gone''}
        \<longrightarrow> (\<exists>e \<in> set (sent @ ob_q ob). is_log e \<and> push_encode (pu_push (closed_to c reason s)) = Some (qd_bytes e)))
    \<and> ((\<forall>p b. Offer p \<in> set ops \<and> pu_class p = Ephemeral_class \<and> push_encode (pu_push p) = Some b \<longrightarrow> length b \<le> EPH_BUFFER_BYTES)
        \<longrightarrow> bytes_in is_eph (ob_q ob) \<le> EPH_BUFFER_BYTES)"
proof (intro conjI allI impI)
  show "map qd_bytes (filter (\<lambda>e. qd_class e = None) (sent @ ob_q ob)) = concat (map response_of ops)" using assms by (rule responses_kept)
  show "\<exists>e \<in> set (sent @ ob_q ob). is_log e \<and> push_encode (pu_push (closed_to c reason s)) = Some (qd_bytes e)"
    if "Offer (closed_to c reason s) \<in> set ops \<and> reason \<in> {''forbidden'', ''gone''}" for c reason s
  proof -
    from that have m: "Offer (closed_to c reason s) \<in> set ops" and r: "reason \<in> {''forbidden'', ''gone''}" by blast+
    obtain b where b: "push_encode (pu_push (closed_to c reason s)) = Some b" "is_closed b" using r by (rule closed_frame)
    have st: "pu_class (closed_to c reason s) = State" by (rule closed_to_simps)
    from closed_kept [OF assms m st b]
    obtain e where e: "e \<in> set (sent @ ob_q ob)" "is_log e" "qd_bytes e = b" by blast
    have "push_encode (pu_push (closed_to c reason s)) = Some (qd_bytes e)" using b(1) by (simp only: e(3))
    then show ?thesis using e(1,2) by blast
  qed
  show "bytes_in is_eph (ob_q ob) \<le> EPH_BUFFER_BYTES"
    if "\<forall>p b. Offer p \<in> set ops \<and> pu_class p = Ephemeral_class \<and> push_encode (pu_push p) = Some b \<longrightarrow> length b \<le> EPH_BUFFER_BYTES"
    using eph_bound [OF assms that] run_ok [OF assms] by (simp add: outbox_ok_def)
  assume "log_offers col ops \<noteq> []"
  then show "told col (sent @ ob_q ob) \<noteq> []" "stands_for (last (log_offers col ops)) (qd_bytes (last (told col (sent @ ob_q ob))))"
    using last_told [OF assms, of col] by (simp_all split: if_splits)
qed

text \<open>The last push queued need not be of the newest head: when two commits are reported in the other
  order, an overflow between the reports drops the push of the newer head and keeps the older one.\<close>

lemma stale_head_kept:
  assumes "outbox_ok ob" "outbox_push new ob = Some ob1" "outbox_push old ob1 = Some ob2"
    and "push_encode (pu_push new) = Some nb" "push_encode (pu_push old) = Some b" "pu_class new = State" "pu_class old = State"
    and "collection_of (pu_push new) = col" "collection_of (pu_push old) = col" "\<not> is_closed nb"
    and "PUSH_QUEUE_BYTES < ob_log_bytes ob1 + length b"
  shows "\<forall>e \<in> set (told col (ob_q ob2)). is_closed (qd_bytes e) \<or> qd_bytes e = b"
  using assms(3,5,7,9,11) by (auto simp: outbox_push_def Let_def told_def coalesced_def)

subsection \<open>Witness\<close>

definition sample_head :: "u64 \<Rightarrow> Push" where
  "sample_head n = \<lparr>pu_to = 1, pu_push = hub_push ''head'' (head_push_to_cbor \<lparr>hd_collection = 1, hd_head = n, hd_head_chain = 0\<rparr>),
     pu_class = State, pu_fallback = None\<rparr>"

definition sample_frame :: "u64 \<Rightarrow> bytes" where
  "sample_frame n = the (push_encode (pu_push (sample_head n)))"

lemma sample_frames: "push_encode (pu_push (sample_head 1)) = Some (sample_frame 1)" "length (sample_frame 1) < 200"
  unfolding sample_frame_def by code_simp+

definition big_push :: "bytes \<Rightarrow> Push" where
  "big_push b = commit_push sample_notice [(1, b)] (1, \<lparr>sb_device = Some 9, sb_inline_bytes = 2097152\<rparr>)"

lemma big_frame:
  assumes "length b = 1048576"
  shows "pu_class (big_push b) = Items" "pu_fallback (big_push b) = Some (pu_push (sample_head 1))"
    "collection_of (pu_push (big_push b)) = Some (be_bytes 16 (1 :: b16))"
    "\<exists>f. push_encode (pu_push (big_push b)) = Some f \<and> PUSH_QUEUE_BYTES < length f"
  using assms
  by (simp_all add: big_push_def commit_push_def sample_notice_def sample_head_def word_le_nat_alt collection_of_def hub_push_def items_push_to_cbor_def req_enc_def fixed_to_cbor_def
     push_encode_def frame_bytes_def to_bytes_def ls_push_to_cbor_def vec_to_cbor_def seq_item_to_cbor_def encode_def encode_into.simps
     ascii_def MAX_DEPTH_def check_map_def head_def PUSH_QUEUE_BYTES_def MIB_def)

text \<open>A subscriber that takes items of any size is sent an item of 1 MiB, which overflows the queue, so
  the head stands for it; a response and the notice that the subscription is closed follow.\<close>

theorem outbox_delivers_witness:
  "\<exists>b fh fc sent ob. length b = 1048576 \<and> push_encode (pu_push (sample_head 1)) = Some fh
    \<and> push_encode (pu_push (closed_to 1 ''forbidden'' 1)) = Some fc
    \<and> outbox_run [Offer (big_push b), Respond [7], Offer (closed_to 1 ''forbidden'' 1), Write] sent ob
    \<and> map qd_bytes sent = [fh] \<and> map qd_bytes (ob_q ob) = [[7], fc]
    \<and> map qd_bytes (filter (\<lambda>e. qd_class e = None) (sent @ ob_q ob)) = [[7]]
    \<and> (\<exists>e \<in> set (sent @ ob_q ob). is_log e \<and> fc = qd_bytes e)"
proof -
  obtain b :: bytes where b: "length b = 1048576" using that [of "replicate 1048576 0"] by (simp only: length_replicate)
  obtain fb where fb: "push_encode (pu_push (big_push b)) = Some fb" "PUSH_QUEUE_BYTES < length fb" using big_frame(4) [OF b] by blast
  obtain fh where fh: "push_encode (pu_push (sample_head 1)) = Some fh" "length fh < 200" using sample_frames by blast
  obtain fc where fc: "push_encode (pu_push (closed_to 1 ''forbidden'' 1)) = Some fc" "length fc < 100"
  proof (rule closed_bytes [of "''forbidden''" 1 1])
    show "''forbidden'' \<in> {''forbidden'', ''gone''}" by simp
    fix b assume "encode (ls_frame_to_cbor (FrPush (pu_push (closed_to 1 ''forbidden'' 1)))) = Inr b" "length b < 100"
    then show thesis by (intro that [of b]) (simp_all only: push_encode_def frame_bytes_def to_bytes_def sum.case)
  qed
  have "PUSH_QUEUE_BYTES = 1048576" by (simp add: PUSH_QUEUE_BYTES_def MIB_def)
  note q = this
  let ?c = "Some (be_bytes 16 (1 :: b16))"
  let ?h = "\<lparr>qd_bytes = fh, qd_class = Some State, qd_collection = ?c\<rparr>" and ?r = "\<lparr>qd_bytes = [7], qd_class = None, qd_collection = None\<rparr>"
  let ?f = "\<lparr>qd_bytes = fc, qd_class = Some State, qd_collection = collection_of (pu_push (closed_to 1 ''forbidden'' 1))\<rparr>"
  have "outbox_push (big_push b) outbox_new = Some \<lparr>ob_q = [?h], ob_log_bytes = length fh, ob_eph_bytes = 0, ob_dropped = 0\<rparr>"
    using fb fh(1) big_frame(1-3) [OF b] by (simp add: outbox_push_def outbox_new_def Let_def)
  from outbox_run.responded [OF outbox_run.offered [OF outbox_run.start this], of "[7]"]
  have "outbox_run [Offer (big_push b), Respond [7]] [] \<lparr>ob_q = [?h, ?r], ob_log_bytes = length fh, ob_eph_bytes = 0, ob_dropped = 0\<rparr>"
    by (simp add: outbox_response_def)
  moreover have "outbox_push (closed_to 1 ''forbidden'' 1) \<lparr>ob_q = [?h, ?r], ob_log_bytes = length fh, ob_eph_bytes = 0, ob_dropped = 0\<rparr>
      = Some \<lparr>ob_q = [?h, ?r, ?f], ob_log_bytes = length fh + length fc, ob_eph_bytes = 0, ob_dropped = 0\<rparr>"
    using fc fh(2) q by (simp add: outbox_push_def Let_def)
  ultimately have r3: "outbox_run [Offer (big_push b), Respond [7], Offer (closed_to 1 ''forbidden'' 1)] []
      \<lparr>ob_q = [?h, ?r, ?f], ob_log_bytes = length fh + length fc, ob_eph_bytes = 0, ob_dropped = 0\<rparr>"
    using outbox_run.offered by fastforce
  have run: "outbox_run [Offer (big_push b), Respond [7], Offer (closed_to 1 ''forbidden'' 1), Write] [?h]
      \<lparr>ob_q = [?r, ?f], ob_log_bytes = length fc, ob_eph_bytes = 0, ob_dropped = 0\<rparr>"
    using outbox_run.written [OF r3, of ?h "[?r, ?f]"] by (simp add: outbox_pop_def)
  note D = outbox_delivers [OF run, of ?c]
  have "\<exists>e \<in> set ([?h] @ [?r, ?f]). is_log e \<and> fc = qd_bytes e" using D fc(1) by fastforce
  then show ?thesis using b fh(1) fc(1) run D
    by (intro exI [of _ b] exI [of _ fh] exI [of _ fc] exI [of _ "[?h]"]
        exI [of _ "\<lparr>ob_q = [?r, ?f], ob_log_bytes = length fc, ob_eph_bytes = 0, ob_dropped = 0\<rparr>"]) simp
qed

end
