(* ===== verification/MergeDiff.thy ===== *)
theory MergeDiff
  imports Prelude
begin

text \<open>
  \<open>core/src/merge/diff.rs\<close>: the alignment of two lists by a longest common subsequence with
  the linear-space algorithm of Myers.  \<open>isize\<close> values are integers, with the sums that bound all
  the others checked against the 64-bit range; \<open>usize\<close> values are natural numbers; \<open>Err Crash\<close> is a
  panic (an index out of bounds, an overflow).  The work stack of \<open>lcs_pairs\<close> may in principle
  never empty: its loop is a partial function, and \<open>None\<close> is divergence.
\<close>

datatype crash = Crash

definition vget :: "'a list \<Rightarrow> nat \<Rightarrow> crash + 'a" where
  "vget v i = (if i < length v then Ok (v ! i) else Err Crash)"

definition vset :: "'a list \<Rightarrow> nat \<Rightarrow> 'a \<Rightarrow> crash + 'a list" where
  "vset v i x = (if i < length v then Ok (v[i := x]) else Err Crash)"

definition slice :: "'a list \<Rightarrow> nat \<Rightarrow> nat \<Rightarrow> crash + 'a list" where
  "slice v i j = (if i \<le> j \<and> j \<le> length v then Ok (take (j - i) (drop i v)) else Err Crash)"

definition isz :: "int \<Rightarrow> crash + int" where
  "isz z = (if - (2 ^ 63) \<le> z \<and> z < 2 ^ 63 then Ok z else Err Crash)"

text \<open>The closure \<open>at\<close>: \<open>usize::try_from(k).unwrap_or(0)\<close>.\<close>

definition at :: "int \<Rightarrow> nat" where
  "at k = (if 0 \<le> k then nat k else 0)"

subsection \<open>The middle snake\<close>

text \<open>The closure \<open>eq\<close>, and the two loops that follow a diagonal of equal elements.\<close>

definition eq_at :: "'a list \<Rightarrow> 'a list \<Rightarrow> int \<Rightarrow> int \<Rightarrow> crash + bool" where
  "eq_at a b i j = rbind (vget a (at i)) (\<lambda>x. rbind (vget b (at j)) (\<lambda>y. Ok (x = y)))"

function snake :: "(int \<Rightarrow> int \<Rightarrow> crash + bool) \<Rightarrow> int \<Rightarrow> int \<Rightarrow> int \<Rightarrow> int \<Rightarrow> crash + (int \<times> int)" where
  "snake eq n m x y =
    (if x < n \<and> y < m then
       rbind (eq x y) (\<lambda>e. if e then snake eq n m (x + 1) (y + 1) else Ok (x, y))
     else Ok (x, y))"
  by pat_completeness auto
termination by (relation "measure (\<lambda>(eq, n, m, x, y). nat (n - x))") auto

text \<open>Where a pass enters diagonal \<open>k\<close>: from the diagonal above or below it.\<close>

definition entry :: "int list \<Rightarrow> int \<Rightarrow> int \<Rightarrow> int \<Rightarrow> crash + int" where
  "entry v d offset k =
    (let ko = offset + k in
     if k = - d then vget v (at (ko + 1))
     else if k \<noteq> d then
       rbind (vget v (at (ko - 1))) (\<lambda>p. rbind (vget v (at (ko + 1))) (\<lambda>q. if p < q then Ok q else Ok (p + 1)))
     else rbind (vget v (at (ko - 1))) (\<lambda>p. Ok (p + 1)))"

datatype scan = Met nat nat | Scanned int int "int list"

text \<open>One forward pass over the diagonals, from \<open>k\<close> on: a split point, or the new trims and
  frontier.\<close>

function forward_pass ::
  "'a list \<Rightarrow> 'a list \<Rightarrow> int \<Rightarrow> int \<Rightarrow> int list \<Rightarrow> int \<Rightarrow> int \<Rightarrow> int \<Rightarrow> int list \<Rightarrow> crash + scan" where
  "forward_pass a b max_d d v2 k1 k1start k1end v1 =
    (let n = int (length a); m = int (length b); offset = max_d; delta = n - m; front = (delta mod 2 \<noteq> 0) in
     if d - k1end < k1 then Ok (Scanned k1start k1end v1)
     else
       rbind (entry v1 d offset k1) (\<lambda>x.
       rbind (snake (eq_at a b) n m x (x - k1)) (\<lambda>(x1, y1).
       rbind (vset v1 (at (offset + k1)) x1) (\<lambda>v1.
       if n < x1 then forward_pass a b max_d d v2 (k1 + 2) k1start (k1end + 2) v1
       else if m < y1 then forward_pass a b max_d d v2 (k1 + 2) (k1start + 2) k1end v1
       else if front then
         let k2o = offset + delta - k1 in
         if 0 \<le> k2o \<and> k2o < 2 * max_d + 2 then
           rbind (vget v2 (at k2o)) (\<lambda>r.
           if r \<noteq> - 1 \<and> n - r \<le> x1 then Ok (Met (at x1) (at y1))
           else forward_pass a b max_d d v2 (k1 + 2) k1start k1end v1)
         else forward_pass a b max_d d v2 (k1 + 2) k1start k1end v1
       else forward_pass a b max_d d v2 (k1 + 2) k1start k1end v1))))"
  by pat_completeness auto
termination by (relation "measure (\<lambda>(a, b, max_d, d, v2, k1, k1start, k1end, v1). nat (d - k1end - k1 + 1))") auto

function reverse_pass ::
  "'a list \<Rightarrow> 'a list \<Rightarrow> int \<Rightarrow> int \<Rightarrow> int list \<Rightarrow> int \<Rightarrow> int \<Rightarrow> int \<Rightarrow> int list \<Rightarrow> crash + scan" where
  "reverse_pass a b max_d d v1 k2 k2start k2end v2 =
    (let n = int (length a); m = int (length b); offset = max_d; delta = n - m; front = (delta mod 2 \<noteq> 0) in
     if d - k2end < k2 then Ok (Scanned k2start k2end v2)
     else
       rbind (entry v2 d offset k2) (\<lambda>x.
       rbind (snake (\<lambda>x2 y2. eq_at a b (n - x2 - 1) (m - y2 - 1)) n m x (x - k2)) (\<lambda>(x2, y2).
       rbind (vset v2 (at (offset + k2)) x2) (\<lambda>v2.
       if n < x2 then reverse_pass a b max_d d v1 (k2 + 2) k2start (k2end + 2) v2
       else if m < y2 then reverse_pass a b max_d d v1 (k2 + 2) (k2start + 2) k2end v2
       else if \<not> front then
         let k1o = offset + delta - k2 in
         if 0 \<le> k1o \<and> k1o < 2 * max_d + 2 then
           rbind (vget v1 (at k1o)) (\<lambda>x1.
           let y1 = offset + x1 - k1o in
           if x1 \<noteq> - 1 \<and> n - x2 \<le> x1 then Ok (Met (at x1) (at y1))
           else reverse_pass a b max_d d v1 (k2 + 2) k2start k2end v2)
         else reverse_pass a b max_d d v1 (k2 + 2) k2start k2end v2
       else reverse_pass a b max_d d v1 (k2 + 2) k2start k2end v2))))"
  by pat_completeness auto
termination by (relation "measure (\<lambda>(a, b, max_d, d, v1, k2, k2start, k2end, v2). nat (d - k2end - k2 + 1))") auto

text \<open>The passes for \<open>d\<close> up to \<open>max_d\<close>.\<close>

function bisect_passes ::
  "'a list \<Rightarrow> 'a list \<Rightarrow> int \<Rightarrow> int \<Rightarrow> int \<Rightarrow> int \<Rightarrow> int \<Rightarrow> int \<Rightarrow> int list \<Rightarrow> int list \<Rightarrow> crash + (nat \<times> nat) option" where
  "bisect_passes a b max_d d k1start k1end k2start k2end v1 v2 =
    (if max_d \<le> d then Ok None
     else
       rbind (forward_pass a b max_d d v2 (- d + k1start) k1start k1end v1) (\<lambda>r.
       case r of
         Met x y \<Rightarrow> Ok (Some (x, y))
       | Scanned k1start k1end v1 \<Rightarrow>
           rbind (reverse_pass a b max_d d v1 (- d + k2start) k2start k2end v2) (\<lambda>r.
           case r of
             Met x y \<Rightarrow> Ok (Some (x, y))
           | Scanned k2start k2end v2 \<Rightarrow> bisect_passes a b max_d (d + 1) k1start k1end k2start k2end v1 v2)))"
  by pat_completeness auto
termination by (relation "measure (\<lambda>(a, b, max_d, d, _). nat (max_d - d))") auto

definition bisect :: "'a list \<Rightarrow> 'a list \<Rightarrow> crash + (nat \<times> nat) option" where
  "bisect a b =
    (let n = int (length a); m = int (length b) in
     if 2 ^ 63 \<le> n \<or> 2 ^ 63 \<le> m then Ok None
     else
       rbind (isz (n + m + 1)) (\<lambda>s.
       let max_d = s div 2; offset = max_d in
       rbind (isz (2 * max_d + 2)) (\<lambda>l.
       let v = replicate (nat l) (- 1) in
       rbind (vset v (at (offset + 1)) 0) (\<lambda>v1.
       rbind (vset v (at (offset + 1)) 0) (\<lambda>v2.
       bisect_passes a b max_d 0 0 0 0 0 v1 v2)))))"

declare snake.simps [simp del] forward_pass.simps [simp del] reverse_pass.simps [simp del] bisect_passes.simps [simp del]

subsection \<open>The alignment\<close>

datatype task = Range nat nat nat nat | Emit "(nat \<times> nat) list"

function strip_front :: "'a list \<Rightarrow> 'a list \<Rightarrow> nat \<Rightarrow> nat \<Rightarrow> nat \<Rightarrow> nat \<Rightarrow> (nat \<times> nat) list \<Rightarrow> crash + (nat \<times> nat \<times> (nat \<times> nat) list)" where
  "strip_front a b a0 a1 b0 b1 out =
    (if a0 < a1 \<and> b0 < b1 then
       rbind (vget a a0) (\<lambda>x. rbind (vget b b0) (\<lambda>y.
       if x = y then strip_front a b (a0 + 1) a1 (b0 + 1) b1 (out @ [(a0, b0)]) else Ok (a0, b0, out)))
     else Ok (a0, b0, out))"
  by pat_completeness auto
termination by (relation "measure (\<lambda>(a, b, a0, a1, _). a1 - a0)") auto

function strip_end :: "'a list \<Rightarrow> 'a list \<Rightarrow> nat \<Rightarrow> nat \<Rightarrow> nat \<Rightarrow> nat \<Rightarrow> (nat \<times> nat) list \<Rightarrow> crash + (nat \<times> nat \<times> (nat \<times> nat) list)" where
  "strip_end a b a0 a1 b0 b1 suffix =
    (if a0 < a1 \<and> b0 < b1 then
       rbind (vget a (a1 - 1)) (\<lambda>x. rbind (vget b (b1 - 1)) (\<lambda>y.
       if x = y then strip_end a b a0 (a1 - 1) b0 (b1 - 1) (suffix @ [(a1 - 1, b1 - 1)]) else Ok (a1, b1, suffix)))
     else Ok (a1, b1, suffix))"
  by pat_completeness auto
termination by (relation "measure (\<lambda>(a, b, a0, a1, _). a1 - a0)") auto

declare strip_front.simps [simp del] strip_end.simps [simp del]

partial_function (option) lcs_loop ::
  "'a list \<Rightarrow> 'a list \<Rightarrow> task list \<Rightarrow> (nat \<times> nat) list \<Rightarrow> (crash + (nat \<times> nat) list) option" where
  [code]: "lcs_loop a b stack out =
    (case stack of
       [] \<Rightarrow> Some (Ok out)
     | Emit pairs # stack \<Rightarrow> lcs_loop a b stack (out @ pairs)
     | Range a0 a1 b0 b1 # stack \<Rightarrow>
         (case strip_front a b a0 a1 b0 b1 out of
            Inl c \<Rightarrow> Some (Err c)
          | Inr (a0, b0, out) \<Rightarrow>
         (case strip_end a b a0 a1 b0 b1 [] of
            Inl c \<Rightarrow> Some (Err c)
          | Inr (a1, b1, suffix) \<Rightarrow>
              (let stack = Emit (rev suffix) # stack in
               if a0 = a1 \<or> b0 = b1 then lcs_loop a b stack out
               else
                 (case rbind (slice a a0 a1) (\<lambda>u. rbind (slice b b0 b1) (\<lambda>v. bisect u v)) of
                    Inl c \<Rightarrow> Some (Err c)
                  | Inr None \<Rightarrow> lcs_loop a b stack out
                  | Inr (Some (x, y)) \<Rightarrow>
                      lcs_loop a b (Range a0 (a0 + x) b0 (b0 + y) # Range (a0 + x) a1 (b0 + y) b1 # stack) out)))))"

definition lcs_pairs :: "'a list \<Rightarrow> 'a list \<Rightarrow> (crash + (nat \<times> nat) list) option" where
  "lcs_pairs a b = lcs_loop a b [Range 0 (length a) 0 (length b)] []"

end
