(* ===== verification/MergeBody.thy ===== *)
theory MergeBody
  imports MergeDiff
begin

text \<open>
  \<open>core/src/merge/body.rs\<close>: the line-based three-way merge of bodies and the body edits.  A text is
  the list of its Unicode scalar values, so the byte offsets of the source are scalar offsets here;
  lines are interned as \<open>u32\<close> numbers that saturate.  As in \<open>lcs_pairs\<close>, the outer option is
  divergence and \<open>Err Crash\<close> a panic; \<open>Ok None\<close> is a merge conflict.
\<close>

type_synonym utext = "nat list"

abbreviation NL :: nat where "NL \<equiv> 10"
abbreviation CR :: nat where "CR \<equiv> 13"

subsection \<open>Lines\<close>

text \<open>\<open>split_inclusive('\n')\<close>.\<close>

fun lines :: "utext \<Rightarrow> utext list" where
  "lines [] = []"
| "lines (c # cs) =
    (if c = NL then [c] # lines cs
     else (case lines cs of [] \<Rightarrow> [[c]] | l # ls \<Rightarrow> (c # l) # ls))"

definition strip_text :: "utext \<Rightarrow> utext \<Rightarrow> utext option" where
  "strip_text p s = (if take (length p) s = p then Some (drop (length p) s) else None)"

definition starts_with :: "utext \<Rightarrow> utext \<Rightarrow> bool" where
  "starts_with p s \<longleftrightarrow> take (length p) s = p"

definition ends_with :: "utext \<Rightarrow> utext \<Rightarrow> bool" where
  "ends_with p s \<longleftrightarrow> starts_with (rev p) (rev s)"

fun find_nl :: "utext \<Rightarrow> nat option" where
  "find_nl [] = None"
| "find_nl (c # cs) = (if c = NL then Some 0 else map_option Suc (find_nl cs))"

definition starts_line :: "utext \<Rightarrow> bool" where
  "starts_line t \<longleftrightarrow> starts_with [NL] t \<or> starts_with [CR, NL] t"

fun line_ending_style :: "utext list \<Rightarrow> utext" where
  "line_ending_style [] = [NL]"
| "line_ending_style (t # ts) =
    (case find_nl t of
       Some i \<Rightarrow> if 0 < i \<and> t ! (i - 1) = CR then [CR, NL] else [NL]
     | None \<Rightarrow> line_ending_style ts)"

subsection \<open>Interning\<close>

text \<open>The table maps a line to its number; \<open>u32::try_from(len).unwrap_or(u32::MAX)\<close> saturates.\<close>

definition u32_of :: "nat \<Rightarrow> nat" where
  "u32_of n = (if int n < 2 ^ 32 then n else nat (2 ^ 32 - 1))"

fun intern :: "('a \<times> nat) list \<Rightarrow> 'a list \<Rightarrow> ('a \<times> nat) list \<times> nat list" where
  "intern table [] = (table, [])"
| "intern table (l # ls) =
    (case map_of table l of
       Some v \<Rightarrow> (let (table, ids) = intern table ls in (table, v # ids))
     | None \<Rightarrow> (let v = u32_of (length table); (table, ids) = intern (table @ [(l, v)]) ls in (table, v # ids)))"

subsection \<open>The line merge\<close>

text \<open>\<open>in_first[i] = Some(j)\<close> for every aligned pair.\<close>

fun place_pairs :: "nat option list \<Rightarrow> (nat \<times> nat) list \<Rightarrow> crash + nat option list" where
  "place_pairs v [] = Ok v"
| "place_pairs v ((i, j) # ps) = rbind (vset v i (Some j)) (\<lambda>v. place_pairs v ps)"

text \<open>The next base line, from \<open>i\<close> on, aligned on both sides.\<close>

function next_stable :: "nat \<Rightarrow> nat option list \<Rightarrow> nat option list \<Rightarrow> nat \<Rightarrow> crash + nat option" where
  "next_stable n in1 in2 i =
    (if i < n then
       rbind (vget in1 i) (\<lambda>p.
       if p = None then next_stable n in1 in2 (i + 1)
       else rbind (vget in2 i) (\<lambda>q. if q = None then next_stable n in1 in2 (i + 1) else Ok (Some i)))
     else Ok None)"
  by pat_completeness auto
termination by (relation "measure (\<lambda>(n, in1, in2, i). n - i)") auto

declare next_stable.simps [simp del]

definition or_else :: "nat option \<Rightarrow> nat \<Rightarrow> nat" where
  "or_else p z = (case p of Some j \<Rightarrow> j | None \<Rightarrow> z)"

lemma next_stable_range: "next_stable n in1 in2 i = Inr (Some k) \<Longrightarrow> i \<le> k \<and> k < n"
proof (induction n in1 in2 i rule: next_stable.induct)
  case (1 n in1 in2 i)
  then show ?case
    by (subst (asm) (3) next_stable.simps) (fastforce simp: rbind_Ok_iff split: if_splits)
qed

function diff3_loop ::
  "utext list \<Rightarrow> utext list \<Rightarrow> utext list \<Rightarrow> nat list \<Rightarrow> nat list \<Rightarrow> nat list \<Rightarrow>
   nat option list \<Rightarrow> nat option list \<Rightarrow> nat \<Rightarrow> nat \<Rightarrow> nat \<Rightarrow> utext \<Rightarrow> crash + utext option" where
  "diff3_loop base first second b f s in1 in2 bi fi si out =
    rbind (next_stable (length b) in1 in2 bi) (\<lambda>stable.
    rbind (case stable of
             Some i \<Rightarrow> rbind (vget in1 i) (\<lambda>p. rbind (vget in2 i) (\<lambda>q. Ok (i, or_else p fi, or_else q si)))
           | None \<Rightarrow> Ok (length b, length f, length s)) (\<lambda>(bend, fend, send).
    rbind (slice b bi bend) (\<lambda>bc. rbind (slice f fi fend) (\<lambda>fc. rbind (slice s si send) (\<lambda>sc.
    rbind (if fc = sc \<or> sc = bc then rbind (slice first fi fend) (\<lambda>t. Ok (Some t))
           else if fc = bc then rbind (slice second si send) (\<lambda>t. Ok (Some t))
           else Ok None) (\<lambda>taken.
    (case taken of
       None \<Rightarrow> Ok None
     | Some t \<Rightarrow>
         let out = out @ concat t in
         (case stable of
            None \<Rightarrow> Ok (Some out)
          | Some i \<Rightarrow>
              rbind (vget base i) (\<lambda>l.
              diff3_loop base first second b f s in1 in2 (i + 1) (fend + 1) (send + 1) (out @ l))))))))))"
  by pat_completeness auto
termination
  by (relation "measure (\<lambda>(base, first, second, b, f, s, in1, in2, bi, fi, si, out). length b - bi)")
    (auto dest: next_stable_range)

declare diff3_loop.simps [simp del]

text \<open>A call of \<open>lcs_pairs\<close> inside a computation that may diverge or panic.\<close>

definition call :: "(crash + 'a) option \<Rightarrow> ('a \<Rightarrow> (crash + 'b) option) \<Rightarrow> (crash + 'b) option" where
  "call m k = (case m of None \<Rightarrow> None | Some (Inl e) \<Rightarrow> Some (Inl e) | Some (Inr x) \<Rightarrow> k x)"

lemma call_simps [simp]: "call None k = None" "call (Some (Inl e)) k = Some (Inl e)" "call (Some (Inr x)) k = k x"
  by (simp_all add: call_def)

definition diff3 :: "utext list \<Rightarrow> utext list \<Rightarrow> utext list \<Rightarrow> (crash + utext option) option" where
  "diff3 base first second =
    (let (table, b) = intern [] base;
         (table, f) = intern table first;
         (table, s) = intern table second in
     call (lcs_pairs b f) (\<lambda>pf.
     call (Some (place_pairs (replicate (length b) None) pf)) (\<lambda>in1.
     call (lcs_pairs b s) (\<lambda>ps.
     call (Some (place_pairs (replicate (length b) None) ps)) (\<lambda>in2.
     Some (diff3_loop base first second b f s in1 in2 0 0 0 []))))))"

subsection \<open>The merge of bodies\<close>

text \<open>The append-append case: the text that follows \<open>first\<close>.\<close>

definition second_append :: "utext \<Rightarrow> utext \<Rightarrow> utext \<Rightarrow> utext" where
  "second_append base ft st =
    (if base \<noteq> [] \<and> \<not> ends_with [NL] base \<and> starts_line ft then
       (case strip_text [CR, NL] st of
          Some t \<Rightarrow> t
        | None \<Rightarrow> (case strip_text [NL] st of Some t \<Rightarrow> t | None \<Rightarrow> st))
     else st)"

definition append_append :: "utext \<Rightarrow> utext \<Rightarrow> utext \<Rightarrow> utext \<Rightarrow> utext" where
  "append_append base first ft st =
    (let st = second_append base ft st in
     first @ (if ft \<noteq> [] \<and> \<not> ends_with [NL] ft \<and> \<not> starts_line st then line_ending_style [base, ft, st] else []) @ st)"

definition merge_body :: "utext \<Rightarrow> utext \<Rightarrow> utext \<Rightarrow> (crash + utext option) option" where
  "merge_body base first second =
    (if first = second \<or> second = base then Some (Ok (Some first))
     else if first = base then Some (Ok (Some second))
     else
       (case (strip_text base first, strip_text base second) of
          (Some ft, Some st) \<Rightarrow> Some (Ok (Some (append_append base first ft st)))
        | _ \<Rightarrow> diff3 (lines base) (lines first) (lines second)))"

subsection \<open>Body edits\<close>

record body_edit =
  be_start :: nat
  be_end :: nat
  be_insert :: utext

datatype body_base = BaseText utext | BaseUnavailable

datatype edit_error = OffsetOutOfRange | EditsOverlapOrUnordered | BodyConflict | BodyBaseUnavailable | EditPanic

text \<open>The closure \<open>byte\<close> on scalar offsets: the table of boundaries is the identity up to the length.\<close>

definition bound_of :: "utext \<Rightarrow> nat \<Rightarrow> nat" where
  "bound_of base off = min off (length base)"

definition cut_text :: "utext \<Rightarrow> nat \<Rightarrow> nat \<Rightarrow> edit_error + utext" where
  "cut_text t i j = (case slice t i j of Inl _ \<Rightarrow> Err EditPanic | Inr u \<Rightarrow> Ok u)"

fun edit_loop :: "utext \<Rightarrow> nat \<Rightarrow> nat option \<Rightarrow> utext \<Rightarrow> body_edit list \<Rightarrow> edit_error + utext" where
  "edit_loop base prev_end prev_insert_at out [] =
    rbind (cut_text base (bound_of base prev_end) (length base)) (\<lambda>t. Ok (out @ t))"
| "edit_loop base prev_end prev_insert_at out (e # es) =
    (if be_end e < be_start e \<or> length base < be_end e then Err OffsetOutOfRange
     else if be_start e < prev_end \<or> (be_start e = be_end e \<and> prev_insert_at = Some (be_start e)) then
       Err EditsOverlapOrUnordered
     else
       rbind (cut_text base (bound_of base prev_end) (bound_of base (be_start e))) (\<lambda>t.
       edit_loop base (be_end e) (if be_start e = be_end e then Some (be_start e) else None) (out @ t @ be_insert e) es))"

definition apply_edits :: "utext \<Rightarrow> body_edit list \<Rightarrow> edit_error + utext" where
  "apply_edits base edits = edit_loop base 0 None [] edits"

text \<open>\<open>apply_body_edits\<close>: \<open>None\<close> where the merge would not end, \<open>EditPanic\<close> where it would panic.\<close>

definition apply_body_edits :: "utext \<Rightarrow> body_base \<Rightarrow> body_edit list \<Rightarrow> (edit_error + utext) option" where
  "apply_body_edits current base edits =
    (case base of
       BaseText b \<Rightarrow>
         if b = current then Some (apply_edits current edits)
         else
           (case apply_edits b edits of
              Inl e \<Rightarrow> Some (Err e)
            | Inr edited \<Rightarrow>
                map_option (\<lambda>r. case r of
                    Inl _ \<Rightarrow> Err EditPanic
                  | Inr None \<Rightarrow> Err BodyConflict
                  | Inr (Some body) \<Rightarrow> Ok body) (merge_body b current edited))
     | BaseUnavailable \<Rightarrow> Some (Err BodyBaseUnavailable))"

end
