(* ===== verification/EditGraph.thy ===== *)
theory EditGraph
  imports Prelude
begin

text \<open>
  Longest common subsequences and the edit graph, the reference the difference algorithm of
  \<open>core/src/merge/diff.rs\<close> is judged by.  A comparison of two lists is a relation \<open>M i j\<close> on
  their indices (\<open>a[i] = b[j]\<close>, false outside the lists).  \<open>lc M x y\<close> is the length of a longest
  common subsequence of the first \<open>x\<close> and the first \<open>y\<close> elements, \<open>ed M x y\<close> the number of
  insertions and deletions on a shortest path of the edit graph from the origin to \<open>(x, y)\<close>.
\<close>

subsection \<open>The length of a longest common subsequence\<close>

fun lc :: "(nat \<Rightarrow> nat \<Rightarrow> bool) \<Rightarrow> nat \<Rightarrow> nat \<Rightarrow> nat" where
  "lc M 0 y = 0"
| "lc M (Suc x) 0 = 0"
| "lc M (Suc x) (Suc y) = (if M x y then Suc (lc M x y) else max (lc M x (Suc y)) (lc M (Suc x) y))"

lemma lc_0 [simp]: "lc M x 0 = 0"
  by (cases x) simp_all

lemma lc_steps:
  "lc M x y \<le> lc M (Suc x) y \<and> lc M (Suc x) y \<le> Suc (lc M x y) \<and>
   lc M x y \<le> lc M x (Suc y) \<and> lc M x (Suc y) \<le> Suc (lc M x y)"
proof (induction "x + y" arbitrary: x y rule: less_induct)
  case less
  have right: "lc M x y \<le> lc M (Suc x) y \<and> lc M (Suc x) y \<le> Suc (lc M x y)"
  proof (cases y)
    case (Suc z)
    then show ?thesis using less [of x z] by auto
  qed simp
  have down: "lc M x y \<le> lc M x (Suc y) \<and> lc M x (Suc y) \<le> Suc (lc M x y)"
  proof (cases x)
    case (Suc z)
    then show ?thesis using less [of z y] by auto
  qed simp
  show ?case using right down by blast
qed

lemma lc_right: "lc M x y \<le> lc M (Suc x) y" "lc M (Suc x) y \<le> Suc (lc M x y)"
  and lc_down: "lc M x y \<le> lc M x (Suc y)" "lc M x (Suc y) \<le> Suc (lc M x y)"
  using lc_steps [of M x y] by blast+

lemma lc_diagonal: "lc M (Suc x) (Suc y) \<le> Suc (lc M x y)"
  using lc_right(2) [of M x y] lc_down(2) [of M x y] by simp

lemma lc_bound: "lc M x y \<le> x \<and> lc M x y \<le> y"
  by (induction M x y rule: lc.induct) auto

text \<open>Outside the lists nothing matches.\<close>

lemma lc_past_right: "(\<And>i j. n \<le> i \<Longrightarrow> \<not> M i j) \<Longrightarrow> lc M (n + e) y = lc M n y"
proof (induction "e + y" arbitrary: e y rule: less_induct)
  case less
  show ?case
  proof (cases e; cases y)
    fix e' y' assume e: "e = Suc e'" "y = Suc y'"
    have "lc M (n + e') (Suc y') = lc M n (Suc y')" "lc M (n + e) y' = lc M n y'"
      using less.hyps [of e' "Suc y'"] less.hyps [of e y'] less.prems e by simp_all
    moreover have "\<not> M (n + e') y'" using less.prems by simp
    ultimately show ?thesis using lc_down(1) [of M n y'] e by simp
  qed simp_all
qed

lemma lc_past_down: "(\<And>i j. m \<le> j \<Longrightarrow> \<not> M i j) \<Longrightarrow> lc M x (m + e) = lc M x m"
proof (induction "e + x" arbitrary: e x rule: less_induct)
  case less
  show ?case
  proof (cases e; cases x)
    fix e' x' assume e: "e = Suc e'" "x = Suc x'"
    have "lc M (Suc x') (m + e') = lc M (Suc x') m" "lc M x' (m + e) = lc M x' m"
      using less.hyps [of e' "Suc x'"] less.hyps [of e x'] less.prems e by simp_all
    moreover have "\<not> M x' (m + e')" using less.prems by simp
    ultimately show ?thesis using lc_right(1) [of M x' m] e by simp
  qed simp_all
qed

subsection \<open>Matchings\<close>

text \<open>A matching lists pairs of matching indices, increasing in both components: a common
  subsequence with its positions.\<close>

definition below :: "nat \<times> nat \<Rightarrow> nat \<times> nat \<Rightarrow> bool" where
  "below p q \<longleftrightarrow> fst p < fst q \<and> snd p < snd q"

definition matching :: "(nat \<Rightarrow> nat \<Rightarrow> bool) \<Rightarrow> nat \<Rightarrow> nat \<Rightarrow> (nat \<times> nat) list \<Rightarrow> bool" where
  "matching M x y ps \<longleftrightarrow> sorted_wrt below ps \<and> (\<forall>(i, j) \<in> set ps. i < x \<and> j < y \<and> M i j)"

lemma no_pairs: "\<forall>(i, j) \<in> set ps. False \<Longrightarrow> length ps = 0"
  by (cases ps) auto

lemma matching_upper: "matching M x y ps \<Longrightarrow> length ps \<le> lc M x y"
proof (induction M x y arbitrary: ps rule: lc.induct)
  case (3 M x y)
  show ?case
  proof (cases ps rule: rev_cases)
    case (snoc qs p)
    obtain i j where p: "p = (i, j)" by (cases p)
    have qs: "\<forall>(i', j') \<in> set qs. i' < i \<and> j' < j \<and> M i' j'" "sorted_wrt below qs"
      and ij: "i \<le> x" "j \<le> y" "M i j"
      using 3(4) snoc p by (auto simp: matching_def sorted_wrt_append below_def)
    have edge: "length ps \<le> max (lc M x (Suc y)) (lc M (Suc x) y)" if "(i, j) \<noteq> (x, y)" "\<not> M x y"
    proof (cases "i < x")
      case True
      then have "matching M x (Suc y) ps"
        using 3(4) snoc p qs ij by (force simp: matching_def)
      then show ?thesis using 3(2) that(2) by fastforce
    next
      case False
      then have "j < y" using ij that by auto
      then have "matching M (Suc x) y ps" using 3(4) snoc p qs ij by (force simp: matching_def)
      then show ?thesis using 3(3) that(2) by fastforce
    qed
    have inner: "length qs \<le> lc M x y" if "M x y"
    proof -
      have "matching M x y qs" using qs ij by (force simp: matching_def)
      then show ?thesis using 3(1) that by blast
    qed
    show ?thesis
    proof (cases "M x y")
      case True
      then show ?thesis using inner snoc by simp
    next
      case False
      then have "(i, j) \<noteq> (x, y)" using ij by auto
      then show ?thesis using edge False by simp
    qed
  qed simp
qed (simp_all add: matching_def no_pairs)

lemma matching_attained: "\<exists>ps. matching M x y ps \<and> length ps = lc M x y"
proof (induction M x y rule: lc.induct)
  case (3 M x y)
  show ?case
  proof (cases "M x y")
    case True
    then obtain ps where "matching M x y ps" "length ps = lc M x y" using 3(1) by blast
    then have "matching M (Suc x) (Suc y) (ps @ [(x, y)]) \<and> length (ps @ [(x, y)]) = lc M (Suc x) (Suc y)"
      using True by (force simp: matching_def sorted_wrt_append below_def)
    then show ?thesis by blast
  next
    case False
    obtain ps qs where "matching M x (Suc y) ps" "length ps = lc M x (Suc y)" "matching M (Suc x) y qs" "length qs = lc M (Suc x) y"
      using 3(2,3) False by blast
    then have "matching M (Suc x) (Suc y) ps" "matching M (Suc x) (Suc y) qs"
      by (force simp: matching_def)+
    then show ?thesis using False \<open>length ps = _\<close> \<open>length qs = _\<close> by (auto simp: max_def)
  qed
qed (auto simp: matching_def)

subsection \<open>Two ends\<close>

text \<open>The comparison read from the far end: a path of the reversed edit graph.\<close>

definition flip_match :: "nat \<Rightarrow> nat \<Rightarrow> (nat \<Rightarrow> nat \<Rightarrow> bool) \<Rightarrow> nat \<Rightarrow> nat \<Rightarrow> bool" where
  "flip_match n m M i j \<longleftrightarrow> i < n \<and> j < m \<and> M (n - 1 - i) (m - 1 - j)"

lemma flip_flip: "i < n \<Longrightarrow> j < m \<Longrightarrow> flip_match n m (flip_match n m M) i j \<longleftrightarrow> M i j"
  by (auto simp: flip_match_def)

lemma matching_flip:
  assumes "matching (flip_match n m M) x y ps" "x \<le> n" "y \<le> m"
  shows "matching M n m (rev (map (\<lambda>(i, j). (n - 1 - i, m - 1 - j)) ps))
    \<and> (\<forall>(i, j) \<in> set (map (\<lambda>(i, j). (n - 1 - i, m - 1 - j)) ps). n - x \<le> i \<and> m - y \<le> j)"
proof
  have s: "sorted_wrt below ps" and e: "\<forall>(i, j) \<in> set ps. i < x \<and> j < y \<and> flip_match n m M i j"
    using assms(1) by (auto simp: matching_def)
  have "sorted_wrt (\<lambda>p q. below q p) (map (\<lambda>(i, j). (n - 1 - i, m - 1 - j)) ps)"
    unfolding sorted_wrt_map
    by (rule sorted_wrt_mono_rel [OF _ s]) (use e assms in \<open>fastforce simp: below_def flip_match_def\<close>)
  then show "matching M n m (rev (map (\<lambda>(i, j). (n - 1 - i, m - 1 - j)) ps))"
    using e by (fastforce simp: matching_def sorted_wrt_rev flip_match_def)
  show "\<forall>(i, j) \<in> set (map (\<lambda>(i, j). (n - 1 - i, m - 1 - j)) ps). n - x \<le> i \<and> m - y \<le> j"
    using e assms(2,3) by fastforce
qed

text \<open>Common subsequences of the two parts of a split join to one of the whole.\<close>

lemma lc_split:
  assumes "x \<le> n" "y \<le> m"
  shows "lc M x y + lc (flip_match n m M) (n - x) (m - y) \<le> lc M n m"
proof -
  obtain ps where ps: "matching M x y ps" "length ps = lc M x y" using matching_attained by blast
  obtain qs where qs: "matching (flip_match n m M) (n - x) (m - y) qs" "length qs = lc (flip_match n m M) (n - x) (m - y)"
    using matching_attained by blast
  let ?r = "rev (map (\<lambda>(i, j). (n - 1 - i, m - 1 - j)) qs)"
  have r: "matching M n m ?r" "\<forall>(i, j) \<in> set ?r. x \<le> i \<and> y \<le> j"
    using matching_flip [OF qs(1)] assms by auto
  have "matching M n m (ps @ ?r)"
    using ps(1) r assms by (fastforce simp: matching_def sorted_wrt_append below_def)
  from matching_upper [OF this] show ?thesis using ps(2) qs(2) by simp
qed

lemma lc_cong: "(\<And>i j. i < x \<Longrightarrow> j < y \<Longrightarrow> M i j = M' i j) \<Longrightarrow> lc M x y = lc M' x y"
  by (induction M x y rule: lc.induct) auto

lemma lc_flip: "lc (flip_match n m M) n m = lc M n m"
proof (rule antisym)
  show "lc (flip_match n m M) n m \<le> lc M n m" using lc_split [of 0 n 0 m M] by simp
  have "lc (flip_match n m (flip_match n m M)) n m \<le> lc (flip_match n m M) n m"
    using lc_split [of 0 n 0 m "flip_match n m M"] by simp
  moreover have "lc (flip_match n m (flip_match n m M)) n m = lc M n m" by (rule lc_cong) (rule flip_flip)
  ultimately show "lc M n m \<le> lc (flip_match n m M) n m" by simp
qed

subsection \<open>Distances\<close>

text \<open>The number of edits from the origin to a point; the coordinates are integers, as in the
  algorithm.\<close>

definition ed :: "(nat \<Rightarrow> nat \<Rightarrow> bool) \<Rightarrow> int \<Rightarrow> int \<Rightarrow> int" where
  "ed M x y = x + y - 2 * int (lc M (nat x) (nat y))"

lemma nat_succ: "0 \<le> x \<Longrightarrow> nat (x + 1) = Suc (nat x)"
  by simp

lemma ed_right: "0 \<le> x \<Longrightarrow> ed M (x + 1) y \<le> ed M x y + 1" "0 \<le> x \<Longrightarrow> ed M x y \<le> ed M (x + 1) y + 1"
  using lc_right [of M "nat x" "nat y"] by (auto simp: ed_def nat_succ simp del: nat_add_distrib)

lemma ed_down: "0 \<le> y \<Longrightarrow> ed M x (y + 1) \<le> ed M x y + 1" "0 \<le> y \<Longrightarrow> ed M x y \<le> ed M x (y + 1) + 1"
  using lc_down [of M "nat x" "nat y"] by (auto simp: ed_def nat_succ)

lemma ed_diagonal: "0 \<le> x \<Longrightarrow> 0 \<le> y \<Longrightarrow> ed M x y \<le> ed M (x + 1) (y + 1)"
  using lc_diagonal [of M "nat x" "nat y"] by (simp add: ed_def nat_succ del: lc.simps)

lemma ed_match: "0 \<le> x \<Longrightarrow> 0 \<le> y \<Longrightarrow> M (nat x) (nat y) \<Longrightarrow> ed M (x + 1) (y + 1) = ed M x y"
  by (simp add: ed_def nat_succ)

lemma ed_mismatch:
  "0 \<le> x \<Longrightarrow> 0 \<le> y \<Longrightarrow> \<not> M (nat x) (nat y) \<Longrightarrow> ed M (x + 1) (y + 1) = 1 + min (ed M x (y + 1)) (ed M (x + 1) y)"
  by (simp add: ed_def nat_succ max_def min_def)

lemma ed_parity: "even (ed M x y - (x - y))"
  by (simp add: ed_def)

lemma ed_abs: "0 \<le> x \<Longrightarrow> 0 \<le> y \<Longrightarrow> \<bar>x - y\<bar> \<le> ed M x y"
  using lc_bound [of M "nat x" "nat y"] by (simp add: ed_def) linarith

lemma ed_origin [simp]: "ed M 0 y = y" "ed M x 0 = x"
  by (simp_all add: ed_def)

lemma ed_along_nat: "0 \<le> x \<Longrightarrow> 0 \<le> y \<Longrightarrow> ed M x y \<le> ed M (x + int t) (y + int t)"
proof (induction t)
  case (Suc t)
  then show ?case using ed_diagonal [of "x + int t" "y + int t" M] by (simp add: algebra_simps)
qed simp

lemma ed_along: "0 \<le> x \<Longrightarrow> 0 \<le> y \<Longrightarrow> x \<le> x' \<Longrightarrow> x' - y' = x - y \<Longrightarrow> ed M x y \<le> ed M x' y'"
  using ed_along_nat [of x y M "nat (x' - x)"] by (simp add: algebra_simps)

text \<open>A run of matches along a diagonal is free.\<close>

lemma ed_snake_nat:
  "0 \<le> x \<Longrightarrow> 0 \<le> y \<Longrightarrow> (\<forall>s<t. M (nat (x + int s)) (nat (y + int s))) \<Longrightarrow> ed M (x + int t) (y + int t) = ed M x y"
proof (induction t)
  case (Suc t)
  then show ?case using ed_match [of "x + int t" "y + int t" M] by (simp add: algebra_simps)
qed simp

text \<open>Beyond the lists every step is an edit.\<close>

lemma ed_past_right:
  assumes "\<And>i j. n \<le> i \<Longrightarrow> \<not> M i j" "int n \<le> x"
  shows "ed M x y = (x - int n) + ed M (int n) y"
proof -
  have "nat x = n + nat (x - int n)" using assms(2) by simp
  then have "lc M (nat x) (nat y) = lc M n (nat y)" using lc_past_right [of n M "nat (x - int n)"] assms(1) by metis
  then show ?thesis by (simp add: ed_def)
qed

lemma ed_past_down:
  assumes "\<And>i j. m \<le> j \<Longrightarrow> \<not> M i j" "int m \<le> y"
  shows "ed M x y = (y - int m) + ed M x (int m)"
proof -
  have "nat y = m + nat (y - int m)" using assms(2) by simp
  then have "lc M (nat x) (nat y) = lc M (nat x) m" using lc_past_down [of m M _ "nat (y - int m)"] assms(1) by metis
  then show ?thesis by (simp add: ed_def)
qed

text \<open>The triangle inequality through a point of the grid, and the points on shortest paths.\<close>

lemma ed_triangle:
  assumes "0 \<le> x" "x \<le> int n" "0 \<le> y" "y \<le> int m"
  shows "ed M (int n) (int m) \<le> ed M x y + ed (flip_match n m M) (int n - x) (int m - y)"
proof -
  have "lc M (nat x) (nat y) + lc (flip_match n m M) (n - nat x) (m - nat y) \<le> lc M n m"
    using assms by (intro lc_split) auto
  moreover have "nat (int n - x) = n - nat x" "nat (int m - y) = m - nat y" using assms by simp_all
  ultimately show ?thesis by (simp add: ed_def)
qed

lemma ed_flip: "ed (flip_match n m M) (int n) (int m) = ed M (int n) (int m)"
  by (simp add: ed_def lc_flip)

lemma shortest_through:
  assumes "0 \<le> x" "x \<le> int n" "0 \<le> y" "y \<le> int m" "0 \<le> t" "t \<le> ed M x y"
    and "ed M x y + ed (flip_match n m M) (int n - x) (int m - y) = ed M (int n) (int m)"
  shows "\<exists>u v. 0 \<le> u \<and> u \<le> x \<and> 0 \<le> v \<and> v \<le> y \<and> ed M u v = t
    \<and> ed M u v + ed (flip_match n m M) (int n - u) (int m - v) = ed M (int n) (int m)"
  using assms
proof (induction "nat (x + y)" arbitrary: x y rule: less_induct)
  case less
  note p = less.prems
  show ?case
  proof (cases "ed M x y = t")
    case True
    then show ?thesis using p by blast
  next
    case False
    then have lt: "t < ed M x y" using p by simp
    have via: ?thesis if "0 \<le> u" "u \<le> x" "0 \<le> v" "v \<le> y" "u + v < x + y" "t \<le> ed M u v"
      "ed M u v + ed (flip_match n m M) (int n - u) (int m - v) \<le> ed M (int n) (int m)" for u v
    proof -
      have "ed M u v + ed (flip_match n m M) (int n - u) (int m - v) = ed M (int n) (int m)"
        using that p ed_triangle [of u n v m M] by simp
      then have "\<exists>u' v'. 0 \<le> u' \<and> u' \<le> u \<and> 0 \<le> v' \<and> v' \<le> v \<and> ed M u' v' = t
          \<and> ed M u' v' + ed (flip_match n m M) (int n - u') (int m - v') = ed M (int n) (int m)"
        using less.hyps [of u v] that p by simp
      then obtain u' v' where "0 \<le> u'" "u' \<le> u" "0 \<le> v'" "v' \<le> v" "ed M u' v' = t"
        "ed M u' v' + ed (flip_match n m M) (int n - u') (int m - v') = ed M (int n) (int m)" by blast
      then show ?thesis using that(2,4) by (intro exI [of _ u'] exI [of _ v']) simp
    qed
    have left: ?thesis if "0 < x" "ed M (x - 1) y = ed M x y - 1"
    proof -
      have "ed (flip_match n m M) (int n - (x - 1)) (int m - y) \<le> ed (flip_match n m M) (int n - x) (int m - y) + 1"
        using ed_right(1) [of "int n - x" "flip_match n m M" "int m - y"] p by (simp add: algebra_simps)
      then show ?thesis using via [of "x - 1" y] that p lt by simp
    qed
    have up: ?thesis if "0 < y" "ed M x (y - 1) = ed M x y - 1"
    proof -
      have "ed (flip_match n m M) (int n - x) (int m - (y - 1)) \<le> ed (flip_match n m M) (int n - x) (int m - y) + 1"
        using ed_down(1) [of "int m - y" "flip_match n m M" "int n - x"] p by (simp add: algebra_simps)
      then show ?thesis using via [of x "y - 1"] that p lt by simp
    qed
    consider "x = 0" "y = 0" | "x = 0" "0 < y" | "0 < x" "y = 0" | "0 < x" "0 < y" using p by linarith
    then show ?thesis
    proof cases
      case 4
      show ?thesis
      proof (cases "M (nat (x - 1)) (nat (y - 1))")
        case True
        have "ed M x y = ed M (x - 1) (y - 1)" using ed_match [of "x - 1" "y - 1" M] 4 True by simp
        moreover have "ed (flip_match n m M) (int n - (x - 1)) (int m - (y - 1)) = ed (flip_match n m M) (int n - x) (int m - y)"
        proof -
          have "n - 1 - nat (int n - x) = nat (x - 1)" "m - 1 - nat (int m - y) = nat (y - 1)" using p 4 by linarith+
          then have "flip_match n m M (nat (int n - x)) (nat (int m - y))" using True 4 p by (simp add: flip_match_def) linarith
          then show ?thesis using ed_match [of "int n - x" "int m - y" "flip_match n m M"] p by (simp add: algebra_simps)
        qed
        ultimately show ?thesis using via [of "x - 1" "y - 1"] 4 p lt by simp
      next
        case False
        then have "ed M x y = 1 + min (ed M (x - 1) y) (ed M x (y - 1))"
          using ed_mismatch [of "x - 1" "y - 1" M] 4 by simp
        then show ?thesis using left up 4 by (auto simp: min_def split: if_splits)
      qed
    qed (use lt p left up in auto)
  qed
qed

end
