(* ===== verification/DiffFrontier.thy ===== *)
theory DiffFrontier
  imports EditGraph MergeDiff
begin

text \<open>
  The frontier of the difference algorithm.  A pass \<open>d\<close> stores for the diagonals of its parity how
  far a path with \<open>d\<close> edits can get.  The code drops diagonals that ran off the grid by shrinking
  the range of later passes, so the stored frontier is only sound on every diagonal, and exact on
  the \<open>alive\<close> ones: those with no diagonal off the right edge at or below them and none off the
  bottom edge at or above them.  Both directions of the algorithm are instances.
\<close>

locale comparison =
  fixes M :: "nat \<Rightarrow> nat \<Rightarrow> bool"
    and N K :: nat
    and eq :: "int \<Rightarrow> int \<Rightarrow> crash + bool"
  assumes inside: "M i j \<Longrightarrow> i < N \<and> j < K"
    and eq: "0 \<le> x \<Longrightarrow> x < int N \<Longrightarrow> 0 \<le> y \<Longrightarrow> y < int K \<Longrightarrow> eq x y = Inr (M (nat x) (nat y))"
begin

definition reached :: "int \<Rightarrow> int \<Rightarrow> int \<Rightarrow> bool" where
  "reached e k x \<longleftrightarrow> 0 \<le> x \<and> k \<le> x \<and> ed M x (x - k) \<le> e"

definition furthest :: "int \<Rightarrow> int \<Rightarrow> int \<Rightarrow> bool" where
  "furthest e k x \<longleftrightarrow> reached e k x \<and> e < ed M (x + 1) (x + 1 - k)"

definition off_right :: "int \<Rightarrow> int \<Rightarrow> bool" where
  "off_right e k \<longleftrightarrow> reached e k (max (int N + 1) k)"

definition off_down :: "int \<Rightarrow> int \<Rightarrow> bool" where
  "off_down e k \<longleftrightarrow> reached e k (max (int K + 1 + k) 0)"

definition on_pass :: "int \<Rightarrow> int \<Rightarrow> bool" where
  "on_pass e k \<longleftrightarrow> - e \<le> k \<and> k \<le> e \<and> even (e - k)"

definition alive :: "int \<Rightarrow> int \<Rightarrow> bool" where
  "alive e k \<longleftrightarrow> on_pass e k \<and> (\<forall>k'\<le>k. on_pass e k' \<longrightarrow> \<not> off_right e k') \<and> (\<forall>k'\<ge>k. on_pass e k' \<longrightarrow> \<not> off_down e k')"

lemma reached_mono: "reached e k x \<Longrightarrow> e \<le> e' \<Longrightarrow> reached e' k x"
  by (simp add: reached_def)

lemma reached_less: "reached e k x \<Longrightarrow> 0 \<le> x' \<Longrightarrow> k \<le> x' \<Longrightarrow> x' \<le> x \<Longrightarrow> reached e k x'"
  using ed_along [of x' "x' - k" x "x - k" M] by (simp add: reached_def)

lemma reached_right: "reached e k x \<Longrightarrow> reached (e + 1) (k + 1) (x + 1)"
  using ed_right(1) [of x M "x - k"] by (simp add: reached_def)

lemma reached_down: "reached e k x \<Longrightarrow> reached (e + 1) (k - 1) x"
  using ed_down(1) [of "x - k" M x] by (simp add: reached_def algebra_simps)

lemma reached_abs: "reached e k x \<Longrightarrow> \<bar>k\<bar> \<le> e"
  using ed_abs [of x "x - k" M] by (simp add: reached_def)

lemma furthest_max:
  assumes "furthest e k x" "reached e k x'"
  shows "x' \<le> x"
proof (rule ccontr)
  assume "\<not> x' \<le> x"
  then have "reached e k (x + 1)" using assms by (intro reached_less [OF assms(2)]) (auto simp: furthest_def reached_def)
  then show False using assms(1) by (simp add: furthest_def reached_def)
qed

lemma reached_off_right: "reached e k x \<Longrightarrow> int N < x \<Longrightarrow> off_right e k"
  unfolding off_right_def by (rule reached_less, assumption) (auto simp: reached_def)

lemma reached_off_down: "reached e k x \<Longrightarrow> int K < x - k \<Longrightarrow> off_down e k"
  unfolding off_down_def by (rule reached_less, assumption) (auto simp: reached_def)

lemma off_right_step: "off_right e k \<Longrightarrow> off_right (e + 1) (k + 1)"
  unfolding off_right_def by (drule reached_right, erule reached_less) auto

lemma off_right_step_down: "off_right e k \<Longrightarrow> off_right (e + 1) (k - 1)"
  unfolding off_right_def by (drule reached_down, erule reached_less) auto

lemma off_down_step: "off_down e k \<Longrightarrow> off_down (e + 1) (k - 1)"
  unfolding off_down_def by (drule reached_down, erule reached_less) auto

lemma off_down_step_right: "off_down e k \<Longrightarrow> off_down (e + 1) (k + 1)"
  unfolding off_down_def by (drule reached_right, erule reached_less) auto

lemma on_pass_step: "on_pass e k \<Longrightarrow> on_pass (e + 1) (k + 1)" "on_pass e k \<Longrightarrow> on_pass (e + 1) (k - 1)"
  by (auto simp: on_pass_def)

text \<open>The diagonals next to an alive one were alive in the pass before.\<close>

lemma alive_left:
  assumes "alive (e + 1) k" "- e \<le> k - 1"
  shows "alive e (k - 1)"
proof -
  have "on_pass e (k - 1)" using assms by (auto simp: alive_def on_pass_def)
  moreover have "\<not> off_right e k'" if "k' \<le> k - 1" "on_pass e k'" for k'
    using assms(1) that off_right_step [of e k'] on_pass_step(1) [OF that(2)] by (auto simp: alive_def)
  moreover have "\<not> off_down e k'" if "k - 1 \<le> k'" "on_pass e k'" for k'
    using assms(1) that off_down_step_right [of e k'] on_pass_step(1) [OF that(2)] by (auto simp: alive_def)
  ultimately show ?thesis by (simp add: alive_def)
qed

lemma alive_right:
  assumes "alive (e + 1) k" "k + 1 \<le> e"
  shows "alive e (k + 1)"
proof -
  have "on_pass e (k + 1)" using assms by (auto simp: alive_def on_pass_def)
  moreover have "\<not> off_right e k'" if "k' \<le> k + 1" "on_pass e k'" for k'
    using assms(1) that off_right_step_down [of e k'] on_pass_step(2) [OF that(2)] by (auto simp: alive_def)
  moreover have "\<not> off_down e k'" if "k + 1 \<le> k'" "on_pass e k'" for k'
    using assms(1) that off_down_step [of e k'] on_pass_step(2) [OF that(2)] by (auto simp: alive_def)
  ultimately show ?thesis by (simp add: alive_def)
qed

text \<open>Following a diagonal of matches to its end.\<close>

lemma snake_end:
  assumes "0 \<le> x" "0 \<le> y"
  shows "\<exists>t. snake eq (int N) (int K) x y = Inr (x + int t, y + int t)
    \<and> ed M (x + int t) (y + int t) = ed M x y \<and> \<not> M (nat (x + int t)) (nat (y + int t))"
  using assms
proof (induction "nat (int N - x)" arbitrary: x y rule: less_induct)
  case less
  show ?case
  proof (cases "x < int N \<and> y < int K \<and> M (nat x) (nat y)")
    case True
    then obtain t where t: "snake eq (int N) (int K) (x + 1) (y + 1) = Inr (x + 1 + int t, y + 1 + int t)"
      "ed M (x + 1 + int t) (y + 1 + int t) = ed M (x + 1) (y + 1)" "\<not> M (nat (x + 1 + int t)) (nat (y + 1 + int t))"
      using less.hyps [of "x + 1" "y + 1"] less.prems by auto
    have "snake eq (int N) (int K) x y = snake eq (int N) (int K) (x + 1) (y + 1)"
      using True less.prems by (subst snake.simps) (simp add: eq)
    then show ?thesis
      using t True less.prems ed_match [of x y M] by (intro exI [of _ "Suc t"]) (simp add: algebra_simps)
  next
    case False
    then have "snake eq (int N) (int K) x y = Inr (x, y)" using less.prems by (subst snake.simps) (auto simp: eq)
    moreover have "\<not> M (nat x) (nat y)" using False inside [of "nat x" "nat y"] less.prems by auto
    ultimately show ?thesis by (intro exI [of _ 0]) simp
  qed
qed

text \<open>The recurrence of the frontier.\<close>

lemma furthest_step:
  assumes left: "- e \<le> k - 1 \<Longrightarrow> furthest e (k - 1) p" and right: "k + 1 \<le> e \<Longrightarrow> furthest e (k + 1) q"
    and "- (e + 1) \<le> k" "k \<le> e + 1" "0 \<le> e"
    and x0: "x0 = (if k = - (e + 1) \<or> k \<noteq> e + 1 \<and> p < q then q else p + 1)"
    and X: "x0 \<le> X" "0 \<le> X" "k \<le> X" "ed M X (X - k) \<le> e + 1" "\<not> M (nat X) (nat (X - k))"
  shows "furthest (e + 1) k X"
proof -
  have "e + 1 \<le> ed M X (X - k + 1)"
  proof (cases "- e \<le> k - 1")
    case True
    then have p: "furthest e (k - 1) p" by (rule left)
    then have "p + 1 \<le> X" using X(1) x0 True by (auto split: if_splits)
    then have "\<not> reached e (k - 1) X" using furthest_max [OF p, of X] by auto
    then show ?thesis using X(2,3) by (simp add: reached_def algebra_simps)
  next
    case False
    then show ?thesis using ed_abs [of X "X - k + 1" M] X(2,3) assms(3) by simp
  qed
  moreover have "e + 1 \<le> ed M (X + 1) (X - k)"
  proof (cases "k + 1 \<le> e")
    case True
    then have q: "furthest e (k + 1) q" by (rule right)
    then have "q \<le> X" using X(1) x0 True by (auto split: if_splits)
    then have "\<not> reached e (k + 1) (X + 1)" using furthest_max [OF q, of "X + 1"] by auto
    then show ?thesis using X(2,3) by (simp add: reached_def algebra_simps)
  next
    case False
    then show ?thesis using ed_abs [of "X + 1" "X - k" M] X(2,3) assms(4) by simp
  qed
  ultimately have "e + 1 < ed M (X + 1) (X - k + 1)"
    using ed_mismatch [of X "X - k" M] X(2,3,5) by simp
  then show ?thesis using X by (simp add: furthest_def reached_def algebra_simps)
qed

subsection \<open>The state of a pass\<close>

text \<open>An entry of the frontier of diagonal \<open>k\<close> (the code stores it at \<open>offset + k\<close>) is unset or
  reached.\<close>

definition stored :: "int \<Rightarrow> int \<Rightarrow> int \<Rightarrow> bool" where
  "stored e k x \<longleftrightarrow> x = - 1 \<or> reached e k x"

definition at_k :: "int \<Rightarrow> int list \<Rightarrow> int \<Rightarrow> int" where
  "at_k off v k = v ! nat (off + k)"

definition trim_right :: "int \<Rightarrow> int \<Rightarrow> bool" where
  "trim_right d ke \<longleftrightarrow> ke = 0 \<or> (\<exists>k \<le> d - ke + 2. on_pass d k \<and> off_right d k)"

definition trim_left :: "int \<Rightarrow> int \<Rightarrow> bool" where
  "trim_left d ks \<longleftrightarrow> ks = 0 \<or> (\<exists>k \<ge> - d + ks - 2. on_pass d k \<and> off_down d k)"

text \<open>The entries a pass \<open>e\<close> is responsible for are sound, and exact where alive.\<close>

definition sound :: "int \<Rightarrow> int \<Rightarrow> int list \<Rightarrow> bool" where
  "sound off e v \<longleftrightarrow> (\<forall>k. - off \<le> k \<longrightarrow> k \<le> off + 1 \<longrightarrow> even (e - k) \<longrightarrow> stored e k (at_k off v k))"

definition exact_below :: "int \<Rightarrow> int \<Rightarrow> int \<Rightarrow> int list \<Rightarrow> bool" where
  "exact_below off e b v \<longleftrightarrow> (\<forall>k < b. alive e k \<longrightarrow> furthest e k (at_k off v k))"

text \<open>A contiguous range of set entries that covers the diagonals next to those of the next pass.\<close>

definition covers :: "int \<Rightarrow> int \<Rightarrow> int \<Rightarrow> int \<Rightarrow> int list \<Rightarrow> bool" where
  "covers off e l r v \<longleftrightarrow> (\<exists>lo hi. - e \<le> lo \<and> lo \<le> hi \<and> hi \<le> e \<and> even (e - lo) \<and> even (e - hi) \<and> lo \<le> l \<and> r \<le> hi
     \<and> (\<forall>k. lo \<le> k \<longrightarrow> k \<le> hi \<longrightarrow> even (e - k) \<longrightarrow> at_k off v k \<noteq> - 1))"

text \<open>The entries of the parity of pass \<open>d\<close> before it: those of pass \<open>d - 2\<close>, or for \<open>d = 1\<close> the
  seed of the first pass.\<close>

definition stale :: "int \<Rightarrow> int \<Rightarrow> int \<Rightarrow> int list \<Rightarrow> bool" where
  "stale off d b v \<longleftrightarrow> (\<forall>k. - off \<le> k \<longrightarrow> k \<le> off + 1 \<longrightarrow> even (d - k) \<longrightarrow> \<not> (d = 1 \<and> k = 1 \<and> b \<le> 1) \<longrightarrow> stored d k (at_k off v k))"

text \<open>Between passes: what holds of the frontier and the trims before pass \<open>d\<close>.\<close>

definition before_pass :: "int \<Rightarrow> int \<Rightarrow> int \<Rightarrow> int \<Rightarrow> int list \<Rightarrow> bool" where
  "before_pass off d ks ke v \<longleftrightarrow>
     (length v = nat (2 * off + 2) \<and> 0 \<le> ks \<and> 0 \<le> ke \<and> even ks \<and> even ke \<and> ks + ke \<le> 2 * d)
     \<and> sound off (d - 1) v \<and> exact_below off (d - 1) d v \<and> stale off d 1 v
     \<and> trim_right d ke \<and> trim_left d ks \<and> covers off (d - 1) (- (d - 1) + ks) (d - 1 - ke) v"

text \<open>Within pass \<open>d\<close>, before diagonal \<open>k\<close>; \<open>ks0\<close> and \<open>ke0\<close> are the trims the pass started with.\<close>

definition in_pass :: "int \<Rightarrow> int \<Rightarrow> int \<Rightarrow> int \<Rightarrow> int \<Rightarrow> int \<Rightarrow> int \<Rightarrow> int list \<Rightarrow> bool" where
  "in_pass off d ks0 ke0 k ks ke v \<longleftrightarrow>
     (length v = nat (2 * off + 2) \<and> 0 \<le> ks0 \<and> ks0 \<le> ks \<and> 0 \<le> ke0 \<and> ke0 \<le> ke \<and> even ks0 \<and> even ks \<and> even ke \<and> ks + ke \<le> 2 * d + 2
       \<and> even (d - k) \<and> - d + ks0 \<le> k \<and> - d + ks + ke - ke0 \<le> k \<and> (k = - d + ks0 \<longrightarrow> k \<le> d - ke) \<and> k \<le> d + 2)
     \<and> sound off (d - 1) v \<and> exact_below off (d - 1) d v \<and> stale off d k v
     \<and> trim_right d ke \<and> trim_left d ks \<and> covers off (d - 1) (- (d - 1) + ks0) (d - 1 - ke0) v
     \<and> exact_below off d k v
     \<and> (\<forall>k'. - d + ks0 \<le> k' \<longrightarrow> k' < k \<longrightarrow> even (d - k') \<longrightarrow> at_k off v k' \<noteq> - 1)"

lemma alive_after_trim: "alive d k \<Longrightarrow> trim_left d ks \<Longrightarrow> even ks \<Longrightarrow> - d + ks \<le> k"
  unfolding trim_left_def alive_def on_pass_def by (elim disjE exE conjE) (simp, smt (verit) even_add even_diff odd_one)

lemma alive_before_trim: "alive d k \<Longrightarrow> trim_right d ke \<Longrightarrow> even ke \<Longrightarrow> k \<le> d - ke"
  unfolding trim_right_def alive_def on_pass_def by (elim disjE exE conjE) (simp, smt (verit) even_add even_diff odd_one)

lemma pass_start:
  assumes "before_pass off d ks ke v"
  shows "in_pass off d ks ke (- d + ks) ks ke v"
proof -
  have "exact_below off d (- d + ks) v"
    using assms alive_after_trim unfolding before_pass_def exact_below_def by fastforce
  moreover have "stale off d (- d + ks) v"
    using assms unfolding before_pass_def stale_def by auto
  ultimately show ?thesis using assms by (auto simp: before_pass_def in_pass_def)
qed

lemma first_passes_on_grid:
  assumes "0 < N" "\<not> M 0 0" "on_pass 1 k"
  shows "\<not> off_right 1 k"
proof
  assume "off_right 1 k"
  then have "ed M (int N + 1) (int N + 1 - k) \<le> 1" using assms(3) by (auto simp: off_right_def reached_def on_pass_def)
  moreover have "ed M (int N + 1) (int N + 1 - k) = 1 + ed M (int N) (int N + 1 - k)"
    by (subst ed_past_right [of N M]) (use inside not_less in auto)
  ultimately have "ed M (int N) (int N + 1 - k) \<le> 0" by simp
  moreover have "\<bar>int N - (int N + 1 - k)\<bar> \<le> ed M (int N) (int N + 1 - k)"
    using assms(3) by (intro ed_abs) (auto simp: on_pass_def)
  ultimately have k: "k = 1" and "ed M (int N) (int N + 1 - k) \<le> 0" by linarith+
  then have "ed M (int N) (int N) \<le> 0" by simp
  moreover have "ed M 1 1 \<le> ed M (int N) (int N)" using assms(1) by (intro ed_along) auto
  moreover have "ed M 1 1 = 2" using ed_mismatch [of 0 0 M] assms(2) by simp
  ultimately show False by simp
qed

lemma trim_right_step: "trim_right d ke \<Longrightarrow> trim_right (d + 1) ke"
  unfolding trim_right_def using off_right_step on_pass_step(1) by (smt (verit, best))

lemma trim_left_step: "trim_left d ks \<Longrightarrow> trim_left (d + 1) ks"
  unfolding trim_left_def using off_down_step on_pass_step(2) by (smt (verit, best))

text \<open>A pass that scanned its whole range establishes the invariant of the next one.\<close>

lemma pass_exit:
  assumes P: "in_pass off d ks0 ke0 k ks ke v" and exit: "d - ke < k" and "1 \<le> d" and grid: "0 < N" "\<not> M 0 0"
  shows "before_pass off (d + 1) ks ke v"
proof -
  note Q = P [unfolded in_pass_def]
  have par: "even ks0" "even ks" "even ke" "even (d - k)" "- d + ks0 \<le> k" "k = - d + ks0 \<longrightarrow> k \<le> d - ke" "k \<le> d + 2"
    using Q by simp_all
  have past: "d - ke + 2 \<le> k" using par exit by presburger
  have trims: "trim_right d ke" "trim_left d ks" using Q by blast+
  have "exact_below off d (d + 1) v"
    unfolding exact_below_def
  proof (intro allI impI)
    fix g assume g: "alive d g"
    then have "g < k" using alive_before_trim [OF g trims(1)] Q exit by linarith
    then show "furthest d g (at_k off v g)" using Q g by (simp add: exact_below_def)
  qed
  moreover have "sound off d v"
    unfolding sound_def
  proof (intro allI impI)
    fix k' assume k': "- off \<le> k'" "k' \<le> off + 1" "even (d - k')"
    have "\<not> (d = 1 \<and> k' = 1 \<and> k \<le> 1)"
    proof
      assume a: "d = 1 \<and> k' = 1 \<and> k \<le> 1"
      then have "ke \<noteq> 0" using past by auto
      then obtain j where "j \<le> 1 - ke + 2" "on_pass 1 j" "off_right 1 j" using trims(1) a by (auto simp: trim_right_def)
      then show False using first_passes_on_grid grid by blast
    qed
    then show "stored d k' (at_k off v k')" using Q k' by (simp add: stale_def)
  qed
  moreover have "stale off (d + 1) 1 v"
    unfolding stale_def
  proof (intro allI impI)
    fix k' assume k': "- off \<le> k'" "k' \<le> off + 1" "even (d + 1 - k')"
    then have "even (d - 1 - k')" by presburger
    then have "stored (d - 1) k' (at_k off v k')" using Q k' by (simp add: sound_def)
    then show "stored (d + 1) k' (at_k off v k')" using reached_mono by (auto simp: stored_def)
  qed
  moreover have "covers off d (- d + ks) (d - ke) v"
    unfolding covers_def
  proof (rule exI [of _ "- d + ks0"], rule exI [of _ "k - 2"], intro conjI)
    show "- d \<le> - d + ks0" using Q by auto
    show "- d + ks0 \<le> - d + ks" using Q by auto
    show "- d + ks0 \<le> k - 2" using par exit by presburger
    show "k - 2 \<le> d" using par by simp
    show "even (d - (- d + ks0))" "even (d - (k - 2))" using par by presburger+
    show "d - ke \<le> k - 2" using past by simp
    show "\<forall>j. - d + ks0 \<le> j \<longrightarrow> j \<le> k - 2 \<longrightarrow> even (d - j) \<longrightarrow> at_k off v j \<noteq> - 1" using Q by simp
  qed
  ultimately show ?thesis using Q trim_right_step trim_left_step by (auto simp: before_pass_def)
qed

text \<open>Writing the entry of diagonal \<open>k\<close> leaves the others alone.\<close>

lemma at_k_update:
  assumes "length v = nat (2 * off + 2)" "- off \<le> k" "k \<le> off + 1" "- off \<le> k'" "k' \<le> off + 1"
  shows "at_k off (v[nat (off + k) := x]) k' = (if k' = k then x else at_k off v k')"
proof -
  have "nat (off + k) < length v" "nat (off + k') = nat (off + k) \<longleftrightarrow> k' = k" using assms by auto
  then show ?thesis by (cases "k' = k") (simp_all add: at_k_def)
qed

lemma pass_next:
  assumes P: "in_pass off d ks0 ke0 k ks ke v" and go: "k \<le> d - ke" and d: "1 \<le> d" "d < off"
    and x: "reached d k x" "alive d k \<Longrightarrow> furthest d k x"
    and trims: "ks \<le> ks'" "ke \<le> ke'" "even ks'" "even ke'" "ks' + ke' \<le> ks + ke + 2" "trim_right d ke'" "trim_left d ks'"
  shows "in_pass off d ks0 ke0 (k + 2) ks' ke' (v[nat (off + k) := x])"
proof -
  note Q = P [unfolded in_pass_def]
  let ?v = "v[nat (off + k) := x]"
  have arith: "length v = nat (2 * off + 2)" "0 \<le> ks0" "ks0 \<le> ks" "0 \<le> ke0" "ke0 \<le> ke" "even ks0" "even (d - k)"
    "- d + ks0 \<le> k" "- d + ks + ke - ke0 \<le> k" using Q by simp_all
  have k: "- off \<le> k" "k \<le> off + 1" using arith go d by linarith+
  have upd: "at_k off ?v k' = (if k' = k then x else at_k off v k')" if "- off \<le> k'" "k' \<le> off + 1" for k'
    using at_k_update [OF arith(1) k that] .
  have range: "- off \<le> g \<and> g \<le> off + 1" if "on_pass e g" "e \<le> d" for e g
    using that d by (auto simp: on_pass_def)
  have shape: "length ?v = nat (2 * off + 2) \<and> 0 \<le> ks0 \<and> ks0 \<le> ks' \<and> 0 \<le> ke0 \<and> ke0 \<le> ke' \<and> even ks0 \<and> even ks' \<and> even ke'
      \<and> ks' + ke' \<le> 2 * d + 2 \<and> even (d - (k + 2)) \<and> - d + ks0 \<le> k + 2 \<and> - d + ks' + ke' - ke0 \<le> k + 2
      \<and> (k + 2 = - d + ks0 \<longrightarrow> k + 2 \<le> d - ke') \<and> k + 2 \<le> d + 2"
    using arith trims go by auto
  moreover have "sound off (d - 1) ?v"
    unfolding sound_def
  proof (intro allI impI)
    fix k' assume k': "- off \<le> k'" "k' \<le> off + 1" "even (d - 1 - k')"
    then have "k' \<noteq> k" using arith(7) by presburger
    then show "stored (d - 1) k' (at_k off ?v k')" using Q k' upd by (simp add: sound_def)
  qed
  moreover have "exact_below off (d - 1) d ?v"
    unfolding exact_below_def
  proof (intro allI impI)
    fix g assume g: "g < d" "alive (d - 1) g"
    then have "on_pass (d - 1) g" by (simp add: alive_def)
    then have "g \<noteq> k" "- off \<le> g" "g \<le> off + 1" using arith(7) range [of "d - 1" g] by (auto simp: on_pass_def)
    then show "furthest (d - 1) g (at_k off ?v g)" using Q g upd by (simp add: exact_below_def)
  qed
  moreover have "stale off d (k + 2) ?v"
    unfolding stale_def
  proof (intro allI impI)
    fix k' assume k': "- off \<le> k'" "k' \<le> off + 1" "even (d - k')" "\<not> (d = 1 \<and> k' = 1 \<and> k + 2 \<le> 1)"
    show "stored d k' (at_k off ?v k')"
    proof (cases "k' = k")
      case True
      then show ?thesis using upd k' x(1) by (simp add: stored_def)
    next
      case False
      have "\<not> (d = 1 \<and> k' = 1 \<and> k \<le> 1)"
      proof
        assume a: "d = 1 \<and> k' = 1 \<and> k \<le> 1"
        then have "k < 1" "- 1 < k" using k'(4) False by auto
        then show False using arith(7) a by (cases "k = 0") auto
      qed
      then show ?thesis using Q k' upd False by (simp add: stale_def)
    qed
  qed
  moreover have "covers off (d - 1) (- (d - 1) + ks0) (d - 1 - ke0) ?v"
  proof -
    have "covers off (d - 1) (- (d - 1) + ks0) (d - 1 - ke0) v" using Q by blast
    then obtain lo hi where lh: "- (d - 1) \<le> lo" "lo \<le> hi" "hi \<le> d - 1" "even (d - 1 - lo)" "even (d - 1 - hi)" "lo \<le> - (d - 1) + ks0"
        "d - 1 - ke0 \<le> hi" "\<forall>j. lo \<le> j \<longrightarrow> j \<le> hi \<longrightarrow> even (d - 1 - j) \<longrightarrow> at_k off v j \<noteq> - 1"
      unfolding covers_def by blast
    have "at_k off ?v j \<noteq> - 1" if j: "lo \<le> j" "j \<le> hi" "even (d - 1 - j)" for j
    proof -
      have "j \<noteq> k" using arith(7) j(3) by presburger
      then show ?thesis using lh j upd [of j] d by simp
    qed
    then show ?thesis unfolding covers_def using lh by blast
  qed
  moreover have "exact_below off d (k + 2) ?v"
    unfolding exact_below_def
  proof (intro allI impI)
    fix g assume g: "g < k + 2" "alive d g"
    then have op: "on_pass d g" by (simp add: alive_def)
    then have "g = k \<or> g < k" using g(1) arith(7) unfolding on_pass_def by presburger
    then show "furthest d g (at_k off ?v g)"
      using Q g x(2) upd range [OF op] by (auto simp: exact_below_def)
  qed
  moreover have "\<forall>k'. - d + ks0 \<le> k' \<longrightarrow> k' < k + 2 \<longrightarrow> even (d - k') \<longrightarrow> at_k off ?v k' \<noteq> - 1"
  proof (intro allI impI)
    fix k' assume k': "- d + ks0 \<le> k'" "k' < k + 2" "even (d - k')"
    then have "k' = k \<or> k' < k" using arith(7) by presburger
    moreover have "- off \<le> k'" "k' \<le> off + 1" using k' arith go d by linarith+
    ultimately show "at_k off ?v k' \<noteq> - 1" using Q k' x(1) upd [of k'] by (auto simp: reached_def)
  qed
  ultimately show ?thesis using trims(6,7) unfolding in_pass_def by blast
qed

lemma pass_step:
  assumes P: "in_pass off d ks0 ke0 k ks ke v" and go: "k \<le> d - ke" and d: "1 \<le> d" "d < off"
  obtains x0 x where "entry v d off k = Inr x0" "snake eq (int N) (int K) x0 (x0 - k) = Inr (x, x - k)"
    "vset v (at (off + k)) x = Inr (v[nat (off + k) := x])" "at_k off (v[nat (off + k) := x]) k = x" "reached d k x"
    "int N < x \<Longrightarrow> in_pass off d ks0 ke0 (k + 2) ks (ke + 2) (v[nat (off + k) := x])"
    "int K < x - k \<Longrightarrow> in_pass off d ks0 ke0 (k + 2) (ks + 2) ke (v[nat (off + k) := x])"
    "in_pass off d ks0 ke0 (k + 2) ks ke (v[nat (off + k) := x])"
proof -
  note Q = P [unfolded in_pass_def]
  have arith: "length v = nat (2 * off + 2)" "0 \<le> ks0" "ks0 \<le> ks" "0 \<le> ke0" "ke0 \<le> ke" "even (d - k)"
    "- d + ks0 \<le> k" "- d + ks + ke - ke0 \<le> k" "even ks" "even ke" using Q by simp_all
  have k: "- off \<le> k - 1" "k + 1 \<le> off + 1" "- d \<le> k" "k \<le> d" using arith go d by linarith+
  define p q where "p = at_k off v (k - 1)" and "q = at_k off v (k + 1)"
  have odd1: "even (d - 1 - (k - 1))" "even (d - 1 - (k + 1))" using arith(6) by presburger+
  have st: "stored (d - 1) (k - 1) p" "stored (d - 1) (k + 1) q"
    using Q k odd1 unfolding p_def q_def by (simp_all add: sound_def)
  then have low: "- 1 \<le> p" "- 1 \<le> q" by (auto simp: stored_def reached_def)
  have "covers off (d - 1) (- (d - 1) + ks0) (d - 1 - ke0) v" using Q by blast
  then obtain lo hi where lh: "- (d - 1) \<le> lo" "lo \<le> hi" "hi \<le> d - 1" "even (d - 1 - lo)" "even (d - 1 - hi)" "lo \<le> - (d - 1) + ks0"
      "d - 1 - ke0 \<le> hi" "\<And>j. lo \<le> j \<Longrightarrow> j \<le> hi \<Longrightarrow> even (d - 1 - j) \<Longrightarrow> at_k off v j \<noteq> - 1"
    unfolding covers_def by blast
  have "lo \<le> k + 1" "k - 1 \<le> hi" using lh arith go by linarith+
  moreover have "lo = k + 1 \<or> lo \<le> k - 1" using calculation lh(4) arith(6) by presburger
  moreover have "k - 1 = hi \<or> k + 1 \<le> hi" using calculation lh(5) arith(6) by presburger
  ultimately have set_k: "k = - d \<Longrightarrow> q \<noteq> - 1" "k = d \<Longrightarrow> p \<noteq> - 1" "p \<noteq> - 1 \<or> q \<noteq> - 1"
    using lh odd1 unfolding p_def q_def by fastforce+
  define x0 where "x0 = (if k = - d \<or> k \<noteq> d \<and> p < q then q else p + 1)"
  have idx: "nat (off + k + 1) < length v" "nat (off + k - 1) < length v" "0 \<le> off + k + 1" "0 \<le> off + k - 1" "nat (off + k) < length v"
    using k d arith(1) by auto
  have gets: "vget v (at (off + k + 1)) = Inr q" "vget v (at (off + k - 1)) = Inr p"
    using idx by (simp_all add: vget_def at_def p_def q_def at_k_def add_diff_eq add.assoc)
  have e: "entry v d off k = Inr x0"
    unfolding entry_def Let_def gets by (simp add: gets x0_def)
  have r0: "reached d k x0"
  proof (cases "k = - d \<or> k \<noteq> d \<and> p < q")
    case True
    then have "q \<noteq> - 1" using set_k(1) low by auto
    then show ?thesis using True st(2) reached_down [of "d - 1" "k + 1" q] by (simp add: stored_def x0_def)
  next
    case False
    then have "p \<noteq> - 1" using set_k(2,3) low by force
    then show ?thesis using False st(1) reached_right [of "d - 1" "k - 1" p] by (auto simp: stored_def x0_def)
  qed
  then obtain s where s: "snake eq (int N) (int K) x0 (x0 - k) = Inr (x0 + int s, x0 - k + int s)"
      "ed M (x0 + int s) (x0 - k + int s) = ed M x0 (x0 - k)" "\<not> M (nat (x0 + int s)) (nat (x0 - k + int s))"
    using snake_end [of x0 "x0 - k"] by (auto simp: reached_def)
  define x where "x = x0 + int s"
  have r: "reached d k x" "\<not> M (nat x) (nat (x - k))"
    using r0 s by (auto simp: reached_def x_def algebra_simps)
  have far: "furthest d k x" if a: "alive d k"
  proof -
    have "furthest (d - 1) (k - 1) p" if "- (d - 1) \<le> k - 1"
      using alive_left [of "d - 1" k] a that Q k unfolding p_def by (simp add: exact_below_def)
    moreover have "furthest (d - 1) (k + 1) q" if "k + 1 \<le> d - 1"
      using alive_right [of "d - 1" k] a that Q k unfolding q_def by (simp add: exact_below_def)
    ultimately show ?thesis
      using furthest_step [of "d - 1" k p q x0 x] x0_def r k d by (simp add: x_def reached_def)
  qed
  have on: "on_pass d k" using k arith(6) by (simp add: on_pass_def)
  have tr: "trim_right d ke" "trim_left d ks" using Q by blast+
  note next_state = pass_next [OF P go d r(1) far]
  show thesis
  proof (rule that [OF e])
    show "snake eq (int N) (int K) x0 (x0 - k) = Inr (x, x - k)" using s(1) by (simp add: x_def algebra_simps)
    show "vset v (at (off + k)) x = Inr (v[nat (off + k) := x])" using idx by (simp add: vset_def at_def)
    show "at_k off (v[nat (off + k) := x]) k = x" using at_k_update [OF arith(1)] k by simp
    show "reached d k x" by (rule r(1))
    show "in_pass off d ks0 ke0 (k + 2) ks (ke + 2) (v[nat (off + k) := x])" if "int N < x"
    proof -
      have "trim_right d (ke + 2)"
        unfolding trim_right_def using on reached_off_right [OF r(1) that] go by (intro disjI2 exI [of _ k]) simp
      then show ?thesis using next_state [of ks "ke + 2"] tr arith by simp
    qed
    show "in_pass off d ks0 ke0 (k + 2) (ks + 2) ke (v[nat (off + k) := x])" if "int K < x - k"
    proof -
      have "- d + ks \<le> k" using arith by linarith
      then have "trim_left d (ks + 2)"
        unfolding trim_left_def using on reached_off_down [OF r(1) that] by (intro disjI2 exI [of _ k]) simp
      then show ?thesis using next_state [of "ks + 2" ke] tr arith by simp
    qed
    show "in_pass off d ks0 ke0 (k + 2) ks ke (v[nat (off + k) := x])"
      using next_state [of ks ke] tr arith by simp
  qed
qed

text \<open>A diagonal that ran off the grid is of no use: no reverse path of \<open>j\<close> edits comes near it as
  long as \<open>i + j\<close> edits do not exceed the distance of the two corners.\<close>

abbreviation dist :: int where
  "dist \<equiv> ed M (int N) (int K)"

lemma no_match_right: "N \<le> i \<Longrightarrow> \<not> M i j" and no_match_down: "K \<le> j \<Longrightarrow> \<not> M i j"
  using inside by (auto simp: not_less [symmetric])

lemma down_edge: "0 \<le> y \<Longrightarrow> ed M x (y + int t) \<le> ed M x y + int t"
proof (induction t)
  case (Suc t)
  then show ?case using ed_down(1) [of "y + int t" M x] by (simp add: algebra_simps)
qed simp

lemma right_edge: "0 \<le> x \<Longrightarrow> ed M (x + int t) y \<le> ed M x y + int t"
proof (induction t)
  case (Suc t)
  then show ?case using ed_right(1) [of "x + int t" M y] by (simp add: algebra_simps)
qed simp

lemma off_right_dist:
  assumes "off_right i k" "- j \<le> int N - int K - k" "0 \<le> j"
  shows "dist < i + j"
proof -
  define x where "x = max (int N + 1) k"
  have x: "int N < x" "0 \<le> x - k" "ed M x (x - k) \<le> i" using assms(1) by (auto simp: off_right_def reached_def x_def)
  have past: "ed M x (x - k) = (x - int N) + ed M (int N) (x - k)" using x(1) by (intro ed_past_right no_match_right) auto
  show ?thesis
  proof (cases "x - k \<le> int K")
    case True
    then have "dist \<le> ed M (int N) (x - k) + (int K - (x - k))"
      using down_edge [of "x - k" "int N" "nat (int K - (x - k))"] x(2) by simp
    then show ?thesis using past x assms(2) by simp
  next
    case False
    then have "ed M (int N) (x - k) = (x - k - int K) + dist" by (intro ed_past_down no_match_down) auto
    then show ?thesis using past x False assms(3) by simp
  qed
qed

lemma off_down_dist:
  assumes "off_down i k" "int N - int K - k \<le> j" "0 \<le> j"
  shows "dist < i + j"
proof -
  define x where "x = max (int K + 1 + k) 0"
  have x: "int K < x - k" "0 \<le> x" "ed M x (x - k) \<le> i" using assms(1) by (auto simp: off_down_def reached_def x_def)
  have past: "ed M x (x - k) = (x - k - int K) + ed M x (int K)" using x(1) by (intro ed_past_down no_match_down) auto
  show ?thesis
  proof (cases "x \<le> int N")
    case True
    then have "dist \<le> ed M x (int K) + (int N - x)"
      using right_edge [of x "nat (int N - x)" "int K"] x(2) by simp
    then show ?thesis using past x assms(2) by simp
  next
    case False
    then have "ed M x (int K) = (x - int N) + dist" by (intro ed_past_right no_match_right) auto
    then show ?thesis using past x False assms(3) by simp
  qed
qed

lemma alive_near:
  assumes "on_pass i k" "- j \<le> int N - int K - k" "int N - int K - k \<le> j" "i + j \<le> dist"
  shows "alive i k"
proof -
  have "\<not> off_right i k'" if "k' \<le> k" for k' using off_right_dist [of i k' j] that assms(2,3,4) by force
  moreover have "\<not> off_down i k'" if "k \<le> k'" for k' using off_down_dist [of i k' j] that assms(2,3,4) by force
  ultimately show ?thesis using assms(1) by (simp add: alive_def)
qed

text \<open>After pass 0 the frontier holds the origin, and the seed the pass started from.\<close>

definition seed :: "int \<Rightarrow> int list" where
  "seed off = (replicate (nat (2 * off + 2)) (- 1))[nat (off + 1) := 0]"

lemma at_k_seed:
  assumes "1 \<le> off" "- off \<le> k" "k \<le> off + 1"
  shows "at_k off (seed off) k = (if k = 1 then 0 else - 1)"
    "at_k off ((seed off)[nat off := 0]) k = (if k = 0 \<or> k = 1 then 0 else - 1)"
proof -
  have len: "length (replicate (nat (2 * off + 2)) (- 1 :: int)) = nat (2 * off + 2)" by simp
  have "at_k off (replicate (nat (2 * off + 2)) (- 1)) k = - 1"
    using assms by (simp add: at_k_def nat_less_iff)
  then show *: "at_k off (seed off) k = (if k = 1 then 0 else - 1)"
    using at_k_update [OF len, of 1 k 0] assms by (simp add: seed_def)
  show "at_k off ((seed off)[nat off := 0]) k = (if k = 0 \<or> k = 1 then 0 else - 1)"
  proof -
    have "length (seed off) = nat (2 * off + 2)" by (simp add: seed_def)
    then have "at_k off ((seed off)[nat off := 0]) k = (if k = 0 then 0 else at_k off (seed off) k)"
      using at_k_update [of "seed off" off 0 k 0] assms by simp
    then show ?thesis using * by auto
  qed
qed

lemma after_pass_zero:
  assumes "1 \<le> off" "\<not> M 0 0"
  shows "before_pass off 1 0 0 ((seed off)[nat off := 0])"
proof -
  let ?v = "(seed off)[nat off := 0]"
  note val = at_k_seed(2) [OF assms(1)]
  have z: "reached 0 0 0" by (simp add: reached_def)
  have "sound off 0 ?v"
    unfolding sound_def
  proof (intro allI impI)
    fix k assume "- off \<le> k" "k \<le> off + 1" "even (0 - k)"
    then show "stored 0 k (at_k off ?v k)" using val [of k] z by (auto simp: stored_def)
  qed
  moreover have "exact_below off 0 1 ?v"
    unfolding exact_below_def
  proof (intro allI impI)
    fix k assume "alive 0 k"
    then have "k = 0" by (simp add: alive_def on_pass_def)
    then show "furthest 0 k (at_k off ?v k)"
      using val [of 0] z assms ed_mismatch [of 0 0 M] by (simp add: furthest_def)
  qed
  moreover have "stale off 1 1 ?v"
    unfolding stale_def
  proof (intro allI impI)
    fix k assume "- off \<le> k" "k \<le> off + 1" "even (1 - k)" "\<not> ((1::int) = 1 \<and> k = 1 \<and> (1::int) \<le> 1)"
    then show "stored 1 k (at_k off ?v k)" using val [of k] by (auto simp: stored_def)
  qed
  moreover have "covers off 0 0 0 ?v"
    unfolding covers_def using val [of 0] assms(1) by (intro exI [of _ 0]) auto
  moreover have "length ?v = nat (2 * off + 2)" by (simp add: seed_def)
  ultimately show ?thesis by (simp add: before_pass_def trim_right_def trim_left_def)
qed

lemma snake_zero: "0 < N \<Longrightarrow> 0 < K \<Longrightarrow> \<not> M 0 0 \<Longrightarrow> snake eq (int N) (int K) 0 0 = Inr (0, 0)"
  by (subst snake.simps) (simp add: eq)

end

end
