(* ===== verification/DiffCorrect.thy ===== *)
theory DiffCorrect
  imports DiffFrontier
begin

text \<open>
  Correctness of \<open>core/src/merge/diff.rs\<close>: the bisection finds a point on a shortest path of the
  edit graph, strictly between its ends, and the alignment it drives is a longest common
  subsequence, for every input, without a panic.
\<close>

definition same :: "'a list \<Rightarrow> 'a list \<Rightarrow> nat \<Rightarrow> nat \<Rightarrow> bool" where
  "same a b i j \<longleftrightarrow> i < length a \<and> j < length b \<and> a ! i = b ! j"

definition back_same :: "'a list \<Rightarrow> 'a list \<Rightarrow> nat \<Rightarrow> nat \<Rightarrow> bool" where
  "back_same a b = flip_match (length a) (length b) (same a b)"

definition eq_back :: "'a list \<Rightarrow> 'a list \<Rightarrow> int \<Rightarrow> int \<Rightarrow> crash + bool" where
  "eq_back a b x y = eq_at a b (int (length a) - x - 1) (int (length b) - y - 1)"

interpretation fwd: comparison "same a b" "length a" "length b" "eq_at a b" for a b
proof
  show "i < length a \<and> j < length b" if "same a b i j" for i j using that by (simp add: same_def)
  show "eq_at a b x y = Inr (same a b (nat x) (nat y))"
    if "0 \<le> x" "x < int (length a)" "0 \<le> y" "y < int (length b)" for x y
    using that by (simp add: eq_at_def vget_def at_def same_def nat_less_iff)
qed

interpretation bwd: comparison "back_same a b" "length a" "length b" "eq_back a b" for a b
proof
  show "i < length a \<and> j < length b" if "back_same a b i j" for i j using that by (simp add: back_same_def flip_match_def)
  show "eq_back a b x y = Inr (back_same a b (nat x) (nat y))"
    if "0 \<le> x" "x < int (length a)" "0 \<le> y" "y < int (length b)" for x y
  proof -
    have "nat (int (length a) - x - 1) = length a - 1 - nat x" "nat (int (length b) - y - 1) = length b - 1 - nat y"
      using that by auto
    moreover have "length a - Suc (nat x) < length a" "length b - Suc (nat y) < length b" using that by auto
    moreover have "nat x < length a" "nat y < length b" using that by (simp_all add: nat_less_iff)
    ultimately show ?thesis using that by (auto simp: eq_back_def eq_at_def vget_def at_def back_same_def flip_match_def same_def)
  qed
qed

text \<open>The predicates of the frontier, for the two directions.\<close>

abbreviation "fwd_reached a b \<equiv> comparison.reached (same a b)"
abbreviation "fwd_furthest a b \<equiv> comparison.furthest (same a b)"
abbreviation "fwd_stored a b \<equiv> comparison.stored (same a b)"
abbreviation "fwd_off_right a b \<equiv> comparison.off_right (same a b) (length a)"
abbreviation "fwd_off_down a b \<equiv> comparison.off_down (same a b) (length b)"
abbreviation "fwd_alive a b \<equiv> comparison.alive (same a b) (length a) (length b)"
abbreviation "fwd_sound a b \<equiv> comparison.sound (same a b)"
abbreviation "fwd_exact_below a b \<equiv> comparison.exact_below (same a b) (length a) (length b)"
abbreviation "fwd_stale a b \<equiv> comparison.stale (same a b)"
abbreviation "fwd_trim_right a b \<equiv> comparison.trim_right (same a b) (length a)"
abbreviation "fwd_trim_left a b \<equiv> comparison.trim_left (same a b) (length b)"
abbreviation "fwd_before_pass a b \<equiv> comparison.before_pass (same a b) (length a) (length b)"
abbreviation "fwd_in_pass a b \<equiv> comparison.in_pass (same a b) (length a) (length b)"

abbreviation "bwd_reached a b \<equiv> comparison.reached (back_same a b)"
abbreviation "bwd_furthest a b \<equiv> comparison.furthest (back_same a b)"
abbreviation "bwd_stored a b \<equiv> comparison.stored (back_same a b)"
abbreviation "bwd_off_right a b \<equiv> comparison.off_right (back_same a b) (length a)"
abbreviation "bwd_off_down a b \<equiv> comparison.off_down (back_same a b) (length b)"
abbreviation "bwd_alive a b \<equiv> comparison.alive (back_same a b) (length a) (length b)"
abbreviation "bwd_sound a b \<equiv> comparison.sound (back_same a b)"
abbreviation "bwd_exact_below a b \<equiv> comparison.exact_below (back_same a b) (length a) (length b)"
abbreviation "bwd_stale a b \<equiv> comparison.stale (back_same a b)"
abbreviation "bwd_trim_right a b \<equiv> comparison.trim_right (back_same a b) (length a)"
abbreviation "bwd_trim_left a b \<equiv> comparison.trim_left (back_same a b) (length b)"
abbreviation "bwd_before_pass a b \<equiv> comparison.before_pass (back_same a b) (length a) (length b)"
abbreviation "bwd_in_pass a b \<equiv> comparison.in_pass (back_same a b) (length a) (length b)"

definition distance :: "'a list \<Rightarrow> 'a list \<Rightarrow> int" where
  "distance a b = ed (same a b) (int (length a)) (int (length b))"

definition to_end :: "'a list \<Rightarrow> 'a list \<Rightarrow> int \<Rightarrow> int \<Rightarrow> int" where
  "to_end a b x y = ed (back_same a b) (int (length a) - x) (int (length b) - y)"

lemma distance_back: "ed (back_same a b) (int (length a)) (int (length b)) = distance a b"
  by (simp add: distance_def back_same_def ed_flip)

text \<open>A point found by a pass: on the grid, with the edits of the two directions.\<close>

definition meets :: "'a list \<Rightarrow> 'a list \<Rightarrow> int \<Rightarrow> int \<Rightarrow> nat \<Rightarrow> nat \<Rightarrow> bool" where
  "meets a b i j x y \<longleftrightarrow> x \<le> length a \<and> y \<le> length b \<and> ed (same a b) (int x) (int y) \<le> i \<and> to_end a b (int x) (int y) \<le> j"

definition odd_sum :: "'a list \<Rightarrow> 'a list \<Rightarrow> bool" where
  "odd_sum a b \<longleftrightarrow> odd (int (length a) - int (length b))"

definition no_overlap :: "'a list \<Rightarrow> 'a list \<Rightarrow> int \<Rightarrow> int \<Rightarrow> int \<Rightarrow> int \<Rightarrow> int list \<Rightarrow> int list \<Rightarrow> bool" where
  "no_overlap a b off i j bound v1 v2 \<longleftrightarrow> (\<forall>g < bound. fwd_alive a b i g \<longrightarrow>
     bwd_alive a b j (int (length a) - int (length b) - g) \<longrightarrow>
     comparison.at_k off v1 g < int (length a) - comparison.at_k off v2 (int (length a) - int (length b) - g))"

definition forward_result :: "'a list \<Rightarrow> 'a list \<Rightarrow> int \<Rightarrow> int \<Rightarrow> int list \<Rightarrow> scan \<Rightarrow> bool" where
  "forward_result a b off d v2 r \<longleftrightarrow>
     (case r of
        Met x y \<Rightarrow> odd_sum a b \<and> meets a b d (d - 1) x y
      | Scanned ks ke v1 \<Rightarrow> fwd_before_pass a b off (d + 1) ks ke v1 \<and> (odd_sum a b \<longrightarrow> no_overlap a b off d (d - 1) (d + 1) v1 v2))"

lemma front_meets:
  assumes x: "fwd_reached a b d k x" "x \<le> int (length a)" "x - k \<le> int (length b)"
    and r: "bwd_reached a b j (int (length a) - int (length b) - k) r" "int (length a) - r \<le> x"
  shows "meets a b d j (at x) (at (x - k))"
proof -
  have "bwd_reached a b j (int (length a) - int (length b) - k) (int (length a) - x)"
    using x r by (intro bwd.reached_less [OF r(1)]) auto
  then show ?thesis
    using x by (simp add: meets_def to_end_def fwd.reached_def bwd.reached_def at_def algebra_simps) linarith
qed

lemma forward_pass_spec:
  assumes "fwd_in_pass a b off d ks0 ke0 k ks ke v1" "bwd_sound a b off (d - 1) v2" "length v2 = nat (2 * off + 2)"
    and "odd_sum a b \<longrightarrow> no_overlap a b off d (d - 1) k v1 v2" "bwd_exact_below a b off (d - 1) d v2"
    and d: "1 \<le> d" "d < off" and ends: "a \<noteq> []" "b \<noteq> []" "hd a \<noteq> hd b"
  shows "\<exists>r. forward_pass a b off d v2 k ks ke v1 = Inr r \<and> forward_result a b off d v2 r"
  using assms(1-5)
proof (induction "nat (d - ke - k + 1)" arbitrary: k ks ke v1 rule: less_induct)
  case less
  note P = less.prems(1)
  have start: "0 < length a" "\<not> same a b 0 0" using ends by (auto simp: same_def hd_conv_nth)
  show ?case
  proof (cases "d - ke < k")
    case True
    have "forward_pass a b off d v2 k ks ke v1 = Inr (Scanned ks ke v1)" using True by (subst forward_pass.simps) (simp add: Let_def)
    moreover have before: "fwd_before_pass a b off (d + 1) ks ke v1" by (rule fwd.pass_exit [OF P True d(1) start])
    moreover have "no_overlap a b off d (d - 1) (d + 1) v1 v2" if "odd_sum a b"
      unfolding no_overlap_def
    proof (intro allI impI)
      fix g assume g: "fwd_alive a b d g" "bwd_alive a b (d - 1) (int (length a) - int (length b) - g)"
      have "fwd_trim_right a b d ke" "even ke" using P by (auto simp: fwd.in_pass_def)
      then have "g < k" using fwd.alive_before_trim [OF g(1)] True by fastforce
      then show "comparison.at_k off v1 g < int (length a) - comparison.at_k off v2 (int (length a) - int (length b) - g)"
        using less.prems(4) that g by (simp add: no_overlap_def)
    qed
    ultimately show ?thesis by (simp add: forward_result_def)
  next
    case False
    then have go: "k \<le> d - ke" by simp
    obtain x0 x where s: "entry v1 d off k = Inr x0" "snake (eq_at a b) (int (length a)) (int (length b)) x0 (x0 - k) = Inr (x, x - k)"
      "vset v1 (at (off + k)) x = Inr (v1[nat (off + k) := x])" "comparison.at_k off (v1[nat (off + k) := x]) k = x" "fwd_reached a b d k x"
      "int (length a) < x \<Longrightarrow> fwd_in_pass a b off d ks0 ke0 (k + 2) ks (ke + 2) (v1[nat (off + k) := x])"
      "int (length b) < x - k \<Longrightarrow> fwd_in_pass a b off d ks0 ke0 (k + 2) (ks + 2) ke (v1[nat (off + k) := x])"
      "fwd_in_pass a b off d ks0 ke0 (k + 2) ks ke (v1[nat (off + k) := x])"
      using fwd.pass_step [OF P go d] by blast
    let ?v = "v1[nat (off + k) := x]"
    let ?k2 = "int (length a) - int (length b) - k"
    have arith: "even (d - k)" "- d \<le> k" "k \<le> d" "0 \<le> ke" "length v1 = nat (2 * off + 2)"
      using P go by (auto simp: fwd.in_pass_def)
    have keep: "no_overlap a b off d (d - 1) (k + 2) ?v v2"
      if "odd_sum a b" and here: "fwd_alive a b d k \<Longrightarrow> bwd_alive a b (d - 1) ?k2 \<Longrightarrow> x < int (length a) - comparison.at_k off v2 ?k2"
      unfolding no_overlap_def
    proof (intro allI impI)
      fix g assume g: "g < k + 2" "fwd_alive a b d g" "bwd_alive a b (d - 1) (int (length a) - int (length b) - g)"
      have op: "- d \<le> g" "g \<le> d" "even (d - g)" using g(2) by (auto simp: fwd.alive_def fwd.on_pass_def)
      then have "g = k \<or> g < k" using g(1) arith(1) by presburger
      moreover have "comparison.at_k off ?v g = (if g = k then x else comparison.at_k off v1 g)"
        using fwd.at_k_update [OF arith(5), of k g] op arith d by simp
      ultimately show "comparison.at_k off ?v g < int (length a) - comparison.at_k off v2 (int (length a) - int (length b) - g)"
        using g here less.prems(4) that(1) by (auto simp: no_overlap_def)
    qed
    have off_grid: "\<not> (fwd_alive a b d k)" if "int (length a) < x \<or> int (length b) < x - k"
      using that fwd.reached_off_right [OF s(5)] fwd.reached_off_down [OF s(5)] by (auto simp: fwd.alive_def)
    have unfold0: "forward_pass a b off d v2 k ks ke v1 =
        (if int (length a) < x then forward_pass a b off d v2 (k + 2) ks (ke + 2) ?v
         else if int (length b) < x - k then forward_pass a b off d v2 (k + 2) (ks + 2) ke ?v
         else if odd_sum a b then
           (if 0 \<le> off + (int (length a) - int (length b)) - k \<and> off + (int (length a) - int (length b)) - k < 2 * off + 2 then
              rbind (vget v2 (at (off + (int (length a) - int (length b)) - k))) (\<lambda>r. if r \<noteq> - 1 \<and> int (length a) - r \<le> x then Inr (Met (at x) (at (x - k)))
                else forward_pass a b off d v2 (k + 2) ks ke ?v)
            else forward_pass a b off d v2 (k + 2) ks ke ?v)
         else forward_pass a b off d v2 (k + 2) ks ke ?v)"
      unfolding forward_pass.simps [of a b off d v2 k ks ke v1] Let_def odd_sum_def odd_iff_mod_2_eq_one
      using False s(1-3) by (simp)
    have k2o: "off + (int (length a) - int (length b)) - k = off + ?k2" by simp
    note unfold = unfold0 [unfolded k2o]
    have dec: "nat (d - (ke + 2) - (k + 2) + 1) < nat (d - ke - k + 1)" "nat (d - ke - (k + 2) + 1) < nat (d - ke - k + 1)"
      using go by auto
    consider "int (length a) < x" | "\<not> int (length a) < x" "int (length b) < x - k"
      | "\<not> int (length a) < x" "\<not> int (length b) < x - k" by blast
    then show ?thesis
    proof cases
      case 1
      then show ?thesis using less.hyps [OF dec(1) s(6) less.prems(2,3)] keep off_grid unfold less.prems(5) by simp
    next
      case 2
      then show ?thesis using less.hyps [OF dec(2) s(7) less.prems(2,3)] keep off_grid unfold less.prems(5) by simp
    next
      case 3
      note rec = less.hyps [OF dec(2) s(8) less.prems(2,3)]
      show ?thesis
      proof (cases "odd_sum a b \<and> 0 \<le> off + ?k2 \<and> off + ?k2 < 2 * off + 2")
        case True
        define r where "r = comparison.at_k off v2 ?k2"
        have get: "vget v2 (at (off + ?k2)) = Inr r"
          using True less.prems(3) by (simp add: vget_def at_def r_def fwd.at_k_def)
        show ?thesis
        proof (cases "r \<noteq> - 1 \<and> int (length a) - r \<le> x")
          case hit: True
          have par: "even (d - 1 - ?k2)" using True arith(1) unfolding odd_sum_def by presburger
          have range: "- off \<le> ?k2" "?k2 \<le> off + 1" using True by linarith+
          have "bwd_stored a b (d - 1) ?k2 r"
            unfolding r_def by (rule less.prems(2) [unfolded bwd.sound_def, rule_format, OF range par])
          then have "bwd_reached a b (d - 1) ?k2 r" using hit by (simp add: bwd.stored_def)
          then have "meets a b d (d - 1) (at x) (at (x - k))" using front_meets [OF s(5)] 3 hit by simp
          then show ?thesis using unfold 3 True get hit by (simp add: forward_result_def)
        next
          case miss: False
          have "comparison.at_k off v2 ?k2 = r" by (simp add: r_def)
          moreover have "x < int (length a) - r" if "bwd_alive a b (d - 1) ?k2"
          proof -
            have "bwd_furthest a b (d - 1) ?k2 r"
              using less.prems(5) that by (auto simp: bwd.exact_below_def bwd.alive_def bwd.on_pass_def r_def)
            then have "r \<noteq> - 1" by (auto simp: bwd.furthest_def bwd.reached_def)
            then show ?thesis using miss by auto
          qed
          ultimately have "no_overlap a b off d (d - 1) (k + 2) ?v v2" using keep True by (simp add: r_def)
          then show ?thesis using rec unfold 3 True get miss less.prems(5) by simp
        qed
      next
        case False
        have "no_overlap a b off d (d - 1) (k + 2) ?v v2" if o: "odd_sum a b"
        proof (rule keep [OF o])
          assume "bwd_alive a b (d - 1) ?k2"
          then have "- (d - 1) \<le> ?k2" "?k2 \<le> d - 1" by (auto simp: bwd.alive_def bwd.on_pass_def)
          then show "x < int (length a) - comparison.at_k off v2 ?k2" using False o d by auto
        qed
        then show ?thesis using rec unfold 3 False less.prems(5) by auto
      qed
    qed
  qed
qed

definition reverse_result :: "'a list \<Rightarrow> 'a list \<Rightarrow> int \<Rightarrow> int \<Rightarrow> int list \<Rightarrow> scan \<Rightarrow> bool" where
  "reverse_result a b off d v1 r \<longleftrightarrow>
     (case r of
        Met x y \<Rightarrow> \<not> odd_sum a b \<and> meets a b d d x y
      | Scanned ks ke v2 \<Rightarrow> bwd_before_pass a b off (d + 1) ks ke v2 \<and> (\<not> odd_sum a b \<longrightarrow> no_overlap a b off d d (d + 1) v1 v2))"

text \<open>The overlap as the reverse pass sees it, by its own diagonals.\<close>

definition no_overlap_back :: "'a list \<Rightarrow> 'a list \<Rightarrow> int \<Rightarrow> int \<Rightarrow> int \<Rightarrow> int list \<Rightarrow> int list \<Rightarrow> bool" where
  "no_overlap_back a b off d bound v1 v2 \<longleftrightarrow> (\<forall>g < bound. bwd_alive a b d g \<longrightarrow>
     fwd_alive a b d (int (length a) - int (length b) - g) \<longrightarrow>
     comparison.at_k off v1 (int (length a) - int (length b) - g) < int (length a) - comparison.at_k off v2 g)"

lemma no_overlap_back: "no_overlap_back a b off d (d + 1) v1 v2 \<Longrightarrow> no_overlap a b off d d (d + 1) v1 v2"
  unfolding no_overlap_def no_overlap_back_def
proof (intro allI impI)
  fix g assume H: "\<forall>g<d + 1. bwd_alive a b d g \<longrightarrow> fwd_alive a b d (int (length a) - int (length b) - g) \<longrightarrow>
      comparison.at_k off v1 (int (length a) - int (length b) - g) < int (length a) - comparison.at_k off v2 g"
    and g: "fwd_alive a b d g" "bwd_alive a b d (int (length a) - int (length b) - g)"
  have "int (length a) - int (length b) - g < d + 1" using g(2) by (simp add: bwd.alive_def bwd.on_pass_def)
  then show "comparison.at_k off v1 g < int (length a) - comparison.at_k off v2 (int (length a) - int (length b) - g)"
    using H [rule_format, of "int (length a) - int (length b) - g"] g by simp
qed

text \<open>As long as the distance is not exceeded a reverse path on the grid only meets forward paths
  on the grid.\<close>

lemma back_meets:
  assumes x2: "bwd_reached a b d k x2" "x2 \<le> int (length a)" "x2 - k \<le> int (length b)"
    and x1: "fwd_reached a b d (int (length a) - int (length b) - k) x1" "int (length a) - x2 \<le> x1"
    and near: "- d \<le> k" "k \<le> d" "2 * d \<le> distance a b"
  shows "meets a b d d (at x1) (at (x1 - (int (length a) - int (length b) - k)))"
proof -
  let ?k1 = "int (length a) - int (length b) - k"
  have "x1 \<le> int (length a)"
  proof (rule ccontr)
    assume "\<not> x1 \<le> int (length a)"
    then have "fwd_off_right a b d ?k1" using fwd.reached_off_right [OF x1(1)] by simp
    then show False using fwd.off_right_dist [of a b d ?k1 d] near by (simp add: distance_def)
  qed
  moreover have "x1 - ?k1 \<le> int (length b)"
  proof (rule ccontr)
    assume "\<not> x1 - ?k1 \<le> int (length b)"
    then have "fwd_off_down a b d ?k1" using fwd.reached_off_down [OF x1(1)] by simp
    then show False using fwd.off_down_dist [of a b d ?k1 d] near by (simp add: distance_def)
  qed
  ultimately show ?thesis using front_meets [OF x1(1), of d x2] x2 x1(2) by simp
qed

lemma reverse_pass_spec:
  assumes "bwd_in_pass a b off d ks0 ke0 k ks ke v2" "fwd_sound a b off d v1" "length v1 = nat (2 * off + 2)"
    and "\<not> odd_sum a b \<longrightarrow> no_overlap_back a b off d k v1 v2" "fwd_exact_below a b off d (d + 1) v1"
    and near: "\<not> odd_sum a b \<longrightarrow> 2 * d \<le> distance a b"
    and d: "1 \<le> d" "d < off" and ends: "a \<noteq> []" "b \<noteq> []" "last a \<noteq> last b"
  shows "\<exists>r. reverse_pass a b off d v1 k ks ke v2 = Inr r \<and> reverse_result a b off d v1 r"
  using assms(1-5)
proof (induction "nat (d - ke - k + 1)" arbitrary: k ks ke v2 rule: less_induct)
  case less
  note P = less.prems(1)
  have start: "0 < length a" "\<not> back_same a b 0 0"
    using ends by (auto simp: back_same_def flip_match_def same_def last_conv_nth)
  show ?case
  proof (cases "d - ke < k")
    case True
    have "reverse_pass a b off d v1 k ks ke v2 = Inr (Scanned ks ke v2)" using True by (subst reverse_pass.simps) (simp add: Let_def)
    moreover have before: "bwd_before_pass a b off (d + 1) ks ke v2" by (rule bwd.pass_exit [OF P True d(1) start])
    moreover have "no_overlap_back a b off d (d + 1) v1 v2" if "\<not> odd_sum a b"
      unfolding no_overlap_back_def
    proof (intro allI impI)
      fix g assume g: "bwd_alive a b d g" "fwd_alive a b d (int (length a) - int (length b) - g)"
      have "bwd_trim_right a b d ke" "even ke" using P by (auto simp: bwd.in_pass_def)
      then have "g < k" using bwd.alive_before_trim [OF g(1)] True by fastforce
      then show "comparison.at_k off v1 (int (length a) - int (length b) - g) < int (length a) - comparison.at_k off v2 g"
        using less.prems(4) that g by (simp add: no_overlap_back_def)
    qed
    ultimately show ?thesis using no_overlap_back by (auto simp: reverse_result_def)
  next
    case False
    then have go: "k \<le> d - ke" by simp
    obtain x0 x where s: "entry v2 d off k = Inr x0" "snake (eq_back a b) (int (length a)) (int (length b)) x0 (x0 - k) = Inr (x, x - k)"
      "vset v2 (at (off + k)) x = Inr (v2[nat (off + k) := x])" "comparison.at_k off (v2[nat (off + k) := x]) k = x" "bwd_reached a b d k x"
      "int (length a) < x \<Longrightarrow> bwd_in_pass a b off d ks0 ke0 (k + 2) ks (ke + 2) (v2[nat (off + k) := x])"
      "int (length b) < x - k \<Longrightarrow> bwd_in_pass a b off d ks0 ke0 (k + 2) (ks + 2) ke (v2[nat (off + k) := x])"
      "bwd_in_pass a b off d ks0 ke0 (k + 2) ks ke (v2[nat (off + k) := x])"
      using bwd.pass_step [OF P go d] by blast
    let ?v = "v2[nat (off + k) := x]"
    let ?k1 = "int (length a) - int (length b) - k"
    have arith: "even (d - k)" "- d \<le> k" "k \<le> d" "0 \<le> ke" "length v2 = nat (2 * off + 2)"
      using P go by (auto simp: bwd.in_pass_def)
    have keep: "no_overlap_back a b off d (k + 2) v1 ?v"
      if "\<not> odd_sum a b" and here: "bwd_alive a b d k \<Longrightarrow> fwd_alive a b d ?k1 \<Longrightarrow> comparison.at_k off v1 ?k1 < int (length a) - x"
      unfolding no_overlap_back_def
    proof (intro allI impI)
      fix g assume g: "g < k + 2" "bwd_alive a b d g" "fwd_alive a b d (int (length a) - int (length b) - g)"
      have op: "- d \<le> g" "g \<le> d" "even (d - g)" using g(2) by (auto simp: bwd.alive_def bwd.on_pass_def)
      then have "g = k \<or> g < k" using g(1) arith(1) by presburger
      moreover have "comparison.at_k off ?v g = (if g = k then x else comparison.at_k off v2 g)"
        using fwd.at_k_update [OF arith(5), of k g] op arith d by simp
      ultimately show "comparison.at_k off v1 (int (length a) - int (length b) - g) < int (length a) - comparison.at_k off ?v g"
        using g here less.prems(4) that(1) by (auto simp: no_overlap_back_def)
    qed
    have off_grid: "\<not> (bwd_alive a b d k)" if "int (length a) < x \<or> int (length b) < x - k"
      using that bwd.reached_off_right [OF s(5)] bwd.reached_off_down [OF s(5)] by (auto simp: bwd.alive_def)
    have unfold0: "reverse_pass a b off d v1 k ks ke v2 =
        (if int (length a) < x then reverse_pass a b off d v1 (k + 2) ks (ke + 2) ?v
         else if int (length b) < x - k then reverse_pass a b off d v1 (k + 2) (ks + 2) ke ?v
         else if \<not> odd_sum a b then
           (if 0 \<le> off + (int (length a) - int (length b)) - k \<and> off + (int (length a) - int (length b)) - k < 2 * off + 2 then
              rbind (vget v1 (at (off + (int (length a) - int (length b)) - k))) (\<lambda>r. if r \<noteq> - 1 \<and> int (length a) - x \<le> r then Inr (Met (at r) (at (off + r - (off + (int (length a) - int (length b)) - k))))
                else reverse_pass a b off d v1 (k + 2) ks ke ?v)
            else reverse_pass a b off d v1 (k + 2) ks ke ?v)
         else reverse_pass a b off d v1 (k + 2) ks ke ?v)"
      unfolding reverse_pass.simps [of a b off d v1 k ks ke v2] Let_def odd_sum_def odd_iff_mod_2_eq_one
      using False s(1-3) by (simp add: eq_back_def [abs_def])
    have k1o: "off + (int (length a) - int (length b)) - k = off + ?k1" "\<And>r. off + r - (off + ?k1) = r - ?k1" by simp_all
    note unfold = unfold0 [unfolded k1o]
    have dec: "nat (d - (ke + 2) - (k + 2) + 1) < nat (d - ke - k + 1)" "nat (d - ke - (k + 2) + 1) < nat (d - ke - k + 1)"
      using go by auto
    consider "int (length a) < x" | "\<not> int (length a) < x" "int (length b) < x - k"
      | "\<not> int (length a) < x" "\<not> int (length b) < x - k" by blast
    then show ?thesis
    proof cases
      case 1
      then show ?thesis using less.hyps [OF dec(1) s(6) less.prems(2,3)] keep off_grid unfold less.prems(5) by simp
    next
      case 2
      then show ?thesis using less.hyps [OF dec(2) s(7) less.prems(2,3)] keep off_grid unfold less.prems(5) by simp
    next
      case 3
      note rec = less.hyps [OF dec(2) s(8) less.prems(2,3)]
      show ?thesis
      proof (cases "\<not> odd_sum a b \<and> 0 \<le> off + ?k1 \<and> off + ?k1 < 2 * off + 2")
        case True
        define r where "r = comparison.at_k off v1 ?k1"
        have get: "vget v1 (at (off + ?k1)) = Inr r"
          using True less.prems(3) by (simp add: vget_def at_def r_def fwd.at_k_def)
        show ?thesis
        proof (cases "r \<noteq> - 1 \<and> int (length a) - x \<le> r")
          case hit: True
          have par: "even (d - ?k1)" using True arith(1) unfolding odd_sum_def by presburger
          have range: "- off \<le> ?k1" "?k1 \<le> off + 1" using True by linarith+
          have "fwd_stored a b d ?k1 r"
            unfolding r_def by (rule less.prems(2) [unfolded fwd.sound_def, rule_format, OF range par])
          then have "fwd_reached a b d ?k1 r" using hit by (simp add: fwd.stored_def)
          then have "meets a b d d (at r) (at (r - ?k1))"
            using back_meets [OF s(5), of r] 3 hit arith near True by simp
          then show ?thesis using unfold 3 True get hit by (simp add: reverse_result_def)
        next
          case miss: False
          have "comparison.at_k off v1 ?k1 = r" by (simp add: r_def)
          moreover have "r < int (length a) - x" if "fwd_alive a b d ?k1"
          proof -
            have "fwd_furthest a b d ?k1 r"
              using less.prems(5) that by (auto simp: fwd.exact_below_def fwd.alive_def fwd.on_pass_def r_def)
            then have "r \<noteq> - 1" by (auto simp: fwd.furthest_def fwd.reached_def)
            then show ?thesis using miss by auto
          qed
          ultimately have "no_overlap_back a b off d (k + 2) v1 ?v" using keep True by (simp add: r_def)
          then show ?thesis using rec unfold 3 True get miss less.prems(5) by simp
        qed
      next
        case False
        have "no_overlap_back a b off d (k + 2) v1 ?v" if o: "\<not> odd_sum a b"
        proof (rule keep [OF o])
          assume "fwd_alive a b d ?k1"
          then have "- d \<le> ?k1" "?k1 \<le> d" by (auto simp: fwd.alive_def fwd.on_pass_def)
          then show "comparison.at_k off v1 ?k1 < int (length a) - x" using False o d by auto
        qed
        then show ?thesis using rec unfold 3 False less.prems(5) by auto
      qed
    qed
  qed
qed

subsection \<open>The passes together\<close>

text \<open>Pass 0 finds the origin and the far corner only.\<close>

lemma forward_pass_zero:
  assumes "1 \<le> off" and ends: "a \<noteq> []" "b \<noteq> []" "hd a \<noteq> hd b"
  shows "forward_pass a b off 0 (fwd.seed off) 0 0 0 (fwd.seed off) = Inr (Scanned 0 0 ((fwd.seed off)[nat off := 0]))"
proof -
  have start: "0 < length a" "0 < length b" "\<not> same a b 0 0" using ends by (auto simp: same_def hd_conv_nth)
  have len: "length (fwd.seed off) = nat (2 * off + 2)" by (simp add: fwd.seed_def)
  have e: "entry (fwd.seed off) 0 off 0 = Inr 0"
    using fwd.at_k_seed(1) [of off 1] assms(1) len by (simp add: entry_def vget_def at_def fwd.at_k_def)
  have set0: "vset (fwd.seed off) (at off) 0 = Inr ((fwd.seed off)[nat off := 0])"
    using assms(1) len by (simp add: vset_def at_def)
  let ?k2 = "int (length a) - int (length b)"
  have get: "vget (fwd.seed off) (at (off + ?k2)) = Inr (if ?k2 = 1 then 0 else - 1)" if "0 \<le> off + ?k2" "off + ?k2 < 2 * off + 2"
    using fwd.at_k_seed(1) [of off ?k2] assms(1) that len by (simp add: vget_def at_def fwd.at_k_def)
  have stop: "forward_pass a b off 0 v2 2 0 0 v = Inr (Scanned 0 0 v)" for v v2
    by (subst forward_pass.simps) (simp add: Let_def)
  show ?thesis
    unfolding forward_pass.simps [of a b off 0 "fwd.seed off" 0 0 0 "fwd.seed off"] Let_def
    using e fwd.snake_zero [of a b] start set0 get stop ends by simp
qed

lemma reverse_pass_zero:
  assumes "1 \<le> off" and ends: "a \<noteq> []" "b \<noteq> []" "last a \<noteq> last b"
  shows "reverse_pass a b off 0 ((fwd.seed off)[nat off := 0]) 0 0 0 (fwd.seed off) = Inr (Scanned 0 0 ((fwd.seed off)[nat off := 0]))"
proof -
  have start: "0 < length a" "0 < length b" "\<not> back_same a b 0 0"
    using ends by (auto simp: back_same_def flip_match_def same_def last_conv_nth)
  have len: "length (fwd.seed off) = nat (2 * off + 2)" by (simp add: fwd.seed_def)
  have e: "entry (fwd.seed off) 0 off 0 = Inr 0"
    using fwd.at_k_seed(1) [of off 1] assms(1) len by (simp add: entry_def vget_def at_def fwd.at_k_def)
  have set0: "vset (fwd.seed off) (at off) 0 = Inr ((fwd.seed off)[nat off := 0])"
    using assms(1) len by (simp add: vset_def at_def)
  let ?k1 = "int (length a) - int (length b)"
  have get: "vget ((fwd.seed off)[nat off := 0]) (at (off + ?k1)) = Inr (if ?k1 = 0 \<or> ?k1 = 1 then 0 else - 1)"
    if "0 \<le> off + ?k1" "off + ?k1 < 2 * off + 2"
    using fwd.at_k_seed(2) [of off ?k1] assms(1) that len by (simp add: vget_def at_def fwd.at_k_def)
  have stop: "reverse_pass a b off 0 v1 2 0 0 v = Inr (Scanned 0 0 v)" for v v1
    by (subst reverse_pass.simps) (simp add: Let_def)
  have s: "snake (\<lambda>x2 y2. eq_at a b (int (length a) - x2 - 1) (int (length b) - y2 - 1)) (int (length a)) (int (length b)) 0 0 = Inr (0, 0)"
    using bwd.snake_zero [of a b] start by (simp add: eq_back_def [abs_def])
  show ?thesis
    unfolding reverse_pass.simps [of a b off 0 _ 0 0 0 "fwd.seed off"] Let_def
    using e s start set0 get stop ends by simp
qed

text \<open>A split point: on a shortest path, at neither end of it.\<close>

definition splits :: "'a list \<Rightarrow> 'a list \<Rightarrow> nat \<Rightarrow> nat \<Rightarrow> bool" where
  "splits a b x y \<longleftrightarrow> x \<le> length a \<and> y \<le> length b \<and> ed (same a b) (int x) (int y) + to_end a b (int x) (int y) = distance a b
     \<and> ed (same a b) (int x) (int y) < distance a b \<and> to_end a b (int x) (int y) < distance a b"

lemma meets_splits:
  assumes "meets a b i j x y" "i + j \<le> distance a b" "i < distance a b" "j < distance a b"
  shows "splits a b x y"
proof -
  have "distance a b \<le> ed (same a b) (int x) (int y) + to_end a b (int x) (int y)"
    using assms(1) ed_triangle [of "int x" "length a" "int y" "length b" "same a b"]
    by (simp add: meets_def distance_def to_end_def back_same_def)
  then show ?thesis using assms by (simp add: splits_def meets_def)
qed

text \<open>If the paths of \<open>i\<close> and \<open>j\<close> edits together reach the distance, the frontiers overlap.\<close>

lemma overlap_found:
  assumes "fwd_exact_below a b off i (i + 1) v1" "bwd_exact_below a b off j (j + 1) v2"
    and "no_overlap a b off i j (i + 1) v1 v2" "0 \<le> i" "0 \<le> j"
  shows "distance a b \<noteq> i + j"
proof
  assume D: "distance a b = i + j"
  let ?n = "int (length a)" and ?m = "int (length b)"
  have end0: "ed (back_same a b) (?n - ?n) (?m - ?m) = 0" by simp
  obtain u v where uv: "0 \<le> u" "u \<le> ?n" "0 \<le> v" "v \<le> ?m" "ed (same a b) u v = i" "ed (back_same a b) (?n - u) (?m - v) = j"
    using shortest_through [of ?n "length a" ?m "length b" i "same a b"] D end0 assms(4,5)
    unfolding back_same_def distance_def by (auto simp: algebra_simps)
  define k where "k = u - v"
  let ?k2 = "?n - ?m - k"
  have on1: "comparison.on_pass i k"
    using ed_abs [of u v "same a b"] ed_parity [of "same a b" u v] uv
    by (auto simp: fwd.on_pass_def k_def abs_if split: if_splits)
  have on2: "comparison.on_pass j ?k2"
    using ed_abs [of "?n - u" "?m - v" "back_same a b"] ed_parity [of "back_same a b" "?n - u" "?m - v"] uv
    by (auto simp: fwd.on_pass_def k_def abs_if algebra_simps split: if_splits)
  have near: "- j \<le> ?k2" "?k2 \<le> j" "- i \<le> k" "k \<le> i" using on1 on2 by (simp_all add: fwd.on_pass_def)
  have a1: "fwd_alive a b i k" using fwd.alive_near [OF on1 near(1,2)] D by (simp add: distance_def)
  have a2: "bwd_alive a b j ?k2" 
    by (rule bwd.alive_near [OF on2, of i]) (use near D distance_back [of a b] in auto)
  have "fwd_furthest a b i k (comparison.at_k off v1 k)" using assms(1) a1 near by (simp add: fwd.exact_below_def)
  moreover have "fwd_reached a b i k u" using uv by (simp add: fwd.reached_def k_def)
  ultimately have "u \<le> comparison.at_k off v1 k" by (rule fwd.furthest_max)
  moreover have "?n - u \<le> comparison.at_k off v2 ?k2"
  proof (rule bwd.furthest_max)
    show "bwd_furthest a b j ?k2 (comparison.at_k off v2 ?k2)" using assms(2) a2 near by (simp add: bwd.exact_below_def)
    show "bwd_reached a b j ?k2 (?n - u)" using uv by (simp add: bwd.reached_def k_def)
  qed
  moreover have "comparison.at_k off v1 k < ?n - comparison.at_k off v2 ?k2"
    using assms(3) a1 a2 near by (simp add: no_overlap_def)
  ultimately show False by linarith
qed

lemma distance_parity: "even (distance a b) \<longleftrightarrow> \<not> odd_sum a b"
  using ed_parity [of "same a b" "int (length a)" "int (length b)"] unfolding distance_def odd_sum_def by presburger

lemma all_passes:
  "odd (n - m) \<Longrightarrow> 2 * off - 1 \<le> D \<Longrightarrow> off = (n + m + 1) div 2 \<Longrightarrow> n + m \<le> (D :: int)"
  "even (n - m) \<Longrightarrow> 2 * off \<le> D \<Longrightarrow> off = (n + m + 1) div 2 \<Longrightarrow> n + m \<le> (D :: int)"
  by presburger+

lemma bisect_passes_spec:
  assumes "fwd_before_pass a b off d ks1 ke1 v1" "bwd_before_pass a b off d ks2 ke2 v2"
    and ends: "a \<noteq> []" "b \<noteq> []" "hd a \<noteq> hd b" "last a \<noteq> last b"
    and "1 \<le> d" "d \<le> off" "2 \<le> distance a b" "(if odd_sum a b then 2 * d - 1 else 2 * d) \<le> distance a b"
    and off: "off = (int (length a) + int (length b) + 1) div 2"
  shows "\<exists>r. bisect_passes a b off d ks1 ke1 ks2 ke2 v1 v2 = Inr r \<and>
    (case r of None \<Rightarrow> distance a b = int (length a) + int (length b) | Some (x, y) \<Rightarrow> splits a b x y)"
  using assms(1,2,7-10)
proof (induction "nat (off - d)" arbitrary: d ks1 ke1 ks2 ke2 v1 v2 rule: less_induct)
  case less
  note p = less.prems
  show ?case
  proof (cases "off \<le> d")
    case True
    have "distance a b \<le> int (length a) + int (length b)" by (simp add: distance_def ed_def)
    moreover have "int (length a) + int (length b) \<le> distance a b"
      using p(6) True p(4) all_passes [OF _ _ off, of "distance a b"] unfolding odd_sum_def
      by (cases "odd (int (length a) - int (length b))") auto
    ultimately have "distance a b = int (length a) + int (length b)" by simp
    then show ?thesis using True by (subst bisect_passes.simps) simp
  next
    case False
    then have d: "1 \<le> d" "d < off" using p by simp_all
    have f: "fwd_in_pass a b off d ks1 ke1 (- d + ks1) ks1 ke1 v1" by (rule fwd.pass_start [OF p(1)])
    have B: "bwd_sound a b off (d - 1) v2" "bwd_exact_below a b off (d - 1) d v2" "length v2 = nat (2 * off + 2)"
      using p(2) by (simp_all add: bwd.before_pass_def)
    have "no_overlap a b off d (d - 1) (- d + ks1) v1 v2"
      unfolding no_overlap_def
    proof (intro allI impI)
      fix g assume "g < - d + ks1" "fwd_alive a b d g"
      moreover have "fwd_trim_left a b d ks1" "even ks1" using p(1) by (simp_all add: fwd.before_pass_def)
      ultimately show "comparison.at_k off v1 g < int (length a) - comparison.at_k off v2 (int (length a) - int (length b) - g)"
        using fwd.alive_after_trim by fastforce
    qed
    then obtain r1 where r1: "forward_pass a b off d v2 (- d + ks1) ks1 ke1 v1 = Inr r1" "forward_result a b off d v2 r1"
      using forward_pass_spec [OF f B(1,3) _ B(2) d ends(1-3)] by blast
    show ?thesis
    proof (cases r1)
      case (Met x y)
      then have "odd_sum a b" "meets a b d (d - 1) x y" using r1(2) by (simp_all add: forward_result_def)
      then have "splits a b x y" using p(5,6) by (intro meets_splits [of a b d "d - 1"]) auto
      then show ?thesis using r1(1) Met False by (subst bisect_passes.simps) simp
    next
      case (Scanned ks1' ke1' v1')
      then have F: "fwd_before_pass a b off (d + 1) ks1' ke1' v1'" "odd_sum a b \<longrightarrow> no_overlap a b off d (d - 1) (d + 1) v1' v2"
        using r1(2) by (simp_all add: forward_result_def)
      then have F': "fwd_sound a b off d v1'" "fwd_exact_below a b off d (d + 1) v1'" "length v1' = nat (2 * off + 2)"
        by (simp_all add: fwd.before_pass_def)
      have bs: "bwd_in_pass a b off d ks2 ke2 (- d + ks2) ks2 ke2 v2" by (rule bwd.pass_start [OF p(2)])
      have "no_overlap_back a b off d (- d + ks2) v1' v2"
        unfolding no_overlap_back_def
      proof (intro allI impI)
        fix g assume "g < - d + ks2" "bwd_alive a b d g"
        moreover have "bwd_trim_left a b d ks2" "even ks2" using p(2) by (simp_all add: bwd.before_pass_def)
        ultimately show "comparison.at_k off v1' (int (length a) - int (length b) - g) < int (length a) - comparison.at_k off v2 g"
          using bwd.alive_after_trim by fastforce
      qed
      moreover have "\<not> odd_sum a b \<longrightarrow> 2 * d \<le> distance a b" using p(6) by auto
      ultimately obtain r2 where r2: "reverse_pass a b off d v1' (- d + ks2) ks2 ke2 v2 = Inr r2" "reverse_result a b off d v1' r2"
        using reverse_pass_spec [OF bs F'(1,3) _ F'(2) _ d ends(1,2,4)] by blast
      show ?thesis
      proof (cases r2)
        case (Met x y)
        then have "\<not> odd_sum a b" "meets a b d d x y" using r2(2) by (simp_all add: reverse_result_def)
        then have "splits a b x y" using p(3,6) by (intro meets_splits [of a b d d]) auto
        then show ?thesis using r1(1) r2(1) Met Scanned False by (subst bisect_passes.simps) simp
      next
        case R: (Scanned ks2' ke2' v2')
        then have G: "bwd_before_pass a b off (d + 1) ks2' ke2' v2'" "\<not> odd_sum a b \<longrightarrow> no_overlap a b off d d (d + 1) v1' v2'"
          using r2(2) by (simp_all add: reverse_result_def)
        then have G': "bwd_exact_below a b off d (d + 1) v2'" by (simp add: bwd.before_pass_def)
        have "(if odd_sum a b then 2 * (d + 1) - 1 else 2 * (d + 1)) \<le> distance a b"
        proof (cases "odd_sum a b")
          case True
          then have "distance a b \<noteq> d + (d - 1)" using overlap_found [OF F'(2), of "d - 1" v2] B(2) F(2) d by simp
          then show ?thesis using True p(6) distance_parity [of a b] by (simp, presburger)
        next
          case False
          then have "distance a b \<noteq> d + d" using overlap_found [OF F'(2) G'] G(2) d by simp
          then show ?thesis using False p(6) distance_parity [of a b] by (simp, presburger)
        qed
        moreover have "nat (off - (d + 1)) < nat (off - d)" using d by simp
        ultimately have "\<exists>r. bisect_passes a b off (d + 1) ks1' ke1' ks2' ke2' v1' v2' = Inr r \<and>
            (case r of None \<Rightarrow> distance a b = int (length a) + int (length b) | Some (x, y) \<Rightarrow> splits a b x y)"
          using less.hyps [of "d + 1"] F(1) G(1) d p(5) by simp
        then show ?thesis using r1(1) r2(1) R Scanned False by (subst bisect_passes.simps) simp
      qed
    qed
  qed
qed

lemma distance_two:
  assumes "a \<noteq> []" "b \<noteq> []" "hd a \<noteq> hd b" "last a \<noteq> last b"
  shows "2 \<le> distance a b"
proof -
  let ?n = "int (length a)" and ?m = "int (length b)"
  have "0 < length a" "0 < length b" using assms(1,2) by simp_all
  then have nm: "0 \<le> ?n - 1" "0 \<le> ?m - 1" by linarith+
  have idx: "nat (?n - 1) = length a - 1" "nat (?m - 1) = length b - 1" by simp_all
  have "\<not> same a b (length a - 1) (length b - 1)" using assms by (simp add: same_def last_conv_nth)
  then have D: "distance a b = 1 + min (ed (same a b) (?n - 1) ?m) (ed (same a b) ?n (?m - 1))"
    using ed_mismatch [of "?n - 1" "?m - 1" "same a b"] nm by (simp add: distance_def idx)
  have first: "1 \<le> ed (same a b) x y" if "0 \<le> x" "0 \<le> y" "0 < x + y" for x y
  proof (cases "0 < x \<and> 0 < y")
    case True
    have "\<not> same a b 0 0" using assms by (simp add: same_def hd_conv_nth)
    then have one: "ed (same a b) 1 1 = 2" using ed_mismatch [of 0 0 "same a b"] by simp
    have step: "1 \<le> ed (same a b) u v" if "1 \<le> u" "1 \<le> v" for u v
    proof (cases "u = v")
      case True
      then show ?thesis using ed_along [of 1 1 u v "same a b"] one that by simp
    next
      case False
      then have "1 \<le> \<bar>u - v\<bar>" by simp
      then show ?thesis using ed_abs [of u v "same a b"] that by linarith
    qed
    show ?thesis using step True by simp
  next
    case False
    then have "x = 0 \<or> y = 0" using that by auto
    then show ?thesis using that by auto
  qed
  show ?thesis using D first [of "?n - 1" ?m] first [of ?n "?m - 1"] nm by simp
qed

text \<open>The lists of a comparison of a machine fit its memory.\<close>

definition fits :: "'a list \<Rightarrow> 'a list \<Rightarrow> bool" where
  "fits a b \<longleftrightarrow> length a + length b < 2 ^ 62"

theorem bisect_spec:
  assumes "fits a b" and ends: "a \<noteq> []" "b \<noteq> []" "hd a \<noteq> hd b" "last a \<noteq> last b"
  shows "\<exists>r. bisect a b = Inr r \<and>
    (case r of None \<Rightarrow> distance a b = int (length a) + int (length b) | Some (x, y) \<Rightarrow> splits a b x y)"
proof -
  let ?n = "int (length a)" and ?m = "int (length b)"
  define off where "off = (?n + ?m + 1) div 2"
  have "0 < length a" "0 < length b" using ends by simp_all
  then have pos: "1 \<le> ?n" "1 \<le> ?m" by linarith+
  then have off: "1 \<le> off" unfolding off_def by linarith
  have off2: "2 * off \<le> ?n + ?m + 1" unfolding off_def by linarith
  have "int (length a + length b) < int (2 ^ 62)" using assms(1) unfolding fits_def by (simp only: of_nat_less_iff)
  then have small: "?n + ?m < 2 ^ 62" by simp
  have start: "\<not> same a b 0 0" "\<not> back_same a b 0 0"
    using ends by (auto simp: same_def hd_conv_nth last_conv_nth back_same_def flip_match_def)
  have "length (replicate (nat (2 * off + 2)) (- 1 :: int)) = nat (2 * off + 2)" by simp
  moreover have "nat (off + 1) < nat (2 * off + 2)" using off(1) by simp
  ultimately have seed: "vset (replicate (nat (2 * off + 2)) (- 1)) (at (off + 1)) 0 = Inr (fwd.seed off)"
    using off(1) by (simp add: vset_def at_def fwd.seed_def)
  have "isz (?n + ?m + 1) = Inr (?n + ?m + 1)" "isz (2 * off + 2) = Inr (2 * off + 2)"
    using small off off2 pos by (auto simp: isz_def)
  then have "bisect a b = bisect_passes a b off 0 0 0 0 0 (fwd.seed off) (fwd.seed off)"
    using small pos seed by (simp add: bisect_def Let_def off_def [symmetric])
  also have "\<dots> = bisect_passes a b off 1 0 0 0 0 ((fwd.seed off)[nat off := 0]) ((fwd.seed off)[nat off := 0])"
    using forward_pass_zero [OF off(1) ends(1-3)] reverse_pass_zero [OF off(1) ends(1,2,4)] off
    by (subst bisect_passes.simps) simp
  finally have eq: "bisect a b = bisect_passes a b off 1 0 0 0 0 ((fwd.seed off)[nat off := 0]) ((fwd.seed off)[nat off := 0])" .
  have two: "2 \<le> distance a b" using distance_two ends by blast
  have "(if odd_sum a b then 2 * 1 - 1 else 2 * 1) \<le> distance a b" using two by simp
  then show ?thesis
    unfolding eq using bisect_passes_spec [OF fwd.after_pass_zero [OF off(1) start(1)] bwd.after_pass_zero [OF off(1) start(2)] ends]
      off(1) two by (simp add: off_def)
qed

end
