(* ===== verification/DiffAlign.thy ===== *)
theory DiffAlign
  imports DiffCorrect
begin

text \<open>
  Correctness of \<open>lcs_pairs\<close>: the alignment it returns is a longest common subsequence, its loop
  ends for every input, and no index is out of bounds.
\<close>

subsection \<open>The alignment\<close>

text \<open>The length of a longest common subsequence of two lists, and what stripping and splitting do
  to it.\<close>

definition lcs_len :: "'a list \<Rightarrow> 'a list \<Rightarrow> nat" where
  "lcs_len a b = lc (same a b) (length a) (length b)"

lemma same_take: "i < x \<Longrightarrow> j < y \<Longrightarrow> same (take x a) (take y b) i j = same a b i j"
  by (auto simp: same_def)

lemma lcs_len_take: "x \<le> length a \<Longrightarrow> y \<le> length b \<Longrightarrow> lcs_len (take x a) (take y b) = lc (same a b) x y"
proof -
  assume "x \<le> length a" "y \<le> length b"
  then have "length (take x a) = x" "length (take y b) = y" by simp_all
  moreover have "lc (same (take x a) (take y b)) x y = lc (same a b) x y" by (rule lc_cong) (rule same_take)
  ultimately show ?thesis by (simp only: lcs_len_def)
qed

lemma lcs_len_snoc: "lcs_len (a @ [x]) (b @ [x]) = Suc (lcs_len a b)"
proof -
  have "lc (same (a @ [x]) (b @ [x])) (length a) (length b) = lc (same a b) (length a) (length b)"
    by (rule lc_cong) (simp add: same_def nth_append)
  moreover have "same (a @ [x]) (b @ [x]) (length a) (length b)" by (simp add: same_def)
  ultimately show ?thesis by (simp add: lcs_len_def)
qed

lemma lcs_len_rev: "lcs_len (rev a) (rev b) = lcs_len a b"
proof -
  have "lc (same (rev a) (rev b)) (length a) (length b) = lc (back_same a b) (length a) (length b)"
    by (rule lc_cong) (auto simp: same_def back_same_def flip_match_def rev_nth)
  then show ?thesis by (simp add: lcs_len_def back_same_def lc_flip)
qed

lemma lcs_len_Cons: "lcs_len (x # a) (x # b) = Suc (lcs_len a b)"
  using lcs_len_snoc [of "rev a" x "rev b"] lcs_len_rev [of "x # a" "x # b"] lcs_len_rev [of a b] by simp

lemma lcs_len_Nil [simp]: "lcs_len [] b = 0" "lcs_len a [] = 0"
  by (simp_all add: lcs_len_def)

lemma lcs_len_drop:
  assumes "x \<le> length a" "y \<le> length b"
  shows "lcs_len (drop x a) (drop y b) = lc (back_same a b) (length a - x) (length b - y)"
proof -
  have "lcs_len (drop x a) (drop y b) = lcs_len (take (length a - x) (rev a)) (take (length b - y) (rev b))"
    using lcs_len_rev [of "drop x a" "drop y b"] by (simp add: rev_drop)
  also have "\<dots> = lc (same (rev a) (rev b)) (length a - x) (length b - y)" by (rule lcs_len_take) simp_all
  also have "\<dots> = lc (back_same a b) (length a - x) (length b - y)"
    by (rule lc_cong) (auto simp: same_def back_same_def flip_match_def rev_nth)
  finally show ?thesis .
qed

lemma splits_lcs:
  assumes "splits a b x y"
  shows "lcs_len (take x a) (take y b) + lcs_len (drop x a) (drop y b) = lcs_len a b"
    "0 < x + y" "x + y < length a + length b"
proof -
  have xy: "x \<le> length a" "y \<le> length b" using assms by (simp_all add: splits_def)
  have D: "distance a b = int (length a) + int (length b) - 2 * int (lcs_len a b)"
    by (simp add: distance_def ed_def lcs_len_def)
  have P: "ed (same a b) (int x) (int y) = int x + int y - 2 * int (lcs_len (take x a) (take y b))"
    using lcs_len_take [OF xy] by (simp add: ed_def)
  have Q: "to_end a b (int x) (int y) = (int (length a) - int x) + (int (length b) - int y) - 2 * int (lcs_len (drop x a) (drop y b))"
    using lcs_len_drop [OF xy] xy by (simp add: to_end_def ed_def nat_diff_distrib')
  show "lcs_len (take x a) (take y b) + lcs_len (drop x a) (drop y b) = lcs_len a b"
    using assms D P Q by (simp add: splits_def)
  show "0 < x + y"
  proof (rule ccontr)
    assume "\<not> 0 < x + y"
    then have "to_end a b (int x) (int y) = distance a b" using distance_back [of a b] by (simp add: to_end_def)
    then show False using assms by (simp add: splits_def)
  qed
  show "x + y < length a + length b"
  proof (rule ccontr)
    assume "\<not> x + y < length a + length b"
    then have "x = length a" "y = length b" using xy by simp_all
    then show False using assms by (simp add: splits_def distance_def)
  qed
qed

text \<open>A block of the alignment: pairs of equal elements between the corners, in order, as many as a
  longest common subsequence has.\<close>

definition aligned :: "'a list \<Rightarrow> 'a list \<Rightarrow> nat \<Rightarrow> nat \<Rightarrow> nat \<Rightarrow> nat \<Rightarrow> (nat \<times> nat) list \<Rightarrow> bool" where
  "aligned a b a0 a1 b0 b1 ps \<longleftrightarrow> sorted_wrt below ps \<and> (\<forall>(i, j) \<in> set ps. a0 \<le> i \<and> i < a1 \<and> b0 \<le> j \<and> j < b1 \<and> a ! i = b ! j)
     \<and> length ps = lcs_len (take (a1 - a0) (drop a0 a)) (take (b1 - b0) (drop b0 b))"

definition corners :: "'a list \<Rightarrow> 'a list \<Rightarrow> nat \<Rightarrow> nat \<Rightarrow> nat \<Rightarrow> nat \<Rightarrow> bool" where
  "corners a b a0 a1 b0 b1 \<longleftrightarrow> a0 \<le> a1 \<and> a1 \<le> length a \<and> b0 \<le> b1 \<and> b1 \<le> length b"

lemma aligned_append:
  assumes "aligned a b a0 a1 b0 b1 ps" "aligned a b a1 a2 b1 b2 qs" "a0 \<le> a1" "a1 \<le> a2" "b0 \<le> b1" "b1 \<le> b2"
    and "lcs_len (take (a1 - a0) (drop a0 a)) (take (b1 - b0) (drop b0 b)) + lcs_len (take (a2 - a1) (drop a1 a)) (take (b2 - b1) (drop b1 b))
      = lcs_len (take (a2 - a0) (drop a0 a)) (take (b2 - b0) (drop b0 b))"
  shows "aligned a b a0 a2 b0 b2 (ps @ qs)"
proof -
  have p: "sorted_wrt below ps" "\<And>i j. (i, j) \<in> set ps \<Longrightarrow> a0 \<le> i \<and> i < a1 \<and> b0 \<le> j \<and> j < b1 \<and> a ! i = b ! j"
    and q: "sorted_wrt below qs" "\<And>i j. (i, j) \<in> set qs \<Longrightarrow> a1 \<le> i \<and> i < a2 \<and> b1 \<le> j \<and> j < b2 \<and> a ! i = b ! j"
    using assms(1,2) unfolding aligned_def by blast+
  have "below x y" if "x \<in> set ps" "y \<in> set qs" for x y
    using p(2) [of "fst x" "snd x"] q(2) [of "fst y" "snd y"] that by (simp add: below_def)
  then have "sorted_wrt below (ps @ qs)" using p(1) q(1) by (simp add: sorted_wrt_append)
  moreover have "a0 \<le> i \<and> i < a2 \<and> b0 \<le> j \<and> j < b2 \<and> a ! i = b ! j" if "(i, j) \<in> set (ps @ qs)" for i j
    using that p(2) [of i j] q(2) [of i j] assms(3-6) by auto
  moreover have "length (ps @ qs) = lcs_len (take (a2 - a0) (drop a0 a)) (take (b2 - b0) (drop b0 b))"
    using assms(1,2,7) by (simp add: aligned_def)
  ultimately show ?thesis unfolding aligned_def by blast
qed

lemma strip_front_spec:
  assumes "corners a b a0 a1 b0 b1"
  shows "\<exists>a' b' ps. (\<forall>out. strip_front a b a0 a1 b0 b1 out = Inr (a', b', out @ ps)) \<and> corners a b a' a1 b' b1 \<and> a0 \<le> a' \<and> b0 \<le> b'
    \<and> aligned a b a0 a' b0 b' ps
    \<and> lcs_len (take (a1 - a0) (drop a0 a)) (take (b1 - b0) (drop b0 b)) = length ps + lcs_len (take (a1 - a') (drop a' a)) (take (b1 - b') (drop b' b))
    \<and> (a' < a1 \<and> b' < b1 \<longrightarrow> a ! a' \<noteq> b ! b')"
  using assms
proof (induction "a1 - a0" arbitrary: a0 b0 rule: less_induct)
  case less
  have ends: "aligned a b a0 a0 b0 b0 []" by (simp add: aligned_def)
  show ?case
  proof (cases "a0 < a1 \<and> b0 < b1")
    case False
    then have "\<forall>out. strip_front a b a0 a1 b0 b1 out = Inr (a0, b0, out @ [])" by (subst strip_front.simps) auto
    then show ?thesis using less.prems ends False by (intro exI conjI) auto
  next
    case True
    then have get: "vget a a0 = Inr (a ! a0)" "vget b b0 = Inr (b ! b0)"
      using less.prems by (auto simp: vget_def corners_def)
    show ?thesis
    proof (cases "a ! a0 = b ! b0")
      case False
      then have "\<forall>out. strip_front a b a0 a1 b0 b1 out = Inr (a0, b0, out @ [])" using get True by (subst strip_front.simps) simp
      then show ?thesis using less.prems ends False by (intro exI conjI) auto
    next
      case eq: True
      have "corners a b (a0 + 1) a1 (b0 + 1) b1" "a1 - (a0 + 1) < a1 - a0" using less.prems True by (auto simp: corners_def)
      then obtain a' b' ps where r: "\<forall>out. strip_front a b (a0 + 1) a1 (b0 + 1) b1 out = Inr (a', b', out @ ps)"
        "corners a b a' a1 b' b1" "a0 + 1 \<le> a'" "b0 + 1 \<le> b'" "aligned a b (a0 + 1) a' (b0 + 1) b' ps"
        "lcs_len (take (a1 - (a0 + 1)) (drop (a0 + 1) a)) (take (b1 - (b0 + 1)) (drop (b0 + 1) b))
          = length ps + lcs_len (take (a1 - a') (drop a' a)) (take (b1 - b') (drop b' b))"
        "a' < a1 \<and> b' < b1 \<longrightarrow> a ! a' \<noteq> b ! b'"
        using less.hyps by blast
      have head: "lcs_len (take (u - a0) (drop a0 a)) (take (v - b0) (drop b0 b))
          = Suc (lcs_len (take (u - (a0 + 1)) (drop (a0 + 1) a)) (take (v - (b0 + 1)) (drop (b0 + 1) b)))"
        if "a0 < u" "b0 < v" "u \<le> length a" "v \<le> length b" for u v
      proof -
        have "take (u - a0) (drop a0 a) = a ! a0 # take (u - (a0 + 1)) (drop (a0 + 1) a)"
          using that by (simp add: Cons_nth_drop_Suc [symmetric] take_Cons' Suc_diff_Suc [symmetric])
        moreover have "take (v - b0) (drop b0 b) = b ! b0 # take (v - (b0 + 1)) (drop (b0 + 1) b)"
          using that by (simp add: Cons_nth_drop_Suc [symmetric] take_Cons' Suc_diff_Suc [symmetric])
        ultimately show ?thesis using eq lcs_len_Cons by metis
      qed
      have bounds: "a' \<le> length a" "b' \<le> length b" "a1 \<le> length a" "b1 \<le> length b" using r(2) by (auto simp: corners_def)
      have "aligned a b a0 a' b0 b' ((a0, b0) # ps)"
        using r(3-5) head [of a' b'] bounds eq by (auto simp: aligned_def below_def) 
      moreover have "\<forall>out. strip_front a b a0 a1 b0 b1 out = Inr (a', b', out @ (a0, b0) # ps)"
        using r(1) True get eq by (subst strip_front.simps) simp
      moreover have "lcs_len (take (a1 - a0) (drop a0 a)) (take (b1 - b0) (drop b0 b))
          = length ((a0, b0) # ps) + lcs_len (take (a1 - a') (drop a' a)) (take (b1 - b') (drop b' b))"
        using head [of a1 b1] r(6) True bounds by simp
      moreover have "a0 \<le> a'" "b0 \<le> b'" using r(3,4) by simp_all
      ultimately show ?thesis using r(2,7) by blast
    qed
  qed
qed

subsection \<open>Only equality of the elements matters\<close>

text \<open>Two pairs of lists with the same lengths and the same comparisons.\<close>

definition alike :: "'a list \<Rightarrow> 'a list \<Rightarrow> 'b list \<Rightarrow> 'b list \<Rightarrow> bool" where
  "alike a b u v \<longleftrightarrow> length a = length u \<and> length b = length v \<and> eq_at a b = eq_at u v"

lemma alike_map: "inj_on g (set a \<union> set b) \<Longrightarrow> alike (map g a) (map g b) a b"
  by (auto simp: alike_def eq_at_def fun_eq_iff vget_def inj_on_eq_iff)

lemmas same_steps = if_cong [OF refl] rbind_cong [OF refl] refl

lemma forward_pass_alike:
  "alike a b u v \<Longrightarrow> forward_pass a b max_d d v2 k ks ke v1 = forward_pass u v max_d d v2 k ks ke v1"
proof (induction "nat (d - ke - k + 1)" arbitrary: k ks ke v1 rule: less_induct)
  case less
  have rec: "forward_pass a b max_d d v2 (k + 2) ks' ke' v' = forward_pass u v max_d d v2 (k + 2) ks' ke' v'"
    if "\<not> d - ke < k" "ke \<le> ke'" for ks' ke' v'
    using that less.prems by (intro less.hyps) auto
  have al: "length a = length u" "length b = length v" "eq_at a b = eq_at u v" using less.prems by (simp_all add: alike_def)
  show ?case
    by (rule trans [OF forward_pass.simps trans [OF _ forward_pass.simps [symmetric]]], unfold Let_def al split_beta)
      (intro same_steps rec; simp)
qed

lemma reverse_pass_alike:
  "alike a b u v \<Longrightarrow> reverse_pass a b max_d d v2 k ks ke v1 = reverse_pass u v max_d d v2 k ks ke v1"
proof (induction "nat (d - ke - k + 1)" arbitrary: k ks ke v1 rule: less_induct)
  case less
  have rec: "reverse_pass a b max_d d v2 (k + 2) ks' ke' v' = reverse_pass u v max_d d v2 (k + 2) ks' ke' v'"
    if "\<not> d - ke < k" "ke \<le> ke'" for ks' ke' v'
    using that less.prems by (intro less.hyps) auto
  have al: "length a = length u" "length b = length v" "eq_at a b = eq_at u v" using less.prems by (simp_all add: alike_def)
  show ?case
    by (rule trans [OF reverse_pass.simps trans [OF _ reverse_pass.simps [symmetric]]], unfold Let_def al split_beta)
      (intro same_steps rec; simp)
qed

lemma bisect_passes_alike:
  "alike a b u v \<Longrightarrow> bisect_passes a b max_d d ks ke ks' ke' v1 v2 = bisect_passes u v max_d d ks ke ks' ke' v1 v2"
proof (induction "nat (max_d - d)" arbitrary: d ks ke ks' ke' v1 v2 rule: less_induct)
  case less
  have rec: "bisect_passes a b max_d (d + 1) x y z w p q = bisect_passes u v max_d (d + 1) x y z w p q"
    if "\<not> max_d \<le> d" for x y z w p q
    using that less.prems by (intro less.hyps) auto
  show ?case
    by (rule trans [OF bisect_passes.simps trans [OF _ bisect_passes.simps [symmetric]]],
        unfold forward_pass_alike [OF less.prems] reverse_pass_alike [OF less.prems])
      (intro same_steps scan.case_cong rec; simp)
qed

lemma bisect_alike:
  assumes "alike a b u v"
  shows "bisect a b = bisect u v"
proof -
  have "bisect_passes a b = bisect_passes u v" by (intro ext) (rule bisect_passes_alike [OF assms])
  then show ?thesis using assms by (simp add: bisect_def alike_def)
qed

lemma bisect_map: "inj_on g (set a \<union> set b) \<Longrightarrow> bisect (map g a) (map g b) = bisect a b"
  by (rule bisect_alike) (rule alike_map)

lemma vget_eq_at: "rbind (vget a i) (\<lambda>x. rbind (vget b j) (\<lambda>y. if x = y then P else Q)) = rbind (eq_at a b (int i) (int j)) (\<lambda>e. if e then P else Q)"
  by (simp add: eq_at_def at_def rbind_assoc)

lemma strip_front_alike:
  "alike a b u v \<Longrightarrow> strip_front a b a0 a1 b0 b1 out = strip_front u v a0 a1 b0 b1 out"
proof (induction "a1 - a0" arbitrary: a0 b0 out rule: less_induct)
  case less
  have rec: "strip_front a b (a0 + 1) a1 (b0 + 1) b1 out' = strip_front u v (a0 + 1) a1 (b0 + 1) b1 out'" if "a0 < a1 \<and> b0 < b1" for out'
    using that less.prems by (intro less.hyps) auto
  have al: "eq_at a b = eq_at u v" using less.prems by (simp add: alike_def)
  show ?case
    by (subst (1 2) strip_front.simps) (unfold vget_eq_at al, intro same_steps rec; simp)
qed

lemma strip_end_alike:
  "alike a b u v \<Longrightarrow> strip_end a b a0 a1 b0 b1 out = strip_end u v a0 a1 b0 b1 out"
proof (induction "a1 - a0" arbitrary: a1 b1 out rule: less_induct)
  case less
  have rec: "strip_end a b a0 (a1 - 1) b0 (b1 - 1) out' = strip_end u v a0 (a1 - 1) b0 (b1 - 1) out'" if "a0 < a1 \<and> b0 < b1" for out'
    using that less.prems by (intro less.hyps) auto
  have al: "eq_at a b = eq_at u v" using less.prems by (simp add: alike_def)
  show ?case
    by (subst (1 2) strip_end.simps) (unfold vget_eq_at al, intro same_steps rec; simp)
qed

lemma slice_map: "slice (map g v) i j = rbind (slice v i j) (\<lambda>u. Inr (map g u))"
  by (simp add: slice_def take_map drop_map)

subsection \<open>The work stack\<close>

lemma take_drop_snoc: "a0 < a1 \<Longrightarrow> a1 \<le> length a \<Longrightarrow> take (a1 - a0) (drop a0 a) = take (a1 - 1 - a0) (drop a0 a) @ [a ! (a1 - 1)]"
  using take_Suc_conv_app_nth [of "a1 - 1 - a0" "drop a0 a"] by (simp add: Suc_diff_Suc)

lemma strip_end_spec:
  assumes "corners a b a0 a1 b0 b1"
  shows "\<exists>a' b' ps. strip_end a b a0 a1 b0 b1 out = Inr (a', b', out @ ps) \<and> corners a b a0 a' b0 b' \<and> a' \<le> a1 \<and> b' \<le> b1
    \<and> aligned a b a' a1 b' b1 (rev ps)
    \<and> lcs_len (take (a1 - a0) (drop a0 a)) (take (b1 - b0) (drop b0 b)) = lcs_len (take (a' - a0) (drop a0 a)) (take (b' - b0) (drop b0 b)) + length ps
    \<and> (a0 < a' \<and> b0 < b' \<longrightarrow> a ! (a' - 1) \<noteq> b ! (b' - 1))"
  using assms
proof (induction "a1 - a0" arbitrary: a1 b1 out rule: less_induct)
  case less
  have ends: "aligned a b a1 a1 b1 b1 []" by (simp add: aligned_def)
  show ?case
  proof (cases "a0 < a1 \<and> b0 < b1")
    case False
    then show ?thesis using less.prems ends by (subst strip_end.simps) (auto simp: corners_def)
  next
    case True
    then have get: "vget a (a1 - 1) = Inr (a ! (a1 - 1))" "vget b (b1 - 1) = Inr (b ! (b1 - 1))"
      using less.prems by (auto simp: vget_def corners_def)
    show ?thesis
    proof (cases "a ! (a1 - 1) = b ! (b1 - 1)")
      case False
      then show ?thesis using less.prems ends get True by (subst strip_end.simps) auto
    next
      case eq: True
      have "corners a b a0 (a1 - 1) b0 (b1 - 1)" "a1 - 1 - a0 < a1 - a0" using less.prems True by (auto simp: corners_def)
      then obtain a' b' ps where r: "strip_end a b a0 (a1 - 1) b0 (b1 - 1) (out @ [(a1 - 1, b1 - 1)]) = Inr (a', b', (out @ [(a1 - 1, b1 - 1)]) @ ps)"
        "corners a b a0 a' b0 b'" "a' \<le> a1 - 1" "b' \<le> b1 - 1" "aligned a b a' (a1 - 1) b' (b1 - 1) (rev ps)"
        "lcs_len (take (a1 - 1 - a0) (drop a0 a)) (take (b1 - 1 - b0) (drop b0 b))
          = lcs_len (take (a' - a0) (drop a0 a)) (take (b' - b0) (drop b0 b)) + length ps"
        "a0 < a' \<and> b0 < b' \<longrightarrow> a ! (a' - 1) \<noteq> b ! (b' - 1)"
        using less.hyps by blast
      have last: "lcs_len (take (a1 - u) (drop u a)) (take (b1 - v) (drop v b))
          = Suc (lcs_len (take (a1 - 1 - u) (drop u a)) (take (b1 - 1 - v) (drop v b)))"
        if "u < a1" "v < b1" for u v
        using take_drop_snoc [of u a1 a] take_drop_snoc [of v b1 b] that less.prems eq lcs_len_snoc by (simp add: corners_def)
      have lt: "a' < a1" "b' < b1" using r(3,4) True by linarith+
      have "aligned a b a' a1 b' b1 (rev ((a1 - 1, b1 - 1) # ps))"
      proof -
        have "aligned a b (a1 - 1) a1 (b1 - 1) b1 [(a1 - 1, b1 - 1)]"
          using eq True last [of "a1 - 1" "b1 - 1"] by (simp add: aligned_def)
        moreover have "lcs_len (take (a1 - 1 - a') (drop a' a)) (take (b1 - 1 - b') (drop b' b))
            + lcs_len (take (a1 - (a1 - 1)) (drop (a1 - 1) a)) (take (b1 - (b1 - 1)) (drop (b1 - 1) b))
            = lcs_len (take (a1 - a') (drop a' a)) (take (b1 - b') (drop b' b))"
          using last [OF lt] last [of "a1 - 1" "b1 - 1"] True by simp
        ultimately show ?thesis using aligned_append [OF r(5), of a1 b1 "[(a1 - 1, b1 - 1)]"] r(3,4) by simp
      qed
      moreover have "strip_end a b a0 a1 b0 b1 out = Inr (a', b', out @ (a1 - 1, b1 - 1) # ps)"
        using r(1) True get eq by (subst strip_end.simps) simp
      moreover have "lcs_len (take (a1 - a0) (drop a0 a)) (take (b1 - b0) (drop b0 b))
          = lcs_len (take (a' - a0) (drop a0 a)) (take (b' - b0) (drop b0 b)) + length ((a1 - 1, b1 - 1) # ps)"
        using last [of a0 b0] r(6) True by simp
      moreover have "a' \<le> a1" "b' \<le> b1" using lt by simp_all
      ultimately show ?thesis using r(2,7) by blast
    qed
  qed
qed

lemma cut_ends:
  assumes "i < j" "j \<le> length xs"
  shows "take (j - i) (drop i xs) \<noteq> []" "hd (take (j - i) (drop i xs)) = xs ! i" "last (take (j - i) (drop i xs)) = xs ! (j - 1)"
    "length (take (j - i) (drop i xs)) = j - i"
proof -
  show "take (j - i) (drop i xs) \<noteq> []" "length (take (j - i) (drop i xs)) = j - i" using assms by simp_all
  show "hd (take (j - i) (drop i xs)) = xs ! i" using assms by (simp add: hd_drop_conv_nth)
  show "last (take (j - i) (drop i xs)) = xs ! (j - 1)" using take_drop_snoc [OF assms] by simp
qed

lemma cut_parts:
  assumes "x \<le> j - i"
  shows "take x (take (j - i) (drop i xs)) = take x (drop i xs)" "drop x (take (j - i) (drop i xs)) = take (j - (i + x)) (drop (i + x) xs)"
  using assms by (simp_all add: min_absorb1 drop_take add.commute)

lemma split_sizes:
  assumes "l \<le> c" "m \<le> d" "x \<le> l" "y \<le> m" "0 < x + y" "x + y < l + m"
  shows "x + y < c + d" "(l - x) + (m - y) < (c :: nat) + d"
  using assms by linarith+

lemma lcs_loop_Emit: "lcs_loop a b (Emit pairs # st) out = lcs_loop a b st (out @ pairs)"
  by (subst lcs_loop.simps) simp

lemma lcs_loop_Range:
  assumes "strip_front a b a0 a1 b0 b1 out = Inr (a', b', out')" "strip_end a b a' a1 b' b1 [] = Inr (a'', b'', suffix)"
  shows "a' = a'' \<or> b' = b'' \<Longrightarrow> lcs_loop a b (Range a0 a1 b0 b1 # st) out = lcs_loop a b st (out' @ rev suffix)"
    and "a' \<noteq> a'' \<Longrightarrow> b' \<noteq> b'' \<Longrightarrow> slice a a' a'' = Inr u \<Longrightarrow> slice b b' b'' = Inr v \<Longrightarrow> bisect u v = Inr None \<Longrightarrow>
      lcs_loop a b (Range a0 a1 b0 b1 # st) out = lcs_loop a b st (out' @ rev suffix)"
    and "a' \<noteq> a'' \<Longrightarrow> b' \<noteq> b'' \<Longrightarrow> slice a a' a'' = Inr u \<Longrightarrow> slice b b' b'' = Inr v \<Longrightarrow> bisect u v = Inr (Some (x, y)) \<Longrightarrow>
      lcs_loop a b (Range a0 a1 b0 b1 # st) out
        = lcs_loop a b (Range a' (a' + x) b' (b' + y) # Range (a' + x) a'' (b' + y) b'' # Emit (rev suffix) # st) out'"
  using assms by (subst lcs_loop.simps; simp add: Let_def lcs_loop_Emit)+

text \<open>One range of the work stack is replaced by its alignment.\<close>

definition emits :: "'a list \<Rightarrow> 'a list \<Rightarrow> task \<Rightarrow> (nat \<times> nat) list \<Rightarrow> bool" where
  "emits a b r ps \<longleftrightarrow> (\<forall>st out. lcs_loop a b (r # st) out = lcs_loop a b st (out @ ps))"

lemma lcs_range:
  assumes "corners a b a0 a1 b0 b1" "fits a b"
  shows "\<exists>ps. (\<forall>g :: 'a \<Rightarrow> 'b. inj_on g (set a \<union> set b) \<longrightarrow> emits (map g a) (map g b) (Range a0 a1 b0 b1) ps) \<and> aligned a b a0 a1 b0 b1 ps"
  using assms(1)
proof (induction "(a1 - a0) + (b1 - b0)" arbitrary: a0 a1 b0 b1 rule: less_induct)
  case less
  obtain a' b' ps where front: "\<forall>out. strip_front a b a0 a1 b0 b1 out = Inr (a', b', out @ ps)" "corners a b a' a1 b' b1" "a0 \<le> a'" "b0 \<le> b'"
    "aligned a b a0 a' b0 b' ps"
    "lcs_len (take (a1 - a0) (drop a0 a)) (take (b1 - b0) (drop b0 b)) = length ps + lcs_len (take (a1 - a') (drop a' a)) (take (b1 - b') (drop b' b))"
    "a' < a1 \<and> b' < b1 \<longrightarrow> a ! a' \<noteq> b ! b'"
    using strip_front_spec [OF less.prems] by blast
  obtain a'' b'' qs where tail: "strip_end a b a' a1 b' b1 [] = Inr (a'', b'', qs)" "corners a b a' a'' b' b''" "a'' \<le> a1" "b'' \<le> b1"
    "aligned a b a'' a1 b'' b1 (rev qs)"
    "lcs_len (take (a1 - a') (drop a' a)) (take (b1 - b') (drop b' b)) = lcs_len (take (a'' - a') (drop a' a)) (take (b'' - b') (drop b' b)) + length qs"
    "a' < a'' \<and> b' < b'' \<longrightarrow> a ! (a'' - 1) \<noteq> b ! (b'' - 1)"
    using strip_end_spec [OF front(2), of "[]"] by auto
  have le: "a' \<le> a''" "b' \<le> b''" "a'' \<le> length a" "b'' \<le> length b" using tail(2) by (auto simp: corners_def)
  let ?u = "take (a'' - a') (drop a' a)" and ?v = "take (b'' - b') (drop b' b)"
  have front_g: "strip_front (map g a) (map g b) a0 a1 b0 b1 out = Inr (a', b', out @ ps)"
    and tail_g: "strip_end (map g a) (map g b) a' a1 b' b1 [] = Inr (a'', b'', qs)" if "inj_on g (set a \<union> set b)" for g :: "'a \<Rightarrow> 'b" and out
    using front(1) tail(1) strip_front_alike [OF alike_map [OF that]] strip_end_alike [OF alike_map [OF that]] by simp_all
  text \<open>It is enough to align the middle.\<close>
  have join: "aligned a b a0 a1 b0 b1 (ps @ ms @ rev qs)" if "aligned a b a' a'' b' b'' ms" for ms
  proof -
    have "aligned a b a' a1 b' b1 (ms @ rev qs)"
      using tail(3-6) le by (intro aligned_append [OF that tail(5)]) (auto simp: aligned_def)
    then show ?thesis
      using front(2-6) by (intro aligned_append [OF front(5)]) (auto simp: aligned_def corners_def)
  qed
  show ?case
  proof (cases "a' = a'' \<or> b' = b''")
    case True
    have "emits (map g a) (map g b) (Range a0 a1 b0 b1) (ps @ rev qs)" if g: "inj_on g (set a \<union> set b)" for g :: "'a \<Rightarrow> 'b"
      using lcs_loop_Range(1) [OF front_g [OF g] tail_g [OF g] True] by (simp add: emits_def)
    moreover have "aligned a b a' a'' b' b'' []" using True by (auto simp: aligned_def)
    ultimately show ?thesis using join [of "[]"] by auto
  next
    case False
    then have lt: "a' < a''" "b' < b''" using le by simp_all
    note uv = cut_ends [OF lt(1) le(3)] cut_ends [OF lt(2) le(4)]
    have "fits ?u ?v" using assms(2) by (auto simp: fits_def)
    then obtain r where r: "bisect ?u ?v = Inr r" "case r of None \<Rightarrow> distance ?u ?v = int (length ?u) + int (length ?v) | Some (x, y) \<Rightarrow> splits ?u ?v x y"
      using bisect_spec [of ?u ?v] uv front(7) tail(3,4,7) lt by (auto simp del: hd_take)
    have sl: "slice (map g a) a' a'' = Inr (map g ?u)" "slice (map g b) b' b'' = Inr (map g ?v)" for g :: "'a \<Rightarrow> 'b"
      using le by (simp_all add: slice_map) (simp_all add: slice_def)
    have bis: "bisect (map g ?u) (map g ?v) = Inr r" if g: "inj_on g (set a \<union> set b)" for g :: "'a \<Rightarrow> 'b"
    proof -
      have "set ?u \<union> set ?v \<subseteq> set a \<union> set b" by (auto dest: in_set_takeD in_set_dropD)
      then show ?thesis using bisect_map [OF inj_on_subset [OF g]] r(1) by simp
    qed
    show ?thesis
    proof (cases r)
      case None
      have "emits (map g a) (map g b) (Range a0 a1 b0 b1) (ps @ rev qs)" if g: "inj_on g (set a \<union> set b)" for g :: "'a \<Rightarrow> 'b"
        using lcs_loop_Range(2) [OF front_g [OF g] tail_g [OF g] _ _ sl(1) sl(2) bis [OF g, unfolded None]] False by (simp add: emits_def)
      moreover have "aligned a b a' a'' b' b'' []"
        using r(2) None by (simp add: aligned_def distance_def ed_def lcs_len_def)
      ultimately show ?thesis using join [of "[]"] by auto
    next
      case (Some p)
      obtain x y where p: "p = (x, y)" by (cases p)
      have sp: "splits ?u ?v x y" using r(2) Some p by simp
      note S = splits_lcs [OF sp]
      have xy: "x \<le> a'' - a'" "y \<le> b'' - b'" using sp uv by (simp_all add: splits_def)
      have width: "a'' - a' \<le> a1 - a0" "b'' - b' \<le> b1 - b0" using front(3,4) tail(3,4) by simp_all
      have size: "(a' + x - a') + (b' + y - b') < (a1 - a0) + (b1 - b0)" "(a'' - (a' + x)) + (b'' - (b' + y)) < (a1 - a0) + (b1 - b0)"
        using split_sizes [OF width xy S(2) S(3) [unfolded uv(4,8)]] by simp_all
      have cs: "corners a b a' (a' + x) b' (b' + y)" "corners a b (a' + x) a'' (b' + y) b''"
        using xy le by (auto simp: corners_def)
      obtain ms where ms: "\<forall>g :: 'a \<Rightarrow> 'b. inj_on g (set a \<union> set b) \<longrightarrow> emits (map g a) (map g b) (Range a' (a' + x) b' (b' + y)) ms" "aligned a b a' (a' + x) b' (b' + y) ms"
        using less.hyps [OF size(1) cs(1)] by blast
      obtain ns where ns: "\<forall>g :: 'a \<Rightarrow> 'b. inj_on g (set a \<union> set b) \<longrightarrow> emits (map g a) (map g b) (Range (a' + x) a'' (b' + y) b'') ns" "aligned a b (a' + x) a'' (b' + y) b'' ns"
        using less.hyps [OF size(2) cs(2)] by blast
      have "emits (map g a) (map g b) (Range a0 a1 b0 b1) (ps @ (ms @ ns) @ rev qs)" if g: "inj_on g (set a \<union> set b)" for g :: "'a \<Rightarrow> 'b"
        using lcs_loop_Range(3) [OF front_g [OF g] tail_g [OF g] _ _ sl(1) sl(2) bis [OF g, unfolded Some p]] False ms(1) ns(1) g
        by (simp add: emits_def lcs_loop_Emit)
      moreover have "aligned a b a' a'' b' b'' (ms @ ns)"
      proof (rule aligned_append [OF ms(2) ns(2)])
        show "lcs_len (take (a' + x - a') (drop a' a)) (take (b' + y - b') (drop b' b))
            + lcs_len (take (a'' - (a' + x)) (drop (a' + x) a)) (take (b'' - (b' + y)) (drop (b' + y) b)) = lcs_len ?u ?v"
          using S(1) cut_parts [OF xy(1), of a] cut_parts [OF xy(2), of b] by simp
      qed (use xy le in auto)
      ultimately show ?thesis using join [of "ms @ ns"] by blast
    qed
  qed
qed

text \<open>The alignment of two lists, and that it depends on their equalities only.\<close>

definition common_subseq :: "'a list \<Rightarrow> 'a list \<Rightarrow> (nat \<times> nat) list \<Rightarrow> bool" where
  "common_subseq a b ps \<longleftrightarrow> sorted_wrt below ps \<and> list_all (\<lambda>(i, j). i < length a \<and> j < length b \<and> a ! i = b ! j) ps"

lemma emits_pairs: "emits a b (Range 0 (length a) 0 (length b)) ps \<Longrightarrow> lcs_pairs a b = Some (Inr ps)"
  unfolding emits_def lcs_pairs_def by (simp, subst lcs_loop.simps, simp)

definition longest_common :: "'a list \<Rightarrow> 'a list \<Rightarrow> (nat \<times> nat) list \<Rightarrow> bool" where
  "longest_common a b ps \<longleftrightarrow> common_subseq a b ps \<and> (\<forall>qs. common_subseq a b qs \<longrightarrow> length qs \<le> length ps)"

lemma aligned_longest: "aligned a b 0 (length a) 0 (length b) ps \<Longrightarrow> longest_common a b ps"
proof -
  assume ps: "aligned a b 0 (length a) 0 (length b) ps"
  have "length qs \<le> length ps" if "common_subseq a b qs" for qs
  proof -
    have "matching (same a b) (length a) (length b) qs" using that by (auto simp: matching_def same_def common_subseq_def list_all_iff)
    then have "length qs \<le> lcs_len a b" unfolding lcs_len_def by (rule matching_upper)
    then show ?thesis using ps by (simp add: aligned_def)
  qed
  moreover have "common_subseq a b ps" using ps by (auto simp: aligned_def common_subseq_def list_all_iff)
  ultimately show ?thesis by (simp add: longest_common_def)
qed

text \<open>The alignment depends on which elements are equal only.\<close>

lemma lcs_pairs_map:
  assumes "fits a b"
  shows "\<exists>ps. longest_common a b ps \<and> (\<forall>g :: 'a \<Rightarrow> 'b. inj_on g (set a \<union> set b) \<longrightarrow> lcs_pairs (map g a) (map g b) = Some (Inr ps))"
proof -
  obtain ps where ps: "\<forall>g :: 'a \<Rightarrow> 'b. inj_on g (set a \<union> set b) \<longrightarrow> emits (map g a) (map g b) (Range 0 (length a) 0 (length b)) ps"
    "aligned a b 0 (length a) 0 (length b) ps"
    using lcs_range [of a b 0 "length a" 0 "length b"] assms by (auto simp: corners_def)
  have "lcs_pairs (map g a) (map g b) = Some (Inr ps)" if "inj_on g (set a \<union> set b)" for g :: "'a \<Rightarrow> 'b"
    using ps(1) that emits_pairs [of "map g a" "map g b" ps] by simp
  then show ?thesis using aligned_longest [OF ps(2)] by blast
qed

text \<open>C14. \<open>lcs_pairs\<close> returns for every two lists that fit in memory, without a panic, and what it
  returns is a longest common subsequence: index pairs of equal elements, strictly increasing in
  both components, and no common subsequence has more pairs.\<close>

theorem lcs_pairs_longest:
  assumes "fits a b"
  shows "\<exists>ps. lcs_pairs a b = Some (Inr ps) \<and> common_subseq a b ps \<and> (\<forall>qs. common_subseq a b qs \<longrightarrow> length qs \<le> length ps)"
proof -
  obtain ps where ps: "longest_common a b ps" "\<forall>g :: 'a \<Rightarrow> 'a. inj_on g (set a \<union> set b) \<longrightarrow> lcs_pairs (map g a) (map g b) = Some (Inr ps)"
    using lcs_pairs_map [OF assms] by blast
  have "lcs_pairs a b = Some (Inr ps)" using ps(2) [rule_format, of "\<lambda>x. x"] by simp
  then show ?thesis using ps(1) unfolding longest_common_def by blast
qed

theorem lcs_pairs_longest_witness:
  "lcs_pairs ''abcabba'' ''cbabac'' = Some (Inr [(1, 1), (3, 2), (4, 3), (6, 4)])
    \<and> \<not> (\<exists>qs. common_subseq ''abcabba'' ''cbabac'' qs \<and> length qs = 5)"
proof -
  have "fits ''abcabba'' ''cbabac''" by (simp add: fits_def)
  from lcs_pairs_longest [OF this] obtain ps where ps: "lcs_pairs ''abcabba'' ''cbabac'' = Some (Inr ps)"
    "\<forall>qs. common_subseq ''abcabba'' ''cbabac'' qs \<longrightarrow> length qs \<le> length ps" by blast
  have run: "lcs_pairs ''abcabba'' ''cbabac'' = Some (Inr [(1, 1), (3, 2), (4, 3), (6, 4)])" by code_simp
  then have "length ps = 4" using ps(1) by simp
  then show ?thesis using run ps(2) by force
qed

end
