(* ===== verification/MergeCorrect.thy ===== *)
theory MergeCorrect
  imports MergeBody DiffAlign
begin

text \<open>
  Correctness of the body merge: \<open>merge_body\<close> always returns, and on the line merge it returns what
  a reference definition of a three-way merge over two longest common subsequences gives; the merge
  does not depend on the order of the two sides, invents no line and keeps CRLF line endings.
\<close>

subsection \<open>Interning\<close>

definition good_table :: "('a \<times> nat) list \<Rightarrow> bool" where
  "good_table t \<longleftrightarrow> distinct (map fst t) \<and> map snd t = [0..<length t]"

definition number_of :: "('a \<times> nat) list \<Rightarrow> 'a \<Rightarrow> nat" where
  "number_of t l = the (map_of t l)"

lemma good_table_snoc: "good_table t \<Longrightarrow> map_of t l = None \<Longrightarrow> length t < 2 ^ 32 \<Longrightarrow> good_table (t @ [(l, u32_of (length t))])"
  by (simp add: good_table_def u32_of_def map_of_eq_None_iff)

lemma number_inj: "good_table t \<Longrightarrow> inj_on (number_of t) (fst ` set t)"
proof (rule inj_onI)
  fix x y assume t: "good_table t" and xy: "x \<in> fst ` set t" "y \<in> fst ` set t" "number_of t x = number_of t y"
  obtain i j where ij: "i < length t" "j < length t" "x = fst (t ! i)" "y = fst (t ! j)" using xy by (auto simp: in_set_conv_nth)
  have get: "number_of t (fst (t ! m)) = m" if "m < length t" for m
  proof -
    have "map_of t (fst (t ! m)) = Some (snd (t ! m))" using t that by (intro map_of_is_SomeI) (simp_all add: good_table_def)
    moreover have "snd (t ! m) = m" using t that nth_map [of m t snd] by (simp add: good_table_def)
    ultimately show ?thesis by (simp add: number_of_def)
  qed
  show "x = y" using get [OF ij(1)] get [OF ij(2)] ij xy(3) by simp
qed

lemma intern_spec:
  assumes "good_table t" "length t + length ls \<le> 2 ^ 32"
  shows "\<exists>x. intern t ls = (t @ x, map (number_of (t @ x)) ls) \<and> good_table (t @ x) \<and> set ls \<subseteq> fst ` set (t @ x) \<and> length x \<le> length ls"
  using assms
proof (induction ls arbitrary: t)
  case Nil
  then show ?case by simp
next
  case (Cons l ls)
  show ?case
  proof (cases "map_of t l")
    case None
    have "good_table (t @ [(l, u32_of (length t))])" using Cons.prems None by (intro good_table_snoc) simp_all
    from Cons.IH [OF this] Cons.prems(2) obtain x where
      x: "intern (t @ [(l, u32_of (length t))]) ls = ((t @ [(l, u32_of (length t))]) @ x, map (number_of ((t @ [(l, u32_of (length t))]) @ x)) ls)"
      "good_table ((t @ [(l, u32_of (length t))]) @ x)" "set ls \<subseteq> fst ` set ((t @ [(l, u32_of (length t))]) @ x)" "length x \<le> length ls" by auto
    have "number_of ((t @ [(l, u32_of (length t))]) @ x) l = u32_of (length t)"
      using None by (simp add: number_of_def map_add_def)
    then show ?thesis using None x by (intro exI [of _ "(l, u32_of (length t)) # x"]) (auto simp: Let_def)
  next
    case (Some v)
    from Cons.IH [OF Cons.prems(1)] Cons.prems(2) obtain x where
      x: "intern t ls = (t @ x, map (number_of (t @ x)) ls)" "good_table (t @ x)" "set ls \<subseteq> fst ` set (t @ x)" "length x \<le> length ls" by auto
    have "number_of (t @ x) l = v" using Some by (simp add: number_of_def map_add_def)
    moreover have "l \<in> fst ` set t" using Some by (metis domI dom_map_of_conv_image_fst)
    ultimately show ?thesis using Some x by (intro exI [of _ x]) auto
  qed
qed

text \<open>The three lists of lines are numbered by one injective function.\<close>

lemma intern_three:
  assumes "length base + length first + length second \<le> 2 ^ 32"
  shows "\<exists>t1 t2 t3 g. intern [] base = (t1, map g base) \<and> intern t1 first = (t2, map g first) \<and> intern t2 second = (t3, map g second)
    \<and> inj_on g (set base \<union> set first \<union> set second)"
proof -
  obtain x where x: "intern [] base = (x, map (number_of x) base)" "good_table x" "set base \<subseteq> fst ` set x" "length x \<le> length base"
    using intern_spec [of "[]" base] assms by (auto simp: good_table_def)
  obtain y where y: "intern x first = (x @ y, map (number_of (x @ y)) first)" "good_table (x @ y)" "set first \<subseteq> fst ` set (x @ y)" "length y \<le> length first"
    using intern_spec [of x first] x assms by auto
  obtain z where z: "intern (x @ y) second = ((x @ y) @ z, map (number_of ((x @ y) @ z)) second)" "good_table ((x @ y) @ z)" "set second \<subseteq> fst ` set ((x @ y) @ z)"
    using intern_spec [of "x @ y" second] x y assms by auto
  have ext: "number_of (u @ v) l = number_of u l" if "l \<in> fst ` set u" for u v :: "('a \<times> nat) list" and l
    using that by (simp add: number_of_def map_add_def split: option.split) (metis domIff dom_map_of_conv_image_fst option.distinct(1))
  let ?g = "number_of ((x @ y) @ z)"
  have "map (number_of x) base = map ?g base" using subsetD [OF x(3)] ext [of _ x "y @ z"] by (intro map_cong refl) simp
  moreover have "map (number_of (x @ y)) first = map ?g first" using subsetD [OF y(3)] ext [of _ "x @ y" z] by (intro map_cong refl) simp
  moreover have "inj_on ?g (set base \<union> set first \<union> set second)"
    by (rule inj_on_subset [OF number_inj [OF z(2)]]) (use x(3) y(3) z(3) in auto)
  ultimately show ?thesis using x(1) y(1) z(1) by metis
qed

subsection \<open>The alignment tables\<close>

lemma below_keys: "sorted_wrt below ps \<Longrightarrow> distinct (map fst ps)"
  by (induction ps) (auto simp: below_def)

lemma place_pairs_spec:
  assumes "distinct (map fst ps)" "list_all (\<lambda>p. fst p < length v) ps"
  shows "\<exists>w. place_pairs v ps = Inr w \<and> length w = length v \<and> (\<forall>i < length v. w ! i = (case map_of ps i of None \<Rightarrow> v ! i | Some j \<Rightarrow> Some j))"
  using assms
proof (induction ps arbitrary: v)
  case Nil
  then show ?case by simp
next
  case (Cons p ps)
  obtain i j where p: "p = (i, j)" by (cases p)
  have "distinct (map fst ps)" "list_all (\<lambda>p. fst p < length (v[i := Some j])) ps" using Cons.prems by simp_all
  from Cons.IH [OF this] obtain w where w: "place_pairs (v[i := Some j]) ps = Inr w" "length w = length v"
    "\<forall>k < length v. w ! k = (case map_of ps k of None \<Rightarrow> v[i := Some j] ! k | Some j \<Rightarrow> Some j)" unfolding length_list_update by (elim exE conjE)
  have "map_of ps i = None" using Cons.prems(1) p by (simp add: map_of_eq_None_iff)
  then have "w ! k = (case map_of (p # ps) k of None \<Rightarrow> v ! k | Some j \<Rightarrow> Some j)" if "k < length v" for k
    using w(3) that p by (cases "k = i") (simp_all split: option.split)
  moreover have "place_pairs v (p # ps) = Inr w" using w(1) Cons.prems(2) p by (simp add: vset_def)
  ultimately show ?case using w(2) by blast
qed

lemma place_pairs_empty:
  assumes "common_subseq a b ps"
  shows "\<exists>w. place_pairs (replicate (length a) None) ps = Inr w \<and> length w = length a \<and> (\<forall>i < length a. w ! i = map_of ps i)"
proof -
  have "list_all (\<lambda>p. fst p < length (replicate (length a) None)) ps" "distinct (map fst ps)"
    using assms below_keys by (auto simp: common_subseq_def list_all_iff split: prod.splits)
  from place_pairs_spec [OF this(2,1)] show ?thesis by (auto split: option.splits)
qed

subsection \<open>The reference merge\<close>

text \<open>The base lines aligned with both sides, and the merge chunk by chunk between them.\<close>

definition pick :: "'a list \<Rightarrow> 'a list \<Rightarrow> 'a list \<Rightarrow> 'a list option" where
  "pick b f s = (if f = s \<or> s = b then Some f else if f = b then Some s else None)"

definition anchors :: "(nat \<times> nat) list \<Rightarrow> (nat \<times> nat) list \<Rightarrow> nat \<Rightarrow> nat \<Rightarrow> (nat \<times> nat \<times> nat) list" where
  "anchors pf ps bi n = map (\<lambda>i. (i, the (map_of pf i), the (map_of ps i))) (filter (\<lambda>i. map_of pf i \<noteq> None \<and> map_of ps i \<noteq> None) [bi..<n])"

definition between :: "'a list \<Rightarrow> nat \<Rightarrow> nat \<Rightarrow> 'a list" where
  "between xs i j = take (j - i) (drop i xs)"

fun weave :: "'a list \<Rightarrow> 'a list \<Rightarrow> 'a list \<Rightarrow> nat \<Rightarrow> nat \<Rightarrow> nat \<Rightarrow> (nat \<times> nat \<times> nat) list \<Rightarrow> 'a list option" where
  "weave B F S bi fi si [] = pick (drop bi B) (drop fi F) (drop si S)"
| "weave B F S bi fi si ((i, j, k) # as) =
    (case pick (between B bi i) (between F fi j) (between S si k) of
       None \<Rightarrow> None
     | Some x \<Rightarrow> map_option (\<lambda>y. x @ B ! i # y) (weave B F S (i + 1) (j + 1) (k + 1) as))"

lemma next_stable_spec:
  assumes "length in1 = n" "length in2 = n" "\<And>i. i < n \<Longrightarrow> in1 ! i = map_of pf i" "\<And>i. i < n \<Longrightarrow> in2 ! i = map_of ps i"
  shows "(next_stable n in1 in2 bi = Inr None \<and> anchors pf ps bi n = []) \<or>
    (\<exists>i j k. next_stable n in1 in2 bi = Inr (Some i) \<and> bi \<le> i \<and> i < n \<and> map_of pf i = Some j \<and> map_of ps i = Some k
      \<and> anchors pf ps bi n = (i, j, k) # anchors pf ps (i + 1) n)"
proof (induction "n - bi" arbitrary: bi rule: less_induct)
  case less
  show ?case
  proof (cases "bi < n")
    case False
    then have "next_stable n in1 in2 bi = Inr None" by (simp add: next_stable.simps)
    then show ?thesis using False by (simp add: anchors_def)
  next
    case True
    then have get: "vget in1 bi = Inr (map_of pf bi)" "vget in2 bi = Inr (map_of ps bi)" using assms by (simp_all add: vget_def)
    have up: "[bi..<n] = bi # [bi + 1..<n]" using True upt_conv_Cons by simp
    show ?thesis
    proof (cases "map_of pf bi = None \<or> map_of ps bi = None")
      case True
      then have "next_stable n in1 in2 bi = next_stable n in1 in2 (bi + 1)"
        using get \<open>bi < n\<close> by (subst next_stable.simps) auto
      moreover have "anchors pf ps bi n = anchors pf ps (bi + 1) n" using True up by (auto simp: anchors_def)
      moreover have "n - (bi + 1) < n - bi" using \<open>bi < n\<close> by simp
      ultimately show ?thesis using less.hyps [of "bi + 1"] by (metis Suc_leD add.commute plus_1_eq_Suc)
    next
      case False
      then obtain j k where jk: "map_of pf bi = Some j" "map_of ps bi = Some k" by auto
      then have "next_stable n in1 in2 bi = Inr (Some bi)" using get True by (subst next_stable.simps) simp
      moreover have "anchors pf ps bi n = (bi, j, k) # anchors pf ps (bi + 1) n" using jk up by (simp add: anchors_def)
      ultimately show ?thesis using jk True by blast
    qed
  qed
qed

text \<open>All pairs from a position on lie ahead of the cursor of the side.\<close>

definition ahead :: "(nat \<times> nat) list \<Rightarrow> nat \<Rightarrow> nat \<Rightarrow> nat \<Rightarrow> bool" where
  "ahead ps bi fi m \<longleftrightarrow> fi \<le> m \<and> (\<forall>i j. map_of ps i = Some j \<longrightarrow> bi \<le> i \<longrightarrow> fi \<le> j \<and> j < m)"

lemma common_get:
  assumes "common_subseq a b ps" "map_of ps i = Some j"
  shows "i < length a" "j < length b" "a ! i = b ! j"
  using assms(1) map_of_SomeD [OF assms(2)] by (auto simp: common_subseq_def list_all_iff)

lemma sorted_below: "sorted_wrt below ps \<Longrightarrow> (i, j) \<in> set ps \<Longrightarrow> (i', j') \<in> set ps \<Longrightarrow> i < i' \<Longrightarrow> j < j'"
  by (induction ps) (auto simp: below_def)

lemma ahead_start: "common_subseq a b ps \<Longrightarrow> ahead ps 0 0 (length b)"
  using common_get [of a b ps] by (auto simp: ahead_def)

lemma ahead_step:
  assumes "common_subseq a b ps" "map_of ps i = Some j"
  shows "ahead ps (i + 1) (j + 1) (length b)"
proof -
  have "j + 1 \<le> j' \<and> j' < length b" if "map_of ps i' = Some j'" "i + 1 \<le> i'" for i' j'
    using sorted_below [OF _ map_of_SomeD [OF assms(2)] map_of_SomeD [OF that(1)]] that(2) assms(1) common_get [OF assms(1) that(1)]
    by (simp add: common_subseq_def)
  then show ?thesis using common_get(2) [OF assms] by (auto simp: ahead_def)
qed

lemma slice_between: "i \<le> j \<Longrightarrow> j \<le> length v \<Longrightarrow> slice v i j = Inr (between v i j)"
  by (simp add: slice_def between_def)

lemma between_map_iff:
  assumes "inj_on g (set a \<union> set b)"
  shows "between (map g a) i j = between (map g b) i' j' \<longleftrightarrow> between a i j = between b i' j'"
proof -
  have "set (between a i j) \<subseteq> set a" "set (between b i' j') \<subseteq> set b" by (auto simp: between_def dest: in_set_takeD in_set_dropD)
  then have "inj_on g (set (between a i j) \<union> set (between b i' j'))" by (intro inj_on_subset [OF assms]) blast
  moreover have "between (map g v) x y = map g (between v x y)" for v x y by (simp add: between_def take_map drop_map)
  ultimately show ?thesis by (simp add: inj_on_map_eq_map)
qed

text \<open>One round of the loop, and the loop.\<close>

lemma round_pick:
  assumes "inj_on g (set B \<union> set F \<union> set S)" "bi \<le> i" "i \<le> length B" "fi \<le> j" "j \<le> length F" "si \<le> k" "k \<le> length S"
  shows "rbind (slice (map g B) bi i) (\<lambda>bc. rbind (slice (map g F) fi j) (\<lambda>fc. rbind (slice (map g S) si k) (\<lambda>sc.
      rbind (if fc = sc \<or> sc = bc then rbind (slice F fi j) (\<lambda>t. Inr (Some t))
             else if fc = bc then rbind (slice S si k) (\<lambda>t. Inr (Some t)) else Inr None) h)))
    = h (pick (between B bi i) (between F fi j) (between S si k))"
proof -
  have inj: "inj_on g (set F \<union> set S)" "inj_on g (set S \<union> set B)" "inj_on g (set F \<union> set B)"
    by (rule inj_on_subset [OF assms(1)], blast)+
  show ?thesis
    using assms(2-) by (simp add: slice_between between_map_iff [OF inj(1)] between_map_iff [OF inj(2)] between_map_iff [OF inj(3)] pick_def)
qed

lemma diff3_loop_spec:
  assumes g: "inj_on g (set B \<union> set F \<union> set S)" and com: "common_subseq B F pf" "common_subseq B S ps"
    and in1: "length in1 = length B" "\<And>i. i < length B \<Longrightarrow> in1 ! i = map_of pf i"
    and in2: "length in2 = length B" "\<And>i. i < length B \<Longrightarrow> in2 ! i = map_of ps i"
    and "bi \<le> length B" "ahead pf bi fi (length F)" "ahead ps bi si (length S)"
  shows "diff3_loop B F S (map g B) (map g F) (map g S) in1 in2 bi fi si out
    = Inr (map_option (\<lambda>x. out @ concat x) (weave B F S bi fi si (anchors pf ps bi (length B))))"
  using assms(8-10)
proof (induction "length B - bi" arbitrary: bi fi si out rule: less_induct)
  case less
  have fs: "fi \<le> length F" "si \<le> length S" using less.prems by (auto simp: ahead_def)
  from next_stable_spec [of in1 "length B" in2 pf ps bi] in1 in2
  consider "next_stable (length B) in1 in2 bi = Inr None" "anchors pf ps bi (length B) = []"
    | i j k where "next_stable (length B) in1 in2 bi = Inr (Some i)" "bi \<le> i" "i < length B" "map_of pf i = Some j" "map_of ps i = Some k"
      "anchors pf ps bi (length B) = (i, j, k) # anchors pf ps (i + 1) (length B)"
    by blast
  then show ?case
  proof cases
    case 1
    then show ?thesis
      using round_pick [OF g less.prems(1) order_refl fs(1) order_refl fs(2) order_refl, where h = "\<lambda>t. case t of None \<Rightarrow> Inr None | Some t \<Rightarrow> Inr (Some (out @ concat t))"]
      by (subst diff3_loop.simps) (simp add: between_def Let_def split: option.split)
  next
    case 2
    have jk: "fi \<le> j" "j < length F" "si \<le> k" "k < length S" using less.prems(2,3) 2(2,4,5) by (auto simp: ahead_def)
    have get: "vget in1 i = Inr (Some j)" "vget in2 i = Inr (Some k)" "vget B i = Inr (B ! i)" using 2 in1 in2 by (simp_all add: vget_def)
    have rest: "diff3_loop B F S (map g B) (map g F) (map g S) in1 in2 (i + 1) (j + 1) (k + 1) o'
        = Inr (map_option (\<lambda>x. o' @ concat x) (weave B F S (i + 1) (j + 1) (k + 1) (anchors pf ps (i + 1) (length B))))" for o'
      using 2 ahead_step [OF com(1) 2(4)] ahead_step [OF com(2) 2(5)] by (intro less.hyps) simp_all
    show ?thesis
      using 2(1,6) get rest
      by (subst diff3_loop.simps)
        (simp add: or_else_def Let_def option.map_comp comp_def
          round_pick [OF g 2(2) less_imp_le [OF 2(3)] jk(1) less_imp_le [OF jk(2)] jk(3) less_imp_le [OF jk(4)]] split: option.split)
  qed
qed

text \<open>The line merge is the reference merge over longest common subsequences, for both orders of the
  sides with the same alignments.\<close>

definition three_way :: "utext list \<Rightarrow> utext list \<Rightarrow> utext list \<Rightarrow> (nat \<times> nat) list \<Rightarrow> (nat \<times> nat) list \<Rightarrow> utext list option" where
  "three_way B F S pf ps = weave B F S 0 0 0 (anchors pf ps 0 (length B))"

lemma diff3_run:
  assumes size: "length B + length F + length S \<le> 2 ^ 32"
    and F: "longest_common B F pf" "\<forall>g :: utext \<Rightarrow> nat. inj_on g (set B \<union> set F) \<longrightarrow> lcs_pairs (map g B) (map g F) = Some (Inr pf)"
    and S: "longest_common B S ps" "\<forall>g :: utext \<Rightarrow> nat. inj_on g (set B \<union> set S) \<longrightarrow> lcs_pairs (map g B) (map g S) = Some (Inr ps)"
  shows "diff3 B F S = Some (Inr (map_option concat (three_way B F S pf ps)))"
proof -
  obtain t1 t2 t3 g where g: "intern [] B = (t1, map g B)" "intern t1 F = (t2, map g F)" "intern t2 S = (t3, map g S)"
    "inj_on g (set B \<union> set F \<union> set S)"
    using intern_three [OF size] by blast
  have inj: "inj_on g (set B \<union> set F)" "inj_on g (set B \<union> set S)" by (rule inj_on_subset [OF g(4)], blast)+
  have com: "common_subseq B F pf" "common_subseq B S ps" using F(1) S(1) by (simp_all add: longest_common_def)
  obtain in1 where in1: "place_pairs (replicate (length B) None) pf = Inr in1" "length in1 = length B" "\<forall>i < length B. in1 ! i = map_of pf i"
    using place_pairs_empty [OF com(1)] by blast
  obtain in2 where in2: "place_pairs (replicate (length B) None) ps = Inr in2" "length in2 = length B" "\<forall>i < length B. in2 ! i = map_of ps i"
    using place_pairs_empty [OF com(2)] by blast
  have "diff3_loop B F S (map g B) (map g F) (map g S) in1 in2 0 0 0 [] = Inr (map_option (\<lambda>x. [] @ concat x) (three_way B F S pf ps))"
    using diff3_loop_spec [OF g(4) com in1(2) _ in2(2) _ _ ahead_start [OF com(1)] ahead_start [OF com(2)]] in1(3) in2(3)
    by (simp add: three_way_def)
  then show ?thesis
    using F(2) [rule_format, OF inj(1)] S(2) [rule_format, OF inj(2)] g(1-3) in1(1) in2(1) by (simp add: diff3_def Let_def)
qed

lemma diff3_both:
  assumes "length B + length F + length S \<le> 2 ^ 32"
  shows "\<exists>pf ps. longest_common B F pf \<and> longest_common B S ps
    \<and> diff3 B F S = Some (Inr (map_option concat (three_way B F S pf ps)))
    \<and> diff3 B S F = Some (Inr (map_option concat (three_way B S F ps pf)))"
proof -
  have "fits B F" "fits B S" using assms by (simp_all add: fits_def)
  then obtain pf ps where pf: "longest_common B F pf" "\<forall>g :: utext \<Rightarrow> nat. inj_on g (set B \<union> set F) \<longrightarrow> lcs_pairs (map g B) (map g F) = Some (Inr pf)"
    and ps: "longest_common B S ps" "\<forall>g :: utext \<Rightarrow> nat. inj_on g (set B \<union> set S) \<longrightarrow> lcs_pairs (map g B) (map g S) = Some (Inr ps)"
    using lcs_pairs_map [of B F] lcs_pairs_map [of B S] by blast
  have "length B + length S + length F \<le> 2 ^ 32" using assms by simp
  then show ?thesis using diff3_run [OF assms pf ps] diff3_run [OF _ ps pf] pf(1) ps(1) by blast
qed

subsection \<open>Swapping the sides\<close>

lemma pick_swap: "pick b f s = pick b s f"
  by (simp add: pick_def)

lemma anchors_swap: "anchors ps pf bi n = map (\<lambda>(i, j, k). (i, k, j)) (anchors pf ps bi n)"
  by (simp add: anchors_def conj_commute)

lemma weave_swap: "weave B S F bi si fi (map (\<lambda>(i, j, k). (i, k, j)) as) = weave B F S bi fi si as"
  by (induction B F S bi fi si as rule: weave.induct) (auto simp: pick_swap split: option.split)

lemma three_way_swap: "three_way B S F ps pf = three_way B F S pf ps"
  by (simp add: three_way_def anchors_swap [of ps pf] weave_swap)

end
