(* ===== verification/MergeLines.thy ===== *)
theory MergeLines
  imports MergeCorrect
begin

text \<open>
  What the body merge does to lines: the result of a merge is again a list of lines of the two
  sides, CRLF line endings stay CRLF, and the order of the sides matters only where both append.
\<close>

subsection \<open>Lines of a text\<close>

definition is_line :: "utext \<Rightarrow> bool" where
  "is_line l \<longleftrightarrow> l \<noteq> [] \<and> NL \<notin> set (butlast l)"

definition ended :: "utext list \<Rightarrow> bool" where
  "ended ls \<longleftrightarrow> (\<forall>l \<in> set ls. last l = NL)"

text \<open>A list of lines in which only the last may lack its terminator.\<close>

fun tidy :: "utext list \<Rightarrow> bool" where
  "tidy [] \<longleftrightarrow> True"
| "tidy (l # ls) \<longleftrightarrow> is_line l \<and> (ls = [] \<or> last l = NL) \<and> tidy ls"

lemma tidy_append: "tidy (xs @ ys) \<longleftrightarrow> tidy xs \<and> tidy ys \<and> (ys = [] \<or> ended xs)"
  by (induction xs) (auto simp: ended_def)

lemma concat_lines: "concat (lines t) = t"
  by (induction t) (auto split: list.split)

lemma tidy_lines: "tidy (lines t)"
  by (induction t) (auto simp: is_line_def split: list.split)




subsection \<open>The lines of a merge\<close>

text \<open>Anchors that lie ahead of the three cursors, in order, on equal lines.\<close>

fun anchored :: "'a list \<Rightarrow> 'a list \<Rightarrow> 'a list \<Rightarrow> nat \<Rightarrow> nat \<Rightarrow> nat \<Rightarrow> (nat \<times> nat \<times> nat) list \<Rightarrow> bool" where
  "anchored B F S bi fi si [] \<longleftrightarrow> True"
| "anchored B F S bi fi si ((i, j, k) # as) \<longleftrightarrow> bi \<le> i \<and> i < length B \<and> fi \<le> j \<and> j < length F \<and> si \<le> k \<and> k < length S
     \<and> B ! i = F ! j \<and> B ! i = S ! k \<and> anchored B F S (i + 1) (j + 1) (k + 1) as"

lemma anchored_earlier: "anchored B F S (bi + 1) fi si as \<Longrightarrow> anchored B F S bi fi si as"
  by (cases as) auto

lemma anchored_anchors:
  assumes "common_subseq B F pf" "common_subseq B S ps" "ahead pf bi fi (length F)" "ahead ps bi si (length S)"
  shows "anchored B F S bi fi si (anchors pf ps bi (length B))"
  using assms(3,4)
proof (induction "length B - bi" arbitrary: bi fi si rule: less_induct)
  case less
  have step: "anchored B F S bi fi si (anchors pf ps (bi + 1) (length B))" if "bi < length B"
    by (rule anchored_earlier, rule less.hyps) (use less.prems that in \<open>auto simp: ahead_def\<close>)
  show ?case
  proof (cases "bi < length B")
    case True
    then have up: "[bi..<length B] = bi # [bi + 1..<length B]" using upt_conv_Cons by simp
    show ?thesis
    proof (cases "map_of pf bi = None \<or> map_of ps bi = None")
      case True
      then have "anchors pf ps bi (length B) = anchors pf ps (bi + 1) (length B)" using up by (auto simp: anchors_def)
      then show ?thesis using step \<open>bi < length B\<close> by simp
    next
      case False
      then obtain j k where jk: "map_of pf bi = Some j" "map_of ps bi = Some k" by auto
      have "anchored B F S (bi + 1) (j + 1) (k + 1) (anchors pf ps (bi + 1) (length B))"
        using less.hyps [of "bi + 1"] True ahead_step [OF assms(1) jk(1)] ahead_step [OF assms(2) jk(2)] by simp
      moreover have "anchors pf ps bi (length B) = (bi, j, k) # anchors pf ps (bi + 1) (length B)" using up jk by (simp add: anchors_def)
      ultimately show ?thesis
        using less.prems jk common_get [OF assms(1) jk(1)] common_get [OF assms(2) jk(2)] by (auto simp: ahead_def)
    qed
  qed (simp add: anchors_def)
qed

lemma between_split: "i \<le> j \<Longrightarrow> j < length xs \<Longrightarrow> drop i xs = between xs i j @ xs ! j # drop (j + 1) xs"
  using append_take_drop_id [of "j - i" "drop i xs"] by (simp add: between_def Cons_nth_drop_Suc)

lemma tidy_between:
  assumes "tidy (drop i xs)" "i \<le> j" "j < length xs"
  shows "tidy (between xs i j)" "ended (between xs i j)" "is_line (xs ! j)" "last (xs ! j) \<noteq> NL \<Longrightarrow> length xs = j + 1" "tidy (drop (j + 1) xs)"
proof -
  have "tidy (between xs i j @ xs ! j # drop (j + 1) xs)" using assms(1) between_split [OF assms(2,3)] by simp
  then have *: "tidy (between xs i j)" "ended (between xs i j)" "is_line (xs ! j)" "drop (j + 1) xs = [] \<or> last (xs ! j) = NL" "tidy (drop (j + 1) xs)"
    unfolding tidy_append by simp_all
  then show "tidy (between xs i j)" "ended (between xs i j)" "is_line (xs ! j)" "tidy (drop (j + 1) xs)" by blast+
  show "last (xs ! j) \<noteq> NL \<Longrightarrow> length xs = j + 1" using *(4) assms(3) by simp
qed

lemma pick_cases: "pick b f s = Some x \<Longrightarrow> x = f \<or> x = s"
  by (auto simp: pick_def split: if_splits)

lemma weave_lines:
  assumes "weave B F S bi fi si as = Some w" "anchored B F S bi fi si as" "tidy (drop bi B)" "tidy (drop fi F)" "tidy (drop si S)"
  shows "tidy w \<and> set w \<subseteq> set F \<union> set S"
  using assms
proof (induction B F S bi fi si as arbitrary: w rule: weave.induct)
  case (1 B F S bi fi si)
  then show ?case by (auto dest!: pick_cases dest: in_set_dropD)
next
  case (2 B F S bi fi si i j k as)
  obtain x y where xy: "pick (between B bi i) (between F fi j) (between S si k) = Some x"
    "weave B F S (i + 1) (j + 1) (k + 1) as = Some y" "w = x @ B ! i # y"
    using 2(2) by (auto split: option.splits)
  have a: "bi \<le> i" "i < length B" "fi \<le> j" "j < length F" "si \<le> k" "k < length S" "B ! i = F ! j" "B ! i = S ! k"
    "anchored B F S (i + 1) (j + 1) (k + 1) as" using 2(3) unfolding anchored.simps by blast+
  note tb = tidy_between [OF 2(4) a(1,2)] and tf = tidy_between [OF 2(5) a(3,4)] and ts = tidy_between [OF 2(6) a(5,6)]
  have y: "tidy y \<and> set y \<subseteq> set F \<union> set S" using 2(1) [OF xy(1,2) a(9) tb(5) tf(5) ts(5)] .
  have x: "tidy x" "ended x" "set x \<subseteq> set F \<union> set S"
    using pick_cases [OF xy(1)] tf(1,2) ts(1,2) by (auto simp: between_def dest: in_set_takeD in_set_dropD)
  have "y = []" if "last (B ! i) \<noteq> NL"
  proof -
    have "length B = i + 1" "length F = j + 1" "length S = k + 1" using that tb(4) tf(4) ts(4) a(7,8) by simp_all
    moreover from this have "as = []" using a(9) by (cases as) auto
    ultimately show ?thesis using xy(2) by (simp add: pick_def)
  qed
  then have "tidy (B ! i # y)" using y tb(3) by auto
  moreover have "B ! i \<in> set F" using a(4,7) by simp
  ultimately show ?case using x y xy(3) by (auto simp: tidy_append)
qed

lemma three_way_lines:
  assumes "longest_common (lines b) (lines f) pf" "longest_common (lines b) (lines s) ps" "three_way (lines b) (lines f) (lines s) pf ps = Some w"
  shows "tidy w \<and> set w \<subseteq> set (lines f) \<union> set (lines s)"
proof -
  have com: "common_subseq (lines b) (lines f) pf" "common_subseq (lines b) (lines s) ps" using assms(1,2) by (simp_all add: longest_common_def)
  show ?thesis
    using assms(3) anchored_anchors [OF com ahead_start [OF com(1)] ahead_start [OF com(2)]] unfolding three_way_def
    by (rule weave_lines) (simp_all add: tidy_lines)
qed

subsection \<open>CRLF line endings\<close>

text \<open>Every line feed follows a carriage return; \<open>p\<close> is the character before the text.\<close>

fun crlf_after :: "nat \<Rightarrow> utext \<Rightarrow> bool" where
  "crlf_after p [] \<longleftrightarrow> True"
| "crlf_after p (c # cs) \<longleftrightarrow> (c = NL \<longrightarrow> p = CR) \<and> crlf_after c cs"

abbreviation crlf :: "utext \<Rightarrow> bool" where "crlf t \<equiv> crlf_after 0 t"

lemma crlf_append: "crlf_after p (xs @ ys) \<longleftrightarrow> crlf_after p xs \<and> crlf_after (last (p # xs)) ys"
  by (induction xs arbitrary: p) auto

lemma crlf_weaken: "crlf t \<Longrightarrow> crlf_after p t"
  by (cases t) auto

lemma crlf_start: "crlf_after p t \<Longrightarrow> p \<noteq> CR \<Longrightarrow> crlf t"
  by (cases t) auto

lemma crlf_concat: "(\<And>l. l \<in> set ls \<Longrightarrow> crlf l) \<Longrightarrow> crlf (concat ls)"
  by (induction ls) (auto simp: crlf_append crlf_weaken)

lemma crlf_lines_aux: "crlf_after p (concat ls) \<Longrightarrow> tidy ls \<Longrightarrow> p \<noteq> CR \<Longrightarrow> l \<in> set ls \<Longrightarrow> crlf l"
proof (induction ls arbitrary: p)
  case (Cons k ks)
  have k: "crlf_after p k" "crlf_after (last (p # k)) (concat ks)" using Cons.prems(1) by (simp_all add: crlf_append)
  show ?case
  proof (cases "l = k")
    case True
    then show ?thesis using k(1) Cons.prems(3) crlf_start by blast
  next
    case False
    then have "l \<in> set ks" "ks \<noteq> []" using Cons.prems(4) by auto
    then have "last (p # k) = NL" using Cons.prems(2) by (auto simp: is_line_def)
    then show ?thesis using Cons.IH [OF k(2)] Cons.prems(2) \<open>l \<in> set ks\<close> by simp
  qed
qed simp

lemma crlf_lines: "crlf t \<Longrightarrow> l \<in> set (lines t) \<Longrightarrow> crlf l"
  using crlf_lines_aux [of 0 "lines t" l] by (simp add: concat_lines tidy_lines)

lemma strip_text_iff: "strip_text p s = Some t \<longleftrightarrow> s = p @ t"
  by (auto simp: strip_text_def) (metis append_take_drop_id)

lemma starts_with_iff: "starts_with p s \<longleftrightarrow> (\<exists>t. s = p @ t)"
  unfolding starts_with_def by (metis append_eq_conv_conj)

lemma ends_with_one: "ends_with [c] s \<longleftrightarrow> s \<noteq> [] \<and> last s = c"
  by (cases s rule: rev_cases) (auto simp: ends_with_def starts_with_def)

lemma crlf_rest: "crlf (b @ t) \<Longrightarrow> \<not> ends_with [CR] b \<Longrightarrow> crlf t"
  using crlf_start [of "last (0 # b)" t] by (auto simp: crlf_append ends_with_one split: if_splits)

lemma find_nl_Some: "find_nl t = Some i \<Longrightarrow> i < length t \<and> t ! i = NL"
  by (induction t arbitrary: i) (auto split: if_splits)

lemma find_nl_None: "find_nl t = None \<longleftrightarrow> NL \<notin> set t"
  by (induction t) auto

lemma crlf_nth: "crlf_after p t \<Longrightarrow> i < length t \<Longrightarrow> t ! i = NL \<Longrightarrow> (p # t) ! i = CR"
proof (induction t arbitrary: i p)
  case (Cons c t)
  then show ?case using Cons.IH [of c "i - 1"] Cons.prems by (cases i) auto
qed simp

lemma line_style_crlf:
  "(\<And>t. t \<in> set ts \<Longrightarrow> crlf t) \<Longrightarrow> t \<in> set ts \<Longrightarrow> NL \<in> set t \<Longrightarrow> line_ending_style ts = [CR, NL]"
proof (induction ts)
  case (Cons u us)
  show ?case
  proof (cases "find_nl u")
    case None
    then have "t \<in> set us" using Cons.prems(2,3) by (auto simp: find_nl_None)
    then show ?thesis using Cons None by simp
  next
    case (Some i)
    then have "0 < i \<and> u ! (i - 1) = CR" using crlf_nth [of 0 u i] Cons.prems(1) [of u] find_nl_Some [OF Some] by (cases i) auto
    then show ?thesis using Some by simp
  qed
qed simp

text \<open>The text kept of the second append.\<close>

lemma second_append_crlf:
  assumes "crlf st"
  shows "crlf (second_append b ft st) \<and> (second_append b ft st = st \<or> NL \<in> set ft)"
proof -
  have "NL \<in> set ft" if "starts_line ft" using that by (auto simp: starts_line_def starts_with_iff)
  moreover have "crlf t" if "st = [CR, NL] @ t" for t using assms that crlf_start [of NL t] by simp
  moreover have "st \<noteq> [NL] @ t" for t using assms by auto
  ultimately show ?thesis using assms by (auto simp: second_append_def strip_text_iff split: option.split)
qed

lemma append_append_crlf:
  assumes "crlf b" "crlf (b @ ft)" "crlf (b @ st)" "\<not> ends_with [CR] b" "NL \<in> set b \<union> set ft \<union> set st"
  shows "crlf (append_append b (b @ ft) ft st)"
proof -
  let ?st = "second_append b ft st"
  have f: "crlf ft" and s: "crlf ?st" and nl: "?st = st \<or> NL \<in> set ft"
    using crlf_rest [OF assms(2,4)] second_append_crlf [OF crlf_rest [OF assms(3,4)]] by simp_all
  have "NL \<in> set b \<or> NL \<in> set ft \<or> NL \<in> set ?st" using nl assms(5) by auto
  then have "line_ending_style [b, ft, ?st] = [CR, NL]" using line_style_crlf [of "[b, ft, ?st]"] assms(1) f s by auto
  then obtain sep where "append_append b (b @ ft) ft st = (b @ ft) @ sep @ ?st" "sep = [] \<or> sep = [CR, NL]"
    unfolding append_append_def Let_def by auto
  then show ?thesis using assms(2) crlf_weaken [OF s] by (auto simp: crlf_append)
qed

subsection \<open>The merge of bodies\<close>

text \<open>The texts whose lines the interning can number.\<close>

definition countable_lines :: "utext \<Rightarrow> utext \<Rightarrow> utext \<Rightarrow> bool" where
  "countable_lines b f s \<longleftrightarrow> length (lines b) + length (lines f) + length (lines s) \<le> 2 ^ 32"

lemma merge_body_cases:
  "merge_body b f s =
    (if f = s \<or> s = b then Some (Inr (Some f)) else if f = b then Some (Inr (Some s))
     else if starts_with b f \<and> starts_with b s then Some (Inr (Some (append_append b f (drop (length b) f) (drop (length b) s))))
     else diff3 (lines b) (lines f) (lines s))"
  by (simp add: merge_body_def strip_text_def starts_with_def)

lemma merge_body_both:
  assumes "countable_lines b f s"
  shows "\<exists>pf ps. longest_common (lines b) (lines f) pf \<and> longest_common (lines b) (lines s) ps
    \<and> diff3 (lines b) (lines f) (lines s) = Some (Inr (map_option concat (three_way (lines b) (lines f) (lines s) pf ps)))
    \<and> diff3 (lines b) (lines s) (lines f) = Some (Inr (map_option concat (three_way (lines b) (lines s) (lines f) ps pf)))"
  using diff3_both assms by (simp add: countable_lines_def)

text \<open>C13. When both sides changed the base and do not both only append to it, \<open>merge_body\<close> returns,
  and its result is the three-way merge chunk by chunk between the base lines that longest common
  subsequences align with both sides: it is a conflict exactly if some chunk changed on both sides
  differently.\<close>

theorem merge_body_three_way:
  assumes "countable_lines b f s" "f \<noteq> s" "f \<noteq> b" "s \<noteq> b" "\<not> (starts_with b f \<and> starts_with b s)"
  shows "\<exists>pf ps. longest_common (lines b) (lines f) pf \<and> longest_common (lines b) (lines s) ps
    \<and> merge_body b f s = Some (Inr (map_option concat (three_way (lines b) (lines f) (lines s) pf ps)))"
  using merge_body_both [OF assms(1)] assms(2-) by (auto simp: merge_body_cases)

lemma sample_merge: "merge_body [49, NL, 50, NL, 51, NL] [49, 120, NL, 50, NL, 51, NL] [49, NL, 50, NL, 51, 120, NL] = Some (Inr (Some [49, 120, NL, 50, NL, 51, 120, NL]))"
  by code_simp

lemma sample_size: "countable_lines [49, NL, 50, NL, 51, NL] [49, 120, NL, 50, NL, 51, NL] [49, NL, 50, NL, 51, 120, NL]"
  by (simp add: countable_lines_def)

theorem merge_body_three_way_witness:
  "\<exists>pf ps ls. three_way (lines [49, NL, 50, NL, 51, NL]) (lines [49, 120, NL, 50, NL, 51, NL]) (lines [49, NL, 50, NL, 51, 120, NL]) pf ps = Some ls
    \<and> concat ls = [49, 120, NL, 50, NL, 51, 120, NL]"
proof -
  obtain pf ps where "merge_body [49, NL, 50, NL, 51, NL] [49, 120, NL, 50, NL, 51, NL] [49, NL, 50, NL, 51, 120, NL]
    = Some (Inr (map_option concat (three_way (lines [49, NL, 50, NL, 51, NL]) (lines [49, 120, NL, 50, NL, 51, NL]) (lines [49, NL, 50, NL, 51, 120, NL]) pf ps)))"
    using merge_body_three_way [of "[49, NL, 50, NL, 51, NL]" "[49, 120, NL, 50, NL, 51, NL]" "[49, NL, 50, NL, 51, 120, NL]"]
    sample_size by (auto simp: starts_with_def simp del: lines.simps)
  then have "map_option concat (three_way (lines [49, NL, 50, NL, 51, NL]) (lines [49, 120, NL, 50, NL, 51, NL]) (lines [49, NL, 50, NL, 51, 120, NL]) pf ps)
    = Some [49, 120, NL, 50, NL, 51, 120, NL]" using sample_merge by (simp del: lines.simps)
  then show ?thesis unfolding map_option_eq_Some by blast
qed

text \<open>C15. \<open>merge_body\<close> returns for all texts, without a panic, and unless both sides only append to
  the base, the order of the two sides does not matter.\<close>

theorem merge_body_commutes:
  assumes "countable_lines b f s"
  shows "\<exists>r. merge_body b f s = Some (Inr r) \<and> (merge_body b s f = Some (Inr r) \<or> (starts_with b f \<and> starts_with b s))"
proof -
  obtain pf ps where "diff3 (lines b) (lines f) (lines s) = Some (Inr (map_option concat (three_way (lines b) (lines f) (lines s) pf ps)))"
    "diff3 (lines b) (lines s) (lines f) = Some (Inr (map_option concat (three_way (lines b) (lines f) (lines s) pf ps)))"
    using merge_body_both [OF assms] by (auto simp: three_way_swap)
  then show ?thesis by (auto simp: merge_body_cases)
qed

theorem merge_body_commutes_witness:
  "merge_body [49, NL, 50, NL, 51, NL] [49, NL, 50, NL, 51, 120, NL] [49, 120, NL, 50, NL, 51, NL] = Some (Inr (Some [49, 120, NL, 50, NL, 51, 120, NL]))"
  using merge_body_commutes [of "[49, NL, 50, NL, 51, NL]" "[49, 120, NL, 50, NL, 51, NL]" "[49, NL, 50, NL, 51, 120, NL]"] sample_merge
  by (auto simp: countable_lines_def starts_with_def)




text \<open>C25. Line endings do not mix: when every line break of the base and of both sides is CRLF, and
  there is one, every line break of the merge is CRLF, provided the base does not end in a lone
  carriage return (after which the inserted separator is a bare line feed).\<close>

theorem merge_body_crlf:
  assumes "countable_lines b f s" "crlf b" "crlf f" "crlf s" "\<not> ends_with [CR] b" "NL \<in> set b \<union> set f \<union> set s"
    and "merge_body b f s = Some (Inr (Some r))"
  shows "crlf r"
proof -
  obtain pf ps where d: "longest_common (lines b) (lines f) pf" "longest_common (lines b) (lines s) ps"
    "diff3 (lines b) (lines f) (lines s) = Some (Inr (map_option concat (three_way (lines b) (lines f) (lines s) pf ps)))"
    using merge_body_both [OF assms(1)] by blast
  have three: "crlf r" if m: "Some r = map_option concat (three_way (lines b) (lines f) (lines s) pf ps)"
  proof -
    obtain w where w: "three_way (lines b) (lines f) (lines s) pf ps = Some w" "r = concat w" using m [symmetric] by auto
    show ?thesis unfolding w(2) by (rule crlf_concat) (use three_way_lines [OF d(1,2) w(1)] crlf_lines assms(3,4) in blast)
  qed
  have app: "crlf (append_append b f (drop (length b) f) (drop (length b) s))" if prefix: "starts_with b f" "starts_with b s"
  proof -
    obtain ft st where "f = b @ ft" "s = b @ st" using prefix unfolding starts_with_iff by blast
    then show ?thesis using append_append_crlf [of b ft st] assms(2-6) by auto
  qed
  show ?thesis using assms(3,4,7) d(3) three app unfolding merge_body_cases by (auto split: if_splits)
qed

theorem merge_body_crlf_witness:
  "merge_body [97, CR, NL] [97, CR, NL, 98] [97, CR, NL, 99] = Some (Inr (Some [97, CR, NL, 98, CR, NL, 99])) \<and> crlf [97, CR, NL, 98, CR, NL, 99]"
proof -
  have run: "merge_body [97, CR, NL] [97, CR, NL, 98] [97, CR, NL, 99] = Some (Inr (Some [97, CR, NL, 98, CR, NL, 99]))" by code_simp
  have "crlf [97, CR, NL, 98, CR, NL, 99]"
    by (rule merge_body_crlf [OF _ _ _ _ _ _ run]) (simp_all add: countable_lines_def ends_with_one)
  then show ?thesis using run by blast
qed

text \<open>After a base that ends in a lone carriage return the separator is a bare line feed, although
  every line break of both sides is CRLF.\<close>

lemma lone_return_mixes: "merge_body [97, CR] [97, CR, NL, 98] [97, CR, NL, 99] = Some (Inr (Some [97, CR, NL, 98, NL, 99]))"
  by code_simp

end
