(* ===== verification/MergeEdits.thy ===== *)
theory MergeEdits
  imports MergeLines
begin

text \<open>
  Correctness of the body edits: \<open>apply_edits\<close> is the splicing of the edits from the last to the
  first, exactly when they are in range, in order and disjoint, and otherwise reports the first
  edit that is not.
\<close>

definition in_range :: "utext \<Rightarrow> body_edit \<Rightarrow> bool" where
  "in_range base e \<longleftrightarrow> be_start e \<le> be_end e \<and> be_end e \<le> length base"

text \<open>The second edit lies behind the first, and the two are not insertions at one place.\<close>

definition follows :: "body_edit \<Rightarrow> body_edit \<Rightarrow> bool" where
  "follows e e' \<longleftrightarrow> be_end e \<le> be_start e' \<and> \<not> (be_start e = be_end e \<and> be_start e' = be_end e' \<and> be_start e = be_start e')"

definition edits_ok :: "utext \<Rightarrow> body_edit list \<Rightarrow> bool" where
  "edits_ok base es \<longleftrightarrow> list_all (in_range base) es \<and> successively follows es"

definition put_edit :: "body_edit \<Rightarrow> utext \<Rightarrow> utext" where
  "put_edit e t = take (be_start e) t @ be_insert e @ drop (be_end e) t"

text \<open>The loop's own condition on the edits that remain, from the end of the last edit on.\<close>

fun ok_after :: "utext \<Rightarrow> nat \<Rightarrow> nat option \<Rightarrow> body_edit list \<Rightarrow> bool" where
  "ok_after base p ins [] \<longleftrightarrow> True"
| "ok_after base p ins (e # es) \<longleftrightarrow> in_range base e \<and> p \<le> be_start e \<and> \<not> (be_start e = be_end e \<and> ins = Some (be_start e))
     \<and> ok_after base (be_end e) (if be_start e = be_end e then Some (be_start e) else None) es"

lemma ok_after_follows:
  "ok_after base (be_end e) (if be_start e = be_end e then Some (be_start e) else None) es
    \<longleftrightarrow> list_all (in_range base) es \<and> successively follows (e # es)"
  by (induction es arbitrary: e) (auto simp: follows_def)

lemma ok_after_start: "ok_after base 0 None es \<longleftrightarrow> edits_ok base es"
proof (cases es)
  case (Cons e es')
  then show ?thesis using ok_after_follows [of base e es'] by (auto simp: edits_ok_def)
qed (simp add: edits_ok_def)

lemma put_edit_before: "p \<le> be_start e \<Longrightarrow> be_start e \<le> length t \<Longrightarrow> take p (put_edit e t) = take p t \<and> p \<le> length (put_edit e t)"
  by (simp add: put_edit_def min_absorb1)

lemma put_before:
  "ok_after base p ins es \<Longrightarrow> p \<le> length base \<Longrightarrow> take p (foldr put_edit es base) = take p base \<and> p \<le> length (foldr put_edit es base)"
proof (induction es arbitrary: p ins)
  case (Cons e es)
  have e: "p \<le> be_start e" "be_start e \<le> be_end e" "be_end e \<le> length base" using Cons.prems(1) by (simp_all add: in_range_def)
  have r: "take (be_end e) (foldr put_edit es base) = take (be_end e) base" "be_end e \<le> length (foldr put_edit es base)"
    using Cons.IH [of "be_end e"] Cons.prems(1) e(3) by auto
  have "take p (take (be_end e) (foldr put_edit es base)) = take p (take (be_end e) base)" using r(1) by simp
  then have "take p (foldr put_edit es base) = take p base" using e by (simp add: min_absorb1)
  then show ?case using put_edit_before [of p e "foldr put_edit es base"] e r(2) by simp
qed simp

lemma edit_loop_ok:
  "ok_after base p ins es \<Longrightarrow> p \<le> length base \<Longrightarrow> edit_loop base p ins out es = Inr (out @ drop p (foldr put_edit es base))"
proof (induction es arbitrary: p ins out)
  case Nil
  then show ?case by (simp add: cut_text_def slice_def bound_of_def)
next
  case (Cons e es)
  have e: "be_start e \<le> be_end e" "be_end e \<le> length base" "p \<le> be_start e" using Cons.prems(1) by (simp_all add: in_range_def)
  let ?X = "foldr put_edit es base"
  have X: "take (be_end e) ?X = take (be_end e) base" "be_end e \<le> length ?X"
    using put_before [of base "be_end e" _ es] Cons.prems(1) e(2) by auto
  have "take (be_start e) (take (be_end e) ?X) = take (be_start e) (take (be_end e) base)" using X(1) by simp
  then have "take (be_start e) ?X = take (be_start e) base" using e(1) by (simp add: min_absorb1)
  then have "drop p (put_edit e ?X) = take (be_start e - p) (drop p base) @ be_insert e @ drop (be_end e) ?X"
    using e by (simp add: put_edit_def drop_take)
  moreover have "cut_text base (bound_of base p) (bound_of base (be_start e)) = Inr (take (be_start e - p) (drop p base))"
    using e by (simp add: cut_text_def slice_def bound_of_def)
  ultimately show ?case using Cons e by auto
qed

lemma edit_loop_bad:
  "\<not> ok_after base p ins es \<Longrightarrow> p \<le> length base \<Longrightarrow>
    \<exists>pre e post. es = pre @ e # post \<and> ok_after base p ins pre \<and> \<not> ok_after base p ins (pre @ [e])
      \<and> edit_loop base p ins out es = Inl (if in_range base e then EditsOverlapOrUnordered else OffsetOutOfRange)"
proof (induction es arbitrary: p ins out)
  case (Cons e es)
  show ?case
  proof (cases "ok_after base p ins [e]")
    case True
    then have e: "in_range base e" "p \<le> be_start e" "be_start e \<le> be_end e" "be_end e \<le> length base"
      "\<not> (be_start e = be_end e \<and> ins = Some (be_start e))" by (auto simp: in_range_def)
    let ?ins = "if be_start e = be_end e then Some (be_start e) else None"
    have step: "edit_loop base p ins out (e # es) = edit_loop base (be_end e) ?ins (out @ take (be_start e - p) (drop p base) @ be_insert e) es"
      using e by (auto simp: cut_text_def slice_def bound_of_def)
    have "\<not> ok_after base (be_end e) ?ins es" using Cons.prems(1) e(1,2,5) by simp
    from Cons.IH [OF this e(4)] obtain pre x post where
      "es = pre @ x # post" "ok_after base (be_end e) ?ins pre" "\<not> ok_after base (be_end e) ?ins (pre @ [x])"
      "edit_loop base (be_end e) ?ins (out @ take (be_start e - p) (drop p base) @ be_insert e) es
        = Inl (if in_range base x then EditsOverlapOrUnordered else OffsetOutOfRange)" by blast
    then show ?thesis using step e by (intro exI [of _ "e # pre"] exI [of _ x] exI [of _ post]) auto
  next
    case False
    then have "edit_loop base p ins out (e # es) = Inl (if in_range base e then EditsOverlapOrUnordered else OffsetOutOfRange)"
      by (auto simp: in_range_def)
    then show ?thesis using False by (intro exI [of _ "[]"] exI [of _ e] exI [of _ es]) auto
  qed
qed simp

text \<open>C23. \<open>apply_edits\<close> accepts exactly the edits that are in range, in order and disjoint, with no two
  insertions at one place, and then splices them into the base from the last to the first; otherwise
  it reports the first edit that breaks this, with the reason.  It never panics.\<close>

theorem apply_edits_exact:
  "if edits_ok base es then apply_edits base es = Inr (foldr put_edit es base)
   else \<exists>pre e post. es = pre @ e # post \<and> edits_ok base pre \<and> \<not> edits_ok base (pre @ [e])
     \<and> apply_edits base es = Inl (if in_range base e then EditsOverlapOrUnordered else OffsetOutOfRange)"
  using edit_loop_ok [of base 0 None es "[]"] edit_loop_bad [of base 0 None es "[]"]
  by (simp add: apply_edits_def ok_after_start)

end
