(* ===== verification/Spec2Isabelle.thy ===== *)
theory Spec2Isabelle
  imports LogCompaction LogIntegrity LogTokens LogAccounting LogLimits LogAuth LogOutbox MergeEdits
begin

text \<open>
  mdbase: the wire format, the blind log service and the three-way merge of bodies.

  The program.  mdbase replicates a collection of Markdown records between devices.  A device seals
  each change into an item and appends it to a log kept by a service that cannot read the sealed
  bodies; the other devices read the log and merge.  The development follows the Rust sources under
  \<open>src/runtime/crates\<close>: \<open>wire\<close> (bytes and messages), \<open>log-service\<close> (the service) and
  \<open>core/src/merge\<close> (the merge).  How the parts meet: a frame is decoded within a budget
  (\<open>DecodeBudget\<close>) to a message (\<open>LogWire\<close>) over the canonical encoding (\<open>Cbor\<close>, \<open>Wire\<close>); the
  caller is authenticated (\<open>LogAuth\<close>); the method reads and changes the state of the service
  (\<open>LogAppend\<close> to \<open>LogAdmin\<close>) through transactions of the backend (\<open>MemBackend\<close>), judging
  policy items (\<open>LogPolicy\<close>); and what was committed is pushed to subscribers (\<open>LogHub\<close>).

  Prelude.  \<open>Prelude\<close> has the machine types, results as sums, big-endian bytes, UTF-8, and
  \<open>BTreeMap\<close> as a sorted association list, with the collections \<open>res_simps\<close>, \<open>codec_simps\<close> and
  \<open>map_simps\<close> and the locales \<open>codec\<close> (an encoding that is undone by its decoder) and
  \<open>ordered_map\<close>.

  Wire format.
  \<^item> \<open>Cbor\<close>: \<open>wire/src/cbor.rs\<close>, the whole codec with its depth limit, duplicate and order checks
    and the erasure of rejected trees.  It interprets \<open>codec\<close>; \<open>decode_exact\<close> says that decoding
    succeeds exactly on the encoding of the value it returns.
  \<^item> \<open>Wire\<close>: the helpers of \<open>schema.rs\<close>, the common types of \<open>common.rs\<close>; the locale
    \<open>wire_total\<close> is the contract of a message type (its tree is canonical, and reads back),
    interpreted on the messages that are stored, signed or answered.
  \<^item> \<open>Envelope\<close>: \<open>hash.rs\<close> and \<open>envelope.rs\<close>, the item, its shape rules, associated data, signed
    digest and chain.  \<open>PolicyWire\<close>: \<open>policy.rs\<close>, the thirteen policy operations.  \<open>LogWire\<close>:
    \<open>log_service.rs\<close>, the messages of the service.  \<open>RefIndex\<close>: \<open>ref_index.rs\<close>.
    The lemmas are round trips, and that digests and associated data bind what they should.

  Log service, \<open>log-service/src\<close>.
  \<^item> \<open>DecodeBudget\<close>: \<open>error.rs\<close> and \<open>decode.rs\<close>; a budget is a counter passed through.
  \<^item> \<open>LogModel\<close>: \<open>model.rs\<close> with \<open>limits.rs\<close> and the types of \<open>placement.rs\<close>, \<open>deletion.rs\<close> and
    \<open>restore_plan.rs\<close>; the row of a collection and its encoding.  \<open>LogText\<close>: hexadecimal, object
    keys, notices.
  \<^item> \<open>LogPolicy\<close>: \<open>policy.rs\<close>, every operation on the access list and the members.  The locale
    \<open>policy_relation\<close> turns a relation kept by each operation into one kept by a policy item.
  \<^item> \<open>MemBackend\<close>: \<open>backend.rs\<close> and \<open>mem.rs\<close>: a transaction is a list of writes; the locale
    \<open>log_store\<close> is the contract of a backend, interpreted on the in-memory one.
  \<^item> \<open>LogAppend\<close>, \<open>LogRead\<close>, \<open>LogDirect\<close>, \<open>LogObjects\<close>, \<open>LogSnapshots\<close>, \<open>LogAdmin\<close>: the
    methods of \<open>service.rs\<close> in its order: appending, reading, signed transfer URLs, objects,
    snapshots with compaction and garbage collection, administration.  The state is the record
    \<open>Service\<close>; each method is a function from the state to the state and a result, with a branch
    for every error and, where the code can panic, for the panic.
  \<^item> \<open>AppendCorrect\<close> and \<open>AppendSafety\<close>: the append path on every branch.  The locale
    \<open>item_relation\<close> lifts what one item keeps to a batch.  \<open>LogLimits\<close>: the token bucket.
  \<^item> \<open>LogTxn\<close>: the nine transactions of a collection as a step relation, with its invariant by rule
    induction.  \<open>LogReach\<close>: every method as steps of the service, and that each is a sequence of
    transactions.  \<open>LogInvariant\<close>: the invariant of every reachable service.  \<open>LogSample\<close>: a
    concrete run, the witness of the properties of reachable services.
  \<^item> \<open>LogHistory\<close>: the abstract specification, a list of item bytes that only grows, and the
    simulation of every method by it; that a head commits to the stored log, and what a deletion
    leaves.  \<open>LogReading\<close>, \<open>LogCompaction\<close>, \<open>LogIntegrity\<close>, \<open>LogTokens\<close>, \<open>LogAccounting\<close>: what
    readers rely on, what compaction removes and archives, that what is referred to is stored and
    authentic, that an idempotency token lands once in any run of calls with clocks, and that the
    byte counts are exact.
  \<^item> \<open>LogAuth\<close>: \<open>auth.rs\<close>, tokens, proofs of possession, single-use nonces.
  \<^item> \<open>LogHub\<close> and \<open>LogFanout\<close>: \<open>hub.rs\<close>, subscriptions and ephemeral streams; the invariant of
    reachable hubs, and who is sent what.  \<open>LogOutbox\<close>: \<open>outbox.rs\<close>, the bounded queue of a
    connection, and what arrives of a stream of frames that goes through it.

  Merge, \<open>core/src/merge\<close>.
  \<^item> \<open>MergeDiff\<close>: \<open>diff.rs\<close>, the linear-space difference with its arrays and possible panics.
    \<open>EditGraph\<close>, \<open>DiffFrontier\<close> (the locale \<open>comparison\<close>, interpreted on the forward and on the
    backward pass), \<open>DiffCorrect\<close>, \<open>DiffAlign\<close>: it returns, and what it returns is a longest
    common subsequence.
  \<^item> \<open>MergeBody\<close>: \<open>body.rs\<close>.  \<open>MergeCorrect\<close>, \<open>MergeLines\<close>, \<open>MergeEdits\<close>: the merge equals a
    reference three-way merge, is made of lines of the two sides, and edits splice exactly.

  Bounds and loops.  Lengths (\<open>usize\<close>) are natural numbers and 64-bit counters are words, so that
  saturation and wrap-around are as in the code.  Recursion on data is structural or has a measure;
  the two loops whose end is itself a property (the paging of a compaction and the work list of the
  alignment) are \<open>partial_function (option)\<close>, and it is proved that they return.  The recursion of
  the decoder and of the scan is bounded by the depth limit of the code.  No fuel is used.

  Parameters.  SHA-256, strict Ed25519 verification and HMAC-SHA256 are third-party code, and are
  arguments (\<open>crypto\<close>, \<open>hmac\<close>); the properties assume nothing about them.  Where a property rests
  on hashes being distinct, a collision is the explicit alternative.  An archive that
  is unavailable is an argument (\<open>fa\<close>), and the placement of a new collection comes from the host.

  Not modelled.  Export, import and restore of a collection (\<open>service.rs\<close>, \<open>restore.rs\<close>,
  \<open>restore_plan.rs\<close> beyond its row): they rebuild rows outside of the append path, so the reachable
  services are those of the other methods.  Concurrency inside a method: the backend takes the lock
  of the collection for each transaction, so methods are steps that do not overlap.  \<open>session.rs\<close>
  (dispatch by method name).  The hosts (\<open>log-server\<close>,
  \<open>store-pg\<close>, the Durable Object) and the conformance suite are I/O around these operations.
  \<open>replica\<close>, \<open>store-file\<close>, \<open>daemon\<close> and the rest of \<open>core\<close> (types, links, queries, the merge of
  frontmatter) are large programs of their own; simulation, migration, bindings and the older
  product are not part of the core.
\<close>

end
